(* ===== verification/Prelude.thy ===== *)
theory Prelude
  imports Main "HOL-Library.Word"
begin

unbundle bit_operations_syntax

text \<open>
  Shared vocabulary of the development: the C integer types of the target (a 32-bit ARM with
  unsigned \<^verbatim>\<open>char\<close>), byte buffers, the little-endian access macros of
  \<^verbatim>\<open>mmc_lib/fatfs/src/ff.h\<close> and the generic facts on words and lists that the component
  theories use.  Buffers are byte lists; an offset into a buffer is a \<^typ>\<open>nat\<close>.
\<close>

section \<open>Types\<close>

type_synonym BYTE = "8 word"
type_synonym WORD = "16 word"
type_synonym DWORD = "32 word"
type_synonym buffer = "BYTE list"

text \<open>Facts that turn word operations of the code into arithmetic on \<^typ>\<open>nat\<close>.\<close>

named_theorems word_arith

section \<open>Words\<close>

lemma unat_and_mask [word_arith]: "unat (x AND mask n) = unat x mod 2 ^ n"
  for x :: "'a::len word"
proof -
  have "unat (take_bit n x) = take_bit n (unat x)" by (rule unsigned_take_bit_eq)
  then show ?thesis by (simp only: take_bit_eq_mask [symmetric] take_bit_eq_mod [of n "unat x"])
qed

lemma unat_and_511 [word_arith]: "unat (x AND 511) = unat x mod 512" for x :: DWORD
proof -
  have "x AND 511 = x AND mask 9" by (simp add: mask_eq_exp_minus_1)
  then show ?thesis by (simp only: unat_and_mask) simp
qed

lemma unat_and_511_16 [word_arith]: "unat (x AND 511) = unat x mod 512" for x :: WORD
proof -
  have "x AND 511 = x AND mask 9" by (simp add: mask_eq_exp_minus_1)
  then show ?thesis by (simp only: unat_and_mask) simp
qed

lemma unat_and_15_16 [word_arith]: "unat (x AND 15) = unat x mod 16" for x :: WORD
proof -
  have "x AND 15 = x AND mask 4" by (simp add: mask_eq_exp_minus_1)
  then show ?thesis by (simp only: unat_and_mask) simp
qed

lemma unat_and_1 [word_arith]: "unat (x AND 1) = unat x mod 2" for x :: DWORD
proof -
  have "x AND 1 = x AND mask 1" by (simp add: mask_eq_exp_minus_1)
  then show ?thesis by (simp only: unat_and_mask) simp
qed

lemma and_1_eq_0_iff [word_arith]: "x AND 1 = 0 \<longleftrightarrow> even (unat x)" for x :: DWORD
  by (metis unat_and_1 unat_0 unat_eq_zero even_iff_mod_2_eq_zero)

lemma unat_widen [word_arith]:
  "unat (ucast (b :: BYTE) :: DWORD) = unat b"
  "unat (ucast (b :: BYTE) :: WORD) = unat b"
  "unat (ucast (w :: WORD) :: DWORD) = unat w"
  by (transfer, simp)+

lemma unat_narrow [word_arith]:
  "unat (ucast (d :: DWORD) :: BYTE) = unat d mod 256"
  "unat (ucast (d :: DWORD) :: WORD) = unat d mod 65536"
  "unat (ucast (w :: WORD) :: BYTE) = unat w mod 256"
  by (simp_all add: unsigned_ucast_eq take_bit_eq_mod)

text \<open>Signed words.\<close>

lemma sint_nonneg: "0 \<le> sint x \<Longrightarrow> sint x = uint x \<and> uint x < 2 ^ 31" for x :: DWORD
proof -
  assume n: "0 \<le> sint x"
  have lt: "sint x < 2 ^ 31" using sint_lt [of x] by simp
  have "uint x = take_bit 32 (sint x)" using uint_sint [of x] by simp
  also have "\<dots> = sint x" using n lt by (simp add: take_bit_int_eq_self)
  finally show ?thesis using lt by simp
qed

lemma sint_small: "uint x < 2 ^ 31 \<Longrightarrow> sint x = uint x" for x :: DWORD
proof -
  assume u: "uint x < 2 ^ 31"
  have "sint x = signed_take_bit 31 (uint x)" by (simp add: sint_uint)
  also have "\<dots> = uint x"
  proof (rule signed_take_bit_int_eq_self)
    show "- (2 ^ 31) \<le> uint x" by (rule order_trans [OF _ uint_ge_0]) simp
  qed (use u in simp)
  finally show ?thesis .
qed

text \<open>A 4-byte or 2-byte aligned field does not cross a sector boundary.\<close>

lemma div_mod_512: "r < 512 \<Longrightarrow> n = 512 * q + r \<Longrightarrow> n div 512 = q \<and> n mod 512 = (r :: nat)"
  by simp

lemma aligned_4_sector:
  "j < 4 \<Longrightarrow> (4 * c + j) div 512 = 4 * c div 512 \<and> (4 * c + j) mod 512 = 4 * c mod 512 + (j :: nat)"
proof -
  assume j: "j < 4"
  have "4 * c mod 512 = 4 * (c mod 128)" using mult_mod_right [of 4 c 128] by simp
  moreover have "c mod 128 < 128" by simp
  ultimately have "4 * c mod 512 + j < 512" using j by linarith
  moreover have "4 * c + j = 512 * (4 * c div 512) + (4 * c mod 512 + j)"
    using mult_div_mod_eq [of 512 "4 * c"] by linarith
  ultimately show ?thesis by (intro div_mod_512)
qed

lemma aligned_2_sector:
  "j < 2 \<Longrightarrow> (2 * c + j) div 512 = 2 * c div 512 \<and> (2 * c + j) mod 512 = 2 * c mod 512 + (j :: nat)"
proof -
  assume j: "j < 2"
  have "2 * c mod 512 = 2 * (c mod 256)" using mult_mod_right [of 2 c 256] by simp
  moreover have "c mod 256 < 256" by simp
  ultimately have "2 * c mod 512 + j < 512" using j by linarith
  moreover have "2 * c + j = 512 * (2 * c div 512) + (2 * c mod 512 + j)"
    using mult_div_mod_eq [of 512 "2 * c"] by linarith
  ultimately show ?thesis by (intro div_mod_512)
qed

section \<open>Blocks of a buffer\<close>

text \<open>\<open>splice off xs b\<close> overwrites the bytes of \<open>b\<close> from \<open>off\<close> on, as \<^verbatim>\<open>memcpy(&b[off], xs, n)\<close> does.\<close>

definition splice :: "nat \<Rightarrow> 'a list \<Rightarrow> 'a list \<Rightarrow> 'a list" where
  "splice off xs b = take off b @ xs @ drop (off + length xs) b"

lemma length_splice [simp]: "off + length xs \<le> length b \<Longrightarrow> length (splice off xs b) = length b"
  by (simp add: splice_def)

lemma nth_splice:
  "off + length xs \<le> length b \<Longrightarrow> i < length b \<Longrightarrow>
   splice off xs b ! i = (if off \<le> i \<and> i < off + length xs then xs ! (i - off) else b ! i)"
  by (auto simp: splice_def nth_append min_def)

section \<open>Little-endian access to byte buffers\<close>

definition LD_WORD :: "buffer \<Rightarrow> nat \<Rightarrow> WORD" where
  "LD_WORD p i = (push_bit 8 (ucast (p ! (i + 1)))) OR ucast (p ! i)"

definition LD_DWORD :: "buffer \<Rightarrow> nat \<Rightarrow> DWORD" where
  "LD_DWORD p i =
     push_bit 24 (ucast (p ! (i + 3))) OR push_bit 16 (ucast (p ! (i + 2)))
     OR push_bit 8 (ucast (p ! (i + 1))) OR ucast (p ! i)"

definition ST_WORD :: "nat \<Rightarrow> WORD \<Rightarrow> buffer \<Rightarrow> buffer" where
  "ST_WORD i val p = (p[i := ucast val])[i + 1 := ucast (drop_bit 8 val)]"

definition ST_DWORD :: "nat \<Rightarrow> DWORD \<Rightarrow> buffer \<Rightarrow> buffer" where
  "ST_DWORD i val p =
     (((p[i := ucast val])[i + 1 := ucast (drop_bit 8 (ucast val :: WORD))])
        [i + 2 := ucast (drop_bit 16 val)])[i + 3 := ucast (drop_bit 24 val)]"

lemma length_ST_WORD [simp]: "length (ST_WORD i v p) = length p"
  by (simp add: ST_WORD_def)

lemma length_ST_DWORD [simp]: "length (ST_DWORD i v p) = length p"
  by (simp add: ST_DWORD_def)

lemma nth_ST_WORD:
  "k < length p \<Longrightarrow> k \<noteq> i \<Longrightarrow> k \<noteq> i + 1 \<Longrightarrow> ST_WORD i v p ! k = p ! k"
  by (simp add: ST_WORD_def nth_list_update)

lemma nth_ST_DWORD:
  "k < length p \<Longrightarrow> k < i \<or> i + 3 < k \<Longrightarrow> ST_DWORD i v p ! k = p ! k"
  by (auto simp add: ST_DWORD_def nth_list_update)

lemma LD_WORD_cong:
  "p ! i = q ! i \<Longrightarrow> p ! (i + 1) = q ! (i + 1) \<Longrightarrow> LD_WORD p i = LD_WORD q i"
  by (simp add: LD_WORD_def)

lemma LD_DWORD_cong:
  "p ! i = q ! i \<Longrightarrow> p ! (i + 1) = q ! (i + 1) \<Longrightarrow> p ! (i + 2) = q ! (i + 2) \<Longrightarrow>
   p ! (i + 3) = q ! (i + 3) \<Longrightarrow> LD_DWORD p i = LD_DWORD q i"
  by (simp add: LD_DWORD_def)

lemma join_bytes_16: "push_bit 8 (ucast (ucast (drop_bit 8 v) :: BYTE)) OR ucast (ucast v :: BYTE) = (v :: WORD)"
  by (rule bit_word_eqI) (auto simp add: bit_simps)

lemma join_bytes_32:
  "push_bit 24 (ucast (ucast (drop_bit 24 v) :: BYTE))
   OR push_bit 16 (ucast (ucast (drop_bit 16 v) :: BYTE))
   OR push_bit 8 (ucast (ucast (drop_bit 8 (ucast v :: WORD)) :: BYTE))
   OR ucast (ucast v :: BYTE) = (v :: DWORD)"
proof (rule bit_word_eqI)
  fix n assume "n < LENGTH(32)"
  then consider "n < 8" | "8 \<le> n" "n < 16" | "16 \<le> n" "n < 24" | "24 \<le> n" "n < 32" by fastforce
  then show "bit (push_bit 24 (ucast (ucast (drop_bit 24 v) :: BYTE) :: DWORD)
   OR push_bit 16 (ucast (ucast (drop_bit 16 v) :: BYTE))
   OR push_bit 8 (ucast (ucast (drop_bit 8 (ucast v :: WORD)) :: BYTE))
   OR ucast (ucast v :: BYTE)) n = bit v n"
    by cases (auto simp add: bit_simps)
qed

lemma LD_ST_WORD [simp]: "i + 1 < length p \<Longrightarrow> LD_WORD (ST_WORD i v p) i = v"
  by (simp add: LD_WORD_def ST_WORD_def join_bytes_16)

lemma LD_ST_DWORD [simp]: "i + 3 < length p \<Longrightarrow> LD_DWORD (ST_DWORD i v p) i = v"
  by (simp add: LD_DWORD_def ST_DWORD_def nth_list_update join_bytes_32 [simplified])

end
