(* ===== verification/Diskio.thy ===== *)
theory Diskio
  imports Prelude
begin

unbundle bit_operations_syntax

text \<open>
  The disk layer of \<^verbatim>\<open>mmc_lib/fatfs/port/diskio.c\<close>: drive 0 is the MMC card, every other drive
  answers with an error.  The card itself is hardware.  It is described by the record
  \<open>card\<close>: the contents of its 512-byte blocks, and a schedule that says for the n-th transfer
  whether the controller reports success.  Nothing is assumed of the schedule, nor of what a
  failed transfer leaves in the block or in the buffer it was aimed at, so that every theorem
  stated for an arbitrary card covers every pattern of transfer errors.

  The locale \<open>sector_device\<close> is the contract the FAT layer relies on (one sector read or
  written at a time); it is interpreted at the end on the operations of this file.
\<close>

section \<open>State\<close>

record card =
  blk :: "DWORD \<Rightarrow> nat \<Rightarrow> BYTE"            \<comment> \<open>block contents, by block number and byte offset\<close>
  tick :: nat                             \<comment> \<open>transfers started so far\<close>
  xfer_ok :: "nat \<Rightarrow> bool"                \<comment> \<open>does the n-th transfer complete?\<close>
  rd_junk :: "nat \<Rightarrow> nat \<Rightarrow> BYTE"         \<comment> \<open>buffer contents after the n-th transfer failed\<close>
  wr_junk :: "nat \<Rightarrow> DWORD \<Rightarrow> nat \<Rightarrow> BYTE"  \<comment> \<open>block contents after the n-th transfer failed\<close>

record rtc =
  year :: DWORD
  month :: DWORD
  day :: DWORD
  hour :: DWORD
  minute :: DWORD
  sec :: DWORD

record dev = card +
  initDone :: DWORD      \<comment> \<open>\<^verbatim>\<open>fat_devices[0].initDone\<close>\<close>
  clock :: rtc

datatype DRESULT = RES_OK | RES_ERROR | RES_WRPRT | RES_NOTRDY | RES_PARERR

definition STA_NOINIT :: BYTE where "STA_NOINIT = 1"
definition STA_NODISK :: BYTE where "STA_NODISK = 2"
definition STA_PROTECT :: BYTE where "STA_PROTECT = 4"

definition DRIVE_NUM_MMC :: BYTE where "DRIVE_NUM_MMC = 0"
definition DRIVE_NUM_MAX :: BYTE where "DRIVE_NUM_MAX = 2"

lemmas disk_consts = STA_NOINIT_def STA_NODISK_def STA_PROTECT_def DRIVE_NUM_MMC_def
  DRIVE_NUM_MAX_def

section \<open>The card\<close>

definition sector_of :: "'a card_scheme \<Rightarrow> DWORD \<Rightarrow> buffer" where
  "sector_of c s = map (blk c s) [0..<512]"

definition card_read :: "buffer \<Rightarrow> DWORD \<Rightarrow> BYTE \<Rightarrow> 'a card_scheme \<Rightarrow> bool \<times> buffer \<times> 'a card_scheme"
where
  "card_read buff sector count c =
     (let n = tick c; len = 512 * unat count;
          data = (if xfer_ok c n
                  then concat (map (\<lambda>k. sector_of c (sector + of_nat k)) [0..<unat count])
                  else map (rd_junk c n) [0..<len])
      in (xfer_ok c n, data @ drop len buff, c\<lparr>tick := Suc n\<rparr>))"

definition card_write :: "buffer \<Rightarrow> DWORD \<Rightarrow> BYTE \<Rightarrow> 'a card_scheme \<Rightarrow> bool \<times> 'a card_scheme" where
  "card_write buff sector count c =
     (let n = tick c;
          put = (\<lambda>s i. if unat (s - sector) < unat count
                       then (if xfer_ok c n then buff ! (512 * unat (s - sector) + i)
                             else wr_junk c n s i)
                       else blk c s i)
      in (xfer_ok c n, c\<lparr>blk := put, tick := Suc n\<rparr>))"

definition card_init :: "'a card_scheme \<Rightarrow> bool \<times> 'a card_scheme" where
  "card_init c = (xfer_ok c (tick c), c\<lparr>tick := Suc (tick c)\<rparr>)"

section \<open>The operations of diskio.c\<close>

definition disk_initialize :: "BYTE \<Rightarrow> dev \<Rightarrow> BYTE \<times> dev" where
  "disk_initialize bValue d =
     (if DRIVE_NUM_MAX \<le> bValue then (STA_NODISK, d)
      else if DRIVE_NUM_MMC = bValue \<and> initDone d \<noteq> 1
      then (case card_init d of (status, d) \<Rightarrow>
              if \<not> status then (STA_NOINIT, d) else (0, d\<lparr>initDone := 1\<rparr>))
      else (0, d))"

definition disk_status :: "BYTE \<Rightarrow> BYTE" where
  "disk_status drv = 0"

definition disk_read :: "BYTE \<Rightarrow> buffer \<Rightarrow> DWORD \<Rightarrow> BYTE \<Rightarrow> dev \<Rightarrow> DRESULT \<times> buffer \<times> dev" where
  "disk_read drv buff sector count d =
     (if drv = DRIVE_NUM_MMC
      then (case card_read buff sector count d of (ok, buff, d) \<Rightarrow>
              (if ok then RES_OK else RES_ERROR, buff, d))
      else (RES_ERROR, buff, d))"

definition disk_write :: "BYTE \<Rightarrow> buffer \<Rightarrow> DWORD \<Rightarrow> BYTE \<Rightarrow> dev \<Rightarrow> DRESULT \<times> dev" where
  "disk_write ucDrive buff sector count d =
     (if ucDrive = DRIVE_NUM_MMC
      then (case card_write buff sector count d of (ok, d) \<Rightarrow>
              (if ok then RES_OK else RES_ERROR, d))
      else (RES_ERROR, d))"

definition disk_ioctl :: "BYTE \<Rightarrow> BYTE \<Rightarrow> DRESULT" where
  "disk_ioctl drv ctrl = RES_OK"

text \<open>The time stamp of FAT entries, from the BCD registers of the real-time clock.\<close>

definition get_fattime :: "'a rtc_scheme \<Rightarrow> DWORD" where
  "get_fattime t =
     push_bit 25 ((drop_bit 4 (year t) AND 0x7) * 10 + (year t AND 0xF))
     OR push_bit 21 ((drop_bit 4 (month t) AND 0x1) * 10 + (month t AND 0xF))
     OR push_bit 16 ((drop_bit 4 (day t) AND 0x3) * 10 + (day t AND 0xF))
     OR push_bit 11 ((drop_bit 4 (hour t) AND 0x3) * 10 + (hour t AND 0xF))
     OR push_bit 5 ((drop_bit 4 (minute t) AND 0x7) * 10 + (minute t AND 0xF))
     OR drop_bit 1 ((drop_bit 4 (sec t) AND 0x7) * 10 + (sec t AND 0xF))"

section \<open>The contract of a sector device\<close>

text \<open>
  Two loops of the FAT layer write one sector buffer to several sectors: the mirror loop of
  \<^verbatim>\<open>move_window\<close> (errors ignored, the distance is the size of a FAT) and the loops of
  \<^verbatim>\<open>reserve_direntry\<close> and \<^verbatim>\<open>f_mkdir\<close> that clear a new cluster (they stop at the first
  error).  Both take the device's write operation as an argument.
\<close>

fun mirror_writes :: "(buffer \<Rightarrow> DWORD \<Rightarrow> 'd \<Rightarrow> DRESULT \<times> 'd) \<Rightarrow> buffer \<Rightarrow> DWORD \<Rightarrow> DWORD \<Rightarrow> nat \<Rightarrow> 'd \<Rightarrow> 'd"
where
  "mirror_writes wr b wsect stride 0 d = d"
| "mirror_writes wr b wsect stride (Suc n) d =
     mirror_writes wr b (wsect + stride) stride n (snd (wr b (wsect + stride) d))"

fun clear_writes :: "(buffer \<Rightarrow> DWORD \<Rightarrow> 'd \<Rightarrow> DRESULT \<times> 'd) \<Rightarrow> buffer \<Rightarrow> DWORD \<Rightarrow> nat \<Rightarrow> 'd \<Rightarrow> bool \<times> 'd"
where
  "clear_writes wr b sector 0 d = (True, d)"
| "clear_writes wr b sector (Suc n) d =
     (case wr b sector d of (r, d) \<Rightarrow>
        if r \<noteq> RES_OK then (False, d) else clear_writes wr b (sector + 1) n d)"

locale sector_device =
  fixes rd :: "buffer \<Rightarrow> DWORD \<Rightarrow> 'd \<Rightarrow> DRESULT \<times> buffer \<times> 'd"
    and wr :: "buffer \<Rightarrow> DWORD \<Rightarrow> 'd \<Rightarrow> DRESULT \<times> 'd"
    and cont :: "'d \<Rightarrow> DWORD \<Rightarrow> buffer"
    and healthy :: "'d \<Rightarrow> bool"
  assumes len_cont: "length (cont d s) = 512"
    and rd_len: "rd b s d = (r, b', d') \<Longrightarrow> length b = 512 \<Longrightarrow> length b' = 512"
    and rd_cont: "rd b s d = (r, b', d') \<Longrightarrow> cont d' = cont d"
    and rd_ok: "rd b s d = (RES_OK, b', d') \<Longrightarrow> length b = 512 \<Longrightarrow> b' = cont d s"
    and wr_other: "wr b s d = (r, d') \<Longrightarrow> t \<noteq> s \<Longrightarrow> cont d' t = cont d t"
    and wr_ok: "wr b s d = (RES_OK, d') \<Longrightarrow> length b = 512 \<Longrightarrow> cont d' s = b"
    and healthy_rd: "healthy d \<Longrightarrow> rd b s d = (r, b', d') \<Longrightarrow> r = RES_OK \<and> healthy d'"
    and healthy_wr: "healthy d \<Longrightarrow> wr b s d = (r, d') \<Longrightarrow> r = RES_OK \<and> healthy d'"
begin

lemma wr_healthy_cont:
  assumes "healthy d" "wr b s d = (r, d')" "length b = 512"
  shows "cont d' = (cont d)(s := b)"
proof
  fix t
  from assms have "r = RES_OK" using healthy_wr by blast
  with assms show "cont d' t = ((cont d)(s := b)) t"
    by (cases "t = s") (auto simp: wr_ok wr_other)
qed

lemma write_then_read:
  assumes "wr b s d = (RES_OK, d')" "rd b0 s d' = (RES_OK, b', d'')" "length b = 512" "length b0 = 512"
  shows "b' = b"
  using assms rd_ok wr_ok by metis

lemma mirror_healthy: "healthy d \<Longrightarrow> healthy (mirror_writes wr b w stride n d)"
proof (induction n arbitrary: w d)
  case (Suc n)
  obtain r d' where "wr b (w + stride) d = (r, d')" by fastforce
  with Suc show ?case using healthy_wr by simp
qed simp

lemma mirror_other:
  "(\<And>k. 1 \<le> k \<Longrightarrow> k \<le> n \<Longrightarrow> t \<noteq> w + of_nat k * stride) \<Longrightarrow>
   cont (mirror_writes wr b w stride n d) t = cont d t"
proof (induction n arbitrary: w d)
  case (Suc n)
  obtain r d' where w: "wr b (w + stride) d = (r, d')" by fastforce
  have "t \<noteq> w + stride + of_nat k * stride" if "1 \<le> k" "k \<le> n" for k
    using Suc.prems [of "Suc k"] that by (simp add: algebra_simps)
  then have "cont (mirror_writes wr b (w + stride) stride n d') t = cont d' t"
    by (rule Suc.IH)
  moreover have "t \<noteq> w + stride" using Suc.prems [of 1] by simp
  ultimately show ?case using w wr_other by simp
qed simp

lemma mirror_copies:
  "healthy d \<Longrightarrow> length b = 512 \<Longrightarrow> 1 \<le> k \<Longrightarrow> k \<le> n \<Longrightarrow>
   cont (mirror_writes wr b w stride n d) (w + of_nat k * stride) = b"
proof (induction n arbitrary: w d k)
  case (Suc n)
  obtain r d' where w: "wr b (w + stride) d = (r, d')" by fastforce
  with Suc.prems have h: "healthy d'" and c: "cont d' (w + stride) = b"
    using healthy_wr wr_ok by blast+
  show ?case
  proof (cases "\<exists>j. 1 \<le> j \<and> j \<le> n \<and> w + of_nat k * stride = w + stride + of_nat j * stride")
    case True
    then obtain j where "1 \<le> j" "j \<le> n" "w + of_nat k * stride = w + stride + of_nat j * stride" by blast
    with Suc.IH [OF h Suc.prems(2), of j "w + stride"] w show ?thesis
      by (simp add: algebra_simps)
  next
    case False
    have "k = 1"
    proof (rule ccontr)
      assume "k \<noteq> 1"
      with Suc.prems have "1 \<le> k - 1" "k - 1 \<le> n" "k = Suc (k - 1)" by auto
      with False show False by (metis add.assoc distrib_right mult_1 of_nat_Suc)
    qed
    with False have "cont (mirror_writes wr b (w + stride) stride n d') (w + stride) = cont d' (w + stride)"
      by (intro mirror_other) auto
    with \<open>k = 1\<close> w c show ?thesis by simp
  qed
qed simp

lemma clear_other:
  "(\<And>k. k < n \<Longrightarrow> t \<noteq> s + of_nat k) \<Longrightarrow> cont (snd (clear_writes wr b s n d)) t = cont d t"
proof (induction n arbitrary: s d)
  case (Suc n)
  obtain r d' where w: "wr b s d = (r, d')" by fastforce
  have "t \<noteq> s" using Suc.prems [of 0] by simp
  then have c: "cont d' t = cont d t" using w wr_other by blast
  have "t \<noteq> s + 1 + of_nat k" if "k < n" for k
    using Suc.prems [of "Suc k"] that by (simp add: algebra_simps)
  then have "cont (snd (clear_writes wr b (s + 1) n d')) t = cont d' t" by (rule Suc.IH)
  with w c show ?case by simp
qed simp

lemma clear_ok:
  "healthy d \<Longrightarrow> fst (clear_writes wr b s n d) \<and> healthy (snd (clear_writes wr b s n d))"
proof (induction n arbitrary: s d)
  case (Suc n)
  obtain r d' where w: "wr b s d = (r, d')" by fastforce
  with Suc.prems have "r = RES_OK" "healthy d'" using healthy_wr by blast+
  with Suc.IH w show ?case by simp
qed simp

lemma clear_fills:
  "fst (clear_writes wr b s n d) \<Longrightarrow> length b = 512 \<Longrightarrow> n \<le> 2 ^ 32 \<Longrightarrow> k < n \<Longrightarrow>
   cont (snd (clear_writes wr b s n d)) (s + of_nat k) = b"
proof (induction n arbitrary: s d k)
  case (Suc n)
  obtain r d' where w: "wr b s d = (r, d')" by fastforce
  with Suc.prems have ok: "r = RES_OK" and rest: "fst (clear_writes wr b (s + 1) n d')"
    by (auto split: if_splits)
  have snd: "snd (clear_writes wr b s (Suc n) d) = snd (clear_writes wr b (s + 1) n d')"
    using w ok by simp
  show ?case
  proof (cases k)
    case 0
    have "s \<noteq> s + 1 + of_nat j" if "j < n" for j
    proof
      assume "s = s + 1 + of_nat j"
      then have "(of_nat (Suc j) :: DWORD) = 0" by (simp add: algebra_simps)
      then have "2 ^ 32 dvd Suc j" by (simp only: word_of_nat_eq_0_iff) simp
      with that Suc.prems(3) show False by (auto dest: dvd_imp_le)
    qed
    then have "cont (snd (clear_writes wr b (s + 1) n d')) s = cont d' s" by (rule clear_other)
    with 0 snd w ok Suc.prems(2) wr_ok show ?thesis by simp
  next
    case (Suc j)
    with Suc.prems rest have "cont (snd (clear_writes wr b (s + 1) n d')) (s + 1 + of_nat j) = b"
      by (intro Suc.IH) auto
    with Suc snd show ?thesis by (simp add: algebra_simps)
  qed
qed simp

end

section \<open>The operations of diskio.c keep the contract\<close>

definition disk_healthy :: "BYTE \<Rightarrow> dev \<Rightarrow> bool" where
  "disk_healthy drv d \<longleftrightarrow> drv = DRIVE_NUM_MMC \<and> (\<forall>n. xfer_ok d n)"

lemma length_sector_of [simp]: "length (sector_of c s) = 512"
  by (simp add: sector_of_def)

lemma sector_of_tick [simp]: "sector_of (c\<lparr>tick := n\<rparr>) = sector_of c"
  by (simp add: sector_of_def fun_eq_iff)

lemma sector_of_initDone [simp]: "sector_of (d\<lparr>initDone := n\<rparr>) = sector_of d"
  by (simp add: sector_of_def fun_eq_iff)

lemma disk_read_1:
  "disk_read drv b s 1 d =
     (if drv = DRIVE_NUM_MMC
      then (if xfer_ok d (tick d) then RES_OK else RES_ERROR,
            (if xfer_ok d (tick d) then sector_of d s else map (rd_junk d (tick d)) [0..<512]) @ drop 512 b,
            d\<lparr>tick := Suc (tick d)\<rparr>)
      else (RES_ERROR, b, d))"
  by (simp add: disk_read_def card_read_def Let_def)

lemma disk_write_1:
  "disk_write drv b s 1 d =
     (if drv = DRIVE_NUM_MMC
      then (if xfer_ok d (tick d) then RES_OK else RES_ERROR,
            d\<lparr>blk := (blk d)(s := if xfer_ok d (tick d) then (!) b else wr_junk d (tick d) s),
              tick := Suc (tick d)\<rparr>)
      else (RES_ERROR, d))"
proof -
  have "unat (t - s) < unat (1 :: BYTE) \<longleftrightarrow> t = s" for t :: DWORD
    by (simp add: unat_eq_0)
  then show ?thesis
    by (auto simp: disk_write_def card_write_def Let_def fun_upd_def fun_eq_iff
        intro!: arg_cong [where f = "\<lambda>f. d\<lparr>blk := f, tick := _\<rparr>"])
qed

lemma sector_of_upd:
  "length b = 512 \<Longrightarrow> sector_of (d\<lparr>blk := (blk d)(s := (!) b)\<rparr>) s = b"
  using map_nth [of b] by (simp add: sector_of_def)

lemma sector_of_upd_other:
  "t \<noteq> s \<Longrightarrow> sector_of (d\<lparr>blk := (blk d)(s := f)\<rparr>) t = sector_of d t"
  by (simp add: sector_of_def)

interpretation mmc: sector_device
  "\<lambda>b s. disk_read drv b s 1" "\<lambda>b s. disk_write drv b s 1" sector_of "disk_healthy drv" for drv
  by unfold_locales
    (auto simp: disk_read_1 disk_write_1 disk_healthy_def sector_of_upd sector_of_upd_other
      split: if_splits)

end
