(* ===== verification/FfWindow.thy ===== *)
theory FfWindow
  imports Diskio
begin

unbundle bit_operations_syntax

text \<open>
  The sector window and the FAT accesses of \<^verbatim>\<open>mmc_lib/fatfs/src/ff.c\<close>: the file system
  object \<^verbatim>\<open>FATFS\<close>, \<^verbatim>\<open>move_window\<close>, \<^verbatim>\<open>sync\<close>, \<^verbatim>\<open>get_cluster\<close>, \<^verbatim>\<open>put_cluster\<close> and
  \<^verbatim>\<open>clust2sect\<close>.  A mounted volume is the record \<open>vol\<close>: the fields of \<^verbatim>\<open>FATFS\<close> and the disk
  below it.  The one sector buffer \<^verbatim>\<open>win\<close> caches directory and FAT sectors; \<open>eff\<close> is the
  content of a sector as the file system sees it (the window where it holds the sector, the
  disk elsewhere).  The lemmas show that on a card that answers, moving the window keeps
  \<open>eff\<close> on every sector but the backup copies of the FAT.
\<close>

section \<open>The file system object\<close>

record FATFS =
  fs_id :: WORD
  n_rootdir :: WORD
  winsect :: DWORD
  sects_fat :: DWORD
  max_clust :: DWORD
  fatbase :: DWORD
  dirbase :: DWORD
  database :: DWORD
  last_clust :: DWORD
  free_clust :: DWORD
  fs_type :: BYTE
  sects_clust :: BYTE
  n_fats :: BYTE
  drive :: BYTE
  winflag :: BYTE
  win :: buffer

record vol = FATFS +
  disk :: dev

definition FS_FAT12 :: BYTE where "FS_FAT12 = 1"
definition FS_FAT16 :: BYTE where "FS_FAT16 = 2"
definition FS_FAT32 :: BYTE where "FS_FAT32 = 3"

lemmas fs_type_defs = FS_FAT12_def FS_FAT16_def FS_FAT32_def

datatype FRESULT = FR_OK | FR_NOT_READY | FR_NO_FILE | FR_NO_PATH | FR_INVALID_NAME
  | FR_INVALID_DRIVE | FR_DENIED | FR_EXIST | FR_RW_ERROR | FR_WRITE_PROTECTED | FR_NOT_ENABLED
  | FR_NO_FILESYSTEM | FR_INVALID_OBJECT | FR_MKFS_ABORTED

section \<open>The sector window\<close>

text \<open>The write-back half of \<^verbatim>\<open>move_window\<close>, with the loop that updates the FAT copies.\<close>

definition flush_window :: "vol \<Rightarrow> bool \<times> vol" where
  "flush_window v =
     (if winflag v \<noteq> 0
      then (case disk_write (drive v) (win v) (winsect v) 1 (disk v) of (r, d) \<Rightarrow>
              if r \<noteq> RES_OK then (False, v\<lparr>disk := d\<rparr>)
              else (True, v\<lparr>winflag := 0,
                     disk := (if winsect v < fatbase v + sects_fat v
                              then mirror_writes (\<lambda>b s. disk_write (drive v) b s 1) (win v)
                                     (winsect v) (sects_fat v) (unat (n_fats v) - 1) d
                              else d)\<rparr>))
      else (True, v))"

definition load_window :: "DWORD \<Rightarrow> vol \<Rightarrow> bool \<times> vol" where
  "load_window sector v =
     (case disk_read (drive v) (win v) sector 1 (disk v) of (r, w, d) \<Rightarrow>
        if r \<noteq> RES_OK then (False, v\<lparr>win := w, disk := d\<rparr>)
        else (True, v\<lparr>win := w, disk := d, winsect := sector\<rparr>))"

definition move_window :: "DWORD \<Rightarrow> vol \<Rightarrow> bool \<times> vol" where
  "move_window sector v =
     (if winsect v \<noteq> sector
      then (case flush_window v of (ok, v) \<Rightarrow>
              if \<not> ok then (False, v)
              else if sector \<noteq> 0 then load_window sector v else (True, v))
      else (True, v))"

definition sync :: "vol \<Rightarrow> FRESULT \<times> vol" where
  "sync v =
     (case move_window 0 (v\<lparr>winflag := 1\<rparr>) of (ok, v) \<Rightarrow>
        if \<not> ok then (FR_RW_ERROR, v)
        else if disk_ioctl (drive v) 3 \<noteq> RES_OK then (FR_RW_ERROR, v) else (FR_OK, v))"

section \<open>FAT entries\<close>

definition fat12_bc :: "DWORD \<Rightarrow> WORD" where
  "fat12_bc clust = ucast ((ucast (ucast clust :: WORD) :: DWORD) * 3 div 2)"

definition fat16_off :: "DWORD \<Rightarrow> nat" where
  "fat16_off clust = unat (((ucast (ucast clust :: WORD) :: DWORD) * 2) AND 511)"

definition fat32_off :: "DWORD \<Rightarrow> nat" where
  "fat32_off clust = unat (((ucast (ucast clust :: WORD) :: DWORD) * 4) AND 511)"

definition get_cluster :: "DWORD \<Rightarrow> vol \<Rightarrow> DWORD \<times> vol" where
  "get_cluster clust v =
     (if 2 \<le> clust \<and> clust < max_clust v then
        if fs_type v = FS_FAT12 then
          (let bc = fat12_bc clust in
           case move_window (fatbase v + ucast (bc div 512)) v of (ok, v) \<Rightarrow>
           if \<not> ok then (1, v) else
           let wc = ucast (win v ! unat (bc AND 511)) :: WORD; bc = bc + 1 in
           case move_window (fatbase v + ucast (bc div 512)) v of (ok, v) \<Rightarrow>
           if \<not> ok then (1, v) else
           let wc = wc OR push_bit 8 (ucast (win v ! unat (bc AND 511))) in
           (if clust AND 1 \<noteq> 0 then ucast (drop_bit 4 wc) else ucast (wc AND 0xFFF), v))
        else if fs_type v = FS_FAT16 then
          (case move_window (fatbase v + clust div 256) v of (ok, v) \<Rightarrow>
           if \<not> ok then (1, v) else (ucast (LD_WORD (win v) (fat16_off clust)), v))
        else if fs_type v = FS_FAT32 then
          (case move_window (fatbase v + clust div 128) v of (ok, v) \<Rightarrow>
           if \<not> ok then (1, v) else (LD_DWORD (win v) (fat32_off clust) AND 0x0FFFFFFF, v))
        else (1, v)
      else (1, v))"

definition put_cluster :: "DWORD \<Rightarrow> DWORD \<Rightarrow> vol \<Rightarrow> bool \<times> vol" where
  "put_cluster clust val v =
     (if fs_type v = FS_FAT12 then
        (let bc = fat12_bc clust in
         case move_window (fatbase v + ucast (bc div 512)) v of (ok, v) \<Rightarrow>
         if \<not> ok then (False, v) else
         let p = unat (bc AND 511); b = win v ! p;
             v = v\<lparr>win := (win v)[p := (if clust AND 1 \<noteq> 0
                                       then (b AND 0x0F) OR push_bit 4 (ucast val) else ucast val)]\<rparr>;
             bc = bc + 1;
             v = v\<lparr>winflag := 1\<rparr> in
         case move_window (fatbase v + ucast (bc div 512)) v of (ok, v) \<Rightarrow>
         if \<not> ok then (False, v) else
         let p = unat (bc AND 511); b = win v ! p;
             v = v\<lparr>win := (win v)[p := (if clust AND 1 \<noteq> 0 then ucast (drop_bit 4 val)
                                       else (b AND 0xF0) OR (ucast (drop_bit 8 val) AND 0x0F))]\<rparr> in
         (True, v\<lparr>winflag := 1\<rparr>))
      else if fs_type v = FS_FAT16 then
        (case move_window (fatbase v + clust div 256) v of (ok, v) \<Rightarrow>
         if \<not> ok then (False, v)
         else (True, v\<lparr>win := ST_WORD (fat16_off clust) (ucast val) (win v), winflag := 1\<rparr>))
      else if fs_type v = FS_FAT32 then
        (case move_window (fatbase v + clust div 128) v of (ok, v) \<Rightarrow>
         if \<not> ok then (False, v)
         else (True, v\<lparr>win := ST_DWORD (fat32_off clust) val (win v), winflag := 1\<rparr>))
      else (False, v))"

definition clust2sect :: "vol \<Rightarrow> DWORD \<Rightarrow> DWORD" where
  "clust2sect v clust =
     (let clust = clust - 2 in
      if max_clust v - 2 \<le> clust then 0 else clust * ucast (sects_clust v) + database v)"

section \<open>Well-formed volumes\<close>

text \<open>
  \<open>geom\<close> collects the fields that only mounting writes.  \<open>geom_ok\<close> says that the FAT area lies
  within the address range and that the entries of all clusters fit into one FAT.
\<close>

definition geom :: "vol \<Rightarrow> WORD \<times> WORD \<times> DWORD \<times> DWORD \<times> DWORD \<times> DWORD \<times> DWORD \<times> BYTE \<times> BYTE \<times> BYTE \<times> BYTE"
where
  "geom v = (fs_id v, n_rootdir v, sects_fat v, max_clust v, fatbase v, dirbase v, database v,
             fs_type v, sects_clust v, n_fats v, drive v)"

definition fat_fits :: "vol \<Rightarrow> bool" where
  "fat_fits v \<longleftrightarrow>
     fs_type v = FS_FAT12 \<and> unat (max_clust v) \<le> 0xFF7 \<and> 3 * unat (max_clust v) \<le> 1024 * unat (sects_fat v)
   \<or> fs_type v = FS_FAT16 \<and> unat (max_clust v) \<le> 0xFFF7 \<and> 2 * unat (max_clust v) \<le> 512 * unat (sects_fat v)
   \<or> fs_type v = FS_FAT32 \<and> unat (max_clust v) \<le> 0x0FFFFFF7 \<and> 4 * unat (max_clust v) \<le> 512 * unat (sects_fat v)"

definition geom_ok :: "vol \<Rightarrow> bool" where
  "geom_ok v \<longleftrightarrow>
     0 < unat (fatbase v) \<and> 0 < unat (sects_fat v) \<and> 1 \<le> unat (n_fats v) \<and>
     unat (fatbase v) + unat (n_fats v) * unat (sects_fat v) < 2 ^ 32 \<and> fat_fits v"

definition win_ok :: "vol \<Rightarrow> bool" where
  "win_ok v \<longleftrightarrow>
     length (win v) = 512 \<and>
     (if winsect v = 0 then winflag v = 0
      else fatbase v \<le> winsect v \<and>
           (winflag v = 0 \<longrightarrow> win v = sector_of (disk v) (winsect v)))"

definition vol_ok :: "vol \<Rightarrow> bool" where
  "vol_ok v \<longleftrightarrow> geom_ok v \<and> win_ok v \<and> disk_healthy (drive v) (disk v)"

definition eff :: "vol \<Rightarrow> DWORD \<Rightarrow> buffer" where
  "eff v t = (if t = winsect v then win v else sector_of (disk v) t)"

text \<open>The sectors of the second and later FAT copies.\<close>

definition backup :: "vol \<Rightarrow> DWORD \<Rightarrow> bool" where
  "backup v t \<longleftrightarrow> unat (fatbase v) + unat (sects_fat v) \<le> unat t \<and>
     unat t < unat (fatbase v) + unat (n_fats v) * unat (sects_fat v)"

text \<open>What a step that changes no file data may do.\<close>

definition same_view :: "vol \<Rightarrow> vol \<Rightarrow> bool" where
  "same_view v v' \<longleftrightarrow>
     geom v' = geom v \<and> vol_ok v' \<and> free_clust v' = free_clust v \<and> last_clust v' = last_clust v \<and>
     (\<forall>t. t \<noteq> 0 \<longrightarrow> \<not> backup v t \<longrightarrow> eff v' t = eff v t)"

lemma geom_eqD:
  "geom v' = geom v \<Longrightarrow>
     fs_id v' = fs_id v \<and> n_rootdir v' = n_rootdir v \<and> sects_fat v' = sects_fat v \<and>
     max_clust v' = max_clust v \<and> fatbase v' = fatbase v \<and> dirbase v' = dirbase v \<and>
     database v' = database v \<and> fs_type v' = fs_type v \<and> sects_clust v' = sects_clust v \<and>
     n_fats v' = n_fats v \<and> drive v' = drive v"
  by (simp add: geom_def)

lemma geom_ok_cong: "geom v' = geom v \<Longrightarrow> geom_ok v' = geom_ok v"
  by (drule geom_eqD) (simp add: geom_ok_def fat_fits_def)

lemma backup_cong: "geom v' = geom v \<Longrightarrow> backup v' = backup v"
  by (drule geom_eqD) (simp add: backup_def fun_eq_iff)

lemma eff_winsect [simp]: "eff v (winsect v) = win v"
  by (simp add: eff_def)

lemma length_eff: "vol_ok v \<Longrightarrow> length (eff v t) = 512"
  by (simp add: eff_def vol_ok_def win_ok_def)

lemma same_view_refl: "vol_ok v \<Longrightarrow> same_view v v"
  by (simp add: same_view_def)

lemma same_view_trans: "same_view u v \<Longrightarrow> same_view v w \<Longrightarrow> same_view u w"
  using backup_cong [of v u] by (simp add: same_view_def)

text \<open>No sector up to the end of the first FAT is a backup sector.\<close>

lemma first_fat_not_backup: "unat t < unat (fatbase v) + unat (sects_fat v) \<Longrightarrow> \<not> backup v t"
  by (simp add: backup_def)

lemma first_fat_end:
  assumes "geom_ok v"
  shows "unat (fatbase v + sects_fat v) = unat (fatbase v) + unat (sects_fat v)"
proof -
  have "1 * unat (sects_fat v) \<le> unat (n_fats v) * unat (sects_fat v)"
    using assms by (intro mult_right_mono) (auto simp: geom_ok_def)
  moreover have "unat (fatbase v) + unat (n_fats v) * unat (sects_fat v) < 2 ^ 32"
    using assms by (simp add: geom_ok_def)
  ultimately have "unat (fatbase v) + unat (sects_fat v) < 2 ^ 32" by linarith
  then show ?thesis by (simp add: unat_word_ariths)
qed

lemma mirror_target:
  assumes g: "geom_ok v" and w: "unat (fatbase v) \<le> unat s" "s < fatbase v + sects_fat v"
    and k: "1 \<le> k" "k \<le> unat (n_fats v) - 1"
  shows "backup v (s + of_nat k * sects_fat v)"
proof -
  let ?F = "unat (fatbase v)" and ?S = "unat (sects_fat v)" and ?N = "unat (n_fats v)"
  have s: "unat s < ?F + ?S"
    using w(2) first_fat_end [OF g] by (simp add: word_less_nat_alt)
  have "k * ?S + ?S \<le> ?N * ?S"
    using k mult_right_mono [of "k + 1" ?N ?S] by (simp add: algebra_simps)
  then have up: "unat s + k * ?S < ?F + ?N * ?S" using s by linarith
  then have small: "unat s + k * ?S < 2 ^ 32" using g by (simp add: geom_ok_def)
  have "unat (of_nat k * sects_fat v) = k * ?S"
  proof -
    have "k < 2 ^ 32" using k unsigned_less [of "n_fats v", where ?'a = nat] by simp
    moreover have "k * ?S < 2 ^ 32" using small by linarith
    ultimately show ?thesis by (simp add: unat_word_ariths unat_of_nat)
  qed
  with small have "unat (s + of_nat k * sects_fat v) = unat s + k * ?S"
    by (simp add: unat_word_ariths)
  moreover have "?S \<le> k * ?S" using k by (cases k) auto
  ultimately show ?thesis using up w(1) unfolding backup_def by linarith
qed

section \<open>Moving the window\<close>

lemma flush_window_ok:
  assumes ok: "vol_ok v" and dirty: "winflag v \<noteq> 0" and fl: "flush_window v = (r, v')"
  shows "r" and "winflag v' = 0" and "winsect v' = winsect v" and "win v' = win v"
    and "sector_of (disk v') (winsect v) = win v"
    and "\<not> backup v t \<Longrightarrow> t \<noteq> winsect v \<Longrightarrow> sector_of (disk v') t = sector_of (disk v) t"
    and "geom v' = geom v" and "disk_healthy (drive v) (disk v')"
    and "free_clust v' = free_clust v" and "last_clust v' = last_clust v"
proof -
  have g: "geom_ok v" and len: "length (win v) = 512" and h: "disk_healthy (drive v) (disk v)"
    using ok by (auto simp: vol_ok_def win_ok_def)
  have low: "unat (fatbase v) \<le> unat (winsect v)"
    using ok dirty by (auto simp: vol_ok_def win_ok_def word_le_nat_alt split: if_splits)
  obtain q d where w: "disk_write (drive v) (win v) (winsect v) 1 (disk v) = (q, d)" by fastforce
  then have q: "q = RES_OK" and hd: "disk_healthy (drive v) d"
    using mmc.healthy_wr [OF h] by blast+
  have cd: "sector_of d = (sector_of (disk v))(winsect v := win v)"
    using mmc.wr_healthy_cont [OF h w len] .
  define d' where "d' = (if winsect v < fatbase v + sects_fat v
    then mirror_writes (\<lambda>b s. disk_write (drive v) b s 1) (win v) (winsect v) (sects_fat v)
           (unat (n_fats v) - 1) d else d)"
  have v': "r \<and> v' = v\<lparr>winflag := 0, disk := d'\<rparr>"
    using fl w q dirty by (auto simp: flush_window_def d'_def)
  have hd': "disk_healthy (drive v) d'"
    using hd mmc.mirror_healthy by (simp add: d'_def)
  have same: "sector_of d' t = sector_of d t" if "\<not> backup v t" for t
  proof (cases "winsect v < fatbase v + sects_fat v")
    case True
    then have "t \<noteq> winsect v + of_nat k * sects_fat v" if "1 \<le> k" "k \<le> unat (n_fats v) - 1" for k
      using mirror_target [OF g low True that] \<open>\<not> backup v t\<close> by auto
    then show ?thesis using True mmc.mirror_other by (simp add: d'_def)
  qed (simp add: d'_def)
  have own: "sector_of d' (winsect v) = win v"
  proof (cases "winsect v < fatbase v + sects_fat v")
    case True
    then have "\<not> backup v (winsect v)"
      using first_fat_end [OF g] by (intro first_fat_not_backup) (simp add: word_less_nat_alt)
    then show ?thesis using same cd by simp
  qed (simp add: d'_def cd)
  show "r" "winflag v' = 0" "winsect v' = winsect v" "win v' = win v"
    "sector_of (disk v') (winsect v) = win v" "geom v' = geom v"
    "disk_healthy (drive v) (disk v')" "free_clust v' = free_clust v" "last_clust v' = last_clust v"
    using v' own hd' by (auto simp: geom_def)
  show "sector_of (disk v') t = sector_of (disk v) t" if "\<not> backup v t" "t \<noteq> winsect v"
    using v' same [OF that(1)] cd that(2) by simp
qed

lemma load_window_ok:
  assumes "disk_healthy (drive v) (disk v)" "length (win v) = 512" "load_window s v = (r, v')"
  shows "r \<and> v' = v\<lparr>win := sector_of (disk v) s, disk := disk v', winsect := s\<rparr> \<and>
         sector_of (disk v') = sector_of (disk v) \<and> disk_healthy (drive v) (disk v')"
proof -
  obtain q w d where rd: "disk_read (drive v) (win v) s 1 (disk v) = (q, w, d)"
    by (metis prod_cases3)
  then have "q = RES_OK" "disk_healthy (drive v) d" "sector_of d = sector_of (disk v)"
    using mmc.healthy_rd [OF assms(1) rd] mmc.rd_cont [OF rd] by blast+
  moreover from this have "w = sector_of (disk v) s" using mmc.rd_ok rd assms(2) by blast
  ultimately show ?thesis using assms(3) rd by (auto simp: load_window_def)
qed

lemma move_window_ok:
  assumes ok: "vol_ok v" and s: "fatbase v \<le> s" and mv: "move_window s v = (r, v')"
  shows "r" and "winsect v' = s" and "same_view v v'"
proof -
  have s0: "s \<noteq> 0"
    using ok s by (auto simp: vol_ok_def geom_ok_def word_le_nat_alt)
  have "r \<and> winsect v' = s \<and> same_view v v'"
  proof (cases "winsect v = s")
    case True
    with mv ok show ?thesis by (auto simp: move_window_def same_view_refl)
  next
    case False
    obtain q u where fl: "flush_window v = (q, u)" by fastforce
    have u: "q \<and> winflag u = 0 \<and> winsect u = winsect v \<and> win u = win v \<and> geom u = geom v \<and>
      disk_healthy (drive v) (disk u) \<and> free_clust u = free_clust v \<and> last_clust u = last_clust v \<and>
      (\<forall>t. t \<noteq> 0 \<longrightarrow> \<not> backup v t \<longrightarrow> sector_of (disk u) t = eff v t)"
    proof (cases "winflag v = 0")
      case True
      with fl have "q" "u = v" by (auto simp: flush_window_def)
      with True ok show ?thesis
        by (auto simp: vol_ok_def win_ok_def eff_def split: if_splits)
    next
      case False
      show ?thesis
        using flush_window_ok [OF ok False fl] by (auto simp: eff_def)
    qed
    then have lw: "load_window s u = (r, v')"
      using mv fl False s0 by (simp add: move_window_def)
    have drv: "drive u = drive v" using u geom_eqD by blast
    have "length (win u) = 512" using u ok by (simp add: vol_ok_def win_ok_def)
    with load_window_ok [OF _ _ lw] u drv
    have lw': "r" "v' = u\<lparr>win := sector_of (disk u) s, disk := disk v', winsect := s\<rparr>"
      "sector_of (disk v') = sector_of (disk u)" "disk_healthy (drive v) (disk v')" by auto
    have fields: "winsect v' = s" "win v' = sector_of (disk u) s" "winflag v' = 0" "geom v' = geom v"
      "free_clust v' = free_clust v" "last_clust v' = last_clust v"
      using u by (subst lw'(2), simp add: geom_def)+
    have "vol_ok v'"
      using ok s s0 fields lw' geom_eqD [OF fields(4)] geom_ok_cong [OF fields(4)]
      by (simp add: vol_ok_def win_ok_def)
    moreover have "eff v' t = eff v t" if "t \<noteq> 0" "\<not> backup v t" for t
      using u that fields lw' by (cases "t = s") (simp_all add: eff_def [of v'])
    ultimately show ?thesis using fields lw' by (simp add: same_view_def)
  qed
  then show "r" "winsect v' = s" "same_view v v'" by auto
qed

section \<open>The properties\<close>

text \<open>
  A volume to evaluate the properties on: FAT16, one FAT sector and its copy at sector 1, clusters
  2 to 9, the chain 2, 3, 5 (its entries are the 16-bit numbers at bytes 4, 6 and 10 of the FAT), a
  root directory with the file \<^verbatim>\<open>A.TXT\<close> of 1300 bytes in that chain, and data sectors that count.
\<close>

definition sample_entry :: buffer where
  "sample_entry = [0x41, 0x20, 0x20, 0x20, 0x20, 0x20, 0x20, 0x20, 0x54, 0x58, 0x54, 0x20,
     0, 0, 0, 0, 0, 0, 0, 0, 0, 0, 0, 0, 0, 0, 2, 0, 0x14, 5, 0, 0]"

definition sample_blk :: "DWORD \<Rightarrow> nat \<Rightarrow> BYTE" where
  "sample_blk s i =
     (if s = 1 then (if i = 4 then 3 else if i = 6 then 5 else if i = 10 \<or> i = 11 then 0xFF else 0)
      else if s = 3 then (if i < 32 then sample_entry ! i else 0)
      else if 4 \<le> s then of_nat i else 0)"

definition sample_dev :: dev where
  "sample_dev = \<lparr>blk = sample_blk, tick = 0, xfer_ok = (\<lambda>n. True), rd_junk = (\<lambda>n i. 0),
     wr_junk = (\<lambda>n s i. 0), initDone = 1,
     clock = \<lparr>year = 0, month = 0, day = 0, hour = 0, minute = 0, sec = 0\<rparr>\<rparr>"

definition sample_vol :: vol where
  "sample_vol = \<lparr>fs_id = 1, n_rootdir = 16, winsect = 0, sects_fat = 1, max_clust = 10, fatbase = 1,
     dirbase = 3, database = 4, last_clust = 0, free_clust = 5, fs_type = FS_FAT16, sects_clust = 1,
     n_fats = 2, drive = 0, winflag = 0, win = replicate 512 0, disk = sample_dev\<rparr>"

lemma sample_ok: "vol_ok sample_vol"
  by (simp add: sample_vol_def sample_dev_def vol_ok_def geom_ok_def fat_fits_def win_ok_def
      disk_healthy_def DRIVE_NUM_MMC_def fs_type_defs)

lemma sample_fields:
  "max_clust sample_vol = 10" "free_clust sample_vol = 5" "last_clust sample_vol = 0"
  by (simp_all add: sample_vol_def)

text \<open>on a card that answers, \<open>move_window\<close> to a sector at or behind the FAT succeeds, leaves
  that sector in the window, and changes the content of no sector as the file system sees it, apart
  from the backup copies of the FAT.\<close>

theorem move_window_view:
  assumes "vol_ok v" "fatbase v \<le> s" "move_window s v = (r, v')"
  shows "r \<and> winsect v' = s \<and> win v' = eff v' s \<and> geom v' = geom v \<and> vol_ok v' \<and>
    (\<forall>t. t \<noteq> 0 \<longrightarrow> \<not> backup v t \<longrightarrow> eff v' t = eff v t)"
  using move_window_ok [OF assms] by (auto simp: same_view_def eff_def)

theorem move_window_view_witness:
  "fst (move_window 1 sample_vol) \<and> win (snd (move_window 1 sample_vol)) ! 4 = 3"
proof -
  obtain r v' where m: "move_window 1 sample_vol = (r, v')" by fastforce
  have f: "fatbase sample_vol \<le> 1" by (simp add: sample_vol_def)
  have nb: "\<not> backup sample_vol 1" by (simp add: backup_def sample_vol_def)
  have e: "eff sample_vol 1 ! 4 = 3"
    by (simp add: eff_def sample_vol_def sample_dev_def sector_of_def sample_blk_def)
  from move_window_view [OF sample_ok f m] nb e m show ?thesis by simp
qed

text \<open>writing back a dirty FAT sector updates every copy of the FAT.\<close>

theorem flush_window_mirrors:
  assumes "vol_ok v" "winflag v \<noteq> 0" "winsect v < fatbase v + sects_fat v" "k < unat (n_fats v)"
    and "flush_window v = (r, v')"
  shows "r \<and> winflag v' = 0 \<and> sector_of (disk v') (winsect v + of_nat k * sects_fat v) = win v"
proof (cases "k = 0")
  case True
  then show ?thesis using flush_window_ok(1,2,5) [OF assms(1,2,5)] by simp
next
  case False
  have len: "length (win v) = 512" and h: "disk_healthy (drive v) (disk v)"
    using assms(1) by (auto simp: vol_ok_def win_ok_def)
  obtain q d where w: "disk_write (drive v) (win v) (winsect v) 1 (disk v) = (q, d)" by fastforce
  then have q: "q = RES_OK" "disk_healthy (drive v) d" using mmc.healthy_wr [OF h] by blast+
  have "disk v' = mirror_writes (\<lambda>b s. disk_write (drive v) b s 1) (win v) (winsect v) (sects_fat v)
      (unat (n_fats v) - 1) d"
    using assms w q by (auto simp: flush_window_def)
  moreover have "1 \<le> k" "k \<le> unat (n_fats v) - 1" using False assms(4) by auto
  ultimately show ?thesis
    using mmc.mirror_copies [OF q(2) len] flush_window_ok(1,2) [OF assms(1,2,5)] by simp
qed

theorem flush_window_mirrors_witness:
  "\<exists>d. flush_window (sample_vol\<lparr>winsect := 1, winflag := 1\<rparr>) = (True, sample_vol\<lparr>winsect := 1, disk := d\<rparr>) \<and>
     sector_of d 2 = replicate 512 0"
proof -
  let ?v = "sample_vol\<lparr>winsect := 1, winflag := 1\<rparr>"
  have ok: "vol_ok ?v"
    by (simp add: sample_vol_def sample_dev_def vol_ok_def geom_ok_def fat_fits_def win_ok_def
        disk_healthy_def DRIVE_NUM_MMC_def fs_type_defs)
  obtain r v' where f: "flush_window ?v = (r, v')" by fastforce
  have "r \<and> winflag v' = 0 \<and> sector_of (disk v') (winsect ?v + of_nat 1 * sects_fat ?v) = win ?v"
    by (rule flush_window_mirrors [OF ok _ _ _ f]) (simp_all add: sample_vol_def)
  moreover have "v' = sample_vol\<lparr>winsect := 1, disk := disk v'\<rparr>"
    using f by (auto simp: flush_window_def disk_write_1 sample_vol_def sample_dev_def DRIVE_NUM_MMC_def)
  ultimately show ?thesis using f by (intro exI [of _ "disk v'"]) (simp add: sample_vol_def)
qed

text \<open>when the write-back of a dirty window fails, \<open>move_window\<close> reports it and keeps the
  window, its sector number and its dirty flag, so that nothing written so far is lost.\<close>

theorem move_window_write_error:
  assumes "winflag v \<noteq> 0" "winsect v \<noteq> s"
    and "drive v \<noteq> DRIVE_NUM_MMC \<or> \<not> xfer_ok (disk v) (tick (disk v))"
  shows "\<exists>d. move_window s v = (False, v\<lparr>disk := d\<rparr>)"
proof -
  obtain q d where w: "disk_write (drive v) (win v) (winsect v) 1 (disk v) = (q, d)" by fastforce
  with assms(3) have "q \<noteq> RES_OK" by (auto simp: disk_write_1 split: if_splits)
  with w assms(1,2) have "move_window s v = (False, v\<lparr>disk := d\<rparr>)"
    by (simp add: move_window_def flush_window_def)
  then show ?thesis by blast
qed

theorem move_window_write_error_witness:
  "\<exists>d. move_window 1 (sample_vol\<lparr>drive := 1, winsect := 2, winflag := 1\<rparr>) =
     (False, sample_vol\<lparr>drive := 1, winsect := 2, winflag := 1, disk := d\<rparr>)"
  using move_window_write_error [of "sample_vol\<lparr>drive := 1, winsect := 2, winflag := 1\<rparr>" 1]
  by (simp add: DRIVE_NUM_MMC_def)

text \<open>when the read of the new sector fails, \<open>move_window\<close> reports it, but the window then holds
  what the transfer left in it under the number of the old sector, and a later move back to the old
  sector takes it for that sector's content without reading the card.\<close>

theorem move_window_read_error:
  assumes "winflag v = 0" "winsect v \<noteq> s" "s \<noteq> 0" "drive v = DRIVE_NUM_MMC"
    and "\<not> xfer_ok (disk v) (tick (disk v))" "length (win v) = 512"
  shows "\<exists>v'. move_window s v = (False, v') \<and> winsect v' = winsect v \<and>
    win v' = map (rd_junk (disk v) (tick (disk v))) [0..<512] \<and>
    move_window (winsect v) v' = (True, v')"
proof -
  let ?j = "map (rd_junk (disk v) (tick (disk v))) [0..<512]"
  let ?d = "disk v\<lparr>tick := Suc (tick (disk v))\<rparr>"
  have "disk_read (drive v) (win v) s 1 (disk v) = (RES_ERROR, ?j, ?d)"
    using assms by (simp add: disk_read_1)
  then have "move_window s v = (False, v\<lparr>win := ?j, disk := ?d\<rparr>)"
    using assms(1-3) by (simp add: move_window_def flush_window_def load_window_def)
  moreover have "move_window (winsect v) (v\<lparr>win := ?j, disk := ?d\<rparr>) = (True, v\<lparr>win := ?j, disk := ?d\<rparr>)"
    by (simp add: move_window_def)
  ultimately show ?thesis by simp
qed

theorem move_window_read_error_witness:
  "\<exists>v'. move_window 3 (sample_vol\<lparr>winsect := 2, disk := sample_dev\<lparr>xfer_ok := \<lambda>n. False, rd_junk := \<lambda>n i. 7\<rparr>\<rparr>)
     = (False, v') \<and> winsect v' = 2 \<and> win v' ! 0 = 7 \<and> move_window 2 v' = (True, v')"
  using move_window_read_error
    [of "sample_vol\<lparr>winsect := 2, disk := sample_dev\<lparr>xfer_ok := \<lambda>n. False, rd_junk := \<lambda>n i. 7\<rparr>\<rparr>" 3]
  by (auto simp: sample_vol_def sample_dev_def DRIVE_NUM_MMC_def)

end
