(* ===== verification/FfFat.thy ===== *)
theory FfFat
  imports FfWindow
begin

unbundle bit_operations_syntax

text \<open>
  The file allocation table behind \<^verbatim>\<open>get_cluster\<close> and \<^verbatim>\<open>put_cluster\<close>.  The first FAT is read as one
  byte array (\<open>fat_byte\<close>), whatever part of it is in the window; \<open>fat_entry\<close> is the value of a
  cluster's entry in it, packed as the FAT type says (12-bit entries share bytes and may cross a
  sector boundary).  The two operations are shown to read and to update exactly that entry.
\<close>

section \<open>The FAT as a byte array\<close>

definition fat_byte :: "vol \<Rightarrow> nat \<Rightarrow> BYTE" where
  "fat_byte v k = eff v (fatbase v + of_nat (k div 512)) ! (k mod 512)"

definition fat_bytes :: "vol \<Rightarrow> nat" where
  "fat_bytes v = 512 * unat (sects_fat v)"

definition join16 :: "BYTE \<Rightarrow> BYTE \<Rightarrow> WORD" where
  "join16 lo hi = push_bit 8 (ucast hi) OR ucast lo"

definition entry12 :: "nat \<Rightarrow> BYTE \<Rightarrow> BYTE \<Rightarrow> DWORD" where
  "entry12 c lo hi =
     (if odd c then ucast (drop_bit 4 (join16 lo hi)) else ucast (join16 lo hi AND 0xFFF))"

definition entry32 :: "(nat \<Rightarrow> BYTE) \<Rightarrow> DWORD" where
  "entry32 b = (push_bit 24 (ucast (b 3)) OR push_bit 16 (ucast (b 2)) OR push_bit 8 (ucast (b 1))
                OR ucast (b 0)) AND 0x0FFFFFFF"

definition fat_entry :: "vol \<Rightarrow> nat \<Rightarrow> DWORD" where
  "fat_entry v c =
     (if fs_type v = FS_FAT12
      then entry12 c (fat_byte v (3 * c div 2)) (fat_byte v (3 * c div 2 + 1))
      else if fs_type v = FS_FAT16
      then ucast (join16 (fat_byte v (2 * c)) (fat_byte v (2 * c + 1)))
      else entry32 (\<lambda>j. fat_byte v (4 * c + j)))"

definition fat_mask :: "vol \<Rightarrow> DWORD" where
  "fat_mask v = (if fs_type v = FS_FAT12 then 0xFFF
                 else if fs_type v = FS_FAT16 then 0xFFFF else 0x0FFFFFFF)"

text \<open>The FAT area with its copies, and the frame of a step that may change the FAT only.\<close>

definition in_fat :: "vol \<Rightarrow> DWORD \<Rightarrow> bool" where
  "in_fat v t \<longleftrightarrow> unat (fatbase v) \<le> unat t \<and>
     unat t < unat (fatbase v) + unat (n_fats v) * unat (sects_fat v)"

definition fat_frame :: "vol \<Rightarrow> vol \<Rightarrow> bool" where
  "fat_frame v v' \<longleftrightarrow>
     geom v' = geom v \<and> vol_ok v' \<and> free_clust v' = free_clust v \<and> last_clust v' = last_clust v \<and>
     (\<forall>t. t \<noteq> 0 \<longrightarrow> \<not> in_fat v t \<longrightarrow> eff v' t = eff v t)"

lemma in_fat_cong: "geom v' = geom v \<Longrightarrow> in_fat v' = in_fat v"
  by (drule geom_eqD) (simp add: in_fat_def fun_eq_iff)

lemma fat_frame_trans: "fat_frame u v \<Longrightarrow> fat_frame v w \<Longrightarrow> fat_frame u w"
  using in_fat_cong [of v u] by (simp add: fat_frame_def)

lemma backup_in_fat: "backup v t \<Longrightarrow> in_fat v t"
  by (simp add: backup_def in_fat_def)

lemma same_view_frame: "same_view v v' \<Longrightarrow> fat_frame v v'"
  using backup_in_fat by (auto simp: same_view_def fat_frame_def)

lemma fat_frame_geom: "fat_frame v v' \<Longrightarrow> geom v' = geom v"
  by (simp add: fat_frame_def)

section \<open>Sectors of the FAT\<close>

lemma fat_sector:
  assumes "geom_ok v" "k < fat_bytes v"
  shows "unat (fatbase v + of_nat (k div 512)) = unat (fatbase v) + k div 512"
    and "fatbase v \<le> fatbase v + of_nat (k div 512)"
    and "\<not> backup v (fatbase v + of_nat (k div 512))"
    and "in_fat v (fatbase v + of_nat (k div 512))"
    and "fatbase v + of_nat (k div 512) \<noteq> 0"
proof -
  have "1 * unat (sects_fat v) \<le> unat (n_fats v) * unat (sects_fat v)"
    using assms by (intro mult_right_mono) (auto simp: geom_ok_def)
  moreover have q: "k div 512 < unat (sects_fat v)" using assms by (simp add: fat_bytes_def)
  moreover have "unat (fatbase v) + unat (n_fats v) * unat (sects_fat v) < 2 ^ 32"
    using assms by (simp add: geom_ok_def)
  ultimately have small: "unat (fatbase v) + k div 512 < 2 ^ 32"
    and area: "unat (fatbase v) + k div 512 < unat (fatbase v) + unat (n_fats v) * unat (sects_fat v)"
    by linarith+
  then have "unat (of_nat (k div 512) :: DWORD) = k div 512" by (simp add: unat_of_nat)
  with small show u: "unat (fatbase v + of_nat (k div 512)) = unat (fatbase v) + k div 512"
    by (simp add: unat_word_ariths)
  show "fatbase v \<le> fatbase v + of_nat (k div 512)" using u by (simp add: word_le_nat_alt)
  show "\<not> backup v (fatbase v + of_nat (k div 512))" using u q by (intro first_fat_not_backup) simp
  show "in_fat v (fatbase v + of_nat (k div 512))" using u area by (simp add: in_fat_def)
  have "0 < unat (fatbase v)" using assms by (simp add: geom_ok_def)
  with u show "fatbase v + of_nat (k div 512) \<noteq> 0" by (metis add_gr_0 less_irrefl unat_0)
qed

lemma fat_sector_inj:
  assumes "geom_ok v" "k < fat_bytes v" "i < fat_bytes v"
  shows "fatbase v + of_nat (k div 512) = fatbase v + of_nat (i div 512) \<longleftrightarrow> k div 512 = i div 512"
  using fat_sector(1) [OF assms(1,2)] fat_sector(1) [OF assms(1,3)]
  by (metis add_left_cancel)

lemma fat_byte_same_view:
  assumes "vol_ok v" "same_view v v'" "k < fat_bytes v"
  shows "fat_byte v' k = fat_byte v k"
proof -
  have "geom_ok v" using assms by (simp add: vol_ok_def)
  from fat_sector [OF this assms(3)] assms(2) geom_eqD [of v' v] show ?thesis
    by (simp add: fat_byte_def same_view_def)
qed

lemma move_to_fat:
  assumes ok: "vol_ok v" and i: "i < fat_bytes v"
    and mv: "move_window (fatbase v + of_nat (i div 512)) v = (r, u)"
  shows "r" and "same_view v u" and "winsect u = fatbase v + of_nat (i div 512)"
    and "k div 512 = i div 512 \<Longrightarrow> win u ! (k mod 512) = fat_byte v k"
    and "length (win u) = 512"
proof -
  have g: "geom_ok v" using ok by (simp add: vol_ok_def)
  note S = fat_sector [OF g i]
  show r: "r" and sv: "same_view v u" and ws: "winsect u = fatbase v + of_nat (i div 512)"
    using move_window_ok [OF ok S(2) mv] by auto
  have "eff u (winsect u) = eff v (winsect u)"
    unfolding ws using sv S(3,5) unfolding same_view_def by blast
  then show "win u ! (k mod 512) = fat_byte v k" if "k div 512 = i div 512"
    using that unfolding eff_winsect by (simp add: fat_byte_def ws)
  show "length (win u) = 512" using sv by (simp add: same_view_def vol_ok_def win_ok_def)
qed

lemma poke_fat:
  assumes ok: "vol_ok v" and i: "i < fat_bytes v" and sv: "same_view v u"
    and ws: "winsect u = fatbase v + of_nat (i div 512)"
    and len: "length w = 512" and v': "v' = u\<lparr>win := w, winflag := 1\<rparr>"
  shows "fat_frame v v'"
    and "k < fat_bytes v \<Longrightarrow>
         fat_byte v' k = (if k div 512 = i div 512 then w ! (k mod 512) else fat_byte v k)"
proof -
  have g: "geom_ok v" using ok by (simp add: vol_ok_def)
  note S = fat_sector [OF g i]
  have gu: "geom u = geom v" and uok: "vol_ok u" using sv by (auto simp: same_view_def)
  have gv': "geom v' = geom v" using gu by (simp add: v' geom_def)
  have eff': "eff v' t = (if t = winsect u then w else eff u t)" for t
    by (simp add: v' eff_def)
  have "vol_ok v'"
    using uok len S(5) ws geom_ok_cong [of v' u] gu gv'
    by (auto simp: v' vol_ok_def win_ok_def split: if_splits)
  then show "fat_frame v v'"
    using sv S(4) ws gv' backup_in_fat eff' by (auto simp: fat_frame_def same_view_def v')
  show "fat_byte v' k = (if k div 512 = i div 512 then w ! (k mod 512) else fat_byte v k)"
    if k: "k < fat_bytes v"
  proof -
    have fb: "fatbase v' = fatbase v" using gv' geom_eqD by blast
    have "fat_byte u k = fat_byte v k" using fat_byte_same_view ok sv k by blast
    moreover have "fatbase u = fatbase v" using gu geom_eqD by blast
    ultimately show ?thesis
      using fat_sector_inj [OF g k i] eff' ws fb by (auto simp: fat_byte_def)
  qed
qed

section \<open>Offsets computed by the code\<close>

lemma unat_ucast_16_32: "unat (ucast (ucast c :: WORD) :: DWORD) = unat c mod 65536" for c :: DWORD
  by (simp only: unsigned_ucast_eq unsigned_take_bit_eq) (simp add: take_bit_eq_mod mod_mod_cancel)

lemma scaled_mod_512:
  "c mod 65536 * 4 mod 512 = 4 * c mod (512 :: nat)" "c mod 65536 * 2 mod 512 = 2 * c mod (512 :: nat)"
proof -
  define q r where "q = c div 65536" and "r = c mod 65536"
  then have c: "c = 65536 * q + r" by simp
  have "4 * c = r * 4 + q * 512 * 512" "2 * c = r * 2 + q * 256 * 512" unfolding c by simp_all
  then show "c mod 65536 * 4 mod 512 = 4 * c mod (512 :: nat)"
    "c mod 65536 * 2 mod 512 = 2 * c mod (512 :: nat)"
    unfolding r_def [symmetric] by (simp_all only: mod_mult_self1)
qed

lemma fat32_off_eq: "fat32_off c = 4 * unat c mod 512"
proof -
  have "unat ((ucast (ucast c :: WORD) :: DWORD) * 4) = (unat c mod 65536) * 4"
    using unat_ucast_16_32 [of c] by (simp add: unat_word_ariths)
  then show ?thesis by (simp add: fat32_off_def unat_and_511 scaled_mod_512)
qed

lemma fat16_off_eq: "fat16_off c = 2 * unat c mod 512"
proof -
  have "unat ((ucast (ucast c :: WORD) :: DWORD) * 2) = (unat c mod 65536) * 2"
    using unat_ucast_16_32 [of c] by (simp add: unat_word_ariths)
  then show ?thesis by (simp add: fat16_off_def unat_and_511 scaled_mod_512)
qed

lemma fat12_bc_eq: "unat c \<le> 0xFF7 \<Longrightarrow> unat (fat12_bc c) = 3 * unat c div 2"
proof -
  assume c: "unat c \<le> 0xFF7"
  then have "unat ((ucast (ucast c :: WORD) :: DWORD) * 3) = unat c * 3"
    using unat_ucast_16_32 [of c] by (simp add: unat_word_ariths)
  then have "unat ((ucast (ucast c :: WORD) :: DWORD) * 3 div 2) = 3 * unat c div 2"
    by (simp add: unat_div mult.commute)
  moreover have "unat (ucast x :: WORD) = unat x mod 65536" for x :: DWORD
    by (simp only: unsigned_ucast_eq unsigned_take_bit_eq) (simp add: take_bit_eq_mod)
  ultimately show ?thesis using c by (simp add: fat12_bc_def)
qed

lemma div_sector_32: "c div 128 = of_nat (4 * unat c div 512)" for c :: DWORD
proof -
  have "unat c div 128 < 2 ^ 32" using unsigned_less [of c, where ?'a = nat] by simp
  then show ?thesis by (simp add: word_unat_eq_iff unat_div unat_of_nat)
qed

lemma div_sector_16: "c div 256 = of_nat (2 * unat c div 512)" for c :: DWORD
proof -
  have "unat c div 256 < 2 ^ 32" using unsigned_less [of c, where ?'a = nat] by simp
  then show ?thesis by (simp add: word_unat_eq_iff unat_div unat_of_nat)
qed

lemma fat12_sector: "ucast (b div 512) = (of_nat (unat b div 512) :: DWORD)" for b :: WORD
proof -
  have "unat b div 512 < 2 ^ 16" using unsigned_less [of b, where ?'a = nat] by simp
  then show ?thesis
    by (simp add: word_unat_eq_iff unat_div unat_of_nat unsigned_ucast_eq take_bit_eq_mod)
qed

section \<open>Reading an entry\<close>

lemma entry_in_fat:
  assumes "geom_ok v" "c < unat (max_clust v)"
  shows "fs_type v = FS_FAT12 \<Longrightarrow> c < 0xFF7 \<and> 3 * c div 2 + 1 < fat_bytes v"
    and "fs_type v = FS_FAT16 \<Longrightarrow> 2 * c + 1 < fat_bytes v"
    and "fs_type v = FS_FAT32 \<Longrightarrow> 4 * c + 3 < fat_bytes v"
    and "fs_type v = FS_FAT12 \<or> fs_type v = FS_FAT16 \<or> fs_type v = FS_FAT32"
  using assms by (auto simp: geom_ok_def fat_fits_def fat_bytes_def fs_type_defs)

lemma fat_entry_cong:
  assumes "geom_ok v" "c < unat (max_clust v)" "fs_type v' = fs_type v"
    and "\<And>k. k < fat_bytes v \<Longrightarrow> fat_byte v' k = fat_byte v k"
  shows "fat_entry v' c = fat_entry v c"
  using entry_in_fat [OF assms(1,2)] assms(3,4)
  by (auto simp: fat_entry_def entry32_def)

lemma fat_entry_same_view:
  assumes "vol_ok v" "same_view v v'" "c < unat (max_clust v)"
  shows "fat_entry v' c = fat_entry v c"
proof (rule fat_entry_cong)
  show "geom_ok v" using assms by (simp add: vol_ok_def)
  show "fs_type v' = fs_type v" using assms(2) geom_eqD [of v' v] by (simp add: same_view_def)
  show "fat_byte v' k = fat_byte v k" if "k < fat_bytes v" for k
    using fat_byte_same_view assms that by blast
qed fact

lemma get_cluster_32:
  assumes ok: "vol_ok v" and c: "2 \<le> clust" "clust < max_clust v" and t: "fs_type v = FS_FAT32"
    and gc: "get_cluster clust v = (x, v')"
  shows "x = fat_entry v (unat clust) \<and> same_view v v'"
proof -
  let ?i = "4 * unat clust"
  have g: "geom_ok v" using ok by (simp add: vol_ok_def)
  have i: "?i + 3 < fat_bytes v"
    using entry_in_fat(3) [OF g, of "unat clust"] c t by (simp add: word_less_nat_alt)
  obtain r u where mw: "move_window (fatbase v + clust div 128) v = (r, u)" by fastforce
  note mv = mw [unfolded div_sector_32]
  have B: "win u ! (?i mod 512 + j) = fat_byte v (?i + j)" if "j < 4" for j
  proof -
    note A = aligned_4_sector [OF that, of "unat clust"]
    then have "win u ! ((?i + j) mod 512) = fat_byte v (?i + j)"
      using move_to_fat(4) [OF ok _ mv, of "?i + j"] i by linarith
    with A show ?thesis by simp
  qed
  have r: "r" using move_to_fat(1) [OF ok _ mv] i by linarith
  have "get_cluster clust v = (LD_DWORD (win u) (fat32_off clust) AND 0x0FFFFFFF, u)"
    unfolding get_cluster_def using c t mw r by (simp add: fs_type_defs)
  with gc have x: "x = LD_DWORD (win u) (fat32_off clust) AND 0x0FFFFFFF" and "v' = u" by (metis prod.inject)+
  then show ?thesis
    using move_to_fat(2) [OF ok _ mv] i t B [of 0] B [of 1] B [of 2] B [of 3]
    by (simp add: LD_DWORD_def fat32_off_eq fat_entry_def entry32_def fs_type_defs)
qed

lemma get_cluster_16:
  assumes ok: "vol_ok v" and c: "2 \<le> clust" "clust < max_clust v" and t: "fs_type v = FS_FAT16"
    and gc: "get_cluster clust v = (x, v')"
  shows "x = fat_entry v (unat clust) \<and> same_view v v'"
proof -
  let ?i = "2 * unat clust"
  have g: "geom_ok v" using ok by (simp add: vol_ok_def)
  have i: "?i + 1 < fat_bytes v"
    using entry_in_fat(2) [OF g, of "unat clust"] c t by (simp add: word_less_nat_alt)
  obtain r u where mw: "move_window (fatbase v + clust div 256) v = (r, u)" by fastforce
  note mv = mw [unfolded div_sector_16]
  have B: "win u ! (?i mod 512 + j) = fat_byte v (?i + j)" if "j < 2" for j
  proof -
    note A = aligned_2_sector [OF that, of "unat clust"]
    then have "win u ! ((?i + j) mod 512) = fat_byte v (?i + j)"
      using move_to_fat(4) [OF ok _ mv, of "?i + j"] i by linarith
    with A show ?thesis by simp
  qed
  have r: "r" using move_to_fat(1) [OF ok _ mv] i by linarith
  have "get_cluster clust v = (ucast (LD_WORD (win u) (fat16_off clust)), u)"
    unfolding get_cluster_def using c t mw r by (simp add: fs_type_defs)
  with gc have x: "x = ucast (LD_WORD (win u) (fat16_off clust))" and "v' = u" by (metis prod.inject)+
  then show ?thesis
    using move_to_fat(2) [OF ok _ mv] i t B [of 0] B [of 1]
    by (simp add: LD_WORD_def fat16_off_eq fat_entry_def join16_def fs_type_defs)
qed

lemma fat12_bc_Suc: "unat c \<le> 0xFF7 \<Longrightarrow> unat (fat12_bc c + 1) = 3 * unat c div 2 + 1"
proof -
  assume c: "unat c \<le> 0xFF7"
  with fat12_bc_eq have "unat (fat12_bc c) + 1 < 2 ^ 16" by fastforce
  with fat12_bc_eq [OF c] show ?thesis by (simp add: unat_word_ariths)
qed

lemma get_cluster_12:
  assumes ok: "vol_ok v" and c: "2 \<le> clust" "clust < max_clust v" and t: "fs_type v = FS_FAT12"
    and gc: "get_cluster clust v = (x, v')"
  shows "x = fat_entry v (unat clust) \<and> same_view v v'"
proof -
  let ?i = "3 * unat clust div 2"
  have g: "geom_ok v" using ok by (simp add: vol_ok_def)
  have i: "unat clust \<le> 0xFF7" "?i < fat_bytes v" "?i + 1 < fat_bytes v"
    using entry_in_fat(1) [OF g, of "unat clust"] c t by (simp_all add: word_less_nat_alt)
  have bc: "unat (fat12_bc clust) = ?i" "unat (fat12_bc clust + 1) = ?i + 1"
    using fat12_bc_eq fat12_bc_Suc i by blast+
  obtain r u where mv: "move_window (fatbase v + of_nat (?i div 512)) v = (r, u)" by fastforce
  note M = move_to_fat [OF ok i(2) mv]
  have uok: "vol_ok u" and gu: "geom u = geom v" using M(2) by (auto simp: same_view_def)
  have fu: "fatbase u = fatbase v" "fat_bytes u = fat_bytes v"
    using geom_eqD [OF gu] by (simp_all add: fat_bytes_def)
  obtain r' w where mv': "move_window (fatbase u + of_nat ((?i + 1) div 512)) u = (r', w)" by fastforce
  note M' = move_to_fat [OF uok _ mv']
  have hi: "win w ! ((?i + 1) mod 512) = fat_byte v (?i + 1)"
    using M'(4) fat_byte_same_view [OF ok M(2)] i fu by simp
  have sv: "same_view v w" using M(2) M'(2) same_view_trans i fu by auto
  define wc where "wc = ucast (win u ! (?i mod 512)) OR push_bit 8 (ucast (win w ! ((?i + 1) mod 512)) :: WORD)"
  have "x = (if clust AND 1 \<noteq> 0 then ucast (drop_bit 4 wc) else ucast (wc AND 0xFFF))" "v' = w"
    using gc c t mv mv' M(1) M'(1) i fu bc
    by (auto simp: get_cluster_def fs_type_defs fat12_sector Let_def unat_and_511_16 wc_def)
  moreover have "wc = join16 (fat_byte v ?i) (fat_byte v (?i + 1))"
    using M(4) hi by (simp add: wc_def join16_def or.commute)
  ultimately show ?thesis
    using sv t by (auto simp: fat_entry_def entry12_def fs_type_defs and_1_eq_0_iff)
qed

lemma get_cluster_ok:
  assumes "vol_ok v" "2 \<le> clust" "clust < max_clust v" "get_cluster clust v = (x, v')"
  shows "x = fat_entry v (unat clust)" and "same_view v v'"
proof -
  have "geom_ok v" "unat clust < unat (max_clust v)"
    using assms by (auto simp: vol_ok_def word_less_nat_alt)
  from entry_in_fat(4) [OF this] have "x = fat_entry v (unat clust) \<and> same_view v v'"
    using get_cluster_12 get_cluster_16 get_cluster_32 assms by blast
  then show "x = fat_entry v (unat clust)" "same_view v v'" by auto
qed

section \<open>Updating an entry\<close>

definition fat_updated :: "vol \<Rightarrow> nat \<Rightarrow> DWORD \<Rightarrow> vol \<Rightarrow> bool" where
  "fat_updated v c0 x v' \<longleftrightarrow> fat_frame v v' \<and>
     (\<forall>c < unat (max_clust v). fat_entry v' c = (if c = c0 then x AND fat_mask v else fat_entry v c))"

text \<open>Distinct aligned fields of one sector do not overlap.\<close>

lemma aligned_4_disjoint:
  assumes "c \<noteq> c'" "4 * c div 512 = 4 * c' div 512" "j < 4"
  shows "4 * c mod 512 + j < 4 * c' mod 512 \<or> 4 * c' mod 512 + 3 < 4 * c mod 512 + (j :: nat)"
  using assms mult_div_mod_eq [of 512 "4 * c"] mult_div_mod_eq [of 512 "4 * c'"] by linarith

lemma aligned_2_disjoint:
  assumes "c \<noteq> c'" "2 * c div 512 = 2 * c' div 512" "j < 2"
  shows "2 * c mod 512 + j \<noteq> 2 * c' mod 512 \<and> 2 * c mod 512 + j \<noteq> 2 * c' mod 512 + (1 :: nat)"
  using assms mult_div_mod_eq [of 512 "2 * c"] mult_div_mod_eq [of 512 "2 * c'"] by linarith

lemma put_cluster_32:
  assumes ok: "vol_ok v" and c: "clust < max_clust v" and t: "fs_type v = FS_FAT32"
    and pc: "put_cluster clust val v = (r, v')"
  shows "r \<and> fat_updated v (unat clust) val v'"
proof -
  let ?i = "4 * unat clust"
  have g: "geom_ok v" using ok by (simp add: vol_ok_def)
  have i: "?i < fat_bytes v"
    using entry_in_fat(3) [OF g, of "unat clust"] c t by (simp add: word_less_nat_alt)
  obtain r' u where mw: "move_window (fatbase v + clust div 128) v = (r', u)" by fastforce
  note mv = mw [unfolded div_sector_32]
  note M = move_to_fat [OF ok i mv]
  define w where "w = ST_DWORD (?i mod 512) val (win u)"
  have "put_cluster clust val v = (True, u\<lparr>win := w, winflag := 1\<rparr>)"
    unfolding put_cluster_def using t mw M(1) by (simp add: fs_type_defs fat32_off_eq w_def)
  with pc have r: "r" and v': "v' = u\<lparr>win := w, winflag := 1\<rparr>" by auto
  note P = poke_fat [OF ok i M(2) M(3) _ v']
  have lw: "length w = 512" using M(5) by (simp add: w_def)
  have ft: "fs_type v' = fs_type v" using P(1) [OF lw] geom_eqD [of v' v] by (simp add: fat_frame_def)
  have B: "fat_byte v' (4 * e + j) = (if e = unat clust then w ! (?i mod 512 + j) else fat_byte v (4 * e + j))"
    if e: "e < unat (max_clust v)" and j: "j < 4" for e j
  proof -
    have "4 * e + j < fat_bytes v" using entry_in_fat(3) [OF g e t] j by linarith
    note P2 = P(2) [OF lw this]
    note A = aligned_4_sector [OF j, of e]
    show ?thesis
    proof (cases "e = unat clust \<or> 4 * e div 512 \<noteq> ?i div 512")
      case True
      then show ?thesis using P2 A by auto
    next
      case False
      then have "w ! (4 * e mod 512 + j) = win u ! (4 * e mod 512 + j)"
        unfolding w_def using aligned_4_disjoint [of e "unat clust" j] j M(5) A
          mod_less_divisor [of 512 "4 * e + j"]
        by (intro nth_ST_DWORD) auto
      with False P2 A M(4) [of "4 * e + j"] show ?thesis by simp
    qed
  qed
  have four: "?i mod 512 + 3 < 512"
    using aligned_4_sector [of 3 "unat clust"] mod_less_divisor [of 512 "?i + 3"] by simp
  have "fat_entry v' e = (if e = unat clust then val AND fat_mask v else fat_entry v e)"
    if e: "e < unat (max_clust v)" for e
  proof (cases "e = unat clust")
    case True
    have "fat_entry v' e = LD_DWORD w (?i mod 512) AND 0x0FFFFFFF"
      using True e t ft B [of e 0] B [of e 1] B [of e 2] B [of e 3]
      by (simp add: fat_entry_def entry32_def LD_DWORD_def fs_type_defs)
    with True t M(5) four show ?thesis by (simp add: w_def fat_mask_def fs_type_defs)
  next
    case False
    then show ?thesis using e t ft B [of e 0] B [of e 1] B [of e 2] B [of e 3]
      by (simp add: fat_entry_def entry32_def fs_type_defs)
  qed
  with r P(1) [OF lw] show ?thesis by (simp add: fat_updated_def)
qed

lemma ucast_16_mask: "ucast (ucast x :: WORD) = x AND 0xFFFF" for x :: DWORD
proof -
  have "x AND 0xFFFF = take_bit 16 x" by (simp add: take_bit_eq_mask mask_eq_exp_minus_1)
  then show ?thesis by (simp only:) (rule bit_word_eqI, auto simp add: bit_simps)
qed

lemma put_cluster_16:
  assumes ok: "vol_ok v" and c: "clust < max_clust v" and t: "fs_type v = FS_FAT16"
    and pc: "put_cluster clust val v = (r, v')"
  shows "r \<and> fat_updated v (unat clust) val v'"
proof -
  let ?i = "2 * unat clust"
  have g: "geom_ok v" using ok by (simp add: vol_ok_def)
  have i: "?i < fat_bytes v"
    using entry_in_fat(2) [OF g, of "unat clust"] c t by (simp add: word_less_nat_alt)
  obtain r' u where mw: "move_window (fatbase v + clust div 256) v = (r', u)" by fastforce
  note mv = mw [unfolded div_sector_16]
  note M = move_to_fat [OF ok i mv]
  define w where "w = ST_WORD (?i mod 512) (ucast val) (win u)"
  have "put_cluster clust val v = (True, u\<lparr>win := w, winflag := 1\<rparr>)"
    unfolding put_cluster_def using t mw M(1) by (simp add: fs_type_defs fat16_off_eq w_def)
  with pc have r: "r" and v': "v' = u\<lparr>win := w, winflag := 1\<rparr>" by auto
  note P = poke_fat [OF ok i M(2) M(3) _ v']
  have lw: "length w = 512" using M(5) by (simp add: w_def)
  have ft: "fs_type v' = fs_type v" using P(1) [OF lw] geom_eqD [of v' v] by (simp add: fat_frame_def)
  have B: "fat_byte v' (2 * e + j) = (if e = unat clust then w ! (?i mod 512 + j) else fat_byte v (2 * e + j))"
    if e: "e < unat (max_clust v)" and j: "j < 2" for e j
  proof -
    have "2 * e + j < fat_bytes v" using entry_in_fat(2) [OF g e t] j by linarith
    note P2 = P(2) [OF lw this]
    note A = aligned_2_sector [OF j, of e]
    show ?thesis
    proof (cases "e = unat clust \<or> 2 * e div 512 \<noteq> ?i div 512")
      case True
      then show ?thesis using P2 A by auto
    next
      case False
      then have "w ! (2 * e mod 512 + j) = win u ! (2 * e mod 512 + j)"
        unfolding w_def using aligned_2_disjoint [of e "unat clust" j] j M(5) A
          mod_less_divisor [of 512 "2 * e + j"]
        by (intro nth_ST_WORD) auto
      with False P2 A M(4) [of "2 * e + j"] show ?thesis by simp
    qed
  qed
  have two: "?i mod 512 + 1 < 512"
    using aligned_2_sector [of 1 "unat clust"] mod_less_divisor [of 512 "?i + 1"] by simp
  have "fat_entry v' e = (if e = unat clust then val AND fat_mask v else fat_entry v e)"
    if e: "e < unat (max_clust v)" for e
  proof (cases "e = unat clust")
    case True
    have "fat_entry v' e = ucast (LD_WORD w (?i mod 512))"
      using True e t ft B [of e 0] B [of e 1]
      by (simp add: fat_entry_def join16_def LD_WORD_def fs_type_defs)
    with True t M(5) two show ?thesis by (simp add: w_def fat_mask_def fs_type_defs ucast_16_mask)
  next
    case False
    then show ?thesis using e t ft B [of e 0] B [of e 1]
      by (simp add: fat_entry_def fs_type_defs)
  qed
  with r P(1) [OF lw] show ?thesis by (simp add: fat_updated_def)
qed

text \<open>The two bytes of a 12-bit entry: what \<^verbatim>\<open>put_cluster\<close> stores and how the entries sharing them read.\<close>

definition lo12 :: "nat \<Rightarrow> DWORD \<Rightarrow> BYTE \<Rightarrow> BYTE" where
  "lo12 c val b = (if odd c then (b AND 0x0F) OR push_bit 4 (ucast val) else ucast val)"

definition hi12 :: "nat \<Rightarrow> DWORD \<Rightarrow> BYTE \<Rightarrow> BYTE" where
  "hi12 c val b = (if odd c then ucast (drop_bit 4 val)
                   else (b AND 0xF0) OR (ucast (drop_bit 8 val) AND 0x0F))"

lemma masks_12:
  "(b AND 0x0F) = take_bit 4 b" "(b AND 0xF0) = push_bit 4 (drop_bit 4 b)" "w AND 0xFFF = take_bit 12 w"
  "d AND 0xFFF = take_bit 12 d" for b :: BYTE and w :: WORD and d :: DWORD
proof -
  show "(b AND 0x0F) = take_bit 4 b" "w AND 0xFFF = take_bit 12 w" "d AND 0xFFF = take_bit 12 d"
    by (simp_all add: take_bit_eq_mask mask_eq_exp_minus_1)
  have "(0xF0 :: BYTE) = NOT (mask 4)" by (simp add: mask_eq_exp_minus_1)
  then have "b AND 0xF0 = b AND NOT (mask 4)" by (simp only:)
  also have "\<dots> = push_bit 4 (drop_bit 4 b)" by (rule bit_word_eqI) (auto simp add: bit_simps)
  finally show "(b AND 0xF0) = push_bit 4 (drop_bit 4 b)" .
qed

lemma entry12_own: "entry12 c (lo12 c val lo) (hi12 c val hi) = val AND 0xFFF"
proof (cases "odd c")
  case True
  then show ?thesis
    unfolding entry12_def join16_def lo12_def hi12_def masks_12
    by (simp only: if_True) (rule bit_word_eqI, auto simp add: bit_simps)
next
  case False
  then show ?thesis
    unfolding entry12_def join16_def lo12_def hi12_def masks_12
    by (simp only: if_False) (rule bit_word_eqI, auto simp add: bit_simps)
qed

lemma entry12_next:
  assumes "even c" shows "entry12 (Suc c) (hi12 c val b) hi = entry12 (Suc c) b hi"
  using assms unfolding entry12_def join16_def hi12_def masks_12
  by simp (rule bit_word_eqI, auto simp add: bit_simps dest: bit_imp_le_length)

lemma entry12_prev:
  assumes "odd c" shows "entry12 (c - 1) lo (lo12 c val b) = entry12 (c - 1) lo b"
  using assms unfolding entry12_def join16_def lo12_def masks_12
  by simp (rule bit_word_eqI, auto simp add: bit_simps)

text \<open>Overwriting one byte of the FAT through the window.\<close>

lemma poke_byte:
  assumes ok: "vol_ok v" and i: "i < fat_bytes v" and sv: "same_view v u"
    and ws: "winsect u = fatbase v + of_nat (i div 512)"
    and v': "v' = u\<lparr>win := (win u)[i mod 512 := b], winflag := 1\<rparr>"
  shows "fat_frame v v'" and "k < fat_bytes v \<Longrightarrow> fat_byte v' k = (if k = i then b else fat_byte v k)"
proof -
  have len: "length ((win u)[i mod 512 := b]) = 512"
    using sv by (simp add: same_view_def vol_ok_def win_ok_def)
  note P = poke_fat [OF ok i sv ws len v']
  show "fat_frame v v'" by (rule P)
  show "fat_byte v' k = (if k = i then b else fat_byte v k)" if k: "k < fat_bytes v"
  proof (cases "k div 512 = i div 512")
    case True
    have g: "geom_ok v" using ok by (simp add: vol_ok_def)
    have "k = i \<longleftrightarrow> k mod 512 = i mod 512" using True by (metis div_mult_mod_eq)
    moreover have "win u ! (k mod 512) = fat_byte v k"
    proof -
      have "win u = eff v (winsect u)"
        using sv fat_sector(3,5) [OF g i] ws eff_winsect [of u] unfolding same_view_def by metis
      with True ws show ?thesis by (simp add: fat_byte_def)
    qed
    ultimately show ?thesis using P(2) [OF k] True len by (auto simp: nth_list_update)
  next
    case False
    then show ?thesis using P(2) [OF k] by auto
  qed
qed

lemma entry12_cases:
  "e = c \<or> (even c \<and> e = Suc c) \<or> (odd c \<and> e = c - 1)
   \<or> 3 * e div 2 + 1 < 3 * c div 2 \<or> 3 * c div 2 + 1 < 3 * e div (2 :: nat)"
proof -
  obtain a b where "e = 2 * a \<or> e = 2 * a + 1" "c = 2 * b \<or> c = 2 * b + 1"
    by (metis evenE oddE)
  moreover have "3 * (2 * a) div 2 = 3 * a" "3 * (2 * a + 1) div 2 = 3 * a + 1"
    "3 * (2 * b) div 2 = 3 * b" "3 * (2 * b + 1) div 2 = 3 * b + 1" by simp_all
  ultimately show ?thesis by (elim disjE) (simp_all, linarith+)
qed

lemma put_cluster_12_code:
  assumes t: "fs_type v = FS_FAT12" and bc: "unat clust \<le> 0xFF7"
    and m1: "move_window (fatbase v + of_nat (3 * unat clust div 2 div 512)) v = (True, u)"
    and v1: "v1 = u\<lparr>win := (win u)[3 * unat clust div 2 mod 512 :=
               lo12 (unat clust) val (win u ! (3 * unat clust div 2 mod 512))], winflag := 1\<rparr>"
    and fb: "fatbase u = fatbase v"
    and m2: "move_window (fatbase v + of_nat ((3 * unat clust div 2 + 1) div 512)) v1 = (True, w)"
  shows "put_cluster clust val v = (True, w\<lparr>win := (win w)[(3 * unat clust div 2 + 1) mod 512 :=
               hi12 (unat clust) val (win w ! ((3 * unat clust div 2 + 1) mod 512))], winflag := 1\<rparr>)"
proof -
  note bcs = fat12_bc_eq [OF bc] fat12_bc_Suc [OF bc]
  have odd: "clust AND 1 \<noteq> 0 \<longleftrightarrow> odd (unat clust)" by (simp add: and_1_eq_0_iff)
  have v1': "v1 = u\<lparr>win := (win u)[unat (fat12_bc clust AND 511) :=
      if odd (unat clust) then win u ! unat (fat12_bc clust AND 511) AND 15 OR push_bit 4 (ucast val)
      else ucast val], winflag := 1\<rparr>"
    by (simp add: v1 lo12_def unat_and_511_16 bcs)
  have m2': "move_window (fatbase v1 + ucast ((fat12_bc clust + 1) div 512)) v1 = (True, w)"
    using m2 fb by (simp add: fat12_sector bcs v1)
  have m1': "move_window (fatbase v + ucast (fat12_bc clust div 512)) v = (True, u)"
    using m1 by (simp add: fat12_sector bcs)
  show ?thesis
    unfolding put_cluster_def Let_def odd using t m1' m2' [unfolded v1'] 
    by (simp add: hi12_def unat_and_511_16 bcs)
qed

lemma put_cluster_12:
  assumes ok: "vol_ok v" and c: "clust < max_clust v" and t: "fs_type v = FS_FAT12"
    and pc: "put_cluster clust val v = (r, v')"
  shows "r \<and> fat_updated v (unat clust) val v'"
proof -
  let ?c = "unat clust" and ?i = "3 * unat clust div 2"
  have g: "geom_ok v" using ok by (simp add: vol_ok_def)
  have i: "unat clust \<le> 0xFF7" "?i < fat_bytes v" "?i + 1 < fat_bytes v"
    using entry_in_fat(1) [OF g, of ?c] c t by (simp_all add: word_less_nat_alt)
  obtain r1 u where mu: "move_window (fatbase v + of_nat (?i div 512)) v = (r1, u)" by fastforce
  note M = move_to_fat [OF ok i(2) mu]
  define v1 where v1: "v1 = u\<lparr>win := (win u)[?i mod 512 := lo12 ?c val (win u ! (?i mod 512))], winflag := 1\<rparr>"
  note P = poke_byte [OF ok i(2) M(2,3) v1]
  have ok1: "vol_ok v1" and g1: "geom v1 = geom v" using P(1) by (auto simp: fat_frame_def)
  have fb: "fatbase v1 = fatbase v" "fat_bytes v1 = fat_bytes v"
    using geom_eqD [OF g1] by (simp_all add: fat_bytes_def)
  obtain r2 w where mw: "move_window (fatbase v1 + of_nat ((?i + 1) div 512)) v1 = (r2, w)" by fastforce
  have i1: "?i + 1 < fat_bytes v1" using i fb by simp
  note M' = move_to_fat [OF ok1 i1 mw]
  define b where "b = hi12 ?c val (win w ! ((?i + 1) mod 512))"
  define v2 where v2: "v2 = w\<lparr>win := (win w)[(?i + 1) mod 512 := b], winflag := 1\<rparr>"
  note Q = poke_byte [OF ok1 i1 M'(2,3) v2]
  have "put_cluster clust val v = (True, v2)"
    unfolding v2 b_def using mu mw M(1) M'(1) fb
    by (intro put_cluster_12_code [OF t i(1) _ v1]) (simp_all add: v1)
  with pc have r: "r" and v': "v' = v2" by auto
  have fr: "fat_frame v v'" using P(1) Q(1) fat_frame_trans v' by blast
  have lo: "win u ! (?i mod 512) = fat_byte v ?i" by (rule M(4)) simp
  have hi: "win w ! ((?i + 1) mod 512) = fat_byte v (?i + 1)"
    using M'(4) [of "?i + 1"] P(2) [OF i(3)] by simp
  have B: "fat_byte v' k = (if k = ?i then lo12 ?c val (fat_byte v ?i)
      else if k = ?i + 1 then hi12 ?c val (fat_byte v (?i + 1)) else fat_byte v k)"
    if "k < fat_bytes v" for k
    using P(2) Q(2) that fb v' lo hi by (simp add: b_def)
  have ft: "fs_type v' = fs_type v" using fr geom_eqD [of v' v] by (simp add: fat_frame_def)
  have "fat_entry v' e = (if e = ?c then val AND fat_mask v else fat_entry v e)"
    if e: "e < unat (max_clust v)" for e
  proof -
    have k: "3 * e div 2 < fat_bytes v" "3 * e div 2 + 1 < fat_bytes v"
      using entry_in_fat(1) [OF g e t] by simp_all
    consider "e = ?c" | "even ?c" "e = Suc ?c" | "odd ?c" "e = ?c - 1"
      | "3 * e div 2 + 1 < ?i \<or> ?i + 1 < 3 * e div 2" using entry12_cases [of e ?c] by blast
    then show ?thesis
    proof cases
      case 1
      then show ?thesis using B [OF k(1)] B [OF k(2)] t ft
        by (simp add: fat_entry_def fat_mask_def entry12_own)
    next
      case 2
      have s: "3 * e div 2 = ?i + 1" using 2 by (elim evenE) simp
      have "fat_byte v' (3 * e div 2) = hi12 ?c val (fat_byte v (3 * e div 2))"
        "fat_byte v' (3 * e div 2 + 1) = fat_byte v (3 * e div 2 + 1)"
        using B [OF k(1)] B [OF k(2)] s by simp_all
      with 2 t ft show ?thesis by (simp only: fat_entry_def entry12_next) simp
    next
      case 3
      have s: "3 * e div 2 + 1 = ?i" "e \<noteq> ?c" using 3 by (elim oddE, simp)+
      have "fat_byte v' (3 * e div 2) = fat_byte v (3 * e div 2)"
        "fat_byte v' (3 * e div 2 + 1) = lo12 ?c val (fat_byte v (3 * e div 2 + 1))"
        using B [OF k(1)] B [OF k(2)] s by simp_all
      with 3 s(2) t ft entry12_prev [OF 3(1)] show ?thesis unfolding fat_entry_def by simp
    next
      case 4
      with B [OF k(1)] B [OF k(2)] t ft show ?thesis by (auto simp: fat_entry_def)
    qed
  qed
  with r fr show ?thesis by (simp add: fat_updated_def)
qed

lemma put_cluster_ok:
  assumes "vol_ok v" "clust < max_clust v" "put_cluster clust val v = (r, v')"
  shows "r" and "fat_updated v (unat clust) val v'"
proof -
  have "geom_ok v" "unat clust < unat (max_clust v)"
    using assms by (auto simp: vol_ok_def word_less_nat_alt)
  from entry_in_fat(4) [OF this] have "r \<and> fat_updated v (unat clust) val v'"
    using put_cluster_12 put_cluster_16 put_cluster_32 assms by blast
  then show "r" "fat_updated v (unat clust) val v'" by auto
qed

section \<open>The properties\<close>

text \<open>\<open>get_cluster\<close> returns the entry of the cluster, for 12-, 16- and 32-bit FATs (also for a
  12-bit entry that crosses a sector boundary), and changes nothing the file system sees.\<close>

theorem get_cluster_reads_entry:
  assumes "vol_ok v" "2 \<le> clust" "clust < max_clust v" "get_cluster clust v = (x, v')"
  shows "x = fat_entry v (unat clust) \<and> same_view v v'"
  using get_cluster_ok [OF assms] by blast

theorem get_cluster_reads_entry_witness: "fst (get_cluster 2 sample_vol) = 3"
proof -
  obtain x v' where g: "get_cluster 2 sample_vol = (x, v')" by fastforce
  have b: "(2 :: DWORD) \<le> 2" "2 < max_clust sample_vol" by (simp_all add: sample_fields)
  have "fat_entry sample_vol 2 = 3"
    by (simp add: fat_entry_def fat_byte_def eff_def sample_vol_def sample_dev_def sector_of_def
        join16_def sample_blk_def fs_type_defs)
  with get_cluster_reads_entry [OF sample_ok b g] g show ?thesis by simp
qed

text \<open>C28: \<open>put_cluster\<close> stores the value, cut to the width of an entry, in the entry of the cluster,
  leaves every other entry alone (for 12-bit entries also the one that shares a byte) and changes no
  sector outside the FAT area.\<close>

theorem put_cluster_updates_entry:
  assumes "vol_ok v" "clust < max_clust v" "put_cluster clust val v = (r, v')"
  shows "r \<and> fat_frame v v' \<and>
    (\<forall>e < unat (max_clust v). fat_entry v' e = (if e = unat clust then val AND fat_mask v else fat_entry v e))"
  using put_cluster_ok [OF assms] by (simp add: fat_updated_def)

theorem put_cluster_updates_entry_witness:
  "fst (put_cluster 4 9 sample_vol) \<and> fat_entry (snd (put_cluster 4 9 sample_vol)) 4 = 9"
proof -
  obtain r v' where p: "put_cluster 4 9 sample_vol = (r, v')" by fastforce
  have b: "4 < max_clust sample_vol" by (simp add: sample_fields)
  have "fat_mask sample_vol = 0xFFFF" by (simp add: fat_mask_def sample_vol_def fs_type_defs)
  with put_cluster_updates_entry [OF sample_ok b p] p show ?thesis by (simp add: sample_fields)
qed

end
