(* ===== verification/FfChain.thy ===== *)
theory FfChain
  imports FfFat
begin

unbundle bit_operations_syntax

text \<open>
  Cluster chains: \<^verbatim>\<open>remove_chain\<close> and \<^verbatim>\<open>create_chain\<close> of \<^verbatim>\<open>ff.c\<close>.  Their loops take the FAT operations
  they call as arguments; \<open>None\<close> is a loop that never ends.  The locale \<open>fat_ops\<close> is the contract of
  the FAT operations (what an entry reads after a write, what each keeps); in it the loops are shown
  to terminate on every FAT, cyclic chains included, to free exactly the clusters of a chain, and to
  find a free cluster exactly if there is one.
\<close>

section \<open>The loops\<close>

partial_function (option) remove_loop ::
  "(DWORD \<Rightarrow> 'v \<Rightarrow> DWORD \<times> 'v) \<Rightarrow> (DWORD \<Rightarrow> DWORD \<Rightarrow> 'v \<Rightarrow> bool \<times> 'v) \<Rightarrow> ('v \<Rightarrow> 'v) \<Rightarrow> ('v \<Rightarrow> DWORD)
   \<Rightarrow> DWORD \<Rightarrow> 'v \<Rightarrow> (bool \<times> 'v) option"
where
  "remove_loop get put freed maxc clust v =
     (if 2 \<le> clust \<and> clust < maxc v
      then (case get clust v of (nxt, v) \<Rightarrow>
              if nxt = 1 then Some (False, v)
              else (case put clust 0 v of (ok, v) \<Rightarrow>
                      if \<not> ok then Some (False, v)
                      else remove_loop get put freed maxc nxt (freed v)))
      else Some (True, v))"

text \<open>The scan of \<^verbatim>\<open>create_chain\<close>: 0 stands for no free cluster, 1 for an error.\<close>

partial_function (option) find_free ::
  "(DWORD \<Rightarrow> 'v \<Rightarrow> DWORD \<times> 'v) \<Rightarrow> DWORD \<Rightarrow> DWORD \<Rightarrow> DWORD \<Rightarrow> 'v \<Rightarrow> (DWORD \<times> 'v) option"
where
  "find_free get mcl scl ncl0 v =
     (let ncl = (if mcl \<le> ncl0 + 1 then 2 else ncl0 + 1) in
      if mcl \<le> ncl0 + 1 \<and> scl < 2 then Some (0, v)
      else (case get ncl v of (cstat, v) \<Rightarrow>
              if cstat = 0 then Some (ncl, v)
              else if cstat = 1 then Some (1, v)
              else if ncl = scl then Some (0, v)
              else find_free get mcl scl ncl v))"

section \<open>The operations of ff.c\<close>

definition freed_one :: "vol \<Rightarrow> vol" where
  "freed_one v = (if free_clust v \<noteq> 0xFFFFFFFF then v\<lparr>free_clust := free_clust v + 1\<rparr> else v)"

definition remove_chain :: "DWORD \<Rightarrow> vol \<Rightarrow> (bool \<times> vol) option" where
  "remove_chain = remove_loop get_cluster put_cluster freed_one max_clust"

definition create_from :: "DWORD \<Rightarrow> DWORD \<Rightarrow> vol \<Rightarrow> (DWORD \<times> vol) option" where
  "create_from clust scl v =
     Option.bind (find_free get_cluster (max_clust v) scl scl v) (\<lambda>(ncl, v).
       if ncl < 2 then Some (ncl, v)
       else (case put_cluster ncl 0x0FFFFFFF v of (ok, v) \<Rightarrow>
               if \<not> ok then Some (1, v)
               else (case (if clust \<noteq> 0 then put_cluster clust ncl v else (True, v)) of (ok, v) \<Rightarrow>
                       if \<not> ok then Some (1, v)
                       else Some (ncl, v\<lparr>last_clust := ncl,
                              free_clust := (if free_clust v \<noteq> 0xFFFFFFFF then free_clust v - 1
                                             else free_clust v)\<rparr>))))"

definition create_chain :: "DWORD \<Rightarrow> vol \<Rightarrow> (DWORD \<times> vol) option" where
  "create_chain clust v =
     (if clust = 0
      then create_from 0 (if last_clust v = 0 \<or> max_clust v \<le> last_clust v then 1 else last_clust v) v
      else (case get_cluster clust v of (cstat, v) \<Rightarrow>
              if cstat < 2 then Some (1, v)
              else if cstat < max_clust v then Some (cstat, v)
              else create_from clust clust v))"

section \<open>Chains\<close>

fun chain :: "(nat \<Rightarrow> DWORD) \<Rightarrow> DWORD \<Rightarrow> DWORD \<Rightarrow> DWORD list \<Rightarrow> bool" where
  "chain f m c [] = (\<not> (2 \<le> c \<and> c < m))"
| "chain f m c (x # xs) = (x = c \<and> 2 \<le> c \<and> c < m \<and> chain f m (f (unat c)) xs)"

lemma chain_bounds: "chain f m c xs \<Longrightarrow> x \<in> set xs \<Longrightarrow> 2 \<le> x \<and> x < m"
  by (induction xs arbitrary: c) auto

lemma chain_cong:
  "chain f m c xs \<Longrightarrow> (\<And>x. x \<in> set xs \<Longrightarrow> g (unat x) = f (unat x)) \<Longrightarrow> chain g m c xs"
  by (induction xs arbitrary: c) auto

section \<open>The contract of the FAT operations\<close>

locale fat_ops =
  fixes get :: "DWORD \<Rightarrow> 'v \<Rightarrow> DWORD \<times> 'v"
    and put :: "DWORD \<Rightarrow> DWORD \<Rightarrow> 'v \<Rightarrow> bool \<times> 'v"
    and freed :: "'v \<Rightarrow> 'v"
    and wf :: "'v \<Rightarrow> bool"
    and maxc :: "'v \<Rightarrow> DWORD"
    and fat :: "'v \<Rightarrow> nat \<Rightarrow> DWORD"
    and msk :: "'v \<Rightarrow> DWORD"
    and cnt :: "'v \<Rightarrow> DWORD"
    and fr :: "'v \<Rightarrow> 'v \<Rightarrow> bool"
  assumes get_law: "wf v \<Longrightarrow> 2 \<le> c \<Longrightarrow> c < maxc v \<Longrightarrow> get c v = (x, v') \<Longrightarrow>
      x = fat v (unat c) \<and> fr v v' \<and> cnt v' = cnt v \<and> (\<forall>e < unat (maxc v). fat v' e = fat v e)"
    and put_law: "wf v \<Longrightarrow> c < maxc v \<Longrightarrow> put c x v = (r, v') \<Longrightarrow>
      r \<and> fr v v' \<and> cnt v' = cnt v \<and>
      (\<forall>e < unat (maxc v). fat v' e = (if e = unat c then x AND msk v else fat v e))"
    and freed_law: "wf v \<Longrightarrow> fr v (freed v) \<and> fat (freed v) = fat v \<and>
      cnt (freed v) = (if cnt v = 0xFFFFFFFF then cnt v else cnt v + 1)"
    and fr_keeps: "fr v v' \<Longrightarrow> wf v' \<and> maxc v' = maxc v \<and> msk v' = msk v"
    and fr_refl: "wf v \<Longrightarrow> fr v v"
    and fr_trans: "fr u v \<Longrightarrow> fr v w \<Longrightarrow> fr u w"
    and maxc_small: "wf v \<Longrightarrow> unat (maxc v) < 2 ^ 31"
begin

text \<open>One round of the removal loop.\<close>

lemma remove_round:
  assumes w: "wf v" and c: "2 \<le> c" "c < maxc v" and n1: "fat v (unat c) \<noteq> 1"
  obtains v' where "remove_loop get put freed maxc c v
                      = remove_loop get put freed maxc (fat v (unat c)) v'"
    and "fr v v'" and "cnt v' = (if cnt v = 0xFFFFFFFF then cnt v else cnt v + 1)"
    and "\<And>e. e < unat (maxc v) \<Longrightarrow> fat v' e = (if e = unat c then 0 else fat v e)"
proof -
  obtain x v1 where g: "get c v = (x, v1)" by fastforce
  note G = get_law [OF w c g]
  then have k: "wf v1" "maxc v1 = maxc v" "msk v1 = msk v" using fr_keeps by blast+
  obtain r v2 where p: "put c 0 v1 = (r, v2)" by fastforce
  have c1: "c < maxc v1" using c k by simp
  note P = put_law [OF k(1) c1 p]
  then have w2: "wf v2" using fr_keeps by blast
  note F = freed_law [OF w2]
  show thesis
  proof (rule that)
    show "remove_loop get put freed maxc c v = remove_loop get put freed maxc (fat v (unat c)) (freed v2)"
      using c g p G P n1 by (subst remove_loop.simps) simp
    show "fr v (freed v2)" using G P F fr_trans by blast
    show "cnt (freed v2) = (if cnt v = 0xFFFFFFFF then cnt v else cnt v + 1)" using G P F by simp
    show "fat (freed v2) e = (if e = unat c then 0 else fat v e)" if "e < unat (maxc v)" for e
      using that G P F k by simp
  qed
qed

lemma remove_error:
  assumes "wf v" "2 \<le> c" "c < maxc v" "fat v (unat c) = 1"
  shows "\<exists>v'. remove_loop get put freed maxc c v = Some (False, v') \<and> fr v v'"
proof -
  obtain x v1 where g: "get c v = (x, v1)" by fastforce
  with get_law [OF assms(1-3) g] assms show ?thesis by (subst remove_loop.simps) simp
qed

lemma remove_end: "\<not> (2 \<le> c \<and> c < maxc v) \<Longrightarrow> remove_loop get put freed maxc c v = Some (True, v)"
  by (subst remove_loop.simps) auto

text \<open>The removal ends on every FAT: each round clears an entry, and a cleared entry ends it.\<close>

definition used :: "'v \<Rightarrow> nat set" where
  "used v = {e. e < unat (maxc v) \<and> fat v e \<noteq> 0}"

lemma remove_terminates: "wf v \<Longrightarrow> \<exists>r v'. remove_loop get put freed maxc c v = Some (r, v') \<and> fr v v'"
proof (induction "card (used v)" arbitrary: c v rule: less_induct)
  case less
  show ?case
  proof (cases "2 \<le> c \<and> c < maxc v")
    case False
    with less.prems show ?thesis using remove_end fr_refl by blast
  next
    case c: True
    show ?thesis
    proof (cases "fat v (unat c) = 1")
      case True
      with c less.prems remove_error show ?thesis by blast
    next
      case False
      with c less.prems obtain v' where L: "remove_loop get put freed maxc c v
          = remove_loop get put freed maxc (fat v (unat c)) v'"
        and f: "fr v v'" and e: "\<And>e. e < unat (maxc v) \<Longrightarrow> fat v' e = (if e = unat c then 0 else fat v e)"
        using remove_round by blast
      have k: "wf v'" "maxc v' = maxc v" using f fr_keeps by blast+
      show ?thesis
      proof (cases "fat v (unat c) = 0")
        case True
        with L have "remove_loop get put freed maxc c v = Some (True, v')"
          using remove_end [of 0 v'] by simp
        with f show ?thesis by blast
      next
        case False
        have "unat c \<in> used v" using c False by (simp add: used_def word_less_nat_alt)
        moreover have "used v' \<subseteq> used v - {unat c}"
        proof
          fix a assume "a \<in> used v'"
          then have "a < unat (maxc v)" "fat v' a \<noteq> 0" using k by (simp_all add: used_def)
          with e [of a] show "a \<in> used v - {unat c}" by (simp add: used_def split: if_splits)
        qed
        ultimately have "used v' \<subset> used v" by blast
        then have "card (used v') < card (used v)"
          by (rule psubset_card_mono [rotated]) (simp add: used_def)
        from less.hyps [OF this k(1)] obtain r w
          where R: "remove_loop get put freed maxc (fat v (unat c)) v' = Some (r, w)" "fr v' w" by blast
        from L R(1) have "remove_loop get put freed maxc c v = Some (r, w)" by (rule trans)
        with fr_trans [OF f R(2)] show ?thesis by blast
      qed
    qed
  qed
qed

text \<open>On a chain without repetition the removal frees exactly its clusters.\<close>

lemma remove_frees:
  assumes "wf v" "chain (fat v) (maxc v) c xs" "distinct xs" "\<forall>x \<in> set xs. fat v (unat x) \<noteq> 1"
    and "cnt v = 0xFFFFFFFF \<or> unat (cnt v) + length xs < 0xFFFFFFFF"
  shows "\<exists>v'. remove_loop get put freed maxc c v = Some (True, v') \<and> fr v v' \<and>
    (\<forall>e < unat (maxc v). fat v' e = (if e \<in> unat ` set xs then 0 else fat v e)) \<and>
    cnt v' = (if cnt v = 0xFFFFFFFF then cnt v else cnt v + of_nat (length xs))"
  using assms
proof (induction xs arbitrary: c v)
  case Nil
  then show ?case using remove_end fr_refl by fastforce
next
  case (Cons x xs)
  from Cons.prems have c: "x = c" "2 \<le> c" "c < maxc v" and n1: "fat v (unat c) \<noteq> 1" by auto
  obtain v' where L: "remove_loop get put freed maxc c v = remove_loop get put freed maxc (fat v (unat c)) v'"
    and f: "fr v v'" and n: "cnt v' = (if cnt v = 0xFFFFFFFF then cnt v else cnt v + 1)"
    and e: "\<And>e. e < unat (maxc v) \<Longrightarrow> fat v' e = (if e = unat c then 0 else fat v e)"
    using remove_round [OF Cons.prems(1) c(2,3) n1] by blast
  have k: "wf v'" "maxc v' = maxc v" using f fr_keeps by blast+
  have ch: "chain (fat v) (maxc v) (fat v (unat c)) xs" and nin: "c \<notin> set xs" and d: "distinct xs"
    using Cons.prems c by auto
  have bnd: "unat y < unat (maxc v)" if "y \<in> set xs" for y
    using chain_bounds [OF ch that] by (simp add: word_less_nat_alt)
  have same: "fat v' (unat y) = fat v (unat y)" if "y \<in> set xs" for y
    using e [OF bnd [OF that]] nin that unsigned_word_eqI [of y c, where ?'a = nat] by auto
  have ch': "chain (fat v') (maxc v') (fat v (unat c)) xs"
    using chain_cong [OF ch] same k by simp
  have ones: "\<forall>x \<in> set xs. fat v' (unat x) \<noteq> 1" using same Cons.prems by simp
  have num: "cnt v' = 0xFFFFFFFF \<or> unat (cnt v') + length xs < 0xFFFFFFFF"
  proof (cases "cnt v = 0xFFFFFFFF")
    case False
    with Cons.prems(5) have "unat (cnt v) + 1 < 2 ^ 32" by simp
    then have "unat (cnt v + 1) = unat (cnt v) + 1" by (simp add: unat_word_ariths)
    with False Cons.prems(5) n show ?thesis by simp
  qed (simp add: n)
  from Cons.IH [OF k(1) ch' d ones num] obtain w where
    W: "remove_loop get put freed maxc (fat v (unat c)) v' = Some (True, w)" "fr v' w"
      "\<forall>e < unat (maxc v). fat w e = (if e \<in> unat ` set xs then 0 else fat v' e)"
      "cnt w = (if cnt v' = 0xFFFFFFFF then cnt v' else cnt v' + of_nat (length xs))"
    using k by auto
  have "cnt w = (if cnt v = 0xFFFFFFFF then cnt v else cnt v + of_nat (length (x # xs)))"
  proof (cases "cnt v = 0xFFFFFFFF")
    case True
    then show ?thesis using W(4) n by simp
  next
    case False
    with Cons.prems(5) have "unat (cnt v) + 1 < 0xFFFFFFFF" by simp
    moreover from this have "unat (cnt v + 1) = unat (cnt v) + 1" by (simp add: unat_word_ariths)
    ultimately have "unat (cnt v + 1) \<noteq> unat (0xFFFFFFFF :: DWORD)" by simp
    then have "cnt v + 1 \<noteq> 0xFFFFFFFF" by auto
    with False W(4) n show ?thesis by (simp add: algebra_simps)
  qed
  moreover have "\<forall>a < unat (maxc v). fat w a = (if a \<in> unat ` set (x # xs) then 0 else fat v a)"
    using W(3) e c by auto
  moreover from L W(1) have "remove_loop get put freed maxc c v = Some (True, w)" by (rule trans)
  ultimately show ?case using fr_trans [OF f W(2)] by blast
qed

text \<open>
  The scan for a free cluster starts behind \<open>scl\<close> and wraps around to it.  \<open>ahead\<close> lists the
  clusters it has still to look at when it stands on \<open>n\<close>.
\<close>

definition ahead :: "nat \<Rightarrow> nat \<Rightarrow> nat \<Rightarrow> nat set" where
  "ahead m s n = (if s < 2 then {Suc n..<m}
                  else if s \<le> n then {Suc n..<m} \<union> {2..s} else {Suc n..s})"

lemma find_step:
  assumes "wf v" "mcl = maxc v" "2 \<le> c" "c < mcl" "get c v = (x, v1)"
  shows "x = fat v (unat c)" "wf v1" "maxc v1 = mcl" "fr v v1" "cnt v1 = cnt v" "msk v1 = msk v"
    "e < unat mcl \<Longrightarrow> fat v1 e = fat v e"
  using get_law [OF assms(1) assms(3) _ assms(5)] assms fr_keeps by auto

lemma find_free_spec:
  assumes "wf v" "mcl = maxc v" "1 \<le> scl" "scl < mcl" "1 \<le> ncl0" "ncl0 < mcl" "2 \<le> mcl"
    "2 \<le> scl \<or> scl \<le> ncl0"
  shows "\<exists>n v'. find_free get mcl scl ncl0 v = Some (n, v') \<and> fr v v' \<and> cnt v' = cnt v \<and>
    (\<forall>e < unat mcl. fat v' e = fat v e) \<and>
    (n = 0 \<and> (\<forall>e \<in> ahead (unat mcl) (unat scl) (unat ncl0). fat v e \<noteq> 0)
     \<or> n = 1 \<and> (\<exists>e \<in> ahead (unat mcl) (unat scl) (unat ncl0). fat v e = 1)
     \<or> 2 \<le> n \<and> n < mcl \<and> fat v (unat n) = 0)"
  using assms
proof (induction "card (ahead (unat mcl) (unat scl) (unat ncl0))" arbitrary: ncl0 v rule: less_induct)
  case less
  let ?A = "ahead (unat mcl) (unat scl)"
  have small: "unat mcl < 2 ^ 31" using less.prems maxc_small by simp
  then have suc: "unat (ncl0 + 1) = Suc (unat ncl0)"
    using less.prems by (simp add: unat_word_ariths word_less_nat_alt)
  note B = less.prems(3-7) [unfolded word_less_nat_alt word_le_nat_alt]
  define n where n_def: "n = (if mcl \<le> ncl0 + 1 then 2 else ncl0 + 1)"
  show ?case
  proof (cases "mcl \<le> ncl0 + 1 \<and> scl < 2")
    case True
    then have "?A (unat ncl0) = {}"
      using suc by (auto simp: ahead_def word_less_nat_alt word_le_nat_alt)
    with True less.prems(1) fr_refl show ?thesis by (subst find_free.simps) (simp add: Let_def)
  next
    case False
    have n2: "2 \<le> n" and nm: "n < mcl"
      using False B suc less.prems(8)
      by (auto simp: n_def word_less_nat_alt word_le_nat_alt split: if_splits)
    have A: "?A (unat ncl0) = insert (unat n) (if n = scl then {} else ?A (unat n))"
      and fresh: "n \<noteq> scl \<Longrightarrow> unat n \<notin> ?A (unat n)"
      using False B suc less.prems(8) unsigned_word_eqI [of n scl, where ?'a = nat]
      by (auto simp: n_def ahead_def word_less_nat_alt word_le_nat_alt split: if_splits)
    obtain x v1 where g: "get n v = (x, v1)" by fastforce
    note S = find_step [OF less.prems(1,2) n2 nm g]
    have un: "find_free get mcl scl ncl0 v =
      (if x = 0 then Some (n, v1) else if x = 1 then Some (1, v1)
       else if n = scl then Some (0, v1) else find_free get mcl scl n v1)"
      unfolding find_free.simps [of get mcl scl ncl0] Let_def n_def [symmetric]
      using False g by (simp only: if_False prod.case)
    consider "x = 0" | "x = 1" | "x \<noteq> 0" "x \<noteq> 1" "n = scl" | "x \<noteq> 0" "x \<noteq> 1" "n \<noteq> scl" by blast
    then show ?thesis
    proof cases
      case 1
      then show ?thesis using un S n2 nm by (intro exI [of _ n] exI [of _ v1]) simp
    next
      case 2
      then show ?thesis using un S A by (intro exI [of _ 1] exI [of _ v1]) auto
    next
      case 3
      then show ?thesis using un S A by (intro exI [of _ 0] exI [of _ v1]) auto
    next
      case 4
      have "finite (?A (unat n))" by (simp add: ahead_def)
      then have "card (?A (unat n)) < card (?A (unat ncl0))" using A fresh 4(3) by simp
      moreover have "1 \<le> n" using n2 by (simp add: word_le_nat_alt)
      moreover have "2 \<le> scl \<or> scl \<le> n"
        using n2 by (auto simp: word_le_nat_alt not_le word_less_nat_alt)
      ultimately obtain q v' where R: "find_free get mcl scl n v1 = Some (q, v')" "fr v1 v'" "cnt v' = cnt v1"
        "\<forall>e < unat mcl. fat v' e = fat v1 e"
        "q = 0 \<and> (\<forall>e \<in> ?A (unat n). fat v1 e \<noteq> 0) \<or> q = 1 \<and> (\<exists>e \<in> ?A (unat n). fat v1 e = 1)
         \<or> 2 \<le> q \<and> q < mcl \<and> fat v1 (unat q) = 0"
        using less.hyps [of n v1] S(2,3) less.prems nm by blast
      have sub: "e < unat mcl" if "e \<in> ?A (unat n)" for e
        using that B by (auto simp: ahead_def split: if_splits)
      have "q = 0 \<and> (\<forall>e \<in> ?A (unat ncl0). fat v e \<noteq> 0) \<or> q = 1 \<and> (\<exists>e \<in> ?A (unat ncl0). fat v e = 1)
         \<or> 2 \<le> q \<and> q < mcl \<and> fat v (unat q) = 0"
        using R(5) A 4 S(1) S(7) sub by (auto simp: word_less_nat_alt)
      moreover have "find_free get mcl scl ncl0 v = Some (q, v')" using un 4 R(1) by simp
      ultimately show ?thesis using R S fr_trans by (intro exI [of _ q] exI [of _ v']) auto
    qed
  qed
qed

end

section \<open>The FAT operations of ff.c keep the contract\<close>

text \<open>A step that may change the FAT, the free-cluster count and nothing else the user sees.\<close>

definition chain_frame :: "vol \<Rightarrow> vol \<Rightarrow> bool" where
  "chain_frame v v' \<longleftrightarrow> geom v' = geom v \<and> vol_ok v' \<and>
     (\<forall>t. t \<noteq> 0 \<longrightarrow> \<not> in_fat v t \<longrightarrow> eff v' t = eff v t)"

lemma chain_frame_trans: "chain_frame u v \<Longrightarrow> chain_frame v w \<Longrightarrow> chain_frame u w"
  using in_fat_cong [of v u] by (simp add: chain_frame_def)

lemma fat_frame_chain: "fat_frame v v' \<Longrightarrow> chain_frame v v'"
  by (simp add: fat_frame_def chain_frame_def)

lemma counters_invisible:
  assumes "geom w = geom v" "win w = win v" "winsect w = winsect v" "winflag w = winflag v"
    "disk w = disk v"
  shows "fat_entry w = fat_entry v" and "vol_ok v \<Longrightarrow> chain_frame v w"
proof -
  note g = geom_eqD [OF assms(1)]
  have e: "eff w = eff v" using assms by (simp add: eff_def fun_eq_iff)
  then show "fat_entry w = fat_entry v"
    using g by (simp add: fat_entry_def fat_byte_def entry32_def fun_eq_iff)
  assume "vol_ok v"
  then have "vol_ok w" using assms g geom_ok_cong [OF assms(1)] by (simp add: vol_ok_def win_ok_def)
  with e assms(1) show "chain_frame v w" by (simp add: chain_frame_def)
qed

lemma counters_keep:
  "vol_ok v \<Longrightarrow> vol_ok (v\<lparr>free_clust := n\<rparr>) \<and> fat_entry (v\<lparr>free_clust := n\<rparr>) = fat_entry v \<and>
     chain_frame v (v\<lparr>free_clust := n\<rparr>)"
  "vol_ok v \<Longrightarrow> vol_ok (v\<lparr>last_clust := n\<rparr>) \<and> fat_entry (v\<lparr>last_clust := n\<rparr>) = fat_entry v \<and>
     chain_frame v (v\<lparr>last_clust := n\<rparr>)"
proof -
  have *: "vol_ok w \<and> fat_entry w = fat_entry v \<and> chain_frame v w"
    if "vol_ok v" "geom w = geom v" "win w = win v" "winsect w = winsect v" "winflag w = winflag v"
      "disk w = disk v" for w
    using counters_invisible [OF that(2-6)] that(1) unfolding chain_frame_def by blast
  have g: "geom (v\<lparr>free_clust := n\<rparr>) = geom v" "geom (v\<lparr>last_clust := n\<rparr>) = geom v"
    by (simp_all add: geom_def)
  assume ok: "vol_ok v"
  show "vol_ok (v\<lparr>free_clust := n\<rparr>) \<and> fat_entry (v\<lparr>free_clust := n\<rparr>) = fat_entry v \<and>
      chain_frame v (v\<lparr>free_clust := n\<rparr>)"
    using * [OF ok g(1)] by simp
  show "vol_ok (v\<lparr>last_clust := n\<rparr>) \<and> fat_entry (v\<lparr>last_clust := n\<rparr>) = fat_entry v \<and>
      chain_frame v (v\<lparr>last_clust := n\<rparr>)"
    using * [OF ok g(2)] by simp
qed

lemma chain_frame_fields:
  "chain_frame v v' \<Longrightarrow> vol_ok v' \<and> max_clust v' = max_clust v \<and> fat_mask v' = fat_mask v"
  using geom_eqD [of v' v] by (simp add: chain_frame_def fat_mask_def)

interpretation ff: fat_ops get_cluster put_cluster freed_one vol_ok max_clust fat_entry fat_mask
  free_clust chain_frame
proof unfold_locales
  fix v c x v' assume A: "vol_ok v" "2 \<le> c" "c < max_clust v" "get_cluster c v = (x, v')"
  note G = get_cluster_ok [OF A]
  have "chain_frame v v'" using G(2) same_view_frame fat_frame_chain by blast
  moreover have "free_clust v' = free_clust v" using G(2) unfolding same_view_def by blast
  ultimately show "x = fat_entry v (unat c) \<and> chain_frame v v' \<and> free_clust v' = free_clust v \<and>
      (\<forall>e<unat (max_clust v). fat_entry v' e = fat_entry v e)"
    using G(1) fat_entry_same_view [OF A(1) G(2)] by blast
next
  fix v c x r v' assume A: "vol_ok v" "c < max_clust v" "put_cluster c x v = (r, v')"
  show "r \<and> chain_frame v v' \<and> free_clust v' = free_clust v \<and>
      (\<forall>e<unat (max_clust v). fat_entry v' e = (if e = unat c then x AND fat_mask v else fat_entry v e))"
    using put_cluster_ok [OF A] fat_frame_chain by (auto simp: fat_updated_def fat_frame_def)
next
  fix v assume "vol_ok v"
  then show "chain_frame v (freed_one v) \<and> fat_entry (freed_one v) = fat_entry v \<and>
      free_clust (freed_one v) = (if free_clust v = 0xFFFFFFFF then free_clust v else free_clust v + 1)"
    using counters_keep(1) [of v "free_clust v"] counters_keep(1) [of v "free_clust v + 1"]
    by (auto simp: freed_one_def)
next
  fix v assume "vol_ok v"
  then show "chain_frame v v" by (simp add: chain_frame_def)
next
  fix v assume "vol_ok v"
  then show "unat (max_clust v) < 2 ^ 31" by (auto simp: vol_ok_def geom_ok_def fat_fits_def)
qed (simp_all add: chain_frame_fields, rule chain_frame_trans)

lemma cluster_number_fits:
  assumes "vol_ok v" "n < max_clust v"
  shows "n AND fat_mask v = n"
proof -
  have n: "unat n < unat (max_clust v)" using assms by (simp add: word_less_nat_alt)
  have T: "n AND 0xFFF = take_bit 12 n" "n AND 0xFFFF = take_bit 16 n" "n AND 0x0FFFFFFF = take_bit 28 n"
    by (simp_all add: take_bit_eq_mask mask_eq_exp_minus_1)
  have small: "take_bit k n = n" if "unat n < 2 ^ k" for k
    using that by (simp add: word_unat_eq_iff unsigned_take_bit_eq take_bit_nat_eq_self)
  consider "fs_type v = FS_FAT12" "unat n < 2 ^ 12" | "fs_type v = FS_FAT16" "unat n < 2 ^ 16"
    | "fs_type v = FS_FAT32" "unat n < 2 ^ 28"
    using assms(1) n by (auto simp: vol_ok_def geom_ok_def fat_fits_def)
  then show ?thesis
    by cases (simp_all add: fat_mask_def fs_type_defs T small)
qed

section \<open>Allocating a cluster\<close>

text \<open>What a successful allocation of \<open>n\<close> behind \<open>clust\<close> leaves in the FAT.\<close>

definition linked :: "vol \<Rightarrow> DWORD \<Rightarrow> DWORD \<Rightarrow> vol \<Rightarrow> bool" where
  "linked v clust n v' \<longleftrightarrow>
     2 \<le> n \<and> n < max_clust v \<and> fat_entry v (unat n) = 0 \<and>
     (\<forall>e < unat (max_clust v). fat_entry v' e =
        (if clust \<noteq> 0 \<and> e = unat clust then n
         else if e = unat n then 0x0FFFFFFF AND fat_mask v else fat_entry v e)) \<and>
     last_clust v' = n \<and>
     free_clust v' = (if free_clust v = 0xFFFFFFFF then free_clust v else free_clust v - 1)"

definition fat_kept :: "vol \<Rightarrow> vol \<Rightarrow> bool" where
  "fat_kept v v' \<longleftrightarrow> (\<forall>e < unat (max_clust v). fat_entry v' e = fat_entry v e)"

lemma ahead_all:
  "1 \<le> s \<Longrightarrow> s < m \<Longrightarrow> ff.ahead m s s = {2..<m}"
  by (auto simp: ff.ahead_def)

lemma create_from_spec:
  assumes ok: "vol_ok v" and m: "2 \<le> max_clust v" and s: "1 \<le> scl" "scl < max_clust v"
    and cl: "clust = 0 \<or> 2 \<le> clust \<and> clust < max_clust v \<and> fat_entry v (unat clust) \<noteq> 0"
  shows "\<exists>n v'. create_from clust scl v = Some (n, v') \<and> chain_frame v v' \<and>
    (n = 0 \<and> fat_kept v v' \<and> (\<forall>e. 2 \<le> e \<and> e < unat (max_clust v) \<longrightarrow> fat_entry v e \<noteq> 0)
     \<or> n = 1 \<and> fat_kept v v' \<and> (\<exists>e. 2 \<le> e \<and> e < unat (max_clust v) \<and> fat_entry v e = 1)
     \<or> linked v clust n v')"
proof -
  have A: "ff.ahead (unat (max_clust v)) (unat scl) (unat scl) = {2..<unat (max_clust v)}"
    using s by (intro ahead_all) (simp_all add: word_less_nat_alt word_le_nat_alt)
  obtain n v1 where F: "find_free get_cluster (max_clust v) scl scl v = Some (n, v1)"
    "chain_frame v v1" "free_clust v1 = free_clust v" "fat_kept v v1"
    and C: "n = 0 \<and> (\<forall>e. 2 \<le> e \<and> e < unat (max_clust v) \<longrightarrow> fat_entry v e \<noteq> 0)
     \<or> n = 1 \<and> (\<exists>e. 2 \<le> e \<and> e < unat (max_clust v) \<and> fat_entry v e = 1)
     \<or> 2 \<le> n \<and> n < max_clust v \<and> fat_entry v (unat n) = 0"
    using ff.find_free_spec [OF ok refl s s m] unfolding A fat_kept_def
    by (auto simp: Bex_def Ball_def)
  show ?thesis
  proof (cases "2 \<le> n")
    case False
    then have "create_from clust scl v = Some (n, v1)" using F by (simp add: create_from_def not_le)
    with F C False show ?thesis by auto
  next
    case True
    with C have n: "n < max_clust v" "fat_entry v (unat n) = 0" by (auto simp: word_le_nat_alt)
    have k1: "vol_ok v1" "max_clust v1 = max_clust v" "fat_mask v1 = fat_mask v"
      using F(2) chain_frame_fields by blast+
    obtain r v2 where P2: "put_cluster n 0x0FFFFFFF v1 = (r, v2)" by fastforce
    have n1: "n < max_clust v1" using n k1 by simp
    note L2 = ff.put_law [OF k1(1) n1 P2]
    have k2: "vol_ok v2" "max_clust v2 = max_clust v" "fat_mask v2 = fat_mask v"
      using L2 chain_frame_fields k1 by metis+
    obtain q v3 where P3: "(if clust \<noteq> 0 then put_cluster clust n v2 else (True, v2)) = (q, v3)" by fastforce
    have L3: "q \<and> chain_frame v2 v3 \<and> free_clust v3 = free_clust v2 \<and>
      (\<forall>e < unat (max_clust v). fat_entry v3 e =
         (if clust \<noteq> 0 \<and> e = unat clust then n else fat_entry v2 e))"
    proof (cases "clust = 0")
      case True
      with P3 ff.fr_refl [OF k2(1)] show ?thesis by auto
    next
      case False
      with cl have c: "clust < max_clust v2" using k2 by simp
      from False P3 have "put_cluster clust n v2 = (q, v3)" by simp
      from ff.put_law [OF k2(1) c this] cluster_number_fits [OF ok n(1)] k2 False show ?thesis by simp
    qed
    define v' where "v' = v3\<lparr>last_clust := n, free_clust := (if free_clust v3 \<noteq> 0xFFFFFFFF
        then free_clust v3 - 1 else free_clust v3)\<rparr>"
    have "create_from clust scl v = Some (n, v')"
      using F(1) True P2 P3 L2 L3 by (simp add: create_from_def v'_def not_less)
    moreover have fr: "chain_frame v3 v'" and fe: "fat_entry v' = fat_entry v3"
    proof -
      have w: "vol_ok v3" using L3 chain_frame_fields by blast
      note K = counters_keep(2) [OF w, of n]
      note K' = counters_keep(1) [of "v3\<lparr>last_clust := n\<rparr>" "free_clust v'"]
      have e: "v' = v3\<lparr>last_clust := n\<rparr>\<lparr>free_clust := free_clust v'\<rparr>" by (simp add: v'_def)
      note K' = counters_keep(1) [of "v3\<lparr>last_clust := n\<rparr>" "free_clust v'", folded e]
      show "chain_frame v3 v'" using K K' chain_frame_trans by blast
      show "fat_entry v' = fat_entry v3" using K K' by simp
    qed
    moreover have "chain_frame v v'"
    proof (rule chain_frame_trans [OF F(2)], rule chain_frame_trans)
      show "chain_frame v1 v2" using L2 by blast
      show "chain_frame v2 v'" using L3 fr chain_frame_trans [of v2 v3 v'] by blast
    qed
    moreover have "linked v clust n v'"
    proof -
      have "free_clust v3 = free_clust v" using L2 L3 F by simp
      moreover have "clust \<noteq> n" using cl n True by (auto simp: word_le_nat_alt)
      moreover have "\<forall>e < unat (max_clust v). fat_entry v3 e =
        (if clust \<noteq> 0 \<and> e = unat clust then n
         else if e = unat n then 0x0FFFFFFF AND fat_mask v else fat_entry v e)"
        using L2 L3 F(4) k1 by (simp add: fat_kept_def)
      ultimately show ?thesis using True n fe by (simp add: linked_def v'_def)
    qed
    ultimately show ?thesis by blast
  qed
qed

section \<open>The properties\<close>

lemma create_chain_new_spec:
  assumes ok: "vol_ok v" and m: "2 \<le> max_clust v"
  shows "\<exists>n v'. create_chain 0 v = Some (n, v') \<and> chain_frame v v' \<and>
    (n = 0 \<and> fat_kept v v' \<and> (\<forall>e. 2 \<le> e \<and> e < unat (max_clust v) \<longrightarrow> fat_entry v e \<noteq> 0)
     \<or> n = 1 \<and> fat_kept v v' \<and> (\<exists>e. 2 \<le> e \<and> e < unat (max_clust v) \<and> fat_entry v e = 1)
     \<or> linked v 0 n v')"
proof -
  define s where "s = (if last_clust v = 0 \<or> max_clust v \<le> last_clust v then 1 else last_clust v)"
  have "1 \<le> s" "s < max_clust v"
    using m by (auto simp: s_def word_le_nat_alt word_less_nat_alt unat_eq_0 Suc_le_eq intro: ccontr)
  then show ?thesis using create_from_spec [OF ok m, of s 0] by (simp add: create_chain_def s_def)
qed

lemma create_chain_stretch_spec:
  assumes ok: "vol_ok v" and c: "2 \<le> clust" "clust < max_clust v"
  shows "\<exists>n v'. create_chain clust v = Some (n, v') \<and> chain_frame v v' \<and>
    (fat_entry v (unat clust) < 2 \<longrightarrow> n = 1 \<and> fat_kept v v') \<and>
    (2 \<le> fat_entry v (unat clust) \<and> fat_entry v (unat clust) < max_clust v \<longrightarrow>
       n = fat_entry v (unat clust) \<and> fat_kept v v') \<and>
    (max_clust v \<le> fat_entry v (unat clust) \<longrightarrow>
       n = 0 \<and> fat_kept v v' \<and> (\<forall>e. 2 \<le> e \<and> e < unat (max_clust v) \<longrightarrow> fat_entry v e \<noteq> 0)
       \<or> n = 1 \<and> fat_kept v v' \<and> (\<exists>e. 2 \<le> e \<and> e < unat (max_clust v) \<and> fat_entry v e = 1)
       \<or> linked v clust n v')"
proof -
  obtain x v1 where g: "get_cluster clust v = (x, v1)" by fastforce
  note G = ff.get_law [OF ok c g]
  have k: "vol_ok v1" "max_clust v1 = max_clust v" "fat_mask v1 = fat_mask v"
    using G chain_frame_fields by blast+
  have last: "last_clust v1 = last_clust v" "free_clust v1 = free_clust v"
    using get_cluster_ok(2) [OF ok c g] unfolding same_view_def by blast+
  have kept: "fat_kept v v1" using G by (simp add: fat_kept_def)
  have m2: "2 \<le> max_clust v" using c by (simp add: word_le_nat_alt word_less_nat_alt)
  have c0: "clust \<noteq> 0" using c by auto
  let ?e = "fat_entry v (unat clust)"
  consider "?e < 2" | "2 \<le> ?e" "?e < max_clust v" | "max_clust v \<le> ?e" by (meson linorder_not_le)
  then show ?thesis
  proof cases
    case 1
    moreover from 1 have "\<not> max_clust v \<le> ?e" "\<not> 2 \<le> ?e" using m2 by auto
    ultimately show ?thesis using g G kept c by (intro exI [of _ 1] exI [of _ v1]) (simp add: create_chain_def c0)
  next
    case 2
    have "create_chain clust v = Some (?e, v1)" using g G 2 k by (auto simp: create_chain_def c0)
    with 2 G kept show ?thesis by (intro exI [of _ ?e] exI [of _ v1]) auto
  next
    case 3
    have big: "\<not> ?e < 2" "\<not> ?e < max_clust v" using 3 m2 by auto
    have "?e \<noteq> 0" using 3 c by auto
    then have e1: "clust = 0 \<or> 2 \<le> clust \<and> clust < max_clust v1 \<and> fat_entry v1 (unat clust) \<noteq> 0"
      using c k G by (simp add: word_less_nat_alt)
    have same: "fat_entry v1 e = fat_entry v e" if "e < unat (max_clust v)" for e
      using that kept by (simp add: fat_kept_def)
    have s1: "1 \<le> clust" using c by (simp add: word_le_nat_alt)
    have "2 \<le> max_clust v1" "clust < max_clust v1" using m2 c k by simp_all
    from create_from_spec [OF k(1) this(1) s1 this(2) e1] obtain n v' where
      R: "create_from clust clust v1 = Some (n, v')" "chain_frame v1 v'"
      and D: "n = 0 \<and> fat_kept v1 v' \<and> (\<forall>e. 2 \<le> e \<and> e < unat (max_clust v1) \<longrightarrow> fat_entry v1 e \<noteq> 0)
       \<or> n = 1 \<and> fat_kept v1 v' \<and> (\<exists>e. 2 \<le> e \<and> e < unat (max_clust v1) \<and> fat_entry v1 e = 1)
       \<or> linked v1 clust n v'" by blast
    have kept': "fat_kept v1 v' \<Longrightarrow> fat_kept v v'" using same k by (simp add: fat_kept_def)
    have lk: "linked v1 clust n v' \<Longrightarrow> linked v clust n v'"
      using same k last by (auto simp: linked_def word_less_nat_alt)
    have run: "create_chain clust v = Some (n, v')"
      using g G big R by (simp add: create_chain_def c0 k)
    have "n = 0 \<and> fat_kept v v' \<and> (\<forall>e. 2 \<le> e \<and> e < unat (max_clust v) \<longrightarrow> fat_entry v e \<noteq> 0)
       \<or> n = 1 \<and> fat_kept v v' \<and> (\<exists>e. 2 \<le> e \<and> e < unat (max_clust v) \<and> fat_entry v e = 1)
       \<or> linked v clust n v'"
      using D kept' lk same k by auto
    moreover have "chain_frame v v'" using G R chain_frame_trans by blast
    ultimately show ?thesis using run big by blast
  qed
qed

lemma sample_byte: "k < 512 \<Longrightarrow> fat_byte sample_vol k = sample_blk 1 k"
  by (simp add: fat_byte_def eff_def sample_vol_def sample_dev_def sector_of_def)

lemma sample_entries:
  "fat_entry sample_vol 2 = 3" "fat_entry sample_vol 3 = 5" "fat_entry sample_vol 4 = 0"
  "fat_entry sample_vol 5 = 0xFFFF"
  by (simp_all add: fat_entry_def sample_byte join16_def sample_blk_def)
    (simp_all add: sample_vol_def fs_type_defs)

text \<open>C32: \<open>remove_chain\<close> returns on every FAT, also where the chain is cyclic or runs into
  another one: each round clears an entry, and a cleared entry ends the walk.  It changes sectors of
  the FAT area only.\<close>

theorem remove_chain_returns:
  "vol_ok v \<Longrightarrow> \<exists>r v'. remove_chain clust v = Some (r, v') \<and> chain_frame v v'"
  unfolding remove_chain_def by (rule ff.remove_terminates)

theorem remove_chain_returns_witness:
  "\<exists>r v'. remove_chain 2 sample_vol = Some (r, v') \<and> chain_frame sample_vol v'"
  by (rule remove_chain_returns [OF sample_ok])

text \<open>A freed chain leaves its last FAT sector in the window, to be written.\<close>

lemma put_cluster_dirty: "put_cluster c x v = (True, v') \<Longrightarrow> winflag v' = 1"
  by (auto simp: put_cluster_def Let_def split: if_splits prod.splits)

lemma remove_loop_dirty:
  "remove_loop get_cluster put_cluster freed_one max_clust c v = Some (True, v') \<Longrightarrow> v' = v \<or> winflag v' = 1"
proof -
  let ?P = "\<lambda>get put freed maxc c (v :: vol) y. get = get_cluster \<longrightarrow> put = put_cluster \<longrightarrow> freed = freed_one \<longrightarrow>
    fst y \<longrightarrow> snd y = v \<or> winflag (snd y) = 1"
  assume run: "remove_loop get_cluster put_cluster freed_one max_clust c v = Some (True, v')"
  have "?P get_cluster put_cluster freed_one max_clust c v (True, v')"
  proof (rule remove_loop.raw_induct [where P = ?P, OF _ run], goal_cases)
    case (1 loop get put freed maxc c v y)
    show ?case
    proof (intro impI)
      assume op: "get = get_cluster" "put = put_cluster" "freed = freed_one" and y: "fst y"
      have IH: "snd z = w \<or> winflag (snd z) = 1" if "loop get_cluster put_cluster freed_one maxc d w = Some z" "fst z" for d w z
        using 1(1) [OF that(1)] that(2) by simp
      obtain x v1 where g: "get_cluster c v = (x, v1)" by fastforce
      obtain b v2 where u: "put_cluster c 0 v1 = (b, v2)" by fastforce
      have "y = (True, v) \<or> b \<and> loop get_cluster put_cluster freed_one maxc x (freed_one v2) = Some y"
        using 1(2) y op g u by (cases y) (auto split: if_splits)
      moreover have "winflag (freed_one v2) = 1" if b
        using put_cluster_dirty u that by (auto simp: freed_one_def)
      ultimately show "snd y = v \<or> winflag (snd y) = 1" using IH [OF _ y] by force
    qed
  qed
  then show ?thesis by simp
qed

lemma remove_frees_spec:
  assumes "vol_ok v" "chain (fat_entry v) (max_clust v) clust xs" "distinct xs"
    and "\<forall>x \<in> set xs. fat_entry v (unat x) \<noteq> 1"
    and "free_clust v = 0xFFFFFFFF \<or> unat (free_clust v) + length xs < 0xFFFFFFFF"
  shows "\<exists>v'. remove_chain clust v = Some (True, v') \<and> chain_frame v v' \<and>
    (\<forall>e < unat (max_clust v). fat_entry v' e = (if e \<in> unat ` set xs then 0 else fat_entry v e)) \<and>
    free_clust v' = (if free_clust v = 0xFFFFFFFF then free_clust v else free_clust v + of_nat (length xs))"
  unfolding remove_chain_def using assms by (rule ff.remove_frees)

text \<open>C27: on a chain without repetition whose entries are not the error value 1, \<open>remove_chain\<close>
  succeeds, frees exactly the clusters of the chain (no other entry changes) and adds their number to
  the count of free clusters where that is known.\<close>

theorem remove_chain_frees_chain:
  assumes "vol_ok v" "chain (fat_entry v) (max_clust v) clust xs" "distinct xs"
    and "\<forall>x \<in> set xs. fat_entry v (unat x) \<noteq> 1"
    and "free_clust v = 0xFFFFFFFF \<or> unat (free_clust v) + length xs < 0xFFFFFFFF"
  shows "\<exists>v'. remove_chain clust v = Some (True, v') \<and> chain_frame v v' \<and>
    (\<forall>e < unat (max_clust v). fat_entry v' e = (if e \<in> unat ` set xs then 0 else fat_entry v e)) \<and>
    free_clust v' = (if free_clust v = 0xFFFFFFFF then free_clust v else free_clust v + of_nat (length xs))"
  using assms by (rule remove_frees_spec)

theorem remove_chain_frees_chain_witness:
  "\<exists>v'. remove_chain 2 sample_vol = Some (True, v') \<and> fat_entry v' 2 = 0 \<and> fat_entry v' 3 = 0 \<and>
     fat_entry v' 5 = 0 \<and> fat_entry v' 4 = 0 \<and> free_clust v' = 8"
proof -
  have "chain (fat_entry sample_vol) (max_clust sample_vol) 2 [2, 3, 5]"
    by (simp add: sample_fields sample_entries)
  from remove_chain_frees_chain [OF sample_ok this] show ?thesis
    by (auto simp: sample_fields sample_entries)
qed

text \<open>\<open>create_chain\<close> for a new chain scans every cluster before it reports that none is free; it
  reports an error only where an entry holds the value 1; otherwise it takes a free cluster, marks it
  as the end of a chain and records it in \<open>last_clust\<close> and \<open>free_clust\<close>; no other entry changes.\<close>

theorem create_chain_new:
  assumes "vol_ok v" "2 \<le> max_clust v"
  shows "\<exists>n v'. create_chain 0 v = Some (n, v') \<and> chain_frame v v' \<and>
    (n = 0 \<and> fat_kept v v' \<and> (\<forall>e. 2 \<le> e \<and> e < unat (max_clust v) \<longrightarrow> fat_entry v e \<noteq> 0)
     \<or> n = 1 \<and> fat_kept v v' \<and> (\<exists>e. 2 \<le> e \<and> e < unat (max_clust v) \<and> fat_entry v e = 1)
     \<or> linked v 0 n v')"
  using assms by (rule create_chain_new_spec)

theorem create_chain_new_witness:
  "\<exists>n v'. create_chain 0 sample_vol = Some (n, v') \<and> n \<noteq> 0"
proof -
  have "\<not> (\<forall>e. 2 \<le> e \<and> e < unat (max_clust sample_vol) \<longrightarrow> fat_entry sample_vol e \<noteq> 0)"
    using sample_entries(3) by (auto simp: sample_fields intro!: exI [of _ 4])
  with create_chain_new [OF sample_ok] show ?thesis by (auto simp: sample_fields linked_def)
qed

text \<open>C26: \<open>create_chain\<close> for an existing chain returns the next cluster where the entry names one,
  an error where the entry is free or invalid, and at the end of a chain appends a free cluster (or
  reports that there is none), changing no other entry.\<close>

theorem create_chain_stretch:
  assumes "vol_ok v" "2 \<le> clust" "clust < max_clust v"
  shows "\<exists>n v'. create_chain clust v = Some (n, v') \<and> chain_frame v v' \<and>
    (fat_entry v (unat clust) < 2 \<longrightarrow> n = 1 \<and> fat_kept v v') \<and>
    (2 \<le> fat_entry v (unat clust) \<and> fat_entry v (unat clust) < max_clust v \<longrightarrow>
       n = fat_entry v (unat clust) \<and> fat_kept v v') \<and>
    (max_clust v \<le> fat_entry v (unat clust) \<longrightarrow>
       n = 0 \<and> fat_kept v v' \<and> (\<forall>e. 2 \<le> e \<and> e < unat (max_clust v) \<longrightarrow> fat_entry v e \<noteq> 0)
       \<or> n = 1 \<and> fat_kept v v' \<and> (\<exists>e. 2 \<le> e \<and> e < unat (max_clust v) \<and> fat_entry v e = 1)
       \<or> linked v clust n v')"
  using assms by (rule create_chain_stretch_spec)

theorem create_chain_stretch_witness:
  "(\<exists>v'. create_chain 2 sample_vol = Some (3, v')) \<and>
   (\<exists>n v'. create_chain 5 sample_vol = Some (n, v') \<and> n \<noteq> 0)"
proof
  show "\<exists>v'. create_chain 2 sample_vol = Some (3, v')"
    using create_chain_stretch [OF sample_ok, of 2] by (auto simp: sample_fields sample_entries)
  have "\<not> (\<forall>e. 2 \<le> e \<and> e < unat (max_clust sample_vol) \<longrightarrow> fat_entry sample_vol e \<noteq> 0)"
    using sample_entries(3) by (auto simp: sample_fields intro!: exI [of _ 4])
  then show "\<exists>n v'. create_chain 5 sample_vol = Some (n, v') \<and> n \<noteq> 0"
    using create_chain_stretch [OF sample_ok, of 5]
    by (auto simp: sample_fields sample_entries linked_def)
qed

end
