(* ===== verification/FfName.thy ===== *)
theory FfName
  imports Prelude
begin

unbundle bit_operations_syntax

text \<open>
  File names of \<^verbatim>\<open>ff.c\<close>: \<^verbatim>\<open>make_dirfile\<close> turns one segment of a path into the eleven name bytes and the
  NT flag of a directory entry, \<^verbatim>\<open>get_fileinfo\<close> turns an entry back into a name.  A C string is the
  list of its bytes before the terminating zero.  The lemmas show that the two are inverse on the
  names of the 8.3 form, with the letter case of each part kept where it is uniform.
\<close>

section \<open>make\_dirfile\<close>

text \<open>\<open>put_char\<close> is the end of the loop body, labels \<^verbatim>\<open>md_l1\<close>/\<^verbatim>\<open>md_l2\<close>; \<open>None\<close> leaves the loop with an error.\<close>

definition put_char :: "BYTE \<Rightarrow> BYTE \<Rightarrow> BYTE \<Rightarrow> nat \<Rightarrow> nat \<Rightarrow> buffer \<Rightarrow> (BYTE \<times> BYTE \<times> nat \<times> nat \<times> buffer) option"
where
  "put_char c a b n t dirname =
     (if t \<le> n then None else Some (a, b, n + 1, t, dirname[n := c]))"

definition seg_char :: "BYTE \<Rightarrow> BYTE \<Rightarrow> BYTE \<Rightarrow> nat \<Rightarrow> nat \<Rightarrow> buffer \<Rightarrow> (BYTE \<times> BYTE \<times> nat \<times> nat \<times> buffer) option"
where
  "seg_char c a b n t dirname =
     (if c \<le> 0x20 \<or> c = 0x7F then None
      else if c = 0x2E then
        (if a AND 1 = 0 \<and> 1 \<le> n \<and> n \<le> 8 then Some (a, b, 8, 11, dirname) else None)
      else if 0x81 \<le> c \<and> c \<le> 0x9F \<or> 0xE0 \<le> c \<and> c \<le> 0xFC then
        put_char (if n = 0 \<and> c = 0xE5 then 0x05 else c) (a XOR 1) b n t dirname
      else if c = 0x22 then None
      else if c \<le> 0x29 then put_char c (a AND NOT 1) b n t dirname
      else if c \<le> 0x2C then None
      else if c \<le> 0x39 then put_char c (a AND NOT 1) b n t dirname
      else if c \<le> 0x3F then None
      else if a AND 1 = 0 then
        (if c = 0x7C then None
         else if 0x5B \<le> c \<and> c \<le> 0x5D then None
         else let b = (if 0x41 \<le> c \<and> c \<le> 0x5A then (if t = 8 then b AND NOT 0x08 else b AND NOT 0x10) else b)
              in if 0x61 \<le> c \<and> c \<le> 0x7A
                 then put_char (c - 0x20) ((if t = 8 then a OR 0x08 else a OR 0x10) AND NOT 1) b n t dirname
                 else put_char c (a AND NOT 1) b n t dirname)
      else put_char c (a AND NOT 1) b n t dirname)"

definition seg_end :: "BYTE \<Rightarrow> BYTE list \<Rightarrow> BYTE \<Rightarrow> BYTE \<Rightarrow> nat \<Rightarrow> buffer \<Rightarrow> BYTE \<times> BYTE list \<times> buffer" where
  "seg_end c path a b n dirname =
     (if n = 0 then (1, path, dirname) else (c, path, dirname[11 := a AND b]))"

fun make_loop :: "BYTE list \<Rightarrow> BYTE \<Rightarrow> BYTE \<Rightarrow> nat \<Rightarrow> nat \<Rightarrow> buffer \<Rightarrow> BYTE \<times> BYTE list \<times> buffer" where
  "make_loop [] a b n t dirname = seg_end 0 [] a b n dirname"
| "make_loop (c # path) a b n t dirname =
     (if c = 0 \<or> c = 0x2F then seg_end c path a b n dirname
      else (case seg_char c a b n t dirname of
              None \<Rightarrow> (1, path, dirname)
            | Some (a, b, n, t, dirname) \<Rightarrow> make_loop path a b n t dirname))"

text \<open>The result is the return code, the path behind the segment and the name buffer.\<close>

definition make_dirfile :: "BYTE list \<Rightarrow> buffer \<Rightarrow> BYTE \<times> BYTE list \<times> buffer" where
  "make_dirfile path dirname = make_loop path 0 0x18 0 8 (replicate 11 0x20 @ drop 11 dirname)"

section \<open>get\_fileinfo\<close>

record FILINFO =
  fi_fsize :: DWORD
  fi_fdate :: WORD
  fi_ftime :: WORD
  fi_fattrib :: BYTE
  fi_fname :: "BYTE list"

fun copy_name :: "(BYTE \<Rightarrow> BYTE) \<Rightarrow> BYTE list \<Rightarrow> BYTE list" where
  "copy_name f [] = []"
| "copy_name f (c # cs) = (if c = 0x20 then [] else f c # copy_name f cs)"

definition nt_lower :: "BYTE \<Rightarrow> BYTE \<Rightarrow> BYTE \<Rightarrow> BYTE" where
  "nt_lower a flag c = (if a AND flag \<noteq> 0 \<and> 0x41 \<le> c \<and> c \<le> 0x5A then c + 0x20 else c)"

definition get_fileinfo :: "buffer \<Rightarrow> FILINFO" where
  "get_fileinfo dir =
     (let a = dir ! 12;
          body = copy_name (\<lambda>c. nt_lower a 0x08 (if c = 0x05 then 0xE5 else c)) (take 8 dir);
          ext = (if dir ! 8 \<noteq> 0x20
                 then 0x2E # copy_name (nt_lower a 0x10) (take 3 (drop 8 dir)) else [])
      in \<lparr>fi_fsize = LD_DWORD dir 28, fi_fdate = LD_WORD dir 24, fi_ftime = LD_WORD dir 22,
          fi_fattrib = dir ! 11, fi_fname = body @ ext\<rparr>)"

section \<open>Names of the 8.3 form\<close>

text \<open>The ASCII characters a name may hold, and the case of letters.\<close>

definition upper_char :: "BYTE \<Rightarrow> bool" where "upper_char c \<longleftrightarrow> 0x41 \<le> c \<and> c \<le> 0x5A"
definition lower_char :: "BYTE \<Rightarrow> bool" where "lower_char c \<longleftrightarrow> 0x61 \<le> c \<and> c \<le> 0x7A"

definition name_char :: "BYTE \<Rightarrow> bool" where
  "name_char c \<longleftrightarrow> 0x20 < c \<and> c < 0x7F \<and> c \<noteq> 0x22 \<and> \<not> (0x2A \<le> c \<and> c \<le> 0x2C) \<and> c \<noteq> 0x2E \<and> c \<noteq> 0x2F \<and>
     \<not> (0x3A \<le> c \<and> c \<le> 0x3F) \<and> \<not> (0x5B \<le> c \<and> c \<le> 0x5D) \<and> c \<noteq> 0x7C"

definition upc :: "BYTE \<Rightarrow> BYTE" where
  "upc c = (if lower_char c then c - 0x20 else c)"

text \<open>The NT flag of a part of the name: set where it has a lower case letter and no upper case one.\<close>

definition part_flag :: "BYTE \<Rightarrow> BYTE list \<Rightarrow> BYTE" where
  "part_flag flag w = (if (\<exists>c \<in> set w. lower_char c) \<and> \<not> (\<exists>c \<in> set w. upper_char c) then flag else 0)"

definition pad :: "nat \<Rightarrow> BYTE list \<Rightarrow> BYTE list" where
  "pad k w = w @ replicate (k - length w) 0x20"

definition segment :: "BYTE list \<Rightarrow> BYTE list \<Rightarrow> BYTE list" where
  "segment body ext = body @ (if ext = [] then [] else 0x2E # ext)"

definition good_name :: "BYTE list \<Rightarrow> BYTE list \<Rightarrow> bool" where
  "good_name body ext \<longleftrightarrow>
     1 \<le> length body \<and> length body \<le> 8 \<and> length ext \<le> 3 \<and> list_all name_char (body @ ext)"

definition entry_name :: "BYTE list \<Rightarrow> BYTE list \<Rightarrow> buffer" where
  "entry_name body ext = pad 8 (map upc body) @ pad 3 (map upc ext) @ [part_flag 0x08 body OR part_flag 0x10 ext]"

lemma length_entry_name: "good_name body ext \<Longrightarrow> length (entry_name body ext) = 12"
  by (simp add: good_name_def entry_name_def pad_def)

text \<open>One character, and one part of the name.\<close>

definition with_lower :: "nat \<Rightarrow> BYTE \<Rightarrow> BYTE" where
  "with_lower t a = (if t = 8 then a OR 0x08 else a OR 0x10)"

definition without_upper :: "nat \<Rightarrow> BYTE \<Rightarrow> BYTE" where
  "without_upper t b = (if t = 8 then b AND NOT 0x08 else b AND NOT 0x10)"

lemma even_ors: "(a :: BYTE) AND 1 = 0 \<Longrightarrow> with_lower t a AND 1 = 0"
  by (simp add: with_lower_def bit.conj_disj_distrib2)

lemma and_not_1: "(a :: BYTE) AND 1 = 0 \<Longrightarrow> a AND NOT 1 = a"
proof -
  assume 0: "a AND 1 = 0"
  have "a = a AND (1 OR NOT 1)" by (simp only: bit.disj_cancel_right bit.conj_one_right)
  also have "\<dots> = (a AND 1) OR (a AND NOT 1)" by (rule bit.conj_disj_distrib)
  finally show ?thesis using 0 by (simp only: or.left_neutral)
qed

lemma seg_char_name:
  assumes "name_char c" "a AND 1 = 0" "n < t"
  shows "seg_char c a b n t dn =
    Some (if lower_char c then with_lower t a else a, if upper_char c then without_upper t b else b,
          n + 1, t, dn[n := upc c])"
proof -
  have e: "with_lower t a AND NOT 1 = with_lower t a" "a AND NOT 1 = a"
    using assms(2) even_ors and_not_1 by blast+
  have q: "c \<noteq> 0x2E" "c \<noteq> 0x22" "c \<noteq> 0x7C" "c \<noteq> 0x7F" and r: "0x20 < c" "c < 0x7F"
    "\<not> (0x2A \<le> c \<and> c \<le> 0x2C)" "\<not> (0x3A \<le> c \<and> c \<le> 0x3F)" "\<not> (0x5B \<le> c \<and> c \<le> 0x5D)"
    using assms(1) by (auto simp: name_char_def)
  have k: "\<not> c \<le> 0x20" "\<not> 0x81 \<le> c" "\<not> 0xE0 \<le> c"
    using r by (auto simp: word_le_nat_alt word_less_nat_alt)
  have "c \<le> 0x29 \<or> \<not> c \<le> 0x2C \<and> c \<le> 0x39 \<or> \<not> c \<le> 0x3F \<and> \<not> c \<le> 0x39 \<and> \<not> c \<le> 0x2C \<and> \<not> c \<le> 0x29"
    using r by (auto simp: word_le_nat_alt)
  then show ?thesis
  proof (elim disjE conjE)
    assume s: "c \<le> 0x29"
    then have "\<not> lower_char c" "\<not> upper_char c"
      by (auto simp: lower_char_def upper_char_def word_le_nat_alt)
    with s q k assms(3) e show ?thesis
      by (simp add: seg_char_def put_char_def upc_def)
  next
    assume s: "\<not> c \<le> 0x2C" "c \<le> 0x39"
    then have "\<not> lower_char c" "\<not> upper_char c" "\<not> c \<le> 0x29"
      by (auto simp: lower_char_def upper_char_def word_le_nat_alt)
    with s q k assms(3) e show ?thesis
      by (simp add: seg_char_def put_char_def upc_def)
  next
    assume s: "\<not> c \<le> 0x3F" "\<not> c \<le> 0x39" "\<not> c \<le> 0x2C" "\<not> c \<le> 0x29"
    have x: "\<not> (lower_char c \<and> upper_char c)"
      by (auto simp: lower_char_def upper_char_def word_le_nat_alt)
    have ne: "(0x61 \<le> c \<and> c \<le> 0x7A) = lower_char c" "(0x41 \<le> c \<and> c \<le> 0x5A) = upper_char c"
      by (simp_all add: lower_char_def upper_char_def)
    show ?thesis
      unfolding seg_char_def put_char_def Let_def ne upc_def with_lower_def [symmetric] without_upper_def [symmetric]
      using s q k r(5) assms(2,3) x e by simp
  qed
qed

lemma lower_idem: "with_lower t (with_lower t a) = with_lower t a"
  and upper_idem: "without_upper t (without_upper t b) = without_upper t b"
  by (simp_all add: with_lower_def without_upper_def or.assoc and.assoc)

lemma name_char_not_end: "name_char c \<Longrightarrow> c \<noteq> 0 \<and> c \<noteq> 0x2F"
  by (auto simp: name_char_def word_less_nat_alt)

lemma make_loop_part:
  assumes "list_all name_char w" "a AND 1 = 0" "n + length w \<le> t" "length p = n" "length q = length w"
  shows "make_loop (w @ rest) a b n t (p @ q @ r) =
    make_loop rest (if \<exists>c \<in> set w. lower_char c then with_lower t a else a)
      (if \<exists>c \<in> set w. upper_char c then without_upper t b else b) (n + length w) t (p @ map upc w @ r)"
  using assms
proof (induction w arbitrary: a b n p q)
  case (Cons c w)
  from Cons.prems obtain x q' where q: "q = x # q'" "length q' = length w" by (cases q) auto
  let ?a = "if lower_char c then with_lower t a else a"
  let ?b = "if upper_char c then without_upper t b else b"
  have c: "name_char c" "n < t" "c \<noteq> 0" "c \<noteq> 0x2F"
    using Cons.prems name_char_not_end by auto
  have a: "?a AND 1 = 0" using Cons.prems even_ors by simp
  have dn: "(p @ q @ r)[n := upc c] = (p @ [upc c]) @ q' @ r"
    using Cons.prems q by (simp add: list_update_append)
  have "make_loop ((c # w) @ rest) a b n t (p @ q @ r) = make_loop (w @ rest) ?a ?b (n + 1) t ((p @ [upc c]) @ q' @ r)"
    using c seg_char_name [OF c(1) Cons.prems(2) c(2)] by (simp only: append_Cons make_loop.simps dn option.case prod.case) simp
  also have "\<dots> = make_loop rest (if \<exists>c \<in> set w. lower_char c then with_lower t ?a else ?a)
      (if \<exists>c \<in> set w. upper_char c then without_upper t ?b else ?b) (n + 1 + length w) t
      ((p @ [upc c]) @ map upc w @ r)"
    using Cons.prems q by (intro Cons.IH [OF _ a]) auto
  finally show ?case by (auto simp: lower_idem upper_idem)
qed simp

text \<open>The complete segment.\<close>

definition seg_stop :: "BYTE list \<Rightarrow> bool" where
  "seg_stop rest \<longleftrightarrow> rest = [] \<or> hd rest = 0 \<or> hd rest = 0x2F"

lemma make_loop_stop:
  "seg_stop rest \<Longrightarrow> n \<noteq> 0 \<Longrightarrow> make_loop rest a b n t dn =
     (if rest = [] then 0 else hd rest, tl rest, dn[11 := a AND b])"
  by (cases rest) (auto simp: seg_stop_def seg_end_def)

lemma make_dirfile_ok:
  assumes "good_name body ext" "seg_stop rest" "length dn = 12"
  shows "make_dirfile (segment body ext @ rest) dn =
    (if rest = [] then 0 else hd rest, tl rest, entry_name body ext)"
proof -
  let ?l8 = "\<exists>c \<in> set body. lower_char c" and ?u8 = "\<exists>c \<in> set body. upper_char c"
  let ?l16 = "\<exists>c \<in> set ext. lower_char c" and ?u16 = "\<exists>c \<in> set ext. upper_char c"
  have g: "1 \<le> length body" "length body \<le> 8" "length ext \<le> 3" "list_all name_char body" "list_all name_char ext"
    using assms(1) by (auto simp: good_name_def)
  define k where "k = length body"
  obtain z where z: "drop 11 dn = [z]"
  proof -
    have "length (drop 11 dn) = Suc 0" using assms(3) by simp
    then show thesis using that by (auto simp only: length_Suc_conv length_0_conv)
  qed
  let ?a = "if ?l8 then with_lower 8 0 else 0" and ?b = "if ?u8 then without_upper 8 0x18 else 0x18"
  have a0: "?a AND 1 = 0" by (simp add: with_lower_def)
  have dn0: "replicate 11 0x20 @ [z] = [] @ replicate k 0x20 @ (replicate (8 - k) 0x20 @ replicate 3 0x20 @ [z])"
    using g by (simp add: k_def replicate_add [symmetric] flip: append_assoc)
  have step1: "make_dirfile (segment body ext @ rest) dn =
     make_loop ((if ext = [] then [] else 0x2E # ext) @ rest) ?a ?b k 8
       (map upc body @ replicate (8 - k) 0x20 @ replicate 3 0x20 @ [z])"
    using make_loop_part [OF g(4), of 0 0 8 "[]" "replicate k 0x20"] g
    unfolding make_dirfile_def segment_def z dn0 append_assoc by (simp add: k_def)
  show ?thesis
  proof (cases "ext = []")
    case True
    have k: "k \<noteq> 0" using g by (auto simp: k_def)
    let ?X = "map upc body @ replicate (8 - k) 0x20 @ replicate 3 0x20 @ [z]"
    have "make_dirfile (segment body ext @ rest) dn = make_loop rest ?a ?b k 8 ?X"
      using step1 True by (simp only: if_True refl append_Nil)
    also have "\<dots> = (if rest = [] then 0 else hd rest, tl rest, ?X[11 := ?a AND ?b])"
      by (rule make_loop_stop [OF assms(2) k])
    also have "?X[11 := ?a AND ?b] = map upc body @ replicate (8 - k) 0x20 @ replicate 3 0x20 @ [?a AND ?b]"
      using g by (auto simp: list_update_append k_def)
    also have "?a AND ?b = part_flag 0x08 body OR part_flag 0x10 ext"
      using True by (auto simp: part_flag_def with_lower_def without_upper_def)
    finally show ?thesis using True by (simp add: entry_name_def pad_def k_def)
  next
    case False
    let ?c = "if ?l16 then with_lower 11 ?a else ?a" and ?d = "if ?u16 then without_upper 11 ?b else ?b"
    have k0: "1 \<le> k" "k \<le> 8" using g by (simp_all add: k_def)
    have "seg_char 0x2E ?a ?b k 8 dd = Some (?a, ?b, 8, 11, dd)" for dd
      using a0 k0 by (simp add: seg_char_def)
    then have go: "make_loop (0x2E # ext @ rest) ?a ?b k 8 dd = make_loop (ext @ rest) ?a ?b 8 11 dd" for dd
      by simp
    have three: "replicate 3 0x20 = replicate (length ext) (0x20 :: BYTE) @ replicate (3 - length ext) 0x20"
      using g by (simp flip: replicate_add)
    have "make_dirfile (segment body ext @ rest) dn = make_loop (ext @ rest) ?a ?b 8 11
        ((map upc body @ replicate (8 - k) 0x20) @ replicate (length ext) 0x20 @ (replicate (3 - length ext) 0x20 @ [z]))"
      unfolding step1 using False go by (simp only: if_False append_Cons three append_assoc)
    also have "\<dots> = make_loop rest ?c ?d (8 + length ext) 11
        ((map upc body @ replicate (8 - k) 0x20) @ map upc ext @ (replicate (3 - length ext) 0x20 @ [z]))"
      using g a0 by (intro make_loop_part) (auto simp: k_def)
    also have "\<dots> = (if rest = [] then 0 else hd rest, tl rest,
        ((map upc body @ replicate (8 - k) 0x20) @ map upc ext @ (replicate (3 - length ext) 0x20 @ [z]))[11 := ?c AND ?d])"
      using make_loop_stop [OF assms(2)] by simp
    also have "((map upc body @ replicate (8 - k) 0x20) @ map upc ext @ (replicate (3 - length ext) 0x20 @ [z]))[11 := ?c AND ?d]
      = (map upc body @ replicate (8 - k) 0x20) @ map upc ext @ replicate (3 - length ext) 0x20 @ [?c AND ?d]"
      using g by (auto simp: list_update_append k_def)
    also have "?c AND ?d = part_flag 0x08 body OR part_flag 0x10 ext"
      by (auto simp: part_flag_def with_lower_def without_upper_def)
    finally show ?thesis by (simp add: entry_name_def pad_def k_def)
  qed
qed

section \<open>Reading the name back\<close>

definition same_case :: "BYTE list \<Rightarrow> bool" where
  "same_case w \<longleftrightarrow> \<not> ((\<exists>c \<in> set w. lower_char c) \<and> (\<exists>c \<in> set w. upper_char c))"

lemma upc_not: "name_char c \<Longrightarrow> upc c \<noteq> 0x20 \<and> upc c \<noteq> 0x05 \<and> upc c \<noteq> 0xE5 \<and> upc c \<noteq> 0"
  by (auto simp: name_char_def upc_def lower_char_def word_le_nat_alt word_less_nat_alt word_unat_eq_iff unat_sub)

lemma upc_upper: "lower_char c \<Longrightarrow> upper_char (upc c)" and not_lower_upc: "\<not> lower_char c \<Longrightarrow> upc c = c"
  by (auto simp: upper_char_def upc_def lower_char_def word_le_nat_alt unat_sub)

lemma copy_name_pad:
  "list_all name_char w \<Longrightarrow> length w \<le> k \<Longrightarrow> copy_name f (pad k (map upc w)) = map (f \<circ> upc) w"
proof -
  have stop: "copy_name f (replicate m 0x20) = []" for m by (cases m) auto
  assume "list_all name_char w"
  then have "copy_name f (map upc w @ replicate m 0x20) = map (f \<circ> upc) w" for m
    using upc_not stop by (induction w) auto
  then show ?thesis by (simp add: pad_def)
qed

lemma nt_lower_part:
  assumes "list_all name_char w" "(a AND flag \<noteq> 0) = (part_flag flag w \<noteq> 0)" "flag \<noteq> 0"
  shows "map (\<lambda>c. nt_lower a flag (upc c)) w = (if same_case w then w else map upc w)"
proof (cases "part_flag flag w = 0")
  case True
  then have n: "nt_lower a flag (upc c) = upc c" for c using assms(2) by (simp add: nt_lower_def)
  show ?thesis
  proof (cases "same_case w")
    case True
    with \<open>part_flag flag w = 0\<close> assms(3) have "\<forall>c \<in> set w. \<not> lower_char c"
      by (auto simp: part_flag_def same_case_def split: if_splits)
    with True n show ?thesis by (simp add: not_lower_upc map_idI)
  qed (simp add: n)
next
  case False
  then have nu: "\<forall>c \<in> set w. \<not> upper_char c" by (auto simp: part_flag_def split: if_splits)
  then have sc: "same_case w" by (simp add: same_case_def)
  have a: "a AND flag \<noteq> 0" using False assms(2) by simp
  have "nt_lower a flag (upc c) = c" if "c \<in> set w" for c
  proof (cases "lower_char c")
    case True
    then show ?thesis using a upc_upper [OF True]
      by (simp add: nt_lower_def upper_char_def) (simp add: upc_def)
  next
    case False
    with nu that show ?thesis by (auto simp: nt_lower_def not_lower_upc upper_char_def)
  qed
  with sc show ?thesis by (simp add: map_idI)
qed

text \<open>A directory entry starts with the eleven name bytes; byte 12 holds the NT flag.\<close>

definition named :: "buffer \<Rightarrow> buffer \<Rightarrow> bool" where
  "named dir fn \<longleftrightarrow> length dir = 32 \<and> length fn = 12 \<and> take 11 dir = take 11 fn \<and> dir ! 12 = fn ! 11"

lemma get_fileinfo_name:
  assumes "good_name body ext" "named dir (entry_name body ext)"
  shows "fi_fname (get_fileinfo dir) =
    segment (if same_case body then body else map upc body) (if same_case ext then ext else map upc ext)"
proof -
  have g: "length body \<le> 8" "length ext \<le> 3" "list_all name_char body" "list_all name_char ext"
    using assms(1) by (auto simp: good_name_def)
  let ?B = "pad 8 (map upc body)" and ?E = "pad 3 (map upc ext)"
  have len: "length ?B = 8" "length ?E = 3" using g by (simp_all add: pad_def)
  have t11: "take 11 dir = ?B @ ?E" and fl: "dir ! 12 = part_flag 0x08 body OR part_flag 0x10 ext"
    using assms(2) len by (simp_all add: named_def entry_name_def nth_append)
  have "take 8 dir = take 8 (take 11 dir)" "take 3 (drop 8 dir) = drop 8 (take 11 dir)"
    by (simp_all add: drop_take)
  then have B: "take 8 dir = ?B" and E: "take 3 (drop 8 dir) = ?E" using t11 len by simp_all
  have "dir ! 8 = take 3 (drop 8 dir) ! 0"
    using assms(2) by (simp add: named_def)
  then have d8: "dir ! 8 = ?E ! 0" using E by simp
  have e8: "(dir ! 8 \<noteq> 0x20) = (ext \<noteq> [])"
    using d8 g upc_not by (cases ext) (auto simp: pad_def)
  have A: "(dir ! 12 AND 0x08 \<noteq> 0) = (part_flag 0x08 body \<noteq> 0)"
    "(dir ! 12 AND 0x10 \<noteq> 0) = (part_flag 0x10 ext \<noteq> 0)"
    unfolding fl by (simp_all add: part_flag_def)
  have body: "copy_name (\<lambda>c. nt_lower (dir ! 12) 0x08 (if c = 0x05 then 0xE5 else c)) ?B
    = map (\<lambda>c. nt_lower (dir ! 12) 0x08 (upc c)) body"
    unfolding copy_name_pad [OF g(3,1)] using g(3) upc_not by (auto simp: list_all_iff)
  have ext: "copy_name (nt_lower (dir ! 12) 0x10) ?E = map (\<lambda>c. nt_lower (dir ! 12) 0x10 (upc c)) ext"
    unfolding copy_name_pad [OF g(4,2)] by simp
  show ?thesis
    using e8 nt_lower_part [OF g(3) A(1)] nt_lower_part [OF g(4) A(2)]
    by (simp add: get_fileinfo_def Let_def B E body ext segment_def)
qed

section \<open>The properties\<close>

text \<open>\<open>make_dirfile\<close> on a segment of the 8.3 form (1 to 8 characters, optionally a dot and up to
  three more, any printable ASCII character the code accepts) returns the separator, the path behind
  it, and a name buffer with both parts in upper case, padded with spaces, and an NT flag that records
  each part that was written in lower case throughout.\<close>

theorem make_dirfile_builds:
  assumes "good_name body ext" "seg_stop rest" "length dirname = 12"
  shows "make_dirfile (segment body ext @ rest) dirname =
    (if rest = [] then 0 else hd rest, tl rest, entry_name body ext)"
  using assms by (rule make_dirfile_ok)

theorem make_dirfile_builds_witness:
  "make_dirfile [0x61, 0x62, 0x2E, 0x43, 0x2F, 0x78] (replicate 12 0) =
     (0x2F, [0x78], [0x41, 0x42, 0x20, 0x20, 0x20, 0x20, 0x20, 0x20, 0x43, 0x20, 0x20, 0x08])"
proof -
  have e: "entry_name [0x61, 0x62] [0x43] = [0x41, 0x42, 0x20, 0x20, 0x20, 0x20, 0x20, 0x20, 0x43, 0x20, 0x20, 0x08]"
    by code_simp
  have "good_name [0x61, 0x62] [0x43]" by (simp add: good_name_def name_char_def)
  from make_dirfile_builds [OF this, of "[0x2F, 0x78]" "replicate 12 0"] show ?thesis
    using e by (simp add: seg_stop_def segment_def)
qed

text \<open>C30: the name \<open>get_fileinfo\<close> reads from a directory entry that carries the result of
  \<open>make_dirfile\<close> is the segment that was given to \<open>make_dirfile\<close>, except that a part in mixed case comes
  back in upper case.\<close>

theorem name_roundtrip:
  assumes "good_name body ext" "seg_stop rest" "length dirname = 12"
    and "named dir (snd (snd (make_dirfile (segment body ext @ rest) dirname)))"
  shows "fi_fname (get_fileinfo dir) =
    segment (if same_case body then body else map upc body) (if same_case ext then ext else map upc ext)"
  using assms(4) make_dirfile_ok [OF assms(1-3)] by (intro get_fileinfo_name [OF assms(1)]) simp

theorem name_roundtrip_witness:
  "fi_fname (get_fileinfo ([0x41, 0x42, 0x20, 0x20, 0x20, 0x20, 0x20, 0x20, 0x43, 0x20, 0x20, 0x20, 0x08]
     @ replicate 19 0)) = [0x61, 0x62, 0x2E, 0x43]"
proof -
  let ?d = "[0x41, 0x42, 0x20, 0x20, 0x20, 0x20, 0x20, 0x20, 0x43, 0x20, 0x20, 0x20, 0x08] @ replicate 19 0 :: buffer"
  have g: "good_name [0x61, 0x62] [0x43]" by (simp add: good_name_def name_char_def)
  have e: "entry_name [0x61, 0x62] [0x43] = [0x41, 0x42, 0x20, 0x20, 0x20, 0x20, 0x20, 0x20, 0x43, 0x20, 0x20, 0x08]"
    by code_simp
  have "fi_fname (get_fileinfo ?d) = segment (if same_case [0x61, 0x62] then [0x61, 0x62] else map upc [0x61, 0x62])
    (if same_case [0x43] then [0x43] else map upc [0x43])"
  proof (rule name_roundtrip [OF g])
    show "seg_stop []" "length (replicate 12 0 :: buffer) = 12" by (simp_all add: seg_stop_def)
    then show "named ?d (snd (snd (make_dirfile (segment [0x61, 0x62] [0x43] @ []) (replicate 12 0))))"
      unfolding make_dirfile_ok [OF g \<open>seg_stop []\<close> \<open>length (replicate 12 0 :: buffer) = 12\<close>] e
      by (simp add: named_def)
  qed
  then show ?thesis by (simp add: same_case_def lower_char_def upper_char_def segment_def)
qed

end
