(* ===== verification/FfDir.thy ===== *)
theory FfDir
  imports FfChain FfName
begin

unbundle bit_operations_syntax

text \<open>
  Directories: \<^verbatim>\<open>next_dir_entry\<close>, \<^verbatim>\<open>trace_path\<close> and \<^verbatim>\<open>reserve_direntry\<close> of \<^verbatim>\<open>ff.c\<close>.  The three loops
  that look at one entry after the other (in \<^verbatim>\<open>trace_path\<close>, \<^verbatim>\<open>reserve_direntry\<close> and \<^verbatim>\<open>f_unlink\<close>) have
  one shape, \<open>dir_scan\<close>: bring the sector into the window, test the entry, go on.  It takes the
  three operations as arguments; the locale \<open>entry_walk\<close> is their contract, and in it a scan is shown
  to return the first entry that passes the test.  A pointer to an entry in the window is the
  offset of the entry in the window.
\<close>

section \<open>Directory objects\<close>

record DIR =
  d_id :: WORD
  d_index :: WORD
  d_fs :: nat         \<comment> \<open>the file system object, by its number\<close>
  d_sclust :: DWORD
  d_clust :: DWORD
  d_sect :: DWORD

definition next_dir_entry :: "DIR \<Rightarrow> vol \<Rightarrow> bool \<times> DIR \<times> vol" where
  "next_dir_entry dirobj v =
     (let idx = d_index dirobj + 1 in
      if idx AND 15 = 0 then
        (let dirobj = dirobj\<lparr>d_sect := d_sect dirobj + 1\<rparr> in
         if d_clust dirobj = 0 then
           (if n_rootdir v \<le> idx then (False, dirobj, v) else (True, dirobj\<lparr>d_index := idx\<rparr>, v))
         else if (idx div 16) AND (ucast (sects_clust v) - 1) = 0 then
           (case get_cluster (d_clust dirobj) v of (clust, v) \<Rightarrow>
              if clust < 2 \<or> max_clust v \<le> clust then (False, dirobj, v)
              else (True, dirobj\<lparr>d_clust := clust, d_sect := clust2sect v clust, d_index := idx\<rparr>, v))
         else (True, dirobj\<lparr>d_index := idx\<rparr>, v))
      else (True, dirobj\<lparr>d_index := idx\<rparr>, v))"

definition entry_off :: "DIR \<Rightarrow> nat" where
  "entry_off dirobj = unat (d_index dirobj AND 15) * 32"

definition dir_entry :: "vol \<Rightarrow> nat \<Rightarrow> buffer" where
  "dir_entry v dptr = take 32 (drop dptr (win v))"

section \<open>Scanning a directory\<close>

datatype 'r scan = Scan_error | Scan_end | Scan_hit 'r

partial_function (option) dir_scan ::
  "('p \<Rightarrow> 'v \<Rightarrow> bool \<times> 'v) \<Rightarrow> ('v \<Rightarrow> 'p \<Rightarrow> buffer) \<Rightarrow> ('p \<Rightarrow> 'v \<Rightarrow> bool \<times> 'p \<times> 'v)
   \<Rightarrow> (buffer \<Rightarrow> 'r option) \<Rightarrow> 'p \<Rightarrow> 'v \<Rightarrow> ('r scan \<times> 'p \<times> 'v) option"
where
  "dir_scan mv ent nx test p v =
     (case mv p v of (ok, v) \<Rightarrow>
        if \<not> ok then Some (Scan_error, p, v)
        else (case test (ent v p) of
                Some r \<Rightarrow> Some (Scan_hit r, p, v)
              | None \<Rightarrow> (case nx p v of (again, p, v) \<Rightarrow>
                          if again then dir_scan mv ent nx test p v else Some (Scan_end, p, v))))"

definition scan :: "(buffer \<Rightarrow> 'r option) \<Rightarrow> DIR \<Rightarrow> vol \<Rightarrow> ('r scan \<times> DIR \<times> vol) option" where
  "scan = dir_scan (\<lambda>p. move_window (d_sect p)) (\<lambda>v p. dir_entry v (entry_off p)) next_dir_entry"

section \<open>trace\_path\<close>

text \<open>The test of \<^verbatim>\<open>trace_path\<close>: \<open>False\<close> at the end mark, \<open>True\<close> at an entry with the name.\<close>

definition name_test :: "buffer \<Rightarrow> buffer \<Rightarrow> bool option" where
  "name_test fn dptr =
     (if dptr ! 0 = 0 then Some False
      else if dptr ! 0 \<noteq> 0xE5 \<and> dptr ! 11 AND 0x08 = 0 \<and> take 11 dptr = take 11 fn then Some True
      else None)"

definition start_clust :: "buffer \<Rightarrow> DWORD" where
  "start_clust dir = push_bit 16 (ucast (LD_WORD dir 20)) OR ucast (LD_WORD dir 26)"

definition enter_dir :: "DWORD \<Rightarrow> vol \<Rightarrow> DIR \<Rightarrow> DIR" where
  "enter_dir clust v dirobj =
     dirobj\<lparr>d_clust := clust, d_sclust := clust, d_sect := clust2sect v clust, d_index := 2\<rparr>"

definition enter_root :: "vol \<Rightarrow> DIR \<Rightarrow> DIR" where
  "enter_root v dirobj =
     (if fs_type v = FS_FAT32
      then dirobj\<lparr>d_clust := dirbase v, d_sclust := dirbase v, d_sect := clust2sect v (dirbase v), d_index := 0\<rparr>
      else dirobj\<lparr>d_clust := 0, d_sclust := 0, d_sect := dirbase v, d_index := 0\<rparr>)"

type_synonym traced = "FRESULT \<times> nat option \<times> DIR \<times> buffer \<times> vol"

partial_function (option) trace_loop :: "DIR \<Rightarrow> buffer \<Rightarrow> BYTE list \<Rightarrow> vol \<Rightarrow> traced option" where
  "trace_loop dirobj fn path v =
     (case make_dirfile path fn of (ds, path, fn) \<Rightarrow>
        if ds = 1 then Some (FR_INVALID_NAME, None, dirobj, fn, v)
        else Option.bind (scan (name_test fn) dirobj v) (\<lambda>(s, dirobj, v).
          if s = Scan_error then Some (FR_RW_ERROR, None, dirobj, fn, v)
          else if s \<noteq> Scan_hit True
          then Some (if ds = 0 then FR_NO_FILE else FR_NO_PATH, None, dirobj, fn, v)
          else if ds = 0 then Some (FR_OK, Some (entry_off dirobj), dirobj, fn, v)
          else (let dptr = dir_entry v (entry_off dirobj) in
                if dptr ! 11 AND 0x10 = 0 then Some (FR_NO_PATH, None, dirobj, fn, v)
                else trace_loop (enter_dir (start_clust dptr) v dirobj) fn path v)))"

definition trace_path :: "DIR \<Rightarrow> buffer \<Rightarrow> BYTE list \<Rightarrow> vol \<Rightarrow> traced option" where
  "trace_path dirobj fn path v =
     (let dirobj = enter_root v dirobj in
      if path = [] then Some (FR_OK, None, dirobj, fn, v) else trace_loop dirobj fn path v)"

section \<open>reserve\_direntry\<close>

definition free_test :: "buffer \<Rightarrow> unit option" where
  "free_test dptr = (if dptr ! 0 = 0 \<or> dptr ! 0 = 0xE5 then Some () else None)"

text \<open>The new cluster of a directory is cleared sector by sector through the window.\<close>

definition clean_cluster :: "DWORD \<Rightarrow> vol \<Rightarrow> FRESULT \<times> nat \<times> vol" where
  "clean_cluster clust v =
     (let sector = clust2sect v clust;
          v = v\<lparr>winsect := sector, win := replicate 512 0\<rparr> in
      case clear_writes (\<lambda>b s. disk_write (drive v) b s 1) (win v) sector (unat (sects_clust v)) (disk v) of
        (ok, d) \<Rightarrow> if \<not> ok then (FR_RW_ERROR, 0, v\<lparr>disk := d\<rparr>)
                   else (FR_OK, 0, v\<lparr>disk := d, winflag := 1\<rparr>))"

definition reserve_direntry :: "DIR \<Rightarrow> vol \<Rightarrow> (FRESULT \<times> nat \<times> DIR \<times> vol) option" where
  "reserve_direntry dirobj v =
     (let clust = d_sclust dirobj;
          dirobj = (if clust \<noteq> 0 then dirobj\<lparr>d_clust := clust, d_sect := clust2sect v clust\<rparr>
                    else dirobj\<lparr>d_sect := dirbase v\<rparr>)\<lparr>d_index := 0\<rparr> in
      Option.bind (scan free_test dirobj v) (\<lambda>(s, dirobj, v).
        if s = Scan_error then Some (FR_RW_ERROR, 0, dirobj, v)
        else if s \<noteq> Scan_end then Some (FR_OK, entry_off dirobj, dirobj, v)
        else if clust = 0 then Some (FR_DENIED, 0, dirobj, v)
        else Option.bind (create_chain (d_clust dirobj) v) (\<lambda>(clust, v).
          if clust = 0 then Some (FR_DENIED, 0, dirobj, v)
          else if clust = 1 then Some (FR_RW_ERROR, 0, dirobj, v)
          else (case move_window 0 v of (ok, v) \<Rightarrow>
                  if \<not> ok then Some (FR_RW_ERROR, 0, dirobj, v)
                  else (case clean_cluster clust v of (res, dir, v) \<Rightarrow> Some (res, dir, dirobj, v))))))"

section \<open>The contract of a scan\<close>

locale entry_walk =
  fixes mv :: "'p \<Rightarrow> 'v \<Rightarrow> bool \<times> 'v"
    and ent :: "'v \<Rightarrow> 'p \<Rightarrow> buffer"
    and nx :: "'p \<Rightarrow> 'v \<Rightarrow> bool \<times> 'p \<times> 'v"
    and wf :: "'v \<Rightarrow> bool"
    and ok :: "'v \<Rightarrow> 'p \<Rightarrow> bool"
    and view :: "'v \<Rightarrow> 'p \<Rightarrow> buffer"
    and pos :: "'v \<Rightarrow> 'p \<Rightarrow> 'p option"
    and sv :: "'v \<Rightarrow> 'v \<Rightarrow> bool"
  assumes mv_law: "wf v \<Longrightarrow> ok v p \<Longrightarrow> mv p v = (r, v') \<Longrightarrow> r \<and> sv v v' \<and> ent v' p = view v p"
    and nx_law: "wf v \<Longrightarrow> nx p v = (r, p', v') \<Longrightarrow>
      sv v v' \<and> (r \<longleftrightarrow> pos v p \<noteq> None) \<and> (r \<longrightarrow> pos v p = Some p')"
    and sv_law: "wf v \<Longrightarrow> sv v v' \<Longrightarrow>
      wf v' \<and> (ok v p \<longrightarrow> ok v' p \<and> view v' p = view v p) \<and> pos v' p = pos v p"
    and sv_trans: "sv u v \<Longrightarrow> sv v w \<Longrightarrow> sv u w"
begin

fun walk :: "'v \<Rightarrow> 'p list \<Rightarrow> bool" where
  "walk v [] = False"
| "walk v (p # ps) = (ok v p \<and> pos v p = (case ps of [] \<Rightarrow> None | q # _ \<Rightarrow> Some q) \<and> (ps \<noteq> [] \<longrightarrow> walk v ps))"

fun first_hit :: "(buffer \<Rightarrow> 'r option) \<Rightarrow> 'v \<Rightarrow> 'p list \<Rightarrow> ('r \<times> 'p) option" where
  "first_hit test v [] = None"
| "first_hit test v (p # ps) =
     (case test (view v p) of Some r \<Rightarrow> Some (r, p) | None \<Rightarrow> first_hit test v ps)"

lemma walk_sv: "wf v \<Longrightarrow> sv v v' \<Longrightarrow> walk v ps \<Longrightarrow> walk v' ps \<and> first_hit test v' ps = first_hit test v ps"
proof (induction ps)
  case (Cons p ps)
  note L = sv_law [OF Cons.prems(1,2), of p]
  show ?case
  proof (cases ps)
    case Nil
    with Cons.prems L show ?thesis by (simp split: option.split)
  next
    case (Cons q qs)
    with Cons.IH Cons.prems L show ?thesis by (simp split: option.split)
  qed
qed simp

lemma scan_first:
  "wf v \<Longrightarrow> walk v (p # ps) \<Longrightarrow>
   \<exists>v' p'. sv v v' \<and> dir_scan mv ent nx test p v =
     (case first_hit test v (p # ps) of
        Some (r, q) \<Rightarrow> Some (Scan_hit r, q, v')
      | None \<Rightarrow> Some (Scan_end, p', v')) \<and>
     (\<forall>r q. first_hit test v (p # ps) = Some (r, q) \<longrightarrow> ok v q \<and> ent v' q = view v q \<and> (\<exists>u. mv q u = (True, v')))"
proof (induction ps arbitrary: p v)
  case Nil
  obtain r v1 where m: "mv p v = (r, v1)" by fastforce
  have M: "r \<and> sv v v1 \<and> ent v1 p = view v p" using mv_law [OF Nil(1) _ m] Nil(2) by simp
  obtain r2 p2 v2 where n: "nx p v1 = (r2, p2, v2)" by (metis prod_cases3)
  have w1: "wf v1" "pos v1 p = None" using sv_law [OF Nil(1), of v1 p] M Nil(2) by auto
  have N: "sv v1 v2 \<and> \<not> r2" using nx_law [OF w1(1) n] w1(2) by simp
  show ?case
  proof (cases "test (view v p)")
    case None
    then have "dir_scan mv ent nx test p v = Some (Scan_end, p2, v2)"
      using m M n N by (subst dir_scan.simps) simp
    with None show ?thesis using M N sv_trans by (intro exI [of _ v2] exI [of _ p2]) auto
  next
    case (Some x)
    then have "dir_scan mv ent nx test p v = Some (Scan_hit x, p, v1)"
      using m M by (subst dir_scan.simps) simp
    with Some Nil(2) show ?thesis using M m by (intro exI [of _ v1] exI [of _ p]) auto
  qed
next
  case (Cons q ps)
  obtain r v1 where m: "mv p v = (r, v1)" by fastforce
  have M: "r \<and> sv v v1 \<and> ent v1 p = view v p" using mv_law [OF Cons(2) _ m] Cons(3) by simp
  show ?case
  proof (cases "test (view v p)")
    case (Some x)
    then have "dir_scan mv ent nx test p v = Some (Scan_hit x, p, v1)"
      using m M by (subst dir_scan.simps) simp
    with Some Cons(3) show ?thesis using M m by (intro exI [of _ v1] exI [of _ p]) auto
  next
    case None
    obtain r2 p2 v2 where n: "nx p v1 = (r2, p2, v2)" by (metis prod_cases3)
    have w1: "wf v1" "pos v1 p = Some q" using sv_law [OF Cons(2), of v1 p] M Cons(3) by auto
    have N: "sv v1 v2 \<and> r2 \<and> p2 = q" using nx_law [OF w1(1) n] w1(2) by simp
    have w2: "wf v2" "sv v v2" using N M sv_law [OF w1(1), of v2] sv_trans by blast+
    have W: "walk v (q # ps)" using Cons(3) by simp
    note S = walk_sv [OF Cons(2) w2(2) W, of test]
    have un: "dir_scan mv ent nx test p v = dir_scan mv ent nx test q v2"
      using m M n N None by (subst dir_scan.simps) simp
    from Cons.IH [OF w2(1) conjunct1 [OF S]] obtain v' p' where
      R: "sv v2 v'" "dir_scan mv ent nx test q v2 =
        (case first_hit test v2 (q # ps) of Some (r, q) \<Rightarrow> Some (Scan_hit r, q, v') | None \<Rightarrow> Some (Scan_end, p', v'))"
      "\<forall>r x. first_hit test v2 (q # ps) = Some (r, x) \<longrightarrow> ok v2 x \<and> ent v' x = view v2 x \<and> (\<exists>u. mv x u = (True, v'))"
      by blast
    have fh: "first_hit test v (p # q # ps) = first_hit test v2 (q # ps)" using None S by simp
    have okv: "ok v x \<and> view v2 x = view v x" if "first_hit test v (q # ps) = Some (y, x)" for x y
    proof -
      have "walk v ps' \<Longrightarrow> first_hit test v ps' = Some (y, x) \<Longrightarrow> ok v x" for ps'
        by (induction ps') (auto split: option.splits if_splits list.splits)
      then have "ok v x" using W that by blast
      then show ?thesis using sv_law [OF Cons(2) w2(2), of x] by simp
    qed
    show ?thesis
    proof (intro exI conjI)
      show "sv v v'" using w2 R(1) sv_trans by blast
      show "dir_scan mv ent nx test p v = (case first_hit test v (p # q # ps) of
          Some (r, q) \<Rightarrow> Some (Scan_hit r, q, v') | None \<Rightarrow> Some (Scan_end, p', v'))"
        using un R(2) fh by simp
      show "\<forall>r x. first_hit test v (p # q # ps) = Some (r, x) \<longrightarrow>
          ok v x \<and> ent v' x = view v x \<and> (\<exists>u. mv x u = (True, v'))"
        using R(3) okv fh S by auto
    qed
  qed
qed

lemma walk_range:
  "a < b \<Longrightarrow> (\<And>k. a \<le> k \<Longrightarrow> k < b \<Longrightarrow>
     ok v (f k) \<and> pos v (f k) = (if Suc k < b then Some (f (Suc k)) else None)) \<Longrightarrow>
   walk v (map f [a..<b])"
proof (induction "b - a" arbitrary: a)
  case (Suc n)
  have u: "[a..<b] = a # [Suc a..<b]" using Suc.prems(1) by (simp add: upt_conv_Cons)
  have h: "ok v (f a)" "pos v (f a) = (if Suc a < b then Some (f (Suc a)) else None)"
    using Suc.prems by auto
  show ?case
  proof (cases "Suc a < b")
    case True
    then have u2: "[Suc a..<b] = Suc a # [Suc (Suc a)..<b]" by (simp add: upt_conv_Cons)
    have "walk v (map f [Suc a..<b])" using Suc.hyps(2) True Suc.prems by (intro Suc.hyps(1)) auto
    with u u2 h True show ?thesis by simp
  next
    case False
    with u h show ?thesis by simp
  qed
qed simp

end

section \<open>Scans over the volume\<close>

text \<open>The successor of a position, in terms of the FAT as the file system sees it.\<close>

definition fat_next :: "vol \<Rightarrow> DWORD \<Rightarrow> DWORD" where
  "fat_next v c = (if 2 \<le> c \<and> c < max_clust v then fat_entry v (unat c) else 1)"

definition next_pos :: "vol \<Rightarrow> DIR \<Rightarrow> DIR option" where
  "next_pos v p =
     (let idx = d_index p + 1 in
      if idx AND 15 \<noteq> 0 then Some (p\<lparr>d_index := idx\<rparr>)
      else if d_clust p = 0 then
        (if n_rootdir v \<le> idx then None else Some (p\<lparr>d_sect := d_sect p + 1, d_index := idx\<rparr>))
      else if (idx div 16) AND (ucast (sects_clust v) - 1) \<noteq> 0
      then Some (p\<lparr>d_sect := d_sect p + 1, d_index := idx\<rparr>)
      else (let c = fat_next v (d_clust p) in
            if c < 2 \<or> max_clust v \<le> c then None
            else Some (p\<lparr>d_clust := c, d_sect := clust2sect v c, d_index := idx\<rparr>)))"

definition dir_ok :: "vol \<Rightarrow> DIR \<Rightarrow> bool" where
  "dir_ok v p \<longleftrightarrow> fatbase v \<le> d_sect p \<and> \<not> backup v (d_sect p)"

definition entry_view :: "vol \<Rightarrow> DIR \<Rightarrow> buffer" where
  "entry_view v p = take 32 (drop (entry_off p) (eff v (d_sect p)))"

lemma vol_ok_geom: "vol_ok v \<Longrightarrow> geom_ok v"
  by (simp add: vol_ok_def)

lemma get_fat_next:
  assumes "vol_ok v" "get_cluster c v = (x, v')"
  shows "x = fat_next v c \<and> same_view v v'"
proof (cases "2 \<le> c \<and> c < max_clust v")
  case True
  then show ?thesis using get_cluster_ok [OF assms(1) _ _ assms(2)] by (simp add: fat_next_def)
next
  case False
  then have "get_cluster c v = (1, v)" by (simp only: get_cluster_def if_False)
  with assms same_view_refl False show ?thesis by (simp only: fat_next_def if_False prod.inject)
qed

lemma clust2sect_cong: "geom v' = geom v \<Longrightarrow> clust2sect v' c = clust2sect v c"
  by (drule geom_eqD) (simp add: clust2sect_def Let_def)

lemma next_dir_entry_pos:
  assumes "vol_ok v" "next_dir_entry p v = (r, p', v')"
  shows "same_view v v' \<and> (r \<longleftrightarrow> next_pos v p \<noteq> None) \<and> (r \<longrightarrow> next_pos v p = Some p')"
proof -
  obtain c u where g: "get_cluster (d_clust p) v = (c, u)" by fastforce
  note G = get_fat_next [OF assms(1) g]
  then have k: "max_clust u = max_clust v" "clust2sect u c = clust2sect v c"
    using geom_eqD [of u v] clust2sect_cong [of u v] by (simp_all add: same_view_def)
  from assms(2) show ?thesis
    using G k same_view_refl [OF assms(1)]
    by (auto simp: next_dir_entry_def next_pos_def Let_def g split: if_splits)
qed

lemma dir_view_stable:
  assumes "vol_ok v" "same_view v v'"
  shows "vol_ok v' \<and> (dir_ok v p \<longrightarrow> dir_ok v' p \<and> entry_view v' p = entry_view v p) \<and> next_pos v' p = next_pos v p"
proof -
  have g: "geom v' = geom v" and ok: "vol_ok v'" and e: "\<And>t. t \<noteq> 0 \<Longrightarrow> \<not> backup v t \<Longrightarrow> eff v' t = eff v t"
    using assms(2) by (auto simp: same_view_def)
  note G = geom_eqD [OF g]
  have "d_sect p \<noteq> 0" if "fatbase v \<le> d_sect p"
    using that vol_ok_geom [OF assms(1)] by (auto simp: geom_ok_def word_le_nat_alt)
  moreover have "fat_next v' c = fat_next v c" for c
    using fat_entry_same_view [OF assms] G by (simp add: fat_next_def word_less_nat_alt)
  ultimately show ?thesis
    using ok e G backup_cong [OF g] clust2sect_cong [OF g]
    by (auto simp: dir_ok_def entry_view_def next_pos_def Let_def)
qed

lemma move_to_entry:
  assumes "vol_ok v" "dir_ok v p" "move_window (d_sect p) v = (r, v')"
  shows "r \<and> same_view v v' \<and> dir_entry v' (entry_off p) = entry_view v p"
proof -
  have f: "fatbase v \<le> d_sect p" using assms(2) by (simp add: dir_ok_def)
  note M = move_window_ok [OF assms(1) f assms(3)]
  have "entry_view v' p = entry_view v p" using dir_view_stable [OF assms(1) M(3)] assms(2) by blast
  moreover have "dir_entry v' (entry_off p) = entry_view v' p"
    using M(2) by (simp add: dir_entry_def entry_view_def eff_def)
  ultimately show ?thesis using M by simp
qed

interpretation dw: entry_walk "\<lambda>p. move_window (d_sect p)" "\<lambda>v p. dir_entry v (entry_off p)" next_dir_entry
  vol_ok dir_ok entry_view next_pos same_view
proof unfold_locales
  fix v p r v' assume "vol_ok v" "dir_ok v p" "move_window (d_sect p) v = (r, v')"
  then show "r \<and> same_view v v' \<and> dir_entry v' (entry_off p) = entry_view v p" by (rule move_to_entry)
next
  fix v p r p' v' assume "vol_ok v" "next_dir_entry p v = (r, p', v')"
  then show "same_view v v' \<and> r = (next_pos v p \<noteq> None) \<and> (r \<longrightarrow> next_pos v p = Some p')"
    by (rule next_dir_entry_pos)
next
  fix v v' p assume "vol_ok v" "same_view v v'"
  then show "vol_ok v' \<and> (dir_ok v p \<longrightarrow> dir_ok v' p \<and> entry_view v' p = entry_view v p) \<and> next_pos v' p = next_pos v p"
    by (rule dir_view_stable)
qed (rule same_view_trans)

text \<open>The outcome of a scan: the first entry that passes the test, with the window on it.\<close>

lemma scan_walk:
  assumes "vol_ok v" "dw.walk v (p # ps)"
  shows "\<exists>v' p'. same_view v v' \<and> scan test p v =
      (case dw.first_hit test v (p # ps) of
         Some (r, q) \<Rightarrow> Some (Scan_hit r, q, v') | None \<Rightarrow> Some (Scan_end, p', v')) \<and>
      (\<forall>r q. dw.first_hit test v (p # ps) = Some (r, q) \<longrightarrow>
         dir_ok v q \<and> dir_entry v' (entry_off q) = entry_view v q \<and> (\<exists>u. move_window (d_sect q) u = (True, v')))"
  using dw.scan_first [OF assms, of test] by (simp add: scan_def)

section \<open>The positions of a directory\<close>

text \<open>The fixed root directory of FAT12 and FAT16, from its first entry on; the index has 16 bits.\<close>

definition root_pos :: "vol \<Rightarrow> DIR \<Rightarrow> nat \<Rightarrow> DIR" where
  "root_pos v p k = p\<lparr>d_index := of_nat k, d_clust := 0, d_sclust := 0, d_sect := dirbase v + of_nat (k div 16)\<rparr>"

text \<open>The number of entries the scan visits: whole sectors, at least one.\<close>

definition root_len :: "vol \<Rightarrow> nat" where
  "root_len v = 16 * max 1 ((unat (n_rootdir v) + 15) div 16)"

definition root_ok :: "vol \<Rightarrow> bool" where
  "root_ok v \<longleftrightarrow> fs_type v \<noteq> FS_FAT32 \<and> unat (n_rootdir v) \<le> 0xFFE0 \<and>
     unat (dirbase v) + root_len v < 2 ^ 32 \<and>
     unat (fatbase v) + unat (n_fats v) * unat (sects_fat v) \<le> unat (dirbase v)"

lemma unat_index_Suc: "Suc k < 65536 \<Longrightarrow> unat ((of_nat k :: WORD) + 1) = Suc k"
  by (simp add: unat_word_ariths unat_of_nat)

lemma index_and_15: "Suc k < 65536 \<Longrightarrow> ((of_nat k :: WORD) + 1 AND 15 = 0) = (Suc k mod 16 = 0)"
  by (metis unat_and_15_16 unat_eq_zero unat_0 unat_index_Suc)

lemma div_16_Suc: "(Suc k mod 16 \<noteq> 0 \<longrightarrow> Suc k div 16 = k div 16) \<and> (Suc k mod 16 = 0 \<longrightarrow> Suc k div 16 = Suc (k div 16))"
  by (simp add: div_Suc)

lemma sectors_le: "((n + 15) div 16 \<le> m) = (n \<le> 16 * (m :: nat))"
  by arith

lemma root_next:
  assumes "root_ok v" "k < root_len v"
  shows "next_pos v (root_pos v p k) = (if Suc k < root_len v then Some (root_pos v p (Suc k)) else None)"
proof -
  let ?n = "unat (n_rootdir v)"
  have n: "?n \<le> 0xFFE0" using assms(1) by (simp add: root_ok_def)
  have len: "root_len v \<le> 0xFFF0" using n by (simp add: root_len_def)
  with assms(2) have k: "Suc k < 65536" by linarith
  have last: "(n_rootdir v \<le> of_nat k + 1) = (?n \<le> Suc k)"
    using unat_index_Suc [OF k] by (simp add: word_le_nat_alt)
  show ?thesis
  proof (cases "Suc k mod 16 = 0")
    case False
    then have "Suc k \<noteq> root_len v" by (auto simp: root_len_def)
    then have "Suc k < root_len v" using assms(2) by linarith
    with False index_and_15 [OF k] div_16_Suc [of k] show ?thesis
      by (simp add: next_pos_def root_pos_def Let_def algebra_simps)
  next
    case True
    then have "16 dvd Suc k" by (simp add: dvd_eq_mod_eq_0)
    then obtain m where m: "Suc k = 16 * m" by (rule dvdE)
    then have "1 \<le> m" by (cases m) auto
    then have "(root_len v \<le> 16 * m) = (?n \<le> 16 * m)"
      using sectors_le [of ?n m] by (simp add: root_len_def)
    with m have "(?n \<le> Suc k) = (\<not> Suc k < root_len v)" by auto
    with True index_and_15 [OF k] div_16_Suc [of k] last show ?thesis
      by (simp add: next_pos_def root_pos_def Let_def algebra_simps)
  qed
qed

lemma root_dir_ok:
  assumes "root_ok v" "k < root_len v"
  shows "dir_ok v (root_pos v p k)"
proof -
  have "k div 16 \<le> k" by simp
  then have "unat (dirbase v) + k div 16 < 2 ^ 32" using assms unfolding root_ok_def by linarith
  then have "unat (dirbase v + of_nat (k div 16)) = unat (dirbase v) + k div 16"
    by (simp add: unat_word_ariths unat_of_nat)
  then show ?thesis using assms
    by (simp add: dir_ok_def root_pos_def backup_def word_le_nat_alt root_ok_def)
qed

lemma root_walk:
  "root_ok v \<Longrightarrow> dw.walk v (map (root_pos v p) [0..<root_len v])"
  by (rule dw.walk_range) (auto simp: root_next root_dir_ok root_len_def)

text \<open>A directory in clusters: the entries of its chain, with a cluster of \<open>2 ^ i\<close> sectors.\<close>

definition clust_pos :: "vol \<Rightarrow> DWORD list \<Rightarrow> DIR \<Rightarrow> nat \<Rightarrow> DIR" where
  "clust_pos v xs p k =
     (let q = k div 16; c = xs ! (q div unat (sects_clust v))
      in p\<lparr>d_index := of_nat k, d_clust := c,
           d_sect := clust2sect v c + of_nat (q mod unat (sects_clust v))\<rparr>)"

definition clust_len :: "vol \<Rightarrow> DWORD list \<Rightarrow> nat" where
  "clust_len v xs = 16 * (unat (sects_clust v) * length xs)"

definition data_ok :: "vol \<Rightarrow> bool" where
  "data_ok v \<longleftrightarrow> (\<exists>i < 8. unat (sects_clust v) = 2 ^ i) \<and> 2 \<le> max_clust v \<and>
     unat (database v) + (unat (max_clust v) - 2) * unat (sects_clust v) < 2 ^ 32 \<and>
     unat (fatbase v) + unat (n_fats v) * unat (sects_fat v) \<le> unat (database v)"

lemma chain_nth:
  "chain f m c xs \<Longrightarrow> j < length xs \<Longrightarrow>
     2 \<le> xs ! j \<and> xs ! j < m \<and>
     (if Suc j < length xs then f (unat (xs ! j)) = xs ! Suc j
      else \<not> (2 \<le> f (unat (xs ! j)) \<and> f (unat (xs ! j)) < m))"
proof (induction xs arbitrary: c j)
  case (Cons x xs)
  show ?case
  proof (cases j)
    case 0
    then show ?thesis using Cons.prems by (cases xs) auto
  next
    case (Suc i)
    then show ?thesis using Cons.prems Cons.IH [of "f (unat c)" i] by simp
  qed
qed simp

lemma index_bits:
  assumes "unat (sects_clust v) = 2 ^ i" "i < 8"
  shows "((of_nat k :: WORD) AND 15 = 0) = (k mod 16 = 0)"
    and "((of_nat k :: WORD) div 16 AND (ucast (sects_clust v) - 1) = 0) = (k div 16 mod 2 ^ i = 0)"
proof -
  have "unat ((of_nat k :: WORD) AND 15) = k mod 16"
    by (simp add: unat_and_15_16 unat_of_nat mod_mod_cancel)
  then show "((of_nat k :: WORD) AND 15 = 0) = (k mod 16 = 0)" by (metis unat_eq_zero unat_0)
  have "ucast (sects_clust v) = (of_nat (2 ^ i) :: WORD)" unfolding assms(1) [symmetric] by simp
  then have m: "ucast (sects_clust v) - 1 = (mask i :: WORD)" by (simp add: mask_eq_exp_minus_1)
  have "k mod 65536 div 16 = k div 16 mod 4096" using mod_mult2_eq [of k 16 4096] by simp
  moreover have "(2 :: nat) ^ i dvd 4096" using assms(2) le_imp_power_dvd [of i 12 "2 :: nat"] by simp
  ultimately have "k mod 65536 div 16 mod 2 ^ i = k div 16 mod 2 ^ i" by (simp add: mod_mod_cancel)
  then have "unat ((of_nat k :: WORD) div 16 AND mask i) = k div 16 mod 2 ^ i"
    by (simp add: unat_and_mask unat_div unat_of_nat)
  then show "((of_nat k :: WORD) div 16 AND (ucast (sects_clust v) - 1) = 0) = (k div 16 mod 2 ^ i = 0)"
    unfolding m by (metis unat_eq_zero unat_0)
qed

lemma next_pos_in_sector:
  "d_index p + 1 AND 15 \<noteq> 0 \<Longrightarrow> next_pos v p = Some (p\<lparr>d_index := d_index p + 1\<rparr>)"
  by (simp add: next_pos_def Let_def)

lemma next_pos_in_cluster:
  "d_index p + 1 AND 15 = 0 \<Longrightarrow> d_clust p \<noteq> 0 \<Longrightarrow>
   (d_index p + 1) div 16 AND (ucast (sects_clust v) - 1) \<noteq> 0 \<Longrightarrow>
   next_pos v p = Some (p\<lparr>d_sect := d_sect p + 1, d_index := d_index p + 1\<rparr>)"
  by (simp add: next_pos_def Let_def)

lemma next_pos_new_cluster:
  "d_index p + 1 AND 15 = 0 \<Longrightarrow> d_clust p \<noteq> 0 \<Longrightarrow>
   (d_index p + 1) div 16 AND (ucast (sects_clust v) - 1) = 0 \<Longrightarrow>
   next_pos v p = (if fat_next v (d_clust p) < 2 \<or> max_clust v \<le> fat_next v (d_clust p) then None
     else Some (p\<lparr>d_clust := fat_next v (d_clust p), d_sect := clust2sect v (fat_next v (d_clust p)),
                  d_index := d_index p + 1\<rparr>))"
  by (simp add: next_pos_def Let_def)

lemma clust_pos_fields:
  "d_index (clust_pos v xs p k) = of_nat k"
  "d_clust (clust_pos v xs p k) = xs ! (k div 16 div unat (sects_clust v))"
  "d_sect (clust_pos v xs p k) = clust2sect v (xs ! (k div 16 div unat (sects_clust v)))
     + of_nat (k div 16 mod unat (sects_clust v))"
  by (simp_all add: clust_pos_def Let_def)

lemma clust_next:
  assumes d: "data_ok v" and ch: "chain (fat_entry v) (max_clust v) c xs" and k: "k < clust_len v xs"
  shows "next_pos v (clust_pos v xs p k) = (if Suc k < clust_len v xs then Some (clust_pos v xs p (Suc k)) else None)"
proof -
  obtain i where i: "i < 8" "unat (sects_clust v) = 2 ^ i" using d by (auto simp: data_ok_def)
  define S where "S = (2 :: nat) ^ i"
  have S: "0 < S" "unat (sects_clust v) = S" using i by (simp_all add: S_def)
  let ?j = "k div 16 div S"
  have j: "?j < length xs"
    using k S by (simp add: clust_len_def less_mult_imp_div_less mult.commute mult.assoc)
  note C = chain_nth [OF ch j]
  have c0: "xs ! ?j \<noteq> 0" using C by auto
  have idx: "(of_nat k :: WORD) + 1 = of_nat (Suc k)" by simp
  note B = index_bits [OF i(2,1), of "Suc k", folded S_def]
  show ?thesis
  proof (cases "Suc k mod 16 = 0")
    case False
    then have "Suc k \<noteq> clust_len v xs" by (auto simp: clust_len_def)
    then have "Suc k < clust_len v xs" using k by linarith
    moreover have at: "d_index (clust_pos v xs p k) + 1 AND 15 \<noteq> 0"
      unfolding clust_pos_fields idx B(1) by (rule False)
    have "Suc k div 16 = k div 16" using False div_16_Suc [of k] by simp
    then have step: "clust_pos v xs p (Suc k) = (clust_pos v xs p k)\<lparr>d_index := d_index (clust_pos v xs p k) + 1\<rparr>"
      unfolding clust_pos_fields idx by (simp only: clust_pos_def Let_def) simp
    have "next_pos v (clust_pos v xs p k) = Some (clust_pos v xs p (Suc k))"
      unfolding step by (rule next_pos_in_sector [OF at])
    ultimately show ?thesis by (simp only: if_True)
  next
    case True
    then have q: "Suc k div 16 = Suc (k div 16)" using div_16_Suc [of k] by simp
    have lt: "(Suc k < clust_len v xs) = (Suc (k div 16) < S * length xs)"
    proof -
      have "Suc k = 16 * Suc (k div 16)" using mult_div_mod_eq [of 16 "Suc k"] unfolding q True by simp
      then obtain m where "Suc k = 16 * m" "Suc (k div 16) = m" by blast
      then show ?thesis by (simp only: clust_len_def S) simp
    qed
    show ?thesis
    proof (cases "Suc (k div 16) mod S = 0")
      case False
      have "Suc (k div 16) \<noteq> S * length xs" using False by auto
      moreover have "k div 16 < S * length xs" using j S by (simp add: div_less_iff_less_mult mult.commute)
      ultimately have "Suc k < clust_len v xs" using lt by linarith
      moreover have "Suc (k div 16) div S = ?j" "Suc (k div 16) mod S = Suc (k div 16 mod S)"
        using False by (auto simp: div_Suc mod_Suc split: if_splits)
      moreover from this have step: "clust_pos v xs p (Suc k) = (clust_pos v xs p k)
          \<lparr>d_sect := d_sect (clust_pos v xs p k) + 1, d_index := d_index (clust_pos v xs p k) + 1\<rparr>"
        by (simp add: clust_pos_def Let_def q S algebra_simps)
      have at: "d_index (clust_pos v xs p k) + 1 AND 15 = 0" "d_clust (clust_pos v xs p k) \<noteq> 0"
        "(d_index (clust_pos v xs p k) + 1) div 16 AND (ucast (sects_clust v) - 1) \<noteq> 0"
        unfolding clust_pos_fields idx B q S using True c0 False by simp_all
      have "next_pos v (clust_pos v xs p k) = Some (clust_pos v xs p (Suc k))"
        unfolding step by (rule next_pos_in_cluster [OF at])
      ultimately show ?thesis by (simp only: if_True)
    next
      case last: True
      have q2: "Suc (k div 16) div S = Suc ?j" using last by (simp add: div_Suc)
      have lt2: "(Suc k < clust_len v xs) = (Suc ?j < length xs)"
      proof -
        have e: "Suc (k div 16) = S * Suc ?j" using last q2 mult_div_mod_eq [of S "Suc (k div 16)"] by simp
        show ?thesis unfolding lt e nat_mult_less_cancel1 [OF S(1)] by (rule refl)
      qed
      have at: "d_index (clust_pos v xs p k) + 1 AND 15 = 0" "d_clust (clust_pos v xs p k) \<noteq> 0"
        "(d_index (clust_pos v xs p k) + 1) div 16 AND (ucast (sects_clust v) - 1) = 0"
        unfolding clust_pos_fields idx B q S using True c0 last by simp_all
      have fn: "fat_next v (xs ! ?j) = fat_entry v (unat (xs ! ?j))" using C by (simp add: fat_next_def)
      show ?thesis
      proof (cases "Suc ?j < length xs")
        case True
        then have e: "fat_next v (xs ! ?j) = xs ! Suc ?j" using C fn by simp
        have r: "\<not> (fat_next v (xs ! ?j) < 2 \<or> max_clust v \<le> fat_next v (xs ! ?j))"
          using chain_nth [OF ch True] e by (simp add: not_less not_le)
        have "clust_pos v xs p (Suc k) = (clust_pos v xs p k)\<lparr>d_clust := xs ! Suc ?j,
            d_sect := clust2sect v (xs ! Suc ?j), d_index := d_index (clust_pos v xs p k) + 1\<rparr>"
          using last q2 by (simp add: clust_pos_def Let_def q S)
        then have "next_pos v (clust_pos v xs p k) = Some (clust_pos v xs p (Suc k))"
          unfolding next_pos_new_cluster [OF at] clust_pos_fields(2) S e using r e by (simp only: if_False)
        then show ?thesis using lt2 True by (simp only: if_True)
      next
        case False
        then have "fat_next v (xs ! ?j) < 2 \<or> max_clust v \<le> fat_next v (xs ! ?j)" using C fn by (auto simp: not_le not_less)
        then show ?thesis
          using next_pos_new_cluster [OF at] lt2 False unfolding clust_pos_fields idx S
          by (simp only: if_True if_False)
      qed
    qed
  qed
qed

lemma clust_sect:
  assumes "data_ok v" "2 \<le> c" "c < max_clust v" "j < unat (sects_clust v)"
  shows "unat (clust2sect v c + of_nat j) = unat (database v) + (unat c - 2) * unat (sects_clust v) + j"
    and "clust2sect v c = database v + (c - 2) * ucast (sects_clust v)"
proof -
  let ?S = "unat (sects_clust v)" and ?m = "unat (max_clust v)"
  have c: "2 \<le> unat c" "unat c < ?m" using assms by (simp_all add: word_le_nat_alt word_less_nat_alt)
  have u: "unat (c - 2) = unat c - 2" "unat (max_clust v - 2) = ?m - 2"
    using c assms(1) by (simp_all add: unat_sub word_le_nat_alt data_ok_def)
  then have "c - 2 < max_clust v - 2" using c by (simp add: word_less_nat_alt)
  then show e: "clust2sect v c = database v + (c - 2) * ucast (sects_clust v)"
    by (simp add: clust2sect_def Let_def not_le [symmetric] algebra_simps)
  have "(unat c - 2) * ?S + ?S \<le> (?m - 2) * ?S"
    using c mult_le_mono1 [of "unat c - 2 + 1" "?m - 2" ?S] by (simp add: algebra_simps)
  then have b: "unat (database v) + (unat c - 2) * ?S + j < 2 ^ 32"
    using assms(1,4) unfolding data_ok_def by linarith
  have "unat ((c - 2) * ucast (sects_clust v)) = (unat c - 2) * ?S"
    using b u by (simp add: unat_word_ariths unat_widen)
  moreover have "unat (of_nat j :: DWORD) = j" using b by (simp add: unat_of_nat)
  ultimately show "unat (clust2sect v c + of_nat j) = unat (database v) + (unat c - 2) * ?S + j"
    using b unfolding e by (simp add: unat_word_ariths)
qed

lemma clust_dir_ok:
  assumes "data_ok v" "chain (fat_entry v) (max_clust v) c xs" "k < clust_len v xs"
  shows "dir_ok v (clust_pos v xs p k)"
proof -
  let ?S = "unat (sects_clust v)"
  have S: "0 < ?S" using assms(1) by (auto simp: data_ok_def)
  have j: "k div 16 div ?S < length xs"
    using assms(3) S by (simp add: clust_len_def less_mult_imp_div_less mult.commute mult.assoc)
  note C = chain_nth [OF assms(2) j]
  have "k div 16 mod ?S < ?S" using S by simp
  from clust_sect(1) [OF assms(1) _ _ this] C
  have "unat (database v) \<le> unat (d_sect (clust_pos v xs p k))" by (simp add: clust_pos_fields)
  then show ?thesis using assms(1) unfolding dir_ok_def backup_def data_ok_def word_le_nat_alt by linarith
qed

lemma clust_walk:
  "data_ok v \<Longrightarrow> chain (fat_entry v) (max_clust v) c xs \<Longrightarrow> a < clust_len v xs \<Longrightarrow>
   dw.walk v (map (clust_pos v xs p) [a..<clust_len v xs])"
  by (rule dw.walk_range) (auto simp: clust_next clust_dir_ok)

section \<open>Path resolution\<close>

text \<open>
  \<open>resolves v ps ss r\<close> is what a path of segments \<open>ss\<close> means in the directory with the positions \<open>ps\<close>:
  the result code and, where the path names an entry, its position.
\<close>

type_synonym path_seg = "BYTE list \<times> BYTE list"

definition lookup :: "vol \<Rightarrow> DIR list \<Rightarrow> path_seg \<Rightarrow> DIR option" where
  "lookup v ps s = (case dw.first_hit (name_test (entry_name (fst s) (snd s))) v ps of
     Some (True, p) \<Rightarrow> Some p | _ \<Rightarrow> None)"

definition is_dir :: "buffer \<Rightarrow> bool" where
  "is_dir e \<longleftrightarrow> e ! 11 AND 0x10 \<noteq> 0"

definition sub_positions :: "vol \<Rightarrow> DIR \<Rightarrow> DWORD list \<Rightarrow> DIR list" where
  "sub_positions v p xs = map (clust_pos v xs (enter_dir (start_clust (entry_view v p)) v p)) [2..<clust_len v xs]"

inductive resolves :: "vol \<Rightarrow> DIR list \<Rightarrow> path_seg list \<Rightarrow> FRESULT \<times> DIR option \<Rightarrow> bool" for v where
  no_file: "lookup v ps s = None \<Longrightarrow> resolves v ps [s] (FR_NO_FILE, None)"
| found: "lookup v ps s = Some p \<Longrightarrow> resolves v ps [s] (FR_OK, Some p)"
| no_path: "lookup v ps s = None \<Longrightarrow> resolves v ps (s # t # ss) (FR_NO_PATH, None)"
| not_dir: "lookup v ps s = Some p \<Longrightarrow> \<not> is_dir (entry_view v p) \<Longrightarrow> resolves v ps (s # t # ss) (FR_NO_PATH, None)"
| enter: "lookup v ps s = Some p \<Longrightarrow> is_dir (entry_view v p) \<Longrightarrow>
    chain (fat_entry v) (max_clust v) (start_clust (entry_view v p)) xs \<Longrightarrow> xs \<noteq> [] \<Longrightarrow>
    resolves v (sub_positions v p xs) (t # ss) r \<Longrightarrow> resolves v ps (s # t # ss) r"

fun join_path :: "path_seg list \<Rightarrow> BYTE list" where
  "join_path [] = []"
| "join_path [s] = segment (fst s) (snd s)"
| "join_path (s # t # ss) = segment (fst s) (snd s) @ 0x2F # join_path (t # ss)"

definition good_path :: "path_seg list \<Rightarrow> bool" where
  "good_path ss \<longleftrightarrow> (\<forall>s \<in> set ss. good_name (fst s) (snd s))"

lemma enter_dir_pos:
  assumes "chain f m c xs" "xs \<noteq> []" "data_ok v"
  shows "clust_pos v xs (enter_dir c v p) 2 = enter_dir c v p" and "2 < clust_len v xs"
proof -
  have S: "0 < unat (sects_clust v)" using assms(3) by (auto simp: data_ok_def)
  have "xs ! 0 = c" using assms(1,2) by (cases xs) auto
  then show "clust_pos v xs (enter_dir c v p) 2 = enter_dir c v p"
    using S by (simp add: clust_pos_def enter_dir_def Let_def)
  have "0 < unat (sects_clust v) * length xs" using S assms(2) by simp
  then show "2 < clust_len v xs" unfolding clust_len_def by linarith
qed

text \<open>One scan of \<^verbatim>\<open>trace_path\<close>.\<close>

definition on_entry :: "vol \<Rightarrow> DIR \<Rightarrow> vol \<Rightarrow> bool" where
  "on_entry v p v' \<longleftrightarrow> dir_ok v p \<and> dir_entry v' (entry_off p) = entry_view v p \<and> (\<exists>u. move_window (d_sect p) u = (True, v'))"

lemma trace_scan:
  assumes v: "vol_ok v" "dw.walk v (d # ps)" and u: "same_view v u"
  shows "\<exists>v' d' h. scan (name_test (entry_name (fst s) (snd s))) d u = Some (h, d', v') \<and> same_view v v' \<and>
    h \<noteq> Scan_error \<and>
    (case lookup v (d # ps) s of None \<Rightarrow> h \<noteq> Scan_hit True
       | Some p \<Rightarrow> h = Scan_hit True \<and> d' = p \<and> on_entry v p v')"
proof -
  let ?T = "name_test (entry_name (fst s) (snd s))"
  have uo: "vol_ok u" using u by (simp add: same_view_def)
  note W = dw.walk_sv [OF v(1) u v(2), of ?T]
  from scan_walk [OF uo conjunct1 [OF W], of ?T] obtain v' p' where
    R: "same_view u v'" "scan ?T d u = (case dw.first_hit ?T u (d # ps) of
         Some (r, q) \<Rightarrow> Some (Scan_hit r, q, v') | None \<Rightarrow> Some (Scan_end, p', v'))"
    "\<And>r q. dw.first_hit ?T u (d # ps) = Some (r, q) \<Longrightarrow>
        dir_ok u q \<and> dir_entry v' (entry_off q) = entry_view u q \<and> (\<exists>w. move_window (d_sect q) w = (True, v'))"
    by blast
  have sv: "same_view v v'" using u R(1) same_view_trans by blast
  have FH: "dw.first_hit ?T u (d # ps) = dw.first_hit ?T v (d # ps)" using W by blast
  have ok: "dw.walk v qs \<Longrightarrow> dw.first_hit ?T v qs = Some (r, q) \<Longrightarrow> dir_ok v q" for qs r q
    by (induction qs) (auto split: option.splits if_splits list.splits)
  show ?thesis
  proof (cases "dw.first_hit ?T v (d # ps)")
    case None
    then show ?thesis using R(2) FH sv by (auto simp: lookup_def)
  next
    case (Some x)
    obtain r q where x: "x = (r, q)" by fastforce
    have q: "dir_ok v q" using ok [OF v(2)] Some x by simp
    have "on_entry v q v'"
      using R(3) [of r q] FH Some x q dir_view_stable [OF v(1) u, of q] by (auto simp: on_entry_def)
    then show ?thesis using R(2) FH Some x sv by (cases r) (auto simp: lookup_def)
  qed
qed

lemma trace_loop_resolves:
  assumes "resolves v qs ss r" "vol_ok v" "data_ok v" "good_path ss" "length fn = 12" "same_view v u"
    and "qs = d # ps" "dw.walk v qs"
  shows "\<exists>dir d' fn' v'. trace_loop d fn (join_path ss) u = Some (fst r, dir, d', fn', v') \<and> same_view v v' \<and>
    (fst r \<in> {FR_OK, FR_NO_FILE} \<longrightarrow> fn' = entry_name (fst (last ss)) (snd (last ss))) \<and>
    (\<forall>p. snd r = Some p \<longrightarrow> dir = Some (entry_off p) \<and> d' = p \<and> on_entry v p v')"
  using assms
proof (induction arbitrary: fn u d ps rule: resolves.induct)
  case (no_file qs s)
  have M: "make_dirfile (segment (fst s) (snd s)) fn = (0, [], entry_name (fst s) (snd s))"
    using make_dirfile_ok [of "fst s" "snd s" "[]" fn] no_file by (simp add: good_path_def seg_stop_def)
  from trace_scan [OF no_file(2) _ no_file(6), where d = d and ps = ps and s = s] no_file obtain v' d' h where
    "scan (name_test (entry_name (fst s) (snd s))) d u = Some (h, d', v')" "same_view v v'"
    "h \<noteq> Scan_error" "h \<noteq> Scan_hit True" by fastforce
  then show ?case by (subst trace_loop.simps) (simp add: M)
next
  case (found qs s p)
  have M: "make_dirfile (segment (fst s) (snd s)) fn = (0, [], entry_name (fst s) (snd s))"
    using make_dirfile_ok [of "fst s" "snd s" "[]" fn] found by (simp add: good_path_def seg_stop_def)
  from trace_scan [OF found(2) _ found(6), where d = d and ps = ps and s = s] found obtain v' where
    "scan (name_test (entry_name (fst s) (snd s))) d u = Some (Scan_hit True, p, v')" "same_view v v'"
    "on_entry v p v'" by fastforce
  then show ?case by (subst trace_loop.simps) (simp add: M)
next
  case (no_path qs s t ss)
  have M: "make_dirfile (segment (fst s) (snd s) @ 0x2F # join_path (t # ss)) fn
      = (0x2F, join_path (t # ss), entry_name (fst s) (snd s))"
    using make_dirfile_ok [of "fst s" "snd s" "0x2F # join_path (t # ss)" fn] no_path
    by (simp add: good_path_def seg_stop_def)
  from trace_scan [OF no_path(2) _ no_path(6), where d = d and ps = ps and s = s] no_path obtain v' d' h where
    "scan (name_test (entry_name (fst s) (snd s))) d u = Some (h, d', v')" "same_view v v'"
    "h \<noteq> Scan_error" "h \<noteq> Scan_hit True" by fastforce
  then show ?case by (subst trace_loop.simps) (simp add: M)
next
  case (not_dir qs s p t ss)
  have M: "make_dirfile (segment (fst s) (snd s) @ 0x2F # join_path (t # ss)) fn
      = (0x2F, join_path (t # ss), entry_name (fst s) (snd s))"
    using make_dirfile_ok [of "fst s" "snd s" "0x2F # join_path (t # ss)" fn] not_dir
    by (simp add: good_path_def seg_stop_def)
  from trace_scan [OF not_dir(3) _ not_dir(7), where d = d and ps = ps and s = s] not_dir obtain v' where
    "scan (name_test (entry_name (fst s) (snd s))) d u = Some (Scan_hit True, p, v')" "same_view v v'"
    "on_entry v p v'" by fastforce
  then show ?case using not_dir(2) by (subst trace_loop.simps) (simp add: M on_entry_def is_dir_def Let_def)
next
  case (enter qs s p xs t ss r)
  let ?c = "start_clust (entry_view v p)"
  have fl: "length (entry_name (fst s) (snd s)) = 12" using enter.prems(3) length_entry_name by (simp add: good_path_def)
  have M: "make_dirfile (segment (fst s) (snd s) @ 0x2F # join_path (t # ss)) fn
      = (0x2F, join_path (t # ss), entry_name (fst s) (snd s))"
    using make_dirfile_ok [of "fst s" "snd s" "0x2F # join_path (t # ss)" fn] enter.prems
    by (simp add: good_path_def seg_stop_def)
  from trace_scan [OF enter.prems(1) _ enter.prems(5), where d = d and ps = ps and s = s] enter.prems(6,7) enter.hyps(1) obtain v' where
    S: "scan (name_test (entry_name (fst s) (snd s))) d u = Some (Scan_hit True, p, v')" "same_view v v'"
    "on_entry v p v'" by fastforce
  note E = enter_dir_pos(1) [OF enter.hyps(3,4) enter.prems(2), of p] enter_dir_pos(2) [OF enter.hyps(3,4) enter.prems(2)]
  have "enter_dir ?c v' p = enter_dir ?c v p"
    using S(2) clust2sect_cong [of v' v] by (simp add: enter_dir_def same_view_def)
  then have un: "trace_loop d fn (join_path (s # t # ss)) u
      = trace_loop (enter_dir ?c v p) (entry_name (fst s) (snd s)) (join_path (t # ss)) v'"
    using S enter.hyps(2) by (subst trace_loop.simps) (simp add: M on_entry_def is_dir_def Let_def)
  have pos: "sub_positions v p xs = enter_dir ?c v p # map (clust_pos v xs (enter_dir ?c v p)) [3..<clust_len v xs]"
    using E by (simp add: sub_positions_def upt_conv_Cons)
  have walk: "dw.walk v (sub_positions v p xs)"
    unfolding sub_positions_def using enter.prems(2) enter.hyps(3) E(2) by (rule clust_walk)
  have "good_path (t # ss)" using enter.prems(3) by (simp add: good_path_def)
  from enter.IH [OF enter.prems(1,2) this fl S(2) pos walk]
  show ?case unfolding un by simp
qed

text \<open>The positions of the root directory.\<close>

definition root_dir :: "vol \<Rightarrow> DIR \<Rightarrow> DIR list \<Rightarrow> bool" where
  "root_dir v d ps \<longleftrightarrow>
     (if fs_type v = FS_FAT32
      then (\<exists>xs. xs \<noteq> [] \<and> chain (fat_entry v) (max_clust v) (dirbase v) xs \<and>
              ps = map (clust_pos v xs (enter_root v d)) [0..<clust_len v xs])
      else root_ok v \<and> ps = map (root_pos v d) [0..<root_len v])"

lemma root_dir_walk:
  assumes "root_dir v d ps" "data_ok v"
  shows "dw.walk v ps \<and> (\<exists>qs. ps = enter_root v d # qs)"
proof (cases "fs_type v = FS_FAT32")
  case True
  then obtain xs where xs: "xs \<noteq> []" "chain (fat_entry v) (max_clust v) (dirbase v) xs"
    "ps = map (clust_pos v xs (enter_root v d)) [0..<clust_len v xs]"
    using assms(1) by (auto simp: root_dir_def)
  have "0 < clust_len v xs" using enter_dir_pos(2) [OF xs(2,1) assms(2)] by simp
  moreover have "clust_pos v xs (enter_root v d) 0 = enter_root v d"
    using xs True by (cases xs) (simp_all add: clust_pos_def enter_root_def Let_def)
  ultimately show ?thesis using xs(3) clust_walk [OF assms(2) xs(2), of 0 "enter_root v d"]
    by (auto simp only: upt_conv_Cons list.map)
next
  case False
  then have r: "root_ok v" "ps = map (root_pos v d) [0..<root_len v]" using assms(1) by (auto simp: root_dir_def)
  have "root_pos v d 0 = enter_root v d" using False by (simp add: root_pos_def enter_root_def)
  moreover have "0 < root_len v" by (simp add: root_len_def)
  ultimately show ?thesis using r(2) root_walk [OF r(1), of d] by (auto simp only: upt_conv_Cons list.map)
qed

lemma join_path_nonempty: "good_path ss \<Longrightarrow> ss \<noteq> [] \<Longrightarrow> join_path ss \<noteq> []"
  by (cases ss rule: join_path.cases) (auto simp: good_path_def good_name_def segment_def)

lemma resolves_nonempty: "resolves v ps ss r \<Longrightarrow> ss \<noteq> []"
  by (induction rule: resolves.induct) auto

lemma trace_path_resolves_spec:
  assumes "vol_ok v" "data_ok v" "root_dir v d ps" "good_path ss" "length fn = 12" "resolves v ps ss r"
  shows "\<exists>dir d' fn' v'. trace_path d fn (join_path ss) v = Some (fst r, dir, d', fn', v') \<and> same_view v v' \<and>
    (fst r \<in> {FR_OK, FR_NO_FILE} \<longrightarrow> fn' = entry_name (fst (last ss)) (snd (last ss))) \<and>
    (\<forall>p. snd r = Some p \<longrightarrow> dir = Some (entry_off p) \<and> d' = p \<and> on_entry v p v')"
proof -
  obtain qs where qs: "dw.walk v ps" "ps = enter_root v d # qs" using root_dir_walk [OF assms(3,2)] by blast
  have "join_path ss \<noteq> []" using join_path_nonempty [OF assms(4)] resolves_nonempty [OF assms(6)] by blast
  then have "trace_path d fn (join_path ss) v = trace_loop (enter_root v d) fn (join_path ss) v"
    by (simp add: trace_path_def Let_def)
  with trace_loop_resolves [OF assms(6,1,2,4,5) same_view_refl [OF assms(1)] qs(2,1)] show ?thesis by simp
qed

section \<open>The properties\<close>

text \<open>C3: \<open>trace_path\<close> on a path of 8.3 names ends with the result the path has by the definition of
  path resolution (each directory searched to its first entry with the name, across clusters and
  sectors; missing last names are \<open>FR_NO_FILE\<close>, missing or non-directory inner ones \<open>FR_NO_PATH\<close>), with
  the directory object and the window on the entry it found, and without changing what the file
  system sees.\<close>

theorem trace_path_resolves:
  assumes "vol_ok v" "data_ok v" "root_dir v d ps" "good_path ss" "length fn = 12" "resolves v ps ss r"
  shows "\<exists>dir d' fn' v'. trace_path d fn (join_path ss) v = Some (fst r, dir, d', fn', v') \<and> same_view v v' \<and>
    (fst r \<in> {FR_OK, FR_NO_FILE} \<longrightarrow> fn' = entry_name (fst (last ss)) (snd (last ss))) \<and>
    (\<forall>p. snd r = Some p \<longrightarrow> dir = Some (entry_off p) \<and> d' = p \<and> on_entry v p v')"
  using assms by (rule trace_path_resolves_spec)

definition sample_dir :: DIR where
  "sample_dir = \<lparr>d_id = 1, d_index = 0, d_fs = 0, d_sclust = 0, d_clust = 0, d_sect = 0\<rparr>"

lemma sample_data_ok: "data_ok sample_vol"
  unfolding data_ok_def by (simp add: sample_vol_def) (rule exI [of _ 0], simp)

lemma sample_root: "root_dir sample_vol d (map (root_pos sample_vol d) [0..<16])"
  by (simp add: root_dir_def root_ok_def root_len_def sample_vol_def fs_type_defs)

lemma sample_first: "entry_view sample_vol (root_pos sample_vol d 0) = sample_entry"
proof -
  have "eff sample_vol 3 = map (sample_blk 3) [0..<512]"
    by (simp add: eff_def sample_vol_def sample_dev_def sector_of_def)
  moreover have "take 32 (map (sample_blk 3) [0..<512]) = map (sample_blk 3) [0..<32]"
    by (simp add: take_map take_upt)
  moreover have "map (sample_blk 3) [0..<32] = map ((!) sample_entry) [0..<length sample_entry]"
  proof (rule nth_equalityI)
    fix i assume "i < length (map (sample_blk 3) [0..<32])"
    then have "i < 32" by simp
    then show "map (sample_blk 3) [0..<32] ! i = map ((!) sample_entry) [0..<length sample_entry] ! i"
      by (simp add: sample_blk_def sample_entry_def)
  qed (simp add: sample_entry_def)
  ultimately show ?thesis
    by (simp add: entry_view_def root_pos_def entry_off_def map_nth) (simp add: sample_vol_def)
qed

lemma sample_path:
  "good_path [([0x61], [0x74, 0x78, 0x74])]"
  "resolves sample_vol (map (root_pos sample_vol d) [0..<16]) [([0x61], [0x74, 0x78, 0x74])]
     (FR_OK, Some (root_pos sample_vol d 0))"
  "entry_off (root_pos sample_vol d 0) = 0"
proof -
  let ?s = "([0x61], [0x74, 0x78, 0x74]) :: path_seg"
  show "good_path [?s]" by (simp add: good_path_def good_name_def name_char_def)
  have e: "entry_name [0x61] [0x74, 0x78, 0x74] = [0x41, 0x20, 0x20, 0x20, 0x20, 0x20, 0x20, 0x20, 0x54, 0x58, 0x54, 0x18]"
    by code_simp
  have "[0..<16] = 0 # [1..<16::nat]" by (simp add: upt_conv_Cons)
  then have "lookup sample_vol (map (root_pos sample_vol d) [0..<16]) ?s = Some (root_pos sample_vol d 0)"
    by (simp only: lookup_def list.map dw.first_hit.simps sample_first) (simp add: e name_test_def sample_entry_def)
  then show "resolves sample_vol (map (root_pos sample_vol d) [0..<16]) [?s] (FR_OK, Some (root_pos sample_vol d 0))"
    by (rule resolves.found)
  show "entry_off (root_pos sample_vol d 0) = 0" by (simp add: entry_off_def root_pos_def)
qed

theorem trace_path_resolves_witness:
  "\<exists>d' fn' v'. trace_path sample_dir (replicate 12 0) [0x61, 0x2E, 0x74, 0x78, 0x74] sample_vol
     = Some (FR_OK, Some 0, d', fn', v') \<and> dir_entry v' 0 = sample_entry"
proof -
  from trace_path_resolves [OF sample_ok sample_data_ok sample_root [of sample_dir] sample_path(1) _ sample_path(2), of "replicate 12 0"]
  obtain d' fn' v' where "trace_path sample_dir (replicate 12 0) (join_path [([0x61], [0x74, 0x78, 0x74])]) sample_vol
      = Some (FR_OK, Some 0, d', fn', v')" "dir_entry v' 0 = sample_entry"
    by (auto simp: on_entry_def sample_first sample_path(3))
  then show ?thesis by (auto simp: segment_def)
qed

text \<open>\<open>reserve_direntry\<close> takes the first free or deleted entry of the directory; where there is
  none, a directory of fixed size answers \<open>FR_DENIED\<close>.\<close>

theorem reserve_direntry_first_free:
  assumes "vol_ok v" "dw.walk v (s # ps)"
    and "s = (if d_sclust d \<noteq> 0 then d\<lparr>d_clust := d_sclust d, d_sect := clust2sect v (d_sclust d), d_index := 0\<rparr>
              else d\<lparr>d_sect := dirbase v, d_index := 0\<rparr>)"
    and "dw.first_hit free_test v (s # ps) \<noteq> None \<or> d_sclust d = 0"
  shows "\<exists>res dir d' v'. reserve_direntry d v = Some (res, dir, d', v') \<and> same_view v v' \<and>
    (case dw.first_hit free_test v (s # ps) of
       Some (u, p) \<Rightarrow> res = FR_OK \<and> dir = entry_off p \<and> d' = p \<and> on_entry v p v'
     | None \<Rightarrow> res = FR_DENIED)"
proof -
  have s: "(if d_sclust d \<noteq> 0 then d\<lparr>d_clust := d_sclust d, d_sect := clust2sect v (d_sclust d)\<rparr>
      else d\<lparr>d_sect := dirbase v\<rparr>)\<lparr>d_index := 0\<rparr> = s"
    using assms(3) by simp
  from scan_walk [OF assms(1,2), of free_test] obtain v' p' where
    R: "same_view v v'" "scan free_test s v = (case dw.first_hit free_test v (s # ps) of
         Some (r, q) \<Rightarrow> Some (Scan_hit r, q, v') | None \<Rightarrow> Some (Scan_end, p', v'))"
    "\<And>r q. dw.first_hit free_test v (s # ps) = Some (r, q) \<Longrightarrow>
        dir_ok v q \<and> dir_entry v' (entry_off q) = entry_view v q \<and> (\<exists>w. move_window (d_sect q) w = (True, v'))"
    by blast
  show ?thesis
  proof (cases "dw.first_hit free_test v (s # ps)")
    case None
    then show ?thesis using R(1,2) assms(4) unfolding reserve_direntry_def Let_def s by simp
  next
    case (Some x)
    obtain u p where x: "x = (u, p)" by (cases x)
    have "on_entry v p v'" using R(3) Some x by (simp add: on_entry_def)
    then show ?thesis using R(1,2) Some x unfolding reserve_direntry_def Let_def s by simp
  qed
qed

theorem reserve_direntry_first_free_witness:
  "\<exists>d' v'. reserve_direntry sample_dir sample_vol = Some (FR_OK, 32, d', v')"
proof -
  let ?r = "root_pos sample_vol sample_dir"
  have c: "[0..<16] = 0 # 1 # [2..<16::nat]" by (simp add: upt_conv_Cons)
  have s0: "?r 0 = sample_dir\<lparr>d_sect := dirbase sample_vol, d_index := 0\<rparr>"
    by (simp add: root_pos_def sample_dir_def)
  have w: "dw.walk sample_vol (?r 0 # ?r 1 # map ?r [2..<16])"
    using root_dir_walk [OF sample_root sample_data_ok] by (simp only: c list.map)
  have "eff sample_vol 3 ! 32 = 0"
    by (simp add: eff_def sample_vol_def sample_dev_def sector_of_def sample_blk_def)
  then have e1: "entry_view sample_vol (?r 1) ! 0 = 0"
    by (simp add: entry_view_def root_pos_def entry_off_def length_eff [OF sample_ok]) (simp add: sample_vol_def)
  have "dw.first_hit free_test sample_vol (?r 0 # ?r 1 # map ?r [2..<16]) = Some ((), ?r 1)"
    using e1 by (simp add: sample_first free_test_def sample_entry_def)
  with reserve_direntry_first_free [OF sample_ok w, of sample_dir] s0 show ?thesis
    by (auto simp: sample_dir_def entry_off_def root_pos_def)
qed

end
