(* ===== verification/Libc.thy ===== *)
theory Libc
  imports Prelude
begin

unbundle bit_operations_syntax

text \<open>
  The C library routines of \<^verbatim>\<open>drivers_C/libc.c\<close>: block and string operations over a byte memory with
  32-bit addresses, the run-time division routines the compiler calls (the target has no divide
  instruction), and the formatted output of \<^verbatim>\<open>ConsolePrintf\<close>.  \<^verbatim>\<open>char\<close> is unsigned.  Loops over a count
  recurse on the count; loops that wait for a terminating zero, and the division loops, may never
  end: they are partial, \<open>None\<close> being the run that does not return.
\<close>

type_synonym mem = "DWORD \<Rightarrow> BYTE"

section \<open>Blocks\<close>

fun memcmp :: "mem \<Rightarrow> DWORD \<Rightarrow> DWORD \<Rightarrow> nat \<Rightarrow> int" where
  "memcmp m cs ct 0 = 0"
| "memcmp m cs ct (Suc n) =
     (if m cs < m ct then -1 else if m cs > m ct then 1 else memcmp m (cs + 1) (ct + 1) n)"

fun memcpy :: "mem \<Rightarrow> DWORD \<Rightarrow> DWORD \<Rightarrow> nat \<Rightarrow> mem" where
  "memcpy m dst8 src8 0 = m"
| "memcpy m dst8 src8 (Suc count) = memcpy (m(dst8 := m src8)) (dst8 + 1) (src8 + 1) count"

fun memset :: "mem \<Rightarrow> DWORD \<Rightarrow> DWORD \<Rightarrow> nat \<Rightarrow> mem" where
  "memset m dst8 value 0 = m"
| "memset m dst8 value (Suc num) = memset (m(dst8 := ucast value)) (dst8 + 1) value num"

section \<open>Strings\<close>

partial_function (option) str_end :: "mem \<Rightarrow> DWORD \<Rightarrow> DWORD option" where
  "str_end m p = (if m p \<noteq> 0 then str_end m (p + 1) else Some p)"

partial_function (option) copy_str :: "mem \<Rightarrow> DWORD \<Rightarrow> DWORD \<Rightarrow> mem option" where
  "copy_str m d s = (if m s \<noteq> 0 then copy_str (m(d := m s)) (d + 1) (s + 1) else Some (m(d := 0)))"

definition strcat :: "mem \<Rightarrow> DWORD \<Rightarrow> DWORD \<Rightarrow> mem option" where
  "strcat m p q = Option.bind (str_end m p) (\<lambda>e. copy_str m e q)"

definition strcpy :: "mem \<Rightarrow> DWORD \<Rightarrow> DWORD \<Rightarrow> mem option" where
  "strcpy m d s = copy_str m d s"

partial_function (option) strcmp :: "mem \<Rightarrow> DWORD \<Rightarrow> DWORD \<Rightarrow> int option" where
  "strcmp m s1 s2 =
     (if (m s1 \<noteq> 0 \<and> m s2 \<noteq> 0) \<and> m s1 = m s2 then strcmp m (s1 + 1) (s2 + 1)
      else Some (int (unat (m s1)) - int (unat (m s2))))"

fun strncmp :: "mem \<Rightarrow> DWORD \<Rightarrow> DWORD \<Rightarrow> nat \<Rightarrow> int" where
  "strncmp m cs ct 0 = 0"
| "strncmp m cs ct (Suc num) =
     (if m cs < m ct then -1 else if m cs > m ct then 1 else if m cs = 0 then 0
      else strncmp m (cs + 1) (ct + 1) num)"

fun strncpy :: "mem \<Rightarrow> DWORD \<Rightarrow> DWORD \<Rightarrow> nat \<Rightarrow> mem" where
  "strncpy m dst8 src8 0 = m"
| "strncpy m dst8 src8 (Suc count) = strncpy (m(dst8 := m src8)) (dst8 + 1) (src8 + 1) count"

definition strlen :: "mem \<Rightarrow> DWORD \<Rightarrow> DWORD option" where
  "strlen m str = Option.bind (str_end m str) (\<lambda>s. Some (s - str))"

section \<open>Division\<close>

text \<open>The four routines share one loop; the signed ones compare signed numbers.\<close>

partial_function (option) div_loop :: "(DWORD \<Rightarrow> DWORD \<Rightarrow> bool) \<Rightarrow> DWORD \<Rightarrow> DWORD \<Rightarrow> DWORD \<Rightarrow> (DWORD \<times> DWORD) option"
where
  "div_loop ge num denom q =
     (if ge num denom then div_loop ge (num - denom) denom (q + 1) else Some (q, num))"

definition aeabi_idivmod :: "DWORD \<Rightarrow> DWORD \<Rightarrow> (DWORD \<times> DWORD) option" where
  "aeabi_idivmod num denom = div_loop (\<lambda>a b. sint b \<le> sint a) num denom 0"

definition aeabi_idiv :: "DWORD \<Rightarrow> DWORD \<Rightarrow> DWORD option" where
  "aeabi_idiv num denom = Option.bind (div_loop (\<lambda>a b. sint b \<le> sint a) num denom 0) (\<lambda>(q, r). Some q)"

definition aeabi_uidivmod :: "DWORD \<Rightarrow> DWORD \<Rightarrow> (DWORD \<times> DWORD) option" where
  "aeabi_uidivmod num denom = div_loop (\<lambda>a b. b \<le> a) num denom 0"

definition aeabi_uidiv :: "DWORD \<Rightarrow> DWORD \<Rightarrow> DWORD option" where
  "aeabi_uidiv num denom = Option.bind (div_loop (\<lambda>a b. b \<le> a) num denom 0) (\<lambda>(q, r). Some q)"

section \<open>ConsolePrintf\<close>

text \<open>The output is the list of bytes handed to \<^verbatim>\<open>uart_tx\<close>; the arguments are the words on the stack
  behind the format, \<open>rest\<close> being what lies beyond the arguments the caller passed.\<close>

definition hex_digit :: "DWORD \<Rightarrow> nat \<Rightarrow> BYTE" where
  "hex_digit num shift =
     (let hd = signed_drop_bit shift num AND 0xF
      in ucast (if sint hd > 9 then hd + 0x41 - 10 else hd + 0x30))"

definition print_hex :: "DWORD \<Rightarrow> BYTE list" where
  "print_hex num = map (hex_digit num) [28, 24, 20, 16, 12, 8, 4, 0]"

text \<open>C division truncates towards zero, so the digits of a negative number are negative.\<close>

definition trunc_div10 :: "int \<Rightarrow> int" where "trunc_div10 n = (if n < 0 then - ((- n) div 10) else n div 10)"
definition trunc_mod10 :: "int \<Rightarrow> int" where "trunc_mod10 n = (if n < 0 then - ((- n) mod 10) else n mod 10)"

function print_digits :: "int \<Rightarrow> BYTE list \<Rightarrow> BYTE list" where
  "print_digits num buf =
     (let buf = word_of_int (0x30 + trunc_mod10 num) # buf; num = trunc_div10 num
      in if num \<noteq> 0 then print_digits num buf else buf)"
  by pat_completeness auto

termination
  by (relation "measure (\<lambda>(num, buf). nat \<bar>num\<bar>)")
    (auto simp: trunc_div10_def split: if_splits)

definition print_dec :: "DWORD \<Rightarrow> BYTE list" where
  "print_dec num = print_digits (sint num) []"

partial_function (option) print_str :: "mem \<Rightarrow> DWORD \<Rightarrow> BYTE list \<Rightarrow> BYTE list option" where
  "print_str m s out = (if m s \<noteq> 0 then print_str m (s + 1) (out @ [m s]) else Some out)"

definition stack_word :: "DWORD list \<Rightarrow> DWORD \<Rightarrow> DWORD" where
  "stack_word stack rest = (case stack of [] \<Rightarrow> rest | w # _ \<Rightarrow> w)"

partial_function (option) printf_loop ::
  "mem \<Rightarrow> DWORD \<Rightarrow> DWORD \<Rightarrow> DWORD list \<Rightarrow> BYTE list \<Rightarrow> BYTE list option" where
  "printf_loop m rest fmt stack out =
     (if m fmt = 0 then Some out
      else if m fmt \<noteq> 0x25 then printf_loop m rest (fmt + 1) stack (out @ [m fmt])
      else (let c = m (fmt + 1); fmt = fmt + 2; w = stack_word stack rest in
            if c = 0x63 then printf_loop m rest fmt (tl stack) (out @ [ucast w])
            else if c = 0x73 then Option.bind (print_str m w out) (\<lambda>out. printf_loop m rest fmt (tl stack) out)
            else if c = 0x78 then printf_loop m rest fmt (tl stack) (out @ print_hex w)
            else if c = 0x64 then printf_loop m rest fmt (tl stack) (out @ print_dec w)
            else printf_loop m rest fmt stack (out @ [0x3F])))"

definition ConsolePrintf :: "mem \<Rightarrow> DWORD \<Rightarrow> DWORD \<Rightarrow> DWORD list \<Rightarrow> BYTE list option" where
  "ConsolePrintf m rest fmt args = printf_loop m rest fmt args []"

section \<open>Division: the loop\<close>

lemma udiv_loop:
  "0 < denom \<Longrightarrow> div_loop (\<lambda>a b. b \<le> a) num denom q = Some (q + num div denom, num mod denom)"
proof (induction "unat num" arbitrary: num q rule: less_induct)
  case less
  show ?case
  proof (cases "denom \<le> num")
    case True
    then have s: "unat (num - denom) = unat num - unat denom" by (simp add: unat_sub)
    moreover have "0 < unat denom" "unat denom \<le> unat num"
      using less.prems True by (simp_all add: word_less_nat_alt word_le_nat_alt)
    ultimately have IH: "div_loop (\<lambda>a b. b \<le> a) (num - denom) denom (q + 1)
        = Some (q + 1 + (num - denom) div denom, (num - denom) mod denom)"
      using less.prems by (intro less.hyps) linarith+
    have "unat num div unat denom = Suc ((unat num - unat denom) div unat denom)"
      and "unat num mod unat denom = (unat num - unat denom) mod unat denom"
      using \<open>0 < unat denom\<close> \<open>unat denom \<le> unat num\<close> by (simp_all add: le_div_geq le_mod_geq)
    then have "unat (num div denom) = Suc (unat ((num - denom) div denom))"
      and mod: "unat (num mod denom) = unat ((num - denom) mod denom)"
      using s by (simp_all only: unat_div unat_mod)
    then have "of_nat (unat (num div denom)) = (of_nat (Suc (unat ((num - denom) div denom))) :: DWORD)" by simp
    then have "num div denom = 1 + (num - denom) div denom" by simp
    moreover have "num mod denom = (num - denom) mod denom" using mod by (rule unsigned_word_eqI [where ?'a = nat])
    ultimately show ?thesis using IH True by (subst div_loop.simps) (simp add: algebra_simps)
  next
    case False
    then have "num div denom = 0" "num mod denom = num"
      by (simp_all add: div_word_less mod_word_less not_le)
    then show ?thesis using False by (subst div_loop.simps) simp
  qed
qed

lemma div_loop_stops:
  assumes "div_loop ge num denom q = Some y"
  shows "\<exists>n. \<not> ge n denom"
  by (rule div_loop.raw_induct [where P = "\<lambda>ge num denom q y. \<exists>n. \<not> ge n denom", OF _ assms])
    (auto split: if_splits)

lemma udiv_zero: "div_loop (\<lambda>a b. b \<le> a) num 0 q = None"
  using div_loop_stops [of "\<lambda>a b. b \<le> a" num 0 q]
  by (cases "div_loop (\<lambda>a b. b \<le> a) num 0 q") (auto simp: word_le_nat_alt)

lemma sdiv_loop:
  "0 < sint denom \<Longrightarrow> 0 \<le> sint num \<Longrightarrow>
   div_loop (\<lambda>a b. sint b \<le> sint a) num denom q = Some (q + num div denom, num mod denom)"
proof -
  assume d: "0 < sint denom" and n: "0 \<le> sint num"
  note nonneg = sint_nonneg
  have "0 \<le> sint num \<Longrightarrow> div_loop (\<lambda>a b. sint b \<le> sint a) num denom q = div_loop (\<lambda>a b. b \<le> a) num denom q" for num q
  proof (induction "unat num" arbitrary: num q rule: less_induct)
    case less
    have eq: "(sint denom \<le> sint num) = (denom \<le> num)"
      using nonneg [of num] nonneg [of denom] less.prems d by (simp add: word_le_def)
    show ?case
    proof (cases "denom \<le> num")
      case True
      then have u: "unat (num - denom) = unat num - unat denom" by (simp add: unat_sub)
      moreover have "denom \<noteq> 0" using d by auto
      then have "0 < unat denom" by (simp add: unat_gt_0)
      ultimately have lt: "unat (num - denom) < unat num" using True by (simp add: word_le_nat_alt)
      have "uint (num - denom) < 2 ^ 31"
        using lt nonneg [of num] less.prems by (simp add: word_less_nat_alt [symmetric] word_less_def)
      then have "0 \<le> sint (num - denom)" using sint_small by simp
      with less.hyps [OF lt] eq True show ?thesis by (subst (1 2) div_loop.simps) simp
    next
      case False
      then show ?thesis using eq by (subst (1 2) div_loop.simps) simp
    qed
  qed
  moreover have "0 < denom" using d by (auto simp: word_gt_0)
  ultimately show ?thesis using n udiv_loop by simp
qed

section \<open>Strings and blocks in memory\<close>

fun cstr :: "mem \<Rightarrow> DWORD \<Rightarrow> BYTE list \<Rightarrow> bool" where
  "cstr m p [] = (m p = 0)"
| "cstr m p (c # cs) = (c \<noteq> 0 \<and> m p = c \<and> cstr m (p + 1) cs)"

text \<open>The addresses of a block, without an address that occurs twice.\<close>

definition block :: "DWORD \<Rightarrow> nat \<Rightarrow> DWORD set" where
  "block p n = {p + of_nat k | k. k < n}"

lemma block_0 [simp]: "block p 0 = {}"
  by (simp add: block_def)

lemma block_Suc: "block p (Suc n) = insert p (block (p + 1) n)"
proof
  show "block p (Suc n) \<subseteq> insert p (block (p + 1) n)"
  proof
    fix a assume "a \<in> block p (Suc n)"
    then obtain k where k: "a = p + of_nat k" "k < Suc n" by (auto simp: block_def)
    then show "a \<in> insert p (block (p + 1) n)"
      by (cases k) (auto simp: block_def algebra_simps intro!: exI [of _ "k - 1"])
  qed
  show "insert p (block (p + 1) n) \<subseteq> block p (Suc n)"
    by (auto simp: block_def algebra_simps intro: exI [of _ "0 :: nat"] exI [of _ "Suc _"])
qed

lemma cstr_cong: "(\<And>a. a \<in> block p (Suc (length s)) \<Longrightarrow> m' a = m a) \<Longrightarrow> cstr m' p s = cstr m p s"
proof (induction s arbitrary: p)
  case (Cons c s)
  have "cstr m' (p + 1) s = cstr m (p + 1) s"
    using Cons.prems by (intro Cons.IH) (simp add: block_Suc)
  moreover have "m' p = m p" using Cons.prems by (simp add: block_Suc)
  ultimately show ?case by simp
qed (simp add: block_Suc)

lemma str_end_cstr: "cstr m p s \<Longrightarrow> str_end m p = Some (p + of_nat (length s))"
  by (induction s arbitrary: p) (subst str_end.simps, simp add: algebra_simps)+

lemma copy_str_ok:
  "cstr m s w \<Longrightarrow> block d (Suc (length w)) \<inter> block s (Suc (length w)) = {} \<Longrightarrow> length w < 2 ^ 32 \<Longrightarrow>
   \<exists>m'. copy_str m d s = Some m' \<and> cstr m' d w \<and> (\<forall>a. a \<notin> block d (Suc (length w)) \<longrightarrow> m' a = m a)"
proof (induction w arbitrary: m d s)
  case Nil
  then show ?case by (intro exI [of _ "m(d := 0)"]) (subst copy_str.simps, simp add: block_Suc)
next
  case (Cons c w)
  let ?m = "m(d := m s)"
  have disj: "block (d + 1) (Suc (length w)) \<inter> block (s + 1) (Suc (length w)) = {}"
    "d \<notin> block (s + 1) (Suc (length w))"
    using Cons.prems(2) by (auto simp: block_Suc [of _ "Suc (length w)"])
  have "cstr ?m (s + 1) w"
  proof -
    have "?m a = m a" if "a \<in> block (s + 1) (Suc (length w))" for a using that disj(2) by auto
    then have "cstr ?m (s + 1) w = cstr m (s + 1) w" by (rule cstr_cong)
    then show ?thesis using Cons.prems(1) by simp
  qed
  moreover have "length w < 2 ^ 32" using Cons.prems(3) by simp
  ultimately obtain m' where
    R: "copy_str ?m (d + 1) (s + 1) = Some m'" "cstr m' (d + 1) w"
    "\<forall>a. a \<notin> block (d + 1) (Suc (length w)) \<longrightarrow> m' a = ?m a" using Cons.IH disj(1) by blast
  have "d \<notin> block (d + 1) (Suc (length w))"
  proof
    assume "d \<in> block (d + 1) (Suc (length w))"
    then obtain k where k: "d = d + 1 + of_nat k" "k < Suc (length w)" by (auto simp: block_def)
    then have "(of_nat (Suc k) :: DWORD) = 0" by (simp add: algebra_simps)
    then have "2 ^ 32 dvd Suc k" by (simp only: word_of_nat_eq_0_iff) simp
    with k(2) Cons.prems(3) show False by (auto dest: dvd_imp_le)
  qed
  then have "m' d = c" using R(3) Cons.prems(1) by simp
  moreover have "copy_str m d s = Some m'" using R(1) Cons.prems(1) by (subst copy_str.simps) simp
  ultimately show ?case
    using R Cons.prems(1) by (intro exI [of _ m']) (auto simp: block_Suc [of _ "Suc (length w)"])
qed

lemma cstr_append: "cstr m p u \<Longrightarrow> cstr m (p + of_nat (length u)) w \<Longrightarrow> cstr m p (u @ w)"
  by (induction u arbitrary: p) (simp_all add: algebra_simps)

lemma memcpy_ok:
  "block d n \<inter> block s n = {} \<Longrightarrow> n < 2 ^ 32 \<Longrightarrow>
   (\<forall>k < n. memcpy m d s n (d + of_nat k) = m (s + of_nat k)) \<and> (\<forall>a. a \<notin> block d n \<longrightarrow> memcpy m d s n a = m a)"
proof (induction n arbitrary: m d s)
  case (Suc n)
  let ?m = "m(d := m s)"
  have disj: "block (d + 1) n \<inter> block (s + 1) n = {}" "d \<notin> block (s + 1) n"
    using Suc.prems(1) by (auto simp: block_Suc)
  have fresh: "d \<notin> block (d + 1) n"
  proof
    assume "d \<in> block (d + 1) n"
    then obtain k where k: "d = d + 1 + of_nat k" "k < n" by (auto simp: block_def)
    then have "(of_nat (Suc k) :: DWORD) = 0" by (simp add: algebra_simps)
    then have "2 ^ 32 dvd Suc k" by (simp only: word_of_nat_eq_0_iff) simp
    with k(2) Suc.prems(2) show False by (auto dest: dvd_imp_le)
  qed
  have IH: "\<And>k. k < n \<Longrightarrow> memcpy ?m (d + 1) (s + 1) n (d + 1 + of_nat k) = ?m (s + 1 + of_nat k)"
    "\<And>a. a \<notin> block (d + 1) n \<Longrightarrow> memcpy ?m (d + 1) (s + 1) n a = ?m a"
    using Suc.IH [OF disj(1) Suc_lessD [OF Suc.prems(2)], of ?m] by blast+
  have "memcpy m d s (Suc n) (d + of_nat k) = m (s + of_nat k)" if "k < Suc n" for k
  proof (cases k)
    case 0
    then show ?thesis using IH(2) [OF fresh] by simp
  next
    case (Suc j)
    with that have j: "j < n" by simp
    then have "s + 1 + of_nat j \<in> block (s + 1) n" by (auto simp: block_def)
    then have "s + 1 + of_nat j \<noteq> d" using disj(2) by auto
    then show ?thesis using IH(1) [OF j] Suc by (simp add: algebra_simps)
  qed
  moreover have "memcpy m d s (Suc n) a = m a" if "a \<notin> block d (Suc n)" for a
    using that IH(2) [of a] by (simp add: block_Suc)
  ultimately show ?case by blast
qed simp

lemma memcmp_zero: "memcmp m a b n = 0 \<longleftrightarrow> (\<forall>k < n. m (a + of_nat k) = m (b + of_nat k))"
proof (induction n arbitrary: a b)
  case (Suc n)
  have split: "(\<forall>k < Suc n. m (a + of_nat k) = m (b + of_nat k)) \<longleftrightarrow>
    m a = m b \<and> (\<forall>k < n. m (a + 1 + of_nat k) = m (b + 1 + of_nat k))"
    unfolding All_less_Suc2 by (simp add: algebra_simps)
  show ?case unfolding split using Suc [of "a + 1" "b + 1"] by auto
qed simp

section \<open>Decimal output\<close>

definition dec_value :: "BYTE list \<Rightarrow> nat" where
  "dec_value ds = foldl (\<lambda>n d. 10 * n + (unat d - 0x30)) 0 ds"

definition digits :: "BYTE list \<Rightarrow> bool" where
  "digits ds \<longleftrightarrow> (\<forall>d \<in> set ds. 0x30 \<le> d \<and> d \<le> 0x39)"

lemma foldl_dec: "foldl (\<lambda>n d. 10 * n + (unat d - 0x30)) a (ds :: BYTE list) = a * 10 ^ length ds + dec_value ds"
proof (induction ds arbitrary: a)
  case (Cons d ds)
  have "dec_value (d # ds) = (unat d - 0x30) * 10 ^ length ds + dec_value ds"
    using Cons [of "unat d - 0x30"] by (simp add: dec_value_def)
  then show ?case using Cons [of "10 * a + (unat d - 0x30)"] by (simp add: algebra_simps)
qed (simp add: dec_value_def)

lemma digit_char: "k < 10 \<Longrightarrow> unat (word_of_int (0x30 + int k) :: BYTE) = 0x30 + k"
proof -
  assume k: "k < 10"
  have "(word_of_int (0x30 + int k) :: BYTE) = of_nat (0x30 + k)" by simp
  then show ?thesis using k by (simp only: unat_of_nat) simp
qed

lemma print_digits_ok:
  "digits buf \<Longrightarrow> digits (print_digits (int n) buf) \<and>
     dec_value (print_digits (int n) buf) = n * 10 ^ length buf + dec_value buf"
proof (induction n arbitrary: buf rule: less_induct)
  case (less n)
  let ?c = "word_of_int (0x30 + int (n mod 10)) :: BYTE"
  have c: "unat ?c = 0x30 + n mod 10" by (intro digit_char) simp
  have d: "digits (?c # buf)" using less.prems c by (simp add: digits_def word_le_nat_alt)
  have v: "dec_value (?c # buf) = n mod 10 * 10 ^ length buf + dec_value buf"
    using c foldl_dec [of "n mod 10" buf] by (simp add: dec_value_def)
  have un: "print_digits (int n) buf = (if n div 10 \<noteq> 0 then print_digits (int (n div 10)) (?c # buf) else ?c # buf)"
    by (subst print_digits.simps) (simp add: trunc_div10_def trunc_mod10_def Let_def zdiv_int zmod_int)
  show ?case
  proof (cases "n div 10 = 0")
    case True
    then have "n mod 10 = n" by (simp add: div_eq_0_iff)
    then show ?thesis using True un d v by simp
  next
    case False
    then have "n div 10 < n" by simp
    from less.IH [OF this d] have
      R: "digits (print_digits (int (n div 10)) (?c # buf))"
      "dec_value (print_digits (int (n div 10)) (?c # buf)) = n div 10 * 10 ^ Suc (length buf) + (n mod 10 * 10 ^ length buf + dec_value buf)"
      using v by simp_all
    have e: "n div 10 * (10 * P) + n mod 10 * P = n * P" for P
      using mult_div_mod_eq [of 10 n] by (metis add_mult_distrib mult.assoc mult.commute)
    with R un False e [of "10 ^ length buf"] show ?thesis by (simp only: power_Suc add.assoc [symmetric]) simp
  qed
qed

lemma print_digits_length:
  "n < 10 ^ k \<Longrightarrow> 0 < k \<Longrightarrow> length (print_digits (int n) buf) \<le> length buf + k"
proof (induction k arbitrary: n buf)
  case (Suc k)
  let ?c = "word_of_int (0x30 + int (n mod 10)) :: BYTE"
  have un: "print_digits (int n) buf = (if n div 10 \<noteq> 0 then print_digits (int (n div 10)) (?c # buf) else ?c # buf)"
    by (subst print_digits.simps) (simp add: trunc_div10_def trunc_mod10_def Let_def zdiv_int zmod_int)
  show ?case
  proof (cases "n div 10 = 0")
    case True
    then show ?thesis using un by simp
  next
    case False
    have "n div 10 < 10 ^ k" using Suc.prems(1) by (simp add: less_mult_imp_div_less mult.commute)
    moreover from this have "0 < k" using False by (cases k) auto
    ultimately show ?thesis using Suc.IH [of "n div 10" "?c # buf"] un False by simp
  qed
qed simp

section \<open>The properties\<close>

text \<open>the unsigned division routine returns quotient and remainder for every divisor but zero, and
  for a divisor of zero it never returns.\<close>

theorem aeabi_uidivmod_spec:
  "aeabi_uidivmod num denom = (if denom = 0 then None else Some (num div denom, num mod denom))"
  using udiv_loop [of denom num 0] udiv_zero [of num 0] by (simp add: aeabi_uidivmod_def word_gt_0)

text \<open>the signed division routine returns quotient and remainder for a dividend that is not negative
  and a positive divisor.\<close>

theorem aeabi_idivmod_positive:
  assumes "0 \<le> sint num" "0 < sint denom"
  shows "aeabi_idivmod num denom = Some (num div denom, num mod denom)"
  using sdiv_loop [OF assms(2,1), of 0] by (simp add: aeabi_idivmod_def)

theorem aeabi_idivmod_positive_witness: "aeabi_idivmod 17 5 = Some (3, 2)"
  using aeabi_idivmod_positive [of 17 5] by simp

text \<open>\<open>strcat\<close> appends the second string to the first, provided that the room behind the first does
  not overlap the second, and changes nothing else.\<close>

theorem strcat_appends:
  assumes "cstr m p u" "cstr m q w" "length w < 2 ^ 32"
    and "block (p + of_nat (length u)) (Suc (length w)) \<inter> block q (Suc (length w)) = {}"
    and "block (p + of_nat (length u)) (Suc (length w)) \<inter> block p (length u) = {}"
  shows "\<exists>m'. strcat m p q = Some m' \<and> cstr m' p (u @ w) \<and>
    (\<forall>a. a \<notin> block (p + of_nat (length u)) (Suc (length w)) \<longrightarrow> m' a = m a)"
proof -
  let ?e = "p + of_nat (length u)"
  obtain m' where c: "copy_str m ?e q = Some m'" "cstr m' ?e w"
    "\<forall>a. a \<notin> block ?e (Suc (length w)) \<longrightarrow> m' a = m a"
    using copy_str_ok [OF assms(2,4,3)] by blast
  have "cstr m r v \<Longrightarrow> (\<And>a. a \<in> block r (length v) \<Longrightarrow> m' a = m a) \<Longrightarrow>
      cstr m' (r + of_nat (length v)) w \<Longrightarrow> cstr m' r (v @ w)" for r v
    by (induction v arbitrary: r) (auto simp: block_Suc algebra_simps)
  from this [OF assms(1) _ c(2)] have "cstr m' p (u @ w)" using c(3) assms(5) by blast
  with c show ?thesis by (simp add: strcat_def str_end_cstr [OF assms(1)])
qed

theorem strcat_appends_witness:
  "\<exists>m'. strcat (\<lambda>a. if a = 0 then 0x61 else if a = 8 then 0x62 else 0) 0 8 = Some m' \<and> cstr m' 0 [0x61, 0x62]"
proof -
  let ?m = "\<lambda>a :: DWORD. if a = 0 then 0x61 else if a = 8 then 0x62 else 0 :: BYTE"
  have "cstr ?m 0 [0x61]" "cstr ?m 8 [0x62]" by simp_all
  from strcat_appends [OF this] show ?thesis by (auto simp: block_Suc)
qed

text \<open>\<open>memcpy\<close> copies the bytes of a block that does not overlap the destination and leaves all other
  memory alone; \<open>memcmp\<close> then finds the two blocks equal.\<close>

theorem memcpy_then_memcmp:
  assumes "block d n \<inter> block s n = {}" "n < 2 ^ 32"
  shows "(\<forall>a. a \<notin> block d n \<longrightarrow> memcpy m d s n a = m a) \<and> memcmp (memcpy m d s n) d s n = 0"
proof -
  note C = memcpy_ok [OF assms, of m]
  have "s + of_nat k \<notin> block d n" if "k < n" for k using assms(1) that by (auto simp: block_def)
  then show ?thesis using C by (simp add: memcmp_zero)
qed

theorem memcpy_then_memcmp_witness: "memcmp (memcpy ucast 0 8 (Suc (Suc 0))) 0 8 (Suc (Suc 0)) = 0"
  using memcpy_then_memcmp [of 0 "Suc (Suc 0)" 8 ucast] by (simp add: block_Suc)

text \<open>for a number that is not negative the decimal output of \<open>ConsolePrintf\<close> consists of digits, is
  read back as the number, and fits into the sixteen bytes of the routine's buffer.\<close>

theorem print_dec_value:
  assumes "0 \<le> sint n"
  shows "digits (print_dec n) \<and> dec_value (print_dec n) = unat n \<and> length (print_dec n) \<le> 10"
proof -
  have "uint n < 2 ^ 31" and e: "sint n = int (unat n)" using sint_nonneg [OF assms] by simp_all
  then have "int (unat n) < int (10 ^ 10)" by simp
  then have "unat n < 10 ^ 10" by (simp only: of_nat_less_iff)
  then show ?thesis
    using print_digits_ok [of "[]" "unat n"] print_digits_length [of "unat n" 10 "[]"] e
    by (simp add: print_dec_def digits_def dec_value_def)
qed

theorem print_dec_value_witness: "dec_value (print_dec 1234567890) = 1234567890"
  using print_dec_value [of 1234567890] by simp

end
