(* ===== verification/FfMount.thy ===== *)
theory FfMount
  imports FfDir Libc
begin

unbundle bit_operations_syntax

text \<open>
  Mounting: \<^verbatim>\<open>check_fs\<close>, \<^verbatim>\<open>auto_mount\<close>, \<^verbatim>\<open>validate\<close> and \<^verbatim>\<open>f_mount\<close> of \<^verbatim>\<open>ff.c\<close>, and the state of the module: the
  table \<^verbatim>\<open>FatFs\<close> of registered file system objects, the mount counter \<^verbatim>\<open>fsid\<close>, the objects themselves
  (by number) and the disk.  The division by the sectors per cluster is the division routine of
  \<^verbatim>\<open>libc.c\<close>, so a boot record with none makes the mount run forever.  A mount of a sane boot record
  yields a well-formed volume, the assumption of the properties of the other theories.
\<close>

section \<open>The state of the module\<close>

record fsys =
  objs :: "nat \<Rightarrow> FATFS"
  FatFs :: "nat \<Rightarrow> nat option"
  fsid :: WORD
  mdisk :: dev

definition zero_fs :: FATFS where
  "zero_fs = \<lparr>fs_id = 0, n_rootdir = 0, winsect = 0, sects_fat = 0, max_clust = 0, fatbase = 0,
     dirbase = 0, database = 0, last_clust = 0, free_clust = 0, fs_type = 0, sects_clust = 0,
     n_fats = 0, drive = 0, winflag = 0, win = replicate 512 0\<rparr>"

definition vol_of :: "FATFS \<Rightarrow> dev \<Rightarrow> vol" where
  "vol_of f d = FATFS.extend f (vol.fields d)"

definition get_vol :: "nat \<Rightarrow> fsys \<Rightarrow> vol" where
  "get_vol a s = vol_of (objs s a) (mdisk s)"

definition put_vol :: "nat \<Rightarrow> vol \<Rightarrow> fsys \<Rightarrow> fsys" where
  "put_vol a v s = s\<lparr>objs := (objs s)(a := FATFS.truncate v), mdisk := disk v\<rparr>"

lemma get_put_vol [simp]: "get_vol a (put_vol a v s) = v"
  by (cases v) (simp add: get_vol_def put_vol_def vol_of_def FATFS.defs vol.defs)

lemma get_put_other: "b \<noteq> a \<Longrightarrow> disk v = mdisk s \<Longrightarrow> get_vol b (put_vol a v s) = get_vol b s"
  by (simp add: get_vol_def put_vol_def)

lemma put_get_vol [simp]: "put_vol a (get_vol a s) s = s"
  by (simp add: get_vol_def put_vol_def vol_of_def FATFS.defs vol.defs fun_upd_idem)

section \<open>The boot record\<close>

definition check_fs :: "DWORD \<Rightarrow> vol \<Rightarrow> BYTE \<times> vol" where
  "check_fs sect v =
     (case disk_read (drive v) (win v) sect 1 (disk v) of (r, w, d) \<Rightarrow>
        let v = v\<lparr>win := w, disk := d\<rparr> in
        if r \<noteq> RES_OK then (2, v)
        else if LD_WORD w 510 \<noteq> 0xAA55 then (2, v)
        else if take 3 (drop 54 w) = [0x46, 0x41, 0x54] then (0, v)
        else if take 5 (drop 82 w) = [0x46, 0x41, 0x54, 0x33, 0x32] \<and> w ! 40 AND 0x80 = 0 then (0, v)
        else (1, v))"

definition find_boot :: "vol \<Rightarrow> BYTE \<times> DWORD \<times> vol" where
  "find_boot v =
     (case check_fs 0 v of (fmt, v) \<Rightarrow>
        if fmt = 1 \<and> win v ! 450 \<noteq> 0
        then (let bootsect = LD_DWORD (win v) 454
              in case check_fs bootsect v of (fmt, v) \<Rightarrow> (fmt, bootsect, v))
        else (fmt, 0, v))"

definition bpb_fatsize :: "buffer \<Rightarrow> DWORD" where
  "bpb_fatsize w = (if LD_WORD w 22 = 0 then LD_DWORD w 36 else ucast (LD_WORD w 22))"

definition bpb_total :: "buffer \<Rightarrow> DWORD" where
  "bpb_total w = (if LD_WORD w 19 = 0 then LD_DWORD w 32 else ucast (LD_WORD w 19))"

definition init_fs :: "DWORD \<Rightarrow> WORD \<Rightarrow> vol \<Rightarrow> vol option" where
  "init_fs bootsect new_id v =
     (let w = win v;
          fatsize = bpb_fatsize w * ucast (w ! 16);
          base = bootsect + ucast (LD_WORD w 14);
          roots = ucast (LD_WORD w 17 div 16)
      in Option.bind (aeabi_uidiv (bpb_total w - ucast (LD_WORD w 14) - fatsize - roots) (ucast (w ! 13)))
           (\<lambda>q. let maxclust = q + 2;
                    fmt = (if maxclust > 0xFFF7 then FS_FAT32 else if maxclust > 0xFF7 then FS_FAT16 else FS_FAT12)
                in Some (v\<lparr>sects_fat := bpb_fatsize w, n_fats := w ! 16, fatbase := base,
                      sects_clust := w ! 13, n_rootdir := LD_WORD w 17, max_clust := maxclust,
                      fs_type := fmt,
                      dirbase := (if fmt = FS_FAT32 then LD_DWORD w 44 else base + fatsize),
                      database := base + fatsize + roots,
                      free_clust := 0xFFFFFFFF, fs_id := new_id\<rparr>)))"

definition mount_volume :: "BYTE \<Rightarrow> BYTE \<Rightarrow> WORD \<Rightarrow> dev \<Rightarrow> (FRESULT \<times> WORD \<times> vol) option" where
  "mount_volume drv chk_wp fid d =
     (case disk_initialize drv d of (stat, d) \<Rightarrow>
        let v = vol_of (zero_fs\<lparr>drive := drv\<rparr>) d in
        if stat AND STA_NOINIT \<noteq> 0 then Some (FR_NOT_READY, fid, v)
        else if chk_wp \<noteq> 0 \<and> stat AND STA_PROTECT \<noteq> 0 then Some (FR_WRITE_PROTECTED, fid, v)
        else (case find_boot v of (fmt, bootsect, v) \<Rightarrow>
                if fmt \<noteq> 0 \<or> LD_WORD (win v) 11 \<noteq> 512 then Some (FR_NO_FILESYSTEM, fid, v)
                else Option.bind (init_fs bootsect (fid + 1) v) (\<lambda>v. Some (FR_OK, fid + 1, v))))"

definition char_at :: "BYTE list \<Rightarrow> nat \<Rightarrow> BYTE" where
  "char_at p i = (if i < length p then p ! i else 0)"

text \<open>The drive number and the rest of a path.\<close>

definition path_drive :: "BYTE list \<Rightarrow> BYTE \<times> BYTE list" where
  "path_drive path =
     (let p = dropWhile (\<lambda>c. c = 0x20) path;
          drv = char_at p 0 - 0x30;
          r = (if drv \<le> 9 \<and> char_at p 1 = 0x3A then (drv, drop 2 p) else (0, p))
      in (fst r, if char_at (snd r) 0 = 0x2F then drop 1 (snd r) else snd r))"

definition auto_mount :: "BYTE list \<Rightarrow> BYTE \<Rightarrow> fsys \<Rightarrow> (FRESULT \<times> BYTE list \<times> nat \<times> fsys) option" where
  "auto_mount path chk_wp s =
     (case path_drive path of (drv, p) \<Rightarrow>
        if 2 \<le> drv then Some (FR_INVALID_DRIVE, p, 0, s)
        else (case FatFs s (unat drv) of
          None \<Rightarrow> Some (FR_NOT_ENABLED, p, 0, s)
        | Some a \<Rightarrow>
            let v = get_vol a s; stat = disk_status (drive v) in
            if fs_type v \<noteq> 0 \<and> stat AND STA_NOINIT = 0
            then Some (if chk_wp \<noteq> 0 \<and> stat AND STA_PROTECT \<noteq> 0 then FR_WRITE_PROTECTED else FR_OK, p, a, s)
            else Option.bind (mount_volume drv chk_wp (fsid s) (mdisk s)) (\<lambda>(res, fid, v).
                   Some (res, p, a, (put_vol a v s)\<lparr>fsid := fid\<rparr>))))"

definition validate :: "nat option \<Rightarrow> WORD \<Rightarrow> fsys \<Rightarrow> FRESULT" where
  "validate fs i s =
     (case fs of
        None \<Rightarrow> FR_INVALID_OBJECT
      | Some a \<Rightarrow> if fs_id (objs s a) \<noteq> i then FR_INVALID_OBJECT
                  else if disk_status (drive (objs s a)) AND STA_NOINIT \<noteq> 0 then FR_NOT_READY
                  else FR_OK)"

definition clear_obj :: "nat option \<Rightarrow> fsys \<Rightarrow> fsys" where
  "clear_obj a s = (case a of None \<Rightarrow> s | Some a \<Rightarrow> s\<lparr>objs := (objs s)(a := zero_fs)\<rparr>)"

definition f_mount :: "BYTE \<Rightarrow> nat option \<Rightarrow> fsys \<Rightarrow> FRESULT \<times> fsys" where
  "f_mount drv fs s =
     (if 2 \<le> drv then (FR_INVALID_DRIVE, s)
      else (let fsobj = FatFs s (unat drv);
                s = s\<lparr>FatFs := (FatFs s)(unat drv := fs)\<rparr>
            in (FR_OK, clear_obj fs (clear_obj fsobj s))))"

section \<open>What a mount finds\<close>

definition fat_boot :: "buffer \<Rightarrow> bool" where
  "fat_boot w \<longleftrightarrow> LD_WORD w 510 = 0xAA55 \<and>
     (take 3 (drop 54 w) = [0x46, 0x41, 0x54] \<or>
      take 5 (drop 82 w) = [0x46, 0x41, 0x54, 0x33, 0x32] \<and> w ! 40 AND 0x80 = 0)"

text \<open>The boot record of a disk: sector 0, or the first sector of the first partition.\<close>

definition boot_record :: "dev \<Rightarrow> (DWORD \<times> buffer) option" where
  "boot_record d =
     (let w = sector_of d 0 in
      if fat_boot w then Some (0, w)
      else if LD_WORD w 510 = 0xAA55 \<and> w ! 450 \<noteq> 0
      then (let b = LD_DWORD w 454; w = sector_of d b in if fat_boot w then Some (b, w) else None)
      else None)"

text \<open>A sane parameter block: the areas lie one behind the other within the address range, the FAT has
  an entry for each cluster, clusters are a power of two sectors large.\<close>

definition bpb_meta :: "buffer \<Rightarrow> nat" where
  "bpb_meta w = unat (LD_WORD w 14) + unat (w ! 16) * unat (bpb_fatsize w) + unat (LD_WORD w 17) div 16"

definition bpb_clusters :: "buffer \<Rightarrow> nat" where
  "bpb_clusters w = (unat (bpb_total w) - bpb_meta w) div unat (w ! 13) + 2"

definition bpb_ok :: "DWORD \<Rightarrow> buffer \<Rightarrow> bool" where
  "bpb_ok boot w \<longleftrightarrow>
     (\<exists>i < 8. unat (w ! 13) = 2 ^ i) \<and> 1 \<le> unat (w ! 16) \<and> 0 < unat (bpb_fatsize w) \<and>
     0 < unat boot + unat (LD_WORD w 14) \<and> bpb_meta w \<le> unat (bpb_total w) \<and>
     unat boot + unat (bpb_total w) < 2 ^ 32 \<and> bpb_clusters w \<le> 0x0FFFFFF7 \<and>
     (if bpb_clusters w \<le> 0xFF7 then 3 * bpb_clusters w \<le> 1024 * unat (bpb_fatsize w)
      else if bpb_clusters w \<le> 0xFFF7 then 2 * bpb_clusters w \<le> 512 * unat (bpb_fatsize w)
      else 4 * bpb_clusters w \<le> 512 * unat (bpb_fatsize w))"

text \<open>The volume before the parameter block is read.\<close>

definition raw_vol :: "vol \<Rightarrow> buffer \<Rightarrow> bool" where
  "raw_vol v w \<longleftrightarrow> win v = w \<and> length w = 512 \<and> winsect v = 0 \<and> winflag v = 0 \<and> disk_healthy (drive v) (disk v)"

lemma check_fs_healthy:
  assumes "disk_healthy (drive v) (disk v)" "length (win v) = 512" "check_fs s v = (fmt, v')"
  shows "fmt = (if fat_boot (sector_of (disk v) s) then 0 else if LD_WORD (sector_of (disk v) s) 510 = 0xAA55 then 1 else 2) \<and>
    (\<exists>d. v' = v\<lparr>win := sector_of (disk v) s, disk := d\<rparr> \<and> sector_of d = sector_of (disk v) \<and> disk_healthy (drive v) d)"
proof -
  obtain q w d where rd: "disk_read (drive v) (win v) s 1 (disk v) = (q, w, d)" by (metis prod_cases3)
  then have r: "q = RES_OK" "disk_healthy (drive v) d" "sector_of d = sector_of (disk v)"
    using mmc.healthy_rd [OF assms(1) rd] mmc.rd_cont [OF rd] by blast+
  moreover from this have "w = sector_of (disk v) s" using mmc.rd_ok rd assms(2) by blast
  ultimately show ?thesis using assms(3) rd by (auto simp: check_fs_def Let_def fat_boot_def split: if_splits)
qed

lemma find_boot_healthy:
  assumes "disk_healthy (drive v) (disk v)" "length (win v) = 512" "find_boot v = (fmt, b, v')"
  shows "\<exists>w d. v' = v\<lparr>win := w, disk := d\<rparr> \<and> length w = 512 \<and> disk_healthy (drive v) d \<and>
    sector_of d = sector_of (disk v) \<and>
    (case boot_record (disk v) of None \<Rightarrow> fmt \<noteq> 0 | Some (c, w') \<Rightarrow> fmt = 0 \<and> b = c \<and> w = w')"
proof -
  let ?w = "sector_of (disk v) 0"
  obtain f1 v1 where c1: "check_fs 0 v = (f1, v1)" by fastforce
  from check_fs_healthy [OF assms(1,2) c1] obtain d1 where
    F1: "f1 = (if fat_boot ?w then 0 else if LD_WORD ?w 510 = 0xAA55 then 1 else 2)"
    and v1: "v1 = v\<lparr>win := ?w, disk := d1\<rparr>" and s1: "sector_of d1 = sector_of (disk v)"
    and h1: "disk_healthy (drive v) d1" by blast
  show ?thesis
  proof (cases "f1 = 1 \<and> ?w ! 450 \<noteq> 0")
    case False
    then have "fmt = f1" "b = 0" "v' = v1" using assms(3) c1 v1 by (auto simp: find_boot_def)
    moreover have "(case boot_record (disk v) of None \<Rightarrow> f1 \<noteq> 0 | Some (c, w') \<Rightarrow> f1 = 0 \<and> 0 = c \<and> ?w = w')"
      using F1 False by (auto simp: boot_record_def Let_def split: if_splits)
    ultimately show ?thesis using v1 s1 h1 length_sector_of [of "disk v" 0] by blast
  next
    case True
    let ?b = "LD_DWORD ?w 454"
    let ?w2 = "sector_of (disk v) ?b"
    obtain f2 v2 where c2: "check_fs ?b v1 = (f2, v2)" by fastforce
    have "length (win v1) = 512" "disk_healthy (drive v1) (disk v1)" using v1 h1 by simp_all
    from check_fs_healthy [OF this(2,1) c2] v1 s1 obtain d2 where
      F2: "f2 = (if fat_boot ?w2 then 0 else if LD_WORD ?w2 510 = 0xAA55 then 1 else 2)"
      and v2: "v2 = v1\<lparr>win := ?w2, disk := d2\<rparr>" and s2: "sector_of d2 = sector_of (disk v)"
      and h2: "disk_healthy (drive v) d2" by auto
    have "fmt = f2" "b = ?b" "v' = v2" using True assms(3) c1 c2 v1 by (auto simp: find_boot_def Let_def)
    moreover have "v2 = v\<lparr>win := ?w2, disk := d2\<rparr>" using v1 v2 by simp
    moreover have "(case boot_record (disk v) of None \<Rightarrow> f2 \<noteq> 0 | Some (c, w') \<Rightarrow> f2 = 0 \<and> ?b = c \<and> ?w2 = w')"
      using F1 F2 True by (auto simp: boot_record_def Let_def split: if_splits)
    ultimately show ?thesis using s2 h2 length_sector_of [of "disk v" ?b] by blast
  qed
qed

text \<open>The initialised volume.\<close>

lemma init_fs_ok:
  assumes b: "bpb_ok boot w" and r: "raw_vol v w"
  shows "\<exists>v'. init_fs boot i v = Some v' \<and> vol_ok v' \<and> data_ok v' \<and> fs_type v' \<noteq> 0 \<and> fs_id v' = i \<and>
    free_clust v' = 0xFFFFFFFF \<and> disk v' = disk v \<and> unat (max_clust v') = bpb_clusters w \<and>
    fs_type v' = (if bpb_clusters w \<le> 0xFF7 then FS_FAT12 else if bpb_clusters w \<le> 0xFFF7 then FS_FAT16 else FS_FAT32)"
proof -
  let ?rs = "unat (LD_WORD w 14)" and ?n = "unat (w ! 16)" and ?f = "unat (bpb_fatsize w)"
    and ?ro = "unat (LD_WORD w 17) div 16" and ?t = "unat (bpb_total w)" and ?c = "unat (w ! 13)"
  have meta: "bpb_meta w = ?rs + ?n * ?f + ?ro" by (simp add: bpb_meta_def)
  have lim: "unat boot + ?t < 2 ^ 32" "bpb_meta w \<le> ?t" using b by (auto simp: bpb_ok_def)
  obtain e where e: "e < 8" "?c = 2 ^ e" using b by (auto simp: bpb_ok_def)
  then have c0: "w ! 13 \<noteq> 0" by (metis power_not_zero unat_0 zero_neq_numeral)
  define fs where "fs = bpb_fatsize w * ucast (w ! 16)"
  have fs: "unat fs = ?n * ?f"
    using lim meta by (simp add: fs_def unat_word_ariths unat_widen mult.commute)
  define ro where "ro = (ucast (LD_WORD w 17 div 16) :: DWORD)"
  have ro: "unat ro = ?ro" by (simp add: ro_def unat_widen unat_div)
  define rs where "rs = (ucast (LD_WORD w 14) :: DWORD)"
  have rs: "unat rs = ?rs" by (simp add: rs_def unat_widen)
  have dat: "unat (bpb_total w - rs - fs - ro) = ?t - bpb_meta w"
  proof -
    have 1: "unat (bpb_total w - rs) = ?t - ?rs" using lim meta rs by (simp add: unat_sub word_le_nat_alt)
    then have 2: "unat (bpb_total w - rs - fs) = ?t - ?rs - ?n * ?f"
      using lim meta fs by (simp add: unat_sub word_le_nat_alt)
    then show ?thesis using lim meta ro by (simp add: unat_sub word_le_nat_alt)
  qed
  define q where "q = (bpb_total w - rs - fs - ro) div ucast (w ! 13)"
  have uq: "unat q = (?t - bpb_meta w) div ?c" by (simp add: q_def unat_div dat unat_widen)
  have mc: "unat (q + 2) = bpb_clusters w"
  proof -
    have "unat q + 2 = bpb_clusters w" using uq by (simp add: bpb_clusters_def)
    moreover have "bpb_clusters w \<le> 0x0FFFFFF7" using b by (simp add: bpb_ok_def)
    ultimately show ?thesis by (simp add: unat_word_ariths)
  qed
  define fmt where "fmt = (if q + 2 > 0xFFF7 then FS_FAT32 else if q + 2 > 0xFF7 then FS_FAT16 else FS_FAT12)"
  have fmt: "fmt = (if bpb_clusters w \<le> 0xFF7 then FS_FAT12 else if bpb_clusters w \<le> 0xFFF7 then FS_FAT16 else FS_FAT32)"
    unfolding fmt_def using mc by (simp add: word_less_nat_alt)
  define v' where "v' = v\<lparr>sects_fat := bpb_fatsize w, n_fats := w ! 16, fatbase := boot + rs,
      sects_clust := w ! 13, n_rootdir := LD_WORD w 17, max_clust := q + 2, fs_type := fmt,
      dirbase := (if fmt = FS_FAT32 then LD_DWORD w 44 else boot + rs + fs),
      database := boot + rs + fs + ro, free_clust := 0xFFFFFFFF, fs_id := i\<rparr>"
  have run: "init_fs boot i v = Some v'"
  proof -
    have "aeabi_uidiv (bpb_total w - rs - fs - ro) (ucast (w ! 13)) = Some q"
    proof -
      have "(ucast (w ! 13) :: DWORD) \<noteq> 0" using c0 by (metis unat_widen(1) unat_0 unat_eq_zero)
      then show ?thesis using udiv_loop [of "ucast (w ! 13)"] by (simp add: aeabi_uidiv_def q_def word_gt_0)
    qed
    then show ?thesis using r
      by (simp add: init_fs_def raw_vol_def Let_def v'_def fmt_def fs_def ro_def rs_def)
  qed
  have base: "unat (boot + rs) = unat boot + ?rs" using lim meta rs by (simp add: unat_word_ariths)
  then have dbase: "unat (boot + rs + fs + ro) = unat boot + bpb_meta w"
    using lim meta fs ro by (simp add: unat_word_ariths)
  have "fat_fits v'"
    using b fmt mc by (auto simp: fat_fits_def v'_def bpb_ok_def fs_type_defs split: if_splits)
  then have "geom_ok v'"
    using b lim meta base by (simp add: geom_ok_def v'_def bpb_ok_def)
  moreover have "win_ok v'" "disk_healthy (drive v') (disk v')"
    using r by (simp_all add: win_ok_def v'_def raw_vol_def)
  moreover have "data_ok v'"
  proof -
    have "(bpb_clusters w - 2) * ?c \<le> ?t - bpb_meta w" by (simp add: bpb_clusters_def)
    then have "unat boot + bpb_meta w + (bpb_clusters w - 2) * ?c < 2 ^ 32" using lim by linarith
    moreover have "2 \<le> q + 2" using mc by (simp add: word_le_nat_alt bpb_clusters_def)
    ultimately show ?thesis using e dbase base mc meta by (auto simp: data_ok_def v'_def)
  qed
  moreover have "fs_type v' \<noteq> 0" by (simp add: v'_def fmt fs_type_defs)
  ultimately show ?thesis using run mc fmt by (intro exI [of _ v']) (simp add: vol_ok_def v'_def)
qed

lemma init_fs_no_clusters:
  assumes "win v ! 13 = 0"
  shows "init_fs boot i v = None"
  using udiv_zero by (simp add: init_fs_def Let_def assms aeabi_uidiv_def)

lemma mount_volume_scan:
  assumes "disk_healthy 0 d"
  shows "\<exists>v. raw_vol v (win v) \<and> fs_id v = 0 \<and> sector_of (disk v) = sector_of d \<and>
    (case boot_record d of
       None \<Rightarrow> mount_volume 0 wp fid d = Some (FR_NO_FILESYSTEM, fid, v)
     | Some (b, w) \<Rightarrow> win v = w \<and> mount_volume 0 wp fid d =
         (if LD_WORD w 11 \<noteq> 512 then Some (FR_NO_FILESYSTEM, fid, v)
          else Option.bind (init_fs b (fid + 1) v) (\<lambda>v. Some (FR_OK, fid + 1, v))))"
proof -
  obtain st d1 where i: "disk_initialize 0 d = (st, d1)" by fastforce
  have I: "st = 0 \<and> sector_of d1 = sector_of d \<and> disk_healthy 0 d1"
    using i assms by (auto simp: disk_initialize_def card_init_def disk_healthy_def disk_consts split: if_splits)
  define v0 where "v0 = vol_of (zero_fs\<lparr>drive := 0\<rparr>) d1"
  have v0: "drive v0 = 0" "disk v0 = d1" "winsect v0 = 0" "winflag v0 = 0" "length (win v0) = 512" "fs_id v0 = 0"
    by (simp_all add: v0_def vol_of_def zero_fs_def FATFS.defs vol.defs)
  obtain fmt b v1 where f: "find_boot v0 = (fmt, b, v1)" by (metis prod_cases3)
  have h0: "disk_healthy (drive v0) (disk v0)" using v0 I by simp
  from find_boot_healthy [OF h0 v0(5) f] obtain w d2 where
    F: "v1 = v0\<lparr>win := w, disk := d2\<rparr>" "length w = 512" "disk_healthy 0 d2" "sector_of d2 = sector_of d"
    "case boot_record d1 of None \<Rightarrow> fmt \<noteq> 0 | Some (c, w') \<Rightarrow> fmt = 0 \<and> b = c \<and> w = w'"
    using v0 I by auto
  have br: "boot_record d1 = boot_record d" using I by (simp add: boot_record_def Let_def)
  have raw: "raw_vol v1 (win v1) \<and> fs_id v1 = 0" using F v0 by (simp add: raw_vol_def)
  have mv: "mount_volume 0 wp fid d =
      (if fmt \<noteq> 0 \<or> LD_WORD (win v1) 11 \<noteq> 512 then Some (FR_NO_FILESYSTEM, fid, v1)
       else Option.bind (init_fs b (fid + 1) v1) (\<lambda>v. Some (FR_OK, fid + 1, v)))"
    using i I f by (simp add: mount_volume_def v0_def [symmetric] Let_def)
  show ?thesis
    using raw F v0 br unfolding mv by (intro exI [of _ v1]) (auto split: option.splits)
qed

section \<open>The properties\<close>

text \<open>C6: mounting a disk whose boot record (in sector 0 or in the first partition) has a sane parameter
  block succeeds and yields a well-formed volume of the FAT type that belongs to the number of
  clusters, with a new mount number and an unknown count of free clusters.\<close>

theorem mount_wellformed:
  assumes "disk_healthy 0 d" "boot_record d = Some (b, w)" "LD_WORD w 11 = 512" "bpb_ok b w"
  shows "\<exists>v. mount_volume 0 wp fid d = Some (FR_OK, fid + 1, v) \<and> vol_ok v \<and> data_ok v \<and>
    fs_id v = fid + 1 \<and> free_clust v = 0xFFFFFFFF \<and> sector_of (disk v) = sector_of d \<and>
    unat (max_clust v) = bpb_clusters w \<and>
    fs_type v = (if bpb_clusters w \<le> 0xFF7 then FS_FAT12 else if bpb_clusters w \<le> 0xFFF7 then FS_FAT16 else FS_FAT32)"
proof -
  from mount_volume_scan [OF assms(1), of wp fid] obtain v where
    v: "raw_vol v (win v)" "sector_of (disk v) = sector_of d" "win v = w"
    "mount_volume 0 wp fid d = Option.bind (init_fs b (fid + 1) v) (\<lambda>v. Some (FR_OK, fid + 1, v))"
    using assms(2,3) by auto
  from init_fs_ok [OF assms(4), of v "fid + 1"] v show ?thesis by auto
qed

text \<open>A disk for the examples: FAT16-sized fields at sector 0, no partition table.\<close>

definition boot_blk :: "DWORD \<Rightarrow> nat \<Rightarrow> BYTE" where
  "boot_blk s i = (if s \<noteq> 0 then 0 else if i = 510 then 0x55 else if i = 511 then 0xAA
     else if i = 54 then 0x46 else if i = 55 then 0x41 else if i = 56 then 0x54
     else if i = 12 then 2 else if i = 13 then 1 else if i = 14 then 1 else if i = 16 then 2
     else if i = 17 then 16 else if i = 19 then 100 else if i = 22 then 1 else 0)"

definition boot_dev :: dev where
  "boot_dev = sample_dev\<lparr>blk := boot_blk\<rparr>"

lemma boot_dev_healthy: "disk_healthy 0 boot_dev"
  by (simp add: boot_dev_def sample_dev_def disk_healthy_def DRIVE_NUM_MMC_def)

lemma boot_sector_nth: "i < 512 \<Longrightarrow> sector_of (boot_dev\<lparr>blk := f\<rparr>) 0 ! i = f 0 i"
  by (simp add: sector_of_def)

lemma fat_boot_sector:
  assumes "\<And>i. i \<in> {54, 55, 56, 510, 511} \<Longrightarrow> f 0 i = boot_blk 0 i"
  shows "fat_boot (sector_of (boot_dev\<lparr>blk := f\<rparr>) 0)"
proof -
  have "take 3 (drop 54 (sector_of (boot_dev\<lparr>blk := f\<rparr>) 0)) = map (f 0) [54..<57]"
    by (simp add: sector_of_def drop_map take_map)
  also have "\<dots> = [0x46, 0x41, 0x54]" using assms by (simp add: boot_blk_def upt_conv_Cons)
  finally show ?thesis using assms by (simp add: fat_boot_def LD_WORD_def boot_sector_nth boot_blk_def)
qed

lemma boot_dev_record:
  "(\<And>i. i \<in> {54, 55, 56, 510, 511} \<Longrightarrow> f 0 i = boot_blk 0 i) \<Longrightarrow>
   boot_record (boot_dev\<lparr>blk := f\<rparr>) = Some (0, sector_of (boot_dev\<lparr>blk := f\<rparr>) 0)"
  using fat_boot_sector [of f] by (simp add: boot_record_def)

theorem mount_wellformed_witness:
  "\<exists>v. mount_volume 0 0 7 boot_dev = Some (FR_OK, 8, v) \<and> vol_ok v \<and> fs_type v = FS_FAT12"
proof -
  have e: "boot_dev\<lparr>blk := boot_blk\<rparr> = boot_dev" by (simp add: boot_dev_def)
  note N = boot_sector_nth [of _ boot_blk, unfolded e]
  have r: "boot_record boot_dev = Some (0, sector_of boot_dev 0)"
    using boot_dev_record [of boot_blk] unfolding e by simp
  have f: "LD_WORD (sector_of boot_dev 0) 11 = 512" "LD_WORD (sector_of boot_dev 0) 14 = 1"
    "LD_WORD (sector_of boot_dev 0) 17 = 16" "LD_WORD (sector_of boot_dev 0) 19 = 100"
    "LD_WORD (sector_of boot_dev 0) 22 = 1" "sector_of boot_dev 0 ! 13 = 1" "sector_of boot_dev 0 ! 16 = 2"
    by (simp_all add: LD_WORD_def N boot_blk_def)
  have "bpb_ok 0 (sector_of boot_dev 0)"
    unfolding bpb_ok_def bpb_clusters_def bpb_meta_def bpb_total_def bpb_fatsize_def
    by (simp add: f) (rule exI [of _ 0], simp)
  from mount_wellformed [OF boot_dev_healthy r f(1) this, of 0 7] show ?thesis
    by (auto simp: bpb_clusters_def bpb_meta_def bpb_total_def bpb_fatsize_def f)
qed

text \<open>C31: mounting a boot record that gives no sectors per cluster never returns, as the division routine
  of \<open>libc.c\<close> does not end for a divisor of zero.\<close>

theorem mount_zero_cluster_hangs:
  assumes "disk_healthy 0 d" "boot_record d = Some (b, w)" "LD_WORD w 11 = 512" "w ! 13 = 0"
  shows "mount_volume 0 wp fid d = None"
proof -
  from mount_volume_scan [OF assms(1), of wp fid] obtain v where
    v: "win v = w" "mount_volume 0 wp fid d = Option.bind (init_fs b (fid + 1) v) (\<lambda>v. Some (FR_OK, fid + 1, v))"
    using assms(2,3) by auto
  then show ?thesis using init_fs_no_clusters [of v] assms(4) by simp
qed

theorem mount_zero_cluster_hangs_witness:
  "mount_volume 0 0 7 (boot_dev\<lparr>blk := \<lambda>s i. if i = 13 then 0 else boot_blk s i\<rparr>) = None"
proof -
  let ?f = "\<lambda>s i. if i = 13 then 0 else boot_blk s i"
  let ?d = "boot_dev\<lparr>blk := ?f\<rparr>"
  have h: "disk_healthy 0 ?d" using boot_dev_healthy by (simp add: disk_healthy_def)
  have r: "boot_record ?d = Some (0, sector_of ?d 0)" by (rule boot_dev_record) auto
  have f: "LD_WORD (sector_of ?d 0) 11 = 512" "sector_of ?d 0 ! 13 = 0"
    by (simp_all add: LD_WORD_def boot_sector_nth boot_blk_def)
  show ?thesis by (rule mount_zero_cluster_hangs [OF h r f])
qed

end
