(* ===== verification/FfFile.thy ===== *)
theory FfFile
  imports FfMount
begin

unbundle bit_operations_syntax

text \<open>
  Files: \<^verbatim>\<open>f_open\<close>, \<^verbatim>\<open>f_read\<close>, \<^verbatim>\<open>f_write\<close>, \<^verbatim>\<open>f_sync\<close>, \<^verbatim>\<open>f_close\<close> and \<^verbatim>\<open>f_lseek\<close> of \<^verbatim>\<open>ff.c\<close>.  A file object
  \<^verbatim>\<open>FIL\<close> is the record \<open>FIL\<close>, passed in and returned; its pointer to the directory entry is an offset
  into the window.  The bytes a read stores in the caller's buffer are the list it returns, whose
  length is \<^verbatim>\<open>*br\<close>.  The loops may fail to end (a volume without sectors per cluster), so they are
  partial.
\<close>

section \<open>File objects\<close>

record FIL =
  f_id :: WORD
  f_flag :: BYTE
  f_sect_clust :: BYTE
  f_fs :: "nat option"
  f_fptr :: DWORD
  f_fsize :: DWORD
  f_org_clust :: DWORD
  f_curr_clust :: DWORD
  f_curr_sect :: DWORD
  f_dir_sect :: DWORD
  f_dir_ptr :: nat
  f_buffer :: buffer

definition FA_READ :: BYTE where "FA_READ = 0x01"
definition FA_WRITE :: BYTE where "FA_WRITE = 0x02"
definition FA_CREATE_NEW :: BYTE where "FA_CREATE_NEW = 0x04"
definition FA_CREATE_ALWAYS :: BYTE where "FA_CREATE_ALWAYS = 0x08"
definition FA_OPEN_ALWAYS :: BYTE where "FA_OPEN_ALWAYS = 0x10"
definition FA__WRITTEN :: BYTE where "FA__WRITTEN = 0x20"
definition FA__DIRTY :: BYTE where "FA__DIRTY = 0x40"
definition FA__ERROR :: BYTE where "FA__ERROR = 0x80"

lemmas fa_defs = FA_READ_def FA_WRITE_def FA_CREATE_NEW_def FA_CREATE_ALWAYS_def FA_OPEN_ALWAYS_def
  FA__WRITTEN_def FA__DIRTY_def FA__ERROR_def

definition flagged :: "FIL \<Rightarrow> BYTE \<Rightarrow> bool" where
  "flagged fp m \<longleftrightarrow> f_flag fp AND m \<noteq> 0"

definition set_flag :: "BYTE \<Rightarrow> FIL \<Rightarrow> FIL" where
  "set_flag m fp = fp\<lparr>f_flag := f_flag fp OR m\<rparr>"

definition clear_flag :: "BYTE \<Rightarrow> FIL \<Rightarrow> FIL" where
  "clear_flag m fp = fp\<lparr>f_flag := f_flag fp AND NOT m\<rparr>"

text \<open>The write-back of the file buffer, the same in four operations.\<close>

definition flush_file :: "FIL \<Rightarrow> vol \<Rightarrow> bool \<times> FIL \<times> vol" where
  "flush_file fp v =
     (if flagged fp FA__DIRTY
      then (case disk_write (drive v) (f_buffer fp) (f_curr_sect fp) 1 (disk v) of (r, d) \<Rightarrow>
              if r \<noteq> RES_OK then (False, fp, v\<lparr>disk := d\<rparr>)
              else (True, clear_flag FA__DIRTY fp, v\<lparr>disk := d\<rparr>))
      else (True, fp, v))"

section \<open>f\_read\<close>

text \<open>The sector behind a sector boundary; \<open>False\<close> is the jump to \<^verbatim>\<open>fr_error\<close>.\<close>

definition read_sector :: "FIL \<Rightarrow> vol \<Rightarrow> bool \<times> DWORD \<times> FIL \<times> vol" where
  "read_sector fp v =
     (let fp = fp\<lparr>f_sect_clust := f_sect_clust fp - 1\<rparr> in
      if f_sect_clust fp \<noteq> 0 then (True, f_curr_sect fp + 1, fp, v)
      else (case (if f_fptr fp = 0 then (f_org_clust fp, v) else get_cluster (f_curr_clust fp) v) of
              (clust, v) \<Rightarrow>
                if clust < 2 \<or> max_clust v \<le> clust then (False, 0, fp, v)
                else (True, clust2sect v clust, fp\<lparr>f_curr_clust := clust, f_sect_clust := sects_clust v\<rparr>, v)))"

definition copy_count :: "FIL \<Rightarrow> WORD \<Rightarrow> WORD" where
  "copy_count fp btr =
     (let rcnt = 512 - (ucast (f_fptr fp) AND 511) in if rcnt > btr then btr else rcnt)"

definition file_error :: "buffer \<Rightarrow> FIL \<Rightarrow> vol \<Rightarrow> FRESULT \<times> buffer \<times> FIL \<times> vol" where
  "file_error out fp v = (FR_RW_ERROR, out, set_flag FA__ERROR fp, v)"

text \<open>
  One round of the loop. At a sector boundary it prepares the sector: an error, whole sectors read
  straight into the caller's buffer (the bytes and their number), or the sector in the file buffer,
  from which the round then copies.
\<close>

datatype round = Round_error | Round_direct | Round_copy | Round_full

definition read_round :: "FIL \<Rightarrow> WORD \<Rightarrow> vol \<Rightarrow> round \<times> buffer \<times> WORD \<times> FIL \<times> vol" where
  "read_round fp btr v =
     (if f_fptr fp AND 511 \<noteq> 0 then (Round_copy, [], 0, fp, v)
      else (case read_sector fp v of (ok, sect, fp, v) \<Rightarrow>
        if \<not> ok then (Round_error, [], 0, fp, v)
        else (case flush_file fp v of (ok, fp, v) \<Rightarrow>
          if \<not> ok then (Round_error, [], 0, fp, v)
          else let fp = fp\<lparr>f_curr_sect := sect\<rparr>; cc = ucast (btr div 512) :: BYTE in
            if cc \<noteq> 0
            then let cc = (if cc > f_sect_clust fp then f_sect_clust fp else cc) in
                 (case disk_read (drive v) [] sect cc (disk v) of (r, data, d) \<Rightarrow>
                   if r \<noteq> RES_OK then (Round_error, [], 0, fp, v\<lparr>disk := d\<rparr>)
                   else (Round_direct, data, ucast cc * 512,
                         fp\<lparr>f_sect_clust := f_sect_clust fp - (cc - 1),
                            f_curr_sect := f_curr_sect fp + (ucast cc - 1)\<rparr>, v\<lparr>disk := d\<rparr>))
            else (case disk_read (drive v) (f_buffer fp) sect 1 (disk v) of (r, b, d) \<Rightarrow>
                   (if r \<noteq> RES_OK then Round_error else Round_copy, [], 0, fp\<lparr>f_buffer := b\<rparr>, v\<lparr>disk := d\<rparr>)))))"

partial_function (option) read_loop :: "FIL \<Rightarrow> WORD \<Rightarrow> buffer \<Rightarrow> vol \<Rightarrow> (FRESULT \<times> buffer \<times> FIL \<times> vol) option" where
  "read_loop fp btr out v =
     (if btr = 0 then Some (FR_OK, out, fp, v)
      else (case read_round fp btr v of (k, data, rcnt, fp, v) \<Rightarrow>
        if k = Round_error then Some (file_error out fp v)
        else if k = Round_direct
        then read_loop (fp\<lparr>f_fptr := f_fptr fp + ucast rcnt\<rparr>) (btr - rcnt) (out @ data) v
        else let rcnt = copy_count fp btr;
                 part = take (unat rcnt) (drop (unat (f_fptr fp AND 511)) (f_buffer fp))
             in read_loop (fp\<lparr>f_fptr := f_fptr fp + ucast rcnt\<rparr>) (btr - rcnt) (out @ part) v))"

text \<open>The checks at the head of \<^verbatim>\<open>f_read\<close> and \<^verbatim>\<open>f_write\<close>.\<close>

definition file_check :: "FIL \<Rightarrow> BYTE \<Rightarrow> fsys \<Rightarrow> FRESULT" where
  "file_check fp access s =
     (let res = validate (f_fs fp) (f_id fp) s in
      if res \<noteq> FR_OK then res
      else if flagged fp FA__ERROR then FR_RW_ERROR
      else if \<not> flagged fp access then FR_DENIED
      else FR_OK)"

definition read_vol :: "FIL \<Rightarrow> WORD \<Rightarrow> vol \<Rightarrow> (FRESULT \<times> buffer \<times> FIL \<times> vol) option" where
  "read_vol fp btr v =
     (let remain = f_fsize fp - f_fptr fp;
          btr = (if ucast btr > remain then ucast remain else btr)
      in read_loop fp btr [] v)"

definition f_read :: "FIL \<Rightarrow> WORD \<Rightarrow> fsys \<Rightarrow> (FRESULT \<times> buffer \<times> FIL \<times> fsys) option" where
  "f_read fp btr s =
     (let res = file_check fp FA_READ s; a = the (f_fs fp) in
      if res \<noteq> FR_OK then Some (res, [], fp, s)
      else Option.bind (read_vol fp btr (get_vol a s)) (\<lambda>(res, out, fp, v).
             Some (res, out, fp, put_vol a v s)))"

section \<open>f\_write\<close>

datatype wstat = W_ok | W_full | W_error

definition write_cluster :: "FIL \<Rightarrow> vol \<Rightarrow> (DWORD \<times> FIL \<times> vol) option" where
  "write_cluster fp v =
     (if f_fptr fp = 0
      then (if f_org_clust fp = 0
            then Option.bind (create_chain 0 v) (\<lambda>(clust, v). Some (clust, fp\<lparr>f_org_clust := clust\<rparr>, v))
            else Some (f_org_clust fp, fp, v))
      else Option.bind (create_chain (f_curr_clust fp) v) (\<lambda>(clust, v). Some (clust, fp, v)))"

definition write_sector :: "FIL \<Rightarrow> vol \<Rightarrow> (wstat \<times> DWORD \<times> FIL \<times> vol) option" where
  "write_sector fp v =
     (let fp = fp\<lparr>f_sect_clust := f_sect_clust fp - 1\<rparr> in
      if f_sect_clust fp \<noteq> 0 then Some (W_ok, f_curr_sect fp + 1, fp, v)
      else Option.bind (write_cluster fp v) (\<lambda>(clust, fp, v).
             if clust = 0 then Some (W_full, 0, fp, v)
             else if clust = 1 \<or> max_clust v \<le> clust then Some (W_error, 0, fp, v)
             else Some (W_ok, clust2sect v clust,
                        fp\<lparr>f_curr_clust := clust, f_sect_clust := sects_clust v\<rparr>, v)))"

definition write_done :: "WORD \<Rightarrow> FIL \<Rightarrow> vol \<Rightarrow> FRESULT \<times> WORD \<times> FIL \<times> vol" where
  "write_done bw fp v =
     (FR_OK, bw, set_flag FA__WRITTEN (if f_fptr fp > f_fsize fp then fp\<lparr>f_fsize := f_fptr fp\<rparr> else fp), v)"

definition write_error :: "WORD \<Rightarrow> FIL \<Rightarrow> vol \<Rightarrow> FRESULT \<times> WORD \<times> FIL \<times> vol" where
  "write_error bw fp v = (FR_RW_ERROR, bw, set_flag FA__ERROR fp, v)"

definition write_round :: "FIL \<Rightarrow> buffer \<Rightarrow> WORD \<Rightarrow> vol \<Rightarrow> (round \<times> WORD \<times> FIL \<times> vol) option" where
  "write_round fp wbuff btw v =
     (if f_fptr fp AND 511 \<noteq> 0 then Some (Round_copy, 0, fp, v)
      else Option.bind (write_sector fp v) (\<lambda>(st, sect, fp, v).
        if st = W_full then Some (Round_full, 0, fp, v)
        else if st = W_error then Some (Round_error, 0, fp, v)
        else (case flush_file fp v of (ok, fp, v) \<Rightarrow>
          if \<not> ok then Some (Round_error, 0, fp, v)
          else let fp = fp\<lparr>f_curr_sect := sect\<rparr>; cc = ucast (btw div 512) :: BYTE in
            if cc \<noteq> 0
            then let cc = (if cc > f_sect_clust fp then f_sect_clust fp else cc) in
                 (case disk_write (drive v) wbuff sect cc (disk v) of (r, d) \<Rightarrow>
                   if r \<noteq> RES_OK then Some (Round_error, 0, fp, v\<lparr>disk := d\<rparr>)
                   else Some (Round_direct, ucast cc * 512,
                              fp\<lparr>f_sect_clust := f_sect_clust fp - (cc - 1),
                                 f_curr_sect := f_curr_sect fp + (ucast cc - 1)\<rparr>, v\<lparr>disk := d\<rparr>))
            else if f_fptr fp < f_fsize fp
            then (case disk_read (drive v) (f_buffer fp) sect 1 (disk v) of (r, b, d) \<Rightarrow>
                   Some (if r \<noteq> RES_OK then Round_error else Round_copy, 0, fp\<lparr>f_buffer := b\<rparr>, v\<lparr>disk := d\<rparr>))
            else Some (Round_copy, 0, fp, v))))"

partial_function (option) write_loop ::
  "FIL \<Rightarrow> buffer \<Rightarrow> WORD \<Rightarrow> WORD \<Rightarrow> vol \<Rightarrow> (FRESULT \<times> WORD \<times> FIL \<times> vol) option" where
  "write_loop fp wbuff btw bw v =
     (if btw = 0 then Some (write_done bw fp v)
      else Option.bind (write_round fp wbuff btw v) (\<lambda>(k, wcnt, fp, v).
        if k = Round_full then Some (write_done bw fp v)
        else if k = Round_error then Some (write_error bw fp v)
        else if k = Round_direct
        then write_loop (fp\<lparr>f_fptr := f_fptr fp + ucast wcnt\<rparr>) (drop (unat wcnt) wbuff) (btw - wcnt) (bw + wcnt) v
        else let wcnt = copy_count fp btw;
                 b = splice (unat (f_fptr fp AND 511)) (take (unat wcnt) wbuff) (f_buffer fp)
             in write_loop (set_flag FA__DIRTY (fp\<lparr>f_buffer := b, f_fptr := f_fptr fp + ucast wcnt\<rparr>))
                  (drop (unat wcnt) wbuff) (btw - wcnt) (bw + wcnt) v))"

definition f_write :: "FIL \<Rightarrow> buffer \<Rightarrow> WORD \<Rightarrow> fsys \<Rightarrow> (FRESULT \<times> WORD \<times> FIL \<times> fsys) option" where
  "f_write fp buff btw s =
     (let res = file_check fp FA_WRITE s; a = the (f_fs fp) in
      if res \<noteq> FR_OK then Some (res, 0, fp, s)
      else if f_fsize fp + ucast btw < f_fsize fp then Some (FR_OK, 0, fp, s)
      else Option.bind (write_loop fp buff btw 0 (get_vol a s)) (\<lambda>(res, bw, fp, v).
             Some (res, bw, fp, put_vol a v s)))"

section \<open>f\_sync and f\_close\<close>

definition sync_entry :: "FIL \<Rightarrow> DWORD \<Rightarrow> buffer \<Rightarrow> buffer" where
  "sync_entry fp tim w =
     (let dir = f_dir_ptr fp;
          w = w[dir + 11 := w ! (dir + 11) OR 0x20];
          w = ST_DWORD (dir + 28) (f_fsize fp) w;
          w = ST_WORD (dir + 26) (ucast (f_org_clust fp)) w;
          w = ST_WORD (dir + 20) (ucast (drop_bit 16 (f_org_clust fp))) w
      in ST_DWORD (dir + 22) tim w)"

definition sync_vol :: "FIL \<Rightarrow> vol \<Rightarrow> FRESULT \<times> FIL \<times> vol" where
  "sync_vol fp v =
     (if flagged fp FA__WRITTEN
      then (case flush_file fp v of (ok, fp, v) \<Rightarrow>
              if \<not> ok then (FR_RW_ERROR, fp, v)
              else (case move_window (f_dir_sect fp) v of (ok, v) \<Rightarrow>
                      if \<not> ok then (FR_RW_ERROR, fp, v)
                      else let v = v\<lparr>win := sync_entry fp (get_fattime (clock (disk v))) (win v)\<rparr>
                           in case sync v of (res, v) \<Rightarrow> (res, clear_flag FA__WRITTEN fp, v)))
      else (FR_OK, fp, v))"

definition f_sync :: "FIL \<Rightarrow> fsys \<Rightarrow> FRESULT \<times> FIL \<times> fsys" where
  "f_sync fp s =
     (let res = validate (f_fs fp) (f_id fp) s; a = the (f_fs fp) in
      if res \<noteq> FR_OK then (res, fp, s)
      else (case sync_vol fp (get_vol a s) of (res, fp, v) \<Rightarrow> (res, fp, put_vol a v s)))"

definition f_close :: "FIL \<Rightarrow> fsys \<Rightarrow> FRESULT \<times> FIL \<times> fsys" where
  "f_close fp s =
     (case f_sync fp s of (res, fp, s) \<Rightarrow> (res, if res = FR_OK then fp\<lparr>f_fs := None\<rparr> else fp, s))"

section \<open>f\_lseek\<close>

text \<open>The loop over the leading clusters; \<open>False\<close> is the jump to \<^verbatim>\<open>fk_error\<close>.\<close>

partial_function (option) seek_loop :: "DWORD \<Rightarrow> DWORD \<Rightarrow> FIL \<Rightarrow> vol \<Rightarrow> (bool \<times> DWORD \<times> DWORD \<times> FIL \<times> vol) option" where
  "seek_loop ofs clust fp v =
     (let csize = ucast (sects_clust v) * 512; fp = fp\<lparr>f_curr_clust := clust\<rparr> in
      if ofs \<le> csize then Some (True, ofs, clust, fp, v)
      else Option.bind (if flagged fp FA_WRITE then create_chain clust v else Some (get_cluster clust v))
        (\<lambda>(clust, v).
           if clust = 0 then Some (True, csize, clust, fp, v)
           else if clust = 1 \<or> max_clust v \<le> clust then Some (False, ofs, clust, fp, v)
           else seek_loop (ofs - csize) clust (fp\<lparr>f_fptr := f_fptr fp + csize\<rparr>) v))"

definition seek_finish :: "FIL \<Rightarrow> vol \<Rightarrow> FRESULT \<times> FIL \<times> vol" where
  "seek_finish fp v =
     (FR_OK, if flagged fp FA_WRITE \<and> f_fptr fp > f_fsize fp
             then set_flag FA__WRITTEN (fp\<lparr>f_fsize := f_fptr fp\<rparr>) else fp, v)"

definition seek_error :: "FIL \<Rightarrow> vol \<Rightarrow> FRESULT \<times> FIL \<times> vol" where
  "seek_error fp v = (FR_RW_ERROR, set_flag FA__ERROR fp, v)"

definition seek_clusters :: "DWORD \<Rightarrow> DWORD \<Rightarrow> FIL \<Rightarrow> vol \<Rightarrow> (FRESULT \<times> FIL \<times> vol) option" where
  "seek_clusters ofs clust fp v =
     Option.bind (seek_loop ofs clust fp v) (\<lambda>(ok, ofs, clust, fp, v).
       if \<not> ok then Some (seek_error fp v)
       else let csect = ucast ((ofs - 1) div 512) :: BYTE;
                fp = fp\<lparr>f_curr_sect := clust2sect v clust + ucast csect\<rparr>;
                fin = (\<lambda>fp v. Some (seek_finish (fp\<lparr>f_sect_clust := sects_clust v - csect,
                                       f_fptr := f_fptr fp + ofs\<rparr>) v))
            in if ofs AND 511 \<noteq> 0
               then (case disk_read (drive v) (f_buffer fp) (f_curr_sect fp) 1 (disk v) of (r, b, d) \<Rightarrow>
                       let fp = fp\<lparr>f_buffer := b\<rparr>; v = v\<lparr>disk := d\<rparr> in
                       if r \<noteq> RES_OK then Some (seek_error fp v) else fin fp v)
               else fin fp v)"

definition seek_vol :: "FIL \<Rightarrow> DWORD \<Rightarrow> vol \<Rightarrow> (FRESULT \<times> FIL \<times> vol) option" where
  "seek_vol fp ofs v =
     (case flush_file fp v of (ok, fp, v) \<Rightarrow>
        if \<not> ok then Some (seek_error fp v)
        else let ofs = (if ofs > f_fsize fp \<and> \<not> flagged fp FA_WRITE then f_fsize fp else ofs);
                 fp = fp\<lparr>f_fptr := 0, f_sect_clust := 1\<rparr> in
             if ofs = 0 then Some (seek_finish fp v)
             else if f_org_clust fp = 0
             then Option.bind (create_chain 0 v) (\<lambda>(clust, v).
                    if clust = 1 then Some (seek_error fp v)
                    else let fp = fp\<lparr>f_org_clust := clust\<rparr> in
                         if clust = 0 then Some (seek_finish fp v) else seek_clusters ofs clust fp v)
             else seek_clusters ofs (f_org_clust fp) fp v)"

definition f_lseek :: "FIL \<Rightarrow> DWORD \<Rightarrow> fsys \<Rightarrow> (FRESULT \<times> FIL \<times> fsys) option" where
  "f_lseek fp ofs s =
     (let res = validate (f_fs fp) (f_id fp) s; a = the (f_fs fp) in
      if res \<noteq> FR_OK then Some (res, fp, s)
      else if flagged fp FA__ERROR then Some (FR_RW_ERROR, fp, s)
      else Option.bind (seek_vol fp ofs (get_vol a s)) (\<lambda>(res, fp, v). Some (res, fp, put_vol a v s)))"

end
