(* ===== verification/FfRead.thy ===== *)
theory FfRead
  imports FfFile
begin

unbundle bit_operations_syntax

text \<open>
  Correctness of \<^verbatim>\<open>f_read\<close>.  The content of a file is the sequence of the bytes of the sectors of its
  cluster chain.  \<open>file_inv\<close> relates the fields of a file object to a position in that sequence; a
  read keeps it and returns the bytes between the old and the new position.
\<close>

section \<open>The content of a file\<close>

abbreviation spc :: "vol \<Rightarrow> nat" where
  "spc v \<equiv> unat (sects_clust v)"

definition file_sect :: "vol \<Rightarrow> DWORD list \<Rightarrow> nat \<Rightarrow> DWORD" where
  "file_sect v xs q = clust2sect v (xs ! (q div spc v)) + of_nat (q mod spc v)"

definition file_byte :: "vol \<Rightarrow> DWORD list \<Rightarrow> nat \<Rightarrow> BYTE" where
  "file_byte v xs k = eff v (file_sect v xs (k div 512)) ! (k mod 512)"

definition file_bytes :: "vol \<Rightarrow> DWORD list \<Rightarrow> nat \<Rightarrow> nat \<Rightarrow> buffer" where
  "file_bytes v xs a n = map (file_byte v xs) [a..<a + n]"

text \<open>The data area is on the disk as the file system sees it: no dirty data sector is in the window.\<close>

definition data_clean :: "vol \<Rightarrow> bool" where
  "data_clean v \<longleftrightarrow> (\<forall>t. database v \<le> t \<longrightarrow> sector_of (disk v) t = eff v t)"

definition file_inv :: "vol \<Rightarrow> DWORD list \<Rightarrow> FIL \<Rightarrow> bool" where
  "file_inv v xs fp \<longleftrightarrow>
     chain (fat_entry v) (max_clust v) (f_org_clust fp) xs \<and>
     unat (f_fptr fp) \<le> unat (f_fsize fp) \<and> unat (f_fsize fp) \<le> 512 * (spc v * length xs) \<and>
     \<not> flagged fp FA__DIRTY \<and> length (f_buffer fp) = 512 \<and>
     (if f_fptr fp = 0 then f_sect_clust fp = 1
      else let q = (unat (f_fptr fp) - 1) div 512 in
           f_curr_clust fp = xs ! (q div spc v) \<and> f_curr_sect fp = file_sect v xs q \<and>
           unat (f_sect_clust fp) = spc v - q mod spc v \<and>
           (unat (f_fptr fp) mod 512 \<noteq> 0 \<longrightarrow> f_buffer fp = eff v (file_sect v xs q)))"

lemma file_bytes_append: "file_bytes v xs a m @ file_bytes v xs (a + m) n = file_bytes v xs a (m + n)"
proof -
  have "[a..<a + m + n] = [a..<a + m] @ [a + m..<a + m + n]" by (rule upt_add_eq_append) simp
  then show ?thesis by (simp add: file_bytes_def add.assoc)
qed

lemma file_bytes_sector:
  assumes "vol_ok v" "a mod 512 + n \<le> 512"
  shows "file_bytes v xs a n = take n (drop (a mod 512) (eff v (file_sect v xs (a div 512))))"
proof (rule nth_equalityI)
  show "length (file_bytes v xs a n) = length (take n (drop (a mod 512) (eff v (file_sect v xs (a div 512)))))"
    using assms length_eff [OF assms(1)] by (simp add: file_bytes_def)
next
  fix i assume "i < length (file_bytes v xs a n)"
  then have i: "i < n" by (simp add: file_bytes_def)
  have "a + i = 512 * (a div 512) + (a mod 512 + i)" by simp
  then have "(a + i) div 512 = a div 512 \<and> (a + i) mod 512 = a mod 512 + i"
    using i assms(2) by (intro div_mod_512) auto
  then show "file_bytes v xs a n ! i = take n (drop (a mod 512) (eff v (file_sect v xs (a div 512)))) ! i"
    using i assms(2) length_eff [OF assms(1)] by (simp add: file_bytes_def file_byte_def)
qed

lemma file_bytes_sectors:
  assumes "vol_ok v"
  shows "file_bytes v xs (512 * q) (512 * n) = concat (map (\<lambda>k. eff v (file_sect v xs (q + k))) [0..<n])"
proof (induction n)
  case (Suc n)
  have "file_bytes v xs (512 * q) (512 * Suc n) =
    file_bytes v xs (512 * q) (512 * n) @ file_bytes v xs (512 * q + 512 * n) 512"
    using file_bytes_append [of v xs "512 * q" "512 * n" 512] by (simp add: add.commute)
  also have "file_bytes v xs (512 * q + 512 * n) 512 = eff v (file_sect v xs (q + n))"
    using file_bytes_sector [OF assms, of "512 * (q + n)" 512 xs] length_eff [OF assms]
    by (simp add: algebra_simps)
  finally show ?case using Suc by simp
qed (simp add: file_bytes_def)

section \<open>Steps that keep the content\<close>

text \<open>A step that only moves the window: the view is kept and the data area stays clean.\<close>

definition read_frame :: "vol \<Rightarrow> vol \<Rightarrow> bool" where
  "read_frame v v' \<longleftrightarrow> same_view v v' \<and> data_clean v'"

lemma flush_window_clean: "flush_window v = (True, u) \<Longrightarrow> winflag u = 0"
  by (auto simp: flush_window_def split: if_splits prod.splits)

lemma move_window_clean: "move_window s v = (True, v') \<Longrightarrow> v' = v \<or> winflag v' = 0"
  by (auto simp: move_window_def load_window_def dest: flush_window_clean split: prod.splits if_splits)

lemma get_cluster_clean:
  assumes "get_cluster c v = (x, v')" "x \<noteq> 1"
  shows "v' = v \<or> winflag v' = 0"
proof -
  obtain r1 v1 where m1: "move_window (fatbase v + ucast (fat12_bc c div 512)) v = (r1, v1)" by fastforce
  obtain r2 v2 where m2: "move_window (fatbase v1 + ucast ((fat12_bc c + 1) div 512)) v1 = (r2, v2)" by fastforce
  obtain r3 v3 where m3: "move_window (fatbase v + c div 256) v = (r3, v3)" by fastforce
  obtain r4 v4 where m4: "move_window (fatbase v + c div 128) v = (r4, v4)" by fastforce
  have C: "r1 \<Longrightarrow> v1 = v \<or> winflag v1 = 0" "r2 \<Longrightarrow> v2 = v1 \<or> winflag v2 = 0"
    "r3 \<Longrightarrow> v3 = v \<or> winflag v3 = 0" "r4 \<Longrightarrow> v4 = v \<or> winflag v4 = 0"
    using move_window_clean m1 m2 m3 m4 by auto
  from assms show ?thesis
    using C by (auto simp: get_cluster_def Let_def m1 m2 m3 m4 split: if_splits)
qed

lemma clean_winflag: "vol_ok v \<Longrightarrow> winflag v = 0 \<Longrightarrow> 0 < database v \<Longrightarrow> data_clean v"
  by (auto simp: data_clean_def eff_def vol_ok_def win_ok_def word_gt_0 split: if_splits)

lemma get_cluster_frame:
  assumes "vol_ok v" "data_ok v" "data_clean v" "get_cluster c v = (x, v')" "x \<noteq> 1"
  shows "x = fat_next v c \<and> read_frame v v'"
proof -
  have sv: "x = fat_next v c" "same_view v v'" using get_fat_next [OF assms(1,4)] by simp_all
  have "data_clean v'"
  proof (cases "v' = v")
    case False
    then have "winflag v' = 0" using get_cluster_clean [OF assms(4,5)] by simp
    moreover have "vol_ok v'" "geom v' = geom v" using sv(2) by (simp_all add: same_view_def)
    moreover have "0 < database v'"
    proof -
      have "0 < unat (database v)"
        using assms(1,2) by (auto simp: vol_ok_def geom_ok_def data_ok_def)
      then show ?thesis using geom_eqD [OF \<open>geom v' = geom v\<close>] by (simp add: word_less_nat_alt)
    qed
    ultimately show ?thesis using clean_winflag by blast
  qed (use assms(3) in simp)
  then show ?thesis using sv by (simp add: read_frame_def)
qed

text \<open>What a frame step keeps.\<close>

lemma data_sector_view:
  assumes "vol_ok v" "data_ok v" "same_view v v'" "database v \<le> t"
  shows "eff v' t = eff v t"
proof -
  have "0 < unat (database v)" using assms(1,2) by (auto simp: vol_ok_def geom_ok_def data_ok_def)
  then have "t \<noteq> 0" using assms(4) by (auto simp: word_le_nat_alt)
  moreover have "\<not> backup v t" using assms(2,4) by (auto simp: backup_def data_ok_def word_le_nat_alt)
  ultimately show ?thesis using assms(3) by (simp add: same_view_def)
qed

lemma file_sect_data:
  assumes "data_ok v" "chain (fat_entry v) (max_clust v) c xs" "q < spc v * length xs"
  shows "database v \<le> file_sect v xs q"
proof -
  have S: "0 < spc v" using assms(1) by (auto simp: data_ok_def)
  have j: "q div spc v < length xs" using assms(3) S by (simp add: less_mult_imp_div_less mult.commute)
  note C = chain_nth [OF assms(2) j]
  have "q mod spc v < spc v" using S by simp
  from clust_sect(1) [OF assms(1) _ _ this] C show ?thesis by (simp add: file_sect_def word_le_nat_alt)
qed

lemma file_sect_cong: "geom v' = geom v \<Longrightarrow> file_sect v' xs q = file_sect v xs q"
  using geom_eqD [of v' v] clust2sect_cong [of v' v] by (simp add: file_sect_def)

lemma file_byte_frame:
  assumes "vol_ok v" "data_ok v" "same_view v v'" "chain (fat_entry v) (max_clust v) c xs"
    "k < 512 * (spc v * length xs)"
  shows "file_byte v' xs k = file_byte v xs k"
proof -
  have q: "k div 512 < spc v * length xs" using assms(5) by (simp add: less_mult_imp_div_less mult.commute)
  have g: "geom v' = geom v" using assms(3) by (simp add: same_view_def)
  show ?thesis
    using data_sector_view [OF assms(1,2,3) file_sect_data [OF assms(2,4) q]] file_sect_cong [OF g]
    by (simp add: file_byte_def)
qed

lemma file_bytes_frame:
  assumes "vol_ok v" "data_ok v" "same_view v v'" "chain (fat_entry v) (max_clust v) c xs"
    "a + n \<le> 512 * (spc v * length xs)"
  shows "file_bytes v' xs a n = file_bytes v xs a n"
  using file_byte_frame [OF assms(1-4)] assms(5) by (simp add: file_bytes_def)

lemma chain_frame_view:
  assumes "vol_ok v" "same_view v v'" "chain (fat_entry v) (max_clust v) c xs"
  shows "chain (fat_entry v') (max_clust v') c xs"
proof -
  have m: "max_clust v' = max_clust v" using assms(2) geom_eqD [of v' v] by (simp add: same_view_def)
  show ?thesis unfolding m
  proof (rule chain_cong [OF assms(3)])
    fix x assume "x \<in> set xs"
    from chain_bounds [OF assms(3) this] show "fat_entry v' (unat x) = fat_entry v (unat x)"
      using fat_entry_same_view [OF assms(1,2)] by (simp add: word_less_nat_alt)
  qed
qed

lemma data_ok_cong: "geom v' = geom v \<Longrightarrow> data_ok v' = data_ok v"
  using geom_eqD [of v' v] by (simp add: data_ok_def)

section \<open>One round of a read\<close>

lemma spc_bounds: "data_ok v \<Longrightarrow> 1 \<le> spc v \<and> spc v \<le> 128"
proof -
  assume "data_ok v"
  then obtain i where i: "i < 8" "spc v = 2 ^ i" by (auto simp: data_ok_def)
  then have "(2 :: nat) ^ i \<le> 2 ^ 7" by (intro power_increasing) auto
  with i show ?thesis by simp
qed

text \<open>The position of the sector before and after a sector boundary.\<close>

lemma read_sector_ok:
  assumes ok: "vol_ok v" "data_ok v" "data_clean v" and inv: "file_inv v xs fp"
    and at: "unat (f_fptr fp) = 512 * q" "q < spc v * length xs"
  shows "\<exists>v'. read_sector fp v = (True, file_sect v xs q,
      fp\<lparr>f_curr_clust := xs ! (q div spc v), f_sect_clust := of_nat (spc v - q mod spc v)\<rparr>, v') \<and> read_frame v v'"
proof -
  let ?S = "spc v"
  have S: "1 \<le> ?S" "?S \<le> 128" using spc_bounds [OF ok(2)] by simp_all
  have ch: "chain (fat_entry v) (max_clust v) (f_org_clust fp) xs" using inv by (simp add: file_inv_def)
  have refl: "read_frame v v" using ok by (simp add: read_frame_def same_view_refl)
  have j: "q div ?S < length xs" using at(2) S by (simp add: less_mult_imp_div_less mult.commute)
  note C = chain_nth [OF ch j]
  have Sw: "of_nat ?S = sects_clust v" by simp
  show ?thesis
  proof (cases "q = 0")
    case True
    then have z: "f_fptr fp = 0" using at(1) by (simp add: unat_eq_zero)
    have "xs \<noteq> []" using j by auto
    then have x0: "xs ! 0 = f_org_clust fp" using ch by (cases xs) auto
    have sc: "f_sect_clust fp = 1" using inv z by (simp add: file_inv_def)
    have "\<not> (f_org_clust fp < 2 \<or> max_clust v \<le> f_org_clust fp)" using C True x0 by (simp add: not_less not_le)
    then have "read_sector fp v = (True, clust2sect v (f_org_clust fp),
        fp\<lparr>f_curr_clust := f_org_clust fp, f_sect_clust := sects_clust v\<rparr>, v)"
      by (simp add: read_sector_def sc z Let_def)
    then show ?thesis using refl True x0 Sw by (simp add: file_sect_def)
  next
    case False
    define p where "p = q - 1"
    have q: "q = Suc p" using False by (simp add: p_def)
    have fz: "f_fptr fp \<noteq> 0" using at(1) False by (auto simp: unat_eq_zero)
    have pdiv: "(unat (f_fptr fp) - 1) div 512 = p" using at(1) q by simp
    have I: "f_curr_clust fp = xs ! (p div ?S)" "f_curr_sect fp = file_sect v xs p"
      "unat (f_sect_clust fp) = ?S - p mod ?S"
      using inv fz pdiv by (auto simp: file_inv_def Let_def)
    have pm: "p mod ?S < ?S" using S by simp
    have one: "unat (f_sect_clust fp - 1) = ?S - p mod ?S - 1"
      using I(3) pm by (simp add: unat_sub word_le_nat_alt)
    show ?thesis
    proof (cases "q mod ?S = 0")
      case False
      then have d: "q div ?S = p div ?S" "q mod ?S = Suc (p mod ?S)"
        unfolding q by (auto simp: div_Suc mod_Suc split: if_splits)
      have "q mod ?S < ?S" using S by simp
      then have "unat (f_sect_clust fp - 1) \<noteq> 0" using one d by simp
      then have nz: "f_sect_clust fp - 1 \<noteq> 0" by (metis unat_0)
      have sc: "f_sect_clust fp - 1 = of_nat (?S - q mod ?S)"
        using one d S by (intro unsigned_word_eqI [where ?'a = nat]) (simp add: unat_of_nat)
      have "f_curr_sect fp + 1 = file_sect v xs q" using I(2) d by (simp add: file_sect_def algebra_simps)
      then have "read_sector fp v = (True, file_sect v xs q, fp\<lparr>f_sect_clust := f_sect_clust fp - 1\<rparr>, v)"
        using nz by (simp add: read_sector_def Let_def)
      moreover have "fp\<lparr>f_sect_clust := f_sect_clust fp - 1\<rparr> =
          fp\<lparr>f_curr_clust := xs ! (q div ?S), f_sect_clust := of_nat (?S - q mod ?S)\<rparr>"
        using I(1) d sc by simp
      ultimately show ?thesis using refl by auto
    next
      case True
      then have d: "q div ?S = Suc (p div ?S)" "p mod ?S = ?S - 1"
        unfolding q using S by (auto simp: div_Suc mod_Suc split: if_splits)
      have z: "f_sect_clust fp - 1 = 0" using one d S by (simp add: unat_eq_zero [symmetric])
      obtain x v' where g: "get_cluster (f_curr_clust fp) v = (x, v')" by fastforce
      have jp: "p div ?S < length xs" using j d by simp
      note P = chain_nth [OF ch jp]
      have nx: "fat_next v (f_curr_clust fp) = xs ! (q div ?S)"
        using P I(1) d j by (auto simp: fat_next_def)
      have "x = xs ! (q div ?S)" using get_fat_next [OF ok(1) g] nx by simp
      moreover from this have "x \<noteq> 1" using C by (auto simp: word_le_nat_alt)
      ultimately have F: "read_frame v v'" using get_cluster_frame [OF ok g] by simp
      then have k: "max_clust v' = max_clust v" "sects_clust v' = sects_clust v" "clust2sect v' x = clust2sect v x"
        using geom_eqD [of v' v] clust2sect_cong [of v' v] by (simp_all add: read_frame_def same_view_def)
      have "\<not> (x < 2 \<or> max_clust v \<le> x)" using C \<open>x = xs ! (q div ?S)\<close> by (simp add: not_less not_le)
      then have "read_sector fp v = (True, clust2sect v x,
          fp\<lparr>f_curr_clust := x, f_sect_clust := sects_clust v\<rparr>, v')"
        using z fz g k by (simp add: read_sector_def Let_def)
      then show ?thesis using F True \<open>x = xs ! (q div ?S)\<close> Sw by (simp add: file_sect_def)
    qed
  qed
qed

definition cursor :: "vol \<Rightarrow> DWORD list \<Rightarrow> FIL \<Rightarrow> nat \<Rightarrow> bool" where
  "cursor v xs fp q \<longleftrightarrow> f_curr_clust fp = xs ! (q div spc v) \<and> f_curr_sect fp = file_sect v xs q \<and>
     unat (f_sect_clust fp) = spc v - q mod spc v"

lemma file_inv_split:
  "file_inv v xs fp \<longleftrightarrow>
     chain (fat_entry v) (max_clust v) (f_org_clust fp) xs \<and>
     unat (f_fptr fp) \<le> unat (f_fsize fp) \<and> unat (f_fsize fp) \<le> 512 * (spc v * length xs) \<and>
     \<not> flagged fp FA__DIRTY \<and> length (f_buffer fp) = 512 \<and>
     (if f_fptr fp = 0 then f_sect_clust fp = 1
      else cursor v xs fp ((unat (f_fptr fp) - 1) div 512) \<and>
           (unat (f_fptr fp) mod 512 \<noteq> 0 \<longrightarrow> f_buffer fp = eff v (file_sect v xs ((unat (f_fptr fp) - 1) div 512))))"
  by (simp add: file_inv_def cursor_def Let_def)

text \<open>Advancing the position by \<open>n\<close> bytes onto the sector the cursor stands on.\<close>

lemma file_inv_advance:
  assumes inv: "file_inv v xs fp" and fr: "vol_ok v" "data_ok v" "read_frame v v'"
    and fp: "f_org_clust fp' = f_org_clust fp" "f_fsize fp' = f_fsize fp" "f_flag fp' = f_flag fp"
      "f_fptr fp' = f_fptr fp" "length (f_buffer fp') = 512"
    and n: "0 < n" "unat (f_fptr fp) + n \<le> unat (f_fsize fp)"
    and q: "(unat (f_fptr fp) + n - 1) div 512 = q" "cursor v xs fp' q"
    and buf: "(unat (f_fptr fp) + n) mod 512 \<noteq> 0 \<Longrightarrow> f_buffer fp' = eff v (file_sect v xs q)"
  shows "file_inv v' xs (fp'\<lparr>f_fptr := f_fptr fp + of_nat n\<rparr>)"
proof -
  have sv: "same_view v v'" using fr by (simp add: read_frame_def)
  have g: "geom v' = geom v" using sv by (simp add: same_view_def)
  note G = geom_eqD [OF g]
  have ch: "chain (fat_entry v) (max_clust v) (f_org_clust fp) xs" using inv by (simp add: file_inv_def)
  have lim: "unat (f_fptr fp) + n < 2 ^ 32" using n(2) unsigned_less [of "f_fsize fp", where ?'a = nat] by simp
  then have u: "unat (f_fptr fp + of_nat n) = unat (f_fptr fp) + n"
    by (simp add: unat_word_ariths unat_of_nat)
  then have nz: "f_fptr fp + of_nat n \<noteq> 0" using n(1) by (metis add_gr_0 less_irrefl unat_0)
  have qb: "q < spc v * length xs"
  proof -
    have "unat (f_fptr fp) + n - 1 < 512 * (spc v * length xs)" using inv n by (auto simp: file_inv_def)
    then show ?thesis using q(1) by (simp add: less_mult_imp_div_less mult.commute)
  qed
  have e: "eff v' (file_sect v xs q) = eff v (file_sect v xs q)"
    using data_sector_view [OF fr(1,2) sv file_sect_data [OF fr(2) ch qb]] .
  have c: "cursor v' xs (fp'\<lparr>f_fptr := f_fptr fp + of_nat n\<rparr>) q"
    using q(2) G file_sect_cong [OF g] by (simp add: cursor_def)
  show ?thesis
    unfolding file_inv_split
    using inv fp n(2) u nz q(1) c buf e G file_sect_cong [OF g] chain_frame_view [OF fr(1) sv ch]
    by (simp add: file_inv_def flagged_def)
qed

lemma copy_count_nat:
  "unat (copy_count fp btr) = min (512 - unat (f_fptr fp) mod 512) (unat btr)"
proof -
  have "unat (ucast (f_fptr fp) AND 511 :: WORD) = unat (f_fptr fp) mod 512"
    by (simp add: unat_and_511_16 unat_narrow mod_mod_cancel)
  moreover have "unat (f_fptr fp) mod 512 < 512" by simp
  ultimately have "unat (512 - (ucast (f_fptr fp) AND 511) :: WORD) = 512 - unat (f_fptr fp) mod 512"
    by (simp add: unat_sub word_le_nat_alt)
  then show ?thesis by (auto simp: copy_count_def Let_def word_less_nat_alt min_def)
qed

text \<open>The bytes a round delivers, and the file object it leaves.\<close>

definition round_ok :: "vol \<Rightarrow> DWORD list \<Rightarrow> FIL \<Rightarrow> WORD \<Rightarrow> round \<times> buffer \<times> WORD \<times> FIL \<times> vol \<Rightarrow> bool" where
  "round_ok v xs fp btr r \<longleftrightarrow> (case r of (k, data, rcnt, fp', v') \<Rightarrow>
     let n = (if k = Round_direct then rcnt else copy_count fp' btr);
         part = (if k = Round_direct then data
                 else take (unat n) (drop (unat (f_fptr fp' AND 511)) (f_buffer fp')))
     in k \<in> {Round_direct, Round_copy} \<and> read_frame v v' \<and> f_fptr fp' = f_fptr fp \<and> f_fsize fp' = f_fsize fp \<and>
        0 < unat n \<and> unat n \<le> unat btr \<and> part = file_bytes v xs (unat (f_fptr fp)) (unat n) \<and>
        file_inv v' xs (fp'\<lparr>f_fptr := f_fptr fp' + ucast n\<rparr>))"

lemma ucast_of_nat_unat: "(ucast n :: DWORD) = of_nat (unat n)" for n :: WORD
  by simp

lemma min_part: "x < 512 \<Longrightarrow> 0 < b \<Longrightarrow>
    0 < min (512 - x) b \<and> min (512 - x) b \<le> b \<and> x + min (512 - x) b \<le> (512 :: nat)"
  by (auto simp: min_def)

lemma round_copy_ok:
  assumes inv: "file_inv v xs fp" and fr: "vol_ok v" "data_ok v" "read_frame v v'"
    and btr: "0 < unat btr" "unat (f_fptr fp) + unat btr \<le> unat (f_fsize fp)"
    and fp: "f_org_clust fp' = f_org_clust fp" "f_fsize fp' = f_fsize fp" "f_flag fp' = f_flag fp" "f_fptr fp' = f_fptr fp"
    and q: "cursor v xs fp' (unat (f_fptr fp) div 512)"
    and buf: "f_buffer fp' = eff v (file_sect v xs (unat (f_fptr fp) div 512))"
  shows "round_ok v xs fp btr (Round_copy, [], 0, fp', v')"
proof -
  let ?a = "unat (f_fptr fp)"
  let ?n = "unat (copy_count fp' btr)"
  have n: "?n = min (512 - ?a mod 512) (unat btr)" using copy_count_nat fp by simp
  have lt: "?a mod 512 < 512" by simp
  then have n1: "0 < ?n" "?n \<le> unat btr" "?a mod 512 + ?n \<le> 512"
    using min_part [OF _ btr(1), of "?a mod 512"] n by simp_all
  have split: "a + k - 1 = 512 * (a div 512) + (a mod 512 + k - 1)" if "0 < k" for a k :: nat
    using that mult_div_mod_eq [of 512 a] by linarith
  have "?a mod 512 + ?n - 1 < 512" using n1 by linarith
  from div_mod_512 [OF this split [OF n1(1)]] have qn: "(?a + ?n - 1) div 512 = ?a div 512" by simp
  have len: "length (f_buffer fp') = 512" using buf length_eff [OF fr(1)] by simp
  have "file_inv v' xs (fp'\<lparr>f_fptr := f_fptr fp + of_nat ?n\<rparr>)"
    using file_inv_advance [OF inv fr fp len n1(1) _ qn q] btr n1 buf by simp
  moreover have "take ?n (drop (unat (f_fptr fp' AND 511)) (f_buffer fp')) = file_bytes v xs ?a ?n"
    using file_bytes_sector [OF fr(1) n1(3)] fp buf by (simp add: unat_and_511)
  ultimately show ?thesis
    using n1 fr fp by (simp add: round_ok_def Let_def)
qed

text \<open>Reading on a card that answers.\<close>

lemma disk_read_many:
  assumes "disk_healthy drv d"
  shows "\<exists>d'. disk_read drv [] s c d = (RES_OK, concat (map (\<lambda>k. sector_of d (s + of_nat k)) [0..<unat c]), d') \<and>
    sector_of d' = sector_of d \<and> disk_healthy drv d'"
  using assms by (auto simp: disk_read_def card_read_def disk_healthy_def Let_def)

lemma read_frame_disk:
  assumes "read_frame v u" "sector_of d = sector_of (disk u)" "disk_healthy (drive u) d"
  shows "read_frame v (u\<lparr>disk := d\<rparr>)"
proof -
  have g: "geom (u\<lparr>disk := d\<rparr>) = geom u" by (simp add: geom_def)
  have e: "eff (u\<lparr>disk := d\<rparr>) = eff u" using assms(2) by (simp add: eff_def fun_eq_iff)
  have "vol_ok (u\<lparr>disk := d\<rparr>)"
    using assms geom_ok_cong [OF g] by (simp add: read_frame_def same_view_def vol_ok_def win_ok_def)
  then show ?thesis
    using assms(1,2) g e by (simp add: read_frame_def same_view_def data_clean_def)
qed

lemma file_sect_add:
  assumes "0 < spc v" "k < spc v - q mod spc v"
  shows "file_sect v xs (q + k) = file_sect v xs q + of_nat k"
proof -
  let ?S = "spc v"
  have "q + k = ?S * (q div ?S) + (q mod ?S + k)" by simp
  moreover have "q mod ?S + k < ?S" using assms(2) by simp
  ultimately have "(q + k) div ?S = q div ?S" "(q + k) mod ?S = q mod ?S + k"
    by (metis div_mult_self4 div_less add.right_neutral assms(1) less_not_refl2, metis mod_mult_self4 mod_less)
  then show ?thesis by (simp add: file_sect_def algebra_simps)
qed

lemma read_round_direct:
  assumes "f_fptr fp AND 511 = 0" "read_sector fp v = (True, s, fp1, v1)" "flush_file fp1 v1 = (True, fp2, v2)"
    "(ucast (btr div 512) :: BYTE) = cc" "cc \<noteq> 0" "c = (if cc > f_sect_clust fp2 then f_sect_clust fp2 else cc)"
    "disk_read (drive v2) [] s c (disk v2) = (RES_OK, data, d)"
  shows "read_round fp btr v = (Round_direct, data, ucast c * 512,
    fp2\<lparr>f_sect_clust := f_sect_clust fp2 - (c - 1), f_curr_sect := s + (ucast c - 1)\<rparr>, v2\<lparr>disk := d\<rparr>)"
  using assms by (cases "cc > f_sect_clust fp2") (simp_all add: read_round_def Let_def)

lemma read_round_ok:
  assumes ok: "vol_ok v" "data_ok v" "data_clean v" and inv: "file_inv v xs fp"
    and btr: "0 < unat btr" "unat (f_fptr fp) + unat btr \<le> unat (f_fsize fp)"
  shows "round_ok v xs fp btr (read_round fp btr v)"
proof (cases "f_fptr fp AND 511 = 0")
  case False
  let ?a = "unat (f_fptr fp)"
  have m: "?a mod 512 \<noteq> 0" using False by (metis unat_and_511 unat_eq_zero)
  then have nz: "f_fptr fp \<noteq> 0" by (metis mod_0 unat_0)
  have q: "(?a - 1) div 512 = ?a div 512"
  proof -
    have split: "a - 1 = 512 * (a div 512) + (a mod 512 - 1)" if "a mod 512 \<noteq> 0" for a :: nat
      using that mult_div_mod_eq [of 512 a] by linarith
    have "?a mod 512 - 1 < 512" by (rule le_less_trans [of _ "?a mod 512"]) simp_all
    from div_mod_512 [OF this split [OF m]] show ?thesis by simp
  qed
  have I: "cursor v xs fp (?a div 512)" "f_buffer fp = eff v (file_sect v xs (?a div 512))"
    using inv nz m q by (auto simp: file_inv_split)
  have fr: "read_frame v v" using ok by (simp add: read_frame_def same_view_refl)
  have "read_round fp btr v = (Round_copy, [], 0, fp, v)" using False by (simp add: read_round_def)
  then show ?thesis using round_copy_ok [OF inv ok(1,2) fr btr refl refl refl refl I] by simp
next
  case True
  let ?S = "spc v" and ?q = "unat (f_fptr fp) div 512"
  have a: "unat (f_fptr fp) = 512 * ?q" using True by (metis unat_and_511 unat_0 mult_div_mod_eq add.right_neutral)
  have S: "1 \<le> ?S" "?S \<le> 128" using spc_bounds [OF ok(2)] by simp_all
  have qb: "?q < ?S * length xs"
  proof -
    have "512 * ?q < 512 * (?S * length xs)" using inv btr a by (auto simp: file_inv_def)
    then show ?thesis by simp
  qed
  have nd: "\<not> flagged fp FA__DIRTY" using inv by (simp add: file_inv_def)
  define fp1 where "fp1 = fp\<lparr>f_curr_clust := xs ! (?q div ?S), f_sect_clust := of_nat (?S - ?q mod ?S)\<rparr>"
  from read_sector_ok [OF ok inv a qb] obtain v1 where
    rs: "read_sector fp v = (True, file_sect v xs ?q, fp1, v1)" and fr: "read_frame v v1"
    unfolding fp1_def by blast
  have nd1: "\<not> flagged fp1 FA__DIRTY" using nd by (simp add: fp1_def flagged_def)
  then have fl: "flush_file fp1 v1 = (True, fp1, v1)" by (simp add: flush_file_def)
  define fp2 where "fp2 = fp1\<lparr>f_curr_sect := file_sect v xs ?q\<rparr>"
  have sc: "unat (f_sect_clust fp2) = ?S - ?q mod ?S" "0 < ?S - ?q mod ?S"
  proof -
    have "?q mod ?S < ?S" using S by simp
    then show pos: "0 < ?S - ?q mod ?S" by simp
    have "?S - ?q mod ?S < 2 ^ LENGTH(8)" using S by simp
    then have "unat (of_nat (?S - ?q mod ?S) :: BYTE) = ?S - ?q mod ?S" by (simp only: unat_of_nat mod_less)
    moreover have "f_sect_clust fp2 = of_nat (?S - ?q mod ?S)" by (simp add: fp2_def fp1_def del: of_nat_diff)
    ultimately show "unat (f_sect_clust fp2) = ?S - ?q mod ?S" by (simp only:)
  qed
  have f2: "f_org_clust fp2 = f_org_clust fp" "f_fsize fp2 = f_fsize fp" "f_flag fp2 = f_flag fp"
    "f_fptr fp2 = f_fptr fp" "f_buffer fp2 = f_buffer fp" by (simp_all add: fp2_def fp1_def)
  have cur: "cursor v xs fp2 ?q" using sc by (simp add: cursor_def fp2_def fp1_def)
  have v1: "disk_healthy (drive v1) (disk v1)" "vol_ok v1" using fr by (simp_all add: read_frame_def same_view_def vol_ok_def)
  have ch: "chain (fat_entry v) (max_clust v) (f_org_clust fp) xs" using inv by (simp add: file_inv_def)
  have base: "database v1 = database v" using fr geom_eqD [of v1 v] by (simp add: read_frame_def same_view_def)
  have disk_eff: "sector_of (disk v1) (file_sect v xs k) = eff v (file_sect v xs k)" if "k < ?S * length xs" for k
  proof -
    note D = file_sect_data [OF ok(2) ch that]
    then have "sector_of (disk v1) (file_sect v xs k) = eff v1 (file_sect v xs k)"
      using fr base by (simp add: read_frame_def data_clean_def)
    then show ?thesis using data_sector_view [OF ok(1,2) _ D] fr by (simp add: read_frame_def)
  qed
  define cc where "cc = (ucast (btr div 512) :: BYTE)"
  have "unat btr < 2 ^ 16" using unsigned_less [of btr, where ?'a = nat] by simp
  then have "unat btr div 512 < 128" by (simp add: less_mult_imp_div_less)
  then have ucc: "unat cc = unat btr div 512" by (simp add: cc_def unat_narrow unat_div)
  show ?thesis
  proof (cases "cc = 0")
    case True
    obtain r b d where rd: "disk_read (drive v1) (f_buffer fp2) (file_sect v xs ?q) 1 (disk v1) = (r, b, d)"
      by (metis prod_cases3)
    have len: "length (f_buffer fp2) = 512" using inv f2 by (simp add: file_inv_def)
    have R: "r = RES_OK" "disk_healthy (drive v1) d" "sector_of d = sector_of (disk v1)"
      using mmc.healthy_rd [OF v1(1) rd] mmc.rd_cont [OF rd] by blast+
    then have b: "b = eff v (file_sect v xs ?q)" using mmc.rd_ok rd len disk_eff [OF qb] by simp
    have "read_round fp btr v = (Round_copy, [], 0, fp2\<lparr>f_buffer := b\<rparr>, v1\<lparr>disk := d\<rparr>)"
      using \<open>f_fptr fp AND 511 = 0\<close> rs fl rd R True
      by (simp add: read_round_def Let_def cc_def fp2_def)
    moreover have "round_ok v xs fp btr (Round_copy, [], 0, fp2\<lparr>f_buffer := b\<rparr>, v1\<lparr>disk := d\<rparr>)"
      using f2 b cur by (intro round_copy_ok [OF inv ok(1,2) read_frame_disk [OF fr R(3,2)] btr]) (simp_all add: cursor_def)
    ultimately show ?thesis by simp
  next
    case False
    define c where "c = (if cc > f_sect_clust fp2 then f_sect_clust fp2 else cc)"
    have "unat cc \<noteq> 0" using False by (simp add: unat_eq_zero)
    then have c: "0 < unat c" "unat c \<le> ?S - ?q mod ?S" "512 * unat c \<le> unat btr"
      using sc ucc by (auto simp: c_def word_less_nat_alt)
    from disk_read_many [OF v1(1), of "file_sect v xs ?q" c] obtain d where
      rd: "disk_read (drive v1) [] (file_sect v xs ?q) c (disk v1) =
        (RES_OK, concat (map (\<lambda>k. sector_of (disk v1) (file_sect v xs ?q + of_nat k)) [0..<unat c]), d)"
      and R: "sector_of d = sector_of (disk v1)" "disk_healthy (drive v1) d" by blast
    have qk: "?q + k < ?S * length xs" if "k < unat c" for k
    proof -
      have "512 * (?q + k) < 512 * (?S * length xs)" using inv btr a c that by (auto simp: file_inv_def)
      then show ?thesis by simp
    qed
    have "map (\<lambda>k. sector_of (disk v1) (file_sect v xs ?q + of_nat k)) [0..<unat c]
      = map (\<lambda>k. eff v (file_sect v xs (?q + k))) [0..<unat c]"
    proof (rule map_cong [OF refl])
      fix k assume "k \<in> set [0..<unat c]"
      then have k: "k < unat c" by simp
      then have "file_sect v xs ?q + of_nat k = file_sect v xs (?q + k)"
        using file_sect_add [of v k ?q xs] c(2) S by simp
      then show "sector_of (disk v1) (file_sect v xs ?q + of_nat k) = eff v (file_sect v xs (?q + k))"
        using disk_eff [OF qk [OF k]] by simp
    qed
    then have data: "concat (map (\<lambda>k. sector_of (disk v1) (file_sect v xs ?q + of_nat k)) [0..<unat c])
        = file_bytes v xs (unat (f_fptr fp)) (512 * unat c)"
      by (simp only: file_bytes_sectors [OF ok(1), of xs ?q "unat c", folded a])
    define fp3 where "fp3 = fp2\<lparr>f_sect_clust := f_sect_clust fp2 - (c - 1), f_curr_sect := f_curr_sect fp2 + (ucast c - 1)\<rparr>"
    have cd: "c = (if cc > f_sect_clust fp1 then f_sect_clust fp1 else cc)" by (simp add: c_def fp2_def)
    have run: "read_round fp btr v = (Round_direct, file_bytes v xs (unat (f_fptr fp)) (512 * unat c), ucast c * 512, fp3, v1\<lparr>disk := d\<rparr>)"
      using read_round_direct [OF \<open>f_fptr fp AND 511 = 0\<close> rs fl cc_def [symmetric] False cd rd [unfolded data]]
      by (simp add: fp3_def fp2_def)
    have "unat btr < 2 ^ 16" using unsigned_less [of btr, where ?'a = nat] by simp
    then have c128: "unat c < 128" using c(3) by simp
    have un: "unat (ucast c * 512 :: WORD) = 512 * unat c"
      using c128 by (simp add: unat_word_ariths unat_widen)
    have one: "unat (c - 1) = unat c - 1" using c(1) by (simp add: unat_sub word_le_nat_alt)
    have "?q mod ?S + (unat c - 1) < ?S" using c(1,2) sc(2) by linarith
    moreover have "?q + (unat c - 1) = ?S * (?q div ?S) + (?q mod ?S + (unat c - 1))" by simp
    ultimately have qd: "(?q + (unat c - 1)) div ?S = ?q div ?S" "(?q + (unat c - 1)) mod ?S = ?q mod ?S + (unat c - 1)"
      by (metis div_mult_self4 div_less add.right_neutral S(1) not_one_le_zero, metis mod_mult_self4 mod_less)
    have "file_sect v xs (?q + (unat c - 1)) = file_sect v xs ?q + of_nat (unat c - 1)"
      using file_sect_add [of v "unat c - 1" ?q xs] c S by simp
    also have "(of_nat (unat c - 1) :: DWORD) = ucast c - 1" using c(1) by (simp add: of_nat_diff)
    finally have cs: "f_curr_sect fp3 = file_sect v xs (?q + (unat c - 1))" using cur by (simp add: fp3_def cursor_def)
    have "unat (f_sect_clust fp3) = ?S - ?q mod ?S - (unat c - 1)"
      using sc c one by (simp add: fp3_def unat_sub word_le_nat_alt)
    then have cur3: "cursor v xs fp3 (?q + (unat c - 1))"
      using cs cur qd by (simp add: cursor_def fp3_def)
    have f3: "f_org_clust fp3 = f_org_clust fp" "f_fsize fp3 = f_fsize fp" "f_flag fp3 = f_flag fp"
      "f_fptr fp3 = f_fptr fp" "length (f_buffer fp3) = 512"
      using f2 inv by (simp_all add: fp3_def file_inv_def)
    have pos: "(unat (f_fptr fp) + 512 * unat c - 1) div 512 = ?q + (unat c - 1)"
    proof -
      have "x + 512 * n - 1 = 512 * (p + (n - 1)) + 511" if "x = 512 * p" "0 < n" for x p n :: nat
        using that by (cases n) auto
      from this [OF a c(1)] show ?thesis using div_mod_512 [of 511] by simp
    qed
    have n: "0 < 512 * unat c" "unat (f_fptr fp) + 512 * unat c \<le> unat (f_fsize fp)" using c btr by linarith+
    have z: "(unat (f_fptr fp) + 512 * unat c) mod 512 = 0" using a by (metis distrib_left mod_mult_self1_is_0)
    have "file_inv (v1\<lparr>disk := d\<rparr>) xs (fp3\<lparr>f_fptr := f_fptr fp + of_nat (512 * unat c)\<rparr>)"
      using file_inv_advance [OF inv ok(1,2) read_frame_disk [OF fr R] f3 n pos cur3] z by simp
    then show ?thesis
      unfolding run round_ok_def Let_def prod.case
      using read_frame_disk [OF fr R] f3 c un n(1) by (simp add: ucast_of_nat_unat del: of_nat_mult of_nat_numeral)
  qed
qed

section \<open>The whole read\<close>

lemma round_keeps:
  assumes "vol_ok v" "data_ok v" "read_frame v v'"
  shows "vol_ok v'" "data_ok v'" "data_clean v'"
  using assms data_ok_cong [of v' v] by (simp_all add: read_frame_def same_view_def)

lemma read_frame_trans: "read_frame u v \<Longrightarrow> read_frame v w \<Longrightarrow> read_frame u w"
  using same_view_trans by (auto simp: read_frame_def)

lemma read_loop_ok:
  "vol_ok v \<Longrightarrow> data_ok v \<Longrightarrow> data_clean v \<Longrightarrow> file_inv v xs fp \<Longrightarrow>
   unat (f_fptr fp) + unat btr \<le> unat (f_fsize fp) \<Longrightarrow>
   \<exists>fp' v'. read_loop fp btr out v = Some (FR_OK, out @ file_bytes v xs (unat (f_fptr fp)) (unat btr), fp', v') \<and>
     read_frame v v' \<and> file_inv v' xs fp' \<and> f_fptr fp' = f_fptr fp + ucast btr \<and> f_fsize fp' = f_fsize fp"
proof (induction "unat btr" arbitrary: fp btr out v rule: less_induct)
  case less
  show ?case
  proof (cases "btr = 0")
    case True
    have "read_loop fp btr out v = Some (FR_OK, out, fp, v)" using True by (subst read_loop.simps) simp
    then show ?thesis using True less.prems by (simp add: file_bytes_def read_frame_def same_view_refl)
  next
    case False
    then have b: "0 < unat btr" by (simp add: unat_gt_0)
    obtain k data rcnt fp1 v1 where r: "read_round fp btr v = (k, data, rcnt, fp1, v1)" by (metis prod_cases5)
    define n where "n = (if k = Round_direct then rcnt else copy_count fp1 btr)"
    define part where "part = (if k = Round_direct then data
      else take (unat n) (drop (unat (f_fptr fp1 AND 511)) (f_buffer fp1)))"
    have R: "k = Round_direct \<or> k = Round_copy" "read_frame v v1" "f_fptr fp1 = f_fptr fp" "f_fsize fp1 = f_fsize fp"
      "0 < unat n" "unat n \<le> unat btr" "part = file_bytes v xs (unat (f_fptr fp)) (unat n)"
      "file_inv v1 xs (fp1\<lparr>f_fptr := f_fptr fp1 + ucast n\<rparr>)"
      using read_round_ok [OF less.prems(1-4) b less.prems(5)]
      unfolding r round_ok_def n_def part_def by (auto simp: Let_def)
    let ?fp = "fp1\<lparr>f_fptr := f_fptr fp1 + ucast n\<rparr>"
    have un: "read_loop fp btr out v = read_loop ?fp (btr - n) (out @ part) v1"
      using R(1) False by (subst read_loop.simps) (auto simp: r n_def part_def Let_def)
    have ub: "unat (btr - n) = unat btr - unat n" using R(6) by (simp add: unat_sub word_le_nat_alt)
    have lim: "unat (f_fptr fp) + unat n < 2 ^ 32"
      using less.prems(5) R(6) unsigned_less [of "f_fsize fp", where ?'a = nat] by simp
    have up: "unat (f_fptr ?fp) = unat (f_fptr fp) + unat n"
      using lim R(3) by (simp add: unat_word_ariths unat_widen)
    note K = round_keeps [OF less.prems(1,2) R(2)]
    have "unat (f_fptr ?fp) + unat (btr - n) \<le> unat (f_fsize ?fp)"
      using up ub R(4,6) less.prems(5) by simp
    moreover have "unat (btr - n) < unat btr" using ub R(5) b by simp
    ultimately obtain fp' v' where I: "read_loop ?fp (btr - n) (out @ part) v1 =
        Some (FR_OK, (out @ part) @ file_bytes v1 xs (unat (f_fptr ?fp)) (unat (btr - n)), fp', v')"
      "read_frame v1 v'" "file_inv v' xs fp'" "f_fptr fp' = f_fptr ?fp + ucast (btr - n)" "f_fsize fp' = f_fsize ?fp"
      using less.hyps [OF _ K R(8)] by blast
    have fb: "file_bytes v1 xs (unat (f_fptr ?fp)) (unat (btr - n))
        = file_bytes v xs (unat (f_fptr fp) + unat n) (unat btr - unat n)"
      unfolding up ub
    proof (rule file_bytes_frame [OF less.prems(1,2)])
      show "same_view v v1" using R(2) by (simp add: read_frame_def)
      show "chain (fat_entry v) (max_clust v) (f_org_clust fp) xs" using less.prems(4) by (simp add: file_inv_def)
      show "unat (f_fptr fp) + unat n + (unat btr - unat n) \<le> 512 * (spc v * length xs)"
        using less.prems(4,5) R(6) by (simp add: file_inv_def)
    qed
    have "part @ file_bytes v1 xs (unat (f_fptr ?fp)) (unat (btr - n)) = file_bytes v xs (unat (f_fptr fp)) (unat btr)"
      unfolding fb R(7) using file_bytes_append [of v xs "unat (f_fptr fp)" "unat n" "unat btr - unat n"] R(6) by simp
    moreover have "ucast n + ucast (btr - n) = (ucast btr :: DWORD)"
    proof (rule unsigned_word_eqI [where ?'a = nat])
      have "unat btr < 2 ^ 16" using unsigned_less [of btr, where ?'a = nat] by simp
      then show "unat (ucast n + ucast (btr - n) :: DWORD) = unat (ucast btr :: DWORD)"
        using ub R(6) by (simp add: unat_word_ariths unat_widen)
    qed
    ultimately show ?thesis
      unfolding un using I read_frame_trans [OF R(2) I(2)] R(3,4) by (simp add: add.assoc)
  qed
qed

section \<open>The properties\<close>

lemma read_vol_ok:
  assumes "vol_ok v" "data_ok v" "data_clean v" "file_inv v xs fp"
  shows "\<exists>fp' v'. read_vol fp btr v = Some (FR_OK,
      file_bytes v xs (unat (f_fptr fp)) (min (unat btr) (unat (f_fsize fp) - unat (f_fptr fp))), fp', v') \<and>
    read_frame v v' \<and> file_inv v' xs fp' \<and> f_fsize fp' = f_fsize fp \<and>
    unat (f_fptr fp') = unat (f_fptr fp) + min (unat btr) (unat (f_fsize fp) - unat (f_fptr fp))"
proof -
  define n where "n = (if ucast btr > f_fsize fp - f_fptr fp then ucast (f_fsize fp - f_fptr fp) else btr)"
  let ?m = "min (unat btr) (unat (f_fsize fp) - unat (f_fptr fp))"
  have le: "unat (f_fptr fp) \<le> unat (f_fsize fp)" using assms(4) by (simp add: file_inv_def)
  then have r: "unat (f_fsize fp - f_fptr fp) = unat (f_fsize fp) - unat (f_fptr fp)"
    by (simp add: unat_sub word_le_nat_alt)
  have "unat btr < 2 ^ 16" using unsigned_less [of btr, where ?'a = nat] by simp
  then have n: "unat n = ?m"
    using r by (auto simp: n_def word_less_nat_alt unat_widen unat_narrow min_def)
  have "unat (f_fptr fp) + unat n \<le> unat (f_fsize fp)" using n le by simp
  from read_loop_ok [OF assms this, of "[]"] obtain fp' v' where
    R: "read_loop fp n [] v = Some (FR_OK, [] @ file_bytes v xs (unat (f_fptr fp)) (unat n), fp', v')"
    "read_frame v v'" "file_inv v' xs fp'" "f_fptr fp' = f_fptr fp + ucast n" "f_fsize fp' = f_fsize fp" by blast
  have "unat (f_fptr fp) + unat n < 2 ^ 32"
    using n le unsigned_less [of "f_fsize fp", where ?'a = nat] by simp
  then have "unat (f_fptr fp') = unat (f_fptr fp) + ?m"
    using R(4) n by (simp add: unat_word_ariths unat_widen)
  moreover have "read_vol fp btr v = read_loop fp n [] v" by (simp add: read_vol_def n_def Let_def)
  ultimately show ?thesis using R n by auto
qed

text \<open>C1: on a card that answers, \<open>f_read\<close> returns, delivers exactly the bytes of the file between its
  position and the lesser of the number asked for and the end of the file (across sectors and clusters,
  directly or through the file buffer), moves the position by that number, keeps the invariant of the
  file object and changes no sector as the file system sees it.\<close>

theorem f_read_delivers:
  assumes "file_check fp FA_READ s = FR_OK" "v = get_vol (the (f_fs fp)) s"
    and "vol_ok v" "data_ok v" "data_clean v" "file_inv v xs fp"
  shows "\<exists>fp' s'. f_read fp btr s = Some (FR_OK,
      file_bytes v xs (unat (f_fptr fp)) (min (unat btr) (unat (f_fsize fp) - unat (f_fptr fp))), fp', s') \<and>
    read_frame v (get_vol (the (f_fs fp)) s') \<and> file_inv (get_vol (the (f_fs fp)) s') xs fp' \<and>
    unat (f_fptr fp') = unat (f_fptr fp) + min (unat btr) (unat (f_fsize fp) - unat (f_fptr fp))"
proof -
  from read_vol_ok [OF assms(3-6), of btr] obtain fp' v' where
    "read_vol fp btr v = Some (FR_OK,
      file_bytes v xs (unat (f_fptr fp)) (min (unat btr) (unat (f_fsize fp) - unat (f_fptr fp))), fp', v')"
    "read_frame v v'" "file_inv v' xs fp'"
    "unat (f_fptr fp') = unat (f_fptr fp) + min (unat btr) (unat (f_fsize fp) - unat (f_fptr fp))" by blast
  then show ?thesis
    using assms(1,2) by (auto simp: f_read_def Let_def)
qed

definition sample_sys :: fsys where
  "sample_sys = \<lparr>objs = \<lambda>a. FATFS.truncate sample_vol, FatFs = \<lambda>d. if d = 0 then Some 0 else None,
     fsid = 1, mdisk = sample_dev\<rparr>"

definition sample_fil :: FIL where
  "sample_fil = \<lparr>f_id = 1, f_flag = FA_READ, f_sect_clust = 1, f_fs = Some 0, f_fptr = 0, f_fsize = 1300,
     f_org_clust = 2, f_curr_clust = 0, f_curr_sect = 0, f_dir_sect = 3, f_dir_ptr = 0,
     f_buffer = replicate 512 0\<rparr>"

lemma sample_get_vol: "get_vol 0 sample_sys = sample_vol"
  by (simp add: get_vol_def vol_of_def sample_sys_def sample_vol_def FATFS.defs vol.defs)

lemma sample_check: "file_check sample_fil FA_READ sample_sys = FR_OK"
  by (simp add: file_check_def validate_def flagged_def fa_defs sample_fil_def sample_sys_def sample_vol_def
      FATFS.defs disk_status_def Let_def disk_consts)

lemma sample_sects: "sects_clust sample_vol = 1" "database sample_vol = 4"
  by (simp_all add: sample_vol_def)

lemma sample_data: "4 \<le> t \<Longrightarrow> eff sample_vol t = map (\<lambda>i. of_nat i) [0..<512]"
  by (auto simp: sample_vol_def eff_def sample_dev_def sector_of_def sample_blk_def word_le_nat_alt)

lemma sample_file: "file_inv sample_vol [2, 3, 5] sample_fil"
proof -
  have "chain (fat_entry sample_vol) (max_clust sample_vol) 2 [2, 3, 5]"
    by (simp add: sample_fields sample_entries)
  then show ?thesis
    by (simp add: file_inv_def sample_fil_def flagged_def fa_defs sample_sects del: chain.simps)
qed

lemma sample_clean: "data_clean sample_vol"
  by (rule clean_winflag [OF sample_ok]) (simp_all add: sample_vol_def)

lemma sample_content: "k < 1300 \<Longrightarrow> file_byte sample_vol [2, 3, 5] k = of_nat (k mod 512)"
proof -
  assume "k < 1300"
  then have "k div 512 < 3" by simp
  then have "k div 512 = 0 \<or> k div 512 = 1 \<or> k div 512 = 2" by linarith
  then have "4 \<le> file_sect sample_vol [2, 3, 5] (k div 512)"
    by (auto simp: file_sect_def clust2sect_def sample_sects sample_fields word_le_nat_alt)
  then show ?thesis by (simp add: file_byte_def sample_data)
qed

theorem f_read_delivers_witness:
  "\<exists>out fp' s'. f_read sample_fil 2000 sample_sys = Some (FR_OK, out, fp', s') \<and>
     length out = 1300 \<and> out ! 1025 = 1"
proof -
  have a: "the (f_fs sample_fil) = 0" "f_fptr sample_fil = 0" "f_fsize sample_fil = 1300"
    by (simp_all add: sample_fil_def)
  from f_read_delivers [OF sample_check _ sample_ok sample_data_ok sample_clean sample_file, of 2000]
  obtain fp' s' where "f_read sample_fil 2000 sample_sys =
      Some (FR_OK, file_bytes sample_vol [2, 3, 5] 0 1300, fp', s')"
    by (auto simp: a sample_get_vol)
  moreover have "file_bytes sample_vol [2, 3, 5] 0 1300 ! 1025 = 1"
    by (simp add: file_bytes_def sample_content)
  ultimately show ?thesis by (auto simp: file_bytes_def)
qed

end
