(* ===== verification/FfWrite.thy ===== *)
theory FfWrite
  imports FfRead
begin

unbundle bit_operations_syntax

text \<open>
  What \<^verbatim>\<open>f_write\<close> does at the end of the free space.  When no cluster is free the call stops with
  \<^verbatim>\<open>FR_OK\<close> and fewer bytes, but the sector counter of the file object has already been decremented to
  zero; the next call decrements it again and takes the sector behind the current one.
\<close>

lemma flagged_set_flag: "m \<noteq> 0 \<Longrightarrow> flagged (set_flag m fp) m"
proof -
  have "(f_flag fp OR m) AND m = m" by (rule bit_word_eqI) (auto simp: bit_simps)
  then show "m \<noteq> 0 \<Longrightarrow> flagged (set_flag m fp) m" by (simp add: flagged_def set_flag_def)
qed

lemma flagged_set_keep: "flagged fp m \<Longrightarrow> flagged (set_flag k fp) m"
proof -
  assume "flagged fp m"
  moreover have "f_flag fp AND m = 0" if "\<forall>i. \<not> bit (f_flag fp AND m) i" using that by (intro bit_word_eqI) simp
  ultimately obtain i where "bit (f_flag fp AND m) i" unfolding flagged_def by blast
  then have "bit ((f_flag fp OR k) AND m) i" by (simp add: bit_simps)
  then show ?thesis unfolding flagged_def set_flag_def by (auto simp: bit_0_eq)
qed

lemma set_flag_fields [simp]:
  "f_curr_sect (set_flag m fp) = f_curr_sect fp" "f_sect_clust (set_flag m fp) = f_sect_clust fp"
  "f_fptr (set_flag m fp) = f_fptr fp" "f_fsize (set_flag m fp) = f_fsize fp"
  "f_buffer (set_flag m fp) = f_buffer fp"
  by (simp_all add: set_flag_def)

lemma flagged_fields [simp]: "flagged (fp\<lparr>f_fsize := n\<rparr>) m = flagged fp m"
  by (simp add: flagged_def)

lemma write_cluster_keeps:
  assumes "write_cluster fp v = Some (c, fp', v')" "c = 0"
  shows "f_fptr fp' = f_fptr fp \<and> f_sect_clust fp' = f_sect_clust fp \<and> f_curr_sect fp' = f_curr_sect fp \<and>
    f_flag fp' = f_flag fp \<and> f_fsize fp' = f_fsize fp"
  using assms by (auto simp: write_cluster_def split: if_splits Option.bind_splits)

lemma write_sector_full:
  assumes "write_sector fp v = Some (W_full, s, fp', v')"
  shows "f_sect_clust fp' = 0 \<and> f_fptr fp' = f_fptr fp \<and> f_curr_sect fp' = f_curr_sect fp \<and>
    f_flag fp' = f_flag fp \<and> f_fsize fp' = f_fsize fp"
  using assms
  by (auto simp: write_sector_def Let_def dest: write_cluster_keeps split: if_splits Option.bind_splits)

text \<open>after a write that stopped because no cluster was free, the next write of part of a sector takes
  the sector behind the current one, whatever file owns it: it reports success for all bytes, and the
  file buffer with them is due to be written there.\<close>

theorem write_after_full_leaves_chain:
  assumes "write_sector fp v = Some (W_full, s, fp', v')"
    and "f_fptr fp AND 511 = 0" "\<not> flagged fp FA__DIRTY" "f_fsize fp \<le> f_fptr fp" "0 < btw" "btw < 512"
  shows "\<exists>fp''. write_loop fp' wbuff btw 0 u = Some (FR_OK, btw, fp'', u) \<and>
    f_curr_sect fp'' = f_curr_sect fp + 1 \<and> flagged fp'' FA__DIRTY \<and> f_sect_clust fp'' = - 1"
proof -
  have dz: "FA__DIRTY \<noteq> 0" by (simp add: fa_defs)
  note F = write_sector_full [OF assms(1)]
  have ub: "0 < unat btw" "unat btw < 512" using assms(5,6) by (simp_all add: word_less_nat_alt)
  then have nz: "btw \<noteq> 0" by auto
  have al: "unat (f_fptr fp) mod 512 = 0" using assms(2) by (metis unat_and_511 unat_0)
  have cc: "(ucast (btw div 512) :: BYTE) = 0"
    using ub by (simp add: unat_eq_zero [symmetric] unat_narrow unat_div)
  let ?g = "fp'\<lparr>f_sect_clust := - 1, f_curr_sect := f_curr_sect fp + 1\<rparr>"
  have fl: "\<not> flagged fp' FA__DIRTY" using F assms(3) by (simp add: flagged_def)
  have ge: "\<not> f_fptr fp < f_fsize fp" using assms(4) by simp
  have r: "write_round fp' wbuff btw u = Some (Round_copy, 0, ?g, u)"
    using F assms(2) ge cc fl
    by (simp add: write_round_def write_sector_def flush_file_def flagged_def Let_def)
  have n: "copy_count ?g btw = btw"
    using ub al F by (intro unsigned_word_eqI [where ?'a = nat]) (simp add: copy_count_nat)
  let ?h = "set_flag FA__DIRTY (?g\<lparr>f_buffer := splice (unat (f_fptr ?g AND 511)) (take (unat btw) wbuff) (f_buffer ?g),
      f_fptr := f_fptr ?g + ucast btw\<rparr>)"
  have "write_loop fp' wbuff btw 0 u = write_loop ?h (drop (unat btw) wbuff) 0 btw u"
    using nz r n by (subst write_loop.simps) (simp add: Let_def)
  also have "\<dots> = Some (write_done btw ?h u)" by (subst write_loop.simps) simp
  finally show ?thesis
    by (auto simp: write_done_def dz intro!: flagged_set_keep flagged_set_flag)
qed

text \<open>A volume without a free cluster and a new, empty file on it.\<close>

definition full_vol :: vol where
  "full_vol = sample_vol\<lparr>disk := sample_dev\<lparr>blk := (sample_blk)(1 := \<lambda>i. 0xFF)\<rparr>\<rparr>"

definition new_fil :: FIL where
  "new_fil = sample_fil\<lparr>f_flag := FA_WRITE, f_org_clust := 0, f_fsize := 0, f_curr_sect := 9\<rparr>"

lemma full_ok: "vol_ok full_vol"
  using sample_ok
  by (simp add: full_vol_def vol_ok_def geom_ok_def fat_fits_def win_ok_def disk_healthy_def sample_vol_def sample_dev_def)

lemma full_entry: "e < 10 \<Longrightarrow> fat_entry full_vol e = 0xFFFF"
proof -
  assume e: "e < 10"
  have b: "fat_byte full_vol k = 0xFF" if "k < 512" for k
    using that by (simp add: fat_byte_def eff_def full_vol_def sample_vol_def sample_dev_def sector_of_def)
  have t: "fs_type full_vol = FS_FAT16" by (simp add: full_vol_def sample_vol_def)
  show ?thesis using e by (simp add: fat_entry_def t b join16_def fs_type_defs)
qed

lemma full_create: "\<exists>v'. create_chain 0 full_vol = Some (0, v')"
proof -
  have m: "max_clust full_vol = 10" by (simp add: full_vol_def sample_fields)
  have E: "fat_entry full_vol e \<noteq> 0" "fat_entry full_vol e \<noteq> 1" if "e < 10" for e
    using full_entry [OF that] by simp_all
  have "\<not> linked full_vol 0 n v'" for n v'
  proof
    assume "linked full_vol 0 n v'"
    then have "n < 10" "fat_entry full_vol (unat n) = 0" by (simp_all add: linked_def m)
    then show False using E(1) [of "unat n"] by (simp add: word_less_nat_alt)
  qed
  moreover have "\<not> (\<exists>e. 2 \<le> e \<and> e < unat (max_clust full_vol) \<and> fat_entry full_vol e = 1)"
    using E(2) by (auto simp: m)
  moreover have "2 \<le> max_clust full_vol" by (simp add: m word_le_nat_alt)
  ultimately show ?thesis using create_chain_new_spec [OF full_ok] by blast
qed

theorem write_after_full_leaves_chain_witness:
  "\<exists>s fp' v' fp''. write_sector new_fil full_vol = Some (W_full, s, fp', v') \<and>
     write_loop fp' [65] 1 0 v' = Some (FR_OK, 1, fp'', v') \<and> f_curr_sect fp'' = 10 \<and> flagged fp'' FA__DIRTY"
proof -
  obtain v' where c: "create_chain 0 full_vol = Some (0, v')" using full_create by blast
  have w: "write_sector new_fil full_vol = Some (W_full, 0, new_fil\<lparr>f_sect_clust := 0\<rparr>, v')"
    by (simp add: write_sector_def write_cluster_def c new_fil_def sample_fil_def Let_def)
  have "f_fptr new_fil AND 511 = 0" "\<not> flagged new_fil FA__DIRTY" "f_fsize new_fil \<le> f_fptr new_fil"
    by (simp_all add: new_fil_def sample_fil_def flagged_def fa_defs)
  from write_after_full_leaves_chain [OF w this, of 1 "[65]" v'] show ?thesis
    using w by (simp add: new_fil_def word_less_nat_alt) blast
qed

end
