(* ===== verification/FfTree.thy ===== *)
theory FfTree
  imports FfWrite
begin

unbundle bit_operations_syntax

text \<open>
  The operations on paths: \<^verbatim>\<open>f_open\<close>, \<^verbatim>\<open>f_opendir\<close>, \<^verbatim>\<open>f_readdir\<close>, \<^verbatim>\<open>f_stat\<close>, \<^verbatim>\<open>f_getfree\<close>,
  \<^verbatim>\<open>f_unlink\<close>, \<^verbatim>\<open>f_mkdir\<close>, \<^verbatim>\<open>f_chmod\<close> and \<^verbatim>\<open>f_rename\<close> of \<^verbatim>\<open>ff.c\<close>. Each mounts the volume of its path and
  then works on that volume; the part on the volume is a definition of its own.  A pointer to a
  directory entry is the offset of the entry in the window, and \<open>None\<close> where it is \<^verbatim>\<open>NULL\<close>.
\<close>

section \<open>Common steps\<close>

definition on_mounted ::
  "BYTE list \<Rightarrow> BYTE \<Rightarrow> 'a \<Rightarrow> (BYTE list \<Rightarrow> nat \<Rightarrow> vol \<Rightarrow> (FRESULT \<times> 'a \<times> vol) option)
   \<Rightarrow> fsys \<Rightarrow> (FRESULT \<times> 'a \<times> fsys) option"
where
  "on_mounted path chk_wp x op s =
     Option.bind (auto_mount path chk_wp s) (\<lambda>(res, p, a, s).
       if res \<noteq> FR_OK then Some (res, x, s)
       else Option.bind (op p a (get_vol a s)) (\<lambda>(res, y, v). Some (res, y, put_vol a v s)))"

definition edit_win :: "(buffer \<Rightarrow> buffer) \<Rightarrow> vol \<Rightarrow> vol" where
  "edit_win f v = v\<lparr>win := f (win v)\<rparr>"

definition new_dirobj :: "nat \<Rightarrow> DIR" where
  "new_dirobj a = \<lparr>d_id = 0, d_index = 0, d_fs = a, d_sclust = 0, d_clust = 0, d_sect = 0\<rparr>"

definition blank_fn :: buffer where
  "blank_fn = replicate 12 0"

text \<open>The entry of a new object: cleared, named after the path, and the rest up to the caller.\<close>

definition named_entry :: "nat \<Rightarrow> buffer \<Rightarrow> buffer \<Rightarrow> buffer" where
  "named_entry dir fn w =
     (let w = splice dir (replicate 32 0) w; w = splice dir (take 11 fn) w in w[dir + 12 := fn ! 11])"

definition attr :: "nat \<Rightarrow> vol \<Rightarrow> BYTE" where
  "attr dir v = win v ! (dir + 11)"

section \<open>f\_open\<close>

text \<open>Truncation of an existing file; \<open>False\<close> is a disk error.\<close>

definition truncate_entry :: "nat \<Rightarrow> vol \<Rightarrow> (bool \<times> vol) option" where
  "truncate_entry dir v =
     (let rs = start_clust (dir_entry v dir);
          v = edit_win (\<lambda>w. ST_DWORD (dir + 28) 0 (ST_WORD (dir + 26) 0 (ST_WORD (dir + 20) 0 w))) v;
          v = v\<lparr>winflag := 1\<rparr>; ps = winsect v in
      Option.bind (remove_chain rs v) (\<lambda>(ok, v).
        if \<not> ok then Some (False, v)
        else (case move_window ps v of (ok, v) \<Rightarrow>
                if \<not> ok then Some (False, v) else Some (True, v\<lparr>last_clust := rs - 1\<rparr>))))"

definition stamp_entry :: "nat \<Rightarrow> vol \<Rightarrow> vol" where
  "stamp_entry dir v =
     (let ps = get_fattime (clock (disk v)) in
      (edit_win (\<lambda>w. ST_DWORD (dir + 14) ps (ST_DWORD (dir + 22) ps (w[dir + 11 := 0x20]))) v)\<lparr>winflag := 1\<rparr>)"

text \<open>Creation modes: the entry to use, or the error.\<close>

definition create_entry ::
  "BYTE \<Rightarrow> FRESULT \<Rightarrow> nat option \<Rightarrow> DIR \<Rightarrow> buffer \<Rightarrow> vol \<Rightarrow> (FRESULT \<times> nat \<times> BYTE \<times> vol) option"
where
  "create_entry mode res dir dirobj fn v =
     (if res \<noteq> FR_OK then
        (if res \<noteq> FR_NO_FILE then Some (res, 0, mode, v)
         else Option.bind (reserve_direntry dirobj v) (\<lambda>(res, dir, dirobj, v).
                if res \<noteq> FR_OK then Some (res, 0, mode, v)
                else Some (FR_OK, dir, mode OR FA_CREATE_ALWAYS,
                           stamp_entry dir (edit_win (named_entry dir fn) v))))
      else if mode AND FA_CREATE_NEW \<noteq> 0 then Some (FR_EXIST, 0, mode, v)
      else (case dir of
              None \<Rightarrow> Some (FR_DENIED, 0, mode, v)
            | Some dir \<Rightarrow>
                if attr dir v AND 0x11 \<noteq> 0 then Some (FR_DENIED, 0, mode, v)
                else if mode AND FA_CREATE_ALWAYS \<noteq> 0
                then Option.bind (truncate_entry dir v) (\<lambda>(ok, v).
                       if \<not> ok then Some (FR_RW_ERROR, 0, mode, v)
                       else Some (FR_OK, dir, mode, stamp_entry dir v))
                else Some (FR_OK, dir, mode, v)))"

definition existing_entry :: "BYTE \<Rightarrow> FRESULT \<Rightarrow> nat option \<Rightarrow> vol \<Rightarrow> FRESULT \<times> nat" where
  "existing_entry mode res dir v =
     (if res \<noteq> FR_OK then (res, 0)
      else (case dir of
              None \<Rightarrow> (FR_NO_FILE, 0)
            | Some dir \<Rightarrow>
                if attr dir v AND 0x10 \<noteq> 0 then (FR_NO_FILE, 0)
                else if mode AND FA_WRITE \<noteq> 0 \<and> attr dir v AND 0x01 \<noteq> 0 then (FR_DENIED, 0)
                else (FR_OK, dir)))"

definition bind_file :: "nat \<Rightarrow> BYTE \<Rightarrow> nat \<Rightarrow> vol \<Rightarrow> FIL \<Rightarrow> FIL" where
  "bind_file a mode dir v fp =
     fp\<lparr>f_dir_sect := winsect v, f_dir_ptr := dir, f_flag := mode,
        f_org_clust := start_clust (dir_entry v dir), f_fsize := LD_DWORD (win v) (dir + 28),
        f_fptr := 0, f_sect_clust := 1, f_fs := Some a, f_id := fs_id v\<rparr>"

definition open_vol :: "BYTE \<Rightarrow> FIL \<Rightarrow> BYTE list \<Rightarrow> nat \<Rightarrow> vol \<Rightarrow> (FRESULT \<times> FIL \<times> vol) option" where
  "open_vol mode fp path a v =
     Option.bind (trace_path (new_dirobj a) blank_fn path v) (\<lambda>(res, dir, dirobj, fn, v).
       if mode AND (FA_CREATE_ALWAYS OR FA_OPEN_ALWAYS OR FA_CREATE_NEW) \<noteq> 0
       then Option.bind (create_entry mode res dir dirobj fn v) (\<lambda>(res, dir, mode, v).
              if res \<noteq> FR_OK then Some (res, fp, v) else Some (FR_OK, bind_file a mode dir v fp, v))
       else (case existing_entry mode res dir v of (res, dir) \<Rightarrow>
              if res \<noteq> FR_OK then Some (res, fp, v) else Some (FR_OK, bind_file a mode dir v fp, v)))"

definition f_open :: "FIL \<Rightarrow> BYTE list \<Rightarrow> BYTE \<Rightarrow> fsys \<Rightarrow> (FRESULT \<times> FIL \<times> fsys) option" where
  "f_open fp path mode s =
     (let fp = fp\<lparr>f_fs := None\<rparr>;
          mode = mode AND (FA_READ OR FA_WRITE OR FA_CREATE_ALWAYS OR FA_OPEN_ALWAYS OR FA_CREATE_NEW)
      in on_mounted path (mode AND (FA_WRITE OR FA_CREATE_ALWAYS OR FA_OPEN_ALWAYS OR FA_CREATE_NEW)) fp
           (open_vol mode fp) s)"

section \<open>Reading directories\<close>

definition opendir_vol :: "DIR \<Rightarrow> BYTE list \<Rightarrow> nat \<Rightarrow> vol \<Rightarrow> (FRESULT \<times> DIR \<times> vol) option" where
  "opendir_vol dirobj path a v =
     Option.bind (trace_path (dirobj\<lparr>d_fs := a\<rparr>) blank_fn path v) (\<lambda>(res, dir, dirobj, fn, v).
       if res \<noteq> FR_OK then Some (res, dirobj, v)
       else (case dir of
               None \<Rightarrow> Some (FR_OK, dirobj\<lparr>d_id := fs_id v\<rparr>, v)
             | Some dir \<Rightarrow>
                 if attr dir v AND 0x10 \<noteq> 0
                 then (let clust = start_clust (dir_entry v dir)
                       in Some (FR_OK, dirobj\<lparr>d_clust := clust, d_sect := clust2sect v clust, d_index := 2,
                                         d_id := fs_id v\<rparr>, v))
                 else Some (FR_NO_FILE, dirobj\<lparr>d_id := fs_id v\<rparr>, v)))"

definition f_opendir :: "DIR \<Rightarrow> BYTE list \<Rightarrow> fsys \<Rightarrow> (FRESULT \<times> DIR \<times> fsys) option" where
  "f_opendir dirobj path s = on_mounted path 0 dirobj (opendir_vol dirobj) s"

definition live_entry :: "buffer \<Rightarrow> bool" where
  "live_entry dir \<longleftrightarrow> dir ! 0 \<noteq> 0xE5 \<and> dir ! 11 AND 0x08 = 0"

partial_function (option) readdir_loop :: "FILINFO \<Rightarrow> DIR \<Rightarrow> vol \<Rightarrow> (FRESULT \<times> FILINFO \<times> DIR \<times> vol) option" where
  "readdir_loop finfo dirobj v =
     (if d_sect dirobj = 0 then Some (FR_OK, finfo, dirobj, v)
      else (case move_window (d_sect dirobj) v of (ok, v) \<Rightarrow>
        if \<not> ok then Some (FR_RW_ERROR, finfo, dirobj, v)
        else let dir = dir_entry v (entry_off dirobj) in
             if dir ! 0 = 0 then Some (FR_OK, finfo, dirobj, v)
             else (case next_dir_entry dirobj v of (again, dirobj, v) \<Rightarrow>
                     let finfo = (if live_entry dir then get_fileinfo dir else finfo);
                         dirobj = (if again then dirobj else dirobj\<lparr>d_sect := 0\<rparr>)
                     in if char_at (fi_fname finfo) 0 \<noteq> 0 then Some (FR_OK, finfo, dirobj, v)
                        else readdir_loop finfo dirobj v)))"

definition f_readdir :: "DIR \<Rightarrow> FILINFO \<Rightarrow> fsys \<Rightarrow> (FRESULT \<times> FILINFO \<times> DIR \<times> fsys) option" where
  "f_readdir dirobj finfo s =
     (let a = d_fs dirobj; res = validate (Some a) (d_id dirobj) s in
      if res \<noteq> FR_OK then Some (res, finfo, dirobj, s)
      else Option.bind (readdir_loop (finfo\<lparr>fi_fname := []\<rparr>) dirobj (get_vol a s)) (\<lambda>(res, finfo, dirobj, v).
             Some (res, finfo, dirobj, put_vol a v s)))"

definition stat_vol :: "FILINFO \<Rightarrow> BYTE list \<Rightarrow> nat \<Rightarrow> vol \<Rightarrow> (FRESULT \<times> FILINFO \<times> vol) option" where
  "stat_vol finfo path a v =
     Option.bind (trace_path (new_dirobj a) blank_fn path v) (\<lambda>(res, dir, dirobj, fn, v).
       if res \<noteq> FR_OK then Some (res, finfo, v)
       else (case dir of
               None \<Rightarrow> Some (FR_INVALID_NAME, finfo, v)
             | Some dir \<Rightarrow> Some (FR_OK, get_fileinfo (dir_entry v dir), v)))"

definition f_stat :: "BYTE list \<Rightarrow> FILINFO \<Rightarrow> fsys \<Rightarrow> (FRESULT \<times> FILINFO \<times> fsys) option" where
  "f_stat path finfo s = on_mounted path 0 finfo (stat_vol finfo) s"

section \<open>f\_getfree\<close>

text \<open>The two loops; the first argument is the number of rounds, which their counters fix.\<close>

fun count_fat12 :: "nat \<Rightarrow> DWORD \<Rightarrow> DWORD \<Rightarrow> vol \<Rightarrow> DWORD \<times> vol" where
  "count_fat12 0 clust n v = (n, v)"
| "count_fat12 (Suc k) clust n v =
     (case get_cluster clust v of (c, v) \<Rightarrow>
        count_fat12 k (clust + 1) (if (ucast c :: WORD) = 0 then n + 1 else n) v)"

fun count_fat :: "nat \<Rightarrow> DWORD \<Rightarrow> BYTE \<Rightarrow> nat \<Rightarrow> DWORD \<Rightarrow> vol \<Rightarrow> bool \<times> DWORD \<times> vol" where
  "count_fat 0 sect f p n v = (True, n, v)"
| "count_fat (Suc k) sect f p n v =
     (case (if f = 0 then move_window sect v else (True, v)) of (ok, v) \<Rightarrow>
        if \<not> ok then (False, n, v)
        else let sect = (if f = 0 then sect + 1 else sect); p = (if f = 0 then 0 else p) in
             if fs_type v = FS_FAT16
             then count_fat k sect (f + 1) (p + 2) (if LD_WORD (win v) p = 0 then n + 1 else n) v
             else count_fat k sect (f + 2) (p + 4) (if LD_DWORD (win v) p = 0 then n + 1 else n) v)"

definition getfree_vol :: "vol \<Rightarrow> FRESULT \<times> DWORD \<times> vol" where
  "getfree_vol v =
     (if free_clust v \<le> max_clust v - 2 then (FR_OK, free_clust v, v)
      else if fs_type v = FS_FAT12
      then (case count_fat12 (max 1 (unat (max_clust v) - 2)) 2 0 v of (n, v) \<Rightarrow>
              (FR_OK, n, v\<lparr>free_clust := n\<rparr>))
      else (case count_fat (Suc (unat (max_clust v - 1))) (fatbase v) 0 0 0 v of (ok, n, v) \<Rightarrow>
              if \<not> ok then (FR_RW_ERROR, 0, v) else (FR_OK, n, v\<lparr>free_clust := n\<rparr>)))"

definition f_getfree :: "BYTE list \<Rightarrow> fsys \<Rightarrow> (FRESULT \<times> DWORD \<times> fsys) option" where
  "f_getfree drv s = on_mounted drv 0 0 (\<lambda>p a v. Some (getfree_vol v)) s"

section \<open>f\_unlink\<close>

text \<open>The test for an entry in the directory to remove: \<open>False\<close> at its end, \<open>True\<close> at an entry.\<close>

definition empty_test :: "buffer \<Rightarrow> bool option" where
  "empty_test sdir = (if sdir ! 0 = 0 then Some False else if live_entry sdir then Some True else None)"

definition remove_entry :: "nat \<Rightarrow> DWORD \<Rightarrow> DWORD \<Rightarrow> vol \<Rightarrow> (FRESULT \<times> unit \<times> vol) option" where
  "remove_entry dir dsect dclust v =
     (case move_window dsect v of (ok, v) \<Rightarrow>
        if \<not> ok then Some (FR_RW_ERROR, (), v)
        else Option.bind (remove_chain dclust ((edit_win (\<lambda>w. w[dir := 0xE5]) v)\<lparr>winflag := 1\<rparr>)) (\<lambda>(ok, v).
               if \<not> ok then Some (FR_RW_ERROR, (), v)
               else (case sync v of (res, v) \<Rightarrow> Some (res, (), v))))"

definition unlink_vol :: "BYTE list \<Rightarrow> nat \<Rightarrow> vol \<Rightarrow> (FRESULT \<times> unit \<times> vol) option" where
  "unlink_vol path a v =
     Option.bind (trace_path (new_dirobj a) blank_fn path v) (\<lambda>(res, dir, dirobj, fn, v).
       if res \<noteq> FR_OK then Some (res, (), v)
       else (case dir of
               None \<Rightarrow> Some (FR_INVALID_NAME, (), v)
             | Some dir \<Rightarrow>
                 if attr dir v AND 0x01 \<noteq> 0 then Some (FR_DENIED, (), v)
                 else let dsect = winsect v; dclust = start_clust (dir_entry v dir) in
                      if attr dir v AND 0x10 \<noteq> 0
                      then Option.bind (scan empty_test
                               (dirobj\<lparr>d_clust := dclust, d_sect := clust2sect v dclust, d_index := 2\<rparr>) v)
                             (\<lambda>(r, dirobj, v).
                                if r = Scan_error then Some (FR_RW_ERROR, (), v)
                                else if r = Scan_hit True then Some (FR_DENIED, (), v)
                                else remove_entry dir dsect dclust v)
                      else remove_entry dir dsect dclust v))"

definition f_unlink :: "BYTE list \<Rightarrow> fsys \<Rightarrow> (FRESULT \<times> unit \<times> fsys) option" where
  "f_unlink path s = on_mounted path 1 () unlink_vol s"

section \<open>f\_mkdir\<close>

definition dot_entries :: "DWORD \<Rightarrow> DWORD \<Rightarrow> DWORD \<Rightarrow> buffer \<Rightarrow> buffer" where
  "dot_entries tim dclust pclust fw =
     (let fw = splice 0 (replicate 11 0x20) fw;
          fw = ST_DWORD 22 tim (fw[0 := 0x2E, 11 := 0x10]);
          fw = (splice 32 (take 32 fw) fw)[33 := 0x2E]
      in ST_WORD (32 + 26) (ucast pclust) (ST_WORD 26 (ucast dclust) fw))"

definition dir_entry_of :: "nat \<Rightarrow> buffer \<Rightarrow> DWORD \<Rightarrow> DWORD \<Rightarrow> buffer \<Rightarrow> buffer" where
  "dir_entry_of dir fn tim dclust w =
     (let w = (named_entry dir fn w)[dir + 11 := 0x10];
          w = ST_WORD (dir + 26) (ucast dclust) (ST_DWORD (dir + 22) tim w)
      in ST_WORD (dir + 20) (ucast (drop_bit 16 dclust)) w)"

definition mkdir_table :: "DWORD \<Rightarrow> vol \<Rightarrow> bool \<times> vol" where
  "mkdir_table dsect v =
     (let v = v\<lparr>win := replicate 512 0\<rparr> in
      case clear_writes (\<lambda>b s. disk_write (drive v) b s 1) (win v) (dsect + 1) (unat (sects_clust v) - 1) (disk v) of
        (ok, d) \<Rightarrow> (ok, v\<lparr>disk := d\<rparr>))"

definition mkdir_vol :: "BYTE list \<Rightarrow> nat \<Rightarrow> vol \<Rightarrow> (FRESULT \<times> unit \<times> vol) option" where
  "mkdir_vol path a v =
     Option.bind (trace_path (new_dirobj a) blank_fn path v) (\<lambda>(res, dir, dirobj, fn, v).
       if res = FR_OK then Some (FR_EXIST, (), v)
       else if res \<noteq> FR_NO_FILE then Some (res, (), v)
       else Option.bind (reserve_direntry dirobj v) (\<lambda>(res, dir, dirobj, v).
         if res \<noteq> FR_OK then Some (res, (), v)
         else let sect = winsect v in
         Option.bind (create_chain 0 v) (\<lambda>(dclust, v).
           let dsect = clust2sect v dclust in
           if dclust = 1 then Some (FR_RW_ERROR, (), v)
           else if dsect = 0 then Some (FR_DENIED, (), v)
           else (case move_window dsect v of (ok, v) \<Rightarrow>
             if \<not> ok then Some (FR_RW_ERROR, (), v)
             else (case mkdir_table dsect v of (ok, v) \<Rightarrow>
               if \<not> ok then Some (FR_RW_ERROR, (), v)
               else let tim = get_fattime (clock (disk v));
                        v = (edit_win (dot_entries tim dclust (d_sclust dirobj)) v)\<lparr>winflag := 1\<rparr>
                    in (case move_window sect v of (ok, v) \<Rightarrow>
                         if \<not> ok then Some (FR_RW_ERROR, (), v)
                         else (case sync (edit_win (dir_entry_of dir fn tim dclust) v) of
                                 (res, v) \<Rightarrow> Some (res, (), v))))))))"

definition f_mkdir :: "BYTE list \<Rightarrow> fsys \<Rightarrow> (FRESULT \<times> unit \<times> fsys) option" where
  "f_mkdir path s = on_mounted path 1 () mkdir_vol s"

section \<open>f\_chmod and f\_rename\<close>

definition chmod_vol :: "BYTE \<Rightarrow> BYTE \<Rightarrow> BYTE list \<Rightarrow> nat \<Rightarrow> vol \<Rightarrow> (FRESULT \<times> unit \<times> vol) option" where
  "chmod_vol val msk path a v =
     Option.bind (trace_path (new_dirobj a) blank_fn path v) (\<lambda>(res, dir, dirobj, fn, v).
       if res \<noteq> FR_OK then Some (res, (), v)
       else (case dir of
               None \<Rightarrow> Some (FR_INVALID_NAME, (), v)
             | Some dir \<Rightarrow>
                 let msk = msk AND 0x27;
                     v = edit_win (\<lambda>w. w[dir + 11 := (val AND msk) OR (w ! (dir + 11) AND NOT msk)]) v
                 in case sync v of (res, v) \<Rightarrow> Some (res, (), v)))"

definition f_chmod :: "BYTE list \<Rightarrow> BYTE \<Rightarrow> BYTE \<Rightarrow> fsys \<Rightarrow> (FRESULT \<times> unit \<times> fsys) option" where
  "f_chmod path val msk s = on_mounted path 1 () (chmod_vol val msk) s"

definition renamed_entry :: "nat \<Rightarrow> buffer \<Rightarrow> buffer \<Rightarrow> buffer \<Rightarrow> buffer" where
  "renamed_entry dir direntry fn w =
     (splice dir (take 11 fn) (splice (dir + 11) direntry w))[dir + 12 := fn ! 11]"

definition rename_vol :: "BYTE list \<Rightarrow> BYTE list \<Rightarrow> nat \<Rightarrow> vol \<Rightarrow> (FRESULT \<times> unit \<times> vol) option" where
  "rename_vol path_new path_old a v =
     Option.bind (trace_path (new_dirobj a) blank_fn path_old v) (\<lambda>(res, dir_old, dirobj, fn, v).
       if res \<noteq> FR_OK then Some (res, (), v)
       else (case dir_old of
               None \<Rightarrow> Some (FR_NO_FILE, (), v)
             | Some dir_old \<Rightarrow>
                 let sect_old = winsect v; direntry = drop 11 (dir_entry v dir_old) in
                 Option.bind (trace_path dirobj fn path_new v) (\<lambda>(res, dir_new, dirobj, fn, v).
                   if res = FR_OK then Some (FR_EXIST, (), v)
                   else if res \<noteq> FR_NO_FILE then Some (res, (), v)
                   else Option.bind (reserve_direntry dirobj v) (\<lambda>(res, dir_new, dirobj, v).
                     if res \<noteq> FR_OK then Some (res, (), v)
                     else let v = (edit_win (renamed_entry dir_new direntry fn) v)\<lparr>winflag := 1\<rparr> in
                          (case move_window sect_old v of (ok, v) \<Rightarrow>
                             if \<not> ok then Some (FR_RW_ERROR, (), v)
                             else (case sync (edit_win (\<lambda>w. w[dir_old := 0xE5]) v) of
                                     (res, v) \<Rightarrow> Some (res, (), v)))))))"

definition f_rename :: "BYTE list \<Rightarrow> BYTE list \<Rightarrow> fsys \<Rightarrow> (FRESULT \<times> unit \<times> fsys) option" where
  "f_rename path_old path_new s = on_mounted path_old 1 () (rename_vol path_new) s"

end
