(* ===== verification/FfFree.thy ===== *)
theory FfFree
  imports FfTree
begin

unbundle bit_operations_syntax

text \<open>
  \<^verbatim>\<open>f_getfree\<close> counts the free clusters by a scan of the whole FAT.  The scan keeps a pointer into the
  window and a counter that wraps to zero at the end of a sector; the invariant ties both to the
  number of the byte of the FAT the scan has reached.
\<close>

section \<open>The scan over the sectors of the FAT\<close>

definition scan_pos :: "vol \<Rightarrow> vol \<Rightarrow> nat \<Rightarrow> bool" where
  "scan_pos v u i \<longleftrightarrow> same_view v u \<and> (i mod 512 \<noteq> 0 \<longrightarrow> winsect u = fatbase v + of_nat (i div 512))"

definition scan_sect :: "vol \<Rightarrow> nat \<Rightarrow> DWORD" where
  "scan_sect v i = fatbase v + of_nat ((i + 511) div 512)"

lemma of_nat_byte_zero: "(of_nat m :: BYTE) = 0 \<longleftrightarrow> m mod 256 = 0"
proof -
  have "unat (of_nat m :: BYTE) = m mod 256" by (simp add: unat_of_nat)
  then show ?thesis by (metis unat_eq_zero)
qed

lemma half_byte_zero: "even i \<Longrightarrow> (of_nat (i div 2) :: BYTE) = 0 \<longleftrightarrow> i mod 512 = 0"
proof (erule evenE)
  fix b assume "i = 2 * b"
  moreover have "2 * b mod 512 = 2 * (b mod 256)" using mult_mod_right [of 2 b 256] by simp
  ultimately show ?thesis by (simp add: of_nat_byte_zero)
qed

lemma sector_up: "(i + 511) div 512 = (if i mod 512 = 0 then i div 512 else i div 512 + (1 :: nat))"
proof -
  have split: "i + 511 = 512 * (i div 512) + (i mod 512 + 511)" by simp
  show ?thesis
  proof (cases "i mod 512 = 0")
    case True
    then show ?thesis using div_mod_512 [OF _ split] by simp
  next
    case False
    then obtain r where r: "i mod 512 = Suc r" by (cases "i mod 512") auto
    have "i mod 512 < 512" by simp
    then have lt: "r < 512" using r by linarith
    have "n = 512 * (q + 1) + r" if "n = 512 * q + (m + 511)" "m = Suc r" for n q m :: nat
      using that by simp
    from div_mod_512 [OF lt this [OF split r]] False show ?thesis by (simp only: if_False)
  qed
qed

lemma fat_byte_win:
  "winsect u = fatbase u + of_nat (k div 512) \<Longrightarrow> fat_byte u k = win u ! (k mod 512)"
  by (simp add: fat_byte_def eff_def)

lemma scan_load:
  assumes ok: "vol_ok v" and i: "i < fat_bytes v" and pos: "scan_pos v u i" and e: "even i"
    and ld: "(if (of_nat (i div 2) :: BYTE) = 0 then move_window (scan_sect v i) u else (True, u)) = (r, u')"
  shows "r \<and> same_view v u' \<and> winsect u' = fatbase v + of_nat (i div 512) \<and>
    (\<forall>k < fat_bytes v. k div 512 = i div 512 \<longrightarrow> win u' ! (k mod 512) = fat_byte v k)"
proof -
  have sv: "same_view v u" using pos by (simp add: scan_pos_def)
  have W: "winsect u' = fatbase v + of_nat (i div 512) \<and> r \<and> same_view v u'"
  proof (cases "i mod 512 = 0")
    case True
    have ok': "vol_ok u" and b: "fatbase u = fatbase v" "fat_bytes u = fat_bytes v"
      using sv geom_eqD [of u v] by (simp_all add: same_view_def fat_bytes_def)
    have "move_window (fatbase u + of_nat (i div 512)) u = (r, u')"
      using ld half_byte_zero [OF e] True sector_up [of i] by (simp add: scan_sect_def b)
    from move_to_fat [OF ok' _ this] i b same_view_trans [OF sv] show ?thesis by auto
  next
    case False
    then show ?thesis using ld half_byte_zero [OF e] pos by (auto simp: scan_pos_def)
  qed
  have "fatbase u' = fatbase v" using W geom_eqD [of u' v] by (simp add: same_view_def)
  then have "win u' ! (k mod 512) = fat_byte v k" if "k < fat_bytes v" "k div 512 = i div 512" for k
    using fat_byte_win [of u' k] fat_byte_same_view [OF ok _ that(1), of u'] W that(2) by simp
  then show ?thesis using W by blast
qed

text \<open>An entry of the FAT is free for \<^verbatim>\<open>f_getfree\<close> when all its \<open>b\<close> bytes are zero.\<close>

definition raw_free :: "nat \<Rightarrow> vol \<Rightarrow> nat \<Rightarrow> bool" where
  "raw_free b v e \<longleftrightarrow> (\<forall>j < b. fat_byte v (b * e + j) = 0)"

definition entry_bytes :: "vol \<Rightarrow> nat" where
  "entry_bytes v = (if fs_type v = FS_FAT16 then 2 else 4)"

lemma LD_WORD_zero: "LD_WORD w p = 0 \<longleftrightarrow> w ! p = 0 \<and> w ! (p + 1) = 0"
proof -
  have "LD_WORD w p = 0 \<Longrightarrow> w ! p = 0 \<and> w ! (p + 1) = 0"
  proof -
    assume z: "LD_WORD w p = 0"
    have "w ! p = ucast (LD_WORD w p)" "w ! (p + 1) = ucast (drop_bit 8 (LD_WORD w p))"
      unfolding LD_WORD_def by (rule bit_word_eqI, auto simp add: bit_simps dest: bit_imp_le_length)+
    with z show ?thesis by simp
  qed
  then show ?thesis by (auto simp: LD_WORD_def)
qed

lemma LD_DWORD_zero:
  "LD_DWORD w p = 0 \<longleftrightarrow> w ! p = 0 \<and> w ! (p + 1) = 0 \<and> w ! (p + 2) = 0 \<and> w ! (p + 3) = 0"
proof -
  have "LD_DWORD w p = 0 \<Longrightarrow> w ! p = 0 \<and> w ! (p + 1) = 0 \<and> w ! (p + 2) = 0 \<and> w ! (p + 3) = 0"
  proof -
    assume z: "LD_DWORD w p = 0"
    have "w ! p = ucast (LD_DWORD w p)" "w ! (p + 1) = ucast (drop_bit 8 (LD_DWORD w p))"
      "w ! (p + 2) = ucast (drop_bit 16 (LD_DWORD w p))" "w ! (p + 3) = ucast (drop_bit 24 (LD_DWORD w p))"
      unfolding LD_DWORD_def by (rule bit_word_eqI, auto simp add: bit_simps dest: bit_imp_le_length)+
    with z show ?thesis by simp
  qed
  then show ?thesis by (auto simp: LD_DWORD_def)
qed

lemma entry_sector:
  assumes "b = 2 \<or> b = 4" "j < b"
  shows "(b * e + j) div 512 = b * e div 512" "(b * e + j) mod 512 = b * e mod 512 + (j :: nat)"
  using assms aligned_2_sector [of j e] aligned_4_sector [of j e] by auto

lemma scan_step:
  assumes ok: "vol_ok v" and b: "b = 2 \<or> b = 4" and c: "b * e + b \<le> fat_bytes v"
    and pos: "scan_pos v u (b * e)"
    and ld: "(if (of_nat (b * e div 2) :: BYTE) = 0 then move_window (scan_sect v (b * e)) u else (True, u)) = (r, u')"
  shows "r" "same_view v u'" "scan_pos v u' (b * Suc e)"
    "\<And>j. j < b \<Longrightarrow> win u' ! (b * e mod 512 + j) = fat_byte v (b * e + j)"
proof -
  have "b * e < fat_bytes v" "even (b * e)" using b c by auto
  from scan_load [OF ok this(1) pos this(2) ld] have
    L: "r" "same_view v u'" "winsect u' = fatbase v + of_nat (b * e div 512)"
    "\<forall>k < fat_bytes v. k div 512 = b * e div 512 \<longrightarrow> win u' ! (k mod 512) = fat_byte v k" by auto
  then show "r" "same_view v u'" by simp_all
  show "win u' ! (b * e mod 512 + j) = fat_byte v (b * e + j)" if "j < b" for j
  proof -
    have "b * e + j < fat_bytes v" using c that by linarith
    then show ?thesis using L(4) entry_sector [OF b that, of e] by metis
  qed
  have "b * Suc e div 512 = b * e div 512" if "b * Suc e mod 512 \<noteq> 0"
  proof -
    obtain k where k: "b * Suc e = Suc k" using b by (cases "b * Suc e") auto
    then have "k = b * e + (b - 1)" using b by auto
    then have "k div 512 = b * e div 512" using entry_sector(1) [OF b, of "b - 1" e] b by auto
    moreover have "Suc k div 512 = k div 512" using that unfolding k by (simp only: div_Suc if_False)
    ultimately show ?thesis unfolding k by simp
  qed
  then show "scan_pos v u' (b * Suc e)" using L by (auto simp: scan_pos_def)
qed

lemma scan_sect_next:
  assumes b: "b = 2 \<or> b = 4"
  shows "(if (of_nat (b * e div 2) :: BYTE) = 0 then scan_sect v (b * e) + 1 else scan_sect v (b * e))
    = scan_sect v (b * Suc e)"
proof -
  have n: "(b * Suc e + 511) div 512 = b * e div 512 + 1"
  proof -
    have "b * Suc e + 511 = b * e + (b - 1) + 512" using b by auto
    then have "(b * Suc e + 511) div 512 = (b * e + (b - 1)) div 512 + 1" by simp
    also have "(b * e + (b - 1)) div 512 = b * e div 512" using entry_sector(1) [OF b, of "b - 1" e] b by auto
    finally show ?thesis .
  qed
  have "even (b * e)" using b by auto
  then show ?thesis unfolding scan_sect_def n using half_byte_zero [of "b * e"] sector_up [of "b * e"] by simp
qed

lemma scan_ptr_next:
  assumes b: "b = 2 \<or> b = 4"
  shows "(of_nat (b * e div 2) :: BYTE) + of_nat (b div 2) = of_nat (b * Suc e div 2)"
  using b by (auto simp: algebra_simps)

text \<open>The count the scan reaches after \<open>k\<close> entries from entry \<open>e\<close> on.\<close>

definition free_from :: "vol \<Rightarrow> nat \<Rightarrow> nat \<Rightarrow> nat" where
  "free_from v e k = length (filter (raw_free (entry_bytes v) v) [e..<e + k])"

lemma free_from_Suc:
  "free_from v e (Suc k) = (if raw_free (entry_bytes v) v e then Suc (free_from v (Suc e) k) else free_from v (Suc e) k)"
proof -
  have "[e..<e + Suc k] = e # [Suc e..<Suc e + k]" by (simp add: upt_conv_Cons)
  then show ?thesis by (simp add: free_from_def)
qed

lemma all_less_2: "(\<forall>j < 2. P j) \<longleftrightarrow> P 0 \<and> P (1 :: nat)"
  by (auto simp: less_2_cases_iff)

lemma all_less_4: "(\<forall>j < 4. P j) \<longleftrightarrow> P 0 \<and> P 1 \<and> P 2 \<and> P (3 :: nat)"
proof -
  have "j = 0 \<or> j = 1 \<or> j = 2 \<or> j = 3" if "j < 4" for j :: nat using that by linarith
  then show ?thesis by (metis zero_less_numeral one_less_numeral_iff numeral_less_iff semiring_norm(76,78,80,81))
qed

lemma entry_ptr_next:
  assumes "b = 2 \<or> b = 4" "b * Suc e mod 512 \<noteq> 0"
  shows "b * e mod 512 + b = b * Suc e mod (512 :: nat)"
proof -
  have "b * e mod 512 + (b - 1) < 512"
    using entry_sector(2) [OF assms(1), of "b - 1" e] assms(1) mod_less_divisor [of 512 "b * e + (b - 1)"] by auto
  moreover have "b * e mod 512 + b \<noteq> 512"
  proof
    assume "b * e mod 512 + b = 512"
    then have "(b * e + b) mod 512 = 0" by (metis mod_add_left_eq mod_self)
    then show False using assms(2) by (simp add: algebra_simps)
  qed
  ultimately have "b * e mod 512 + b < 512" using assms(1) by auto
  then have "(b * e mod 512 + b) mod 512 = b * e mod 512 + b" by simp
  moreover have "(b * e mod 512 + b) mod 512 = (b * e + b) mod 512" by (rule mod_add_left_eq)
  moreover have "b * e + b = b * Suc e" by simp
  ultimately show ?thesis by (simp only:)
qed

lemma count_fat_ok:
  assumes ok: "vol_ok v" and b: "b = entry_bytes v" and c: "b * (e + k) \<le> fat_bytes v"
    and pos: "scan_pos v u (b * e)" and p: "b * e mod 512 \<noteq> 0 \<Longrightarrow> p = b * e mod 512"
  shows "\<exists>u'. count_fat k (scan_sect v (b * e)) (of_nat (b * e div 2)) p n u =
      (True, n + of_nat (free_from v e k), u') \<and> same_view v u'"
  using c pos p
proof (induction k arbitrary: e n p u)
  case 0
  then show ?case by (simp add: free_from_def scan_pos_def)
next
  case (Suc k)
  have b24: "b = 2 \<or> b = 4" by (auto simp: b entry_bytes_def)
  let ?i = "b * e" and ?f = "of_nat (b * e div 2) :: BYTE"
  obtain r u' where ld: "(if ?f = 0 then move_window (scan_sect v ?i) u else (True, u)) = (r, u')" by fastforce
  have c: "b * e + b \<le> fat_bytes v" using Suc.prems(1) by (simp add: algebra_simps)
  note S = scan_step [OF ok b24 c Suc.prems(2) ld]
  define q where "q = (if ?f = 0 then 0 else p)"
  have "even ?i" using b24 by auto
  then have q: "q = ?i mod 512" using Suc.prems(3) half_byte_zero [of ?i] by (simp add: q_def)
  define n' where "n' = (if raw_free b v e then n + 1 else n)"
  have t: "fs_type u' = fs_type v" using S(2) geom_eqD [of u' v] by (simp add: same_view_def)
  have z2: "LD_WORD (win u') q = 0 \<longleftrightarrow> raw_free b v e" if "b = 2"
    using S(4) [of 0] S(4) [of 1] that unfolding q raw_free_def LD_WORD_zero by (simp add: all_less_2)
  have z4: "LD_DWORD (win u') q = 0 \<longleftrightarrow> raw_free b v e" if "b = 4"
    using S(4) [of 0] S(4) [of 1] S(4) [of 2] S(4) [of 3] that
    unfolding q raw_free_def LD_DWORD_zero by (simp add: all_less_4)
  have step: "count_fat (Suc k) (scan_sect v ?i) ?f p n u =
      count_fat k (scan_sect v (b * Suc e)) (of_nat (b * Suc e div 2)) (q + b) n' u'"
    using S(1) ld t z2 z4 b24 scan_sect_next [OF b24, of e v] scan_ptr_next [OF b24, of e]
    by (auto simp: q_def n'_def b entry_bytes_def Let_def add.commute split: if_splits)
  have "b * Suc e mod 512 \<noteq> 0 \<Longrightarrow> q + b = b * Suc e mod 512"
    using entry_ptr_next [OF b24] q by simp
  from Suc.IH [OF _ S(3) this, of n'] obtain u'' where
    "count_fat k (scan_sect v (b * Suc e)) (of_nat (b * Suc e div 2)) (q + b) n' u' =
      (True, n' + of_nat (free_from v (Suc e) k), u'') \<and> same_view v u''"
    using Suc.prems(1) by auto
  then show ?case unfolding step by (simp add: n'_def free_from_Suc b)
qed

section \<open>The property\<close>

lemma free_from_card: "free_from v 0 k = card {e. e < k \<and> raw_free (entry_bytes v) v e}"
proof -
  have "{e. e < k \<and> raw_free (entry_bytes v) v e} = set (filter (raw_free (entry_bytes v) v) [0..<k])" by auto
  moreover have "distinct (filter (raw_free (entry_bytes v) v) [0..<k])" by simp
  ultimately show ?thesis unfolding free_from_def by (metis add_0 distinct_card)
qed

text \<open>C10: when the count of free clusters is not known, \<open>f_getfree\<close> on a FAT16 or FAT32 volume finds it by
  one pass over the FAT: the number of entries whose bytes are all zero. It changes no sector as the
  file system sees it, and the next call answers from the count it leaves.\<close>

theorem getfree_counts:
  assumes ok: "vol_ok v" and t: "fs_type v \<noteq> FS_FAT12" and m: "2 \<le> max_clust v" and u: "max_clust v - 2 < free_clust v"
  shows "\<exists>u'. getfree_vol v = (FR_OK, of_nat (card {e. e < unat (max_clust v) \<and> raw_free (entry_bytes v) v e}),
      u'\<lparr>free_clust := of_nat (card {e. e < unat (max_clust v) \<and> raw_free (entry_bytes v) v e})\<rparr>) \<and>
    same_view v u'"
proof -
  have g: "geom_ok v" using ok by (simp add: vol_ok_def)
  have m2: "2 \<le> unat (max_clust v)" using m by (simp add: word_le_nat_alt)
  have "entry_bytes v * (0 + unat (max_clust v)) \<le> fat_bytes v"
    using g t by (auto simp: geom_ok_def fat_fits_def fat_bytes_def entry_bytes_def fs_type_defs)
  moreover have "scan_pos v v (entry_bytes v * 0)" by (simp add: scan_pos_def same_view_refl ok)
  ultimately have "\<exists>u'. count_fat (unat (max_clust v)) (scan_sect v (entry_bytes v * 0)) (of_nat (entry_bytes v * 0 div 2)) 0 0 v =
      (True, 0 + of_nat (free_from v 0 (unat (max_clust v))), u') \<and> same_view v u'"
    by (intro count_fat_ok [OF ok refl]) auto
  then obtain u' where c: "count_fat (unat (max_clust v)) (fatbase v) 0 0 0 v =
      (True, of_nat (free_from v 0 (unat (max_clust v))), u')" "same_view v u'"
    by (auto simp: scan_sect_def)
  have "Suc (unat (max_clust v - 1)) = unat (max_clust v)" using m2 by (simp add: unat_sub word_le_nat_alt)
  moreover have nu: "\<not> free_clust v \<le> max_clust v - 2" using u by simp
  ultimately have "getfree_vol v = (FR_OK, of_nat (free_from v 0 (unat (max_clust v))),
      u'\<lparr>free_clust := of_nat (free_from v 0 (unat (max_clust v)))\<rparr>)"
    using t nu c(1) by (simp only: getfree_vol_def if_False) simp
  then show ?thesis using c(2) by (auto simp: free_from_card)
qed

theorem getfree_counts_witness:
  "\<exists>u'. getfree_vol (sample_vol\<lparr>free_clust := 0xFFFFFFFF\<rparr>) = (FR_OK, 7, u') \<and> free_clust u' = 7"
proof -
  let ?v = "sample_vol\<lparr>free_clust := 0xFFFFFFFF\<rparr>"
  have ok: "vol_ok ?v" using sample_ok by (simp add: vol_ok_def geom_ok_def fat_fits_def win_ok_def)
  have f: "fs_type ?v \<noteq> FS_FAT12" "2 \<le> max_clust ?v" "max_clust ?v - 2 < free_clust ?v"
    by (simp_all add: sample_vol_def fs_type_defs word_le_nat_alt)
  have b: "entry_bytes ?v = 2" "max_clust ?v = 10" by (simp_all add: entry_bytes_def sample_vol_def)
  have "fat_byte ?v k = fat_byte sample_vol k" for k by (simp add: fat_byte_def eff_def)
  then have z: "raw_free 2 ?v e \<longleftrightarrow> e \<notin> {2, 3, 5}" if "e < 10" for e
    using that by (auto simp: raw_free_def all_less_2 sample_byte sample_blk_def)
  have "{e. e < unat (max_clust ?v) \<and> raw_free (entry_bytes ?v) ?v e} = {e. e < 10 \<and> e \<notin> {2, 3, 5}}"
    using z by (auto simp: b)
  also have "\<dots> = {0, 1, 4, 6, 7, 8, 9}" by auto
  finally have "card {e. e < unat (max_clust ?v) \<and> raw_free (entry_bytes ?v) ?v e} = 7" by simp
  with getfree_counts [OF ok f] show ?thesis by auto
qed

end
