(* ===== verification/FfEdit.thy ===== *)
theory FfEdit
  imports FfFree
begin

unbundle bit_operations_syntax

text \<open>
  Operations that edit one directory entry and write it through: \<^verbatim>\<open>f_chmod\<close> and \<^verbatim>\<open>f_unlink\<close>.  An
  edit in the window followed by \<^verbatim>\<open>sync\<close> changes one sector of the disk; \<^verbatim>\<open>f_unlink\<close> composes it
  with the release of the cluster chain.
\<close>

section \<open>Editing the window\<close>

lemma edit_ok:
  assumes "vol_ok v" "fatbase v \<le> winsect v" "length (f (win v)) = 512"
  shows "vol_ok ((edit_win f v)\<lparr>winflag := 1\<rparr>)"
proof -
  have "winsect v \<noteq> 0" using assms(1,2) by (auto simp: vol_ok_def geom_ok_def word_le_nat_alt)
  then show ?thesis using assms by (simp add: vol_ok_def geom_ok_def fat_fits_def win_ok_def edit_win_def)
qed

lemma edit_geom: "geom ((edit_win f v)\<lparr>winflag := 1\<rparr>) = geom v"
  by (simp add: geom_def edit_win_def)

lemma edit_eff: "eff ((edit_win f v)\<lparr>winflag := 1\<rparr>) t = (if t = winsect v then f (win v) else eff v t)"
  by (simp add: eff_def edit_win_def)

lemma sync_ok:
  assumes ok: "vol_ok (v\<lparr>winflag := 1\<rparr>)" and s: "sync v = (r, v')"
  shows "r = FR_OK" "geom v' = geom v" "vol_ok v'" "sector_of (disk v') (winsect v) = win v"
    "\<And>t. \<not> backup v t \<Longrightarrow> eff v' t = eff v t" "\<And>t. eff v' t = sector_of (disk v') t"
proof -
  let ?v = "v\<lparr>winflag := 1\<rparr>"
  have nz: "winsect ?v \<noteq> 0" using ok by (auto simp: vol_ok_def win_ok_def)
  obtain q u where f: "flush_window ?v = (q, u)" by fastforce
  have "winflag ?v \<noteq> 0" by simp
  note F = flush_window_ok [OF ok this f]
  have v': "v' = u \<and> r = FR_OK"
    using s nz f F(1) by (auto simp: sync_def move_window_def disk_ioctl_def)
  then show "r = FR_OK" "geom v' = geom v" "sector_of (disk v') (winsect v) = win v"
    using F by (auto simp: geom_def)
  have g: "geom u = geom ?v" using F(7) .
  show "vol_ok v'"
    using ok v' F(2,3,4,5,8) geom_eqD [OF g] geom_ok_cong [OF g] nz
    by (auto simp: vol_ok_def win_ok_def geom_ok_def fat_fits_def split: if_splits)
  show "eff v' t = eff v t" if "\<not> backup v t" for t
    using F(3,4) F(6) [of t] that v' by (simp add: eff_def backup_def)
  show "eff v' t = sector_of (disk v') t" for t
    using F(3,4,5) v' by (simp add: eff_def)
qed

text \<open>The entries of the FAT do not depend on sectors outside of it.\<close>

lemma fat_entry_outside:
  assumes g: "geom_ok v" and e: "c < unat (max_clust v)" and k: "geom v' = geom v"
    and same: "\<And>t. in_fat v t \<Longrightarrow> \<not> backup v t \<Longrightarrow> eff v' t = eff v t"
  shows "fat_entry v' c = fat_entry v c"
proof (rule fat_entry_cong [OF g e])
  show "fs_type v' = fs_type v" using geom_eqD [OF k] by simp
  show "fat_byte v' i = fat_byte v i" if "i < fat_bytes v" for i
    using fat_sector(3,4) [OF g that] same geom_eqD [OF k] by (simp add: fat_byte_def)
qed

section \<open>The entry a path leads to\<close>

lemma move_window_sect: "move_window s v = (True, u) \<Longrightarrow> s \<noteq> 0 \<Longrightarrow> winsect u = s"
  by (auto simp: move_window_def load_window_def split: if_splits prod.splits)

lemma on_entry_window:
  assumes ok: "vol_ok v" and sv: "same_view v u" and on: "on_entry v p u"
  shows "winsect u = d_sect p" "fatbase u \<le> winsect u" "win u = eff v (d_sect p)" "length (win u) = 512"
    "dir_entry u (entry_off p) = entry_view v p" "d_sect p \<noteq> 0" "\<not> backup v (d_sect p)"
proof -
  have d: "fatbase v \<le> d_sect p" "\<not> backup v (d_sect p)" using on by (simp_all add: on_entry_def dir_ok_def)
  then show nz: "d_sect p \<noteq> 0" "\<not> backup v (d_sect p)"
    using ok by (auto simp: vol_ok_def geom_ok_def word_le_nat_alt)
  show w: "winsect u = d_sect p" using on move_window_sect nz by (auto simp: on_entry_def)
  show "fatbase u \<le> winsect u" using w d sv geom_eqD [of u v] by (simp add: same_view_def)
  have "eff u (d_sect p) = eff v (d_sect p)" using sv nz by (simp add: same_view_def)
  then show "win u = eff v (d_sect p)" using eff_winsect [of u] w by simp
  then show "length (win u) = 512" using length_eff [OF ok] by simp
  show "dir_entry u (entry_off p) = entry_view v p" using on by (simp add: on_entry_def)
qed

lemma entry_off_bound: "entry_off p + 32 \<le> 512"
proof -
  have "unat (d_index p AND 15) < 16" by (simp add: unat_and_15_16)
  then show ?thesis by (simp add: entry_off_def)
qed

lemma entry_nth:
  assumes "vol_ok v" "j < 32"
  shows "entry_view v p ! j = eff v (d_sect p) ! (entry_off p + j)"
  using assms entry_off_bound [of p] length_eff [OF assms(1)] by (simp add: entry_view_def)

text \<open>An edit of byte \<open>j\<close> of the entry, as the directory shows it.\<close>

lemma entry_update:
  assumes "length b = 512" "j < 32"
  shows "take 32 (drop (entry_off p) (b[entry_off p + j := x])) = (take 32 (drop (entry_off p) b))[j := x]"
  using assms entry_off_bound [of p] by (simp add: drop_update_swap take_update_swap)

lemma path_entry:
  assumes "vol_ok v" "data_ok v" "root_dir v (new_dirobj a) ps" "good_path ss" "resolves v ps ss (FR_OK, Some p)"
  shows "\<exists>fn u. trace_path (new_dirobj a) blank_fn (join_path ss) v = Some (FR_OK, Some (entry_off p), p, fn, u) \<and>
    same_view v u \<and> on_entry v p u"
  using trace_path_resolves_spec [OF assms(1-4) _ assms(5), of blank_fn] by (auto simp: blank_fn_def)

section \<open>f\_chmod\<close>

text \<open>C9: \<open>f_chmod\<close> on a path that leads to an entry changes the attribute bits given by the mask (of
  read-only, hidden, system and archive) to those of the value and nothing else: the sector of the
  entry on the disk is the old one with that byte replaced, and no other sector changes as the file
  system sees it.\<close>

theorem chmod_changes_attribute:
  assumes ok: "vol_ok v" "data_ok v" and path: "root_dir v (new_dirobj a) ps" "good_path ss"
    "resolves v ps ss (FR_OK, Some p)"
  shows "\<exists>v'. chmod_vol val msk (join_path ss) a v = Some (FR_OK, (), v') \<and> vol_ok v' \<and> geom v' = geom v \<and>
    sector_of (disk v') (d_sect p) = (eff v (d_sect p))
      [entry_off p + 11 := (val AND (msk AND 0x27)) OR (entry_view v p ! 11 AND NOT (msk AND 0x27))] \<and>
    (\<forall>t. t \<noteq> 0 \<longrightarrow> t \<noteq> d_sect p \<longrightarrow> \<not> backup v t \<longrightarrow> eff v' t = eff v t)"
proof -
  from path_entry [OF ok path] obtain fn u where
    T: "trace_path (new_dirobj a) blank_fn (join_path ss) v = Some (FR_OK, Some (entry_off p), p, fn, u)"
    "same_view v u" "on_entry v p u" by blast
  note W = on_entry_window [OF ok(1) T(2,3)]
  define f where "f = (\<lambda>w. w[entry_off p + 11 := (val AND (msk AND 0x27)) OR (w ! (entry_off p + 11) AND NOT (msk AND 0x27))])"
  have uo: "vol_ok u" using T(2) by (simp add: same_view_def)
  have ed: "vol_ok ((edit_win f u)\<lparr>winflag := 1\<rparr>)" by (rule edit_ok [OF uo W(2)]) (simp add: f_def W(4))
  obtain r v' where s: "sync (edit_win f u) = (r, v')" by fastforce
  note S = sync_ok [OF ed s]
  have g: "geom v' = geom v" using S(2) T(2) by (simp add: same_view_def geom_def edit_win_def)
  have b: "backup (edit_win f u) = backup v" using T(2) backup_cong [of u v] by (simp add: same_view_def backup_def edit_win_def fun_eq_iff)
  have e: "eff v' t = eff v t" if "t \<noteq> 0" "t \<noteq> d_sect p" "\<not> backup v t" for t
  proof -
    have "eff v' t = eff (edit_win f u) t" using S(5) b that by simp
    also have "\<dots> = eff u t" using that W(1) by (simp add: eff_def edit_win_def)
    finally show ?thesis using T(2) that by (simp add: same_view_def)
  qed
  have "chmod_vol val msk (join_path ss) a v = Some (FR_OK, (), v')"
    using T(1) s S(1) by (simp add: chmod_vol_def Let_def f_def)
  moreover have "sector_of (disk v') (d_sect p) = f (eff v (d_sect p))"
    using S(4) W by (simp add: edit_win_def)
  moreover have "f (eff v (d_sect p)) = (eff v (d_sect p))
      [entry_off p + 11 := (val AND (msk AND 0x27)) OR (entry_view v p ! 11 AND NOT (msk AND 0x27))]"
    by (simp add: f_def entry_nth [OF ok(1)])
  ultimately show ?thesis using S(3) g e by auto
qed

theorem chmod_changes_attribute_witness:
  "\<exists>v'. chmod_vol 0x01 0x21 [0x61, 0x2E, 0x74, 0x78, 0x74] 0 sample_vol = Some (FR_OK, (), v') \<and>
     sector_of (disk v') 3 ! 11 = 0x01"
proof -
  let ?p = "root_pos sample_vol (new_dirobj 0) 0"
  have s: "d_sect ?p = 3" by (simp add: root_pos_def sample_vol_def)
  from chmod_changes_attribute [OF sample_ok sample_data_ok sample_root sample_path(1,2), of "0x01" "0x21" 0]
  obtain v' where "chmod_vol 0x01 0x21 (join_path [([0x61], [0x74, 0x78, 0x74])]) 0 sample_vol = Some (FR_OK, (), v')"
    "sector_of (disk v') 3 = (eff sample_vol 3)[11 := (0x01 AND (0x21 AND 0x27)) OR (sample_entry ! 11 AND NOT (0x21 AND 0x27))]"
    by (auto simp: s sample_path(3) sample_first)
  moreover have "length (eff sample_vol 3) = 512" by (rule length_eff [OF sample_ok])
  ultimately show ?thesis by (auto simp: segment_def sample_entry_def)
qed

section \<open>f\_unlink\<close>

lemma remove_entry_ok:
  assumes ok: "vol_ok v" and win: "fatbase v \<le> s" "\<not> in_fat v s" "winsect v = s"
    and dir: "dir < 512" and ch: "chain (fat_entry v) (max_clust v) c xs" "distinct xs"
      "\<forall>x \<in> set xs. fat_entry v (unat x) \<noteq> 1"
      "free_clust v = 0xFFFFFFFF \<or> unat (free_clust v) + length xs < 0xFFFFFFFF"
  shows "\<exists>v'. remove_entry dir s c v = Some (FR_OK, (), v') \<and> vol_ok v' \<and> geom v' = geom v \<and>
    eff v' s = (win v)[dir := 0xE5] \<and>
    (\<forall>e < unat (max_clust v). fat_entry v' e = (if e \<in> unat ` set xs then 0 else fat_entry v e)) \<and>
    (\<forall>t. t \<noteq> 0 \<longrightarrow> \<not> in_fat v t \<longrightarrow> t \<noteq> s \<longrightarrow> eff v' t = eff v t) \<and>
    (\<forall>t. eff v' t = sector_of (disk v') t)"
proof -
  define u where "u = (edit_win (\<lambda>w. w[dir := 0xE5]) v)\<lparr>winflag := 1\<rparr>"
  have g: "geom_ok v" and len: "length (win v) = 512" using ok by (simp_all add: vol_ok_def win_ok_def)
  have fs: "fatbase v \<le> winsect v" using win by simp
  have uo: "vol_ok u" unfolding u_def by (rule edit_ok [OF ok fs]) (simp add: len)
  have ug: "geom u = geom v" unfolding u_def by (rule edit_geom)
  have ue: "eff u t = (if t = s then (win v)[dir := 0xE5] else eff v t)" for t
    by (simp only: u_def edit_eff win)
  have fe: "fat_entry u e = fat_entry v e" if "e < unat (max_clust v)" for e
    by (rule fat_entry_outside [OF g that ug]) (use ue win(2) in auto)
  have mc: "max_clust u = max_clust v" using geom_eqD [OF ug] by simp
  have fc: "free_clust u = free_clust v" by (simp add: u_def edit_win_def)
  have "chain (fat_entry u) (max_clust u) c xs"
    unfolding mc using ch(1) fe chain_bounds [OF ch(1)] by (intro chain_cong [OF ch(1)]) (auto simp: word_less_nat_alt)
  moreover have "\<forall>x \<in> set xs. fat_entry u (unat x) \<noteq> 1"
    using ch(3) fe chain_bounds [OF ch(1)] by (auto simp: word_less_nat_alt)
  ultimately obtain w where R: "remove_chain c u = Some (True, w)" "chain_frame u w"
    "\<forall>e < unat (max_clust u). fat_entry w e = (if e \<in> unat ` set xs then 0 else fat_entry u e)"
    using remove_frees_spec [OF uo _ ch(2), of c] ch(4) fc by auto
  have wo: "vol_ok w" and wg: "geom w = geom v" using R(2) ug by (simp_all add: chain_frame_def)
  have we: "eff w t = eff u t" if "t \<noteq> 0" "\<not> in_fat v t" for t
    using R(2) that in_fat_cong [OF ug] by (simp add: chain_frame_def)
  have "w = u \<or> winflag w = 1" using remove_loop_dirty R(1) by (simp add: remove_chain_def)
  then have "winflag w = 1" by (auto simp: u_def)
  then have ws: "w\<lparr>winflag := 1\<rparr> = w" by simp
  obtain r v' where sy: "sync w = (r, v')" by fastforce
  note S = sync_ok [OF _ sy, unfolded ws, OF wo]
  have bk: "backup w = backup v" using backup_cong [OF wg] .
  have nb: "\<not> backup v t" if "\<not> in_fat v t" for t using that backup_in_fat by blast
  have s0: "s \<noteq> 0" using ok win(1) by (auto simp: vol_ok_def geom_ok_def word_le_nat_alt)
  have ve: "eff v' t = eff u t" if "t \<noteq> 0" "\<not> in_fat v t" for t
    using S(5) [of t] we [OF that] nb [OF that(2)] bk by simp
  have gv: "geom v' = geom w" using S(2) .
  have fe': "fat_entry v' e = fat_entry w e" if "e < unat (max_clust v)" for e
  proof (rule fat_entry_outside [OF _ _ gv])
    show "geom_ok w" using wo by (simp add: vol_ok_def)
    show "e < unat (max_clust w)" using that geom_eqD [OF wg] by simp
    show "\<And>t. \<not> backup w t \<Longrightarrow> eff v' t = eff w t" using S(5) .
  qed
  have "remove_entry dir s c v = Some (FR_OK, (), v')"
    using win(3) R(1) sy S(1) by (simp add: remove_entry_def move_window_def u_def [symmetric])
  then show ?thesis
    using S(3,6) gv wg ve [OF s0 win(2)] ve ue fe fe' R(3) mc by auto
qed

text \<open>C7: \<open>f_unlink\<close> on a path that leads to a writable file marks the entry as deleted and frees exactly
  the clusters of the chain of the file, and leaves nothing of it in the window: on the card the sector
  of the directory is the old one with the first byte of the entry replaced, so that its other entries
  keep every byte; the FAT read from the card has 0 at the clusters of the chain and its old entries
  elsewhere; and every sector outside of the FAT (the boot sector 0, which the window of these functions
  never holds, aside) has what the file system saw there before.\<close>

theorem unlink_frees_file:
  assumes ok: "vol_ok v" "data_ok v" and path: "root_dir v (new_dirobj a) ps" "good_path ss"
      "resolves v ps ss (FR_OK, Some p)" and out: "\<not> in_fat v (d_sect p)"
    and plain: "entry_view v p ! 11 AND 0x11 = 0"
    and ch: "chain (fat_entry v) (max_clust v) (start_clust (entry_view v p)) xs" "distinct xs"
      "\<forall>x \<in> set xs. fat_entry v (unat x) \<noteq> 1"
      "free_clust v = 0xFFFFFFFF \<or> unat (free_clust v) + length xs < 0xFFFFFFFF"
  shows "\<exists>v'. unlink_vol (join_path ss) a v = Some (FR_OK, (), v') \<and> vol_ok v' \<and> geom v' = geom v \<and>
    (\<forall>t. eff v' t = sector_of (disk v') t) \<and>
    sector_of (disk v') (d_sect p) = (eff v (d_sect p))[entry_off p := 0xE5] \<and>
    entry_view v' p = (entry_view v p)[0 := 0xE5] \<and>
    (\<forall>e < unat (max_clust v). fat_entry v' e = (if e \<in> unat ` set xs then 0 else fat_entry v e)) \<and>
    (\<forall>t. t \<noteq> 0 \<longrightarrow> \<not> in_fat v t \<longrightarrow> t \<noteq> d_sect p \<longrightarrow> sector_of (disk v') t = eff v t)"
proof -
  from path_entry [OF ok path] obtain fn u where
    T: "trace_path (new_dirobj a) blank_fn (join_path ss) v = Some (FR_OK, Some (entry_off p), p, fn, u)"
    "same_view v u" "on_entry v p u" by blast
  note W = on_entry_window [OF ok(1) T(2,3)]
  have uo: "vol_ok u" and ug: "geom u = geom v" and fc: "free_clust u = free_clust v"
    using T(2) by (simp_all add: same_view_def)
  note G = geom_eqD [OF ug] and IF = in_fat_cong [OF ug]
  have fe: "fat_entry u e = fat_entry v e" if "e < unat (max_clust v)" for e
    using fat_entry_same_view [OF ok(1) T(2) that] .
  have ev: "attr (entry_off p) u = entry_view v p ! 11"
    using entry_nth [OF ok(1), of 11 p] W(3) by (simp add: attr_def)
  have bits: "x AND 0x01 = 0 \<and> x AND 0x10 = 0" if "x AND 0x11 = 0" for x :: BYTE
  proof -
    have "x AND 0x01 = (x AND 0x11) AND 0x01" "x AND 0x10 = (x AND 0x11) AND 0x10"
      by (simp_all add: and.assoc)
    then show ?thesis using that by simp
  qed
  have run: "unlink_vol (join_path ss) a v = remove_entry (entry_off p) (d_sect p) (start_clust (entry_view v p)) u"
    using T(1) bits [OF plain] ev W(1,5) by (simp add: unlink_vol_def Let_def)
  have chu: "chain (fat_entry u) (max_clust u) (start_clust (entry_view v p)) xs"
    using chain_frame_view [OF ok(1) T(2) ch(1)] .
  have e1: "\<forall>x \<in> set xs. fat_entry u (unat x) \<noteq> 1"
    using ch(3) fe chain_bounds [OF ch(1)] by (auto simp: word_less_nat_alt)
  have off: "entry_off p < 512" using entry_off_bound [of p] by simp
  from remove_entry_ok [OF uo _ _ W(1) off chu ch(2) e1] obtain v' where
    R: "remove_entry (entry_off p) (d_sect p) (start_clust (entry_view v p)) u = Some (FR_OK, (), v')" "vol_ok v'"
    "geom v' = geom u" "eff v' (d_sect p) = (win u)[entry_off p := 0xE5]"
    "\<forall>e < unat (max_clust u). fat_entry v' e = (if e \<in> unat ` set xs then 0 else fat_entry u e)"
    "\<forall>t. t \<noteq> 0 \<longrightarrow> \<not> in_fat u t \<longrightarrow> t \<noteq> d_sect p \<longrightarrow> eff v' t = eff u t"
    "\<forall>t. eff v' t = sector_of (disk v') t"
    using W(1,2) out IF ch(4) fc by auto
  have "entry_view v' p = (entry_view v p)[0 := 0xE5]"
    using R(4) W(3) entry_update [of "eff v (d_sect p)" 0 p "0xE5"] length_eff [OF ok(1)]
    by (simp add: entry_view_def)
  moreover have "sector_of (disk v') t = eff v t" if "t \<noteq> 0" "\<not> in_fat v t" "t \<noteq> d_sect p" for t
  proof -
    have "eff v' t = eff v t" using R(6) that IF T(2) backup_in_fat by (auto simp: same_view_def)
    then show ?thesis using R(7) by simp
  qed
  moreover have "sector_of (disk v') (d_sect p) = (eff v (d_sect p))[entry_off p := 0xE5]"
    using R(4,7) W(3) by simp
  ultimately show ?thesis using run R(1-3,5,7) ug G fe by auto
qed

theorem unlink_frees_file_witness:
  "\<exists>v'. unlink_vol [0x61, 0x2E, 0x74, 0x78, 0x74] 0 sample_vol = Some (FR_OK, (), v') \<and>
     fat_entry v' 2 = 0 \<and> fat_entry v' 3 = 0 \<and> fat_entry v' 5 = 0 \<and>
     sector_of (disk v') 3 = (eff sample_vol 3)[0 := 0xE5] \<and>
     entry_view v' (root_pos sample_vol (new_dirobj 0) 0) ! 0 = 0xE5"
proof -
  let ?p = "root_pos sample_vol (new_dirobj 0) 0"
  have at_3: "d_sect ?p = 3" "entry_off ?p = 0" by (simp_all add: root_pos_def sample_vol_def entry_off_def new_dirobj_def)
  have out: "\<not> in_fat sample_vol (d_sect ?p)" by (simp add: in_fat_def root_pos_def sample_vol_def)
  have at: "entry_view sample_vol ?p ! 11 AND 0x11 = 0" by (simp add: sample_first sample_entry_def)
  have sc: "start_clust (entry_view sample_vol ?p) = 2"
    by (simp add: sample_first start_clust_def LD_WORD_def sample_entry_def)
  have ch: "chain (fat_entry sample_vol) (max_clust sample_vol) (start_clust (entry_view sample_vol ?p)) [2, 3, 5]"
    unfolding sc by (simp add: sample_fields sample_entries)
  have n1: "\<forall>x \<in> set [2, 3, 5]. fat_entry sample_vol (unat (x :: DWORD)) \<noteq> 1" by (simp add: sample_entries)
  from unlink_frees_file [OF sample_ok sample_data_ok sample_root sample_path(1,2) out at ch _ n1]
  obtain v' where "unlink_vol (join_path [([0x61], [0x74, 0x78, 0x74])]) 0 sample_vol = Some (FR_OK, (), v')"
    "\<forall>e < 10. fat_entry v' e = (if e \<in> unat ` set [2, 3, 5 :: DWORD] then 0 else fat_entry sample_vol e)"
    "entry_view v' ?p = sample_entry[0 := 0xE5]" "sector_of (disk v') 3 = (eff sample_vol 3)[0 := 0xE5]"
    by (auto simp: sample_fields sample_first at_3)
  then show ?thesis by (auto simp: segment_def sample_entry_def)
qed

section \<open>f\_mkdir\<close>

lemma LD_WORD_take: "j + 1 < n \<Longrightarrow> n \<le> length w \<Longrightarrow> LD_WORD (take n w) j = LD_WORD w j"
  by (simp add: LD_WORD_def)

lemma LD_WORD_drop: "k + j + 1 < length w \<Longrightarrow> LD_WORD (drop k w) j = LD_WORD w (k + j)"
  by (simp add: LD_WORD_def)

lemma start_clust_entry:
  "k + 32 \<le> length w \<Longrightarrow> start_clust (take 32 (drop k w)) = push_bit 16 (ucast (LD_WORD w (k + 20))) OR ucast (LD_WORD w (k + 26))"
  by (simp add: start_clust_def LD_WORD_take LD_WORD_drop)

lemma LD_ST_WORD_other:
  "i + 1 < length p \<Longrightarrow> j + 1 < length p \<Longrightarrow> j + 1 < i \<or> i + 1 < j \<Longrightarrow> LD_WORD (ST_WORD i v p) j = LD_WORD p j"
  by (rule LD_WORD_cong) (auto simp: nth_ST_WORD)

lemma join_words: "push_bit 16 (ucast (ucast (drop_bit 16 d) :: WORD)) OR ucast (ucast d :: WORD) = (d :: DWORD)"
  by (rule bit_word_eqI) (auto simp add: bit_simps)

text \<open>the entries \<open>.\<close> and \<open>..\<close> that \<open>f_mkdir\<close> writes name only the low 16 bits of the new cluster and
  of the parent's, on FAT32 volumes too, as the code for the high words is compiled only where
  \<open>_FAT32\<close> is defined and nothing defines it; the entry in the parent has both words.\<close>

theorem mkdir_dot_clusters:
  "start_clust (take 32 (dot_entries tim dclust pclust (replicate 512 0))) = dclust AND 0xFFFF \<and>
   start_clust (take 32 (drop 32 (dot_entries tim dclust pclust (replicate 512 0)))) = pclust AND 0xFFFF \<and>
   start_clust (take 32 (dir_entry_of 0 fn tim dclust (replicate 512 0))) = dclust"
proof -
  let ?d = "dot_entries tim dclust pclust (replicate 512 0)"
  let ?e = "dir_entry_of 0 fn tim dclust (replicate 512 0)"
  have len: "length ?d = 512" by (simp add: dot_entries_def Let_def)
  have z: "?d ! 20 = 0" "?d ! 21 = 0" "?d ! 52 = 0" "?d ! 53 = 0"
    by (simp_all add: dot_entries_def Let_def nth_splice nth_ST_WORD nth_ST_DWORD nth_list_update)
  then have z: "LD_WORD ?d 20 = 0" "LD_WORD ?d 52 = 0" by (simp_all add: LD_WORD_def)
  have c: "LD_WORD ?d 26 = ucast dclust" "LD_WORD ?d 58 = ucast pclust"
    by (simp_all add: dot_entries_def Let_def LD_ST_WORD_other)
  have e: "LD_WORD ?e 20 = ucast (drop_bit 16 dclust)" "LD_WORD ?e 26 = ucast dclust" "length ?e = 512"
    by (simp_all add: dir_entry_of_def named_entry_def Let_def LD_ST_WORD_other)
  have "start_clust (take 32 (drop 0 ?d)) = dclust AND 0xFFFF" "start_clust (take 32 (drop 32 ?d)) = pclust AND 0xFFFF"
    by (subst start_clust_entry, simp add: len, simp add: z c ucast_16_mask [simplified])+
  moreover have "start_clust (take 32 (drop 0 ?e)) = dclust"
    by (subst start_clust_entry) (simp_all add: e join_words)
  ultimately show ?thesis by simp
qed

end
