(* ===== verification/Bus.thy ===== *)
theory Bus
  imports Prelude
begin

unbundle bit_operations_syntax

text \<open>
  Memory-mapped registers.  The drivers read and write registers through \<^verbatim>\<open>HWREG(addr)\<close>; what a
  register answers is up to the hardware, which is no part of the sources, so it is an argument of
  every driver definition: a \<open>bus\<close> over an arbitrary hardware state.  The contract \<open>plain_regs\<close> states of
  the registers named by \<open>plain\<close> that they hold what was last written; a driver's lemmas about such
  registers are proved once in it and interpreted on the hardware the development describes.
\<close>

section \<open>Register accesses\<close>

record 's bus =
  rd :: "DWORD \<Rightarrow> 's \<Rightarrow> DWORD \<times> 's"
  wr :: "DWORD \<Rightarrow> DWORD \<Rightarrow> 's \<Rightarrow> 's"

text \<open>\<^verbatim>\<open>HWREG(a) |= x\<close>, \<^verbatim>\<open>HWREG(a) &= x\<close> and \<^verbatim>\<open>HWREG(a) & x\<close>.\<close>

definition reg_or :: "'s bus \<Rightarrow> DWORD \<Rightarrow> DWORD \<Rightarrow> 's \<Rightarrow> 's" where
  "reg_or B a x s = (case rd B a s of (v, s) \<Rightarrow> wr B a (v OR x) s)"

definition reg_and :: "'s bus \<Rightarrow> DWORD \<Rightarrow> DWORD \<Rightarrow> 's \<Rightarrow> 's" where
  "reg_and B a x s = (case rd B a s of (v, s) \<Rightarrow> wr B a (v AND x) s)"

definition reg_test :: "'s bus \<Rightarrow> DWORD \<Rightarrow> DWORD \<Rightarrow> 's \<Rightarrow> DWORD \<times> 's" where
  "reg_test B a x s = (case rd B a s of (v, s) \<Rightarrow> (v AND x, s))"

text \<open>The loops that poll a register: until a mask is clear, until it is set.\<close>

partial_function (option) wait_clear :: "'s bus \<Rightarrow> DWORD \<Rightarrow> DWORD \<Rightarrow> 's \<Rightarrow> 's option" where
  "wait_clear B a x s = (case rd B a s of (v, s) \<Rightarrow> if v AND x = 0 then Some s else wait_clear B a x s)"

partial_function (option) wait_set :: "'s bus \<Rightarrow> DWORD \<Rightarrow> DWORD \<Rightarrow> 's \<Rightarrow> 's option" where
  "wait_set B a x s = (case rd B a s of (v, s) \<Rightarrow> if v AND x = x then Some s else wait_set B a x s)"

text \<open>Until the field \<open>m\<close> of a register has the value \<open>v\<close>: \<^verbatim>\<open>while ((HWREG(a) & m) != v);\<close>\<close>

partial_function (option) wait_field :: "'s bus \<Rightarrow> DWORD \<Rightarrow> DWORD \<Rightarrow> DWORD \<Rightarrow> 's \<Rightarrow> 's option" where
  "wait_field B a m v s = (case rd B a s of (x, s) \<Rightarrow> if x AND m = v then Some s else wait_field B a m v s)"

text \<open>Reading and writing a list of registers.\<close>

fun rd_list :: "'s bus \<Rightarrow> DWORD list \<Rightarrow> 's \<Rightarrow> DWORD list \<times> 's" where
  "rd_list B [] s = ([], s)"
| "rd_list B (a # as) s = (case rd B a s of (v, s) \<Rightarrow> case rd_list B as s of (vs, s) \<Rightarrow> (v # vs, s))"

fun wr_list :: "'s bus \<Rightarrow> (DWORD \<times> DWORD) list \<Rightarrow> 's \<Rightarrow> 's" where
  "wr_list B [] s = s"
| "wr_list B ((a, x) # axs) s = wr_list B axs (wr B a x s)"

text \<open>A number that fits \<open>n\<close> bits has no others.\<close>

lemma bits_below: "unat w < 2 ^ n \<Longrightarrow> bit w i \<Longrightarrow> i < n" for w :: DWORD
proof (rule ccontr)
  assume w: "unat w < 2 ^ n" and b: "bit w i" and i: "\<not> i < n"
  have "take_bit n (unat w) = unat w" using w by (rule take_bit_nat_eq_self)
  then have "bit (take_bit n (unat w)) i" using b by (simp add: bit_unsigned_iff)
  then show False using i by (simp add: bit_take_bit_iff)
qed

section \<open>Registers that hold their value\<close>

locale plain_regs =
  fixes B :: "'s bus" and plain :: "DWORD \<Rightarrow> bool" and val :: "DWORD \<Rightarrow> 's \<Rightarrow> DWORD"
  assumes rd_plain: "plain a \<Longrightarrow> rd B a s = (val a s, s)"
    and wr_same: "plain a \<Longrightarrow> val a (wr B a x s) = x"
    and wr_other: "plain a \<Longrightarrow> plain b \<Longrightarrow> b \<noteq> a \<Longrightarrow> val a (wr B b x s) = val a s"
begin

lemma wr_val: "plain a \<Longrightarrow> plain b \<Longrightarrow> val a (wr B b x s) = (if b = a then x else val a s)"
  using wr_same wr_other by auto

lemma or_val: "plain a \<Longrightarrow> plain b \<Longrightarrow> val a (reg_or B b x s) = (if b = a then val a s OR x else val a s)"
  by (simp add: reg_or_def rd_plain wr_val)

lemma and_val: "plain a \<Longrightarrow> plain b \<Longrightarrow> val a (reg_and B b x s) = (if b = a then val a s AND x else val a s)"
  by (simp add: reg_and_def rd_plain wr_val)

lemma test_val: "plain a \<Longrightarrow> reg_test B a x s = (val a s AND x, s)"
  by (simp add: reg_test_def rd_plain)

lemma rd_list_val: "\<forall>a \<in> set as. plain a \<Longrightarrow> rd_list B as s = (map (\<lambda>a. val a s) as, s)"
  by (induction as) (simp_all add: rd_plain)

lemma wr_list_other: "plain a \<Longrightarrow> \<forall>b \<in> fst ` set axs. plain b \<Longrightarrow> a \<notin> fst ` set axs \<Longrightarrow> val a (wr_list B axs s) = val a s"
  by (induction axs arbitrary: s rule: list.induct) (auto simp: wr_val)

lemma wr_list_val:
  "distinct (map fst axs) \<Longrightarrow> \<forall>b \<in> fst ` set axs. plain b \<Longrightarrow> (a, x) \<in> set axs \<Longrightarrow> val a (wr_list B axs s) = x"
proof (induction axs arbitrary: s)
  case (Cons bx axs)
  obtain b y where bx: "bx = (b, y)" by fastforce
  show ?case
  proof (cases "(a, x) \<in> set axs")
    case True
    then show ?thesis using Cons bx by auto
  next
    case False
    then have "a = b" "x = y" using Cons.prems(3) bx by auto
    moreover have "a \<notin> fst ` set axs" using Cons.prems(1) bx \<open>a = b\<close> by (auto simp: image_iff)
    ultimately show ?thesis using Cons.prems(2) bx wr_list_other [of a axs] by (auto simp: wr_val)
  qed
qed simp

text \<open>Writing back what was read restores every register of the list.\<close>

lemma restore_val:
  assumes "distinct as" "\<forall>a \<in> set as. plain a" "a \<in> set as"
  shows "val a (wr_list B (zip as (fst (rd_list B as s))) t) = val a s"
proof (rule wr_list_val)
  have v: "fst (rd_list B as s) = map (\<lambda>a. val a s) as" using rd_list_val [OF assms(2)] by simp
  show "distinct (map fst (zip as (fst (rd_list B as s))))" using assms(1) v by simp
  show "\<forall>b \<in> fst ` set (zip as (fst (rd_list B as s))). plain b" using assms(2) by (auto dest: set_zip_leftD)
  show "(a, val a s) \<in> set (zip as (fst (rd_list B as s)))"
    unfolding v using assms(3) by (auto simp: in_set_zip in_set_conv_nth)
qed

text \<open>A field of a register: clear its mask, then set its new value.\<close>

lemma field_val:
  "plain a \<Longrightarrow> val a (reg_or B a x (reg_and B a (NOT m) s)) = (val a s AND NOT m) OR x"
  by (simp add: or_val and_val)

end

end
