(* ===== verification/EthHw.thy ===== *)
theory EthHw
  imports Bus
begin

unbundle bit_operations_syntax

text \<open>
  The register level of the Ethernet switch: \<^verbatim>\<open>drivers_C/eth_hwif.c\<close>.  Each function takes the bus and
  the base address of its module; a function that polls a register may not return, and is partial.
  The context a power-down saves and restores, and the table of the address lookup engine, are at the
  end, with the hardware the contracts are interpreted on.
\<close>

text \<open>Offsets and masks of the registers, as in \<^verbatim>\<open>hw_cpsw_*.h\<close>.\<close>

abbreviation CPSW_ALE_CONTROL :: DWORD where "CPSW_ALE_CONTROL \<equiv> 0x8"
abbreviation CPSW_ALE_PRESCALE :: DWORD where "CPSW_ALE_PRESCALE \<equiv> 0x10"
abbreviation CPSW_ALE_UNKNOWN_VLAN :: DWORD where "CPSW_ALE_UNKNOWN_VLAN \<equiv> 0x18"
abbreviation CPSW_ALE_TBLCTL :: DWORD where "CPSW_ALE_TBLCTL \<equiv> 0x20"
abbreviation CPSW_ALE_TBLCTL_WRITE_RDZ :: DWORD where "CPSW_ALE_TBLCTL_WRITE_RDZ \<equiv> 0x80000000"
abbreviation CPSW_ALE_PORTCTL0_BCAST_LIMIT :: DWORD where "CPSW_ALE_PORTCTL0_BCAST_LIMIT \<equiv> 0xFF000000"
abbreviation CPSW_ALE_PORTCTL0_MCAST_LIMIT :: DWORD where "CPSW_ALE_PORTCTL0_MCAST_LIMIT \<equiv> 0x00FF0000"
abbreviation CPSW_ALE_PORTCTL0_PORT_STATE :: DWORD where "CPSW_ALE_PORTCTL0_PORT_STATE \<equiv> 0x3"
abbreviation CPSW_ALE_UNKNOWN_VLAN_UNKNOWN_FORCE_UNTA :: DWORD where "CPSW_ALE_UNKNOWN_VLAN_UNKNOWN_FORCE_UNTA \<equiv> 0x3F000000"
abbreviation CPSW_ALE_UNKNOWN_VLAN_UNKNOWN_MCAST_FLO :: DWORD where "CPSW_ALE_UNKNOWN_VLAN_UNKNOWN_MCAST_FLO \<equiv> 0x3F00"
abbreviation CPSW_ALE_UNKNOWN_VLAN_UNKNOWN_REG_MCAST :: DWORD where "CPSW_ALE_UNKNOWN_VLAN_UNKNOWN_REG_MCAST \<equiv> 0x3F0000"
abbreviation CPSW_ALE_UNKNOWN_VLAN_UNKNOWN_VLAN_MEM :: DWORD where "CPSW_ALE_UNKNOWN_VLAN_UNKNOWN_VLAN_MEM \<equiv> 0x3F"
abbreviation CPSW_SL_MACCONTROL :: DWORD where "CPSW_SL_MACCONTROL \<equiv> 0x4"
abbreviation CPSW_SL_MACCONTROL_GIG :: DWORD where "CPSW_SL_MACCONTROL_GIG \<equiv> 0x80"
abbreviation CPSW_SL_MACCONTROL_FULLDUPLEX :: DWORD where "CPSW_SL_MACCONTROL_FULLDUPLEX \<equiv> 0x1"
abbreviation CPSW_SS_CONTROL :: DWORD where "CPSW_SS_CONTROL \<equiv> 0x4"
abbreviation CPSW_SS_SOFT_RESET :: DWORD where "CPSW_SS_SOFT_RESET \<equiv> 0x8"
abbreviation CPSW_SS_STAT_PORT_EN :: DWORD where "CPSW_SS_STAT_PORT_EN \<equiv> 0xC"
abbreviation CPSW_SS_SOFT_IDLE :: DWORD where "CPSW_SS_SOFT_IDLE \<equiv> 0x14"
abbreviation CPSW_SS_FLOW_CONTROL :: DWORD where "CPSW_SS_FLOW_CONTROL \<equiv> 0x24"
abbreviation CPSW_PORT_TX_IN_CTL :: DWORD where "CPSW_PORT_TX_IN_CTL \<equiv> 0x10"
abbreviation CPSW_PORT_PORT_VLAN :: DWORD where "CPSW_PORT_PORT_VLAN \<equiv> 0x14"
abbreviation CPSW_PORT_SA_LO :: DWORD where "CPSW_PORT_SA_LO \<equiv> 0x20"
abbreviation CPSW_PORT_SA_HI :: DWORD where "CPSW_PORT_SA_HI \<equiv> 0x24"
abbreviation CPSW_CPDMA_TX_CONTROL :: DWORD where "CPSW_CPDMA_TX_CONTROL \<equiv> 0x4"
abbreviation CPSW_CPDMA_RX_CONTROL :: DWORD where "CPSW_CPDMA_RX_CONTROL \<equiv> 0x14"
abbreviation CPSW_CPDMA_SOFT_RESET :: DWORD where "CPSW_CPDMA_SOFT_RESET \<equiv> 0x1C"
abbreviation CPSW_CPDMA_DMACONTROL :: DWORD where "CPSW_CPDMA_DMACONTROL \<equiv> 0x20"
abbreviation CPSW_CPDMA_DMASTATUS :: DWORD where "CPSW_CPDMA_DMASTATUS \<equiv> 0x24"
abbreviation CPSW_CPDMA_TX_INTMASK_SET :: DWORD where "CPSW_CPDMA_TX_INTMASK_SET \<equiv> 0x88"
abbreviation CPSW_CPDMA_RX_INTMASK_SET :: DWORD where "CPSW_CPDMA_RX_INTMASK_SET \<equiv> 0xA8"

section \<open>The control module and the resets\<close>

definition MACAddrGet :: "'s bus \<Rightarrow> DWORD \<Rightarrow> 's \<Rightarrow> BYTE list \<times> 's" where
  "MACAddrGet B mac_id s =
     (let offset = (if mac_id \<noteq> 0 then 0x630 + 0x8 else 0x630);
          b = (\<lambda>v n. ucast (drop_bit n v AND 0xFF) :: BYTE) in
      case rd B (0x44E10000 + offset) s of (lo, s) \<Rightarrow>
      case rd B (0x44E10000 + offset + 4) s of (hi, s) \<Rightarrow>
        ([b lo 8, b lo 0, b hi 24, b hi 16, b hi 8, b hi 0], s))"

definition CPSWSSReset :: "'s bus \<Rightarrow> DWORD \<Rightarrow> 's \<Rightarrow> 's option" where
  "CPSWSSReset B base s = wait_clear B (base + CPSW_SS_SOFT_RESET) 1 (wr B (base + CPSW_SS_SOFT_RESET) 1 s)"

definition CPSWSlReset :: "'s bus \<Rightarrow> DWORD \<Rightarrow> 's \<Rightarrow> 's option" where
  "CPSWSlReset B base s = wait_clear B (base + 0xC) 1 (wr B (base + 0xC) 1 s)"

definition CPSWWrReset :: "'s bus \<Rightarrow> DWORD \<Rightarrow> 's \<Rightarrow> 's option" where
  "CPSWWrReset B base s = wait_clear B (base + 0x4) 1 (wr B (base + 0x4) 1 s)"

definition CPSWWrControlRegReset :: "'s bus \<Rightarrow> DWORD \<Rightarrow> 's \<Rightarrow> 's" where
  "CPSWWrControlRegReset B base s = wr B (base + 0x8) 0xA s"

section \<open>The slivers\<close>

definition CPSWSlGigModeForceEnable :: "'s bus \<Rightarrow> DWORD \<Rightarrow> 's \<Rightarrow> 's" where
  "CPSWSlGigModeForceEnable B base s = reg_or B (base + CPSW_SL_MACCONTROL) 0x20000 s"

definition CPSWSlGigModeForceDisable :: "'s bus \<Rightarrow> DWORD \<Rightarrow> 's \<Rightarrow> 's" where
  "CPSWSlGigModeForceDisable B base s = reg_and B (base + CPSW_SL_MACCONTROL) (NOT 0x20000) s"

definition CPSWSlControlExtEnable :: "'s bus \<Rightarrow> DWORD \<Rightarrow> 's \<Rightarrow> 's" where
  "CPSWSlControlExtEnable B base s = reg_or B (base + CPSW_SL_MACCONTROL) 0x40000 s"

definition CPSWSlTransferModeSet :: "'s bus \<Rightarrow> DWORD \<Rightarrow> DWORD \<Rightarrow> 's \<Rightarrow> 's" where
  "CPSWSlTransferModeSet B base mode s = reg_or B (base + CPSW_SL_MACCONTROL) mode
       (reg_and B (base + CPSW_SL_MACCONTROL) (NOT (CPSW_SL_MACCONTROL_GIG OR CPSW_SL_MACCONTROL_FULLDUPLEX)) s)"

definition CPSWSlMACStatusGet :: "'s bus \<Rightarrow> DWORD \<Rightarrow> DWORD \<Rightarrow> 's \<Rightarrow> DWORD \<times> 's" where
  "CPSWSlMACStatusGet B base statFlag s = reg_test B (base + 0x8) statFlag s"

definition CPSWSlRxMaxLenSet :: "'s bus \<Rightarrow> DWORD \<Rightarrow> DWORD \<Rightarrow> 's \<Rightarrow> 's" where
  "CPSWSlRxMaxLenSet B base rxMaxLen s = wr B (base + 0x10) rxMaxLen s"

definition CPSWSlGMIIEnable :: "'s bus \<Rightarrow> DWORD \<Rightarrow> 's \<Rightarrow> 's" where
  "CPSWSlGMIIEnable B base s = reg_or B (base + CPSW_SL_MACCONTROL) 0x20 s"

definition CPSWSlRGMIIEnable :: "'s bus \<Rightarrow> DWORD \<Rightarrow> 's \<Rightarrow> 's" where
  "CPSWSlRGMIIEnable B base s = reg_or B (base + CPSW_SL_MACCONTROL) (0x20 OR 0x8000 OR 0x10000) s"

section \<open>Interrupts of the wrapper\<close>

definition CPSWWrCoreIntEnable :: "'s bus \<Rightarrow> DWORD \<Rightarrow> DWORD \<Rightarrow> DWORD \<Rightarrow> DWORD \<Rightarrow> 's \<Rightarrow> 's" where
  "CPSWWrCoreIntEnable B base core channel intFlag s = reg_or B (base + (0x10 + core * 16) + intFlag) (push_bit (unat channel) 1) s"

definition CPSWWrCoreIntDisable :: "'s bus \<Rightarrow> DWORD \<Rightarrow> DWORD \<Rightarrow> DWORD \<Rightarrow> DWORD \<Rightarrow> 's \<Rightarrow> 's" where
  "CPSWWrCoreIntDisable B base core channel intFlag s = reg_and B (base + (0x10 + core * 16) + intFlag) (NOT (push_bit (unat channel) 1)) s"

definition CPSWWrCoreIntStatusGet :: "'s bus \<Rightarrow> DWORD \<Rightarrow> DWORD \<Rightarrow> DWORD \<Rightarrow> DWORD \<Rightarrow> 's \<Rightarrow> DWORD \<times> 's" where
  "CPSWWrCoreIntStatusGet B base core channel intFlag s = reg_test B (base + (0x40 + core * 16) + intFlag) (push_bit (unat channel) 1) s"

definition CPSWWrRGMIIStatusGet :: "'s bus \<Rightarrow> DWORD \<Rightarrow> DWORD \<Rightarrow> 's \<Rightarrow> DWORD \<times> 's" where
  "CPSWWrRGMIIStatusGet B base statFlag s = reg_test B (base + 0x88) statFlag s"

section \<open>The address lookup engine\<close>

definition CPSWALEInit :: "'s bus \<Rightarrow> DWORD \<Rightarrow> 's \<Rightarrow> 's" where
  "CPSWALEInit B base s = wr B (base + CPSW_ALE_CONTROL) (0x40000000 OR 0x80000000) s"

definition CPSWALEAgeOut :: "'s bus \<Rightarrow> DWORD \<Rightarrow> 's \<Rightarrow> 's option" where
  "CPSWALEAgeOut B base s = wait_clear B (base + CPSW_ALE_CONTROL) 0x20000000 (reg_or B (base + CPSW_ALE_CONTROL) 0x20000000 s)"

definition CPSW_ALE_PORTCTL :: "DWORD \<Rightarrow> DWORD" where
  "CPSW_ALE_PORTCTL n = 0x40 + n * 4"

definition CPSW_ALE_TBLW :: "DWORD \<Rightarrow> DWORD" where
  "CPSW_ALE_TBLW n = 0x34 + (2 - n) * 4"

definition CPSWALEBroadcastRateLimitSet :: "'s bus \<Rightarrow> DWORD \<Rightarrow> DWORD \<Rightarrow> DWORD \<Rightarrow> 's \<Rightarrow> 's" where
  "CPSWALEBroadcastRateLimitSet B base portNum bplVal s = reg_or B (base + CPSW_ALE_PORTCTL portNum) (push_bit 24 bplVal)
       (reg_and B (base + CPSW_ALE_PORTCTL portNum) (NOT CPSW_ALE_PORTCTL0_BCAST_LIMIT) s)"

definition CPSWALEMulticastRateLimitSet :: "'s bus \<Rightarrow> DWORD \<Rightarrow> DWORD \<Rightarrow> DWORD \<Rightarrow> 's \<Rightarrow> 's" where
  "CPSWALEMulticastRateLimitSet B base portNum mplVal s = reg_or B (base + CPSW_ALE_PORTCTL portNum) (push_bit 16 mplVal)
       (reg_and B (base + CPSW_ALE_PORTCTL portNum) (NOT CPSW_ALE_PORTCTL0_MCAST_LIMIT) s)"

definition CPSWALEVIDIngressCheckSet :: "'s bus \<Rightarrow> DWORD \<Rightarrow> DWORD \<Rightarrow> 's \<Rightarrow> 's" where
  "CPSWALEVIDIngressCheckSet B base portNum s = reg_or B (base + CPSW_ALE_PORTCTL portNum) CPSW_ALE_PORTCTL0_MCAST_LIMIT s"

definition CPSWALEPortStateSet :: "'s bus \<Rightarrow> DWORD \<Rightarrow> DWORD \<Rightarrow> DWORD \<Rightarrow> 's \<Rightarrow> 's" where
  "CPSWALEPortStateSet B base portNum portState s = reg_or B (base + CPSW_ALE_PORTCTL portNum) portState
       (reg_and B (base + CPSW_ALE_PORTCTL portNum) (NOT CPSW_ALE_PORTCTL0_PORT_STATE) s)"

definition CPSWALEVLANAwareSet :: "'s bus \<Rightarrow> DWORD \<Rightarrow> 's \<Rightarrow> 's" where
  "CPSWALEVLANAwareSet B base s = reg_or B (base + CPSW_ALE_CONTROL) 0x4 s"

definition CPSWALEVLANAwareClear :: "'s bus \<Rightarrow> DWORD \<Rightarrow> 's \<Rightarrow> 's" where
  "CPSWALEVLANAwareClear B base s = reg_and B (base + CPSW_ALE_CONTROL) (NOT 0x4) s"

definition CPSWALERateLimitTXMode :: "'s bus \<Rightarrow> DWORD \<Rightarrow> 's \<Rightarrow> 's" where
  "CPSWALERateLimitTXMode B base s = reg_or B (base + CPSW_ALE_CONTROL) 0x8 s"

definition CPSWALERateLimitRXMode :: "'s bus \<Rightarrow> DWORD \<Rightarrow> 's \<Rightarrow> 's" where
  "CPSWALERateLimitRXMode B base s = reg_and B (base + CPSW_ALE_CONTROL) (NOT 0x8) s"

definition CPSWALERateLimitEnable :: "'s bus \<Rightarrow> DWORD \<Rightarrow> 's \<Rightarrow> 's" where
  "CPSWALERateLimitEnable B base s = reg_or B (base + CPSW_ALE_CONTROL) 0x1 s"

definition CPSWALERateLimitDisable :: "'s bus \<Rightarrow> DWORD \<Rightarrow> 's \<Rightarrow> 's" where
  "CPSWALERateLimitDisable B base s = reg_and B (base + CPSW_ALE_CONTROL) (NOT 0x1) s"

definition CPSWALEAUTHModeSet :: "'s bus \<Rightarrow> DWORD \<Rightarrow> 's \<Rightarrow> 's" where
  "CPSWALEAUTHModeSet B base s = reg_or B (base + CPSW_ALE_CONTROL) 0x2 s"

definition CPSWALEAUTHModeClear :: "'s bus \<Rightarrow> DWORD \<Rightarrow> 's \<Rightarrow> 's" where
  "CPSWALEAUTHModeClear B base s = reg_and B (base + CPSW_ALE_CONTROL) (NOT 0x2) s"

definition CPSWALEBypassEnable :: "'s bus \<Rightarrow> DWORD \<Rightarrow> 's \<Rightarrow> 's" where
  "CPSWALEBypassEnable B base s = reg_or B (base + CPSW_ALE_CONTROL) 0x10 s"

definition CPSWALEBypassDisable :: "'s bus \<Rightarrow> DWORD \<Rightarrow> 's \<Rightarrow> 's" where
  "CPSWALEBypassDisable B base s = reg_and B (base + CPSW_ALE_CONTROL) (NOT 0x10) s"

text \<open>An entry of the table is a list of three words.\<close>

definition CPSWALETableEntrySet :: "'s bus \<Rightarrow> DWORD \<Rightarrow> DWORD \<Rightarrow> DWORD list \<Rightarrow> 's \<Rightarrow> 's" where
  "CPSWALETableEntrySet B base aleTblIdx ale s =
     wr B (base + CPSW_ALE_TBLCTL) (aleTblIdx OR CPSW_ALE_TBLCTL_WRITE_RDZ)
       (wr_list B (map (\<lambda>cnt. (base + CPSW_ALE_TBLW (of_nat cnt), ale ! cnt)) [0..<3]) s)"

definition CPSWALETableEntryGet :: "'s bus \<Rightarrow> DWORD \<Rightarrow> DWORD \<Rightarrow> 's \<Rightarrow> DWORD list \<times> 's" where
  "CPSWALETableEntryGet B base aleTblIdx s =
     rd_list B (map (\<lambda>cnt. base + CPSW_ALE_TBLW (of_nat cnt)) [0..<3]) (wr B (base + CPSW_ALE_TBLCTL) aleTblIdx s)"

definition CPSWALEPrescaleGet :: "'s bus \<Rightarrow> DWORD \<Rightarrow> 's \<Rightarrow> DWORD \<times> 's" where
  "CPSWALEPrescaleGet B base s = reg_test B (base + CPSW_ALE_PRESCALE) 0xFFFFF s"

definition CPSWALEPrescaleSet :: "'s bus \<Rightarrow> DWORD \<Rightarrow> DWORD \<Rightarrow> 's \<Rightarrow> 's" where
  "CPSWALEPrescaleSet B base psVal s = reg_or B (base + CPSW_ALE_PRESCALE) (psVal AND 0xFFFFF) s"

definition CPSWALEUnknownUntaggedEgressSet :: "'s bus \<Rightarrow> DWORD \<Rightarrow> DWORD \<Rightarrow> 's \<Rightarrow> 's" where
  "CPSWALEUnknownUntaggedEgressSet B base ueVal s = reg_or B (base + CPSW_ALE_UNKNOWN_VLAN) (push_bit 24 ueVal)
       (reg_and B (base + CPSW_ALE_UNKNOWN_VLAN) (NOT CPSW_ALE_UNKNOWN_VLAN_UNKNOWN_FORCE_UNTA) s)"

definition CPSWALEUnknownRegFloodMaskSet :: "'s bus \<Rightarrow> DWORD \<Rightarrow> DWORD \<Rightarrow> 's \<Rightarrow> 's" where
  "CPSWALEUnknownRegFloodMaskSet B base rfmVal s = reg_or B (base + CPSW_ALE_UNKNOWN_VLAN) (push_bit 8 rfmVal)
       (reg_and B (base + CPSW_ALE_UNKNOWN_VLAN) (NOT CPSW_ALE_UNKNOWN_VLAN_UNKNOWN_MCAST_FLO) s)"

definition CPSWALEUnknownUnRegFloodMaskSet :: "'s bus \<Rightarrow> DWORD \<Rightarrow> DWORD \<Rightarrow> 's \<Rightarrow> 's" where
  "CPSWALEUnknownUnRegFloodMaskSet B base ufmVal s = reg_or B (base + CPSW_ALE_UNKNOWN_VLAN) (push_bit 16 ufmVal)
       (reg_and B (base + CPSW_ALE_UNKNOWN_VLAN) (NOT CPSW_ALE_UNKNOWN_VLAN_UNKNOWN_REG_MCAST) s)"

definition CPSWALEUnknownMemberListSet :: "'s bus \<Rightarrow> DWORD \<Rightarrow> DWORD \<Rightarrow> 's \<Rightarrow> 's" where
  "CPSWALEUnknownMemberListSet B base mlVal s = reg_or B (base + CPSW_ALE_UNKNOWN_VLAN) (push_bit 0 mlVal)
       (reg_and B (base + CPSW_ALE_UNKNOWN_VLAN) (NOT CPSW_ALE_UNKNOWN_VLAN_UNKNOWN_VLAN_MEM) s)"

section \<open>The switch subsystem and its ports\<close>

definition CPSWRxFlowControlEnable :: "'s bus \<Rightarrow> DWORD \<Rightarrow> DWORD \<Rightarrow> 's \<Rightarrow> 's" where
  "CPSWRxFlowControlEnable B base portNum s = reg_or B (base + CPSW_SS_FLOW_CONTROL) (push_bit (unat portNum) 1) s"

definition CPSWRxFlowControlDisable :: "'s bus \<Rightarrow> DWORD \<Rightarrow> DWORD \<Rightarrow> 's \<Rightarrow> 's" where
  "CPSWRxFlowControlDisable B base portNum s = reg_and B (base + CPSW_SS_FLOW_CONTROL) (NOT (push_bit (unat portNum) 1)) s"

definition CPSWSoftwareIdleEnable :: "'s bus \<Rightarrow> DWORD \<Rightarrow> 's \<Rightarrow> 's" where
  "CPSWSoftwareIdleEnable B base s = reg_or B (base + CPSW_SS_SOFT_IDLE) 1 s"

definition CPSWSoftwareIdleDisable :: "'s bus \<Rightarrow> DWORD \<Rightarrow> DWORD \<Rightarrow> 's \<Rightarrow> 's" where
  "CPSWSoftwareIdleDisable B base portNum s = reg_and B (base + CPSW_SS_SOFT_IDLE) (NOT 1) s"

definition CPSWStatisticsEnable :: "'s bus \<Rightarrow> DWORD \<Rightarrow> 's \<Rightarrow> 's" where
  "CPSWStatisticsEnable B base s = wr B (base + CPSW_SS_STAT_PORT_EN) (1 OR 2 OR 4) s"

definition CPSWVLANAwareEnable :: "'s bus \<Rightarrow> DWORD \<Rightarrow> 's \<Rightarrow> 's" where
  "CPSWVLANAwareEnable B base s = reg_or B (base + CPSW_SS_CONTROL) 0x2 s"

definition CPSWVLANAwareDisable :: "'s bus \<Rightarrow> DWORD \<Rightarrow> 's \<Rightarrow> 's" where
  "CPSWVLANAwareDisable B base s = reg_and B (base + CPSW_SS_CONTROL) (NOT 0x2) s"

definition CPSWPortSrcAddrSet :: "'s bus \<Rightarrow> DWORD \<Rightarrow> BYTE list \<Rightarrow> 's \<Rightarrow> 's" where
  "CPSWPortSrcAddrSet B base ethAddr s =
     (let e = (\<lambda>i. ucast (ethAddr ! i) :: DWORD) in
      wr B (base + CPSW_PORT_SA_LO) (e 4 OR push_bit 8 (e 5))
        (wr B (base + CPSW_PORT_SA_HI) (e 0 OR push_bit 8 (e 1) OR push_bit 16 (e 2) OR push_bit 24 (e 3)) s))"

definition CPSWHostPortDualMacModeSet :: "'s bus \<Rightarrow> DWORD \<Rightarrow> 's \<Rightarrow> 's" where
  "CPSWHostPortDualMacModeSet B base s = reg_or B (base + CPSW_PORT_TX_IN_CTL) 0x10000 (reg_and B (base + CPSW_PORT_TX_IN_CTL) (NOT 0x30000) s)"

definition CPSWPortVLANConfig :: "'s bus \<Rightarrow> DWORD \<Rightarrow> DWORD \<Rightarrow> DWORD \<Rightarrow> DWORD \<Rightarrow> 's \<Rightarrow> 's" where
  "CPSWPortVLANConfig B base vlanId cfiBit vlanPri s = wr B (base + CPSW_PORT_PORT_VLAN) (vlanId OR push_bit 12 cfiBit OR push_bit 13 vlanPri) s"

definition CPSWStatisticsGet :: "'s bus \<Rightarrow> DWORD \<Rightarrow> DWORD \<Rightarrow> 's \<Rightarrow> DWORD \<times> 's" where
  "CPSWStatisticsGet B base statReg s = rd B (base + statReg) s"

section \<open>The DMA controller\<close>

fun clear_hdps :: "'s bus \<Rightarrow> DWORD \<Rightarrow> DWORD \<Rightarrow> nat \<Rightarrow> 's \<Rightarrow> 's" where
  "clear_hdps B base cnt 0 s = s"
| "clear_hdps B base cnt (Suc n) s =
     clear_hdps B base (cnt + 1) n
       (wr_list B [(base + (0x200 + cnt * 4), 0), (base + (0x220 + cnt * 4), 0),
                   (base + (0x240 + cnt * 4), 0), (base + (0x260 + cnt * 4), 0)] s)"

definition ethDMA_reset :: "'s bus \<Rightarrow> DWORD \<Rightarrow> 's \<Rightarrow> 's option" where
  "ethDMA_reset B base s =
     map_option (clear_hdps B base 0 8)
       (wait_clear B (base + CPSW_CPDMA_SOFT_RESET) 1 (wr B (base + CPSW_CPDMA_SOFT_RESET) 1 s))"

definition ethDMA_TxIntEnab :: "'s bus \<Rightarrow> DWORD \<Rightarrow> DWORD \<Rightarrow> 's \<Rightarrow> 's" where
  "ethDMA_TxIntEnab B base channel s = reg_or B (base + CPSW_CPDMA_TX_INTMASK_SET) (push_bit (unat channel) 1) s"

definition ethDMA_RxIntEnab :: "'s bus \<Rightarrow> DWORD \<Rightarrow> DWORD \<Rightarrow> 's \<Rightarrow> 's" where
  "ethDMA_RxIntEnab B base channel s = reg_or B (base + CPSW_CPDMA_RX_INTMASK_SET) (push_bit (unat channel) 1) s"

definition CPSWCPDMATxIntDisable :: "'s bus \<Rightarrow> DWORD \<Rightarrow> DWORD \<Rightarrow> 's \<Rightarrow> 's" where
  "CPSWCPDMATxIntDisable B base channel s = reg_or B (base + 0x8C) (push_bit (unat channel) 1) s"

definition CPSWCPDMARxIntDisable :: "'s bus \<Rightarrow> DWORD \<Rightarrow> DWORD \<Rightarrow> 's \<Rightarrow> 's" where
  "CPSWCPDMARxIntDisable B base channel s = reg_or B (base + 0xAC) (push_bit (unat channel) 1) s"

definition ethDMA_TxEnab :: "'s bus \<Rightarrow> DWORD \<Rightarrow> 's \<Rightarrow> 's" where
  "ethDMA_TxEnab B base s = wr B (base + CPSW_CPDMA_TX_CONTROL) 1 s"

definition ethDMA_RxEnab :: "'s bus \<Rightarrow> DWORD \<Rightarrow> 's \<Rightarrow> 's" where
  "ethDMA_RxEnab B base s = wr B (base + CPSW_CPDMA_RX_CONTROL) 1 s"

definition ethDMA_TxHdrDescPWr :: "'s bus \<Rightarrow> DWORD \<Rightarrow> DWORD \<Rightarrow> DWORD \<Rightarrow> 's \<Rightarrow> 's" where
  "ethDMA_TxHdrDescPWr B base descHdr channel s = wr B (base + (0x200 + channel * 4)) descHdr s"

definition ethDMA_RxHdrDescPWr :: "'s bus \<Rightarrow> DWORD \<Rightarrow> DWORD \<Rightarrow> DWORD \<Rightarrow> 's \<Rightarrow> 's" where
  "ethDMA_RxHdrDescPWr B base descHdr channel s = wr B (base + (0x220 + channel * 4)) descHdr s"

definition ethDMA_EOIVecWr :: "'s bus \<Rightarrow> DWORD \<Rightarrow> DWORD \<Rightarrow> 's \<Rightarrow> 's" where
  "ethDMA_EOIVecWr B base eoiFlag s = wr B (base + 0x94) eoiFlag s"

definition ethDMA_TxCPWr :: "'s bus \<Rightarrow> DWORD \<Rightarrow> DWORD \<Rightarrow> DWORD \<Rightarrow> 's \<Rightarrow> 's" where
  "ethDMA_TxCPWr B base channel comPtr s = wr B (base + (0x240 + channel * 4)) comPtr s"

definition ethDMA_RxCPWr :: "'s bus \<Rightarrow> DWORD \<Rightarrow> DWORD \<Rightarrow> DWORD \<Rightarrow> 's \<Rightarrow> 's" where
  "ethDMA_RxCPWr B base channel comPtr s = wr B (base + (0x260 + channel * 4)) comPtr s"

definition CPSWCPDMANumFreeBufSet :: "'s bus \<Rightarrow> DWORD \<Rightarrow> DWORD \<Rightarrow> DWORD \<Rightarrow> 's \<Rightarrow> 's" where
  "CPSWCPDMANumFreeBufSet B base channel nBuf s = wr B (base + (0xE0 + channel * 4)) nBuf s"

definition CPSWCPDMAStatusGet :: "'s bus \<Rightarrow> DWORD \<Rightarrow> DWORD \<Rightarrow> 's \<Rightarrow> DWORD \<times> 's" where
  "CPSWCPDMAStatusGet B base statFlag s = (case reg_test B (base + CPSW_CPDMA_DMASTATUS) statFlag s of (v, s) \<Rightarrow> (drop_bit (unat (statFlag AND 0xFF)) v, s))"

definition CPSWCPDMAConfig :: "'s bus \<Rightarrow> DWORD \<Rightarrow> DWORD \<Rightarrow> 's \<Rightarrow> 's" where
  "CPSWCPDMAConfig B base cfg s = wr B (base + CPSW_CPDMA_DMACONTROL) cfg s"

definition CPSWCPDMACmdIdleEnable :: "'s bus \<Rightarrow> DWORD \<Rightarrow> 's \<Rightarrow> 's option" where
  "CPSWCPDMACmdIdleEnable B base s = wait_set B (base + CPSW_CPDMA_DMASTATUS) 0x80000000 (reg_or B (base + CPSW_CPDMA_DMACONTROL) 0x8 s)"

definition CPSWCPDMACmdIdleDisable :: "'s bus \<Rightarrow> DWORD \<Rightarrow> 's \<Rightarrow> 's" where
  "CPSWCPDMACmdIdleDisable B base s = reg_and B (base + CPSW_CPDMA_DMACONTROL) (NOT 0x8) s"

definition CPSWCPDMARxBufOffsetSet :: "'s bus \<Rightarrow> DWORD \<Rightarrow> DWORD \<Rightarrow> 's \<Rightarrow> 's" where
  "CPSWCPDMARxBufOffsetSet B base bufOff s = wr B (base + 0x28) bufOff s"

definition CPSWCPDMATxIntStatRawGet :: "'s bus \<Rightarrow> DWORD \<Rightarrow> DWORD \<Rightarrow> 's \<Rightarrow> DWORD \<times> 's" where
  "CPSWCPDMATxIntStatRawGet B base chanMask s = reg_test B (base + 0x80) chanMask s"

definition CPSWCPDMATxIntStatMaskedGet :: "'s bus \<Rightarrow> DWORD \<Rightarrow> DWORD \<Rightarrow> 's \<Rightarrow> DWORD \<times> 's" where
  "CPSWCPDMATxIntStatMaskedGet B base chanMask s = reg_test B (base + 0x84) chanMask s"

definition CPSWCPDMARxIntStatRawGet :: "'s bus \<Rightarrow> DWORD \<Rightarrow> DWORD \<Rightarrow> DWORD \<Rightarrow> 's \<Rightarrow> DWORD \<times> 's" where
  "CPSWCPDMARxIntStatRawGet B base chanMask intType s = (case rd B (base + 0xA0) s of (v, s) \<Rightarrow> (drop_bit (unat intType) v AND chanMask, s))"

definition CPSWCPDMARxIntStatMaskedGet :: "'s bus \<Rightarrow> DWORD \<Rightarrow> DWORD \<Rightarrow> DWORD \<Rightarrow> 's \<Rightarrow> DWORD \<times> 's" where
  "CPSWCPDMARxIntStatMaskedGet B base chanMask intType s = (case rd B (base + 0xA4) s of (v, s) \<Rightarrow> (drop_bit (unat intType) v AND chanMask, s))"

section \<open>The context saved over a power-down\<close>

text \<open>
  The structure \<^verbatim>\<open>CPSWCONTEXT\<close>: the base addresses, the content of the descriptor memory, the control
  registers of the lookup engine, its table, and the other registers in the order of the code.
\<close>

record CPSWCONTEXT =
  aleBase :: DWORD
  ssBase :: DWORD
  port1Base :: DWORD
  port2Base :: DWORD
  cpdmaBase :: DWORD
  cppiRamBase :: DWORD
  wrBase :: DWORD
  sl1Base :: DWORD
  sl2Base :: DWORD
  cppiRam :: "DWORD list"
  aleCtls :: "DWORD list"
  aleEntry :: "DWORD list list"
  otherRegs :: "DWORD list"

definition ram_addrs :: "'a CPSWCONTEXT_scheme \<Rightarrow> DWORD list" where
  "ram_addrs c = map (\<lambda>i. cppiRamBase c + 4 * of_nat i) [0..<0x2000 div 4]"

definition ale_addrs :: "'a CPSWCONTEXT_scheme \<Rightarrow> DWORD list" where
  "ale_addrs c = [aleBase c + CPSW_ALE_CONTROL, aleBase c + CPSW_ALE_PORTCTL 0, aleBase c + CPSW_ALE_PORTCTL 1,
     aleBase c + CPSW_ALE_PORTCTL 2]"

definition other_addrs :: "'a CPSWCONTEXT_scheme \<Rightarrow> DWORD list" where
  "other_addrs c =
     [ssBase c + CPSW_SS_STAT_PORT_EN, port1Base c + CPSW_PORT_SA_HI, port1Base c + CPSW_PORT_SA_LO,
      port2Base c + CPSW_PORT_SA_HI, port2Base c + CPSW_PORT_SA_LO, port1Base c + CPSW_PORT_TX_IN_CTL,
      port2Base c + CPSW_PORT_TX_IN_CTL, port1Base c + CPSW_PORT_PORT_VLAN, port2Base c + CPSW_PORT_PORT_VLAN,
      cpdmaBase c + 0xE0, cpdmaBase c + CPSW_CPDMA_TX_CONTROL, cpdmaBase c + CPSW_CPDMA_RX_CONTROL,
      cpdmaBase c + 0x220, cpdmaBase c + CPSW_CPDMA_TX_INTMASK_SET, wrBase c + 0x10 + 0x4,
      cpdmaBase c + CPSW_CPDMA_RX_INTMASK_SET, wrBase c + 0x10 + 0x8,
      sl1Base c + CPSW_SL_MACCONTROL, sl2Base c + CPSW_SL_MACCONTROL]"

fun get_entries :: "'s bus \<Rightarrow> DWORD \<Rightarrow> DWORD \<Rightarrow> nat \<Rightarrow> 's \<Rightarrow> DWORD list list \<times> 's" where
  "get_entries B base idx 0 s = ([], s)"
| "get_entries B base idx (Suc n) s =
     (case CPSWALETableEntryGet B base idx s of (e, s) \<Rightarrow>
      case get_entries B base (idx + 1) n s of (es, s) \<Rightarrow> (e # es, s))"

fun set_entries :: "'s bus \<Rightarrow> DWORD \<Rightarrow> DWORD \<Rightarrow> DWORD list list \<Rightarrow> 's \<Rightarrow> 's" where
  "set_entries B base idx [] s = s"
| "set_entries B base idx (e # es) s = set_entries B base (idx + 1) es (CPSWALETableEntrySet B base idx e s)"

definition CPSWContextSave :: "'s bus \<Rightarrow> CPSWCONTEXT \<Rightarrow> 's \<Rightarrow> (CPSWCONTEXT \<times> 's) option" where
  "CPSWContextSave B c s =
     Option.bind (CPSWCPDMACmdIdleEnable B (cpdmaBase c) s) (\<lambda>s.
       case rd_list B (ram_addrs c) s of (ram, s) \<Rightarrow>
       case rd_list B (ale_addrs c) s of (ctls, s) \<Rightarrow>
       case get_entries B (aleBase c) 0 1024 s of (es, s) \<Rightarrow>
       case rd_list B (other_addrs c) s of (vs, s) \<Rightarrow>
         Some (c\<lparr>cppiRam := ram, aleCtls := ctls, aleEntry := es, otherRegs := vs\<rparr>, s))"

definition CPSWContextRestore :: "'s bus \<Rightarrow> CPSWCONTEXT \<Rightarrow> 's \<Rightarrow> 's" where
  "CPSWContextRestore B c s =
     (let s = wr_list B (zip (ram_addrs c) (cppiRam c)) s;
          s = wr_list B (zip (ale_addrs c) (aleCtls c)) s;
          s = set_entries B (aleBase c) 0 (aleEntry c) s
      in wr_list B (zip (other_addrs c) (otherRegs c)) s)"

section \<open>The contract of the lookup engine\<close>

lemma and_table_mask: "x AND 0x3FF = take_bit 10 x" for x :: DWORD
  by (simp add: take_bit_eq_mask mask_eq_exp_minus_1)

lemma write_bit_iff: "bit CPSW_ALE_TBLCTL_WRITE_RDZ n \<longleftrightarrow> n = 31"
proof -
  have "push_bit 31 1 = CPSW_ALE_TBLCTL_WRITE_RDZ" by simp
  moreover have "bit (push_bit 31 1 :: DWORD) n \<longleftrightarrow> n = 31" by (auto simp only: bit_push_bit_iff bit_1_iff) auto
  ultimately show ?thesis by (simp only:)
qed

lemma and_write_bit: "x AND CPSW_ALE_TBLCTL_WRITE_RDZ = 0 \<longleftrightarrow> \<not> bit x 31" for x :: DWORD
proof
  assume "x AND CPSW_ALE_TBLCTL_WRITE_RDZ = 0"
  then have "\<not> bit (x AND CPSW_ALE_TBLCTL_WRITE_RDZ) 31" by (simp only: bit_0_eq bot_apply) simp
  then show "\<not> bit x 31" by (simp only: bit_and_iff write_bit_iff simp_thms)
next
  assume "\<not> bit x 31"
  then show "x AND CPSW_ALE_TBLCTL_WRITE_RDZ = 0"
    by (intro bit_word_eqI) (auto simp only: bit_and_iff write_bit_iff bit_0_eq bot_apply bot_bool_def)
qed

lemma of_nat_small: "i < 1024 \<Longrightarrow> take_bit 10 (of_nat i) = (of_nat i :: DWORD)"
  by (simp add: take_bit_of_nat take_bit_nat_eq_self)

lemma of_nat_small_bit: "i < 1024 \<Longrightarrow> \<not> bit (of_nat i :: DWORD) 31"
  by (subst of_nat_small [symmetric]) (simp_all add: bit_take_bit_iff)

lemma take_write_bit: "take_bit 10 (x OR CPSW_ALE_TBLCTL_WRITE_RDZ) = take_bit 10 x" for x :: DWORD
  by (rule bit_word_eqI) (auto simp only: bit_take_bit_iff bit_or_iff write_bit_iff)

lemma index_word:
  assumes "i < 1024"
  shows "unat ((of_nat i :: DWORD) AND 0x3FF) = i" "(of_nat i :: DWORD) AND CPSW_ALE_TBLCTL_WRITE_RDZ = 0"
    "unat (((of_nat i :: DWORD) OR CPSW_ALE_TBLCTL_WRITE_RDZ) AND 0x3FF) = i"
    "((of_nat i :: DWORD) OR CPSW_ALE_TBLCTL_WRITE_RDZ) AND CPSW_ALE_TBLCTL_WRITE_RDZ \<noteq> 0"
proof -
  have u: "unat (of_nat i :: DWORD) = i" using assms by (simp add: unat_of_nat)
  show "unat ((of_nat i :: DWORD) AND 0x3FF) = i"
    by (simp only: and_table_mask of_nat_small [OF assms] u)
  show "(of_nat i :: DWORD) AND CPSW_ALE_TBLCTL_WRITE_RDZ = 0"
    using of_nat_small_bit [OF assms] by (simp only: and_write_bit simp_thms)
  show "unat (((of_nat i :: DWORD) OR CPSW_ALE_TBLCTL_WRITE_RDZ) AND 0x3FF) = i"
    by (simp only: and_table_mask take_write_bit of_nat_small [OF assms] u)
  show "((of_nat i :: DWORD) OR CPSW_ALE_TBLCTL_WRITE_RDZ) AND CPSW_ALE_TBLCTL_WRITE_RDZ \<noteq> 0"
    by (simp only: and_write_bit bit_or_iff write_bit_iff simp_thms)
qed

text \<open>
  The table of the engine is reached through a window of registers: writing an index loads the entry,
  writing it with \<^verbatim>\<open>WRITE_RDZ\<close> stores it; the index is the low ten bits. The contract speaks of whole entries.
\<close>

locale table_window =
  fixes B :: "'s bus" and keeps :: "DWORD \<Rightarrow> bool" and val :: "DWORD \<Rightarrow> 's \<Rightarrow> DWORD"
    and base :: DWORD and tbl :: "'s \<Rightarrow> nat \<Rightarrow> DWORD list"
  assumes get_entry: "i < 1024 \<Longrightarrow> \<exists>s'. CPSWALETableEntryGet B base (of_nat i) s = (tbl s i, s') \<and>
      tbl s' = tbl s \<and> (\<forall>a. keeps a \<longrightarrow> val a s' = val a s)"
    and set_entry_word: "length e = 3 \<Longrightarrow> tbl (CPSWALETableEntrySet B base w e s) = (tbl s)(unat (w AND 0x3FF) := e) \<and>
      (\<forall>a. keeps a \<longrightarrow> val a (CPSWALETableEntrySet B base w e s) = val a s)"
    and tbl_len: "length (tbl s i) = 3"
begin

lemma set_entry:
  "i < 1024 \<Longrightarrow> length e = 3 \<Longrightarrow> tbl (CPSWALETableEntrySet B base (of_nat i) e s) = (tbl s)(i := e) \<and>
   (\<forall>a. keeps a \<longrightarrow> val a (CPSWALETableEntrySet B base (of_nat i) e s) = val a s)"
  using set_entry_word [of e "of_nat i" s] index_word(1) [of i] by simp

lemma get_entries_tbl:
  "k + n \<le> 1024 \<Longrightarrow> \<exists>s'. get_entries B base (of_nat k) n s = (map (tbl s) [k..<k + n], s') \<and>
     tbl s' = tbl s \<and> (\<forall>a. keeps a \<longrightarrow> val a s' = val a s)"
proof (induction n arbitrary: k s)
  case (Suc n)
  obtain s1 where s1: "CPSWALETableEntryGet B base (of_nat k) s = (tbl s k, s1)" "tbl s1 = tbl s"
    "\<forall>a. keeps a \<longrightarrow> val a s1 = val a s" using get_entry [of k s] Suc.prems by auto
  have "\<exists>s'. get_entries B base (of_nat (Suc k)) n s1 = (map (tbl s1) [Suc k..<Suc k + n], s') \<and>
      tbl s' = tbl s1 \<and> (\<forall>a. keeps a \<longrightarrow> val a s' = val a s1)"
    using Suc.prems by (intro Suc.IH) simp
  moreover have "[k..<k + Suc n] = k # [Suc k..<Suc k + n]" by (simp add: upt_conv_Cons)
  ultimately show ?case using s1 by (auto simp: add.commute)
qed simp

lemma set_entries_tbl:
  "k + length es \<le> 1024 \<Longrightarrow> \<forall>e \<in> set es. length e = 3 \<Longrightarrow>
   tbl (set_entries B base (of_nat k) es s) = (\<lambda>i. if k \<le> i \<and> i < k + length es then es ! (i - k) else tbl s i) \<and>
   (\<forall>a. keeps a \<longrightarrow> val a (set_entries B base (of_nat k) es s) = val a s)"
proof (induction es arbitrary: k s)
  case (Cons e es)
  let ?s = "CPSWALETableEntrySet B base (of_nat k) e s"
  have E: "tbl ?s = (tbl s)(k := e)" "\<forall>a. keeps a \<longrightarrow> val a ?s = val a s"
    using set_entry [of k e s] Cons.prems by auto
  have I: "tbl (set_entries B base (of_nat (Suc k)) es ?s) =
      (\<lambda>i. if Suc k \<le> i \<and> i < Suc k + length es then es ! (i - Suc k) else tbl ?s i)"
    "\<forall>a. keeps a \<longrightarrow> val a (set_entries B base (of_nat (Suc k)) es ?s) = val a ?s"
    using Cons.IH [of "Suc k" ?s] Cons.prems by auto
  have un: "set_entries B base (of_nat k) (e # es) s = set_entries B base (of_nat (Suc k)) es ?s"
    by (simp add: add.commute)
  show ?case unfolding un using I E by (auto simp: fun_eq_iff nth_Cons')
qed (auto simp: fun_eq_iff)

end

text \<open>The engine as most of the driver uses it: besides the table, registers that hold their value.\<close>

locale lookup_engine = plain_regs B plain val + table_window B plain val base tbl
  for B :: "'s bus" and plain val and base :: DWORD and tbl +
  assumes tbl_wr: "plain a \<Longrightarrow> tbl (wr B a x s) = tbl s"

section \<open>The contract of the saved registers\<close>

text \<open>
  What a write does to a register of the context, by the reference manual of the chip: most registers
  hold what is written; to the two \<^verbatim>\<open>INTMASK_SET\<close> registers of the DMA controller a written one sets the
  bit of the mask and a zero leaves it; a number written to \<^verbatim>\<open>RX_FREEBUFFER\<close> is added to the 16-bit count;
  and two bits of the control register of the lookup engine are commands (clear the table, age out) that
  never read as one.  The contract holds while no packet moves: the save first idles the controller, and
  the restore is for a switch that comes back from a power-down.
\<close>

datatype reg_kind = Holds | Sets | Counts | Commands

fun written :: "reg_kind \<Rightarrow> DWORD \<Rightarrow> DWORD \<Rightarrow> DWORD" where
  "written Holds v x = x"
| "written Sets v x = v OR x"
| "written Counts v x = (v + x) AND 0xFFFF"
| "written Commands v x = x AND 0x9FFFFFFF"

definition saved_addrs :: "'a CPSWCONTEXT_scheme \<Rightarrow> DWORD list" where
  "saved_addrs c = ram_addrs c @ ale_addrs c @ other_addrs c"

definition saved_kind :: "'a CPSWCONTEXT_scheme \<Rightarrow> DWORD \<Rightarrow> reg_kind" where
  "saved_kind c a =
     (if a = cpdmaBase c + CPSW_CPDMA_TX_INTMASK_SET \<or> a = cpdmaBase c + CPSW_CPDMA_RX_INTMASK_SET then Sets
      else if a = cpdmaBase c + 0xE0 then Counts
      else if a = aleBase c + CPSW_ALE_CONTROL then Commands else Holds)"

locale switch_context = table_window B "\<lambda>a. a \<in> set (saved_addrs c)" val "aleBase c" tbl
  for B :: "'s bus" and c :: CPSWCONTEXT and val and tbl +
  assumes addrs: "distinct (saved_addrs c)"
    and rd_saved: "a \<in> set (saved_addrs c) \<Longrightarrow> rd B a s = (val a s, s)"
    and wr_saved: "a \<in> set (saved_addrs c) \<Longrightarrow> b \<in> set (saved_addrs c) \<Longrightarrow>
      val a (wr B b x s) = (if a = b then written (saved_kind c a) (val a s) x else val a s)"
    and tbl_saved: "a \<in> set (saved_addrs c) \<Longrightarrow> (saved_kind c a = Commands \<Longrightarrow> x AND 0x60000000 = 0) \<Longrightarrow>
      tbl (wr B a x s) = tbl s"
    and commands_read: "saved_kind c a = Commands \<Longrightarrow> val a s AND 0x60000000 = 0"
    and counts_read: "saved_kind c a = Counts \<Longrightarrow> val a s AND 0xFFFF = val a s"
begin

lemma rd_list_saved: "set as \<subseteq> set (saved_addrs c) \<Longrightarrow> rd_list B as s = (map (\<lambda>a. val a s) as, s)"
  by (induction as) (simp_all add: rd_saved)

lemma wr_list_saved:
  "distinct as \<Longrightarrow> set as \<subseteq> set (saved_addrs c) \<Longrightarrow> a \<in> set (saved_addrs c) \<Longrightarrow>
   val a (wr_list B (zip as (map f as)) s) = (if a \<in> set as then written (saved_kind c a) (val a s) (f a) else val a s)"
proof (induction as arbitrary: s)
  case (Cons b as)
  then show ?case by (cases "a = b") (auto simp: wr_saved)
qed simp

lemma wr_list_tbl:
  "set as \<subseteq> set (saved_addrs c) \<Longrightarrow> \<forall>a. saved_kind c a = Commands \<longrightarrow> f a AND 0x60000000 = 0 \<Longrightarrow>
   tbl (wr_list B (zip as (map f as)) s) = tbl s"
  by (induction as arbitrary: s) (simp_all add: tbl_saved)

lemma restored:
  fixes s1 t
  defines "f \<equiv> \<lambda>a. val a s1"
  defines "u \<equiv> CPSWContextRestore B (c\<lparr>cppiRam := map f (ram_addrs c), aleCtls := map f (ale_addrs c),
    aleEntry := map (tbl s1) [0..<1024], otherRegs := map f (other_addrs c)\<rparr>) t"
  shows "\<forall>a \<in> set (saved_addrs c). val a u = written (saved_kind c a) (val a t) (val a s1)"
    and "i < 1024 \<Longrightarrow> tbl u i = tbl s1 i"
proof -
  have ds: "distinct (ram_addrs c)" "distinct (ale_addrs c)" "distinct (other_addrs c)"
    "set (ram_addrs c) \<inter> set (ale_addrs c) = {}" "set (ram_addrs c) \<inter> set (other_addrs c) = {}"
    "set (ale_addrs c) \<inter> set (other_addrs c) = {}" using addrs by (auto simp: saved_addrs_def)
  have sub: "set (ram_addrs c) \<subseteq> set (saved_addrs c)" "set (ale_addrs c) \<subseteq> set (saved_addrs c)"
    "set (other_addrs c) \<subseteq> set (saved_addrs c)" by (auto simp: saved_addrs_def)
  define t1 where "t1 = wr_list B (zip (ram_addrs c) (map f (ram_addrs c))) t"
  define t2 where "t2 = wr_list B (zip (ale_addrs c) (map f (ale_addrs c))) t1"
  define t3 where "t3 = set_entries B (aleBase c) 0 (map (tbl s1) [0..<1024]) t2"
  have a': "ram_addrs (c\<lparr>cppiRam := k, aleCtls := l, aleEntry := m, otherRegs := n\<rparr>) = ram_addrs c"
    "ale_addrs (c\<lparr>cppiRam := k, aleCtls := l, aleEntry := m, otherRegs := n\<rparr>) = ale_addrs c"
    "other_addrs (c\<lparr>cppiRam := k, aleCtls := l, aleEntry := m, otherRegs := n\<rparr>) = other_addrs c" for k l m n
    by (simp_all add: ram_addrs_def ale_addrs_def other_addrs_def)
  have u: "u = wr_list B (zip (other_addrs c) (map f (other_addrs c))) t3"
    unfolding u_def CPSWContextRestore_def a' Let_def by (simp add: t1_def t2_def t3_def)
  have S3: "tbl t3 = (\<lambda>i. if i < 1024 then tbl s1 i else tbl t2 i)"
    "\<forall>a \<in> set (saved_addrs c). val a t3 = val a t2"
    using set_entries_tbl [of 0 "map (tbl s1) [0..<1024]" t2] tbl_len by (auto simp: t3_def)
  note W = wr_list_saved [where f = f, OF ds(1) sub(1)] wr_list_saved [where f = f, OF ds(2) sub(2)]
    wr_list_saved [where f = f, OF ds(3) sub(3)]
  show "\<forall>a \<in> set (saved_addrs c). val a u = written (saved_kind c a) (val a t) (val a s1)"
  proof
    fix a assume a: "a \<in> set (saved_addrs c)"
    then have "a \<in> set (ram_addrs c) \<or> a \<in> set (ale_addrs c) \<or> a \<in> set (other_addrs c)"
      by (simp add: saved_addrs_def)
    then show "val a u = written (saved_kind c a) (val a t) (val a s1)"
      using ds(4-6) W [OF a] S3(2) a by (auto simp: u t1_def t2_def f_def)
  qed
  show "tbl u i = tbl s1 i" if "i < 1024"
    using that S3(1) wr_list_tbl [OF sub(3), of f] commands_read by (simp add: u f_def)
qed

lemma context_saved:
  assumes "CPSWCPDMACmdIdleEnable B (cpdmaBase c) s = Some s1"
  defines "f \<equiv> \<lambda>a. val a s1"
  shows "\<exists>s2. CPSWContextSave B c s = Some (c\<lparr>cppiRam := map f (ram_addrs c), aleCtls := map f (ale_addrs c),
    aleEntry := map (tbl s1) [0..<1024], otherRegs := map f (other_addrs c)\<rparr>, s2)"
proof -
  have sub: "set (ram_addrs c) \<subseteq> set (saved_addrs c)" "set (ale_addrs c) \<subseteq> set (saved_addrs c)"
    "set (other_addrs c) \<subseteq> set (saved_addrs c)" by (auto simp: saved_addrs_def)
  from get_entries_tbl [of 0 1024 s1] obtain s2 where
    G: "get_entries B (aleBase c) 0 1024 s1 = (map (tbl s1) [0..<1024], s2)"
    "\<forall>a \<in> set (saved_addrs c). val a s2 = val a s1" by auto
  have "map (\<lambda>a. val a s2) (other_addrs c) = map f (other_addrs c)" using G(2) sub(3) by (auto simp: f_def)
  then show ?thesis
    using G(1) assms(1) sub by (simp add: CPSWContextSave_def rd_list_saved f_def del: get_entries.simps)
qed

lemma written_value:
  "written (saved_kind c a) (val a t) (val a s1) =
     (if a = cpdmaBase c + CPSW_CPDMA_TX_INTMASK_SET \<or> a = cpdmaBase c + CPSW_CPDMA_RX_INTMASK_SET
      then val a t OR val a s1
      else if a = cpdmaBase c + 0xE0 then (val a t + val a s1) AND 0xFFFF else val a s1)"
proof -
  have n: "x AND 0x9FFFFFFF = x" if "x AND 0x60000000 = 0" for x :: DWORD
  proof -
    have "(0x9FFFFFFF OR 0x60000000 :: DWORD) = - 1" by simp
    then have "x = x AND (0x9FFFFFFF OR 0x60000000)" by (simp only: and.right_neutral)
    also have "\<dots> = (x AND 0x9FFFFFFF) OR (x AND 0x60000000)" by (simp only: bit.conj_disj_distrib)
    finally show ?thesis using that by simp
  qed
  show ?thesis using commands_read [of a s1] n by (auto simp: saved_kind_def)
qed

end

section \<open>The hardware\<close>

text \<open>
  The registers of the switch and the table of its lookup engine, as the reference manual of the chip
  describes them: the table is stored and loaded through the three words at the index in the low ten
  bits of the control register.
\<close>

record cpsw_hw =
  hregs :: "DWORD \<Rightarrow> DWORD"
  htbl :: "nat \<Rightarrow> DWORD \<times> DWORD \<times> DWORD"

definition entry_words :: "DWORD \<times> DWORD \<times> DWORD \<Rightarrow> DWORD list" where
  "entry_words e = [fst e, fst (snd e), snd (snd e)]"

definition tblw_regs :: "DWORD \<Rightarrow> DWORD set" where
  "tblw_regs base = {base + 0x3C, base + 0x38, base + 0x34}"

definition cpsw_bus :: "DWORD \<Rightarrow> cpsw_hw bus" where
  "cpsw_bus base = \<lparr>
     rd = (\<lambda>a s. (hregs s a, s)),
     wr = (\<lambda>a x s.
       if a \<noteq> base + CPSW_ALE_TBLCTL then s\<lparr>hregs := (hregs s)(a := x)\<rparr>
       else let i = unat (x AND 0x3FF) in
            if x AND CPSW_ALE_TBLCTL_WRITE_RDZ \<noteq> 0
            then s\<lparr>hregs := (hregs s)(a := x),
                   htbl := (htbl s)(i := (hregs s (base + 0x3C), hregs s (base + 0x38), hregs s (base + 0x34)))\<rparr>
            else s\<lparr>hregs := (hregs s)(a := x, base + 0x3C := fst (htbl s i), base + 0x38 := fst (snd (htbl s i)),
                                     base + 0x34 := snd (snd (htbl s i)))\<rparr>)\<rparr>"

definition hw_plain :: "DWORD \<Rightarrow> DWORD \<Rightarrow> bool" where
  "hw_plain base a \<longleftrightarrow> a \<noteq> base + CPSW_ALE_TBLCTL \<and> a \<notin> tblw_regs base"

definition hw_tbl :: "cpsw_hw \<Rightarrow> nat \<Rightarrow> DWORD list" where
  "hw_tbl s i = entry_words (htbl s i)"

lemma three: "[0..<3] = [0, 1, 2 :: nat]"
  by (simp add: upt_rec)

lemma tblw: "CPSW_ALE_TBLW 0 = 0x3C" "CPSW_ALE_TBLW 1 = 0x38" "CPSW_ALE_TBLW 2 = 0x34"
  by (simp_all add: CPSW_ALE_TBLW_def)

lemma length_3: "length e = 3 \<Longrightarrow> e = [e ! 0, e ! 1, e ! 2]"
  by (auto simp: numeral_3_eq_3 length_Suc_conv numeral_2_eq_2)

lemma hw_set:
  assumes "length e = 3"
  shows "hw_tbl (CPSWALETableEntrySet (cpsw_bus base) base w e s) = (hw_tbl s)(unat (w AND 0x3FF) := e) \<and>
    (\<forall>a. hw_plain base a \<longrightarrow> hregs (CPSWALETableEntrySet (cpsw_bus base) base w e s) a = hregs s a)"
proof -
  have i: "(w OR CPSW_ALE_TBLCTL_WRITE_RDZ) AND 0x3FF = w AND 0x3FF"
    by (simp only: and_table_mask take_write_bit)
  have b: "(w OR CPSW_ALE_TBLCTL_WRITE_RDZ) AND CPSW_ALE_TBLCTL_WRITE_RDZ \<noteq> 0"
    by (simp only: and_write_bit bit_or_iff write_bit_iff simp_thms)
  have "CPSWALETableEntrySet (cpsw_bus base) base w e s =
      s\<lparr>hregs := (hregs s)(base + 0x3C := e ! 0, base + 0x38 := e ! 1, base + 0x34 := e ! 2,
          base + 0x20 := w OR CPSW_ALE_TBLCTL_WRITE_RDZ),
        htbl := (htbl s)(unat (w AND 0x3FF) := (e ! 0, e ! 1, e ! 2))\<rparr>"
    using b by (simp add: CPSWALETableEntrySet_def three tblw cpsw_bus_def Let_def i)
  then show ?thesis
    using length_3 [OF assms]
    by (auto simp: hw_tbl_def entry_words_def fun_eq_iff hw_plain_def tblw_regs_def)
qed

lemma hw_get:
  assumes "i < 1024"
  shows "\<exists>s'. CPSWALETableEntryGet (cpsw_bus base) base (of_nat i) s = (hw_tbl s i, s') \<and> hw_tbl s' = hw_tbl s \<and>
    (\<forall>a. hw_plain base a \<longrightarrow> hregs s' a = hregs s a)"
  using index_word(1,2) [OF assms]
  by (auto simp: CPSWALETableEntryGet_def three tblw cpsw_bus_def hw_tbl_def entry_words_def hw_plain_def
      tblw_regs_def fun_eq_iff Let_def)

interpretation cpsw: lookup_engine "cpsw_bus base" "hw_plain base" "\<lambda>a s. hregs s a" base hw_tbl for base
proof
  show "rd (cpsw_bus base) a s = (hregs s a, s)" for a s by (simp add: cpsw_bus_def)
  show "hregs (wr (cpsw_bus base) a x s) a = x" if "hw_plain base a" for a x s
    using that by (simp add: cpsw_bus_def hw_plain_def)
  show "hregs (wr (cpsw_bus base) b x s) a = hregs s a" if "hw_plain base b" "b \<noteq> a" for a b x s
    using that by (simp add: cpsw_bus_def hw_plain_def)
  show "hw_tbl (wr (cpsw_bus base) a x s) = hw_tbl s" if "hw_plain base a" for a x s
    using that by (simp add: cpsw_bus_def hw_plain_def hw_tbl_def fun_eq_iff)
  show "length (hw_tbl s i) = 3" for s i by (simp add: hw_tbl_def entry_words_def)
qed (use hw_get hw_set in auto)


section \<open>Properties\<close>

text \<open>The addresses of the chip.\<close>

definition am335x :: CPSWCONTEXT where
  "am335x = \<lparr>aleBase = 0x4A100D00, ssBase = 0x4A100000, port1Base = 0x4A100200, port2Base = 0x4A100300,
     cpdmaBase = 0x4A100800, cppiRamBase = 0x4A102000, wrBase = 0x4A101200, sl1Base = 0x4A100D80,
     sl2Base = 0x4A100DC0, cppiRam = [], aleCtls = [], aleEntry = [], otherRegs = []\<rparr>"

lemma ram_unat: "i < 2048 \<Longrightarrow> unat (0x4A102000 + 4 * of_nat i :: DWORD) = 0x4A102000 + 4 * i"
  by (simp add: unat_word_ariths unat_of_nat)

lemma ram_am335x: "distinct (ram_addrs am335x)" "a \<in> set (ram_addrs am335x) \<Longrightarrow> 0x4A102000 \<le> unat a"
proof -
  have "distinct (map (unat :: DWORD \<Rightarrow> nat) (ram_addrs am335x))"
    by (simp add: ram_addrs_def am335x_def comp_def ram_unat distinct_map inj_on_def del: upt_Suc)
  then show "distinct (ram_addrs am335x)" by (simp only: distinct_map)
  show "0x4A102000 \<le> unat a" if "a \<in> set (ram_addrs am335x)"
    using that by (auto simp: ram_addrs_def am335x_def ram_unat)
qed

lemma regs_am335x: "distinct (ale_addrs am335x @ other_addrs am335x)"
  "a \<in> set (ale_addrs am335x @ other_addrs am335x) \<Longrightarrow> unat a < 0x4A102000 \<and> hw_plain 0x4A100D00 a"
  by (auto simp: ale_addrs_def other_addrs_def am335x_def CPSW_ALE_PORTCTL_def hw_plain_def tblw_regs_def)

text \<open>
  The switch at its addresses on the chip: the lookup engine as in \<open>cpsw_bus\<close> with its two commands, the
  masks of the DMA controller with their set and clear registers, the counts of free buffers, the soft
  reset (which clears the registers of the DMA controller and reads zero once it is done), and the status
  that reports the controller idle once that is commanded.
\<close>

definition switch_val :: "DWORD \<Rightarrow> cpsw_hw \<Rightarrow> DWORD" where
  "switch_val a s =
     (if a = 0x4A100824 then (if hregs s 0x4A100820 AND 8 \<noteq> 0 then 0x80000000 else 0)
      else if a = 0x4A10088C then hregs s 0x4A100888
      else if a = 0x4A1008AC then hregs s 0x4A1008A8
      else if a = 0x4A10081C then 0
      else if a = 0x4A100D08 then hregs s a AND 0x9FFFFFFF
      else if 0x4A1008E0 \<le> a \<and> a < 0x4A100900 then hregs s a AND 0xFFFF
      else hregs s a)"

definition switch_wr :: "DWORD \<Rightarrow> DWORD \<Rightarrow> cpsw_hw \<Rightarrow> cpsw_hw" where
  "switch_wr a x s =
     (if a = 0x4A100888 \<or> a = 0x4A1008A8 then s\<lparr>hregs := (hregs s)(a := hregs s a OR x)\<rparr>
      else if a = 0x4A10088C \<or> a = 0x4A1008AC then s\<lparr>hregs := (hregs s)(a - 4 := hregs s (a - 4) AND NOT x)\<rparr>
      else if 0x4A1008E0 \<le> a \<and> a < 0x4A100900 then s\<lparr>hregs := (hregs s)(a := switch_val a s + x)\<rparr>
      else if a = 0x4A10081C
      then (if x AND 1 = 0 then s
            else s\<lparr>hregs := (\<lambda>b. if 0x4A100800 \<le> b \<and> b < 0x4A100C00 then 0 else hregs s b)\<rparr>)
      else if a = 0x4A100D08
      then s\<lparr>hregs := (hregs s)(a := x), htbl := (if x AND 0x40000000 = 0 then htbl s else (\<lambda>i. (0, 0, 0)))\<rparr>
      else wr (cpsw_bus 0x4A100D00) a x s)"

definition switch_bus :: "cpsw_hw bus" where
  "switch_bus = \<lparr>rd = (\<lambda>a s. (switch_val a s, s)), wr = switch_wr\<rparr>"

lemma saved_am335x:
  assumes "a \<in> set (saved_addrs am335x)"
  shows "hw_plain 0x4A100D00 a" "a \<notin> {0x4A100824, 0x4A10088C, 0x4A1008AC, 0x4A10081C}"
    "0x4A1008E0 \<le> a \<and> a < 0x4A100900 \<longleftrightarrow> a = 0x4A1008E0"
    "saved_kind am335x a = (if a = 0x4A100888 \<or> a = 0x4A1008A8 then Sets else if a = 0x4A1008E0 then Counts
       else if a = 0x4A100D08 then Commands else Holds)"
proof -
  have k: "saved_kind am335x a = (if a = 0x4A100888 \<or> a = 0x4A1008A8 then Sets else if a = 0x4A1008E0 then Counts
       else if a = 0x4A100D08 then Commands else Holds)" by (simp add: saved_kind_def am335x_def)
  consider "a \<in> set (ram_addrs am335x)" | "a \<in> set (ale_addrs am335x @ other_addrs am335x)"
    using assms by (auto simp: saved_addrs_def)
  then have "hw_plain 0x4A100D00 a \<and> a \<notin> {0x4A100824, 0x4A10088C, 0x4A1008AC, 0x4A10081C} \<and>
    (0x4A1008E0 \<le> a \<and> a < 0x4A100900 \<longleftrightarrow> a = 0x4A1008E0)"
  proof cases
    case 1
    then have "0x4A102000 \<le> unat a" by (rule ram_am335x(2))
    then show ?thesis by (auto simp: hw_plain_def tblw_regs_def word_le_nat_alt word_less_nat_alt)
  next
    case 2
    then show ?thesis
      by (auto simp: ale_addrs_def other_addrs_def am335x_def CPSW_ALE_PORTCTL_def hw_plain_def tblw_regs_def)
  qed
  with k show "hw_plain 0x4A100D00 a" "a \<notin> {0x4A100824, 0x4A10088C, 0x4A1008AC, 0x4A10081C}"
    "0x4A1008E0 \<le> a \<and> a < 0x4A100900 \<longleftrightarrow> a = 0x4A1008E0"
    "saved_kind am335x a = (if a = 0x4A100888 \<or> a = 0x4A1008A8 then Sets else if a = 0x4A1008E0 then Counts
       else if a = 0x4A100D08 then Commands else Holds)" by blast+
qed

lemma switch_entry_set:
  "CPSWALETableEntrySet switch_bus 0x4A100D00 w e s = CPSWALETableEntrySet (cpsw_bus 0x4A100D00) 0x4A100D00 w e s"
  by (simp add: CPSWALETableEntrySet_def three tblw switch_bus_def switch_wr_def)

lemma switch_entry_get:
  "CPSWALETableEntryGet switch_bus 0x4A100D00 w s = CPSWALETableEntryGet (cpsw_bus 0x4A100D00) 0x4A100D00 w s"
  by (simp add: CPSWALETableEntryGet_def three tblw switch_bus_def switch_wr_def switch_val_def)
    (simp add: cpsw_bus_def)

lemma switch_val_cong:
  "(\<forall>b. hw_plain 0x4A100D00 b \<longrightarrow> hregs s' b = hregs s b) \<Longrightarrow> hw_plain 0x4A100D00 a \<Longrightarrow> switch_val a s' = switch_val a s"
  by (simp add: switch_val_def hw_plain_def tblw_regs_def)

lemma hw_plain_wr: "hw_plain base a \<Longrightarrow> wr (cpsw_bus base) a x s = s\<lparr>hregs := (hregs s)(a := x)\<rparr>"
  by (simp add: cpsw_bus_def hw_plain_def)

interpretation switch: switch_context switch_bus am335x switch_val hw_tbl
proof
  have b: "aleBase am335x = 0x4A100D00" by (simp add: am335x_def)
  show "\<exists>s'. CPSWALETableEntryGet switch_bus (aleBase am335x) (of_nat i) s = (hw_tbl s i, s') \<and> hw_tbl s' = hw_tbl s \<and>
      (\<forall>a. a \<in> set (saved_addrs am335x) \<longrightarrow> switch_val a s' = switch_val a s)" if "i < 1024" for i s
    using hw_get [OF that, where base = "0x4A100D00" and s = s] saved_am335x(1) switch_val_cong unfolding b switch_entry_get by blast
  show "hw_tbl (CPSWALETableEntrySet switch_bus (aleBase am335x) w e s) = (hw_tbl s)(unat (w AND 0x3FF) := e) \<and>
      (\<forall>a. a \<in> set (saved_addrs am335x) \<longrightarrow>
        switch_val a (CPSWALETableEntrySet switch_bus (aleBase am335x) w e s) = switch_val a s)"
    if "length e = 3" for e w s
    using hw_set [OF that, where base = "0x4A100D00" and w = w and s = s] saved_am335x(1) switch_val_cong unfolding b switch_entry_set by blast
  show "length (hw_tbl s i) = 3" for s i by (simp add: hw_tbl_def entry_words_def)
  have "set (ram_addrs am335x) \<inter> set (ale_addrs am335x @ other_addrs am335x) = {}"
    using ram_am335x(2) regs_am335x(2) by fastforce
  then show "distinct (saved_addrs am335x)" using ram_am335x(1) regs_am335x(1) by (auto simp: saved_addrs_def)
  show "rd switch_bus a s = (switch_val a s, s)" for a s by (simp add: switch_bus_def)
  show "switch_val a (wr switch_bus b' x s) =
      (if a = b' then written (saved_kind am335x a) (switch_val a s) x else switch_val a s)"
    if "a \<in> set (saved_addrs am335x)" "b' \<in> set (saved_addrs am335x)" for a b' x s
    using saved_am335x(2-4) [OF that(1)] saved_am335x [OF that(2)]
    by (auto simp: switch_bus_def switch_wr_def hw_plain_wr switch_val_def)
  show "hw_tbl (wr switch_bus a x s) = hw_tbl s"
    if "a \<in> set (saved_addrs am335x)" "saved_kind am335x a = Commands \<Longrightarrow> x AND 0x60000000 = 0" for a x s
  proof -
    have "x AND 0x40000000 = 0" if "x AND 0x60000000 = 0"
    proof -
      have "x AND 0x40000000 = (x AND 0x60000000) AND 0x40000000" by (simp add: and.assoc)
      then show ?thesis using that by simp
    qed
    then show ?thesis
      using saved_am335x [OF that(1)] that(2)
      by (auto simp: switch_bus_def switch_wr_def hw_plain_wr hw_tbl_def fun_eq_iff)
  qed
  show "switch_val a s AND 0x60000000 = 0" if "saved_kind am335x a = Commands" for a s
    using that by (auto simp: saved_kind_def am335x_def switch_val_def and.assoc split: if_splits)
  show "switch_val a s AND 0xFFFF = switch_val a s" if "saved_kind am335x a = Counts" for a s
    using that by (auto simp: saved_kind_def am335x_def switch_val_def and.assoc split: if_splits)
qed

text \<open>C8: saving the context of the switch and restoring it brings back all 1024 entries of the lookup
  table, the descriptor memory and every saved register that holds what is written.  The two interrupt
  masks of the DMA controller and its count of free buffers are registers a write sets and adds to: from
  them the restore takes the union with the mask, and the sum with the count, that it finds.  So in a
  switch whose masks and count are zero, as after the power-down and reset the function is for, every
  saved register is as it was, and in one that was not reset they are not.  The save waits for the DMA
  controller to report itself idle.\<close>

theorem context_roundtrip:
  assumes "switch_context B c val tbl" and "CPSWCPDMACmdIdleEnable B (cpdmaBase c) s = Some s1"
  shows "\<exists>c' s2. CPSWContextSave B c s = Some (c', s2) \<and>
    (\<forall>t. (\<forall>i < 1024. tbl (CPSWContextRestore B c' t) i = tbl s1 i) \<and>
       (\<forall>a \<in> set (ram_addrs c @ ale_addrs c @ other_addrs c). val a (CPSWContextRestore B c' t) =
          (if a = cpdmaBase c + CPSW_CPDMA_TX_INTMASK_SET \<or> a = cpdmaBase c + CPSW_CPDMA_RX_INTMASK_SET
           then val a t OR val a s1
           else if a = cpdmaBase c + 0xE0 then (val a t + val a s1) AND 0xFFFF else val a s1)) \<and>
       (val (cpdmaBase c + CPSW_CPDMA_TX_INTMASK_SET) t = 0 \<and> val (cpdmaBase c + CPSW_CPDMA_RX_INTMASK_SET) t = 0 \<and>
        val (cpdmaBase c + 0xE0) t = 0 \<longrightarrow>
        (\<forall>a \<in> set (ram_addrs c @ ale_addrs c @ other_addrs c). val a (CPSWContextRestore B c' t) = val a s1)))"
proof -
  note R = switch_context.restored [OF assms(1), where ?s1.0 = s1, unfolded switch_context.written_value [OF assms(1)]]
  have z: "val (cpdmaBase c + 0xE0) s1 AND 0xFFFF = val (cpdmaBase c + 0xE0) s1"
    by (rule switch_context.counts_read [OF assms(1)]) (simp add: saved_kind_def)
  from switch_context.context_saved [OF assms] obtain s2 where S: "CPSWContextSave B c s =
    Some (c\<lparr>cppiRam := map (\<lambda>a. val a s1) (ram_addrs c), aleCtls := map (\<lambda>a. val a s1) (ale_addrs c),
      aleEntry := map (tbl s1) [0..<1024], otherRegs := map (\<lambda>a. val a s1) (other_addrs c)\<rparr>, s2)" by blast
  show ?thesis
    by (rule exI, rule exI, rule conjI [OF S], intro allI conjI impI ballI)
      (use R z in \<open>auto simp: saved_addrs_def\<close>)
qed

text \<open>A switch with transmit interrupt 0 unmasked, 64 free buffers and an address table; the save, a
  restore after a soft reset, and one without.\<close>

definition idle_hw :: cpsw_hw where
  "idle_hw = \<lparr>hregs = (\<lambda>a. 0)(0x4A100888 := 1, 0x4A1008E0 := 64, 0x4A100D08 := 0x12), htbl = (\<lambda>i. (of_nat i, 7, 0))\<rparr>"

definition lost_hw :: cpsw_hw where
  "lost_hw = \<lparr>hregs = (\<lambda>a. 0)(0x4A100888 := 2, 0x4A1008E0 := 5), htbl = (\<lambda>i. (0, 0, 0))\<rparr>"

lemma context_roundtrip_witness:
  "\<exists>c' s2 t. CPSWContextSave switch_bus am335x idle_hw = Some (c', s2) \<and>
     t = wr switch_bus (0x4A100800 + CPSW_CPDMA_SOFT_RESET) 1 lost_hw \<and>
     switch_val 0x4A100888 (CPSWContextRestore switch_bus c' t) = 1 \<and>
     switch_val 0x4A1008E0 (CPSWContextRestore switch_bus c' t) = 64 \<and>
     hw_tbl (CPSWContextRestore switch_bus c' t) 5 = [5, 7, 0] \<and>
     switch_val 0x4A100888 (CPSWContextRestore switch_bus c' lost_hw) = 3 \<and>
     switch_val 0x4A1008E0 (CPSWContextRestore switch_bus c' lost_hw) = 69"
proof -
  let ?s1 = "idle_hw\<lparr>hregs := (hregs idle_hw)(0x4A100820 := 8)\<rparr>"
  have idle: "CPSWCPDMACmdIdleEnable switch_bus (cpdmaBase am335x) idle_hw = Some ?s1"
    by (simp add: CPSWCPDMACmdIdleEnable_def reg_or_def switch_bus_def switch_val_def switch_wr_def cpsw_bus_def
        am335x_def idle_hw_def wait_set.simps)
  let ?t = "wr switch_bus (0x4A100800 + CPSW_CPDMA_SOFT_RESET) 1 lost_hw"
  have t: "switch_val 0x4A100888 ?t = 0" "switch_val 0x4A1008A8 ?t = 0" "switch_val 0x4A1008E0 ?t = 0"
    by (simp_all add: switch_bus_def switch_val_def switch_wr_def)
  have m: "0x4A100888 \<in> set (other_addrs am335x)" "0x4A1008E0 \<in> set (other_addrs am335x)"
    by (simp_all add: other_addrs_def am335x_def)
  have v: "switch_val 0x4A100888 ?s1 = 1" "switch_val 0x4A1008E0 ?s1 = 64" "hw_tbl ?s1 5 = [5, 7, 0]"
    "switch_val 0x4A100888 lost_hw = 2" "switch_val 0x4A1008E0 lost_hw = 5" "cpdmaBase am335x = 0x4A100800"
    by (simp_all add: switch_val_def idle_hw_def lost_hw_def hw_tbl_def entry_words_def am335x_def)
  from context_roundtrip [OF switch.switch_context_axioms idle] obtain c' s2 where
    S: "CPSWContextSave switch_bus am335x idle_hw = Some (c', s2)" and
    R: "\<And>u i. i < 1024 \<Longrightarrow> hw_tbl (CPSWContextRestore switch_bus c' u) i = hw_tbl ?s1 i"
    "\<And>u. switch_val 0x4A100888 (CPSWContextRestore switch_bus c' u) = switch_val 0x4A100888 u OR 1"
    "\<And>u. switch_val 0x4A1008E0 (CPSWContextRestore switch_bus c' u) = (switch_val 0x4A1008E0 u + 64) AND 0xFFFF"
    using m v by fastforce
  show ?thesis using S t R v by (intro exI [of _ c'] exI [of _ s2] exI [of _ ?t]) simp
qed

text \<open>the setters of a port control register of the lookup engine change their own field only: the
  port state its low two bits, the broadcast limit its high byte.\<close>

theorem portctl_fields:
  assumes "plain_regs B plain val" and "plain (base + CPSW_ALE_PORTCTL n)" and "st < 4" and "lim < 256"
  defines "p \<equiv> base + CPSW_ALE_PORTCTL n"
  shows "val p (CPSWALEPortStateSet B base n st s) AND 3 = st \<and>
    drop_bit 2 (val p (CPSWALEPortStateSet B base n st s)) = drop_bit 2 (val p s) \<and>
    drop_bit 24 (val p (CPSWALEBroadcastRateLimitSet B base n lim s)) = lim \<and>
    take_bit 24 (val p (CPSWALEBroadcastRateLimitSet B base n lim s)) = take_bit 24 (val p s)"
proof -
  have v: "val p (CPSWALEPortStateSet B base n st s) = (val p s AND NOT 3) OR st"
    "val p (CPSWALEBroadcastRateLimitSet B base n lim s) = (val p s AND NOT 0xFF000000) OR push_bit 24 lim"
    unfolding CPSWALEPortStateSet_def CPSWALEBroadcastRateLimitSet_def p_def
    by (rule plain_regs.field_val [OF assms(1,2)])+
  have b: "(3 :: DWORD) = mask 2" "(0xFF000000 :: DWORD) = push_bit 24 (mask 8)" by (simp_all add: mask_eq_exp_minus_1)
  have fb: "bit st i \<Longrightarrow> i < 2" "bit lim i \<Longrightarrow> i < 8" for i
    using assms(3,4) bits_below [of st 2 i] bits_below [of lim 8 i] by (simp_all add: word_less_nat_alt)
  show ?thesis
    unfolding v b by (intro conjI; rule bit_word_eqI; use fb in \<open>auto simp: bit_simps dest: fb bit_imp_le_length\<close>)
qed

lemma portctl_fields_witness:
  "hregs (CPSWALEPortStateSet (cpsw_bus 0) 0 1 3 idle_hw) 0x44 AND 3 = 3"
proof -
  have "0 + CPSW_ALE_PORTCTL 1 = 0x44" "hw_plain 0 (0 + CPSW_ALE_PORTCTL 1)"
    by (simp_all add: CPSW_ALE_PORTCTL_def hw_plain_def tblw_regs_def)
  moreover have "plain_regs (cpsw_bus 0) (hw_plain 0) (\<lambda>a s. hregs s a)" by (rule cpsw.plain_regs_axioms)
  ultimately show ?thesis using portctl_fields [of "cpsw_bus 0" "hw_plain 0" "\<lambda>a s. hregs s a" 0 1 3 0 idle_hw] by simp
qed

text \<open>three setters of the lookup engine write another field than they are named for:
  \<^verbatim>\<open>CPSWALEVIDIngressCheckSet\<close> leaves the VID ingress check bit as it is and sets the multicast limit to its
  largest value; the mask for registered multicast goes to the field of unregistered multicast, and the
  mask for unregistered multicast to the field of registered multicast.\<close>

theorem setters_miss_their_field:
  assumes "plain_regs B plain val" and "plain (base + CPSW_ALE_PORTCTL n)" and "plain (base + CPSW_ALE_UNKNOWN_VLAN)"
    and "mk < 0x40"
  shows "val (base + CPSW_ALE_PORTCTL n) (CPSWALEVIDIngressCheckSet B base n s) AND 8 =
      val (base + CPSW_ALE_PORTCTL n) s AND 8 \<and>
    take_bit 8 (drop_bit 16 (val (base + CPSW_ALE_PORTCTL n) (CPSWALEVIDIngressCheckSet B base n s))) = 0xFF \<and>
    take_bit 6 (drop_bit 8 (val (base + CPSW_ALE_UNKNOWN_VLAN) (CPSWALEUnknownRegFloodMaskSet B base mk s))) = mk \<and>
    take_bit 6 (drop_bit 16 (val (base + CPSW_ALE_UNKNOWN_VLAN) (CPSWALEUnknownUnRegFloodMaskSet B base mk s))) = mk"
proof -
  have v: "val (base + CPSW_ALE_PORTCTL n) (CPSWALEVIDIngressCheckSet B base n s) =
      val (base + CPSW_ALE_PORTCTL n) s OR 0xFF0000"
    "val (base + CPSW_ALE_UNKNOWN_VLAN) (CPSWALEUnknownRegFloodMaskSet B base mk s) =
      (val (base + CPSW_ALE_UNKNOWN_VLAN) s AND NOT 0x3F00) OR push_bit 8 mk"
    "val (base + CPSW_ALE_UNKNOWN_VLAN) (CPSWALEUnknownUnRegFloodMaskSet B base mk s) =
      (val (base + CPSW_ALE_UNKNOWN_VLAN) s AND NOT 0x3F0000) OR push_bit 16 mk"
    unfolding CPSWALEVIDIngressCheckSet_def CPSWALEUnknownRegFloodMaskSet_def CPSWALEUnknownUnRegFloodMaskSet_def
    by (subst plain_regs.or_val [OF assms(1,2,2)], simp, (rule plain_regs.field_val [OF assms(1,3)])+)
  have b: "(0xFF0000 :: DWORD) = push_bit 16 (mask 8)" "(0xFF :: DWORD) = mask 8"
    "(0x3F00 :: DWORD) = push_bit 8 (mask 6)" "(0x3F0000 :: DWORD) = push_bit 16 (mask 6)"
    by (simp_all add: mask_eq_exp_minus_1)
  have fb: "bit mk i \<Longrightarrow> i < 6" for i using assms(4) bits_below [of mk 6 i] by (simp add: word_less_nat_alt)
  have b8: "(x OR 0xFF0000) AND 8 = x AND 8" for x :: DWORD
    by (simp add: bit.conj_disj_distrib2)
  show ?thesis
    unfolding v b8 unfolding b
    by (intro conjI refl; rule bit_word_eqI; use fb in \<open>auto simp: bit_simps dest: fb bit_imp_le_length\<close>)
qed

lemma setters_miss_their_field_witness:
  "take_bit 8 (drop_bit 16 (hregs (CPSWALEVIDIngressCheckSet (cpsw_bus 0) 0 1 idle_hw) 0x44)) = 0xFF"
proof -
  have a: "0 + CPSW_ALE_PORTCTL 1 = 0x44" "hw_plain 0 (0 + CPSW_ALE_PORTCTL 1)" "hw_plain 0 (0 + CPSW_ALE_UNKNOWN_VLAN)"
    by (simp_all add: CPSW_ALE_PORTCTL_def hw_plain_def tblw_regs_def)
  have r: "plain_regs (cpsw_bus 0) (hw_plain 0) (\<lambda>a s. hregs s a)" by (rule cpsw.plain_regs_axioms)
  show ?thesis using setters_miss_their_field [OF r a(2,3), of 1 idle_hw] a(1) by simp
qed

end
