(* ===== verification/CpswAle.thy ===== *)
theory CpswAle
  imports EthHw
begin

unbundle bit_operations_syntax

text \<open>
  The address table of the switch as the driver \<^verbatim>\<open>lwip/ports/cpsw/netif/cpswif.c\<close> keeps it: the searches for
  a free, an ageable or a matching entry, and the functions that add and delete unicast, multicast and
  VLAN entries.  An entry is a buffer of twelve bytes over the three words of the table.  The searches
  return an \<^verbatim>\<open>err_t\<close>, a signed byte, which their callers widen to \<^verbatim>\<open>s32_t\<close> and use as the index.  The functions
  the code compiles in the dual MAC mode, in the plain mode and with \<^verbatim>\<open>CPSW_SWITCH_CONFIG\<close> are all here.
\<close>

section \<open>The instance\<close>

record cpswport =
  port_base :: DWORD
  sliver_base :: DWORD
  phy_addr :: DWORD
  phy_gbps :: DWORD

record txch =
  tx_free_head :: DWORD
  tx_send_head :: DWORD
  tx_send_tail :: DWORD
  tx_free_num :: DWORD

record rxch =
  rx_free_head :: DWORD
  rx_recv_head :: DWORD
  rx_recv_tail :: DWORD
  rx_free_num :: DWORD

record cpswinst =
  ss_base :: DWORD
  mdio_base :: DWORD
  wrpr_base :: DWORD
  ale_base :: DWORD
  cpdma_base :: DWORD
  cppi_ram_base :: DWORD
  host_port_base :: DWORD
  inst_port :: "cpswport list"
  inst_txch :: txch
  inst_rxch :: rxch

type_synonym err_t = "8 word"

definition ERR_VAL :: err_t where
  "ERR_VAL = - 6"

text \<open>The index an \<^verbatim>\<open>s32_t\<close> variable holds after it is assigned an \<^verbatim>\<open>err_t\<close>.\<close>

definition s32 :: "err_t \<Rightarrow> DWORD" where
  "s32 i = scast i"

section \<open>Entries as bytes\<close>

definition entry_bytes :: "DWORD list \<Rightarrow> BYTE list" where
  "entry_bytes ws = concat (map (\<lambda>w. [ucast w, ucast (drop_bit 8 w), ucast (drop_bit 16 w), ucast (drop_bit 24 w)]) ws)"

definition words_of :: "BYTE list \<Rightarrow> DWORD list" where
  "words_of e = [LD_DWORD e 0, LD_DWORD e 4, LD_DWORD e 8]"

definition zero_entry :: "BYTE list" where
  "zero_entry = replicate 12 0"

definition get_ale :: "'s bus \<Rightarrow> cpswinst \<Rightarrow> DWORD \<Rightarrow> 's \<Rightarrow> BYTE list \<times> 's" where
  "get_ale B c idx s = (case CPSWALETableEntryGet B (ale_base c) idx s of (e, s) \<Rightarrow> (entry_bytes e, s))"

definition set_ale :: "'s bus \<Rightarrow> cpswinst \<Rightarrow> DWORD \<Rightarrow> BYTE list \<Rightarrow> 's \<Rightarrow> 's" where
  "set_ale B c idx e s = CPSWALETableEntrySet B (ale_base c) idx (words_of e) s"

definition put_addr :: "BYTE list \<Rightarrow> BYTE list \<Rightarrow> BYTE list" where
  "put_addr eth e = foldl (\<lambda>e cnt. e[cnt := eth ! (6 - cnt - 1)]) e [0..<6]"

definition entry_type :: "BYTE list \<Rightarrow> BYTE" where
  "entry_type e = e ! 7 AND 0x30"

section \<open>The searches\<close>

fun match_loop :: "'s bus \<Rightarrow> cpswinst \<Rightarrow> (BYTE list \<Rightarrow> bool) \<Rightarrow> nat \<Rightarrow> nat \<Rightarrow> 's \<Rightarrow> err_t \<times> 's" where
  "match_loop B c P idx 0 s = (ERR_VAL, s)"
| "match_loop B c P idx (Suc n) s =
     (case get_ale B c (of_nat idx) s of (e, s) \<Rightarrow>
        if P e then (of_nat idx, s) else match_loop B c P (Suc idx) n s)"

definition cpswif_ale_entry_match_free :: "'s bus \<Rightarrow> cpswinst \<Rightarrow> 's \<Rightarrow> err_t \<times> 's" where
  "cpswif_ale_entry_match_free B c s = match_loop B c (\<lambda>e. entry_type e = 0) 0 1024 s"

definition is_bcast :: "BYTE list \<Rightarrow> bool" where
  "is_bcast eth \<longleftrightarrow> (\<forall>cnt < 6. eth ! cnt AND 0xFF = 0xFF)"

datatype addr_type = ADDR_TYPE_NONE | ADDR_TYPE_BROADCAST | ADDR_TYPE_MULTICAST | ADDR_TYPE_UNICAST

definition check_valid_addr :: "BYTE list \<Rightarrow> addr_type \<Rightarrow> bool" where
  "check_valid_addr eth addr_type =
     (if addr_type = ADDR_TYPE_NONE then True
      else if is_bcast eth then addr_type = ADDR_TYPE_BROADCAST
      else if addr_type = ADDR_TYPE_BROADCAST then False
      else if addr_type = ADDR_TYPE_MULTICAST then eth ! 0 AND 1 = 1
      else eth ! 0 AND 1 \<noteq> 1)"

definition ageable :: "BYTE list \<Rightarrow> bool" where
  "ageable e \<longleftrightarrow> (entry_type e = 0x10 \<or> entry_type e = 0x30) \<and> \<not> check_valid_addr e ADDR_TYPE_MULTICAST \<and>
     e ! 7 AND 0xC0 \<noteq> 0 \<and> e ! 7 AND 0xC0 \<noteq> 0x80"

definition cpswif_ale_entry_match_ageable :: "'s bus \<Rightarrow> cpswinst \<Rightarrow> 's \<Rightarrow> err_t \<times> 's" where
  "cpswif_ale_entry_match_ageable B c s = match_loop B c ageable 0 1024 s"

definition entry_vid :: "BYTE list \<Rightarrow> DWORD" where
  "entry_vid e = ucast (LD_WORD e 6 AND 0x0FFF)"

definition addr_matches :: "BYTE list \<Rightarrow> DWORD \<Rightarrow> BYTE list \<Rightarrow> bool" where
  "addr_matches eth vid e \<longleftrightarrow> (entry_type e = 0x10 \<or> entry_type e = 0x30) \<and> entry_vid e = vid \<and>
     (\<forall>cnt < 6. e ! cnt = eth ! (6 - cnt - 1))"

definition cpswif_ale_entry_match_addr :: "'s bus \<Rightarrow> cpswinst \<Rightarrow> BYTE list \<Rightarrow> DWORD \<Rightarrow> 's \<Rightarrow> err_t \<times> 's" where
  "cpswif_ale_entry_match_addr B c eth vid s = match_loop B c (addr_matches eth vid) 0 1024 s"

definition cpswif_ale_entry_match_vlan :: "'s bus \<Rightarrow> cpswinst \<Rightarrow> DWORD \<Rightarrow> 's \<Rightarrow> err_t \<times> 's" where
  "cpswif_ale_entry_match_vlan B c vid s =
     match_loop B c (\<lambda>e. entry_type e = 0x20 \<and> entry_vid e = vid) 0 1024 s"

text \<open>The index of the entry to fill: a matching one, else a free one, else one that may be aged out.\<close>

definition find_slot :: "'s bus \<Rightarrow> cpswinst \<Rightarrow> err_t \<times> 's \<Rightarrow> err_t \<times> 's" where
  "find_slot B c m =
     (case m of (i, s) \<Rightarrow> if i \<noteq> ERR_VAL then (i, s) else
      case cpswif_ale_entry_match_free B c s of (i, s) \<Rightarrow> if i \<noteq> ERR_VAL then (i, s) else
      cpswif_ale_entry_match_ageable B c s)"

text \<open>The same, with the present content of the entry when it matched.\<close>

definition load_slot :: "'s bus \<Rightarrow> cpswinst \<Rightarrow> err_t \<times> 's \<Rightarrow> err_t \<times> BYTE list \<times> 's" where
  "load_slot B c m =
     (case m of (i, s) \<Rightarrow>
      if i = ERR_VAL then (case find_slot B c (i, s) of (i, s) \<Rightarrow> (i, zero_entry, s))
      else case get_ale B c (s32 i) s of (e, s) \<Rightarrow> (i, e, s))"

definition store_slot :: "'s bus \<Rightarrow> cpswinst \<Rightarrow> err_t \<Rightarrow> BYTE list \<Rightarrow> 's \<Rightarrow> err_t \<times> 's" where
  "store_slot B c i e s = (if i = ERR_VAL then (ERR_VAL, s) else (i, set_ale B c (s32 i) e s))"

section \<open>The entries of the dual MAC mode and of the plain mode\<close>

definition port_bit :: "DWORD \<Rightarrow> DWORD" where
  "port_bit n = push_bit (unat n) 1"

definition vlan_entry :: "DWORD \<Rightarrow> BYTE list" where
  "vlan_entry port_num = zero_entry[0 := ucast (1 OR port_bit port_num), 6 := ucast port_num, 7 := 0x20,
     3 := ucast (1 OR port_bit port_num)]"

definition vlan_ucast_entry :: "DWORD \<Rightarrow> BYTE list \<Rightarrow> BYTE list" where
  "vlan_ucast_entry port_num eth = (put_addr eth zero_entry)[7 := 0x30, 6 := ucast port_num]"

definition cpswif_port_to_host_vlan_cfg :: "'s bus \<Rightarrow> cpswinst \<Rightarrow> DWORD \<Rightarrow> BYTE list \<Rightarrow> 's \<Rightarrow> 's" where
  "cpswif_port_to_host_vlan_cfg B c port_num eth s =
     (case cpswif_ale_entry_match_free B c s of (idx, s) \<Rightarrow>
      if s32 idx = 1024 then s else
      case cpswif_ale_entry_match_free B c (set_ale B c (s32 idx) (vlan_entry port_num) s) of (idx, s) \<Rightarrow>
      if s32 idx = 1024 then s else set_ale B c (s32 idx) (vlan_ucast_entry port_num eth) s)"

definition cpswif_ale_unicastentry_set :: "'s bus \<Rightarrow> cpswinst \<Rightarrow> DWORD \<Rightarrow> BYTE list \<Rightarrow> 's \<Rightarrow> 's" where
  "cpswif_ale_unicastentry_set B c port_num eth s =
     (let e = (put_addr eth zero_entry)[7 := 0x10, 8 := ucast (push_bit 2 port_num)] in
      case cpswif_ale_entry_match_free B c s of (idx, s) \<Rightarrow>
        if sint (s32 idx) < 1024 then set_ale B c (s32 idx) e s else s)"

definition cpswif_ale_multicastentry_set :: "'s bus \<Rightarrow> cpswinst \<Rightarrow> DWORD \<Rightarrow> BYTE list \<Rightarrow> 's \<Rightarrow> 's" where
  "cpswif_ale_multicastentry_set B c portmask eth s =
     (case cpswif_ale_entry_match_free B c s of (idx, s) \<Rightarrow>
        if sint (s32 idx) < 1024
        then let e = (put_addr eth zero_entry)[7 := 0xD0];
                 e = e[8 := ucast (ucast (e ! 8) OR push_bit 2 portmask)]
             in set_ale B c (s32 idx) e s
        else s)"

section \<open>The configuration of the switch\<close>

definition cpswif_rate_limit :: "'s bus \<Rightarrow> cpswinst \<Rightarrow> DWORD \<Rightarrow> DWORD \<Rightarrow> DWORD \<Rightarrow> addr_type \<Rightarrow> DWORD \<Rightarrow> 's \<Rightarrow> 's" where
  "cpswif_rate_limit B c enable direction port_num addr_type limit s =
     (let a = ale_base c;
          s = (if enable = 0 then CPSWALERateLimitDisable B a s else s);
          s = (if addr_type = ADDR_TYPE_BROADCAST then CPSWALEBroadcastRateLimitSet B a port_num limit s
               else if addr_type = ADDR_TYPE_MULTICAST then CPSWALEMulticastRateLimitSet B a port_num limit s else s);
          s = (if port_num = 0
               then (if direction \<noteq> 0 then CPSWALERateLimitTXMode B a s else CPSWALERateLimitRXMode B a s)
               else (if direction \<noteq> 0 then CPSWALERateLimitRXMode B a s else CPSWALERateLimitTXMode B a s))
      in CPSWALERateLimitEnable B a s)"

text \<open>A stored byte is the low byte of the value the code assigns.\<close>

definition port_flags :: "DWORD \<Rightarrow> DWORD \<Rightarrow> BYTE" where
  "port_flags port_num flags = ucast (push_bit 2 port_num OR (flags AND 3))"

definition cpswif_ale_unicastentry_add ::
    "'s bus \<Rightarrow> cpswinst \<Rightarrow> DWORD \<Rightarrow> BYTE list \<Rightarrow> DWORD \<Rightarrow> DWORD \<Rightarrow> 's \<Rightarrow> err_t \<times> 's" where
  "cpswif_ale_unicastentry_add B c port_num eth flags ucast_type s =
     (case find_slot B c (cpswif_ale_entry_match_addr B c eth 0 s) of (idx, s) \<Rightarrow>
        store_slot B c idx ((put_addr eth zero_entry)
          [7 := ucast (0x10 OR push_bit 6 ucast_type), 8 := port_flags port_num flags]) s)"

definition cpswif_ale_OUI_add :: "'s bus \<Rightarrow> cpswinst \<Rightarrow> BYTE list \<Rightarrow> 's \<Rightarrow> err_t \<times> 's" where
  "cpswif_ale_OUI_add B c eth s =
     (case find_slot B c (cpswif_ale_entry_match_addr B c eth 0 s) of (idx, s) \<Rightarrow>
        store_slot B c idx ((put_addr eth zero_entry)[7 := 0x10 OR 0x80]) s)"

definition cpswif_ale_unicastentry_del :: "'s bus \<Rightarrow> cpswinst \<Rightarrow> DWORD \<Rightarrow> BYTE list \<Rightarrow> 's \<Rightarrow> err_t \<times> 's" where
  "cpswif_ale_unicastentry_del B c port_num eth s =
     (case cpswif_ale_entry_match_addr B c eth 0 s of (idx, s) \<Rightarrow> store_slot B c idx (zero_entry[7 := 0]) s)"

definition mcast_ports :: "BYTE list \<Rightarrow> DWORD \<Rightarrow> DWORD \<Rightarrow> BYTE list" where
  "mcast_ports e portmask super =
     (let e = e[8 := e ! 8 AND NOT (push_bit 2 7)] in
      e[8 := ucast (ucast (e ! 8) OR push_bit 2 portmask OR (push_bit 1 super AND 2))])"

definition cpswif_ale_multicastentry_add ::
    "'s bus \<Rightarrow> cpswinst \<Rightarrow> DWORD \<Rightarrow> BYTE list \<Rightarrow> DWORD \<Rightarrow> DWORD \<Rightarrow> 's \<Rightarrow> err_t \<times> 's" where
  "cpswif_ale_multicastentry_add B c portmask eth super mcast_st s =
     (case load_slot B c (cpswif_ale_entry_match_addr B c eth 0 s) of (idx, e, s) \<Rightarrow>
      let e = put_addr eth e;
          portmask = portmask OR ucast (e ! 8 AND 0x1C);
          e = e[7 := ucast (0x10 OR push_bit 6 mcast_st)]
      in store_slot B c idx (mcast_ports e portmask super) s)"

definition mcast_del :: "BYTE list \<Rightarrow> DWORD \<Rightarrow> BYTE list" where
  "mcast_del e portmask =
     (if portmask \<noteq> 0 then e[8 := e ! 8 AND NOT (push_bit 2 7), 8 := ucast (push_bit 2 portmask)] else e[7 := 0])"

definition cpswif_ale_multicastentry_del :: "'s bus \<Rightarrow> cpswinst \<Rightarrow> DWORD \<Rightarrow> BYTE list \<Rightarrow> 's \<Rightarrow> err_t \<times> 's" where
  "cpswif_ale_multicastentry_del B c portmask eth s =
     (case cpswif_ale_entry_match_addr B c eth 0 s of (idx, s) \<Rightarrow>
      if idx = ERR_VAL then (ERR_VAL, s) else
      case get_ale B c (s32 idx) s of (e, s) \<Rightarrow> store_slot B c idx (mcast_del e portmask) s)"

definition cpswif_ale_vlan_add ::
    "'s bus \<Rightarrow> cpswinst \<Rightarrow> DWORD \<Rightarrow> DWORD \<Rightarrow> DWORD \<Rightarrow> DWORD \<Rightarrow> DWORD \<Rightarrow> 's \<Rightarrow> err_t \<times> 's" where
  "cpswif_ale_vlan_add B c vid port_num untag reg_mcast unreg_mcast s =
     (case load_slot B c (cpswif_ale_entry_match_vlan B c vid s) of (idx, e, s) \<Rightarrow>
      let e = e[6 := ucast vid, 7 := ucast ((drop_bit 8 vid AND 0x0F) OR 0x20), 3 := ucast untag,
                1 := ucast unreg_mcast, 2 := ucast reg_mcast];
          e = e[0 := ucast (ucast (e ! 0) OR (7 AND port_bit port_num))]
      in store_slot B c idx e s)"

definition cpswif_ale_vlan_del :: "'s bus \<Rightarrow> cpswinst \<Rightarrow> DWORD \<Rightarrow> DWORD \<Rightarrow> 's \<Rightarrow> err_t \<times> 's" where
  "cpswif_ale_vlan_del B c vid port_num s =
     (case cpswif_ale_entry_match_vlan B c vid s of (idx, s) \<Rightarrow>
      if idx = ERR_VAL then (ERR_VAL, s) else
      case get_ale B c (s32 idx) s of (e, s) \<Rightarrow>
      let mask = (ucast (e ! 0) OR 7) AND port_bit port_num in
      if mask = 0 then (ERR_VAL, s) else
      let e = (if mask = 1 then e[7 := 0] else e[0 := ucast (ucast (e ! 0) AND NOT (port_bit port_num))])
      in store_slot B c idx e s)"

definition cpswif_ale_vlan_add_ucast ::
    "'s bus \<Rightarrow> cpswinst \<Rightarrow> DWORD \<Rightarrow> DWORD \<Rightarrow> BYTE list \<Rightarrow> DWORD \<Rightarrow> DWORD \<Rightarrow> 's \<Rightarrow> err_t \<times> 's" where
  "cpswif_ale_vlan_add_ucast B c vid port_num eth flags ucast_type s =
     (case find_slot B c (cpswif_ale_entry_match_addr B c eth vid s) of (idx, s) \<Rightarrow>
      let e = zero_entry[6 := ucast vid,
                7 := ucast ((drop_bit 8 vid AND 0x0F) OR 0x30 OR push_bit 6 ucast_type)];
          e = (put_addr eth e)[8 := port_flags port_num flags]
      in store_slot B c idx e s)"

definition cpswif_ale_vlan_del_ucast :: "'s bus \<Rightarrow> cpswinst \<Rightarrow> DWORD \<Rightarrow> DWORD \<Rightarrow> BYTE list \<Rightarrow> 's \<Rightarrow> err_t \<times> 's" where
  "cpswif_ale_vlan_del_ucast B c vid port_num eth s =
     (case cpswif_ale_entry_match_addr B c eth vid s of (idx, s) \<Rightarrow> store_slot B c idx (zero_entry[7 := 0]) s)"

definition cpswif_ale_vlan_add_mcast ::
    "'s bus \<Rightarrow> cpswinst \<Rightarrow> DWORD \<Rightarrow> DWORD \<Rightarrow> BYTE list \<Rightarrow> DWORD \<Rightarrow> DWORD \<Rightarrow> 's \<Rightarrow> err_t \<times> 's" where
  "cpswif_ale_vlan_add_mcast B c vid portmask eth super mcast_st s =
     (case load_slot B c (cpswif_ale_entry_match_addr B c eth vid s) of (idx, e, s) \<Rightarrow>
      let e = e[6 := ucast vid, 7 := ucast (drop_bit 8 vid AND 0x0F)];
          e = put_addr eth e;
          portmask = portmask OR ucast (e ! 8 AND 0x1C);
          e = e[7 := ucast (ucast (e ! 7) OR (0x30 OR push_bit 6 mcast_st))]
      in store_slot B c idx (mcast_ports e portmask super) s)"

definition cpswif_ale_vlan_del_mcast :: "'s bus \<Rightarrow> cpswinst \<Rightarrow> DWORD \<Rightarrow> DWORD \<Rightarrow> BYTE list \<Rightarrow> 's \<Rightarrow> err_t \<times> 's" where
  "cpswif_ale_vlan_del_mcast B c vid portmask eth s =
     (case cpswif_ale_entry_match_addr B c eth vid s of (idx, s) \<Rightarrow>
      if idx = ERR_VAL then (ERR_VAL, s) else
      case get_ale B c (s32 idx) s of (e, s) \<Rightarrow> store_slot B c idx (mcast_del e portmask) s)"

section \<open>The table in bytes\<close>

lemma upt_6: "[0..<6] = [0, 1, 2, 3, 4, 5 :: nat]"
  by code_simp

lemma upt_12: "[0..<12] = [0, 1, 2, 3, 4, 5, 6, 7, 8, 9, 10, 11 :: nat]"
  by code_simp

lemma word_bytes: "length e = 12 \<Longrightarrow> entry_bytes (words_of e) = e"
proof -
  assume l: "length e = 12"
  have b: "ucast (LD_DWORD e i) = e ! i" "ucast (drop_bit 8 (LD_DWORD e i)) = e ! (i + 1)"
    "ucast (drop_bit 16 (LD_DWORD e i)) = e ! (i + 2)" "ucast (drop_bit 24 (LD_DWORD e i)) = e ! (i + 3)" for i
    unfolding LD_DWORD_def by (rule bit_word_eqI; auto simp: bit_simps dest: bit_imp_le_length)+
  have "entry_bytes (words_of e) = map (nth e) [0..<12]"
    by (simp add: entry_bytes_def words_of_def b upt_12 numeral_2_eq_2)
  then show ?thesis using map_nth [of e] l by simp
qed

lemma join_four:
  "push_bit 24 (ucast (ucast (drop_bit 24 v) :: BYTE)) OR push_bit 16 (ucast (ucast (drop_bit 16 v) :: BYTE))
   OR push_bit 8 (ucast (ucast (drop_bit 8 v) :: BYTE)) OR ucast (ucast v :: BYTE) = (v :: DWORD)"
proof (rule bit_word_eqI)
  fix n assume "n < LENGTH(32)"
  then consider "n < 8" | "8 \<le> n" "n < 16" | "16 \<le> n" "n < 24" | "24 \<le> n" "n < 32" by fastforce
  then show "bit (push_bit 24 (ucast (ucast (drop_bit 24 v) :: BYTE)) OR push_bit 16 (ucast (ucast (drop_bit 16 v) :: BYTE))
   OR push_bit 8 (ucast (ucast (drop_bit 8 v) :: BYTE)) OR ucast (ucast v :: BYTE) :: DWORD) n = bit v n"
    by cases (auto simp: bit_simps)
qed

lemma bytes_word: "length ws = 3 \<Longrightarrow> words_of (entry_bytes ws) = ws"
proof -
  assume "length ws = 3"
  then have w: "ws = [ws ! 0, ws ! 1, ws ! 2]" by (rule length_3)
  have "words_of (entry_bytes [a, b, c]) = [a, b, c]" for a b c
    by (simp add: words_of_def entry_bytes_def LD_DWORD_def join_four)
  from this [of "ws ! 0" "ws ! 1" "ws ! 2"] w show ?thesis by simp
qed

lemma length_words_of [simp]: "length (words_of e) = 3"
  by (simp add: words_of_def)

lemma length_entry_bytes: "length ws = 3 \<Longrightarrow> length (entry_bytes ws) = 12"
  by (subst length_3) (simp_all add: entry_bytes_def)

lemma length_zero_entry [simp]: "length zero_entry = 12"
  by (simp add: zero_entry_def)

lemma put_addr_eq: "length e = 12 \<Longrightarrow> put_addr eth e =
    e[0 := eth ! 5, 1 := eth ! 4, 2 := eth ! 3, 3 := eth ! 2, 4 := eth ! 1, 5 := eth ! 0]"
  by (simp add: put_addr_def upt_6)

lemma length_put_addr [simp]: "length e = 12 \<Longrightarrow> length (put_addr eth e) = 12"
  by (simp add: put_addr_eq)

lemma nth_put_addr: "length e = 12 \<Longrightarrow> k < 12 \<Longrightarrow> put_addr eth e ! k = (if k < 6 then eth ! (5 - k) else e ! k)"
proof -
  assume l: "length e = 12" "k < 12"
  show ?thesis
  proof (cases "k < 6")
    case True
    then have "k = 0 \<or> k = 1 \<or> k = 2 \<or> k = 3 \<or> k = 4 \<or> k = 5" by arith
    then show ?thesis using l by (elim disjE) (simp_all add: put_addr_eq nth_list_update)
  qed (use l in \<open>simp add: put_addr_eq nth_list_update\<close>)
qed

text \<open>The index an \<^verbatim>\<open>err_t\<close> stands for: indices above 127 come out negative.\<close>

definition slot_of :: "err_t \<Rightarrow> nat" where
  "slot_of i = unat (s32 i AND 0x3FF)"

lemma slot_of_nat: "int (slot_of (of_nat i)) = (take_bit 8 (int i + 128) - 128) mod 1024"
proof -
  have u: "uint (scast w :: DWORD) = take_bit 32 (sint w)" for w :: err_t
    by (rule bit_eqI) (auto simp: bit_simps)
  have "int (slot_of (of_nat i)) = take_bit 10 (uint (s32 (of_nat i)))"
    by (simp add: slot_of_def and_table_mask unsigned_take_bit_eq flip: take_bit_of_nat)
  also have "\<dots> = take_bit 10 (take_bit 32 (sint (of_nat i :: err_t)))" unfolding s32_def u ..
  also have "sint (of_nat i :: err_t) = take_bit 8 (int i + 128) - 128"
    by (simp add: signed_of_nat signed_take_bit_eq_take_bit_shift)
  finally show ?thesis by (simp add: take_bit_eq_mod mod_mod_cancel)
qed

lemma slot_low: "i < 128 \<Longrightarrow> slot_of (of_nat i) = i"
  using slot_of_nat [of i] by (simp add: take_bit_int_eq_self mod_pos_pos_trivial)

lemma slot_high: "128 \<le> i \<Longrightarrow> i < 256 \<Longrightarrow> slot_of (of_nat i) = i + 768"
proof -
  assume i: "128 \<le> i" "i < 256"
  then obtain k where k: "i = 128 + k" "k < 128" by (metis add_less_cancel_left le_Suc_ex numeral_Bit0)
  have "int (slot_of (of_nat i)) = ((256 + int k) mod 256 - 128) mod 1024"
    using slot_of_nat [of i] k(1) by (simp add: take_bit_eq_mod)
  also have "(256 + int k) mod 256 = int k" using k(2) by (simp only: mod_add_self1) (simp add: mod_pos_pos_trivial)
  also have "(int k - 128) mod 1024 = (int k - 128 + 1024) mod 1024" by (simp only: mod_add_self2)
  also have "\<dots> = int k + 896" using k(2) by (simp add: mod_pos_pos_trivial)
  finally show ?thesis using k(1) by simp
qed

lemma slot_ERR_VAL: "slot_of ERR_VAL = 1018"
  by (simp add: slot_of_def ERR_VAL_def s32_def)

lemma of_nat_not_ERR: "i < 128 \<Longrightarrow> of_nat i \<noteq> ERR_VAL"
proof
  assume "i < 128" "of_nat i = ERR_VAL"
  then show False using slot_low [of i] slot_ERR_VAL by simp
qed

lemma s32_small: "s32 i \<noteq> 1024"
proof
  assume a: "s32 i = 1024"
  have "ucast (s32 i) = i" unfolding s32_def by (rule bit_word_eqI) (auto simp: bit_simps)
  then have "i = 0" using a by simp
  then show False using a by (simp add: s32_def)
qed

text \<open>The searches, stated of the whole table: the first entry that satisfies a predicate.\<close>

definition entry_at :: "('s \<Rightarrow> nat \<Rightarrow> DWORD list) \<Rightarrow> 's \<Rightarrow> nat \<Rightarrow> BYTE list" where
  "entry_at tbl s i = entry_bytes (tbl s i)"

definition first_at :: "('s \<Rightarrow> nat \<Rightarrow> DWORD list) \<Rightarrow> (BYTE list \<Rightarrow> bool) \<Rightarrow> 's \<Rightarrow> nat \<Rightarrow> bool" where
  "first_at tbl P s i \<longleftrightarrow> i < 1024 \<and> P (entry_at tbl s i) \<and> (\<forall>j < i. \<not> P (entry_at tbl s j))"

definition none_at :: "('s \<Rightarrow> nat \<Rightarrow> DWORD list) \<Rightarrow> (BYTE list \<Rightarrow> bool) \<Rightarrow> 's \<Rightarrow> bool" where
  "none_at tbl P s \<longleftrightarrow> (\<forall>i < 1024. \<not> P (entry_at tbl s i))"

context lookup_engine
begin

lemma get_ale_tbl:
  "ale_base c = base \<Longrightarrow> i < 1024 \<Longrightarrow> \<exists>s'. get_ale B c (of_nat i) s = (entry_at tbl s i, s') \<and> tbl s' = tbl s"
  using get_entry [of i s] by (auto simp: get_ale_def entry_at_def)

lemma set_ale_tbl:
  "ale_base c = base \<Longrightarrow> tbl (set_ale B c (s32 i) e s) = (tbl s)(slot_of i := words_of e)"
  by (simp add: set_ale_def slot_of_def set_entry_word)

lemma entry_set_ale:
  "ale_base c = base \<Longrightarrow> length e = 12 \<Longrightarrow>
   entry_at tbl (set_ale B c (s32 i) e s) j = (if j = slot_of i then e else entry_at tbl s j)"
  by (simp add: entry_at_def set_ale_tbl word_bytes)

lemma match_loop_hit:
  "ale_base c = base \<Longrightarrow> k + d < 1024 \<Longrightarrow> d < n \<Longrightarrow> P (entry_at tbl s (k + d)) \<Longrightarrow>
   (\<forall>j < d. \<not> P (entry_at tbl s (k + j))) \<Longrightarrow>
   \<exists>s'. match_loop B c P k n s = (of_nat (k + d), s') \<and> tbl s' = tbl s"
proof (induction n arbitrary: k d s)
  case (Suc n)
  obtain s1 where s1: "get_ale B c (of_nat k) s = (entry_at tbl s k, s1)" "tbl s1 = tbl s"
    using get_ale_tbl [of c k s] Suc.prems by auto
  have e: "entry_at tbl s1 = entry_at tbl s" using s1(2) by (simp add: entry_at_def fun_eq_iff)
  show ?case
  proof (cases d)
    case 0
    then show ?thesis using s1 Suc.prems(4) by simp
  next
    case (Suc d')
    then have np: "\<not> P (entry_at tbl s k)" using Suc.prems(5) by force
    have "\<exists>s'. match_loop B c P (Suc k) n s1 = (of_nat (Suc k + d'), s') \<and> tbl s' = tbl s1"
      by (rule Suc.IH) (use Suc.prems Suc e in auto)
    then show ?thesis using s1 np Suc by auto
  qed
qed simp

lemma match_loop_miss:
  "ale_base c = base \<Longrightarrow> k + n \<le> 1024 \<Longrightarrow> (\<forall>j < n. \<not> P (entry_at tbl s (k + j))) \<Longrightarrow>
   \<exists>s'. match_loop B c P k n s = (ERR_VAL, s') \<and> tbl s' = tbl s"
proof (induction n arbitrary: k s)
  case (Suc n)
  obtain s1 where s1: "get_ale B c (of_nat k) s = (entry_at tbl s k, s1)" "tbl s1 = tbl s"
    using get_ale_tbl [of c k s] Suc.prems by auto
  have e: "entry_at tbl s1 = entry_at tbl s" using s1(2) by (simp add: entry_at_def fun_eq_iff)
  have np: "\<not> P (entry_at tbl s k)" using Suc.prems(3) by force
  have "\<exists>s'. match_loop B c P (Suc k) n s1 = (ERR_VAL, s') \<and> tbl s' = tbl s1"
    by (rule Suc.IH) (use Suc.prems e in auto)
  then show ?case using s1 np by auto
qed simp

lemma match_first:
  "ale_base c = base \<Longrightarrow> first_at tbl P s i \<Longrightarrow>
   \<exists>s'. match_loop B c P 0 1024 s = (of_nat i, s') \<and> tbl s' = tbl s"
  using match_loop_hit [of c 0 i 1024 P s] by (simp add: first_at_def)

lemma match_none:
  "ale_base c = base \<Longrightarrow> none_at tbl P s \<Longrightarrow> \<exists>s'. match_loop B c P 0 1024 s = (ERR_VAL, s') \<and> tbl s' = tbl s"
  using match_loop_miss [of c 0 1024 P s] by (simp add: none_at_def)

abbreviation free_entry :: "BYTE list \<Rightarrow> bool" where
  "free_entry e \<equiv> entry_type e = 0"

lemma find_free_first:
  "ale_base c = base \<Longrightarrow> first_at tbl free_entry s i \<Longrightarrow>
   \<exists>s'. cpswif_ale_entry_match_free B c s = (of_nat i, s') \<and> tbl s' = tbl s"
  unfolding cpswif_ale_entry_match_free_def by (rule match_first)

lemma find_free_none:
  "ale_base c = base \<Longrightarrow> none_at tbl free_entry s \<Longrightarrow>
   \<exists>s'. cpswif_ale_entry_match_free B c s = (ERR_VAL, s') \<and> tbl s' = tbl s"
  unfolding cpswif_ale_entry_match_free_def by (rule match_none)

lemma entry_at_cong: "tbl s' = tbl s \<Longrightarrow> entry_at tbl s' = entry_at tbl s"
  by (simp add: entry_at_def fun_eq_iff)

lemma first_at_cong: "tbl s' = tbl s \<Longrightarrow> first_at tbl P s' i = first_at tbl P s i"
  by (simp add: first_at_def entry_at_def)

lemma none_at_cong: "tbl s' = tbl s \<Longrightarrow> none_at tbl P s' = none_at tbl P s"
  by (simp add: none_at_def entry_at_def)

text \<open>Setting up a port runs the search twice; what it finds decides which entries it writes.\<close>

lemma vlan_cfg_tbl:
  assumes b: "ale_base c = base"
    and m1: "\<And>s'. tbl s' = tbl s \<Longrightarrow> \<exists>t. cpswif_ale_entry_match_free B c s' = (i, t) \<and> tbl t = tbl s"
    and m2: "\<And>s'. tbl s' = (tbl s)(slot_of i := words_of (vlan_entry p)) \<Longrightarrow>
      \<exists>t. cpswif_ale_entry_match_free B c s' = (j, t) \<and> tbl t = tbl s'"
  shows "tbl (cpswif_port_to_host_vlan_cfg B c p eth s) =
    (tbl s)(slot_of i := words_of (vlan_entry p), slot_of j := words_of (vlan_ucast_entry p eth))"
proof -
  obtain t where t: "cpswif_ale_entry_match_free B c s = (i, t)" "tbl t = tbl s" using m1 by auto
  have w: "tbl (set_ale B c (s32 i) (vlan_entry p) t) = (tbl s)(slot_of i := words_of (vlan_entry p))"
    using set_ale_tbl [OF b] t(2) by simp
  obtain u where u: "cpswif_ale_entry_match_free B c (set_ale B c (s32 i) (vlan_entry p) t) = (j, u)"
    "tbl u = (tbl s)(slot_of i := words_of (vlan_entry p))" using m2 [OF w] w by auto
  show ?thesis
    by (simp add: cpswif_port_to_host_vlan_cfg_def t(1) u s32_small set_ale_tbl [OF b])
qed

lemma entry_at_upd:
  "tbl s' = (tbl s)(k := words_of e) \<Longrightarrow> length e = 12 \<Longrightarrow>
   entry_at tbl s' i = (if i = k then e else entry_at tbl s i)"
  by (simp add: entry_at_def word_bytes)

end


lemma vlan_entry_props: "length (vlan_entry p) = 12" "entry_type (vlan_entry p) = 0x20"
  by (simp_all add: vlan_entry_def entry_type_def)

lemma vlan_ucast_entry_props: "length (vlan_ucast_entry p eth) = 12" "entry_type (vlan_ucast_entry p eth) = 0x30"
  by (simp_all add: vlan_ucast_entry_def entry_type_def)


lemma bits_const: "(0x30 :: BYTE) = push_bit 4 (mask 2)" "(0x10 :: BYTE) = push_bit 4 1" "(0xFFF :: WORD) = mask 12"
  "(0x10 :: DWORD) = push_bit 4 1"
  by (simp_all add: mask_eq_exp_minus_1)

lemma bit_16: "bit (16 :: int) n \<longleftrightarrow> n = 4"
proof -
  have "push_bit 4 1 = (16 :: int)" by simp
  moreover have "bit (push_bit 4 1 :: int) n \<longleftrightarrow> n = 4" by (auto simp only: bit_push_bit_iff bit_1_iff) auto
  ultimately show ?thesis by (simp only:)
qed

definition ucast_entry :: "DWORD \<Rightarrow> BYTE list \<Rightarrow> DWORD \<Rightarrow> DWORD \<Rightarrow> BYTE list" where
  "ucast_entry p eth flags t = (put_addr eth zero_entry)[7 := ucast (0x10 OR push_bit 6 t), 8 := port_flags p flags]"

lemma type_byte: "ucast (0x10 OR push_bit 6 t :: DWORD) AND 0x30 = (0x10 :: BYTE)"
  unfolding bits_const by (rule bit_word_eqI) (auto simp: bit_simps bit_16)

lemma vid_bits: "(push_bit 8 (ucast (ucast (0x10 OR push_bit 6 t :: DWORD) :: BYTE)) OR ucast (0 :: BYTE) :: WORD) AND 0x0FFF = 0"
  unfolding bits_const by (rule bit_word_eqI) (auto simp: bit_simps bit_16)

lemma ucast_entry_props: "length (ucast_entry p eth f t) = 12" "addr_matches eth 0 (ucast_entry p eth f t)"
  "entry_type (ucast_entry p eth f t) = 0x10"
  using type_byte [of t] vid_bits [of t]
  by (simp_all add: ucast_entry_def addr_matches_def entry_type_def entry_vid_def LD_WORD_def nth_list_update nth_put_addr zero_entry_def)

lemma s32_low: "i < 128 \<Longrightarrow> s32 (of_nat i) = of_nat i"
proof -
  assume "i < 128"
  then have "sint (of_nat i :: err_t) = int i"
    by (simp add: signed_of_nat signed_take_bit_eq_take_bit_shift take_bit_int_eq_self)
  then show ?thesis by (simp only: s32_def scast_eq of_int_of_nat_eq)
qed

lemma zero_entry_list: "zero_entry = [0, 0, 0, 0, 0, 0, 0, 0, 0, 0, 0, 0]"
  by code_simp

lemma all_less_6: "(\<forall>cnt < 6. P cnt) \<longleftrightarrow> P 0 \<and> P 1 \<and> P 2 \<and> P 3 \<and> P 4 \<and> P (5 :: nat)"
proof (intro iffI allI impI)
  fix cnt :: nat assume P: "P 0 \<and> P 1 \<and> P 2 \<and> P 3 \<and> P 4 \<and> P 5" and c: "cnt < 6"
  then have "cnt = 0 \<or> cnt = 1 \<or> cnt = 2 \<or> cnt = 3 \<or> cnt = 4 \<or> cnt = 5" by arith
  then show "P cnt" using P by auto
qed simp

lemma zero_entry_words: "words_of zero_entry = [0, 0, 0]"
  by (simp add: words_of_def zero_entry_def LD_DWORD_def)

lemma zero_entry_7: "zero_entry[7 := 0] = zero_entry" "entry_type zero_entry = 0"
  by (simp_all add: zero_entry_def entry_type_def list_update_same_conv)

text \<open>The byte that holds the ports of a multicast entry.\<close>

lemma mcast_ports_bits:
  assumes "length e = 12" "unat portmask < 8"
  shows "take_bit 3 (drop_bit 2 (mcast_ports e (portmask OR ucast (e ! 8 AND 0x1C)) super ! 8)) =
    (ucast portmask OR take_bit 3 (push_bit 2 (drop_bit 2 (e ! 8))) :: BYTE)"
proof -
  have m: "bit portmask n \<Longrightarrow> n < 3" for n using bits_below [of portmask 3 n] assms(2) by simp
  have c: "(0x1C :: BYTE) = push_bit 2 (mask 3)" "(7 :: BYTE) = mask 3" "(2 :: DWORD) = push_bit 1 1"
    by (simp_all add: mask_eq_exp_minus_1)
  have v: "mcast_ports e q super ! 8 =
      ucast (ucast (e ! 8 AND NOT (push_bit 2 (mask 3))) OR push_bit 2 q OR (push_bit 1 super AND push_bit 1 1))" for q
    using assms(1) by (simp add: mcast_ports_def nth_list_update mask_eq_exp_minus_1)
  show ?thesis
    unfolding v unfolding c
  proof (rule bit_word_eqI, goal_cases)
    case (1 n)
    then consider "n = 0" | "n = 1" | "n = 2" | "3 \<le> n" by arith
    then show ?case by cases (auto simp: bit_simps dest: m bit_imp_le_length)
  qed
qed

context lookup_engine
begin

lemma vlan_cfg_installs_spec:
  assumes b: "ale_base c = base"
    and "first_at tbl free_entry s i" and i: "i < 128" and "i < j" and j: "j < 128"
    and "free_entry (entry_at tbl s j)" and "\<forall>k < j. k \<noteq> i \<longrightarrow> \<not> free_entry (entry_at tbl s k)"
  shows "tbl (cpswif_port_to_host_vlan_cfg B c p eth s) =
    (tbl s)(i := words_of (vlan_entry p), j := words_of (vlan_ucast_entry p eth))"
proof -
  have "tbl (cpswif_port_to_host_vlan_cfg B c p eth s) =
      (tbl s)(slot_of (of_nat i) := words_of (vlan_entry p), slot_of (of_nat j) := words_of (vlan_ucast_entry p eth))"
  proof (rule vlan_cfg_tbl [OF b])
    show "\<exists>t. cpswif_ale_entry_match_free B c s' = (of_nat i, t) \<and> tbl t = tbl s" if "tbl s' = tbl s" for s'
      using find_free_first [OF b, of s' i] assms(2) first_at_cong [OF that] that by simp
    show "\<exists>t. cpswif_ale_entry_match_free B c s' = (of_nat j, t) \<and> tbl t = tbl s'"
      if "tbl s' = (tbl s)(slot_of (of_nat i) := words_of (vlan_entry p))" for s'
    proof (rule find_free_first [OF b])
      show "first_at tbl free_entry s' j"
        using assms(4-7) entry_at_upd [OF that vlan_entry_props(1)] vlan_entry_props(2) slot_low [OF i]
        by (auto simp: first_at_def)
    qed
  qed
  then show ?thesis using slot_low [OF i] slot_low [OF j] by simp
qed

lemma vlan_cfg_full_spec:
  assumes b: "ale_base c = base" and f: "none_at tbl free_entry s"
  shows "tbl (cpswif_port_to_host_vlan_cfg B c p eth s) = (tbl s)(1018 := words_of (vlan_ucast_entry p eth))"
proof -
  have "tbl (cpswif_port_to_host_vlan_cfg B c p eth s) =
      (tbl s)(slot_of ERR_VAL := words_of (vlan_entry p), slot_of ERR_VAL := words_of (vlan_ucast_entry p eth))"
  proof (rule vlan_cfg_tbl [OF b])
    show "\<exists>t. cpswif_ale_entry_match_free B c s' = (ERR_VAL, t) \<and> tbl t = tbl s" if "tbl s' = tbl s" for s'
      using find_free_none [OF b, of s'] f none_at_cong [OF that] that by simp
    show "\<exists>t. cpswif_ale_entry_match_free B c s' = (ERR_VAL, t) \<and> tbl t = tbl s'"
      if "tbl s' = (tbl s)(slot_of ERR_VAL := words_of (vlan_entry p))" for s'
    proof (rule find_free_none [OF b])
      show "none_at tbl free_entry s'"
        using f entry_at_upd [OF that vlan_entry_props(1)] vlan_entry_props(2) by (auto simp: none_at_def)
    qed
  qed
  then show ?thesis by (simp add: slot_ERR_VAL)
qed

lemma vlan_cfg_high_spec:
  assumes b: "ale_base c = base" and f: "first_at tbl free_entry s i" and i: "128 \<le> i" "i < 256"
  shows "tbl (cpswif_port_to_host_vlan_cfg B c p eth s) = (tbl s)(i + 768 := words_of (vlan_ucast_entry p eth))"
proof -
  have "tbl (cpswif_port_to_host_vlan_cfg B c p eth s) =
      (tbl s)(slot_of (of_nat i) := words_of (vlan_entry p), slot_of (of_nat i) := words_of (vlan_ucast_entry p eth))"
  proof (rule vlan_cfg_tbl [OF b])
    show "\<exists>t. cpswif_ale_entry_match_free B c s' = (of_nat i, t) \<and> tbl t = tbl s" if "tbl s' = tbl s" for s'
      using find_free_first [OF b, of s' i] f first_at_cong [OF that] that by simp
    show "\<exists>t. cpswif_ale_entry_match_free B c s' = (of_nat i, t) \<and> tbl t = tbl s'"
      if "tbl s' = (tbl s)(slot_of (of_nat i) := words_of (vlan_entry p))" for s'
    proof (rule find_free_first [OF b])
      show "first_at tbl free_entry s' i"
        using f entry_at_upd [OF that vlan_entry_props(1)] slot_high [OF i] by (auto simp: first_at_def)
    qed
  qed
  then show ?thesis using slot_high [OF i] by simp
qed

lemma match_addr_first:
  "ale_base c = base \<Longrightarrow> first_at tbl (addr_matches eth vid) s i \<Longrightarrow>
   \<exists>s'. cpswif_ale_entry_match_addr B c eth vid s = (of_nat i, s') \<and> tbl s' = tbl s"
  unfolding cpswif_ale_entry_match_addr_def by (rule match_first)

lemma match_addr_none:
  "ale_base c = base \<Longrightarrow> none_at tbl (addr_matches eth vid) s \<Longrightarrow>
   \<exists>s'. cpswif_ale_entry_match_addr B c eth vid s = (ERR_VAL, s') \<and> tbl s' = tbl s"
  unfolding cpswif_ale_entry_match_addr_def by (rule match_none)

lemma ucast_add_free:
  assumes b: "ale_base c = base" and n: "none_at tbl (addr_matches eth 0) s"
    and f: "first_at tbl free_entry s i" and i: "i < 128"
  shows "\<exists>s'. cpswif_ale_unicastentry_add B c p eth fl t s = (of_nat i, s') \<and>
    tbl s' = (tbl s)(i := words_of (ucast_entry p eth fl t))"
proof -
  obtain s1 where s1: "cpswif_ale_entry_match_addr B c eth 0 s = (ERR_VAL, s1)" "tbl s1 = tbl s"
    using match_addr_none [OF b n] by auto
  obtain s2 where s2: "cpswif_ale_entry_match_free B c s1 = (of_nat i, s2)" "tbl s2 = tbl s"
    using find_free_first [OF b, of s1 i] f first_at_cong [OF s1(2)] s1(2) by auto
  show ?thesis
    using s1 s2 of_nat_not_ERR [OF i] slot_low [OF i] set_ale_tbl [OF b]
    by (simp add: cpswif_ale_unicastentry_add_def find_slot_def store_slot_def ucast_entry_def)
qed

lemma ucast_del_first:
  assumes b: "ale_base c = base" and f: "first_at tbl (addr_matches eth 0) s i" and i: "i < 128"
  shows "\<exists>s'. cpswif_ale_unicastentry_del B c p eth s = (of_nat i, s') \<and> tbl s' = (tbl s)(i := words_of zero_entry)"
proof -
  obtain s1 where s1: "cpswif_ale_entry_match_addr B c eth 0 s = (of_nat i, s1)" "tbl s1 = tbl s"
    using match_addr_first [OF b f] by auto
  show ?thesis
    using s1 of_nat_not_ERR [OF i] slot_low [OF i] set_ale_tbl [OF b]
    by (simp add: cpswif_ale_unicastentry_del_def store_slot_def zero_entry_7(1))
qed

end

context lookup_engine
begin

lemma length_entry_at: "length (entry_at tbl s i) = 12"
  by (simp add: entry_at_def length_entry_bytes tbl_len)

lemma mcast_add_match_spec:
  assumes b: "ale_base c = base" and f: "first_at tbl (addr_matches eth 0) s i" and i: "i < 128"
    and pm: "unat portmask < 8"
  shows "\<exists>s'. cpswif_ale_multicastentry_add B c portmask eth super st s = (of_nat i, s') \<and>
    take_bit 3 (drop_bit 2 (entry_at tbl s' i ! 8)) =
      ucast portmask OR take_bit 3 (push_bit 2 (drop_bit 2 (entry_at tbl s i ! 8))) \<and>
    (\<forall>j. j \<noteq> i \<longrightarrow> entry_at tbl s' j = entry_at tbl s j)"
proof -
  obtain s1 where s1: "cpswif_ale_entry_match_addr B c eth 0 s = (of_nat i, s1)" "tbl s1 = tbl s"
    using match_addr_first [OF b f] by auto
  have i': "i < 1024" using i by simp
  obtain s2 where s2: "get_ale B c (of_nat i) s1 = (entry_at tbl s i, s2)" "tbl s2 = tbl s"
    using get_ale_tbl [OF b i', of s1] s1(2) entry_at_cong [OF s1(2)] by auto
  define e where "e = (put_addr eth (entry_at tbl s i))[7 := ucast (0x10 OR push_bit 6 st)]"
  have e: "length e = 12" "e ! 8 = entry_at tbl s i ! 8" "put_addr eth (entry_at tbl s i) ! 8 = entry_at tbl s i ! 8"
    by (simp_all add: e_def length_entry_at nth_put_addr)
  let ?e = "mcast_ports e (portmask OR ucast (e ! 8 AND 0x1C)) super"
  let ?s = "set_ale B c (s32 (of_nat i)) ?e s2"
  have l: "length ?e = 12" using e(1) by (simp add: mcast_ports_def)
  have r: "cpswif_ale_multicastentry_add B c portmask eth super st s = (of_nat i, ?s)"
    using s1 s2 of_nat_not_ERR [OF i] s32_low [OF i]
    by (simp add: cpswif_ale_multicastentry_add_def load_slot_def store_slot_def e_def [symmetric] e(2,3))
  have at: "entry_at tbl ?s j = (if j = i then ?e else entry_at tbl s j)" for j
    using entry_set_ale [OF b l] slot_low [OF i] entry_at_cong [OF s2(2)] by simp
  show ?thesis
    using r at mcast_ports_bits [OF e(1) pm, of super] e(2) by auto
qed

end

section \<open>Properties\<close>

text \<open>C16: setting up a port of the dual MAC mode puts its VLAN entry into the first free entry of the table
  and its VLAN unicast entry into the second, and changes no other entry, when both lie below index 128.\<close>

theorem vlan_cfg_installs:
  assumes "lookup_engine B plain val base tbl" and "ale_base c = base"
    and "first_at tbl (\<lambda>e. entry_type e = 0) s i" and "i < 128" and "i < j" and "j < 128"
    and "entry_type (entry_at tbl s j) = 0" and "\<forall>k < j. k \<noteq> i \<longrightarrow> entry_type (entry_at tbl s k) \<noteq> 0"
  shows "tbl (cpswif_port_to_host_vlan_cfg B c p eth s) =
    (tbl s)(i := words_of (vlan_entry p), j := words_of (vlan_ucast_entry p eth))"
  using assms by (rule lookup_engine.vlan_cfg_installs_spec)

text \<open>An instance and tables to try the properties on: empty, full, and used up to an index.\<close>

definition ale_inst :: cpswinst where
  "ale_inst = \<lparr>ss_base = 0x4A100000, mdio_base = 0x4A101000, wrpr_base = 0x4A101200, ale_base = 0x4A100D00,
     cpdma_base = 0x4A100800, cppi_ram_base = 0x4A102000, host_port_base = 0x4A100100,
     inst_port = [\<lparr>port_base = 0x4A100200, sliver_base = 0x4A100D80, phy_addr = 0, phy_gbps = 1\<rparr>,
       \<lparr>port_base = 0x4A100300, sliver_base = 0x4A100DC0, phy_addr = 1, phy_gbps = 1\<rparr>],
     inst_txch = \<lparr>tx_free_head = 0, tx_send_head = 0, tx_send_tail = 0, tx_free_num = 0\<rparr>,
     inst_rxch = \<lparr>rx_free_head = 0, rx_recv_head = 0, rx_recv_tail = 0, rx_free_num = 0\<rparr>\<rparr>"

definition table_used :: "nat \<Rightarrow> cpsw_hw" where
  "table_used n = \<lparr>hregs = (\<lambda>a. 0), htbl = (\<lambda>i. if i < n then (0x05060708, 0x10000304, 0) else (0, 0, 0))\<rparr>"

lemma ale_inst_base: "ale_base ale_inst = 0x4A100D00"
  by (simp add: ale_inst_def)

lemma table_used_at: "entry_at hw_tbl (table_used n) i =
    (if i < n then [8, 7, 6, 5, 4, 3, 0, 0x10, 0, 0, 0, 0] else zero_entry)"
  by (simp add: entry_at_def hw_tbl_def table_used_def entry_words_def entry_bytes_def zero_entry_list)

lemma table_used_type: "entry_type (entry_at hw_tbl (table_used n) i) = (if i < n then 0x10 else 0)"
  by (simp add: table_used_at entry_type_def zero_entry_def)

lemma vlan_cfg_installs_witness:
  "hw_tbl (cpswif_port_to_host_vlan_cfg (cpsw_bus 0x4A100D00) ale_inst 1 [1, 2, 3, 4, 5, 6] (table_used 0)) 0 =
   words_of (vlan_entry 1)"
proof -
  have "first_at hw_tbl (\<lambda>e. entry_type e = 0) (table_used 0) 0" by (simp add: first_at_def table_used_type)
  then show ?thesis
    using vlan_cfg_installs [OF cpsw.lookup_engine_axioms ale_inst_base, of "table_used 0" 0 1 1 "[1, 2, 3, 4, 5, 6]"]
    by (simp add: table_used_type)
qed

text \<open>the searches return their index as a signed byte, so setting up a port overwrites an entry in use
  instead of taking a free one: entry 1018 when the table is full (the guards against a full table never
  hold), and entry i + 768 when the first free entry is i with 128 to 255; the first of its two entries
  is lost in both cases.\<close>

theorem vlan_cfg_overwrites:
  assumes "lookup_engine B plain val base tbl" and "ale_base c = base"
  shows "(none_at tbl (\<lambda>e. entry_type e = 0) s \<longrightarrow>
      tbl (cpswif_port_to_host_vlan_cfg B c p eth s) = (tbl s)(1018 := words_of (vlan_ucast_entry p eth))) \<and>
    (first_at tbl (\<lambda>e. entry_type e = 0) s i \<and> 128 \<le> i \<and> i < 256 \<longrightarrow>
      tbl (cpswif_port_to_host_vlan_cfg B c p eth s) = (tbl s)(i + 768 := words_of (vlan_ucast_entry p eth)))"
  using lookup_engine.vlan_cfg_full_spec [OF assms] lookup_engine.vlan_cfg_high_spec [OF assms] by blast

lemma vlan_cfg_overwrites_witness:
  "hw_tbl (cpswif_port_to_host_vlan_cfg (cpsw_bus 0x4A100D00) ale_inst 1 [1, 2, 3, 4, 5, 6] (table_used 1024)) 1018 =
     words_of (vlan_ucast_entry 1 [1, 2, 3, 4, 5, 6]) \<and>
   hw_tbl (cpswif_port_to_host_vlan_cfg (cpsw_bus 0x4A100D00) ale_inst 1 [1, 2, 3, 4, 5, 6] (table_used 200)) 968 =
     words_of (vlan_ucast_entry 1 [1, 2, 3, 4, 5, 6])"
proof -
  have f: "none_at hw_tbl (\<lambda>e. entry_type e = 0) (table_used 1024)" by (simp add: none_at_def table_used_type)
  have h: "first_at hw_tbl (\<lambda>e. entry_type e = 0) (table_used 200) 200" by (simp add: first_at_def table_used_type)
  note t = vlan_cfg_overwrites [OF cpsw.lookup_engine_axioms ale_inst_base]
  show ?thesis using t [of "table_used 1024"] t [of "table_used 200" _ _ 200] f h by simp
qed

text \<open>adding a unicast address that the table does not hold takes the first free entry; the search then
  finds the address there, deleting it frees that entry alone, and the search no longer finds it.\<close>

theorem ucast_add_then_del:
  assumes "lookup_engine B plain val base tbl" and "ale_base c = base"
    and "none_at tbl (addr_matches eth 0) s" and "first_at tbl (\<lambda>e. entry_type e = 0) s i" and "i < 128"
  shows "\<exists>s1 s2 s3. cpswif_ale_unicastentry_add B c p eth fl t s = (of_nat i, s1) \<and>
    fst (cpswif_ale_entry_match_addr B c eth 0 s1) = of_nat i \<and>
    (\<forall>j. j \<noteq> i \<longrightarrow> tbl s1 j = tbl s j) \<and>
    cpswif_ale_unicastentry_del B c p eth s1 = (of_nat i, s2) \<and> tbl s2 = (tbl s)(i := [0, 0, 0]) \<and>
    fst (cpswif_ale_entry_match_addr B c eth 0 s2) = ERR_VAL"
proof -
  obtain s1 where s1: "cpswif_ale_unicastentry_add B c p eth fl t s = (of_nat i, s1)"
    "tbl s1 = (tbl s)(i := words_of (ucast_entry p eth fl t))"
    using lookup_engine.ucast_add_free [OF assms] by blast
  have f1: "first_at tbl (addr_matches eth 0) s1 i"
    using assms(3,5) lookup_engine.entry_at_upd [OF assms(1) s1(2) ucast_entry_props(1)] ucast_entry_props(2)
    by (simp add: first_at_def none_at_def)
  obtain s2 where s2: "cpswif_ale_unicastentry_del B c p eth s1 = (of_nat i, s2)"
    "tbl s2 = (tbl s1)(i := words_of zero_entry)"
    using lookup_engine.ucast_del_first [OF assms(1,2) f1 assms(5)] by blast
  have t2: "tbl s2 = (tbl s)(i := words_of zero_entry)" using s1(2) s2(2) by simp
  have "none_at tbl (addr_matches eth 0) s2"
    using assms(3) lookup_engine.entry_at_upd [OF assms(1) t2] zero_entry_7(2)
    by (simp add: none_at_def addr_matches_def)
  then show ?thesis
    using s1 s2(1) t2 lookup_engine.match_addr_first [OF assms(1,2) f1] lookup_engine.match_addr_none [OF assms(1,2)]
    by (fastforce simp: zero_entry_words)
qed

lemma ucast_add_then_del_witness:
  "fst (cpswif_ale_unicastentry_add (cpsw_bus 0x4A100D00) ale_inst 2 [1, 2, 3, 4, 5, 6] 0 1 (table_used 7)) = 7"
proof -
  have "none_at hw_tbl (addr_matches [1, 2, 3, 4, 5, 6] 0) (table_used 7)"
  proof -
    have "\<not> addr_matches [1, 2, 3, 4, 5, 6] 0 [8, 7, 6, 5, 4, 3, 0, 0x10, 0, 0, 0, 0]"
      unfolding addr_matches_def by (intro notI) (drule conjunct2, drule conjunct2, drule spec [of _ 0], simp)
    moreover have "\<not> addr_matches [1, 2, 3, 4, 5, 6] 0 zero_entry" by (simp add: addr_matches_def zero_entry_7(2))
    ultimately show ?thesis by (simp add: none_at_def table_used_at)
  qed
  moreover have "first_at hw_tbl (\<lambda>e. entry_type e = 0) (table_used 7) 7" by (simp add: first_at_def table_used_type)
  ultimately show ?thesis
    using ucast_add_then_del [OF cpsw.lookup_engine_axioms ale_inst_base, of "[1, 2, 3, 4, 5, 6]" "table_used 7" 7 2 0 1]
    by auto
qed

text \<open>adding ports to a multicast entry loses ports: the code shifts the ports already there a second
  time, so of the three old ports only port 0 is kept, and as port 2.\<close>

theorem mcast_add_shifts_ports:
  assumes "lookup_engine B plain val base tbl" and "ale_base c = base"
    and "first_at tbl (addr_matches eth 0) s i" and "i < 128" and "unat portmask < 8"
  shows "\<exists>s'. cpswif_ale_multicastentry_add B c portmask eth super st s = (of_nat i, s') \<and>
    take_bit 3 (drop_bit 2 (entry_at tbl s' i ! 8)) =
      ucast portmask OR take_bit 3 (push_bit 2 (drop_bit 2 (entry_at tbl s i ! 8))) \<and>
    (\<forall>j. j \<noteq> i \<longrightarrow> entry_at tbl s' j = entry_at tbl s j)"
  using assms by (rule lookup_engine.mcast_add_match_spec)

lemma mcast_add_shifts_ports_witness:
  "\<exists>s'. cpswif_ale_multicastentry_add (cpsw_bus 0x4A100D00) ale_inst 1 [3, 4, 5, 6, 7, 8] 0 3 (table_used 1) = (0, s') \<and>
     take_bit 3 (drop_bit 2 (entry_at hw_tbl s' 0 ! 8)) = 1"
proof -
  have "addr_matches [3, 4, 5, 6, 7, 8] 0 [8, 7, 6, 5, 4, 3, 0, 0x10, 0, 0, 0, 0]"
    by (simp add: addr_matches_def entry_type_def entry_vid_def LD_WORD_def all_less_6)
  then have "first_at hw_tbl (addr_matches [3, 4, 5, 6, 7, 8] 0) (table_used 1) 0"
    by (simp add: first_at_def table_used_at)
  then show ?thesis
    using mcast_add_shifts_ports [OF cpsw.lookup_engine_axioms ale_inst_base, of "[3, 4, 5, 6, 7, 8]" "table_used 1" 0 1 0 3]
    by (auto simp: table_used_at)
qed

end
