(* ===== verification/Phy.thy ===== *)
theory Phy
  imports CpswAle "HOL-Library.Monad_Syntax"
begin

unbundle bit_operations_syntax

text \<open>
  The management bus of the PHYs (\<^verbatim>\<open>drivers_C/mdio.c\<close>), the PHY driver over it (\<^verbatim>\<open>drivers_C/phy.c\<close>), and
  the set-up of a link in \<^verbatim>\<open>cpswif.c\<close>.  Functions that wait for the bus are partial.  A register read
  leaves its destination as it was when the PHY does not acknowledge; where the code reads into an
  uninitialised local variable, its value is the argument \<open>junk\<close>.  The delay of \<^verbatim>\<open>drivers/tim.s\<close> is the
  argument \<open>dly\<close>.
\<close>

section \<open>The management bus\<close>

abbreviation MDIO_CONTROL :: DWORD where "MDIO_CONTROL \<equiv> 0x4"
abbreviation MDIO_ALIVE :: DWORD where "MDIO_ALIVE \<equiv> 0x8"
abbreviation MDIO_LINK :: DWORD where "MDIO_LINK \<equiv> 0xC"
abbreviation MDIO_USERACCESS0 :: DWORD where "MDIO_USERACCESS0 \<equiv> 0x80"
abbreviation MDIO_USERACCESS0_GO :: DWORD where "MDIO_USERACCESS0_GO \<equiv> 0x80000000"
abbreviation MDIO_USERACCESS0_WRITE :: DWORD where "MDIO_USERACCESS0_WRITE \<equiv> 0x40000000"
abbreviation MDIO_USERACCESS0_ACK :: DWORD where "MDIO_USERACCESS0_ACK \<equiv> 0x20000000"

definition phy_select :: "DWORD \<Rightarrow> DWORD \<Rightarrow> DWORD" where
  "phy_select phyAddr regNum = push_bit 21 (regNum AND 0x1F) OR push_bit 16 (phyAddr AND 0x1F)"

definition MDIOPhyRegRead ::
    "'s bus \<Rightarrow> DWORD \<Rightarrow> DWORD \<Rightarrow> DWORD \<Rightarrow> WORD \<Rightarrow> 's \<Rightarrow> (bool \<times> WORD \<times> 's) option" where
  "MDIOPhyRegRead B base phyAddr regNum data s = do {
     s \<leftarrow> wait_clear B (base + MDIO_USERACCESS0) MDIO_USERACCESS0_GO s;
     let s = wr B (base + MDIO_USERACCESS0) (0 OR MDIO_USERACCESS0_GO OR phy_select phyAddr regNum) s;
     s \<leftarrow> wait_clear B (base + MDIO_USERACCESS0) MDIO_USERACCESS0_GO s;
     let (v, s) = rd B (base + MDIO_USERACCESS0) s;
     if v AND MDIO_USERACCESS0_ACK \<noteq> 0
     then let (v, s) = rd B (base + MDIO_USERACCESS0) s in Some (True, ucast (v AND 0xFFFF), s)
     else Some (False, data, s) }"

definition MDIOPhyRegWrite :: "'s bus \<Rightarrow> DWORD \<Rightarrow> DWORD \<Rightarrow> DWORD \<Rightarrow> WORD \<Rightarrow> 's \<Rightarrow> 's option" where
  "MDIOPhyRegWrite B base phyAddr regNum regVal s = do {
     s \<leftarrow> wait_clear B (base + MDIO_USERACCESS0) MDIO_USERACCESS0_GO s;
     let s = wr B (base + MDIO_USERACCESS0)
       (MDIO_USERACCESS0_WRITE OR MDIO_USERACCESS0_GO OR phy_select phyAddr regNum OR ucast regVal) s;
     wait_clear B (base + MDIO_USERACCESS0) MDIO_USERACCESS0_GO s }"

definition MDIOPhyAliveStatusGet :: "'s bus \<Rightarrow> DWORD \<Rightarrow> 's \<Rightarrow> DWORD \<times> 's" where
  "MDIOPhyAliveStatusGet B base s = rd B (base + MDIO_ALIVE) s"

definition MDIOPhyLinkStatusGet :: "'s bus \<Rightarrow> DWORD \<Rightarrow> 's \<Rightarrow> DWORD \<times> 's" where
  "MDIOPhyLinkStatusGet B base s = rd B (base + MDIO_LINK) s"

definition MDIOInit :: "'s bus \<Rightarrow> DWORD \<Rightarrow> DWORD \<Rightarrow> DWORD \<Rightarrow> 's \<Rightarrow> 's" where
  "MDIOInit B base mdioInputFreq mdioOutputFreq s =
     (let clkDiv = mdioInputFreq div mdioOutputFreq - 1
      in wr B (base + MDIO_CONTROL) ((clkDiv AND 0xFFFF) OR 0x40000000 OR 0x100000 OR 0x40000) s)"

definition MDIOContextSave :: "'s bus \<Rightarrow> DWORD \<Rightarrow> 's \<Rightarrow> DWORD \<times> 's" where
  "MDIOContextSave B base s = rd B (base + MDIO_CONTROL) s"

definition MDIOContextRestore :: "'s bus \<Rightarrow> DWORD \<Rightarrow> DWORD \<Rightarrow> 's \<Rightarrow> 's" where
  "MDIOContextRestore B base mdioCtrl s = wr B (base + MDIO_CONTROL) mdioCtrl s"

section \<open>The PHY driver\<close>

definition PhyIDGet :: "'s bus \<Rightarrow> WORD \<Rightarrow> DWORD \<Rightarrow> DWORD \<Rightarrow> 's \<Rightarrow> (DWORD \<times> 's) option" where
  "PhyIDGet B junk base phyAddr s = do {
     (ok, data, s) \<leftarrow> MDIOPhyRegRead B base phyAddr 2 junk s;
     let ident = push_bit 16 (ucast data);
     (ok, data, s) \<leftarrow> MDIOPhyRegRead B base phyAddr 3 data s;
     Some (ident OR ucast data, s) }"

definition PhyRegRead :: "'s bus \<Rightarrow> DWORD \<Rightarrow> DWORD \<Rightarrow> DWORD \<Rightarrow> WORD \<Rightarrow> 's \<Rightarrow> (bool \<times> WORD \<times> 's) option" where
  "PhyRegRead B base phyAddr regIdx regVal s = MDIOPhyRegRead B base phyAddr regIdx regVal s"

definition PhyRegWrite :: "'s bus \<Rightarrow> DWORD \<Rightarrow> DWORD \<Rightarrow> DWORD \<Rightarrow> WORD \<Rightarrow> 's \<Rightarrow> 's option" where
  "PhyRegWrite B base phyAddr regIdx regVal s = MDIOPhyRegWrite B base phyAddr regIdx regVal s"

definition PhyLoopBackEnable :: "'s bus \<Rightarrow> WORD \<Rightarrow> DWORD \<Rightarrow> DWORD \<Rightarrow> 's \<Rightarrow> (bool \<times> 's) option" where
  "PhyLoopBackEnable B junk base phyAddr s = do {
     (ok, data, s) \<leftarrow> MDIOPhyRegRead B base phyAddr 0 junk s;
     if \<not> ok then Some (False, s) else do {
       s \<leftarrow> MDIOPhyRegWrite B base phyAddr 0 (data OR 0x4000) s;
       Some (True, s) } }"

definition PhyLoopBackDisable :: "'s bus \<Rightarrow> WORD \<Rightarrow> DWORD \<Rightarrow> DWORD \<Rightarrow> 's \<Rightarrow> (bool \<times> 's) option" where
  "PhyLoopBackDisable B junk base phyAddr s = do {
     (ok, data, s) \<leftarrow> MDIOPhyRegRead B base phyAddr 0 junk s;
     if \<not> ok then Some (False, s) else do {
       s \<leftarrow> MDIOPhyRegWrite B base phyAddr 0 (data AND NOT 0x4000) s;
       Some (True, s) } }"

partial_function (option) reset_loop :: "'s bus \<Rightarrow> DWORD \<Rightarrow> DWORD \<Rightarrow> WORD \<Rightarrow> 's \<Rightarrow> (bool \<times> 's) option" where
  "reset_loop B base phyAddr data s =
     (if data AND 0x8000 = 0 then Some (True, s) else do {
        (ok, data, s) \<leftarrow> MDIOPhyRegRead B base phyAddr 0 data s;
        if \<not> ok then Some (False, s) else reset_loop B base phyAddr data s })"

definition PhyReset :: "'s bus \<Rightarrow> DWORD \<Rightarrow> DWORD \<Rightarrow> 's \<Rightarrow> (bool \<times> 's) option" where
  "PhyReset B base phyAddr s = do {
     s \<leftarrow> MDIOPhyRegWrite B base phyAddr 0 0x8000 s;
     reset_loop B base phyAddr 0x8000 s }"

definition PhyConfigure :: "'s bus \<Rightarrow> DWORD \<Rightarrow> DWORD \<Rightarrow> WORD \<Rightarrow> WORD \<Rightarrow> 's \<Rightarrow> (bool \<times> 's) option" where
  "PhyConfigure B base phyAddr speed duplexMode s = do {
     s \<leftarrow> MDIOPhyRegWrite B base phyAddr 0 (speed OR duplexMode) s;
     Some (True, s) }"

definition PhyAutoNegotiate ::
    "'s bus \<Rightarrow> WORD \<Rightarrow> DWORD \<Rightarrow> DWORD \<Rightarrow> WORD \<Rightarrow> WORD \<Rightarrow> 's \<Rightarrow> (bool \<times> 's) option" where
  "PhyAutoNegotiate B junk base phyAddr adv gigAdv s = do {
     (ok, data, s) \<leftarrow> MDIOPhyRegRead B base phyAddr 0 junk s;
     if \<not> ok then Some (False, s) else do {
       let data = data OR 0x1000;
       let data = (if gigAdv \<noteq> 0 then (data AND 0xDFBF) OR 0x40 else data);
       s \<leftarrow> MDIOPhyRegWrite B base phyAddr 0 data s;
       (ok, data, s) \<leftarrow> MDIOPhyRegRead B base phyAddr 0 data s;
       if \<not> ok then Some (False, s) else do {
         (ok, anar, s) \<leftarrow> MDIOPhyRegRead B base phyAddr 4 junk s;
         s \<leftarrow> MDIOPhyRegWrite B base phyAddr 4 ((anar AND NOT 0x01E0) OR adv) s;
         (ok, anar, s) \<leftarrow> MDIOPhyRegRead B base phyAddr 9 0 s;
         s \<leftarrow> MDIOPhyRegWrite B base phyAddr 9 ((anar AND NOT 0x0300) OR gigAdv) s;
         s \<leftarrow> MDIOPhyRegWrite B base phyAddr 0 (data OR 0x0200) s;
         Some (True, s) } } }"

definition PhyAutoNegStatusGet :: "'s bus \<Rightarrow> WORD \<Rightarrow> DWORD \<Rightarrow> DWORD \<Rightarrow> 's \<Rightarrow> (bool \<times> 's) option" where
  "PhyAutoNegStatusGet B junk base phyAddr s = do {
     (ok, data, s) \<leftarrow> MDIOPhyRegRead B base phyAddr 1 junk s;
     Some (data AND 0x20 = 0x20, s) }"

definition PhyPartnerAbilityGet ::
    "'s bus \<Rightarrow> DWORD \<Rightarrow> DWORD \<Rightarrow> WORD \<Rightarrow> WORD \<Rightarrow> 's \<Rightarrow> (bool \<times> WORD \<times> WORD \<times> 's) option" where
  "PhyPartnerAbilityGet B base phyAddr ablty gbps s = do {
     (status, ablty, s) \<leftarrow> MDIOPhyRegRead B base phyAddr 5 ablty s;
     if gbps \<noteq> 0 then do {
       (ok, gbps, s) \<leftarrow> MDIOPhyRegRead B base phyAddr 10 gbps s;
       Some (status \<or> ok, ablty, gbps, s) }
     else Some (status, ablty, gbps, s) }"

fun link_loop :: "'s bus \<Rightarrow> DWORD \<Rightarrow> DWORD \<Rightarrow> WORD \<Rightarrow> nat \<Rightarrow> 's \<Rightarrow> (bool \<times> 's) option" where
  "link_loop B base phyAddr linkStatus 0 s = Some (False, s)"
| "link_loop B base phyAddr linkStatus (Suc n) s = do {
     (ok, linkStatus, s) \<leftarrow> MDIOPhyRegRead B base phyAddr 1 linkStatus s;
     if linkStatus AND 4 \<noteq> 0 then Some (True, s) else link_loop B base phyAddr linkStatus n s }"

definition PhyLinkStatusGet :: "'s bus \<Rightarrow> WORD \<Rightarrow> DWORD \<Rightarrow> DWORD \<Rightarrow> DWORD \<Rightarrow> 's \<Rightarrow> (bool \<times> 's) option" where
  "PhyLinkStatusGet B junk base phyAddr retries s = link_loop B base phyAddr junk (unat (retries + 1)) s"

section \<open>The set-up of a link\<close>

definition ERR_OK :: err_t where
  "ERR_OK = 0"

definition ERR_CONN :: err_t where
  "ERR_CONN = - 13"

definition slave :: "cpswinst \<Rightarrow> DWORD \<Rightarrow> cpswport" where
  "slave c port_num = inst_port c ! unat (port_num - 1)"

definition phy_alive :: "'s bus \<Rightarrow> cpswinst \<Rightarrow> DWORD \<Rightarrow> 's \<Rightarrow> bool \<times> 's" where
  "phy_alive B c port_num s =
     (case MDIOPhyAliveStatusGet B (mdio_base c) s of (v, s) \<Rightarrow>
        (v AND push_bit (unat (phy_addr (slave c port_num))) 1 \<noteq> 0, s))"

text \<open>The loops that wait, at most 200 times, for the negotiation or the link.\<close>

fun neg_loop :: "'s bus \<Rightarrow> (DWORD \<Rightarrow> 's \<Rightarrow> 's) \<Rightarrow> WORD \<Rightarrow> cpswinst \<Rightarrow> DWORD \<Rightarrow> nat \<Rightarrow> 's \<Rightarrow> (bool \<times> 's) option" where
  "neg_loop B dly junk c port_num 0 s = Some (False, s)"
| "neg_loop B dly junk c port_num (Suc n) s = do {
     (auto_stat, s) \<leftarrow> PhyAutoNegStatusGet B junk (mdio_base c) (phy_addr (slave c port_num)) (dly 50 s);
     if auto_stat then Some (True, s) else neg_loop B dly junk c port_num n s }"

fun forced_loop :: "'s bus \<Rightarrow> (DWORD \<Rightarrow> 's \<Rightarrow> 's) \<Rightarrow> WORD \<Rightarrow> cpswinst \<Rightarrow> DWORD \<Rightarrow> nat \<Rightarrow> 's \<Rightarrow> (bool \<times> 's) option" where
  "forced_loop B dly junk c port_num 0 s = Some (False, s)"
| "forced_loop B dly junk c port_num (Suc n) s = do {
     (frc_stat, s) \<leftarrow> PhyLinkStatusGet B junk (mdio_base c) (phy_addr (slave c port_num)) 1000 (dly 50 s);
     if frc_stat then Some (True, s) else forced_loop B dly junk c port_num n s }"

definition negotiated_mode :: "WORD \<Rightarrow> WORD \<Rightarrow> WORD \<Rightarrow> DWORD" where
  "negotiated_mode adv_val partnr_ablty gbps_partnr_ablty =
     (if gbps_partnr_ablty AND 0x0800 \<noteq> 0 then CPSW_SL_MACCONTROL_GIG
      else if (adv_val AND partnr_ablty) AND 0x0100 \<noteq> 0 then CPSW_SL_MACCONTROL_FULLDUPLEX
      else if (adv_val AND partnr_ablty) AND 0x0080 \<noteq> 0 then 0
      else if (adv_val AND partnr_ablty) AND 0x0040 \<noteq> 0 then 0x40000 OR CPSW_SL_MACCONTROL_FULLDUPLEX
      else if (adv_val AND partnr_ablty) AND 0x0020 \<noteq> 0 then 0x40000 OR 0
      else 0)"

text \<open>
  Negotiating with what is to be advertised: \<open>None\<close> in the result stands for the return of \<^verbatim>\<open>ERR_CONN\<close>
  before the sliver is set, which both callers have in the time-out branch.
\<close>

definition negotiate ::
    "'s bus \<Rightarrow> (DWORD \<Rightarrow> 's \<Rightarrow> 's) \<Rightarrow> WORD \<Rightarrow> cpswinst \<Rightarrow> DWORD \<Rightarrow> WORD \<Rightarrow> WORD \<Rightarrow> WORD \<Rightarrow> 's \<Rightarrow>
     (err_t option \<times> 's) option" where
  "negotiate B dly junk c port_num adv_val gig_adv_val gbps_ablty s = do {
     let p = slave c port_num;
     (ok, s) \<leftarrow> PhyAutoNegotiate B junk (mdio_base c) (phy_addr p) adv_val gig_adv_val s;
     if \<not> ok then Some (Some ERR_CONN, s) else do {
       (ok, s) \<leftarrow> neg_loop B dly junk c port_num 200 s;
       if \<not> ok then Some (None, s) else do {
         (_, partnr_ablty, gbps_ablty, s) \<leftarrow> PhyPartnerAbilityGet B (mdio_base c) (phy_addr p) 1 gbps_ablty s;
         Some (Some ERR_OK, CPSWSlTransferModeSet B (sliver_base p) (negotiated_mode adv_val partnr_ablty gbps_ablty) s) } } }"

definition adv_bits :: "DWORD \<Rightarrow> WORD" where
  "adv_bits adv =
     (if adv AND 1 \<noteq> 0 then 0x20 else 0) OR (if adv AND 2 \<noteq> 0 then 0x40 else 0)
     OR (if adv AND 4 \<noteq> 0 then 0x80 else 0) OR (if adv AND 8 \<noteq> 0 then 0x100 else 0)"

definition cpswif_phy_autoneg ::
    "'s bus \<Rightarrow> (DWORD \<Rightarrow> 's \<Rightarrow> 's) \<Rightarrow> WORD \<Rightarrow> cpswinst \<Rightarrow> DWORD \<Rightarrow> DWORD \<Rightarrow> 's \<Rightarrow> (err_t \<times> 's) option" where
  "cpswif_phy_autoneg B dly junk c port_num adv s =
     (case phy_alive B c port_num s of (alive, s) \<Rightarrow>
      if \<not> alive then Some (ERR_CONN, s) else
      if adv = 0x10 then Some (ERR_CONN, s) else
      let gig = phy_gbps (slave c port_num) \<noteq> 0 \<and> adv AND 0x20 \<noteq> 0 in do {
        (linkstat, s) \<leftarrow> negotiate B dly junk c port_num (adv_bits adv) (if gig then 0x200 else 0) (if gig then 1 else 0) s;
        case linkstat of
          None \<Rightarrow> Some (ERR_CONN, s)
        | Some linkstat \<Rightarrow> do {
            (up, s) \<leftarrow> PhyLinkStatusGet B junk (mdio_base c) (phy_addr (slave c port_num)) 1000 s;
            Some (linkstat, if up then CPSWSlRGMIIEnable B (sliver_base (slave c port_num)) s else s) } })"

definition forced_mode :: "DWORD \<Rightarrow> DWORD \<Rightarrow> DWORD" where
  "forced_mode speed duplex =
     (if speed = 2 then CPSW_SL_MACCONTROL_GIG
      else (if speed = 0 then 0x40000 else 0) OR (if duplex = 1 then CPSW_SL_MACCONTROL_FULLDUPLEX else 0))"

definition cpswif_phy_forced ::
    "'s bus \<Rightarrow> (DWORD \<Rightarrow> 's \<Rightarrow> 's) \<Rightarrow> WORD \<Rightarrow> cpswinst \<Rightarrow> DWORD \<Rightarrow> DWORD \<Rightarrow> DWORD \<Rightarrow> 's \<Rightarrow> (err_t \<times> 's) option" where
  "cpswif_phy_forced B dly junk c port_num speed duplex s =
     (case phy_alive B c port_num s of (alive, s) \<Rightarrow>
      if \<not> alive then Some (ERR_CONN, s) else
      if speed = 2 then Some (ERR_CONN, s) else
      let p = slave c port_num;
          speed_val = (if speed = 2 then 0x40 else if speed = 1 then 0x2000 else 0);
          duplex_val = (if duplex = 1 then 0x100 else 0) in do {
        (ok, s) \<leftarrow> PhyReset B (mdio_base c) (phy_addr p) s;
        if \<not> ok then Some (ERR_CONN, s) else do {
          (up, s) \<leftarrow> PhyLinkStatusGet B junk (mdio_base c) (phy_addr p) 1000 s;
          (_, s) \<leftarrow> (if up then forced_loop B dly junk c port_num 200 s else Some (False, s));
          (ok, s) \<leftarrow> PhyConfigure B (mdio_base c) (phy_addr p) speed_val duplex_val s;
          if ok then do {
            (up, s) \<leftarrow> forced_loop B dly junk c port_num 200 s;
            if \<not> up then Some (ERR_CONN, s)
            else Some (ERR_OK, CPSWSlRGMIIEnable B (sliver_base p)
              (CPSWSlTransferModeSet B (sliver_base p) (forced_mode speed duplex) s)) }
          else Some (ERR_CONN, CPSWSlRGMIIEnable B (sliver_base p) (CPSWSlTransferModeSet B (sliver_base p) 0 s)) } })"

definition cpswif_autoneg_config ::
    "'s bus \<Rightarrow> (DWORD \<Rightarrow> 's \<Rightarrow> 's) \<Rightarrow> WORD \<Rightarrow> cpswinst \<Rightarrow> DWORD \<Rightarrow> 's \<Rightarrow> (err_t \<times> 's) option" where
  "cpswif_autoneg_config B dly junk c port_num s = do {
     let gig = phy_gbps (slave c port_num) = 1;
     (linkstat, s) \<leftarrow> negotiate B dly junk c port_num (0x80 OR 0x100 OR 0x20 OR 0x40) (if gig then 0x200 else 0)
       (if gig then 1 else 0) s;
     Some (case linkstat of None \<Rightarrow> ERR_CONN | Some e \<Rightarrow> e, s) }"

definition cpswif_phylink_config ::
    "'s bus \<Rightarrow> (DWORD \<Rightarrow> 's \<Rightarrow> 's) \<Rightarrow> WORD \<Rightarrow> cpswinst \<Rightarrow> DWORD \<Rightarrow> 's \<Rightarrow> (err_t \<times> 's) option" where
  "cpswif_phylink_config B dly junk c slv_port_num s =
     (case phy_alive B c slv_port_num s of (alive, s) \<Rightarrow>
      if \<not> alive then Some (ERR_CONN, s) else do {
        (err, s) \<leftarrow> cpswif_autoneg_config B dly junk c slv_port_num s;
        (up, s) \<leftarrow> PhyLinkStatusGet B junk (mdio_base c) (phy_addr (slave c slv_port_num)) 1000 s;
        if \<not> up then Some (ERR_CONN, s)
        else Some (err, CPSWSlRGMIIEnable B (sliver_base (slave c slv_port_num)) s) })"

definition cpswif_link_status :: "'s bus \<Rightarrow> WORD \<Rightarrow> cpswinst \<Rightarrow> DWORD \<Rightarrow> 's \<Rightarrow> (bool \<times> 's) option" where
  "cpswif_link_status B junk c slv_port_num s =
     PhyLinkStatusGet B junk (mdio_base c) (phy_addr (slave c slv_port_num)) 3 s"

section \<open>The modes of a link\<close>

text \<open>
  The modes by speed and duplex, the bits by which the registers of a PHY advertise them (registers 4 and
  9) and show what the partner offers (registers 5 and 10), and the control bits of a sliver for each.
  The best of the modes both have is one that no common mode exceeds in speed or, at its speed, in duplex.
\<close>

datatype link_mode = Gig_Full | Fast_Full | Fast_Half | Slow_Full | Slow_Half

fun mbit :: "link_mode \<Rightarrow> nat" where
  "mbit Gig_Full = 1000" | "mbit Fast_Full = 100" | "mbit Fast_Half = 100" | "mbit Slow_Full = 10" | "mbit Slow_Half = 10"

fun full_duplex :: "link_mode \<Rightarrow> bool" where
  "full_duplex Gig_Full = True" | "full_duplex Fast_Full = True" | "full_duplex Fast_Half = False"
| "full_duplex Slow_Full = True" | "full_duplex Slow_Half = False"

fun technology_bit :: "link_mode \<Rightarrow> nat" where
  "technology_bit Gig_Full = 0" | "technology_bit Fast_Full = 8" | "technology_bit Fast_Half = 7"
| "technology_bit Slow_Full = 6" | "technology_bit Slow_Half = 5"

definition advertised :: "WORD \<Rightarrow> WORD \<Rightarrow> link_mode \<Rightarrow> bool" where
  "advertised adv gig m \<longleftrightarrow> (if m = Gig_Full then bit gig 9 else bit adv (technology_bit m))"

definition offered :: "WORD \<Rightarrow> WORD \<Rightarrow> link_mode \<Rightarrow> bool" where
  "offered ablty gbps m \<longleftrightarrow> (if m = Gig_Full then bit gbps 11 else bit ablty (technology_bit m))"

definition best_mode :: "(link_mode \<Rightarrow> bool) \<Rightarrow> link_mode option \<Rightarrow> bool" where
  "best_mode C best \<longleftrightarrow> (case best of
     None \<Rightarrow> (\<forall>m. \<not> C m)
   | Some m \<Rightarrow> C m \<and> (\<forall>m'. C m' \<longrightarrow> mbit m' < mbit m \<or> mbit m' = mbit m \<and> (full_duplex m' \<longrightarrow> full_duplex m)))"

fun sliver_bits :: "link_mode option \<Rightarrow> DWORD" where
  "sliver_bits None = 0"
| "sliver_bits (Some m) = (if mbit m = 1000 then 0x80
     else (if mbit m = 10 then 0x40000 else 0) OR (if full_duplex m then 1 else 0))"

lemma all_modes: "(\<forall>m. P m) \<longleftrightarrow> P Gig_Full \<and> P Fast_Full \<and> P Fast_Half \<and> P Slow_Full \<and> P Slow_Half"
  by (metis link_mode.exhaust)

lemma and_bits:
  "x AND 0x20 = 0 \<longleftrightarrow> \<not> bit x 5" "x AND 0x40 = 0 \<longleftrightarrow> \<not> bit x 6" "x AND 0x80 = 0 \<longleftrightarrow> \<not> bit x 7"
  "x AND 0x100 = 0 \<longleftrightarrow> \<not> bit x 8" "x AND 0x200 = 0 \<longleftrightarrow> \<not> bit x 9" "x AND 0x800 = 0 \<longleftrightarrow> \<not> bit x 11" for x :: WORD
  using and_exp_eq_0_iff_not_bit [of x 5] and_exp_eq_0_iff_not_bit [of x 6] and_exp_eq_0_iff_not_bit [of x 7]
    and_exp_eq_0_iff_not_bit [of x 8] and_exp_eq_0_iff_not_bit [of x 9] and_exp_eq_0_iff_not_bit [of x 11]
  by simp_all

lemma negotiated_best:
  assumes adv: "bit adv 5" "bit adv 6" "bit adv 7" "bit adv 8" and g: "bit gig 9 \<longleftrightarrow> g"
  shows "\<exists>m. best_mode (\<lambda>m. advertised adv gig m \<and> offered p q m) m \<and>
    negotiated_mode 0x1E0 p (if g then q else 0) = sliver_bits m"
proof -
  let ?m = "if g \<and> bit q 11 then Some Gig_Full else if bit p 8 then Some Fast_Full else if bit p 7 then Some Fast_Half
    else if bit p 6 then Some Slow_Full else if bit p 5 then Some Slow_Half else None"
  have "best_mode (\<lambda>m. advertised adv gig m \<and> offered p q m) ?m"
    using adv g by (simp add: best_mode_def all_modes advertised_def offered_def)
  moreover have "(0x1E0 AND p) AND 0x100 = p AND 0x100" "(0x1E0 AND p) AND 0x80 = p AND 0x80"
    "(0x1E0 AND p) AND 0x40 = p AND 0x40" "(0x1E0 AND p) AND 0x20 = p AND 0x20"
    by (simp_all add: and.commute [of _ p] and.assoc)
  then have "negotiated_mode 0x1E0 p (if g then q else 0) = sliver_bits ?m"
    by (simp add: negotiated_mode_def and_bits)
  ultimately show ?thesis by blast
qed

section \<open>The contract of the management bus\<close>

text \<open>
  A PHY that answers, as the standard of the PHYs describes one.  Reads through the bus give the register
  and acknowledge.  The control register 0 and the registers 4 and 9 of what is advertised keep what is
  written to them, but the reset and the restart bit of register 0 clear themselves; the status register
  1 and the registers 5 and 10 of what the partner offers are its own.  Restarting the negotiation while
  the PHY is not in loop back, powered down or isolated starts it anew: it ends after \<open>ticks\<close> delays at
  the most (\<open>left\<close> counts them down), until which the status shows it not done; then the status shows it done with
  the link up, and the partner's offer is in the registers.
\<close>

definition phy_keeps ::
    "(DWORD \<Rightarrow> bool) \<Rightarrow> (DWORD \<Rightarrow> 's \<Rightarrow> DWORD) \<Rightarrow> ('s \<Rightarrow> DWORD \<Rightarrow> DWORD \<Rightarrow> WORD) \<Rightarrow> ('s \<Rightarrow> DWORD \<Rightarrow> nat) \<Rightarrow> 's \<Rightarrow> 's \<Rightarrow> bool" where
  "phy_keeps plain val phy left s s' \<longleftrightarrow>
     (\<forall>b. left s' b \<le> left s b \<and> (\<forall>q \<in> {0, 4, 9}. phy s' b q = phy s b q)) \<and> (\<forall>x. plain x \<longrightarrow> val x s' = val x s)"

locale mdio_bus = plain_regs B plain val
  for B :: "'s bus" and plain val +
  fixes base :: DWORD and phy :: "'s \<Rightarrow> DWORD \<Rightarrow> DWORD \<Rightarrow> WORD" and left :: "'s \<Rightarrow> DWORD \<Rightarrow> nat"
    and dly :: "DWORD \<Rightarrow> 's \<Rightarrow> 's" and ticks :: "DWORD \<Rightarrow> nat" and ablty gbps :: "DWORD \<Rightarrow> WORD"
  assumes reg_read: "a < 32 \<Longrightarrow> r < 32 \<Longrightarrow>
      \<exists>s'. MDIOPhyRegRead B base a r d s = Some (True, phy s a r, s') \<and> phy_keeps plain val phy left s s'"
    and reg_write: "a < 32 \<Longrightarrow> r \<in> {0, 4, 9} \<Longrightarrow> (r = 0 \<Longrightarrow> v AND 0x8000 = 0) \<Longrightarrow>
      \<exists>s'. MDIOPhyRegWrite B base a r v s = Some s' \<and>
        (\<forall>b. \<forall>q \<in> {0, 4, 9}. phy s' b q =
           (if b = a \<and> q = r then (if r = 0 then v AND NOT 0x0200 else v) else phy s b q)) \<and>
        (r = 0 \<and> v AND 0x5E00 = 0x1200 \<longrightarrow> left s' a \<le> ticks a) \<and> (\<forall>x. plain x \<longrightarrow> val x s' = val x s)"
    and self_clears: "phy s a 0 AND 0x8200 = 0"
    and wr_phy: "plain x \<Longrightarrow> left (wr B x w s) b \<le> left s b \<and> (\<forall>q \<in> {0, 4, 9}. phy (wr B x w s) b q = phy s b q)"
    and delays: "phy_keeps plain val phy left s (dly n s)" "left (dly 50 s) b \<le> left s b - 1"
    and busy: "0 < left s a \<Longrightarrow> phy s a 1 AND 0x20 = 0"
    and ended: "left s a = 0 \<Longrightarrow> phy s a 1 AND 0x20 = 0x20 \<and> phy s a 1 AND 4 \<noteq> 0 \<and> phy s a 5 = ablty a \<and> phy s a 10 = gbps a"
begin

lemma keeps_trans [trans]:
  "phy_keeps plain val phy left s t \<Longrightarrow> phy_keeps plain val phy left t u \<Longrightarrow> phy_keeps plain val phy left s u"
  unfolding phy_keeps_def using order_trans by fastforce

lemma restart_word:
  fixes d g :: WORD
  assumes "d AND 0x8200 = 0" "d AND 0x4C00 = 0"
  defines "e \<equiv> if g \<noteq> 0 then ((d OR 0x1000) AND 0xDFBF) OR 0x40 else d OR 0x1000"
  shows "e AND 0x8000 = 0" "((e AND NOT 0x0200) OR 0x0200) AND 0x8000 = 0"
    "((e AND NOT 0x0200) OR 0x0200) AND 0x5E00 = (0x1200 :: WORD)"
proof -
  have s: "d AND 0x8000 = (d AND 0x8200) AND 0x8000" "d AND 0x5C00 = (d AND 0x4C00) OR (d AND 0x1000)"
    by (simp_all add: and.assoc bit.conj_disj_distrib [symmetric])
  then have d: "d AND 0x8000 = 0" "d AND 0x5C00 = d AND 0x1000" using assms(1,2) by simp_all
  have o: "(d AND 0x1000) OR 0x1000 = 0x1000" by (rule bit_word_eqI) (auto simp: bit_and_iff bit_or_iff)
  show "e AND 0x8000 = 0" using d by (simp add: e_def bit.conj_disj_distrib2 and.assoc)
  show "((e AND NOT 0x0200) OR 0x0200) AND 0x8000 = 0" using d by (simp add: e_def bit.conj_disj_distrib2 and.assoc)
  show "((e AND NOT 0x0200) OR 0x0200) AND 0x5E00 = 0x1200"
    using d o by (simp add: e_def bit.conj_disj_distrib2 and.assoc)
qed

lemma negotiate_starts:
  assumes a: "a < 32" and ctl: "phy s a 0 AND 0x4C00 = 0"
  shows "\<exists>s'. PhyAutoNegotiate B junk base a adv gig s = Some (True, s') \<and> left s' a \<le> ticks a \<and>
    phy s' a 4 = (phy s a 4 AND NOT 0x01E0) OR adv \<and> phy s' a 9 = (phy s a 9 AND NOT 0x0300) OR gig \<and>
    (\<forall>x. plain x \<longrightarrow> val x s' = val x s)"
proof -
  let ?d = "if gig \<noteq> 0 then ((phy s a 0 OR 0x1000) AND 0xDFBF) OR 0x40 else phy s a 0 OR 0x1000"
  note V = restart_word [OF self_clears ctl, of gig]
  obtain s1 where s1: "MDIOPhyRegRead B base a 0 junk s = Some (True, phy s a 0, s1)" "phy_keeps plain val phy left s s1"
    using reg_read [OF a, of 0 junk s] by auto
  obtain s2 where s2: "MDIOPhyRegWrite B base a 0 ?d s1 = Some s2" "phy s2 a 0 = ?d AND NOT 0x0200"
    "phy s2 a 4 = phy s1 a 4" "phy s2 a 9 = phy s1 a 9" "\<forall>x. plain x \<longrightarrow> val x s2 = val x s1"
    using reg_write [OF a, of 0 ?d s1] V(1) by auto
  obtain s3 where s3: "MDIOPhyRegRead B base a 0 ?d s2 = Some (True, phy s2 a 0, s3)" "phy_keeps plain val phy left s2 s3"
    using reg_read [OF a, of 0 ?d s2] by auto
  obtain s4 where s4: "MDIOPhyRegRead B base a 4 junk s3 = Some (True, phy s3 a 4, s4)" "phy_keeps plain val phy left s3 s4"
    using reg_read [OF a, of 4 junk s3] by auto
  let ?e = "(phy s3 a 4 AND NOT 0x01E0) OR adv"
  obtain s5 where s5: "MDIOPhyRegWrite B base a 4 ?e s4 = Some s5" "phy s5 a 4 = ?e" "phy s5 a 9 = phy s4 a 9"
    "\<forall>x. plain x \<longrightarrow> val x s5 = val x s4"
    using reg_write [OF a, of 4 ?e s4] by auto
  obtain s6 where s6: "MDIOPhyRegRead B base a 9 0 s5 = Some (True, phy s5 a 9, s6)" "phy_keeps plain val phy left s5 s6"
    using reg_read [OF a, of 9 0 s5] by auto
  let ?f = "(phy s5 a 9 AND NOT 0x0300) OR gig"
  obtain s7 where s7: "MDIOPhyRegWrite B base a 9 ?f s6 = Some s7" "phy s7 a 4 = phy s6 a 4" "phy s7 a 9 = ?f"
    "\<forall>x. plain x \<longrightarrow> val x s7 = val x s6"
    using reg_write [OF a, of 9 ?f s6] by auto
  obtain s8 where s8: "MDIOPhyRegWrite B base a 0 (phy s2 a 0 OR 0x0200) s7 = Some s8" "left s8 a \<le> ticks a"
    "phy s8 a 4 = phy s7 a 4" "phy s8 a 9 = phy s7 a 9" "\<forall>x. plain x \<longrightarrow> val x s8 = val x s7"
    using reg_write [OF a, of 0 "phy s2 a 0 OR 0x0200" s7] V(2,3) s2(2) by auto
  have run: "PhyAutoNegotiate B junk base a adv gig s = Some (True, s8)"
    unfolding PhyAutoNegotiate_def
    by (simp only: s1(1) s2(1) s3(1) s4(1) s5(1) s6(1) s7(1) s8(1) Option.bind.bind_lunit prod.case Let_def
        not_True_eq_False if_False)
  have k: "phy t' a q = phy t a q" if "phy_keeps plain val phy left t t'" "q \<in> {0, 4, 9}" for t t' q
    using that by (auto simp: phy_keeps_def)
  have v: "val x t' = val x t" if "phy_keeps plain val phy left t t'" "plain x" for t t' x
    using that by (auto simp: phy_keeps_def)
  have "phy s8 a 4 = (phy s a 4 AND NOT 0x01E0) OR adv" "phy s8 a 9 = (phy s a 9 AND NOT 0x0300) OR gig"
    using s8(3,4) s7(2,3) s5(2,3) s2(3,4) k [OF s1(2)] k [OF s3(2)] k [OF s4(2)] k [OF s6(2)] by simp_all
  moreover have "\<forall>x. plain x \<longrightarrow> val x s8 = val x s"
    using s8(5) s7(4) s5(4) s2(5) v [OF s1(2)] v [OF s3(2)] v [OF s4(2)] v [OF s6(2)] by simp
  ultimately show ?thesis using run s8(2) by blast
qed

text \<open>The loop of 200 delays sees the end of the negotiation.\<close>

lemma neg_loop_done:
  assumes a: "phy_addr (slave c n) = a" "a < 32" "mdio_base c = base"
  shows "left s a \<le> k \<Longrightarrow> 0 < k \<Longrightarrow> \<exists>s'. neg_loop B dly junk c n k s = Some (True, s') \<and> left s' a = 0 \<and>
    phy_keeps plain val phy left s s'"
proof (induction k arbitrary: s)
  case (Suc k)
  obtain s1 where s1: "MDIOPhyRegRead B base a 1 junk (dly 50 s) = Some (True, phy (dly 50 s) a 1, s1)"
    "phy_keeps plain val phy left (dly 50 s) s1" using reg_read [OF a(2), of 1 junk "dly 50 s"] by auto
  have K: "phy_keeps plain val phy left s s1" using delays(1) s1(2) by (rule keeps_trans)
  show ?case
  proof (cases "left (dly 50 s) a = 0")
    case True
    then have "left s1 a = 0" using s1(2) by (simp add: phy_keeps_def) (metis le_zero_eq)
    then show ?thesis using True s1(1) K ended [OF True] a by (simp add: PhyAutoNegStatusGet_def)
  next
    case False
    have l: "left s1 a \<le> k" "0 < k"
      using False s1(2) delays(2) [of s a] Suc.prems(1) by (auto simp: phy_keeps_def dest!: spec [of _ a])
    from Suc.IH [OF l] obtain s' where
      s': "neg_loop B dly junk c n k s1 = Some (True, s')" "left s' a = 0" "phy_keeps plain val phy left s1 s'" by blast
    then show ?thesis using False s1(1) busy [of "dly 50 s" a] a keeps_trans [OF K s'(3)]
      by (simp add: PhyAutoNegStatusGet_def)
  qed
qed simp

lemma link_up:
  assumes "a < 32" "left s a = 0" "retries + 1 \<noteq> 0"
  shows "\<exists>s'. PhyLinkStatusGet B junk base a retries s = Some (True, s') \<and> phy_keeps plain val phy left s s'"
proof -
  obtain k where k: "unat (retries + 1) = Suc k" using assms(3) by (metis not0_implies_Suc unat_0_iff)
  obtain s1 where "MDIOPhyRegRead B base a 1 junk s = Some (True, phy s a 1, s1)" "phy_keeps plain val phy left s s1"
    using reg_read [OF assms(1), of 1 junk s] by auto
  then show ?thesis using ended [OF assms(2)] by (simp add: PhyLinkStatusGet_def k)
qed

lemma partner_read:
  assumes a: "a < 32" and l: "left s a = 0"
  shows "\<exists>ok s'. PhyPartnerAbilityGet B base a d g s = Some (ok, ablty a, if g \<noteq> 0 then gbps a else g, s') \<and>
    phy_keeps plain val phy left s s'"
proof -
  obtain s1 where s1: "MDIOPhyRegRead B base a 5 d s = Some (True, phy s a 5, s1)" "phy_keeps plain val phy left s s1"
    using reg_read [OF a, of 5 d s] by auto
  have l1: "left s1 a = 0" using s1(2) l by (simp add: phy_keeps_def) (metis le_zero_eq)
  obtain s2 where s2: "MDIOPhyRegRead B base a 10 g s1 = Some (True, phy s1 a 10, s2)" "phy_keeps plain val phy left s1 s2"
    using reg_read [OF a, of 10 g s1] by auto
  have "phy_keeps plain val phy left s s2" using s1(2) s2(2) by (rule keeps_trans)
  then show ?thesis using s1 s2 ended [OF l] ended [OF l1] by (auto simp: PhyPartnerAbilityGet_def)
qed

lemma or_phy: "plain x \<Longrightarrow> left (reg_or B x v s) b \<le> left s b \<and> (\<forall>q \<in> {0, 4, 9}. phy (reg_or B x v s) b q = phy s b q)"
  by (simp add: reg_or_def rd_plain wr_phy [simplified])

lemma and_phy: "plain x \<Longrightarrow> left (reg_and B x v s) b \<le> left s b \<and> (\<forall>q \<in> {0, 4, 9}. phy (reg_and B x v s) b q = phy s b q)"
  by (simp add: reg_and_def rd_plain wr_phy [simplified])

text \<open>
  The link comes up: the alive bit of the PHY is set, the negotiation ends in time, and the sliver gets
  the best mode of those the PHY advertises and the partner offers.
\<close>

lemma phylink_spec:
  assumes c: "mdio_base c = base" and sl: "slave c n = sl" and pa: "phy_addr sl = a" and a: "a < 32"
    and mc: "sliver_base sl + CPSW_SL_MACCONTROL = mc" and pl: "plain (base + MDIO_ALIVE)" "plain mc"
    and al: "val (base + MDIO_ALIVE) s AND push_bit (unat a) 1 \<noteq> 0"
    and ctl: "phy s a 0 AND 0x4C00 = 0" and tk: "ticks a \<le> 200"
  shows "\<exists>s' m. cpswif_phylink_config B dly junk c n s = Some (ERR_OK, s') \<and>
    phy s' a 4 = (phy s a 4 AND NOT 0x01E0) OR 0x01E0 \<and>
    phy s' a 9 = (phy s a 9 AND NOT 0x0300) OR (if phy_gbps sl = 1 then 0x200 else 0) \<and>
    best_mode (\<lambda>m. advertised (phy s' a 4) (phy s' a 9) m \<and> offered (ablty a) (gbps a) m) m \<and>
    val mc s' = ((val mc s AND NOT 0x81) OR sliver_bits m) OR 0x18020"
proof -
  let ?g = "phy_gbps sl = 1"
  have alive: "phy_alive B c n s = (True, s)"
    using al rd_plain [OF pl(1)] by (simp add: phy_alive_def MDIOPhyAliveStatusGet_def c sl pa)
  let ?gig = "if ?g then 0x200 else 0 :: WORD"
  obtain s1 where s1: "PhyAutoNegotiate B junk base a 0x1E0 ?gig s = Some (True, s1)" "left s1 a \<le> ticks a"
    "phy s1 a 4 = (phy s a 4 AND NOT 0x01E0) OR 0x01E0" "phy s1 a 9 = (phy s a 9 AND NOT 0x0300) OR ?gig"
    "\<forall>x. plain x \<longrightarrow> val x s1 = val x s"
    using negotiate_starts [OF a ctl, of junk "0x1E0" ?gig] by blast
  obtain s2 where s2: "neg_loop B dly junk c n 200 s1 = Some (True, s2)" "left s2 a = 0"
    "phy_keeps plain val phy left s1 s2"
    using neg_loop_done [of c n a s1 200 junk] a s1(2) tk by (auto simp: sl pa c)
  obtain ok s3 where s3: "PhyPartnerAbilityGet B base a 1 (if ?g then 1 else 0) s2 =
      Some (ok, ablty a, if (if ?g then 1 else 0 :: WORD) \<noteq> 0 then gbps a else (if ?g then 1 else 0), s3)"
    "phy_keeps plain val phy left s2 s3" using partner_read [OF a s2(2), of 1 "if ?g then 1 else 0"] by blast
  define mm where "mm = negotiated_mode 0x1E0 (ablty a) (if ?g then gbps a else 0)"
  define s4 where "s4 = CPSWSlTransferModeSet B (sliver_base sl) mm s3"
  have adv: "(0x80 OR 0x100 OR 0x20 OR 0x40 :: WORD) = 0x1E0" by simp
  have neg: "cpswif_autoneg_config B dly junk c n s = Some (ERR_OK, s4)"
    unfolding cpswif_autoneg_config_def negotiate_def adv
    using s1(1) s2(1) s3(1) by (simp add: sl pa c mm_def s4_def cong: if_cong)
  have K: "phy_keeps plain val phy left s1 s3" using s2(3) s3(2) by (rule keeps_trans)
  have s4: "left s4 a \<le> left s3 a" "phy s4 a 4 = phy s3 a 4" "phy s4 a 9 = phy s3 a 9"
    using or_phy [OF pl(2)] and_phy [OF pl(2)] order_trans by (simp_all add: s4_def CPSWSlTransferModeSet_def mc) blast
  have m4: "val mc s4 = (val mc s AND NOT 0x81) OR mm"
    using pl(2) s1(5) K by (simp add: s4_def CPSWSlTransferModeSet_def mc and_val or_val phy_keeps_def)
  have l4: "left s4 a = 0" using s4(1) s3(2) s2(2) by (simp add: phy_keeps_def) (metis le_zero_eq)
  obtain s5 where s5: "PhyLinkStatusGet B junk base a 1000 s4 = Some (True, s5)" "phy_keeps plain val phy left s4 s5"
    using link_up [OF a l4, of 1000 junk] by auto
  let ?s = "reg_or B mc (0x20 OR 0x8000 OR 0x10000) s5"
  have run: "cpswif_phylink_config B dly junk c n s = Some (ERR_OK, ?s)"
    unfolding cpswif_phylink_config_def alive using neg s5(1) by (simp add: sl pa c CPSWSlRGMIIEnable_def mc)
  have R: "phy ?s a 4 = (phy s a 4 AND NOT 0x01E0) OR 0x01E0" "phy ?s a 9 = (phy s a 9 AND NOT 0x0300) OR ?gig"
    using or_phy [OF pl(2)] s5(2) s4(2,3) K s1(3,4) by (simp_all add: phy_keeps_def)
  have bits: "bit (phy ?s a 4) 5" "bit (phy ?s a 4) 6" "bit (phy ?s a 4) 7" "bit (phy ?s a 4) 8" "bit (phy ?s a 9) 9 \<longleftrightarrow> ?g"
    unfolding R by (simp_all add: bit_or_iff bit_and_iff bit_not_iff)
  from negotiated_best [OF bits, of "ablty a" "gbps a"] obtain m where
    m: "best_mode (\<lambda>m. advertised (phy ?s a 4) (phy ?s a 9) m \<and> offered (ablty a) (gbps a) m) m" "mm = sliver_bits m"
    unfolding mm_def by blast
  have "val mc ?s = ((val mc s AND NOT 0x81) OR sliver_bits m) OR 0x18020"
    using pl(2) s5(2) m4 m(2) by (simp add: or_val phy_keeps_def)
  then show ?thesis using run R m(1) by blast
qed

end

text \<open>A PHY that never acknowledges: what the code reads into its local variables is left there.\<close>

lemma unacked_read:
  assumes "\<And>s. fst (rd B (base + MDIO_USERACCESS0) s) = 0"
  shows "\<exists>s'. MDIOPhyRegRead B base a r d s = Some (False, d, s')"
proof -
  have w: "\<exists>s'. wait_clear B (base + MDIO_USERACCESS0) m t = Some s'" for m t
    using assms [of t] by (subst wait_clear.simps) (auto split: prod.split)
  obtain s1 where s1: "wait_clear B (base + MDIO_USERACCESS0) MDIO_USERACCESS0_GO s = Some s1" using w by blast
  obtain s2 where s2: "wait_clear B (base + MDIO_USERACCESS0) MDIO_USERACCESS0_GO
      (wr B (base + MDIO_USERACCESS0) (0 OR MDIO_USERACCESS0_GO OR phy_select a r) s1) = Some s2" using w by blast
  show ?thesis
    using s1 s2 assms [of s2] by (auto simp: MDIOPhyRegRead_def split: prod.split)
qed

lemma unacked_link:
  assumes "\<And>s. fst (rd B (base + MDIO_USERACCESS0) s) = 0"
  shows "\<exists>s'. link_loop B base a junk (Suc k) s = Some (junk AND 4 \<noteq> 0, s')"
proof (induction k arbitrary: s)
  case 0
  then show ?case using unacked_read [OF assms, of a 1 junk s] by auto
next
  case (Suc k)
  obtain s1 where "MDIOPhyRegRead B base a 1 junk s = Some (False, junk, s1)" using unacked_read [OF assms, of a 1 junk s] by blast
  then show ?case using Suc.IH [of s1] by (subst link_loop.simps) auto
qed

section \<open>The bus of the chip\<close>

text \<open>
  The access register of the management bus with the PHYs behind it: a command with the write bit
  stores the low half word, one without it loads the register; both end at once, so the GO bit reads as
  zero, and are acknowledged.  Each PHY has the registers that are written, and a negotiation that ends a
  number of delays after it was started; its status and the partner's registers show that.
\<close>

record mdio_hw =
  mregs :: "DWORD \<Rightarrow> DWORD"
  phyr :: "DWORD \<Rightarrow> DWORD \<Rightarrow> WORD"
  pleft :: "DWORD \<Rightarrow> nat"

definition phy_reg :: "(DWORD \<Rightarrow> WORD) \<Rightarrow> (DWORD \<Rightarrow> WORD) \<Rightarrow> mdio_hw \<Rightarrow> DWORD \<Rightarrow> DWORD \<Rightarrow> WORD" where
  "phy_reg ablty gbps s a r =
     (if r = 0 then phyr s a 0 AND NOT 0x8200
      else if r = 1 then (if pleft s a = 0 then 0x24 else 0)
      else if r = 5 then (if pleft s a = 0 then ablty a else 0)
      else if r = 10 then (if pleft s a = 0 then gbps a else 0) else phyr s a r)"

definition phy_write :: "(DWORD \<Rightarrow> nat) \<Rightarrow> DWORD \<Rightarrow> DWORD \<Rightarrow> WORD \<Rightarrow> mdio_hw \<Rightarrow> mdio_hw" where
  "phy_write ticks a r v s =
     (if r = 0 \<and> v AND 0x8000 \<noteq> 0 then s\<lparr>phyr := (phyr s)(a := (\<lambda>r. 0)), pleft := (pleft s)(a := ticks a)\<rparr>
      else s\<lparr>phyr := (phyr s)(a := (phyr s a)(r := v)),
             pleft := (if r = 0 \<and> v AND 0x5E00 = 0x1200 then (pleft s)(a := ticks a) else pleft s)\<rparr>)"

definition phy_delay :: "DWORD \<Rightarrow> mdio_hw \<Rightarrow> mdio_hw" where
  "phy_delay n s = s\<lparr>pleft := (\<lambda>b. pleft s b - 1)\<rparr>"

definition cmd_phy :: "DWORD \<Rightarrow> DWORD" where
  "cmd_phy x = take_bit 5 (drop_bit 16 x)"

definition cmd_reg :: "DWORD \<Rightarrow> DWORD" where
  "cmd_reg x = take_bit 5 (drop_bit 21 x)"

definition mdio_chip ::
    "(DWORD \<Rightarrow> nat) \<Rightarrow> (DWORD \<Rightarrow> WORD) \<Rightarrow> (DWORD \<Rightarrow> WORD) \<Rightarrow> DWORD \<Rightarrow> mdio_hw bus" where
  "mdio_chip ticks ablty gbps base = \<lparr>
     rd = (\<lambda>a s. (if a = base + MDIO_USERACCESS0 then mregs s a AND 0x3FFFFFFF else mregs s a, s)),
     wr = (\<lambda>a x s.
       if a \<noteq> base + MDIO_USERACCESS0 then s\<lparr>mregs := (mregs s)(a := x)\<rparr>
       else if bit x 30
       then phy_write ticks (cmd_phy x) (cmd_reg x) (ucast x) (s\<lparr>mregs := (mregs s)(a := 0x20000000)\<rparr>)
       else s\<lparr>mregs := (mregs s)(a := 0x20000000 OR ucast (phy_reg ablty gbps s (cmd_phy x) (cmd_reg x)))\<rparr>)\<rparr>"

lemma bit_30: "bit (0x40000000 :: DWORD) n \<longleftrightarrow> n = 30"
proof -
  have "push_bit 30 1 = (0x40000000 :: DWORD)" by simp
  moreover have "bit (push_bit 30 1 :: DWORD) n \<longleftrightarrow> n = 30" by (auto simp only: bit_push_bit_iff bit_1_iff) auto
  ultimately show ?thesis by (simp only:)
qed

lemma mask_5: "(0x1F :: DWORD) = mask 5"
  by (simp add: mask_eq_exp_minus_1)

lemma cmd_fields:
  assumes "unat a < 32" "unat r < 32"
  shows "cmd_phy (0 OR MDIO_USERACCESS0_GO OR phy_select a r) = a" "cmd_reg (0 OR MDIO_USERACCESS0_GO OR phy_select a r) = r"
    "cmd_phy (0x40000000 OR MDIO_USERACCESS0_GO OR phy_select a r OR ucast (v :: WORD)) = a"
    "cmd_reg (0x40000000 OR MDIO_USERACCESS0_GO OR phy_select a r OR ucast (v :: WORD)) = r"
proof -
  have b: "bit a i \<Longrightarrow> i < 5" "bit r i \<Longrightarrow> i < 5" for i
    using bits_below [of a 5 i] bits_below [of r 5 i] assms by simp_all
  note bits = bit_take_bit_iff bit_drop_bit_eq bit_or_iff bit_push_bit_iff bit_and_iff bit_mask_iff bit_ucast_iff
    write_bit_iff bit_30 bit_0_eq comp_apply bot_apply bot_bool_def
  show "cmd_phy (0 OR MDIO_USERACCESS0_GO OR phy_select a r) = a"
    unfolding cmd_phy_def phy_select_def mask_5
    by (rule bit_word_eqI) (auto simp only: bits, auto dest: b bit_imp_le_length)
  show "cmd_reg (0 OR MDIO_USERACCESS0_GO OR phy_select a r) = r"
    unfolding cmd_reg_def phy_select_def mask_5
    by (rule bit_word_eqI) (auto simp only: bits, auto dest: b bit_imp_le_length)
  show "cmd_phy (0x40000000 OR MDIO_USERACCESS0_GO OR phy_select a r OR ucast (v :: WORD)) = a"
    unfolding cmd_phy_def phy_select_def mask_5
    by (rule bit_word_eqI) (auto simp only: bits, auto dest: b bit_imp_le_length)
  show "cmd_reg (0x40000000 OR MDIO_USERACCESS0_GO OR phy_select a r OR ucast (v :: WORD)) = r"
    unfolding cmd_reg_def phy_select_def mask_5
    by (rule bit_word_eqI) (auto simp only: bits, auto dest: b bit_imp_le_length)
qed

lemma cmd_write_bit:
  "\<not> bit (0 OR MDIO_USERACCESS0_GO OR phy_select a r) 30"
  "bit (0x40000000 OR MDIO_USERACCESS0_GO OR phy_select a r OR ucast (v :: WORD)) 30"
  unfolding phy_select_def mask_5
  by (simp_all add: bit_or_iff write_bit_iff bit_30 bit_push_bit_iff bit_and_iff bit_mask_iff)

lemma cmd_data: "ucast (0x40000000 OR MDIO_USERACCESS0_GO OR phy_select a r OR ucast v) = (v :: WORD)"
proof (rule bit_word_eqI)
  fix n assume "n < LENGTH(16)"
  then show "bit (ucast (0x40000000 OR MDIO_USERACCESS0_GO OR phy_select a r OR ucast v :: DWORD) :: WORD) n = bit v n"
    by (auto simp only: bit_ucast_iff bit_or_iff write_bit_iff bit_30 phy_select_def bit_push_bit_iff bit_and_iff)
      (auto dest: bit_imp_le_length simp: possible_bit_def)
qed

lemma answer_bits:
  "(0x20000000 OR ucast w :: DWORD) AND 0x3FFFFFFF AND 0x20000000 \<noteq> 0"
  "ucast ((0x20000000 OR ucast w :: DWORD) AND 0x3FFFFFFF AND 0xFFFF) = (w :: WORD)"
proof -
  have b: "bit (0x20000000 :: DWORD) n \<longleftrightarrow> n = 29" for n
  proof -
    have "push_bit 29 1 = (0x20000000 :: DWORD)" by simp
    moreover have "bit (push_bit 29 1 :: DWORD) n \<longleftrightarrow> n = 29" by (auto simp only: bit_push_bit_iff bit_1_iff) auto
    ultimately show ?thesis by (simp only:)
  qed
  have m: "(0x3FFFFFFF :: DWORD) = mask 30" "(0xFFFF :: DWORD) = mask 16" by (simp_all add: mask_eq_exp_minus_1)
  have "bit ((0x20000000 OR ucast w :: DWORD) AND mask 30 AND 0x20000000) 29"
    by (simp only: bit_and_iff bit_or_iff b bit_mask_iff simp_thms) (simp add: possible_bit_def)
  then show "(0x20000000 OR ucast w :: DWORD) AND 0x3FFFFFFF AND 0x20000000 \<noteq> 0" unfolding m by fastforce
  show "ucast ((0x20000000 OR ucast w :: DWORD) AND 0x3FFFFFFF AND 0xFFFF) = (w :: WORD)"
    unfolding m by (rule bit_word_eqI)
      (auto simp only: bit_ucast_iff bit_and_iff bit_or_iff b bit_mask_iff, auto dest: bit_imp_le_length simp: possible_bit_def)
qed

lemma chip_wait: "wait_clear (mdio_chip T A G base) (base + MDIO_USERACCESS0) MDIO_USERACCESS0_GO s = Some s"
  by (subst wait_clear.simps) (simp add: mdio_chip_def and.assoc)

lemma chip_read:
  assumes "a < 32" "r < 32"
  shows "MDIOPhyRegRead (mdio_chip T A G base) base a r d s = Some (True, phy_reg A G s a r,
    s\<lparr>mregs := (mregs s)(base + MDIO_USERACCESS0 := 0x20000000 OR ucast (phy_reg A G s a r))\<rparr>)"
proof -
  have u: "unat a < 32" "unat r < 32" using assms by (simp_all add: word_less_nat_alt)
  have "wr (mdio_chip T A G base) (base + MDIO_USERACCESS0) (0 OR MDIO_USERACCESS0_GO OR phy_select a r) s =
    s\<lparr>mregs := (mregs s)(base + MDIO_USERACCESS0 := 0x20000000 OR ucast (phy_reg A G s a r))\<rparr>"
    unfolding mdio_chip_def using cmd_write_bit(1) [of a r] cmd_fields(1,2) [OF u]
    by (simp only: bus.simps if_False refl not_True_eq_False simp_thms)
  moreover have "rd (mdio_chip T A G base) (base + MDIO_USERACCESS0) (s\<lparr>mregs := (mregs s)(base + MDIO_USERACCESS0 := x)\<rparr>) =
      (x AND 0x3FFFFFFF, s\<lparr>mregs := (mregs s)(base + MDIO_USERACCESS0 := x)\<rparr>)" for x
    by (simp add: mdio_chip_def)
  ultimately show ?thesis
    using answer_bits [of "phy_reg A G s a r"]
    by (simp only: MDIOPhyRegRead_def chip_wait Option.bind.bind_lunit Let_def prod.case and.assoc if_True simp_thms)
qed

lemma chip_write:
  assumes "a < 32" "r < 32"
  shows "MDIOPhyRegWrite (mdio_chip T A G base) base a r v s =
    Some (phy_write T a r v (s\<lparr>mregs := (mregs s)(base + MDIO_USERACCESS0 := 0x20000000)\<rparr>))"
proof -
  have u: "unat a < 32" "unat r < 32" using assms by (simp_all add: word_less_nat_alt)
  have "wr (mdio_chip T A G base) (base + MDIO_USERACCESS0) (0x40000000 OR MDIO_USERACCESS0_GO OR phy_select a r OR ucast v) s =
    phy_write T a r v (s\<lparr>mregs := (mregs s)(base + MDIO_USERACCESS0 := 0x20000000)\<rparr>)"
    unfolding mdio_chip_def using cmd_write_bit(2) [of a r v] cmd_fields(3,4) [OF u, of v] cmd_data [of a r v]
    by (simp only: bus.simps if_True if_False refl not_True_eq_False simp_thms)
  then show ?thesis
    by (simp only: MDIOPhyRegWrite_def chip_wait Option.bind.bind_lunit Let_def)
qed

interpretation chip: mdio_bus "mdio_chip T A G base" "\<lambda>a. a \<noteq> base + MDIO_USERACCESS0" "\<lambda>a s. mregs s a" base
  "phy_reg A G" pleft phy_delay T A G for T A G base
proof
  show "\<exists>s'. MDIOPhyRegRead (mdio_chip T A G base) base a r d s = Some (True, phy_reg A G s a r, s') \<and>
      phy_keeps (\<lambda>a. a \<noteq> base + MDIO_USERACCESS0) (\<lambda>a s. mregs s a) (phy_reg A G) pleft s s'" if "a < 32" "r < 32" for a r d s
    using chip_read [OF that] by (simp add: phy_keeps_def phy_reg_def)
  show "\<exists>s'. MDIOPhyRegWrite (mdio_chip T A G base) base a r v s = Some s' \<and>
      (\<forall>b. \<forall>q \<in> {0, 4, 9}. phy_reg A G s' b q =
         (if b = a \<and> q = r then (if r = 0 then v AND NOT 0x0200 else v) else phy_reg A G s b q)) \<and>
      (r = 0 \<and> v AND 0x5E00 = 0x1200 \<longrightarrow> pleft s' a \<le> T a) \<and>
      (\<forall>x. x \<noteq> base + MDIO_USERACCESS0 \<longrightarrow> mregs s' x = mregs s x)"
    if "a < 32" "r \<in> {0, 4, 9}" "r = 0 \<Longrightarrow> v AND 0x8000 = 0" for a r v s
  proof -
    have n: "v AND NOT 0x8200 = v AND NOT 0x0200" if "v AND 0x8000 = 0"
    proof -
      have "v AND NOT 0x0200 = v AND (NOT 0x8200 OR 0x8000)" by simp
      also have "\<dots> = v AND NOT 0x8200" using that by (simp only: bit.conj_disj_distrib or.right_neutral)
      finally show ?thesis by simp
    qed
    have r: "r < 32" using that(2) by auto
    show ?thesis using chip_write [OF that(1) r, of T A G base v s] that(2,3) n
      by (auto simp: phy_write_def phy_reg_def)
  qed
qed (auto simp: mdio_chip_def phy_delay_def phy_reg_def phy_keeps_def and.assoc)

section \<open>Properties\<close>

text \<open>C25: bringing up the link of a port with a PHY that is alive and ends the negotiation within 200
  delays returns \<^verbatim>\<open>ERR_OK\<close>, having advertised all of 10/100 Mbit, and the gigabit mode only where the PHY has
  it, and restarted the negotiation; the sliver then has the best mode, by speed and then by duplex, of
  those the PHY advertises and the partner offers (the bits of 100 Mbit half duplex where there is none),
  and is connected in RGMII mode.\<close>

theorem phylink_sets_mode:
  assumes "mdio_bus B plain val base phy left dly ticks ablty gbps" and "mdio_base c = base" and "slave c n = sl"
    and "phy_addr sl = a" and "a < 32" and "sliver_base sl + CPSW_SL_MACCONTROL = mc" and "plain (base + MDIO_ALIVE)"
    and "plain mc" and "val (base + MDIO_ALIVE) s AND push_bit (unat a) 1 \<noteq> 0"
    and "phy s a 0 AND 0x4C00 = 0" and "ticks a \<le> 200"
  shows "\<exists>s' m. cpswif_phylink_config B dly junk c n s = Some (ERR_OK, s') \<and>
    phy s' a 4 = (phy s a 4 AND NOT 0x01E0) OR 0x01E0 \<and>
    phy s' a 9 = (phy s a 9 AND NOT 0x0300) OR (if phy_gbps sl = 1 then 0x200 else 0) \<and>
    best_mode (\<lambda>m. advertised (phy s' a 4) (phy s' a 9) m \<and> offered (ablty a) (gbps a) m) m \<and>
    val mc s' = ((val mc s AND NOT 0x81) OR sliver_bits m) OR 0x18020"
  using assms by (rule mdio_bus.phylink_spec)

text \<open>A board that negotiates for 7 delays, with a partner that has 100 Mbit in half duplex and 10 Mbit in both.\<close>

definition phy_board :: mdio_hw where
  "phy_board = \<lparr>mregs = (\<lambda>a. if a = 0x4A101008 then 1 else 0), phyr = (\<lambda>a r. 0), pleft = (\<lambda>a. 1000)\<rparr>"

lemma phylink_sets_mode_witness:
  "\<exists>s'. cpswif_phylink_config (mdio_chip (\<lambda>a. 7) (\<lambda>a. 0xE0) (\<lambda>a. 0) 0x4A101000) phy_delay 0 ale_inst 1 phy_board =
       Some (ERR_OK, s') \<and> mregs s' 0x4A100D84 = 0x18020"
proof -
  let ?p = "\<lparr>port_base = 0x4A100200, sliver_base = 0x4A100D80, phy_addr = 0, phy_gbps = 1\<rparr>"
  have sl: "slave ale_inst 1 = ?p" "mdio_base ale_inst = 0x4A101000" by (simp_all add: slave_def ale_inst_def)
  from phylink_sets_mode [OF chip.mdio_bus_axioms [where T = "\<lambda>a. 7" and A = "\<lambda>a. 0xE0" and G = "\<lambda>a. 0"] sl(2,1),
      where a = 0 and mc = "0x4A100D84" and s = phy_board and junk = 0]
  obtain s' m where s': "cpswif_phylink_config (mdio_chip (\<lambda>a. 7) (\<lambda>a. 0xE0) (\<lambda>a. 0) 0x4A101000) phy_delay 0
      ale_inst 1 phy_board = Some (ERR_OK, s')" and
    b: "best_mode (\<lambda>m. advertised 0x1E0 0x200 m \<and> offered 0xE0 0 m) m" and
    v: "mregs s' 0x4A100D84 = sliver_bits m OR 0x18020"
    by (auto simp: phy_board_def phy_reg_def)
  have "m = Some Fast_Half"
    using b by (cases m; cases "the m") (auto simp: best_mode_def all_modes advertised_def offered_def)
  then show ?thesis using s' v by auto
qed

text \<open>when the PHY does not acknowledge its reads, the link is reported up or down by what happens to be
  in an uninitialised local variable, and likewise the end of the negotiation.\<close>

theorem unacked_status_is_junk:
  assumes "\<forall>s. fst (rd B (base + MDIO_USERACCESS0) s) = 0" and "retries + 1 \<noteq> 0"
  shows "(\<exists>s'. PhyLinkStatusGet B junk base a retries s = Some (junk AND 4 \<noteq> 0, s')) \<and>
    (\<exists>s'. PhyAutoNegStatusGet B junk base a s = Some (junk AND 0x20 = 0x20, s'))"
proof -
  have r: "fst (rd B (base + MDIO_USERACCESS0) s) = 0" for s using assms(1) by simp
  obtain k where k: "unat (retries + 1) = Suc k" using assms(2) by (metis not0_implies_Suc unat_0_iff)
  obtain s1 where "MDIOPhyRegRead B base a 1 junk s = Some (False, junk, s1)" using unacked_read [OF r] by blast
  then show ?thesis
    using unacked_link [OF r, of a junk k s] by (auto simp: PhyLinkStatusGet_def PhyAutoNegStatusGet_def k)
qed

lemma unacked_status_is_junk_witness:
  "\<exists>s'. PhyLinkStatusGet \<lparr>rd = (\<lambda>a s. (0, s)), wr = (\<lambda>a x s. s)\<rparr> 4 0x4A101000 0 1000 () = Some (True, s')"
  using unacked_status_is_junk [of "\<lparr>rd = (\<lambda>a s. (0, s)), wr = (\<lambda>a x s. s)\<rparr>" "0x4A101000" 1000 4 0 "()"] by simp

end
