(* ===== verification/Cpdma.thy ===== *)
theory Cpdma
  imports Phy
begin

unbundle bit_operations_syntax

text \<open>
  The descriptor rings of the DMA controller, the transmission and reception of packets, and the
  initialisation of the interface, in \<^verbatim>\<open>cpswif.c\<close>.  Descriptors are words of the CPPI RAM, read and written
  through the bus.  The packet buffers of lwIP, its input function and the LEDs are
  the interface \<open>stack\<close>; a buffer is read and written as a record.  The macros that
  count statistics are empty in this configuration.
\<close>

section \<open>What the driver uses of the stack\<close>

record pbuf =
  pb_next :: DWORD
  pb_payload :: DWORD
  pb_tot_len :: WORD
  pb_len :: WORD
  pb_ref :: WORD

record 's stack =
  pget :: "DWORD \<Rightarrow> 's \<Rightarrow> pbuf"
  pset :: "DWORD \<Rightarrow> pbuf \<Rightarrow> 's \<Rightarrow> 's"
  palloc :: "'s \<Rightarrow> DWORD \<times> 's"
  pfree :: "DWORD \<Rightarrow> 's \<Rightarrow> 's"
  ethernet_input :: "DWORD \<Rightarrow> DWORD \<Rightarrow> 's \<Rightarrow> err_t \<times> 's"
  led :: "bool \<Rightarrow> DWORD \<Rightarrow> 's \<Rightarrow> 's"

text \<open>\<^verbatim>\<open>pbuf_clen\<close> and \<^verbatim>\<open>pbuf_ref\<close> of \<^verbatim>\<open>lwip/src/core/pbuf.c\<close>; the length of a chain is a byte.\<close>

partial_function (option) clen_loop :: "'s stack \<Rightarrow> DWORD \<Rightarrow> BYTE \<Rightarrow> 's \<Rightarrow> BYTE option" where
  "clen_loop P p len s = (if p = 0 then Some len else clen_loop P (pb_next (pget P p s)) (len + 1) s)"

definition pbuf_clen :: "'s stack \<Rightarrow> DWORD \<Rightarrow> 's \<Rightarrow> BYTE option" where
  "pbuf_clen P p s = clen_loop P p 0 s"

definition pbuf_ref :: "'s stack \<Rightarrow> DWORD \<Rightarrow> 's \<Rightarrow> 's" where
  "pbuf_ref P p s = (if p \<noteq> 0 then pset P p ((pget P p s)\<lparr>pb_ref := pb_ref (pget P p s) + 1\<rparr>) s else s)"

section \<open>Descriptors\<close>

abbreviation CPDMA_BUF_DESC_OWNER :: DWORD where "CPDMA_BUF_DESC_OWNER \<equiv> 0x20000000"
abbreviation CPDMA_BUF_DESC_SOP :: DWORD where "CPDMA_BUF_DESC_SOP \<equiv> 0x80000000"
abbreviation CPDMA_BUF_DESC_EOP :: DWORD where "CPDMA_BUF_DESC_EOP \<equiv> 0x40000000"
abbreviation CPDMA_BUF_DESC_EOQ :: DWORD where "CPDMA_BUF_DESC_EOQ \<equiv> 0x10000000"

text \<open>The fields of a descriptor of five words; the pointer to the next is the first.\<close>

abbreviation bd_bufptr :: "DWORD \<Rightarrow> DWORD" where "bd_bufptr bd \<equiv> bd + 4"
abbreviation bd_bufoff_len :: "DWORD \<Rightarrow> DWORD" where "bd_bufoff_len bd \<equiv> bd + 8"
abbreviation bd_flags :: "DWORD \<Rightarrow> DWORD" where "bd_flags bd \<equiv> bd + 12"
abbreviation bd_pbuf :: "DWORD \<Rightarrow> DWORD" where "bd_pbuf bd \<equiv> bd + 16"

text \<open>\<^verbatim>\<open>(SIZE_CPPI_RAM >> 1) / sizeof(cpdma_tx_bd)\<close>\<close>

definition num_bds :: nat where
  "num_bds = 0x1000 div 20"

section \<open>Filling the receive ring\<close>

fun rx_fill :: "'s bus \<Rightarrow> 's stack \<Rightarrow> nat \<Rightarrow> DWORD \<Rightarrow> DWORD \<Rightarrow> DWORD \<Rightarrow> 's \<Rightarrow> DWORD \<times> DWORD \<times> DWORD \<times> 's" where
  "rx_fill B P 0 curr_bd last_bd num s = (curr_bd, last_bd, num, s)"
| "rx_fill B P (Suc n) curr_bd last_bd num s =
     (case palloc P s of (p, s) \<Rightarrow>
      if p = 0 then (curr_bd, last_bd, num, s) else
      let s = wr B (bd_bufptr curr_bd) (pb_payload (pget P p s)) s;
          s = wr B (bd_bufoff_len curr_bd) (ucast (pb_len (pget P p s))) s;
          s = wr B (bd_flags curr_bd) CPDMA_BUF_DESC_OWNER s;
          s = wr B (bd_pbuf curr_bd) p s
      in case rd B curr_bd s of (nx, s) \<Rightarrow> rx_fill B P n nx curr_bd (num - 1) s)"

definition cpswif_rxbd_alloc :: "'s bus \<Rightarrow> 's stack \<Rightarrow> cpswinst \<Rightarrow> 's \<Rightarrow> cpswinst \<times> 's" where
  "cpswif_rxbd_alloc B P c s =
     (let r = inst_rxch c; recv_head = rx_free_head r; recv_tail = rx_recv_tail r in
      case rx_fill B P (unat (rx_free_num r)) (rx_free_head r) (rx_recv_tail r) (rx_free_num r) s of
        (curr_bd, last_bd, num, s) \<Rightarrow>
      if num = rx_free_num r then (c, s) else
      let r = r\<lparr>rx_free_num := num, rx_recv_tail := last_bd\<rparr>;
          (r, s) = (if curr_bd \<noteq> 0 then (r\<lparr>rx_free_head := curr_bd\<rparr>, s)
                    else (r, ethDMA_RxHdrDescPWr B (cpdma_base c) recv_head 0 s));
          s = wr B recv_tail recv_head s;
          s = wr B last_bd 0 s
      in case reg_test B (bd_flags recv_tail) CPDMA_BUF_DESC_EOQ s of (eoq, s) \<Rightarrow>
           (c\<lparr>inst_rxch := r\<rparr>, if eoq \<noteq> 0 then ethDMA_RxHdrDescPWr B (cpdma_base c) recv_head 0 s else s))"

section \<open>Transmission\<close>

text \<open>One descriptor for each buffer of the chain: the descriptor after the last, the last, the free count.\<close>

partial_function (option) tx_fill ::
    "'s bus \<Rightarrow> 's stack \<Rightarrow> DWORD \<Rightarrow> DWORD \<Rightarrow> DWORD \<Rightarrow> DWORD \<Rightarrow> DWORD \<Rightarrow> 's \<Rightarrow> (DWORD \<times> DWORD \<times> DWORD \<times> 's) option" where
  "tx_fill B P pbuf q curr_bd bd_end num s =
     (if q = 0 then Some (curr_bd, bd_end, num, s) else
      let s = wr B (bd_bufptr curr_bd) (pb_payload (pget P q s)) s;
          s = wr B (bd_bufoff_len curr_bd) (ucast (pb_len (pget P q s)) AND 0xFFFF) s;
          s = wr B (bd_pbuf curr_bd) pbuf s
      in case rd B curr_bd s of (nx, s) \<Rightarrow>
           tx_fill B P pbuf (pb_next (pget P q s)) nx curr_bd (num - 1) s)"

definition cpswif_transmit ::
    "'s bus \<Rightarrow> 's stack \<Rightarrow> cpswinst \<Rightarrow> DWORD \<Rightarrow> DWORD \<Rightarrow> 's \<Rightarrow> (err_t \<times> cpswinst \<times> 's) option" where
  "cpswif_transmit B P c port_num pbuf s = do {
     let t = inst_txch c;
     n \<leftarrow> pbuf_clen P pbuf s;
     if ucast n > tx_free_num t then Some (- 1, c, s) else do {
       let first = tx_free_head t;
       let s = wr B (bd_flags first) (ucast (pb_tot_len (pget P pbuf s))) s;
       let s = reg_or B (bd_flags first) (CPDMA_BUF_DESC_SOP OR CPDMA_BUF_DESC_OWNER) s;
       let s = reg_or B (bd_flags first) (push_bit 16 port_num OR 0x100000) s;
       (curr_bd, bd_end, num, s) \<leftarrow> tx_fill B P pbuf pbuf first 0 (tx_free_num t) s;
       let s = wr B bd_end 0 s;
       let s = reg_or B (bd_flags bd_end) CPDMA_BUF_DESC_EOP s;
       let s = reg_and B (bd_flags bd_end) (NOT CPDMA_BUF_DESC_EOQ) s;
       let s = (if tx_send_tail t = 0 then ethDMA_TxHdrDescPWr B (cpdma_base c) first 0 s else
         let s = wr B (tx_send_tail t) first s in
         case reg_test B (bd_flags (tx_send_tail t)) CPDMA_BUF_DESC_EOQ s of (eoq, s) \<Rightarrow>
           if eoq \<noteq> 0 then ethDMA_TxHdrDescPWr B (cpdma_base c) first 0 s else s);
       Some (0, c\<lparr>inst_txch := t\<lparr>tx_free_num := num, tx_free_head := curr_bd, tx_send_tail := bd_end\<rparr>\<rparr>, s) } }"

text \<open>A packet that is too short is made as long as the minimum, over all the buffers of its chain.\<close>

partial_function (option) pad_loop :: "'s stack \<Rightarrow> DWORD \<Rightarrow> 's \<Rightarrow> (DWORD \<times> 's) option" where
  "pad_loop P p s =
     (let nx = pb_next (pget P p s) in
      if nx = 0 then Some (p, s) else
      pad_loop P nx (pset P nx ((pget P nx s)\<lparr>pb_tot_len := pb_tot_len (pget P p s) - pb_len (pget P p s)\<rparr>) s))"

definition cpswif_output ::
    "'s bus \<Rightarrow> 's stack \<Rightarrow> cpswinst \<Rightarrow> DWORD \<Rightarrow> DWORD \<Rightarrow> 's \<Rightarrow> (err_t \<times> cpswinst \<times> 's) option" where
  "cpswif_output B P c port_num p s = do {
     (p, s) \<leftarrow> (if pb_tot_len (pget P p s) < 60 then do {
         (p, s) \<leftarrow> pad_loop P p (pset P p ((pget P p s)\<lparr>pb_tot_len := 60\<rparr>) s);
         Some (p, pset P p ((pget P p s)\<lparr>pb_len := pb_tot_len (pget P p s)\<rparr>) s) }
       else Some (p, s));
     cpswif_transmit B P c port_num p (pbuf_ref P p s) }"

section \<open>The rings at the start\<close>

fun init_bds :: "'s bus \<Rightarrow> DWORD \<Rightarrow> nat \<Rightarrow> DWORD \<Rightarrow> DWORD \<Rightarrow> 's \<Rightarrow> DWORD \<times> 's" where
  "init_bds B flags 0 bd prev s = (prev, s)"
| "init_bds B flags (Suc n) bd prev s =
     (let s = wr B bd (bd + 20) s;
          s = wr B (bd_flags bd) flags s
      in case rd B bd s of (nx, s) \<Rightarrow> init_bds B flags n nx bd s)"

definition cpswif_cpdma_init :: "'s bus \<Rightarrow> 's stack \<Rightarrow> cpswinst \<Rightarrow> 's \<Rightarrow> cpswinst \<times> 's" where
  "cpswif_cpdma_init B P c s =
     (let tx = cppi_ram_base c; rx = cppi_ram_base c + 0x1000 in
      case init_bds B 0 num_bds tx 0 s of (last_txbd, s) \<Rightarrow>
      let s = wr B last_txbd tx s in
      case init_bds B CPDMA_BUF_DESC_OWNER num_bds rx 0 s of (last_rxbd, s) \<Rightarrow>
      let s = wr B last_rxbd rx s;
          c = c\<lparr>inst_txch := \<lparr>tx_free_head = tx, tx_send_head = tx, tx_send_tail = 0, tx_free_num = of_nat num_bds\<rparr>,
                inst_rxch := \<lparr>rx_free_head = rx, rx_recv_head = rx, rx_recv_tail = last_rxbd,
                  rx_free_num = of_nat num_bds\<rparr>\<rparr>
      in case cpswif_rxbd_alloc B P c s of (c, s) \<Rightarrow>
      let s = wr B last_rxbd 0 s
      in (c, ethDMA_RxHdrDescPWr B (cpdma_base c) (rx_recv_head (inst_rxch c)) 0 s))"

section \<open>The interrupt service routines\<close>

partial_function (option) rx_loop :: "'s bus \<Rightarrow> 's stack \<Rightarrow> cpswinst \<Rightarrow> DWORD \<Rightarrow> 's \<Rightarrow> (cpswinst \<times> 's) option" where
  "rx_loop B P c curr_bd s =
     (case rd B (bd_flags curr_bd) s of (flags, s) \<Rightarrow>
      if flags AND CPDMA_BUF_DESC_OWNER = CPDMA_BUF_DESC_OWNER then Some (c, s) else
      case rd B (bd_flags curr_bd) s of (v, s) \<Rightarrow>
      let from_port = drop_bit 16 (v AND 0x70000) in
      case rd B (bd_flags curr_bd) s of (v, s) \<Rightarrow>
      let tot_len = v AND 0xFFFF in
      case rd B (bd_pbuf curr_bd) s of (p, s) \<Rightarrow>
      let s = pset P p ((pget P p s)\<lparr>pb_len := ucast tot_len, pb_tot_len := ucast tot_len\<rparr>) s;
          s = wr B (bd_flags curr_bd) CPDMA_BUF_DESC_OWNER s;
          if_num = from_port - 1 in
      case ethernet_input P p if_num s of (err, s) \<Rightarrow>
      let s = ethDMA_RxCPWr B (cpdma_base c) 0 curr_bd s in
      case rd B curr_bd s of (nx, s) \<Rightarrow>
      let r = inst_rxch c; r = r\<lparr>rx_free_num := rx_free_num r + 1\<rparr> in
      if nx = 0 then Some (c\<lparr>inst_rxch := r\<lparr>rx_recv_head := rx_free_head r\<rparr>\<rparr>, s)
      else rx_loop B P (c\<lparr>inst_rxch := r\<lparr>rx_recv_head := nx\<rparr>\<rparr>) nx s)"

definition eth0_rx_isr :: "'s bus \<Rightarrow> 's stack \<Rightarrow> cpswinst \<Rightarrow> 's \<Rightarrow> (cpswinst \<times> 's) option" where
  "eth0_rx_isr B P c s = do {
     (c, s) \<leftarrow> rx_loop B P c (rx_recv_head (inst_rxch c)) (led P True 0x800000 s);
     let s = ethDMA_EOIVecWr B (cpdma_base c) 1 s;
     let (c, s) = cpswif_rxbd_alloc B P c s;
     Some (c, led P False 0x800000 s) }"

text \<open>Waiting for the DMA controller to give a descriptor back; the count is shared by all the packets.\<close>

partial_function (option) owner_wait :: "'s bus \<Rightarrow> DWORD \<Rightarrow> DWORD \<Rightarrow> 's \<Rightarrow> (DWORD \<times> 's) option" where
  "owner_wait B bd cnt s =
     (case reg_test B (bd_flags bd) CPDMA_BUF_DESC_OWNER s of (v, s) \<Rightarrow>
      if v \<noteq> CPDMA_BUF_DESC_OWNER then Some (cnt, s)
      else if cnt - 1 = 0 then Some (0, s) else owner_wait B bd (cnt - 1) s)"

partial_function (option) eop_walk :: "'s bus \<Rightarrow> DWORD \<Rightarrow> DWORD \<Rightarrow> 's \<Rightarrow> (DWORD \<times> DWORD \<times> 's) option" where
  "eop_walk B bd num s =
     (case reg_test B (bd_flags bd) CPDMA_BUF_DESC_EOP s of (v, s) \<Rightarrow>
      if v = CPDMA_BUF_DESC_EOP then Some (bd, num, s) else
      case rd B bd s of (nx, s) \<Rightarrow>
      if num + 1 = of_nat num_bds then Some (nx, num + 1, s) else eop_walk B nx (num + 1) s)"

partial_function (option) tx_loop :: "'s bus \<Rightarrow> 's stack \<Rightarrow> cpswinst \<Rightarrow> DWORD \<Rightarrow> DWORD \<Rightarrow> 's \<Rightarrow> (cpswinst \<times> 's) option" where
  "tx_loop B P c send_head cnt s =
     (case reg_test B (bd_flags send_head) CPDMA_BUF_DESC_SOP s of (v, s) \<Rightarrow>
      if v = 0 then Some (c, s) else do {
        (cnt, s) \<leftarrow> owner_wait B send_head cnt s;
        let t = inst_txch c;
        (curr_bd, num, s) \<leftarrow> eop_walk B send_head (tx_free_num t + 1) s;
        let s = reg_and B (bd_flags send_head) (NOT CPDMA_BUF_DESC_SOP) s;
        let s = reg_and B (bd_flags curr_bd) (NOT CPDMA_BUF_DESC_EOP) s;
        let (nx, s) = rd B curr_bd s;
        let (hd, s) = (if nx = 0 then (tx_free_head t, s) else rd B curr_bd s);
        let s = ethDMA_TxCPWr B (cpdma_base c) 0 curr_bd s;
        let (p, s) = rd B (bd_pbuf curr_bd) s;
        let s = pfree P p s;
        tx_loop B P (c\<lparr>inst_txch := t\<lparr>tx_free_num := num, tx_send_head := hd\<rparr>\<rparr>) hd cnt s })"

definition eth0_tx_isr :: "'s bus \<Rightarrow> 's stack \<Rightarrow> cpswinst \<Rightarrow> 's \<Rightarrow> (cpswinst \<times> 's) option" where
  "eth0_tx_isr B P c s = do {
     (c, s) \<leftarrow> tx_loop B P c (tx_send_head (inst_txch c)) 0xFFFF (led P True 0x1000000 s);
     let s = ethDMA_EOIVecWr B (cpdma_base c) 2 s;
     let (c, s) = cpswif_rxbd_alloc B P c s;
     Some (c, led P False 0x1000000 s) }"

section \<open>The addresses of the descriptors\<close>

text \<open>The descriptor at index i of a ring, its index taken round the ring.\<close>

definition bdx :: "DWORD \<Rightarrow> nat \<Rightarrow> DWORD" where
  "bdx b i = b + 20 * of_nat (i mod num_bds)"

lemma num_bds: "num_bds = 204"
  by (simp add: num_bds_def)

lemma unat_plus_of_nat: "unat b + n < 2 ^ 32 \<Longrightarrow> unat (b + of_nat n :: DWORD) = unat b + n"
  by (simp add: unat_word_ariths unat_of_nat take_bit_nat_eq_self)

lemma bdx_unat:
  "unat b + 0x2000 \<le> 2 ^ 32 \<Longrightarrow> k < 20 \<Longrightarrow> unat (bdx b i + of_nat k) = unat b + 20 * (i mod num_bds) + k"
proof -
  assume b: "unat b + 0x2000 \<le> 2 ^ 32" and k: "k < 20"
  have m: "i mod num_bds < 204" by (simp add: num_bds)
  have "bdx b i + of_nat k = b + of_nat (20 * (i mod num_bds) + k)" by (simp add: bdx_def)
  moreover have "unat (b + of_nat (20 * (i mod num_bds) + k)) = unat b + (20 * (i mod num_bds) + k)"
    by (rule unat_plus_of_nat) (use b k m in linarith)
  ultimately show ?thesis by (simp add: add.assoc)
qed

lemma bdx_inj:
  assumes "unat b + 0x2000 \<le> 2 ^ 32" "k < 20" "l < 20"
  shows "bdx b i + of_nat k = bdx b j + of_nat l \<longleftrightarrow> i mod num_bds = j mod num_bds \<and> k = l"
proof
  assume "bdx b i + of_nat k = bdx b j + of_nat l"
  then have "20 * (i mod num_bds) + k = 20 * (j mod num_bds) + l"
    using bdx_unat [OF assms(1,2), of i] bdx_unat [OF assms(1,3), of j] by simp
  moreover have "20 * x + k = 20 * y + l \<Longrightarrow> x = y \<and> k = l" for x y using assms(2,3) by presburger
  ultimately show "i mod num_bds = j mod num_bds \<and> k = l" by blast
qed (auto simp: bdx_def)

lemma bdx_eq: "unat b + 0x2000 \<le> 2 ^ 32 \<Longrightarrow> bdx b i = bdx b j \<longleftrightarrow> i mod num_bds = j mod num_bds"
  using bdx_inj [of b 0 0 i j] by simp

lemma bdx_ne:
  assumes "unat b + 0x2000 \<le> 2 ^ 32"
  shows "bdx b i + 4 \<noteq> bdx b j" "bdx b i + 8 \<noteq> bdx b j" "bdx b i + 12 \<noteq> bdx b j" "bdx b i + 16 \<noteq> bdx b j"
    "bdx b i + 8 \<noteq> bdx b j + 4" "bdx b i + 12 \<noteq> bdx b j + 4" "bdx b i + 16 \<noteq> bdx b j + 4"
    "bdx b i + 12 \<noteq> bdx b j + 8" "bdx b i + 16 \<noteq> bdx b j + 8" "bdx b i + 16 \<noteq> bdx b j + 12"
  using bdx_inj [OF assms, of 4 0 i j] bdx_inj [OF assms, of 8 0 i j]
    bdx_inj [OF assms, of 12 0 i j] bdx_inj [OF assms, of 16 0 i j]
    bdx_inj [OF assms, of 8 4 i j] bdx_inj [OF assms, of 12 4 i j] bdx_inj [OF assms, of 16 4 i j]
    bdx_inj [OF assms, of 12 8 i j] bdx_inj [OF assms, of 16 8 i j] bdx_inj [OF assms, of 16 12 i j]
  by simp_all

lemma ring_apart: "i < num_bds \<Longrightarrow> j < num_bds \<Longrightarrow> (f + i) mod num_bds = (f + j) mod num_bds \<longleftrightarrow> i = j"
proof -
  have w: "i = j" if "i \<le> j" "j < num_bds" "(f + j) mod num_bds = (f + i) mod num_bds" for i j
  proof -
    have "num_bds dvd (f + j) - (f + i)" using that by (subst mod_eq_dvd_iff_nat [symmetric]) simp_all
    then have "num_bds dvd j - i" by simp
    then show "i = j" using that nat_dvd_not_less [of "j - i" num_bds] by fastforce
  qed
  assume "i < num_bds" "j < num_bds"
  then show ?thesis using w [of i j] w [of j i] by (metis nle_le)
qed

lemma bdx_cong: "i mod num_bds = j mod num_bds \<Longrightarrow> bdx b i = bdx b j"
  by (simp add: bdx_def)

lemma ring_ex: "\<exists>j < num_bds. (f + j) mod num_bds = i mod num_bds"
proof -
  let ?j = "(i + (num_bds - f mod num_bds)) mod num_bds"
  have lt: "f mod num_bds < num_bds" by (simp add: num_bds)
  have f: "f = num_bds * (f div num_bds) + f mod num_bds" by simp
  have "(f + ?j) mod num_bds = (f + (i + (num_bds - f mod num_bds))) mod num_bds" by (simp add: mod_add_right_eq)
  also have "f + (i + (num_bds - f mod num_bds)) = i + num_bds * (f div num_bds + 1)"
    unfolding distrib_left mult_1_right using lt f by linarith
  also have "\<dots> mod num_bds = i mod num_bds" by (rule mod_mult_self2)
  finally have "(f + ?j) mod num_bds = i mod num_bds" .
  moreover have "?j < num_bds" by (simp add: num_bds)
  ultimately show ?thesis by blast
qed

lemma ring_Suc: "i mod num_bds = j mod num_bds \<Longrightarrow> (i + 1) mod num_bds = (j + 1) mod num_bds"
  by (metis mod_add_left_eq)

lemma eop_bit: "((x OR CPDMA_BUF_DESC_EOP) AND NOT CPDMA_BUF_DESC_EOQ) AND CPDMA_BUF_DESC_EOP \<noteq> 0" for x :: DWORD
proof -
  have b: "bit (0x10000000 :: DWORD) n \<longleftrightarrow> n = 28" for n
  proof -
    have "push_bit 28 1 = (0x10000000 :: DWORD)" by simp
    moreover have "bit (push_bit 28 1 :: DWORD) n \<longleftrightarrow> n = 28" by (auto simp only: bit_push_bit_iff bit_1_iff) auto
    ultimately show ?thesis by (simp only:)
  qed
  have "bit (((x OR CPDMA_BUF_DESC_EOP) AND NOT CPDMA_BUF_DESC_EOQ) AND CPDMA_BUF_DESC_EOP) 30"
    by (simp only: bit_and_iff bit_or_iff bit_not_iff bit_30 b simp_thms) (simp add: possible_bit_def)
  then show ?thesis by fastforce
qed

section \<open>The ring of the transmitter\<close>

text \<open>A chain of buffers.\<close>

fun pbuf_chain :: "'s stack \<Rightarrow> 's \<Rightarrow> DWORD \<Rightarrow> DWORD list \<Rightarrow> bool" where
  "pbuf_chain P s p [] \<longleftrightarrow> p = 0"
| "pbuf_chain P s p (q # qs) \<longleftrightarrow> p = q \<and> q \<noteq> 0 \<and> pbuf_chain P s (pb_next (pget P q s)) qs"

text \<open>
  The invariant of the ring, with the first free descriptor at index f and k free ones: every descriptor
  points to the next, round the ring, but the last one handed to the DMA controller, which is the one
  before the first free one.
\<close>

definition tx_ring :: "(DWORD \<Rightarrow> 's \<Rightarrow> DWORD) \<Rightarrow> cpswinst \<Rightarrow> 's \<Rightarrow> nat \<Rightarrow> nat \<Rightarrow> bool" where
  "tx_ring val c s f k \<longleftrightarrow>
     (let b = cppi_ram_base c; t = inst_txch c in
      tx_free_head t = bdx b f \<and> tx_free_num t = of_nat k \<and> k \<le> num_bds \<and>
      (\<forall>j < num_bds - 1. val (bdx b (f + j)) s = bdx b (f + j + 1)) \<and>
      (if tx_send_tail t = 0 then val (bdx b (f + num_bds - 1)) s = bdx b (f + num_bds)
       else tx_send_tail t = bdx b (f + num_bds - 1) \<and> val (bdx b (f + num_bds - 1)) s = 0))"

text \<open>The first flags word of a packet of a given length for a given port.\<close>

definition tx_header :: "WORD \<Rightarrow> DWORD \<Rightarrow> DWORD" where
  "tx_header tot port_num = (ucast tot OR (CPDMA_BUF_DESC_SOP OR CPDMA_BUF_DESC_OWNER)) OR (push_bit 16 port_num OR 0x100000)"

locale ring_mem = plain_regs B plain val
  for B :: "'s bus" and plain val +
  fixes P :: "'s stack" and b :: DWORD and hdp :: DWORD
  assumes no_wrap: "unat b + 0x2000 \<le> 2 ^ 32" and base_nz: "b \<noteq> 0"
    and ram_plain: "k < 0x1000 \<Longrightarrow> plain (b + of_nat k)"
    and hdp_plain: "plain hdp" and hdp_apart: "k < 0x1000 \<Longrightarrow> hdp \<noteq> b + of_nat k"
    and pget_wr: "plain a \<Longrightarrow> pget P q (wr B a x s) = pget P q s"
    and pget_pset: "pget P q (pset P r y s) = (if q = r then y else pget P q s)"
    and pset_val: "plain a \<Longrightarrow> val a (pset P r y s) = val a s"
    and palloc_val: "plain a \<Longrightarrow> val a (snd (palloc P s)) = val a s"
begin

lemma field_ram: "k < 20 \<Longrightarrow> \<exists>n < 0x1000. bdx b i + of_nat k = b + of_nat n"
proof -
  assume k: "k < 20"
  have "i mod num_bds < 204" by (simp add: num_bds)
  then have "20 * (i mod num_bds) + k < 0x1000" using k by linarith
  moreover have "bdx b i + of_nat k = b + of_nat (20 * (i mod num_bds) + k)" by (simp add: bdx_def add.assoc)
  ultimately show ?thesis by blast
qed

lemma field_plain_nat: "k < 20 \<Longrightarrow> plain (bdx b i + of_nat k) \<and> hdp \<noteq> bdx b i + of_nat k"
  using field_ram [of k i] ram_plain hdp_apart by metis

lemma field_plain: "plain (bdx b i)" "plain (bdx b i + 4)" "plain (bdx b i + 8)" "plain (bdx b i + 12)" "plain (bdx b i + 16)"
  using field_plain_nat [of 0 i] field_plain_nat [of 4 i] field_plain_nat [of 8 i] field_plain_nat [of 12 i]
    field_plain_nat [of 16 i] by simp_all

lemma field_not_hdp: "hdp \<noteq> bdx b i" "hdp \<noteq> bdx b i + 4" "hdp \<noteq> bdx b i + 8" "hdp \<noteq> bdx b i + 12" "hdp \<noteq> bdx b i + 16"
  using field_plain_nat [of 0 i] field_plain_nat [of 4 i] field_plain_nat [of 8 i] field_plain_nat [of 12 i]
    field_plain_nat [of 16 i] by simp_all

lemmas fields = bdx_eq [OF no_wrap] bdx_ne [OF no_wrap] bdx_ne [OF no_wrap, THEN not_sym] field_not_hdp field_not_hdp [THEN not_sym]

lemma pbuf_chain_wr: "plain a \<Longrightarrow> pbuf_chain P (wr B a x s) p qs = pbuf_chain P s p qs"
  by (induction qs arbitrary: p) (simp_all add: pget_wr)

lemma wr_at: "plain a \<Longrightarrow> plain a' \<Longrightarrow> val a (wr B a' x s) = (if a = a' then x else val a s)"
  using wr_val [of a a'] by auto

text \<open>
  Filling descriptors from index i on: the fields of each are set from its buffer, and no word but these
  fields changes.
\<close>

definition filled :: "'s \<Rightarrow> 's \<Rightarrow> DWORD \<Rightarrow> nat \<Rightarrow> DWORD list \<Rightarrow> bool" where
  "filled s s' p i qs \<longleftrightarrow>
     (\<forall>j < length qs. val (bdx b (i + j) + 4) s' = pb_payload (pget P (qs ! j) s) \<and>
        val (bdx b (i + j) + 8) s' = ucast (pb_len (pget P (qs ! j) s)) AND 0xFFFF \<and>
        val (bdx b (i + j) + 16) s' = p) \<and>
     (\<forall>a. plain a \<longrightarrow> (\<forall>j < length qs. a \<noteq> bdx b (i + j) + 4 \<and> a \<noteq> bdx b (i + j) + 8 \<and> a \<noteq> bdx b (i + j) + 16) \<longrightarrow>
        val a s' = val a s) \<and>
     (\<forall>q. pget P q s' = pget P q s)"

lemma tx_fill_ok:
  "pbuf_chain P s q qs \<Longrightarrow> length qs \<le> num_bds \<Longrightarrow>
   (\<forall>j < length qs. val (bdx b (i + j)) s = bdx b (i + j + 1)) \<Longrightarrow>
   \<exists>s'. tx_fill B P p q (bdx b i) prev num s = Some (bdx b (i + length qs),
     if qs = [] then prev else bdx b (i + length qs - 1), num - of_nat (length qs), s') \<and> filled s s' p i qs"
proof (induction qs arbitrary: q i prev num s)
  case Nil
  then show ?case by (subst tx_fill.simps) (simp add: filled_def)
next
  case (Cons x qs)
  define s1 where "s1 = wr B (bdx b i + 16) p (wr B (bdx b i + 8) (ucast (pb_len (pget P x s)) AND 0xFFFF)
    (wr B (bdx b i + 4) (pb_payload (pget P x s)) s))"
  have x: "q = x" "x \<noteq> 0" "pbuf_chain P s1 (pb_next (pget P x s)) qs" and pg: "pget P r s1 = pget P r s" for r
    using Cons.prems(1) by (simp_all add: s1_def pbuf_chain_wr pget_wr field_plain)
  have v1: "val a s1 = (if a = bdx b i + 16 then p else if a = bdx b i + 8 then ucast (pb_len (pget P x s)) AND 0xFFFF
      else if a = bdx b i + 4 then pb_payload (pget P x s) else val a s)" if "plain a" for a
    using that by (simp add: s1_def wr_at field_plain)
  have nx: "rd B (bdx b i) s1 = (bdx b (i + 1), s1)"
    using Cons.prems(3) by (auto simp: rd_plain field_plain v1 fields)
  have ap: "j < length qs \<Longrightarrow> (i + 1 + j) mod num_bds \<noteq> i mod num_bds" for j
    using ring_apart [of "1 + j" 0 i] Cons.prems(2) by (simp add: num_bds)
  have lk: "\<forall>j < length qs. val (bdx b (i + 1 + j)) s1 = bdx b (i + 1 + j + 1)"
    using Cons.prems(3) ap by (auto simp: v1 field_plain fields)
  have l: "length qs \<le> num_bds" using Cons.prems(2) by simp
  obtain s' where s': "tx_fill B P p (pb_next (pget P x s)) (bdx b (i + 1)) (bdx b i) (num - 1) s1 =
      Some (bdx b (i + 1 + length qs), if qs = [] then bdx b i else bdx b (i + 1 + length qs - 1),
        num - 1 - of_nat (length qs), s')" "filled s1 s' p (i + 1) qs"
    using Cons.IH [OF x(3) l lk] by blast
  have run: "tx_fill B P p q (bdx b i) prev num s = tx_fill B P p (pb_next (pget P x s)) (bdx b (i + 1)) (bdx b i) (num - 1) s1"
    using x(1,2) nx by (subst tx_fill.simps) (simp add: s1_def Let_def pget_wr field_plain)
  have F: "\<forall>j < length qs. val (bdx b (i + 1 + j) + 4) s' = pb_payload (pget P (qs ! j) s) \<and>
      val (bdx b (i + 1 + j) + 8) s' = ucast (pb_len (pget P (qs ! j) s)) AND 0xFFFF \<and>
      val (bdx b (i + 1 + j) + 16) s' = p"
    "\<forall>a. plain a \<longrightarrow> (\<forall>j < length qs. a \<noteq> bdx b (i + 1 + j) + 4 \<and> a \<noteq> bdx b (i + 1 + j) + 8 \<and>
      a \<noteq> bdx b (i + 1 + j) + 16) \<longrightarrow> val a s' = val a s1"
    "\<forall>r. pget P r s' = pget P r s" using s'(2) pg by (simp_all add: filled_def)
  have old: "val (bdx b i + 4) s' = val (bdx b i + 4) s1" "val (bdx b i + 8) s' = val (bdx b i + 8) s1"
    "val (bdx b i + 16) s' = val (bdx b i + 16) s1"
    using F(2) ap [THEN not_sym] by (simp_all add: field_plain fields)
  have "filled s s' p i (x # qs)"
    unfolding filled_def
  proof (intro conjI allI impI)
    fix j assume j: "j < length (x # qs)"
    show "val (bdx b (i + j) + 4) s' = pb_payload (pget P ((x # qs) ! j) s)"
      using j F(1) old v1 by (cases j) (auto simp: field_plain fields)
    show "val (bdx b (i + j) + 8) s' = ucast (pb_len (pget P ((x # qs) ! j) s)) AND 0xFFFF"
      using j F(1) old v1 by (cases j) (auto simp: field_plain fields)
    show "val (bdx b (i + j) + 16) s' = p"
      using j F(1) old v1 by (cases j) (auto simp: field_plain fields)
  next
    fix a assume a: "plain a" "\<forall>j < length (x # qs). a \<noteq> bdx b (i + j) + 4 \<and> a \<noteq> bdx b (i + j) + 8 \<and> a \<noteq> bdx b (i + j) + 16"
    have "a \<noteq> bdx b i + 4 \<and> a \<noteq> bdx b i + 8 \<and> a \<noteq> bdx b i + 16" using a(2) [rule_format, of 0] by simp
    moreover have "\<forall>j < length qs. a \<noteq> bdx b (i + 1 + j) + 4 \<and> a \<noteq> bdx b (i + 1 + j) + 8 \<and> a \<noteq> bdx b (i + 1 + j) + 16"
      using a(2) [rule_format, of "Suc j" for j] by simp
    ultimately show "val a s' = val a s" using F(2) a(1) v1 [OF a(1)] by simp
  next
    show "pget P r s' = pget P r s" for r using F(3) by simp
  qed
  then show ?case using run s'(1) by (auto simp: diff_diff_add add.commute)
qed

lemma bdx_nz: "bdx b i \<noteq> 0"
proof -
  have "0 < unat b" using base_nz by (simp add: unat_gt_0)
  then have "0 < unat (bdx b i + of_nat 0)" using bdx_unat [OF no_wrap, of 0 i] by simp
  then show ?thesis by auto
qed

lemma clen_chain: "pbuf_chain P s q qs \<Longrightarrow> clen_loop P q n s = Some (n + of_nat (length qs))"
proof (induction qs arbitrary: q n)
  case Nil
  then show ?case by (subst clen_loop.simps) simp
next
  case (Cons x qs)
  then have "clen_loop P q n s = clen_loop P (pb_next (pget P x s)) (n + 1) s" by (subst clen_loop.simps) simp
  then show ?case using Cons by (simp add: add.assoc)
qed

lemma transmit_spec:
  fixes port_num :: DWORD
  assumes r: "tx_ring val c s f k" and b: "cppi_ram_base c = b" and h: "cpdma_base c + 0x200 = hdp"
    and ch: "pbuf_chain P s p qs" and m: "length qs = m" "0 < m" "m \<le> k" "m < num_bds"
  defines "hdr \<equiv> tx_header (pb_tot_len (pget P p s)) port_num"
  defines "tail \<equiv> tx_send_tail (inst_txch c)"
  shows "\<exists>c' s'. cpswif_transmit B P c port_num p s = Some (0, c', s') \<and> tx_ring val c' s' (f + m) (k - m) \<and>
    (\<forall>j < m. val (bdx b (f + j) + 4) s' = pb_payload (pget P (qs ! j) s) \<and>
       val (bdx b (f + j) + 8) s' = ucast (pb_len (pget P (qs ! j) s)) AND 0xFFFF \<and>
       val (bdx b (f + j) + 16) s' = p) \<and>
    val (bdx b f + 12) s' = (if m = 1 then (hdr OR CPDMA_BUF_DESC_EOP) AND NOT CPDMA_BUF_DESC_EOQ else hdr) \<and>
    val (bdx b (f + m - 1) + 12) s' AND CPDMA_BUF_DESC_EOP \<noteq> 0 \<and>
    (tail \<noteq> 0 \<longrightarrow> val tail s' = bdx b f) \<and>
    val hdp s' = (if tail = 0 \<or> val (tail + 12) s AND CPDMA_BUF_DESC_EOQ \<noteq> 0 then bdx b f else val hdp s)"
proof -
  have t: "tx_free_head (inst_txch c) = bdx b f" "tx_free_num (inst_txch c) = of_nat k" "k \<le> 204"
    "\<forall>j < num_bds - 1. val (bdx b (f + j)) s = bdx b (f + j + 1)"
    "tail \<noteq> 0 \<Longrightarrow> tail = bdx b (203 + f) \<and> val (bdx b (203 + f)) s = 0"
    "tail = 0 \<Longrightarrow> val (bdx b (203 + f)) s = bdx b (f + 204)"
    using r by (auto simp: tx_ring_def b Let_def num_bds tail_def split: if_splits)
  have m': "m \<le> 203" using m(4) by (simp add: num_bds)
  define s1 where "s1 = reg_or B (bdx b f + 12) (push_bit 16 port_num OR 0x100000)
    (reg_or B (bdx b f + 12) (CPDMA_BUF_DESC_SOP OR CPDMA_BUF_DESC_OWNER)
      (wr B (bdx b f + 12) (ucast (pb_tot_len (pget P p s))) s))"
  have v1: "val a s1 = (if a = bdx b f + 12 then hdr else val a s)" if "plain a" for a
    using that by (auto simp: s1_def or_val wr_at field_plain hdr_def tx_header_def)
  have pg1: "pget P q s1 = pget P q s" for q
    by (simp add: s1_def reg_or_def rd_plain field_plain pget_wr)
  have ch1: "pbuf_chain P s1 q qs = pbuf_chain P s q qs" for q qs
    by (simp add: s1_def reg_or_def rd_plain field_plain pbuf_chain_wr)
  have l1: "\<forall>j < length qs. val (bdx b (f + j)) s1 = bdx b (f + j + 1)"
    using t(4) m' m(1) by (auto simp: v1 field_plain fields num_bds)
  obtain s2 where s2: "tx_fill B P p p (bdx b f) 0 (of_nat k) s1 = Some (bdx b (f + m),
      bdx b (f + m - 1), of_nat k - of_nat m, s2)" "filled s1 s2 p f qs"
    using tx_fill_ok [of s1 p qs f p 0 "of_nat k"] ch ch1 l1 m by (auto simp: num_bds)
  have F: "val (bdx b (f + j) + 4) s2 = pb_payload (pget P (qs ! j) s)"
      "val (bdx b (f + j) + 8) s2 = ucast (pb_len (pget P (qs ! j) s)) AND 0xFFFF"
      "val (bdx b (f + j) + 16) s2 = p" if "j < m" for j
    using s2(2) that m(1) pg1 by (simp_all add: filled_def)
  have N: "val (bdx b j) s2 = val (bdx b j) s" "val (bdx b j + 12) s2 = val (bdx b j + 12) s1" "val hdp s2 = val hdp s" for j
    using s2(2) v1 by (simp_all add: filled_def field_plain fields hdp_plain)
  define e where "e = f + m - 1"
  define s3 where "s3 = reg_and B (bdx b e + 12) (NOT CPDMA_BUF_DESC_EOQ) (reg_or B (bdx b e + 12) CPDMA_BUF_DESC_EOP
    (wr B (bdx b e) 0 s2))"
  have v3: "val a s3 = (if a = bdx b e then 0 else if a = bdx b e + 12 then (val a s2 OR CPDMA_BUF_DESC_EOP) AND NOT CPDMA_BUF_DESC_EOQ
      else val a s2)" if "plain a" for a
    using that by (auto simp: s3_def or_val and_val wr_at field_plain fields)
  let ?kick = "\<lambda>s. wr B hdp (bdx b f) s"
  define eoq where "eoq = (tail = 0 \<or> val (tail + 12) s AND CPDMA_BUF_DESC_EOQ \<noteq> 0)"
  have e_tail: "(203 + f) mod num_bds \<noteq> e mod num_bds"
    using ring_apart [of 203 "m - 1" f] m(2) m' by (simp add: num_bds e_def add.commute)
  have tf: "(203 + f) mod num_bds \<noteq> f mod num_bds" using ring_apart [of 203 0 f] by (simp add: num_bds add.commute)
  define s4 where "s4 = (let s = (if tail = 0 then s3 else wr B tail (bdx b f) s3) in if eoq then ?kick s else s)"
  have v4: "val a s4 = (if a = hdp \<and> eoq then bdx b f else if tail \<noteq> 0 \<and> a = tail then bdx b f else val a s3)" if "plain a" for a
    using that t(5) by (auto simp: s4_def Let_def wr_at field_plain hdp_plain fields)
  have tail_eoq: "val (tail + 12) s3 = val (tail + 12) s" if "tail \<noteq> 0"
    using t(5) [OF that] e_tail tf by (simp add: v3 N(2) v1 field_plain fields)
  define c' where "c' = c\<lparr>inst_txch := (inst_txch c)\<lparr>tx_free_num := of_nat k - of_nat m, tx_free_head := bdx b (f + m),
    tx_send_tail := bdx b e\<rparr>\<rparr>"
  have clen: "pbuf_clen P p s = Some (of_nat m)" using clen_chain [OF ch, of 0] m(1) by (simp add: pbuf_clen_def)
  have few: "\<not> (of_nat k :: DWORD) < ucast (of_nat m :: BYTE)"
    using m(3) m' t(3) by (simp add: word_less_nat_alt unat_of_nat take_bit_nat_eq_self unsigned_ucast_eq)
  have s4_run: "s4 = (if tail = 0 then ?kick s3 else
      case reg_test B (tail + 12) CPDMA_BUF_DESC_EOQ (wr B tail (bdx b f) s3) of (v, s) \<Rightarrow> if v \<noteq> 0 then ?kick s else s)"
    using t(5) tail_eoq
    by (auto simp: s4_def eoq_def Let_def test_val field_plain wr_at fields)
  have run: "cpswif_transmit B P c port_num p s = Some (0, c', s4)"
    unfolding cpswif_transmit_def Let_def clen t(1,2) s1_def [symmetric] s4_run c'_def
    by (simp only: few if_False Option.bind.bind_lunit s2(1) [folded e_def] prod.case s3_def [symmetric]
        tail_def [symmetric] ethDMA_TxHdrDescPWr_def mult_zero_left add.right_neutral h)
  have old: "val (bdx b i) s = bdx b (i + 1)" if "tail = 0 \<or> i mod num_bds \<noteq> (203 + f) mod num_bds" for i
  proof -
    obtain j where j: "j < num_bds" "(f + j) mod num_bds = i mod num_bds" using ring_ex by blast
    have "val (bdx b (f + j)) s = bdx b (f + j + 1)"
    proof (cases "j = 203")
      case True
      then have "(203 + f) mod num_bds = i mod num_bds" using j(2) by (simp add: add.commute)
      then have "tail = 0" using that by simp
      then show ?thesis using t(6) True by (simp add: add.commute)
    qed (use t(4) j(1) in \<open>simp add: num_bds\<close>)
    then show ?thesis using bdx_cong [OF j(2)] bdx_cong [OF ring_Suc [OF j(2)]] by simp
  qed
  have e_end: "(f + m + 203) mod num_bds = e mod num_bds"
  proof -
    have "f + m + 203 = e + num_bds" using m(2) by (simp add: e_def num_bds)
    then show ?thesis by simp
  qed
  have ring: "tx_ring val c' s4 (f + m) (k - m)"
  proof -
    have nx: "val (bdx b (f + m + j)) s4 = bdx b (f + m + j + 1)" if j: "j < num_bds - 1" for j
    proof -
      have ne: "(f + m + j) mod num_bds \<noteq> e mod num_bds"
        using ring_apart [of j 203 "f + m"] j e_end by (simp add: num_bds)
      show ?thesis
      proof (cases "tail \<noteq> 0 \<and> (f + m + j) mod num_bds = (203 + f) mod num_bds")
        case True
        have "(f + m + j + 1) mod num_bds = (203 + f + 1) mod num_bds" using True ring_Suc by blast
        also have "203 + f + 1 = f + num_bds" by (simp add: num_bds)
        finally have "bdx b (f + m + j + 1) = bdx b f" by (intro bdx_cong) simp
        then show ?thesis using True t(5) by (simp add: v4 field_plain fields)
      next
        case False
        then show ?thesis using t(5) old [of "f + m + j"] ne by (auto simp: v4 v3 N field_plain fields)
      qed
    qed
    have tl: "bdx b e = bdx b (f + m + num_bds - 1)" using bdx_cong [OF e_end] by (simp add: num_bds add.commute)
    have z: "val (bdx b e) s4 = 0" using t(5) e_tail by (auto simp: v4 v3 field_plain fields)
    have k: "(of_nat k - of_nat m :: DWORD) = of_nat (k - m)" using m(3) by simp
    show ?thesis
      unfolding tx_ring_def Let_def
      using nx z t(3) tl bdx_nz by (auto simp: c'_def b k num_bds)
  qed
  have flags: "val (bdx b f + 12) s4 = (if m = 1 then (hdr OR CPDMA_BUF_DESC_EOP) AND NOT CPDMA_BUF_DESC_EOQ else hdr)"
  proof -
    have "f mod num_bds = e mod num_bds \<longleftrightarrow> m = 1"
      using ring_apart [of 0 "m - 1" f] m(2) m' by (auto simp: e_def num_bds)
    then show ?thesis using t(5) by (auto simp: v4 v3 N v1 field_plain fields)
  qed
  have "val (bdx b e + 12) s4 = (val (bdx b e + 12) s2 OR CPDMA_BUF_DESC_EOP) AND NOT CPDMA_BUF_DESC_EOQ"
    using t(5) by (auto simp: v4 v3 field_plain fields)
  then have eop: "val (bdx b e + 12) s4 AND CPDMA_BUF_DESC_EOP \<noteq> 0" by (simp only: eop_bit not_False_eq_True)
  have fill: "val (bdx b (f + j) + 4) s4 = pb_payload (pget P (qs ! j) s)"
      "val (bdx b (f + j) + 8) s4 = ucast (pb_len (pget P (qs ! j) s)) AND 0xFFFF"
      "val (bdx b (f + j) + 16) s4 = p" if "j < m" for j
    using F [OF that] t(5) by (auto simp: v4 v3 field_plain fields)
  have link: "val tail s4 = bdx b f" if "tail \<noteq> 0"
    using t(5) that by (auto simp: v4 field_plain fields)
  have start: "val hdp s4 = (if tail = 0 \<or> val (tail + 12) s AND CPDMA_BUF_DESC_EOQ \<noteq> 0 then bdx b f else val hdp s)"
    using t(5) by (auto simp: v4 v3 N hdp_plain fields eoq_def)
  show ?thesis using run ring flags eop [unfolded e_def] fill link start by blast
qed

lemma transmit_full:
  assumes "tx_ring val c s f k" "pbuf_chain P s p qs" "k < length qs" "length qs < 256"
  shows "cpswif_transmit B P c port_num p s = Some (- 1, c, s)"
proof -
  have "tx_free_num (inst_txch c) = of_nat k" using assms(1) by (simp add: tx_ring_def Let_def)
  moreover have "(of_nat k :: DWORD) < ucast (of_nat (length qs) :: BYTE)"
    using assms(3,4) by (simp add: word_less_nat_alt unat_of_nat take_bit_nat_eq_self unsigned_ucast_eq)
  moreover have "pbuf_clen P p s = Some (of_nat (length qs))" using clen_chain [OF assms(2), of 0] by (simp add: pbuf_clen_def)
  ultimately show ?thesis by (simp add: cpswif_transmit_def)
qed

lemma tx_ring_pset: "cppi_ram_base c = b \<Longrightarrow> tx_ring val c (pset P r y s) f k = tx_ring val c s f k"
  by (simp add: tx_ring_def Let_def pset_val field_plain)

text \<open>A short packet in a chain of two buffers.\<close>

lemma output_short_spec:
  fixes port_num :: DWORD
  assumes r: "tx_ring val c s f k" "0 < k" and b: "cppi_ram_base c = b" and h: "cpdma_base c + 0x200 = hdp"
    and ch: "pbuf_chain P s p [p, q]" "p \<noteq> q" and short: "pb_tot_len (pget P p s) < 60"
  shows "\<exists>c' s'. cpswif_output B P c port_num p s = Some (0, c', s') \<and> tx_ring val c' s' (f + 1) (k - 1) \<and>
    val (bdx b f + 4) s' = pb_payload (pget P q s) \<and>
    val (bdx b f + 12) s' = (tx_header (60 - pb_len (pget P p s)) port_num OR CPDMA_BUF_DESC_EOP) AND NOT CPDMA_BUF_DESC_EOQ"
proof -
  have n: "pb_next (pget P p s) = q" "pb_next (pget P q s) = 0" "p \<noteq> 0" "q \<noteq> 0" using ch by auto
  define s1 where "s1 = pset P p ((pget P p s)\<lparr>pb_tot_len := 60\<rparr>) s"
  define s2 where "s2 = pset P q ((pget P q s1)\<lparr>pb_tot_len := 60 - pb_len (pget P p s)\<rparr>) s1"
  define s3 where "s3 = pset P q ((pget P q s2)\<lparr>pb_len := pb_tot_len (pget P q s2)\<rparr>) s2"
  define s4 where "s4 = pbuf_ref P q s3"
  have pad: "pad_loop P p s1 = Some (q, s2)"
    using n ch(2) by (subst pad_loop.simps, subst pad_loop.simps) (simp add: Let_def pget_pset s1_def s2_def)
  have run: "cpswif_output B P c port_num p s = cpswif_transmit B P c port_num q s4"
    using short by (simp add: cpswif_output_def s1_def [symmetric] pad s3_def [symmetric] s4_def [symmetric])
  have q4: "pb_next (pget P q s4) = 0" "pb_payload (pget P q s4) = pb_payload (pget P q s)"
    "pb_tot_len (pget P q s4) = 60 - pb_len (pget P p s)"
    using n ch(2) by (simp_all add: s4_def pbuf_ref_def s3_def s2_def s1_def pget_pset)
  have r4: "tx_ring val c s4 f k"
    using r(1) by (simp add: s4_def pbuf_ref_def n s3_def s2_def s1_def tx_ring_pset [OF b])
  have ch4: "pbuf_chain P s4 q [q]" using n(4) q4(1) by simp
  have one: "length [q] = 1" by simp
  have k1: "1 \<le> k" "(1 :: nat) < num_bds" using r(2) by (simp_all add: num_bds)
  show ?thesis
    using transmit_spec [OF r4 b h ch4 one zero_less_one k1, of port_num] run q4 by auto
qed

end

section \<open>The rings at the start\<close>

context ring_mem
begin

lemma init_bds_ok:
  "i + n \<le> num_bds \<Longrightarrow>
   \<exists>s'. init_bds B fl n (b + 20 * of_nat i) prev s = (if n = 0 then prev else bdx b (i + n - 1), s') \<and>
     (\<forall>j < n. val (bdx b (i + j)) s' = b + 20 * of_nat (i + j + 1)) \<and>
     (\<forall>a. plain a \<longrightarrow> (\<forall>j < num_bds. a \<noteq> bdx b j \<and> a \<noteq> bdx b j + 12) \<or>
        (\<exists>j < i. a = bdx b j) \<longrightarrow> val a s' = val a s)"
proof (induction n arbitrary: i prev s)
  case (Suc n)
  have i: "b + 20 * of_nat i = bdx b i" using Suc.prems by (simp add: bdx_def)
  define s1 where "s1 = wr B (bdx b i + 12) fl (wr B (bdx b i) (bdx b i + 20) s)"
  have nx: "bdx b i + 20 = b + 20 * of_nat (i + 1)" by (simp flip: i add: algebra_simps)
  have v1: "val a s1 = (if a = bdx b i + 12 then fl else if a = bdx b i then bdx b i + 20 else val a s)" if "plain a" for a
    using that by (simp add: s1_def wr_at field_plain)
  have rd1: "rd B (bdx b i) s1 = (b + 20 * of_nat (i + 1), s1)"
  proof -
    have "val (bdx b i) s1 = bdx b i + 20" using v1 [OF field_plain(1) [of i]] by (simp add: fields)
    then show ?thesis by (simp only: rd_plain [OF field_plain(1)] nx)
  qed
  obtain s' where s': "init_bds B fl n (b + 20 * of_nat (i + 1)) (bdx b i) s1 =
      (if n = 0 then bdx b i else bdx b (i + 1 + n - 1), s')"
    "\<forall>j < n. val (bdx b (i + 1 + j)) s' = b + 20 * of_nat (i + 1 + j + 1)"
    "\<forall>a. plain a \<longrightarrow> (\<forall>j < num_bds. a \<noteq> bdx b j \<and> a \<noteq> bdx b j + 12) \<or>
        (\<exists>j < i + 1. a = bdx b j) \<longrightarrow> val a s' = val a s1"
    using Suc.IH [of "i + 1" "bdx b i" s1] Suc.prems by auto
  have lt: "i < num_bds" using Suc.prems by simp
  have at_i: "val (bdx b i) s' = b + 20 * of_nat (i + 1)"
  proof -
    have "\<exists>j < i + 1. bdx b i = bdx b j" by auto
    then have "val (bdx b i) s' = val (bdx b i) s1" using s'(3) field_plain(1) by blast
    also have "\<dots> = bdx b i + 20" using v1 [OF field_plain(1) [of i]] by (simp add: fields)
    finally show ?thesis by (simp only: nx)
  qed
  show ?case
  proof (intro exI conjI allI impI)
    show "init_bds B fl (Suc n) (b + 20 * of_nat i) prev s = (if Suc n = 0 then prev else bdx b (i + Suc n - 1), s')"
      using s'(1) rd1 by (simp add: i s1_def [symmetric] Let_def)
    show "val (bdx b (i + j)) s' = b + 20 * of_nat (i + j + 1)" if "j < Suc n" for j
      using that at_i s'(2) by (cases j) auto
    show "val a s' = val a s" if a: "plain a" "(\<forall>j < num_bds. a \<noteq> bdx b j \<and> a \<noteq> bdx b j + 12) \<or> (\<exists>j < i. a = bdx b j)" for a
    proof -
      have ne: "a \<noteq> bdx b i" "a \<noteq> bdx b i + 12" using a(2) lt by (auto simp: fields)
      have "val a s' = val a s1" using s'(3) a by (metis less_SucI Suc_eq_plus1)
      then show ?thesis using v1 [OF a(1)] ne by simp
    qed
  qed
qed simp

lemma init_ring:
  assumes "init_bds B fl num_bds b 0 s = (l, s1)"
  shows "l = bdx b 203 \<and> (\<forall>i. val (bdx b i) (wr B l b s1) = bdx b (i + 1)) \<and>
    (\<forall>a. plain a \<longrightarrow> (\<forall>j. a \<noteq> bdx b j \<and> a \<noteq> bdx b j + 12) \<longrightarrow> val a (wr B l b s1) = val a s)"
proof -
  have I: "l = bdx b 203" "\<forall>j < num_bds. val (bdx b j) s1 = b + 20 * of_nat (j + 1)"
    "\<forall>a. plain a \<longrightarrow> (\<forall>j < num_bds. a \<noteq> bdx b j \<and> a \<noteq> bdx b j + 12) \<longrightarrow> val a s1 = val a s"
    using init_bds_ok [of 0 num_bds fl 0 s] assms by (auto simp: num_bds)
  have "val (bdx b i) (wr B l b s1) = bdx b (i + 1)" for i
  proof -
    define j where "j = i mod num_bds"
    have j: "j < num_bds" "i mod num_bds = j mod num_bds" by (simp_all add: j_def num_bds)
    have e: "bdx b i = bdx b j" "bdx b (i + 1) = bdx b (j + 1)" using bdx_cong [OF j(2)] bdx_cong [OF ring_Suc [OF j(2)]] .
    show ?thesis
    proof (cases "j = 203")
      case True
      then show ?thesis using e I(1) by (simp add: wr_at field_plain) (simp add: bdx_def num_bds)
    next
      case False
      then have "j + 1 < num_bds" using j(1) by (simp add: num_bds)
      then have "b + 20 * of_nat (j + 1) = bdx b (j + 1)" by (simp add: bdx_def)
      moreover have "bdx b j \<noteq> l" using False j(1) I(1) by (simp add: fields num_bds)
      ultimately show ?thesis using I(2) j(1) e I(1) by (simp add: wr_at field_plain)
    qed
  qed
  then show ?thesis using I(1,3) by (auto simp: wr_at field_plain)
qed

text \<open>Filling the receive ring stays in it, and leaves its links.\<close>

lemma rx_fill_ok:
  "(\<forall>i. val (bdx b i) s = bdx b (i + 1)) \<Longrightarrow>
   \<exists>k s'. rx_fill B P n (bdx b i) (bdx b j) num s = (bdx b (i + k), bdx b (if k = 0 then j else i + k - 1), num - of_nat k, s') \<and>
     k \<le> n \<and> (\<forall>i. val (bdx b i) s' = bdx b (i + 1)) \<and>
     (\<forall>a. plain a \<longrightarrow> (\<forall>i. a \<noteq> bdx b i + 4 \<and> a \<noteq> bdx b i + 8 \<and> a \<noteq> bdx b i + 12 \<and> a \<noteq> bdx b i + 16) \<longrightarrow> val a s' = val a s)"
proof (induction n arbitrary: i j num s)
  case 0
  show ?case by (rule exI [of _ 0]) (use 0 in auto)
next
  case (Suc n)
  obtain p t where p: "palloc P s = (p, t)" by fastforce
  have vt: "val a t = val a s" if "plain a" for a using palloc_val [OF that, of s] p by simp
  show ?case
  proof (cases "p = 0")
    case True
    then show ?thesis using p vt Suc.prems by (intro exI [of _ 0] exI [of _ t]) (simp add: field_plain)
  next
    case False
    define u where "u = wr B (bdx b i + 16) p (wr B (bdx b i + 12) CPDMA_BUF_DESC_OWNER
      (wr B (bdx b i + 8) (ucast (pb_len (pget P p t))) (wr B (bdx b i + 4) (pb_payload (pget P p t)) t)))"
    have vu: "val a u = val a s" if "plain a" "a \<noteq> bdx b i + 4 \<and> a \<noteq> bdx b i + 8 \<and> a \<noteq> bdx b i + 12 \<and> a \<noteq> bdx b i + 16" for a
      using that by (simp add: u_def wr_at field_plain vt)
    have lk: "\<forall>i. val (bdx b i) u = bdx b (i + 1)" using Suc.prems vu by (simp add: field_plain fields)
    have rd1: "rd B (bdx b i) u = (bdx b (i + 1), u)" using lk by (simp add: rd_plain field_plain)
    obtain k s' where R: "rx_fill B P n (bdx b (i + 1)) (bdx b i) (num - 1) u =
        (bdx b (i + 1 + k), bdx b (if k = 0 then i else i + 1 + k - 1), num - 1 - of_nat k, s')" "k \<le> n"
      "\<forall>i. val (bdx b i) s' = bdx b (i + 1)"
      "\<forall>a. plain a \<longrightarrow> (\<forall>i. a \<noteq> bdx b i + 4 \<and> a \<noteq> bdx b i + 8 \<and> a \<noteq> bdx b i + 12 \<and> a \<noteq> bdx b i + 16) \<longrightarrow> val a s' = val a u"
      using Suc.IH [OF lk, of "i + 1" i "num - 1"] by blast
    have run: "rx_fill B P (Suc n) (bdx b i) (bdx b j) num s = rx_fill B P n (bdx b (i + 1)) (bdx b i) (num - 1) u"
      using False p rd1 by (simp add: Let_def u_def pget_wr field_plain)
    show ?thesis
      by (rule exI [of _ "k + 1"], rule exI [of _ s']) (use run R vu in \<open>auto simp: diff_diff_add add.commute\<close>)
  qed
qed

end


context ring_mem
begin

lemma rxbd_alloc_frame:
  assumes lk: "\<forall>i. val (bdx b i) s = bdx b (i + 1)"
    and r: "rx_free_head (inst_rxch c) = bdx b i" "rx_recv_tail (inst_rxch c) = bdx b j" and h: "cpdma_base c + 0x220 = hdp"
  shows "\<exists>r' s'. cpswif_rxbd_alloc B P c s = (c\<lparr>inst_rxch := r'\<rparr>, s') \<and> rx_recv_head r' = rx_recv_head (inst_rxch c) \<and>
    (\<forall>a. plain a \<longrightarrow> a \<noteq> hdp \<longrightarrow>
       (\<forall>i. a \<noteq> bdx b i \<and> a \<noteq> bdx b i + 4 \<and> a \<noteq> bdx b i + 8 \<and> a \<noteq> bdx b i + 12 \<and> a \<noteq> bdx b i + 16) \<longrightarrow> val a s' = val a s)"
proof -
  let ?n = "rx_free_num (inst_rxch c)"
  obtain k s1 where F: "rx_fill B P (unat ?n) (bdx b i) (bdx b j) ?n s =
      (bdx b (i + k), bdx b (if k = 0 then j else i + k - 1), ?n - of_nat k, s1)"
    "\<forall>a. plain a \<longrightarrow> (\<forall>i. a \<noteq> bdx b i + 4 \<and> a \<noteq> bdx b i + 8 \<and> a \<noteq> bdx b i + 12 \<and> a \<noteq> bdx b i + 16) \<longrightarrow> val a s1 = val a s"
    using rx_fill_ok [OF lk, of "unat ?n" i j ?n] by blast
  show ?thesis
  proof (cases "?n - of_nat k = ?n")
    case True
    then have "cpswif_rxbd_alloc B P c s = (c\<lparr>inst_rxch := inst_rxch c\<rparr>, s1)"
      using F(1) by (simp add: cpswif_rxbd_alloc_def r Let_def)
    then show ?thesis using F(2) by blast
  next
    case False
    define e where "e = (if k = 0 then j else i + k - 1)"
    define s2 where "s2 = wr B (bdx b e) 0 (wr B (bdx b j) (bdx b i) s1)"
    have t: "reg_test B (bdx b j + 12) CPDMA_BUF_DESC_EOQ s2 = (val (bdx b j + 12) s2 AND CPDMA_BUF_DESC_EOQ, s2)"
      by (simp add: test_val field_plain)
    have "cpswif_rxbd_alloc B P c s = (c\<lparr>inst_rxch := (inst_rxch c)\<lparr>rx_free_num := ?n - of_nat k,
        rx_recv_tail := bdx b e, rx_free_head := bdx b (i + k)\<rparr>\<rparr>,
        if val (bdx b j + 12) s2 AND CPDMA_BUF_DESC_EOQ \<noteq> 0 then wr B hdp (bdx b i) s2 else s2)"
      using F(1) False bdx_nz t
      by (simp add: cpswif_rxbd_alloc_def r Let_def e_def [symmetric] s2_def [symmetric] ethDMA_RxHdrDescPWr_def h)
    moreover have "val a s2 = val a s" if "plain a"
        "\<forall>i. a \<noteq> bdx b i \<and> a \<noteq> bdx b i + 4 \<and> a \<noteq> bdx b i + 8 \<and> a \<noteq> bdx b i + 12 \<and> a \<noteq> bdx b i + 16" for a
      using that F(2) by (simp add: s2_def wr_at field_plain)
    ultimately show ?thesis using hdp_plain by (auto simp: wr_at)
  qed
qed

end

locale cpdma_mem = tx: ring_mem B plain val P b hdp + rx: ring_mem B plain val P "b + 0x1000" rxhdp
  for B :: "'s bus" and plain val and P :: "'s stack" and b hdp rxhdp +
  assumes rxhdp_apart: "k < 0x1000 \<Longrightarrow> rxhdp \<noteq> b + of_nat k"
begin

lemma rings_apart: "k < 20 \<Longrightarrow> l < 20 \<Longrightarrow> bdx b i + of_nat k \<noteq> bdx (b + 0x1000) j + of_nat l"
proof -
  assume kl: "k < 20" "l < 20"
  have "unat (b + 0x1000) = unat b + 0x1000"
    using unat_plus_of_nat [of b "0x1000"] tx.no_wrap by simp
  moreover have "i mod num_bds < 204" by (simp add: num_bds)
  ultimately have "unat (bdx b i + of_nat k) < unat (bdx (b + 0x1000) j + of_nat l)"
    using bdx_unat [OF tx.no_wrap kl(1), of i] bdx_unat [OF rx.no_wrap kl(2), of j] kl by linarith
  then show ?thesis by force
qed

lemma tx_not_rx:
  "bdx b i \<noteq> bdx (b + 0x1000) j" "bdx b i \<noteq> bdx (b + 0x1000) j + 4" "bdx b i \<noteq> bdx (b + 0x1000) j + 8"
  "bdx b i \<noteq> bdx (b + 0x1000) j + 12" "bdx b i \<noteq> bdx (b + 0x1000) j + 16" "bdx b i \<noteq> rxhdp"
  using rings_apart [of 0 0 i j] rings_apart [of 0 4 i j] rings_apart [of 0 8 i j] rings_apart [of 0 12 i j]
    rings_apart [of 0 16 i j] tx.field_ram [of 0 i] rxhdp_apart by auto

lemma cpdma_init_spec:
  assumes c: "cppi_ram_base c = b" "cpdma_base c + 0x220 = rxhdp"
  shows "\<exists>c' s'. cpswif_cpdma_init B P c s = (c', s') \<and> tx_ring val c' s' 0 num_bds \<and>
    cppi_ram_base c' = b \<and> cpdma_base c' = cpdma_base c \<and> rx_recv_head (inst_rxch c') = b + 0x1000 \<and>
    val rxhdp s' = b + 0x1000"
proof -
  obtain l1 s1 where s1: "init_bds B 0 num_bds b 0 s = (l1, s1)" by fastforce
  define s2 where "s2 = wr B l1 b s1"
  note T = tx.init_ring [OF s1, folded s2_def]
  obtain l3 s3 where s3: "init_bds B CPDMA_BUF_DESC_OWNER num_bds (b + 0x1000) 0 s2 = (l3, s3)" by fastforce
  define s4 where "s4 = wr B l3 (b + 0x1000) s3"
  note R = rx.init_ring [OF s3, folded s4_def]
  have b0: "bdx b 0 = b" "bdx (b + 0x1000) 0 = b + 0x1000" by (simp_all add: bdx_def)
  have tx4: "val (bdx b i) s4 = bdx b (i + 1)" for i
    using T R tx_not_rx [of i] tx.field_plain(1) [of i] by simp
  define c1 where "c1 = c\<lparr>inst_txch := \<lparr>tx_free_head = b, tx_send_head = b, tx_send_tail = 0, tx_free_num = of_nat num_bds\<rparr>,
    inst_rxch := \<lparr>rx_free_head = b + 0x1000, rx_recv_head = b + 0x1000, rx_recv_tail = l3, rx_free_num = of_nat num_bds\<rparr>\<rparr>"
  have r1: "rx_free_head (inst_rxch c1) = bdx (b + 0x1000) 0" "rx_recv_tail (inst_rxch c1) = bdx (b + 0x1000) 203"
    "cpdma_base c1 + 0x220 = rxhdp" using R by (simp_all add: c1_def b0 c)
  have lk: "\<forall>i. val (bdx (b + 0x1000) i) s4 = bdx (b + 0x1000) (i + 1)" using R by blast
  obtain r' s5 where A: "cpswif_rxbd_alloc B P c1 s4 = (c1\<lparr>inst_rxch := r'\<rparr>, s5)"
    "rx_recv_head r' = b + 0x1000"
    "\<forall>a. plain a \<longrightarrow> a \<noteq> rxhdp \<longrightarrow> (\<forall>i. a \<noteq> bdx (b + 0x1000) i \<and> a \<noteq> bdx (b + 0x1000) i + 4 \<and>
      a \<noteq> bdx (b + 0x1000) i + 8 \<and> a \<noteq> bdx (b + 0x1000) i + 12 \<and> a \<noteq> bdx (b + 0x1000) i + 16) \<longrightarrow> val a s5 = val a s4"
    using rx.rxbd_alloc_frame [OF lk r1] by (auto simp: c1_def)
  define s6 where "s6 = wr B rxhdp (b + 0x1000) (wr B l3 0 s5)"
  have run: "cpswif_cpdma_init B P c s = (c1\<lparr>inst_rxch := r'\<rparr>, s6)"
    using A(1,2) by (simp add: cpswif_cpdma_init_def Let_def c(1) s1 s2_def [symmetric] s3 s4_def [symmetric]
        c1_def [symmetric] ethDMA_RxHdrDescPWr_def s6_def) (simp add: c1_def c(2))
  have l3: "l3 = bdx (b + 0x1000) 203" using R by blast
  have tx6: "val (bdx b i) s6 = bdx b (i + 1)" for i
    using A(3) tx4 [of i] tx_not_rx [of i] tx.field_plain(1) [of i]
    by (simp add: s6_def l3 tx.wr_at rx.hdp_plain rx.field_plain)
  have hd: "val rxhdp s6 = b + 0x1000" by (simp add: s6_def tx.wr_at rx.hdp_plain l3 rx.field_plain)
  have "tx_ring val (c1\<lparr>inst_rxch := r'\<rparr>) s6 0 num_bds"
    using tx6 by (simp add: tx_ring_def Let_def c1_def c(1) b0 num_bds)
  then show ?thesis using run hd A(2) by (simp add: c1_def c(1))
qed

end


section \<open>A memory with buffers\<close>

text \<open>
  Registers and CPPI RAM as words that hold what was written, buffers in a heap of their own, and a pool
  of free buffers.
\<close>

record eth_mem =
  ewords :: "DWORD \<Rightarrow> DWORD"
  epbufs :: "DWORD \<Rightarrow> pbuf"
  epool :: "DWORD list"

definition eth_bus :: "eth_mem bus" where
  "eth_bus = \<lparr>rd = \<lambda>a s. (ewords s a, s), wr = \<lambda>a x s. s\<lparr>ewords := (ewords s)(a := x)\<rparr>\<rparr>"

definition eth_stack :: "eth_mem stack" where
  "eth_stack = \<lparr>pget = \<lambda>p s. epbufs s p, pset = \<lambda>p y s. s\<lparr>epbufs := (epbufs s)(p := y)\<rparr>,
     palloc = \<lambda>s. (case epool s of [] \<Rightarrow> (0, s) | p # ps \<Rightarrow> (p, s\<lparr>epool := ps\<rparr>)),
     pfree = \<lambda>p s. s\<lparr>epool := p # epool s\<rparr>, ethernet_input = \<lambda>p n s. (ERR_OK, s), led = \<lambda>on n s. s\<rparr>"

lemma ram_apart: "k < 0x1000 \<Longrightarrow> unat h < unat b \<Longrightarrow> unat b + 0x2000 \<le> 2 ^ 32 \<Longrightarrow> h \<noteq> b + of_nat k" for b h :: DWORD
  using unat_plus_of_nat [of b k] by auto

lemma ram_am335x': "unat (0x4A102000 :: DWORD) + 0x2000 \<le> 2 ^ 32" "unat (0x4A103000 :: DWORD) + 0x2000 \<le> 2 ^ 32"
  by simp_all

interpretation emac: cpdma_mem eth_bus "\<lambda>a. True" "\<lambda>a s. ewords s a" eth_stack "0x4A102000" "0x4A100A00" "0x4A100A20"
proof
  show "(0x4A100A00 :: DWORD) \<noteq> 0x4A102000 + of_nat k" if "k < 0x1000" for k
    by (rule ram_apart [OF that]) simp_all
  show "(0x4A100A20 :: DWORD) \<noteq> 0x4A102000 + 0x1000 + of_nat k" if "k < 0x1000" for k
    by (rule ram_apart [OF that]) simp_all
  show "(0x4A100A20 :: DWORD) \<noteq> 0x4A102000 + of_nat k" if "k < 0x1000" for k
    by (rule ram_apart [OF that]) simp_all
qed (simp_all add: eth_bus_def eth_stack_def split: list.split)

section \<open>Properties\<close>

text \<open>C29: the initialisation of the CPDMA sets up the transmit ring with all its descriptors free, and
  starts the receiver at the first descriptor of the other half of the CPPI RAM.\<close>

theorem cpdma_init_ring:
  assumes "cpdma_mem B plain val P b hdp rxhdp" and "cppi_ram_base c = b" and "cpdma_base c + 0x220 = rxhdp"
  shows "\<exists>c' s'. cpswif_cpdma_init B P c s = (c', s') \<and> tx_ring val c' s' 0 num_bds \<and>
    cppi_ram_base c' = b \<and> cpdma_base c' = cpdma_base c \<and> rx_recv_head (inst_rxch c') = b + 0x1000 \<and>
    val rxhdp s' = b + 0x1000"
  using assms by (rule cpdma_mem.cpdma_init_spec)

definition eth_start :: eth_mem where
  "eth_start = \<lparr>ewords = (\<lambda>a. 0), epbufs = (\<lambda>p. \<lparr>pb_next = if p = 0x80000100 then 0x80000200 else 0,
     pb_payload = p + 16, pb_tot_len = if p = 0x80000100 then 54 else 40, pb_len = if p = 0x80000100 then 14 else 40,
     pb_ref = 1\<rparr>), epool = [0x80001000, 0x80002000]\<rparr>"

lemma ale_inst_mem: "cppi_ram_base ale_inst = 0x4A102000" "cpdma_base ale_inst + 0x220 = 0x4A100A20"
  by (simp_all add: ale_inst_def)

lemma cpdma_init_ring_witness:
  "\<exists>c' s'. cpswif_cpdma_init eth_bus eth_stack ale_inst eth_start = (c', s') \<and> tx_ring (\<lambda>a s. ewords s a) c' s' 0 204 \<and>
     ewords s' 0x4A100A20 = 0x4A103000"
  using cpdma_init_ring [OF emac.cpdma_mem_axioms ale_inst_mem, of eth_start] by (auto simp: num_bds)

text \<open>C5: sending a packet puts its buffers into the next free descriptors, the first marked as the start of
  the packet with its length and port, the last as its end, links them behind the packets sent
  before, starts the DMA controller when it is idle, and keeps the invariant of the ring.\<close>

theorem transmit_queues_packet:
  assumes "ring_mem B plain val P b hdp" and "tx_ring val c s f k" and "cppi_ram_base c = b"
    and "cpdma_base c + 0x200 = hdp" and "pbuf_chain P s p qs" and "length qs = m" and "0 < m" and "m \<le> k" and "m < num_bds"
  shows "\<exists>c' s'. cpswif_transmit B P c port_num p s = Some (0, c', s') \<and> tx_ring val c' s' (f + m) (k - m) \<and>
    (\<forall>j < m. val (bdx b (f + j) + 4) s' = pb_payload (pget P (qs ! j) s) \<and>
       val (bdx b (f + j) + 8) s' = ucast (pb_len (pget P (qs ! j) s)) AND 0xFFFF \<and>
       val (bdx b (f + j) + 16) s' = p) \<and>
    val (bdx b f + 12) s' =
      (if m = 1 then (tx_header (pb_tot_len (pget P p s)) port_num OR CPDMA_BUF_DESC_EOP) AND NOT CPDMA_BUF_DESC_EOQ
       else tx_header (pb_tot_len (pget P p s)) port_num) \<and>
    val (bdx b (f + m - 1) + 12) s' AND CPDMA_BUF_DESC_EOP \<noteq> 0 \<and>
    (tx_send_tail (inst_txch c) \<noteq> 0 \<longrightarrow> val (tx_send_tail (inst_txch c)) s' = bdx b f) \<and>
    val hdp s' = (if tx_send_tail (inst_txch c) = 0 \<or>
        val (tx_send_tail (inst_txch c) + 12) s AND CPDMA_BUF_DESC_EOQ \<noteq> 0 then bdx b f else val hdp s)"
  using assms by (rule ring_mem.transmit_spec)

text \<open>The ring as the initialisation leaves it, for the examples.\<close>

definition eth_ring :: eth_mem where
  "eth_ring = eth_start\<lparr>ewords := (\<lambda>a. if \<exists>i < 204. a = bdx 0x4A102000 i
     then bdx 0x4A102000 (unat (a - 0x4A102000) div 20 + 1) else 0)\<rparr>"

definition ring_inst :: cpswinst where
  "ring_inst = ale_inst\<lparr>inst_txch := \<lparr>tx_free_head = 0x4A102000, tx_send_head = 0x4A102000, tx_send_tail = 0,
     tx_free_num = 204\<rparr>\<rparr>"

lemma eth_ring_ok: "tx_ring (\<lambda>a s. ewords s a) ring_inst eth_ring 0 204"
proof -
  have v: "ewords eth_ring (bdx 0x4A102000 i) = bdx 0x4A102000 (i + 1)" if "i < 204" for i
  proof -
    have "bdx 0x4A102000 i - 0x4A102000 = of_nat (20 * i)" using that by (simp add: bdx_def num_bds)
    moreover have "unat (of_nat (20 * i) :: DWORD) = 20 * i"
      using that by (simp only: unat_of_nat) (simp add: take_bit_nat_eq_self)
    ultimately have "unat (bdx 0x4A102000 i - 0x4A102000) = 20 * i" by (simp only:)
    then show ?thesis using that by (auto simp: eth_ring_def)
  qed
  have b0: "bdx 0x4A102000 0 = 0x4A102000" by (simp add: bdx_def)
  show ?thesis
    using v by (simp add: tx_ring_def Let_def ring_inst_def ale_inst_def num_bds b0)
qed

lemma ring_inst_mem: "cppi_ram_base ring_inst = 0x4A102000" "cpdma_base ring_inst + 0x200 = 0x4A100A00"
  by (simp_all add: ring_inst_def ale_inst_def)

lemma transmit_queues_packet_witness:
  "\<exists>c' s'. cpswif_transmit eth_bus eth_stack ring_inst 1 0x80000200 eth_ring = Some (0, c', s') \<and>
     tx_ring (\<lambda>a s. ewords s a) c' s' 1 203 \<and> ewords s' 0x4A100A00 = 0x4A102000 \<and> ewords s' 0x4A102004 = 0x80000210"
proof -
  have ch: "pbuf_chain eth_stack eth_ring 0x80000200 [0x80000200]"
    by (simp add: eth_stack_def eth_ring_def eth_start_def)
  have pl: "pb_payload (pget eth_stack 0x80000200 eth_ring) = 0x80000210"
    by (simp add: eth_stack_def eth_ring_def eth_start_def)
  have b0: "bdx 0x4A102000 0 = 0x4A102000" by (simp add: bdx_def)
  have t0: "tx_send_tail (inst_txch ring_inst) = 0" by (simp add: ring_inst_def)
  show ?thesis
    using transmit_queues_packet [OF emac.tx.ring_mem_axioms eth_ring_ok ring_inst_mem ch, of 1 1]
    by (auto simp: num_bds pl b0 t0)
qed

text \<open>a packet of more buffers than there are free descriptors is refused with \<^verbatim>\<open>ERR_MEM\<close> and nothing is
  changed.\<close>

theorem transmit_refuses_when_full:
  assumes "ring_mem B plain val P b hdp" and "tx_ring val c s f k" and "pbuf_chain P s p qs" and "k < length qs"
    and "length qs < 256"
  shows "cpswif_transmit B P c port_num p s = Some (- 1, c, s)"
  using assms by (rule ring_mem.transmit_full)

lemma transmit_refuses_when_full_witness:
  "cpswif_transmit eth_bus eth_stack (ring_inst\<lparr>inst_txch := (inst_txch ring_inst)\<lparr>tx_free_num := 0\<rparr>\<rparr>) 1 0x80000200 eth_ring =
   Some (- 1, ring_inst\<lparr>inst_txch := (inst_txch ring_inst)\<lparr>tx_free_num := 0\<rparr>\<rparr>, eth_ring)"
proof -
  have "tx_ring (\<lambda>a s. ewords s a) (ring_inst\<lparr>inst_txch := (inst_txch ring_inst)\<lparr>tx_free_num := 0\<rparr>\<rparr>) eth_ring 0 0"
    using eth_ring_ok by (auto simp: tx_ring_def Let_def)
  moreover have "pbuf_chain eth_stack eth_ring 0x80000200 [0x80000200]"
    by (simp add: eth_stack_def eth_ring_def eth_start_def)
  ultimately show ?thesis by (rule transmit_refuses_when_full [OF emac.tx.ring_mem_axioms]) simp_all
qed

text \<open>a packet shorter than 60 bytes in two buffers is sent without its first buffer: the padding loop
  leaves the variable that names the packet at the last buffer, and that one alone is handed to the
  transmitter, with a length of 60 less what the first buffer holds.\<close>

theorem output_drops_first_buffer:
  assumes "ring_mem B plain val P b hdp" and "tx_ring val c s f k" and "0 < k" and "cppi_ram_base c = b"
    and "cpdma_base c + 0x200 = hdp" and "pbuf_chain P s p [p, q]" and "p \<noteq> q" and "pb_tot_len (pget P p s) < 60"
  shows "\<exists>c' s'. cpswif_output B P c port_num p s = Some (0, c', s') \<and> tx_ring val c' s' (f + 1) (k - 1) \<and>
    val (bdx b f + 4) s' = pb_payload (pget P q s) \<and>
    val (bdx b f + 12) s' = (tx_header (60 - pb_len (pget P p s)) port_num OR CPDMA_BUF_DESC_EOP) AND NOT CPDMA_BUF_DESC_EOQ"
  using assms by (rule ring_mem.output_short_spec)

lemma output_drops_first_buffer_witness:
  "\<exists>c' s'. cpswif_output eth_bus eth_stack ring_inst 1 0x80000100 eth_ring = Some (0, c', s') \<and>
     ewords s' 0x4A102004 = 0x80000210"
proof -
  have ch: "pbuf_chain eth_stack eth_ring 0x80000100 [0x80000100, 0x80000200]"
    "pb_tot_len (pget eth_stack 0x80000100 eth_ring) < 60" "pb_payload (pget eth_stack 0x80000200 eth_ring) = 0x80000210"
    by (simp_all add: eth_stack_def eth_ring_def eth_start_def)
  have b0: "bdx 0x4A102000 0 = 0x4A102000" by (simp add: bdx_def)
  show ?thesis
    using output_drops_first_buffer [OF emac.tx.ring_mem_axioms eth_ring_ok _ ring_inst_mem ch(1) _ ch(2), of 1] ch(3) b0
    by auto
qed

end
