(* ===== verification/CpswIf.thy ===== *)
theory CpswIf
  imports Cpdma
begin

unbundle bit_operations_syntax

text \<open>
  The network interface over the switch: the set-up of an instance and of its ports
  (\<^verbatim>\<open>cpswif_inst_config\<close>, \<^verbatim>\<open>cpswif_inst_init\<close>, \<^verbatim>\<open>cpswif_port_init\<close>, \<^verbatim>\<open>cpswif_init\<close>) and the commands of
  \<^verbatim>\<open>cpsw_switch_configuration\<close>, all in \<^verbatim>\<open>lwip/ports/cpsw/netif/cpswif.c\<close>.  The set-up is the one of the
  dual MAC mode, which \<^verbatim>\<open>lwipopts.h\<close> selects, on the board \<^verbatim>\<open>beaglebone\<close>, which \<^verbatim>\<open>cpswif.h\<close> selects.
\<close>

section \<open>The interface and the instances\<close>

record cpswportif =
  inst_num :: DWORD
  port_num :: DWORD
  eth_addr :: "BYTE list"

datatype netif_fn = etharp_output | cpswif_linkoutput

record netif =
  nif_state :: cpswportif
  hwaddr_len :: BYTE
  hwaddr :: "BYTE list"
  mtu :: WORD
  nif_flags :: BYTE
  nif_name :: "char list"
  nif_num :: BYTE
  nif_output :: "netif_fn option"
  nif_linkoutput :: "netif_fn option"

text \<open>The instances and the static variable that remembers which are initialised.\<close>

record cpsw =
  cpsw_inst_data :: "cpswinst list"
  inst_init_flag :: DWORD

definition cpswif_inst_config :: "cpswportif \<Rightarrow> cpswinst \<Rightarrow> cpswinst" where
  "cpswif_inst_config cpswif c =
     (if inst_num cpswif = 0
      then c\<lparr>ss_base := 0x4A100000, mdio_base := 0x4A101000, wrpr_base := 0x4A101200, cpdma_base := 0x4A100800,
             ale_base := 0x4A100D00, cppi_ram_base := 0x4A102000, host_port_base := 0x4A100100,
             inst_port := (inst_port c)
               [0 := (inst_port c ! 0)\<lparr>port_base := 0x4A100200, sliver_base := 0x4A100D80, phy_addr := 0, phy_gbps := 0\<rparr>,
                1 := (inst_port c ! 1)\<lparr>port_base := 0x4A100300, sliver_base := 0x4A100DC0\<rparr>]\<rparr>
      else c)"

definition cpswif_inst_init ::
    "'s bus \<Rightarrow> 's stack \<Rightarrow> (DWORD \<Rightarrow> 's \<Rightarrow> 's) \<Rightarrow> cpswinst \<Rightarrow> 's \<Rightarrow> (cpswinst \<times> 's) option" where
  "cpswif_inst_init B P dly c s = do {
     s \<leftarrow> CPSWSSReset B (ss_base c) s;
     s \<leftarrow> CPSWWrReset B (wrpr_base c) s;
     s \<leftarrow> CPSWSlReset B (sliver_base (inst_port c ! 0)) s;
     s \<leftarrow> CPSWSlReset B (sliver_base (inst_port c ! 1)) s;
     s \<leftarrow> ethDMA_reset B (cpdma_base c) s;
     let s = dly 1 (MDIOInit B (mdio_base c) 125000000 1000000 s);
     let s = CPSWALEInit B (ale_base c) s;
     let s = CPSWALEPortStateSet B (ale_base c) 0 3 s;
     let s = CPSWALEPortStateSet B (ale_base c) 1 3 s;
     let s = CPSWALEPortStateSet B (ale_base c) 2 3 s;
     let s = CPSWALEVLANAwareSet B (ale_base c) s;
     let s = CPSWHostPortDualMacModeSet B (host_port_base c) s;
     let s = CPSWStatisticsEnable B (ss_base c) s;
     let (c, s) = cpswif_cpdma_init B P c s;
     let s = ethDMA_EOIVecWr B (cpdma_base c) 2 s;
     let s = ethDMA_EOIVecWr B (cpdma_base c) 1 s;
     let s = ethDMA_TxEnab B (cpdma_base c) s;
     let s = ethDMA_RxEnab B (cpdma_base c) s;
     let s = ethDMA_TxIntEnab B (cpdma_base c) 0 s;
     let s = CPSWWrCoreIntEnable B (wrpr_base c) 0 0 8 s;
     let s = ethDMA_RxIntEnab B (cpdma_base c) 0 s;
     let s = CPSWWrCoreIntEnable B (wrpr_base c) 0 0 4 s;
     Some (c, s) }"

definition cpswif_port_init ::
    "'s bus \<Rightarrow> (DWORD \<Rightarrow> 's \<Rightarrow> 's) \<Rightarrow> WORD \<Rightarrow> cpswinst \<Rightarrow> netif \<Rightarrow> 's \<Rightarrow> (err_t \<times> netif \<times> 's) option" where
  "cpswif_port_init B dly junk c netif s = do {
     let cpswif = nif_state netif;
     let n = port_num cpswif;
     let netif = netif\<lparr>hwaddr_len := 6, hwaddr := take 6 (eth_addr cpswif), mtu := 1500, nif_flags := 0x02 OR 0x20 OR 0x10\<rparr>;
     let s = CPSWPortSrcAddrSet B (port_base (slave c n)) (eth_addr cpswif) s;
     let s = CPSWPortVLANConfig B (port_base (slave c n)) n 0 0 s;
     let s = cpswif_port_to_host_vlan_cfg B c n (eth_addr cpswif) s;
     (err, s) \<leftarrow> cpswif_phylink_config B dly junk c n s;
     Some (err, netif, s) }"

definition cpswif_init ::
    "'s bus \<Rightarrow> 's stack \<Rightarrow> (DWORD \<Rightarrow> 's \<Rightarrow> 's) \<Rightarrow> WORD \<Rightarrow> cpsw \<Rightarrow> netif \<Rightarrow> 's \<Rightarrow> (err_t \<times> cpsw \<times> netif \<times> 's) option" where
  "cpswif_init B P dly junk g netif s = do {
     let cpswif = nif_state netif;
     let i = unat (inst_num cpswif);
     let netif = netif\<lparr>nif_name := ''en'', nif_num := ucast ((inst_num cpswif * 2 + port_num cpswif - 1) AND 0xFF),
       nif_output := Some etharp_output, nif_linkoutput := Some cpswif_linkoutput\<rparr>;
     (g, s) \<leftarrow> (if drop_bit i (inst_init_flag g) AND 1 = 0 then do {
         (c, s) \<leftarrow> cpswif_inst_init B P dly (cpswif_inst_config cpswif (cpsw_inst_data g ! i)) s;
         Some (g\<lparr>cpsw_inst_data := (cpsw_inst_data g)[i := c], inst_init_flag := inst_init_flag g OR push_bit i 1\<rparr>, s) }
       else Some (g, s));
     (err, netif, s) \<leftarrow> cpswif_port_init B dly junk (cpsw_inst_data g ! i) netif s;
     Some (if err \<noteq> ERR_OK then ERR_CONN else ERR_OK, g, netif, s) }"

definition cpswif_netif_status :: "netif \<Rightarrow> DWORD" where
  "cpswif_netif_status netif = (if nif_flags netif AND 1 \<noteq> 0 then 1 else 0)"

section \<open>The commands of the switch configuration\<close>

record switch_param =
  sp_port_num :: DWORD
  sp_port_mask :: DWORD
  sp_vid :: DWORD
  sp_prio_port :: DWORD
  sp_cfi_port :: DWORD
  sp_unreg_multi :: DWORD
  sp_reg_multi :: DWORD
  sp_untag_port :: DWORD
  sp_addr :: "BYTE list"
  sp_super :: DWORD
  sp_fwd_state :: DWORD
  sp_ucast_flags :: DWORD
  sp_ucast_type :: DWORD
  sp_ale_tbl_index :: DWORD
  sp_vlan_aware :: DWORD
  sp_drop_packet :: DWORD
  sp_direction :: DWORD
  sp_addr_type :: DWORD
  sp_limit :: DWORD
  sp_port_state :: DWORD
  sp_enable :: DWORD
  sp_unknown_vlan :: DWORD
  sp_mac_auth :: DWORD

record phy_param =
  pp_slv_port_num :: DWORD
  pp_autoneg :: DWORD
  pp_config :: DWORD
  pp_speed :: DWORD
  pp_duplex :: DWORD

datatype config_cmd =
    CONFIG_SWITCH_ADD_MULTICAST | CONFIG_SWITCH_ADD_UNICAST | CONFIG_SWITCH_ADD_OUI | CONFIG_SWITCH_FIND_ADDR
  | CONFIG_SWITCH_DEL_MULTICAST | CONFIG_SWITCH_DEL_UNICAST | CONFIG_SWITCH_ADD_VLAN | CONFIG_SWITCH_FIND_VLAN
  | CONFIG_SWITCH_DEL_VLAN | CONFIG_SWITCH_PORT_VLAN_CONFIG | CONFIG_SWITCH_AGEOUT | CONFIG_SWITCH_DUMP
  | CONFIG_SWITCH_CONFIG_DUMP | CONFIG_SWITCH_VLANAWARE | CONFIG_SWITCH_RATELIMIT | CONFIG_SWITCH_VID_INGRESS_CHECK
  | CONFIG_SWITCH_ADD_UNKNOWN_VLAN_INFO | CONFIG_SWITCH_MACAUTH | CONFIG_SWITCH_PORT_STATE
  | CONFIG_SWITCH_SET_PORT_CONFIG | CONFIG_SWITCH_INVALID

definition check_valid :: "DWORD \<Rightarrow> DWORD \<Rightarrow> DWORD \<Rightarrow> bool" where
  "check_valid v lo hi \<longleftrightarrow> lo \<le> v \<and> v \<le> hi"

text \<open>The checks a command makes in turn, each with the error it returns when it fails.\<close>

fun first_error :: "(bool \<times> DWORD) list \<Rightarrow> DWORD option" where
  "first_error [] = None"
| "first_error ((ok, e) # cs) = (if ok then first_error cs else Some e)"

definition checked :: "(bool \<times> DWORD) list \<Rightarrow> ('s \<Rightarrow> DWORD \<times> 's) \<Rightarrow> 's \<Rightarrow> DWORD \<times> 's" where
  "checked cs f s = (case first_error cs of Some e \<Rightarrow> (e, s) | None \<Rightarrow> f s)"

text \<open>What a function of the table returned, as the result of the command: ERR_FAIL for ERR_VAL.\<close>

definition table_ret :: "err_t \<times> 's \<Rightarrow> DWORD \<times> 's" where
  "table_ret r = (case r of (i, s) \<Rightarrow> (if s32 i = - 6 then - 1 else s32 i, s))"

definition pass :: "'s \<Rightarrow> DWORD \<times> 's" where
  "pass s = (0, s)"

definition addr_type_of :: "DWORD \<Rightarrow> addr_type" where
  "addr_type_of n = (if n = 0 then ADDR_TYPE_NONE else if n = 1 then ADDR_TYPE_BROADCAST
     else if n = 2 then ADDR_TYPE_MULTICAST else ADDR_TYPE_UNICAST)"

definition config_add_multicast :: "'s bus \<Rightarrow> cpswinst \<Rightarrow> switch_param \<Rightarrow> 's \<Rightarrow> DWORD \<times> 's" where
  "config_add_multicast B c p = checked
     [(check_valid_addr (sp_addr p) ADDR_TYPE_MULTICAST, - 3), (check_valid (sp_vid p) 0 4095, - 4),
      (check_valid (sp_port_mask p) 0 7, - 5), (check_valid (sp_super p) 0 1, - 6),
      (check_valid (sp_fwd_state p) 0 3, - 7)]
     (\<lambda>s. table_ret (if sp_vid p = 0
        then cpswif_ale_multicastentry_add B c (sp_port_mask p) (sp_addr p) (sp_super p) (sp_fwd_state p) s
        else cpswif_ale_vlan_add_mcast B c (sp_vid p) (sp_port_mask p) (sp_addr p) (sp_super p) (sp_fwd_state p) s))"

definition config_add_unicast :: "'s bus \<Rightarrow> cpswinst \<Rightarrow> switch_param \<Rightarrow> 's \<Rightarrow> DWORD \<times> 's" where
  "config_add_unicast B c p = checked
     [(check_valid_addr (sp_addr p) ADDR_TYPE_UNICAST, - 3), (check_valid (sp_vid p) 0 4095, - 4),
      (check_valid (sp_port_num p) 0 2, - 8), (check_valid (sp_ucast_flags p) 0 3, - 9),
      (check_valid (sp_ucast_type p) 0 3, - 9)]
     (\<lambda>s. table_ret (if sp_vid p = 0
        then cpswif_ale_unicastentry_add B c (sp_port_num p) (sp_addr p) (sp_ucast_flags p) (sp_ucast_type p) s
        else cpswif_ale_vlan_add_ucast B c (sp_vid p) (sp_port_num p) (sp_addr p) (sp_ucast_flags p) (sp_ucast_type p) s))"

definition config_add_oui :: "'s bus \<Rightarrow> cpswinst \<Rightarrow> switch_param \<Rightarrow> 's \<Rightarrow> DWORD \<times> 's" where
  "config_add_oui B c p = checked [(check_valid_addr (sp_addr p) ADDR_TYPE_UNICAST, - 3)]
     (\<lambda>s. table_ret (cpswif_ale_OUI_add B c (sp_addr p) s))"

definition config_find_addr :: "'s bus \<Rightarrow> cpswinst \<Rightarrow> switch_param \<Rightarrow> 's \<Rightarrow> DWORD \<times> 's" where
  "config_find_addr B c p = checked
     [(check_valid_addr (sp_addr p) ADDR_TYPE_NONE, - 3), (check_valid (sp_vid p) 0 4095, - 4)]
     (\<lambda>s. table_ret (cpswif_ale_entry_match_addr B c (sp_addr p) (sp_vid p) s))"

definition config_del_multicast :: "'s bus \<Rightarrow> cpswinst \<Rightarrow> switch_param \<Rightarrow> 's \<Rightarrow> DWORD \<times> 's" where
  "config_del_multicast B c p = checked
     [(check_valid_addr (sp_addr p) ADDR_TYPE_MULTICAST, - 3), (check_valid (sp_vid p) 0 4095, - 4),
      (check_valid (sp_port_mask p) 0 7, - 5)]
     (\<lambda>s. table_ret (if sp_vid p = 0 then cpswif_ale_multicastentry_del B c (sp_port_mask p) (sp_addr p) s
        else cpswif_ale_vlan_del_mcast B c (sp_vid p) (sp_port_mask p) (sp_addr p) s))"

definition config_del_unicast :: "'s bus \<Rightarrow> cpswinst \<Rightarrow> switch_param \<Rightarrow> 's \<Rightarrow> DWORD \<times> 's" where
  "config_del_unicast B c p = checked
     [(check_valid_addr (sp_addr p) ADDR_TYPE_UNICAST, - 3), (check_valid (sp_vid p) 0 4095, - 4),
      (check_valid (sp_port_num p) 0 2, - 8)]
     (\<lambda>s. table_ret (if sp_vid p = 0 then cpswif_ale_unicastentry_del B c (sp_port_num p) (sp_addr p) s
        else cpswif_ale_vlan_del_ucast B c (sp_vid p) (sp_port_num p) (sp_addr p) s))"

definition config_add_vlan :: "'s bus \<Rightarrow> cpswinst \<Rightarrow> switch_param \<Rightarrow> 's \<Rightarrow> DWORD \<times> 's" where
  "config_add_vlan B c p = checked
     [(check_valid (sp_vid p) 0 4095, - 4), (check_valid (sp_port_num p) 0 2, - 8),
      (check_valid (sp_reg_multi p) 0 7, - 10), (check_valid (sp_unreg_multi p) 0 7, - 11),
      (check_valid (sp_untag_port p) 0 7, - 12)]
     (\<lambda>s. table_ret (cpswif_ale_vlan_add B c (sp_vid p) (sp_port_num p) (sp_untag_port p) (sp_reg_multi p) (sp_unreg_multi p) s))"

definition config_find_vlan :: "'s bus \<Rightarrow> cpswinst \<Rightarrow> switch_param \<Rightarrow> 's \<Rightarrow> DWORD \<times> 's" where
  "config_find_vlan B c p = checked [(check_valid (sp_vid p) 0 4095, - 4)]
     (\<lambda>s. table_ret (cpswif_ale_entry_match_vlan B c (sp_vid p) s))"

definition config_del_vlan :: "'s bus \<Rightarrow> cpswinst \<Rightarrow> switch_param \<Rightarrow> 's \<Rightarrow> DWORD \<times> 's" where
  "config_del_vlan B c p = checked
     [(check_valid (sp_vid p) 0 4095, - 4), (check_valid (sp_port_num p) 0 2, - 8)]
     (\<lambda>s. table_ret (cpswif_ale_vlan_del B c (sp_vid p) (sp_port_num p) s))"

definition config_port_vlan :: "'s bus \<Rightarrow> cpswinst \<Rightarrow> switch_param \<Rightarrow> 's \<Rightarrow> DWORD \<times> 's" where
  "config_port_vlan B c p = checked
     [(check_valid (sp_vid p) 0 4095, - 4), (check_valid (sp_port_num p) 0 2, - 8),
      (check_valid (sp_cfi_port p) 0 1, - 16), (check_valid (sp_prio_port p) 0 7, - 17)]
     (\<lambda>s. pass (if sp_port_num p = 0
        then CPSWPortVLANConfig B (host_port_base c) (sp_vid p) (sp_cfi_port p) (sp_prio_port p) s
        else if sp_port_num p \<le> 2
        then CPSWPortVLANConfig B (port_base (slave c (sp_port_num p))) (sp_vid p) (sp_cfi_port p) (sp_prio_port p) s
        else s))"

text \<open>
  The dump of the table goes through the indices 0 to 1024 inclusive; the result lists what the
  loop stores, the last three words behind the buffer of 1024 entries.
\<close>

definition config_dump :: "'s bus \<Rightarrow> cpswinst \<Rightarrow> 's \<Rightarrow> DWORD list list \<times> 's" where
  "config_dump B c s = get_entries B (ale_base c) 0 1025 s"

definition config_vlanaware :: "'s bus \<Rightarrow> cpswinst \<Rightarrow> switch_param \<Rightarrow> 's \<Rightarrow> DWORD \<times> 's" where
  "config_vlanaware B c p = checked
     [(check_valid (sp_vlan_aware p) 0 1, - 14), (check_valid (sp_drop_packet p) 0 1, - 15)]
     (\<lambda>s. let a = ale_base c;
              s = (if sp_vlan_aware p = 0 then CPSWVLANAwareDisable B a s else CPSWVLANAwareEnable B a s)
          in pass (if sp_drop_packet p = 0 then CPSWALEVLANAwareClear B a s else CPSWALEVLANAwareSet B a s))"

definition config_ratelimit :: "'s bus \<Rightarrow> cpswinst \<Rightarrow> switch_param \<Rightarrow> 's \<Rightarrow> DWORD \<times> 's" where
  "config_ratelimit B c p = checked
     [(check_valid (sp_enable p) 0 1, - 18), (check_valid (sp_direction p) 0 1, - 19),
      (check_valid (sp_port_num p) 0 2, - 8), (check_valid (sp_addr_type p) 1 3, - 23),
      (check_valid (sp_limit p) 0 255, - 20)]
     (\<lambda>s. pass (cpswif_rate_limit B c (sp_enable p) (sp_direction p) (sp_port_num p) (addr_type_of (sp_addr_type p)) (sp_limit p) s))"

definition config_unknown_vlan :: "'s bus \<Rightarrow> cpswinst \<Rightarrow> switch_param \<Rightarrow> 's \<Rightarrow> DWORD \<times> 's" where
  "config_unknown_vlan B c p = checked [(check_valid (sp_unknown_vlan p) 1 4, - 21)]
     (if sp_unknown_vlan p = 1 then checked [(check_valid (sp_untag_port p) 0 7, - 12)]
        (\<lambda>s. pass (CPSWALEUnknownUntaggedEgressSet B (ale_base c) (sp_untag_port p) s))
      else if sp_unknown_vlan p = 2 then checked [(check_valid (sp_reg_multi p) 0 7, - 10)]
        (\<lambda>s. pass (CPSWALEUnknownRegFloodMaskSet B (ale_base c) (sp_reg_multi p) s))
      else if sp_unknown_vlan p = 3 then checked [(check_valid (sp_unreg_multi p) 0 7, - 11)]
        (\<lambda>s. pass (CPSWALEUnknownUnRegFloodMaskSet B (ale_base c) (sp_unreg_multi p) s))
      else checked [(check_valid (sp_port_mask p) 0 0, - 11)]
        (\<lambda>s. pass (CPSWALEUnknownMemberListSet B (ale_base c) (sp_port_mask p) s)))"

definition config_macauth :: "'s bus \<Rightarrow> cpswinst \<Rightarrow> switch_param \<Rightarrow> 's \<Rightarrow> DWORD \<times> 's" where
  "config_macauth B c p = checked [(check_valid (sp_mac_auth p) 0 1, - 22)]
     (\<lambda>s. pass (if sp_mac_auth p = 0 then CPSWALEAUTHModeClear B (ale_base c) s else CPSWALEAUTHModeSet B (ale_base c) s))"

definition config_port_state :: "'s bus \<Rightarrow> cpswinst \<Rightarrow> switch_param \<Rightarrow> 's \<Rightarrow> DWORD \<times> 's" where
  "config_port_state B c p = checked
     [(check_valid (sp_port_num p) 0 2, - 8), (check_valid (sp_port_state p) 0 3, - 24)]
     (\<lambda>s. pass (CPSWALEPortStateSet B (ale_base c) (sp_port_num p) (sp_port_state p) s))"

definition config_phy ::
    "'s bus \<Rightarrow> (DWORD \<Rightarrow> 's \<Rightarrow> 's) \<Rightarrow> WORD \<Rightarrow> cpswinst \<Rightarrow> phy_param \<Rightarrow> 's \<Rightarrow> (DWORD \<times> 's) option" where
  "config_phy B dly junk c q s =
     (case first_error ([(check_valid (pp_slv_port_num q) 1 2, - 25), (check_valid (pp_autoneg q) 0 1, - 26)]
         @ (if pp_autoneg q = 1 then [(check_valid (pp_config q) 1 0x3F, - 27)]
            else [(check_valid (pp_speed q) 0 2, - 28), (check_valid (pp_duplex q) 0 1, - 29)])) of
        Some e \<Rightarrow> Some (e, s)
      | None \<Rightarrow> do {
          (_, s) \<leftarrow> (if pp_autoneg q \<noteq> 0 then cpswif_phy_autoneg B dly junk c (pp_slv_port_num q) (pp_config q) s
                     else cpswif_phy_forced B dly junk c (pp_slv_port_num q) (pp_speed q) (pp_duplex q) s);
          Some (0, s) })"

text \<open>The result: the return code, the words the two dump commands store, and the hardware.\<close>

definition no_dump :: "DWORD \<times> 's \<Rightarrow> (DWORD \<times> DWORD list list \<times> 's) option" where
  "no_dump r = (case r of (e, s) \<Rightarrow> Some (e, [], s))"

definition cpsw_switch_configuration ::
    "'s bus \<Rightarrow> (DWORD \<Rightarrow> 's \<Rightarrow> 's) \<Rightarrow> WORD \<Rightarrow> cpswinst \<Rightarrow> config_cmd \<Rightarrow> switch_param \<Rightarrow> phy_param \<Rightarrow> 's \<Rightarrow>
     (DWORD \<times> DWORD list list \<times> 's) option" where
  "cpsw_switch_configuration B dly junk c cmd p q s =
     (case cmd of
        CONFIG_SWITCH_ADD_MULTICAST \<Rightarrow> no_dump (config_add_multicast B c p s)
      | CONFIG_SWITCH_ADD_UNICAST \<Rightarrow> no_dump (config_add_unicast B c p s)
      | CONFIG_SWITCH_ADD_OUI \<Rightarrow> no_dump (config_add_oui B c p s)
      | CONFIG_SWITCH_FIND_ADDR \<Rightarrow> no_dump (config_find_addr B c p s)
      | CONFIG_SWITCH_DEL_MULTICAST \<Rightarrow> no_dump (config_del_multicast B c p s)
      | CONFIG_SWITCH_DEL_UNICAST \<Rightarrow> no_dump (config_del_unicast B c p s)
      | CONFIG_SWITCH_ADD_VLAN \<Rightarrow> no_dump (config_add_vlan B c p s)
      | CONFIG_SWITCH_FIND_VLAN \<Rightarrow> no_dump (config_find_vlan B c p s)
      | CONFIG_SWITCH_DEL_VLAN \<Rightarrow> no_dump (config_del_vlan B c p s)
      | CONFIG_SWITCH_PORT_VLAN_CONFIG \<Rightarrow> no_dump (config_port_vlan B c p s)
      | CONFIG_SWITCH_AGEOUT \<Rightarrow> map_option (\<lambda>s. (0, [], s)) (CPSWALEAgeOut B (ale_base c) s)
      | CONFIG_SWITCH_DUMP \<Rightarrow> (case config_dump B c s of (es, s) \<Rightarrow> Some (0, es, s))
      | CONFIG_SWITCH_CONFIG_DUMP \<Rightarrow>
          if \<not> check_valid (sp_ale_tbl_index p) 0 1023 then Some (- 13, [], s)
          else (case CPSWALETableEntryGet B (ale_base c) (sp_ale_tbl_index p) s of (e, s) \<Rightarrow> Some (0, [e], s))
      | CONFIG_SWITCH_VLANAWARE \<Rightarrow> no_dump (config_vlanaware B c p s)
      | CONFIG_SWITCH_RATELIMIT \<Rightarrow> no_dump (config_ratelimit B c p s)
      | CONFIG_SWITCH_VID_INGRESS_CHECK \<Rightarrow> no_dump (checked [(check_valid (sp_port_num p) 0 2, - 8)]
          (\<lambda>s. pass (CPSWALEVIDIngressCheckSet B (ale_base c) (sp_port_num p) s)) s)
      | CONFIG_SWITCH_ADD_UNKNOWN_VLAN_INFO \<Rightarrow> no_dump (config_unknown_vlan B c p s)
      | CONFIG_SWITCH_MACAUTH \<Rightarrow> no_dump (config_macauth B c p s)
      | CONFIG_SWITCH_PORT_STATE \<Rightarrow> no_dump (config_port_state B c p s)
      | CONFIG_SWITCH_SET_PORT_CONFIG \<Rightarrow> map_option (\<lambda>(e, s). (e, [], s)) (config_phy B dly junk c q s)
      | CONFIG_SWITCH_INVALID \<Rightarrow> Some (- 2, [], s))"

end
