(* ===== verification/Dma.thy ===== *)
theory Dma
  imports Bus "HOL-Library.Monad_Syntax"
begin

unbundle bit_operations_syntax

text \<open>
  The DMA controller: \<^verbatim>\<open>drivers_C/dma.c\<close>.  As in \<open>EthHw\<close> every function takes the bus and the base
  address.  A parameter set of a channel is a record of the fields the caller fills in; the controller
  keeps it as eight words.  The file keeps one variable, \<^verbatim>\<open>regionId\<close>, which is zero initially and only
  ever set to zero.
\<close>

definition regionId :: DWORD where
  "regionId = 0"

abbreviation FALSE :: DWORD where "FALSE \<equiv> 0"
abbreviation TRUE :: DWORD where "TRUE \<equiv> 1"
abbreviation SOC_DMA_NUM_DMACH :: DWORD where "SOC_DMA_NUM_DMACH \<equiv> 64"
abbreviation SOC_DMA_NUM_QDMACH :: DWORD where "SOC_DMA_NUM_QDMACH \<equiv> 8"
abbreviation DMA_SET_ALL_BITS :: DWORD where "DMA_SET_ALL_BITS \<equiv> 0xFFFFFFFF"
abbreviation DMA_CHANNEL_TYPE_DMA :: DWORD where "DMA_CHANNEL_TYPE_DMA \<equiv> 0"
abbreviation DMA_CHANNEL_TYPE_QDMA :: DWORD where "DMA_CHANNEL_TYPE_QDMA \<equiv> 1"
abbreviation DMA_TRIG_MODE_MANUAL :: DWORD where "DMA_TRIG_MODE_MANUAL \<equiv> 0"
abbreviation DMA_TRIG_MODE_QDMA :: DWORD where "DMA_TRIG_MODE_QDMA \<equiv> 1"
abbreviation DMA_TRIG_MODE_EVENT :: DWORD where "DMA_TRIG_MODE_EVENT \<equiv> 2"

abbreviation DMACC_EMCR :: DWORD where "DMACC_EMCR \<equiv> 0x308"
abbreviation DMACC_EMCRH :: DWORD where "DMACC_EMCRH \<equiv> 0x30C"
abbreviation DMACC_QEMCR :: DWORD where "DMACC_QEMCR \<equiv> 0x314"
abbreviation DMACC_CCERRCLR :: DWORD where "DMACC_CCERRCLR \<equiv> 0x31C"
abbreviation DMACC_QDMAQNUM :: DWORD where "DMACC_QDMAQNUM \<equiv> 0x260"

definition DMACC_DCHMAP :: "DWORD \<Rightarrow> DWORD" where "DMACC_DCHMAP n = 0x100 + n * 4"
definition DMACC_QCHMAP :: "DWORD \<Rightarrow> DWORD" where "DMACC_QCHMAP n = 0x200 + n * 4"
definition DMACC_DMAQNUM :: "DWORD \<Rightarrow> DWORD" where "DMACC_DMAQNUM n = 0x240 + n * 4"
definition DMACC_DRAE :: "DWORD \<Rightarrow> DWORD" where "DMACC_DRAE n = 0x340 + n * 8"
definition DMACC_DRAEH :: "DWORD \<Rightarrow> DWORD" where "DMACC_DRAEH n = 0x344 + n * 8"
definition DMACC_QRAE :: "DWORD \<Rightarrow> DWORD" where "DMACC_QRAE n = 0x380 + n * 4"
definition DMACC_OPT :: "DWORD \<Rightarrow> DWORD" where "DMACC_OPT n = 0x4000 + 0x20 * n"

text \<open>The registers of a shadow region, by the offset of the first region's.\<close>

definition DMACC_S :: "DWORD \<Rightarrow> DWORD \<Rightarrow> DWORD" where "DMACC_S r n = r + 0x200 * n"

abbreviation S_ECR :: DWORD where "S_ECR \<equiv> 0x2008"
abbreviation S_ECRH :: DWORD where "S_ECRH \<equiv> 0x200C"
abbreviation S_ESR :: DWORD where "S_ESR \<equiv> 0x2010"
abbreviation S_ESRH :: DWORD where "S_ESRH \<equiv> 0x2014"
abbreviation S_EER :: DWORD where "S_EER \<equiv> 0x2020"
abbreviation S_EERH :: DWORD where "S_EERH \<equiv> 0x2024"
abbreviation S_EECR :: DWORD where "S_EECR \<equiv> 0x2028"
abbreviation S_EECRH :: DWORD where "S_EECRH \<equiv> 0x202C"
abbreviation S_EESR :: DWORD where "S_EESR \<equiv> 0x2030"
abbreviation S_EESRH :: DWORD where "S_EESRH \<equiv> 0x2034"
abbreviation S_SECR :: DWORD where "S_SECR \<equiv> 0x2040"
abbreviation S_SECRH :: DWORD where "S_SECRH \<equiv> 0x2044"
abbreviation S_IER :: DWORD where "S_IER \<equiv> 0x2050"
abbreviation S_IERH :: DWORD where "S_IERH \<equiv> 0x2054"
abbreviation S_IECR :: DWORD where "S_IECR \<equiv> 0x2058"
abbreviation S_IECRH :: DWORD where "S_IECRH \<equiv> 0x205C"
abbreviation S_IESR :: DWORD where "S_IESR \<equiv> 0x2060"
abbreviation S_IESRH :: DWORD where "S_IESRH \<equiv> 0x2064"
abbreviation S_IPR :: DWORD where "S_IPR \<equiv> 0x2068"
abbreviation S_IPRH :: DWORD where "S_IPRH \<equiv> 0x206C"
abbreviation S_ICR :: DWORD where "S_ICR \<equiv> 0x2070"
abbreviation S_ICRH :: DWORD where "S_ICRH \<equiv> 0x2074"
abbreviation S_QEECR :: DWORD where "S_QEECR \<equiv> 0x2088"
abbreviation S_QEESR :: DWORD where "S_QEESR \<equiv> 0x208C"
abbreviation S_QSECR :: DWORD where "S_QSECR \<equiv> 0x2094"

definition DMACC_DMAQNUM_CLR :: "DWORD \<Rightarrow> DWORD" where
  "DMACC_DMAQNUM_CLR chNum = NOT (push_bit (unat (chNum mod 8 * 4)) 7)"

definition DMACC_DMAQNUM_SET :: "DWORD \<Rightarrow> DWORD \<Rightarrow> DWORD" where
  "DMACC_DMAQNUM_SET chNum queNum = push_bit (unat (chNum mod 8 * 4)) (7 AND queNum)"

definition DMACC_QDMAQNUM_CLR :: "DWORD \<Rightarrow> DWORD" where
  "DMACC_QDMAQNUM_CLR chNum = NOT (push_bit (unat (chNum * 4)) 7)"

definition DMACC_QDMAQNUM_SET :: "DWORD \<Rightarrow> DWORD \<Rightarrow> DWORD" where
  "DMACC_QDMAQNUM_SET chNum queNum = push_bit (unat (chNum * 4)) (7 AND queNum)"

definition DMACC_QCHMAP_PAENTRY_SET :: "DWORD \<Rightarrow> DWORD" where
  "DMACC_QCHMAP_PAENTRY_SET paRAMId = push_bit 5 (0x1FF AND paRAMId)"

definition DMACC_QCHMAP_TRWORD_SET :: "DWORD \<Rightarrow> DWORD" where
  "DMACC_QCHMAP_TRWORD_SET w = push_bit 2 (7 AND w)"

definition DMACC_OPT_TCC_SET :: "DWORD \<Rightarrow> DWORD" where
  "DMACC_OPT_TCC_SET tcc = push_bit 12 (0x3F AND tcc)"

text \<open>\<^verbatim>\<open>0x01u << n\<close>\<close>

abbreviation bitw :: "DWORD \<Rightarrow> DWORD" where "bitw n \<equiv> push_bit (unat n) 1"

section \<open>Events, interrupts and errors\<close>

text \<open>
  Every register for the channels 32 to 63 is a second one; \<open>lo_hi\<close> is the choice the functions make
  between the two by the number of the channel.
\<close>

definition lo_hi :: "(DWORD \<Rightarrow> DWORD \<Rightarrow> 's \<Rightarrow> 's) \<Rightarrow> DWORD \<Rightarrow> DWORD \<Rightarrow> DWORD \<Rightarrow> 's \<Rightarrow> 's" where
  "lo_hi f lo hi chNum s = (if chNum < 32 then f lo (bitw chNum) s else f hi (bitw (chNum - 32)) s)"

definition DMAClrMissEvt :: "'s bus \<Rightarrow> DWORD \<Rightarrow> DWORD \<Rightarrow> 's \<Rightarrow> 's" where
  "DMAClrMissEvt B base chNum s =
     lo_hi (reg_or B) (base + DMACC_EMCR) (base + DMACC_EMCRH) chNum
       (lo_hi (wr B) (base + DMACC_S S_SECR regionId) (base + DMACC_S S_SECRH regionId) chNum s)"

definition DMAQdmaClrMissEvt :: "'s bus \<Rightarrow> DWORD \<Rightarrow> DWORD \<Rightarrow> 's \<Rightarrow> 's" where
  "DMAQdmaClrMissEvt B base chNum s =
     reg_or B (base + DMACC_QEMCR) (bitw chNum) (wr B (base + DMACC_S S_QSECR regionId) (bitw chNum) s)"

definition DMAClrCCErr :: "'s bus \<Rightarrow> DWORD \<Rightarrow> DWORD \<Rightarrow> 's \<Rightarrow> 's" where
  "DMAClrCCErr B base flags s = wr B (base + DMACC_CCERRCLR) flags s"

definition DMASetEvt :: "'s bus \<Rightarrow> DWORD \<Rightarrow> DWORD \<Rightarrow> 's \<Rightarrow> 's" where
  "DMASetEvt B base chNum s =
     lo_hi (reg_or B) (base + DMACC_S S_ESR regionId) (base + DMACC_S S_ESRH regionId) chNum s"

definition DMAClrEvt :: "'s bus \<Rightarrow> DWORD \<Rightarrow> DWORD \<Rightarrow> 's \<Rightarrow> 's" where
  "DMAClrEvt B base chNum s =
     lo_hi (reg_or B) (base + DMACC_S S_ECR regionId) (base + DMACC_S S_ECRH regionId) chNum s"

definition DMAEnableDmaEvt :: "'s bus \<Rightarrow> DWORD \<Rightarrow> DWORD \<Rightarrow> 's \<Rightarrow> 's" where
  "DMAEnableDmaEvt B base chNum s =
     lo_hi (reg_or B) (base + DMACC_S S_EESR regionId) (base + DMACC_S S_EESRH regionId) chNum s"

text \<open>The high half is shifted by the whole channel number here, so nothing is left of the bit.\<close>

definition DMADisableDmaEvt :: "'s bus \<Rightarrow> DWORD \<Rightarrow> DWORD \<Rightarrow> 's \<Rightarrow> 's" where
  "DMADisableDmaEvt B base chNum s =
     (if chNum < 32 then reg_or B (base + DMACC_S S_EECR regionId) (bitw chNum) s
      else reg_or B (base + DMACC_S S_EECRH regionId) (bitw chNum) s)"

definition DMAEnableQdmaEvt :: "'s bus \<Rightarrow> DWORD \<Rightarrow> DWORD \<Rightarrow> 's \<Rightarrow> 's" where
  "DMAEnableQdmaEvt B base chNum s = wr B (base + DMACC_S S_QEESR regionId) (bitw chNum) s"

definition DMADisableQdmaEvt :: "'s bus \<Rightarrow> DWORD \<Rightarrow> DWORD \<Rightarrow> 's \<Rightarrow> 's" where
  "DMADisableQdmaEvt B base chNum s = wr B (base + DMACC_S S_QEECR regionId) (bitw chNum) s"

definition DMAPeripheralIdGet :: "'s bus \<Rightarrow> DWORD \<Rightarrow> 's \<Rightarrow> DWORD \<times> 's" where
  "DMAPeripheralIdGet B base s = rd B (base + 0) s"

definition DMAGetCCErrStatus :: "'s bus \<Rightarrow> DWORD \<Rightarrow> 's \<Rightarrow> DWORD \<times> 's" where
  "DMAGetCCErrStatus B base s = rd B (base + 0x318) s"

definition DMAGetIntrStatus :: "'s bus \<Rightarrow> DWORD \<Rightarrow> 's \<Rightarrow> DWORD \<times> 's" where
  "DMAGetIntrStatus B base s = rd B (base + DMACC_S S_IPR regionId) s"

definition DMAIntrStatusHighGet :: "'s bus \<Rightarrow> DWORD \<Rightarrow> 's \<Rightarrow> DWORD \<times> 's" where
  "DMAIntrStatusHighGet B base s = rd B (base + DMACC_S S_IPRH regionId) s"

definition DMAGetErrIntrStatus :: "'s bus \<Rightarrow> DWORD \<Rightarrow> 's \<Rightarrow> DWORD \<times> 's" where
  "DMAGetErrIntrStatus B base s = rd B (base + 0x300) s"

definition DMAErrIntrHighStatusGet :: "'s bus \<Rightarrow> DWORD \<Rightarrow> 's \<Rightarrow> DWORD \<times> 's" where
  "DMAErrIntrHighStatusGet B base s = rd B (base + 0x304) s"

definition DMAQdmaGetErrIntrStatus :: "'s bus \<Rightarrow> DWORD \<Rightarrow> 's \<Rightarrow> DWORD \<times> 's" where
  "DMAQdmaGetErrIntrStatus B base s = rd B (base + 0x310) s"

definition DMAEnableEvtIntr :: "'s bus \<Rightarrow> DWORD \<Rightarrow> DWORD \<Rightarrow> 's \<Rightarrow> 's" where
  "DMAEnableEvtIntr B base chNum s =
     lo_hi (reg_or B) (base + DMACC_S S_IESR regionId) (base + DMACC_S S_IESRH regionId) chNum s"

definition DMADisableEvtIntr :: "'s bus \<Rightarrow> DWORD \<Rightarrow> DWORD \<Rightarrow> 's \<Rightarrow> 's" where
  "DMADisableEvtIntr B base chNum s =
     lo_hi (reg_or B) (base + DMACC_S S_IECR regionId) (base + DMACC_S S_IECRH regionId) chNum s"

definition DMAClrIntr :: "'s bus \<Rightarrow> DWORD \<Rightarrow> DWORD \<Rightarrow> 's \<Rightarrow> 's" where
  "DMAClrIntr B base value s =
     lo_hi (wr B) (base + DMACC_S S_ICR regionId) (base + DMACC_S S_ICRH regionId) value s"

definition DMACCErrorEvaluate :: "'s bus \<Rightarrow> DWORD \<Rightarrow> 's \<Rightarrow> 's" where
  "DMACCErrorEvaluate B base s = wr B (base + 0x320) 1 s"

definition DMAClearErrorBits :: "'s bus \<Rightarrow> DWORD \<Rightarrow> DWORD \<Rightarrow> DWORD \<Rightarrow> 's \<Rightarrow> 's" where
  "DMAClearErrorBits B base chNum evtQNum s =
     (let s = (if chNum < SOC_DMA_NUM_DMACH
               then lo_hi (wr B) (base + DMACC_S S_SECR regionId) (base + DMACC_S S_SECRH regionId) chNum
                      (lo_hi (wr B) (base + DMACC_EMCR) (base + DMACC_EMCRH) chNum
                        (lo_hi (wr B) (base + DMACC_S S_EECR regionId) (base + DMACC_S S_EECRH regionId) chNum s))
               else s)
      in if evtQNum = 0 then reg_and B (base + DMACC_CCERRCLR) (1 OR 0x10000) s
         else if evtQNum = 1 then reg_and B (base + DMACC_CCERRCLR) (2 OR 0x10000) s
         else if evtQNum = 2 then reg_and B (base + DMACC_CCERRCLR) (4 OR 0x10000) s
         else if evtQNum = 3 then reg_and B (base + DMACC_CCERRCLR) (4 OR 0x10000) s
         else s)"

section \<open>Channels\<close>

definition DMAEnableChInShadowReg :: "'s bus \<Rightarrow> DWORD \<Rightarrow> DWORD \<Rightarrow> DWORD \<Rightarrow> 's \<Rightarrow> 's" where
  "DMAEnableChInShadowReg B base chType chNum s =
     (if chType = DMA_CHANNEL_TYPE_DMA
      then lo_hi (reg_or B) (base + DMACC_DRAE regionId) (base + DMACC_DRAEH regionId) chNum s
      else if chType = DMA_CHANNEL_TYPE_QDMA then reg_or B (base + DMACC_QRAE regionId) (bitw chNum) s
      else s)"

definition DMADisableChInShadowReg :: "'s bus \<Rightarrow> DWORD \<Rightarrow> DWORD \<Rightarrow> DWORD \<Rightarrow> 's \<Rightarrow> 's" where
  "DMADisableChInShadowReg B base chType chNum s =
     (if chType = DMA_CHANNEL_TYPE_DMA
      then lo_hi (\<lambda>a x. reg_and B a (NOT x)) (base + DMACC_DRAE regionId) (base + DMACC_DRAEH regionId) chNum s
      else if chType = DMA_CHANNEL_TYPE_QDMA
      then reg_and B (base + DMACC_QRAE regionId) (push_bit (unat chNum) (NOT 1)) s
      else s)"

definition DMAChannelToParamMap :: "'s bus \<Rightarrow> DWORD \<Rightarrow> DWORD \<Rightarrow> DWORD \<Rightarrow> 's \<Rightarrow> 's" where
  "DMAChannelToParamMap B base channel paramSet s = wr B (base + DMACC_DCHMAP channel) (push_bit 5 paramSet) s"

definition DMAMapChToEvtQ :: "'s bus \<Rightarrow> DWORD \<Rightarrow> DWORD \<Rightarrow> DWORD \<Rightarrow> DWORD \<Rightarrow> 's \<Rightarrow> 's" where
  "DMAMapChToEvtQ B base chType chNum evtQNum s =
     (if chType = DMA_CHANNEL_TYPE_DMA
      then reg_or B (base + DMACC_DMAQNUM (drop_bit 3 chNum)) (DMACC_DMAQNUM_SET chNum evtQNum)
             (reg_and B (base + DMACC_DMAQNUM (drop_bit 3 chNum)) (DMACC_DMAQNUM_CLR chNum) s)
      else if chType = DMA_CHANNEL_TYPE_QDMA
      then reg_or B (base + DMACC_QDMAQNUM) (DMACC_QDMAQNUM_SET chNum evtQNum) s
      else s)"

definition DMAUnmapChToEvtQ :: "'s bus \<Rightarrow> DWORD \<Rightarrow> DWORD \<Rightarrow> DWORD \<Rightarrow> 's \<Rightarrow> 's" where
  "DMAUnmapChToEvtQ B base chType chNum s =
     (if chType = DMA_CHANNEL_TYPE_DMA
      then reg_or B (base + DMACC_DMAQNUM (drop_bit 3 chNum)) (DMACC_DMAQNUM_CLR chNum) s
      else if chType = DMA_CHANNEL_TYPE_QDMA
      then reg_or B (base + DMACC_QDMAQNUM) (DMACC_QDMAQNUM_CLR chNum) s
      else s)"

text \<open>The parameter set of a QDMA channel is fixed; the function corrects the caller's and returns it.\<close>

definition DMAMapQdmaChToPaRAM :: "'s bus \<Rightarrow> DWORD \<Rightarrow> DWORD \<Rightarrow> DWORD \<Rightarrow> 's \<Rightarrow> DWORD \<times> 's" where
  "DMAMapQdmaChToPaRAM B base chNum paRAMId s =
     (let p = (if SOC_DMA_NUM_DMACH + chNum = paRAMId then paRAMId else SOC_DMA_NUM_DMACH + chNum) in
      (p, reg_or B (base + DMACC_QCHMAP chNum) (DMACC_QCHMAP_PAENTRY_SET p)
            (reg_and B (base + DMACC_QCHMAP chNum) 0xFFFFC01F s)))"

definition DMASetQdmaTrigWord :: "'s bus \<Rightarrow> DWORD \<Rightarrow> DWORD \<Rightarrow> DWORD \<Rightarrow> 's \<Rightarrow> 's" where
  "DMASetQdmaTrigWord B base chNum trigWord s =
     reg_or B (base + DMACC_QCHMAP chNum) (DMACC_QCHMAP_TRWORD_SET trigWord) s"

definition set_tcc :: "'s bus \<Rightarrow> DWORD \<Rightarrow> DWORD \<Rightarrow> DWORD \<Rightarrow> 's \<Rightarrow> 's" where
  "set_tcc B base chNum tccNum s =
     reg_or B (base + DMACC_OPT chNum) (DMACC_OPT_TCC_SET tccNum) (reg_and B (base + DMACC_OPT chNum) 0xFFFC0FFF s)"

definition DMARequestChannel :: "'s bus \<Rightarrow> DWORD \<Rightarrow> DWORD \<Rightarrow> DWORD \<Rightarrow> DWORD \<Rightarrow> DWORD \<Rightarrow> 's \<Rightarrow> DWORD \<times> 's" where
  "DMARequestChannel B base chType chNum tccNum evtQNum s =
     (if chNum < SOC_DMA_NUM_DMACH then
        let s = DMAMapChToEvtQ B base chType chNum evtQNum (DMAEnableChInShadowReg B base chType chNum s) in
        if chType = DMA_CHANNEL_TYPE_DMA then
          if tccNum < SOC_DMA_NUM_DMACH
          then (TRUE, set_tcc B base chNum tccNum (DMAEnableEvtIntr B base chNum s))
          else (FALSE, set_tcc B base chNum tccNum s)
        else if chType = DMA_CHANNEL_TYPE_QDMA then
          if tccNum < SOC_DMA_NUM_QDMACH
          then (TRUE, set_tcc B base chNum tccNum (DMAEnableEvtIntr B base chNum s))
          else (FALSE, set_tcc B base chNum tccNum s)
        else (FALSE, s)
      else (FALSE, s))"

definition DMAEnableTransfer :: "'s bus \<Rightarrow> DWORD \<Rightarrow> DWORD \<Rightarrow> DWORD \<Rightarrow> 's \<Rightarrow> DWORD \<times> 's" where
  "DMAEnableTransfer B base chNum trigMode s =
     (if trigMode = DMA_TRIG_MODE_MANUAL then
        if chNum < SOC_DMA_NUM_DMACH then (TRUE, DMASetEvt B base chNum s) else (FALSE, s)
      else if trigMode = DMA_TRIG_MODE_QDMA then
        if chNum < SOC_DMA_NUM_QDMACH then (TRUE, DMAEnableQdmaEvt B base chNum s) else (FALSE, s)
      else if trigMode = DMA_TRIG_MODE_EVENT then
        if chNum < SOC_DMA_NUM_DMACH
        then (TRUE, DMAEnableDmaEvt B base chNum (DMAClrMissEvt B base chNum s)) else (FALSE, s)
      else (FALSE, s))"

definition DMADisableTransfer :: "'s bus \<Rightarrow> DWORD \<Rightarrow> DWORD \<Rightarrow> DWORD \<Rightarrow> 's \<Rightarrow> DWORD \<times> 's" where
  "DMADisableTransfer B base chNum trigMode s =
     (if trigMode = DMA_TRIG_MODE_MANUAL then
        if chNum < SOC_DMA_NUM_DMACH then (TRUE, DMAClrEvt B base chNum s) else (FALSE, s)
      else if trigMode = DMA_TRIG_MODE_QDMA then
        if chNum < SOC_DMA_NUM_QDMACH then (TRUE, DMADisableQdmaEvt B base chNum s) else (FALSE, s)
      else if trigMode = DMA_TRIG_MODE_EVENT then
        if chNum < SOC_DMA_NUM_DMACH
        then (TRUE, DMADisableDmaEvt B base chNum (DMAClrMissEvt B base chNum s)) else (FALSE, s)
      else (FALSE, s))"

definition DMAFreeChannel ::
  "'s bus \<Rightarrow> DWORD \<Rightarrow> DWORD \<Rightarrow> DWORD \<Rightarrow> DWORD \<Rightarrow> DWORD \<Rightarrow> DWORD \<Rightarrow> 's \<Rightarrow> DWORD \<times> 's" where
  "DMAFreeChannel B base chType chNum trigMode tccNum evtQNum s =
     (if chNum < SOC_DMA_NUM_DMACH then
        let s = DMAUnmapChToEvtQ B base chType chNum
                  (DMADisableChInShadowReg B base chType chNum (snd (DMADisableTransfer B base chNum trigMode s))) in
        if chType = DMA_CHANNEL_TYPE_DMA \<and> tccNum < SOC_DMA_NUM_DMACH
        then (TRUE, DMADisableEvtIntr B base chNum s)
        else if chType = DMA_CHANNEL_TYPE_QDMA \<and> tccNum < SOC_DMA_NUM_QDMACH
        then (TRUE, DMADisableEvtIntr B base chNum s)
        else (FALSE, s)
      else (FALSE, s))"

section \<open>Parameter sets\<close>

record DMACCPaRAMEntry =
  opt :: DWORD
  srcAddr :: DWORD
  aCnt :: WORD
  bCnt :: WORD
  destAddr :: DWORD
  srcBIdx :: WORD
  destBIdx :: WORD
  linkAddr :: WORD
  bCntReload :: WORD
  srcCIdx :: WORD
  destCIdx :: WORD
  cCnt :: WORD
  rsvd :: WORD

text \<open>Two half-words as they lie in one word of the structure, the first in the low half.\<close>

definition halves :: "WORD \<Rightarrow> WORD \<Rightarrow> DWORD" where
  "halves lo hi = ucast lo OR push_bit 16 (ucast hi)"

definition param_words :: "DMACCPaRAMEntry \<Rightarrow> DWORD list" where
  "param_words p = [opt p, srcAddr p, halves (aCnt p) (bCnt p), destAddr p, halves (srcBIdx p) (destBIdx p),
     halves (linkAddr p) (bCntReload p), halves (srcCIdx p) (destCIdx p), halves (cCnt p) (rsvd p)]"

definition words_param :: "DWORD list \<Rightarrow> DMACCPaRAMEntry" where
  "words_param w = (let lo = (\<lambda>i. ucast (w ! i) :: WORD); hi = (\<lambda>i. ucast (drop_bit 16 (w ! i)) :: WORD) in
     \<lparr>opt = w ! 0, srcAddr = w ! 1, aCnt = lo 2, bCnt = hi 2, destAddr = w ! 3, srcBIdx = lo 4, destBIdx = hi 4,
      linkAddr = lo 5, bCntReload = hi 5, srcCIdx = lo 6, destCIdx = hi 6, cCnt = lo 7, rsvd = hi 7\<rparr>)"

definition param_addrs :: "DWORD \<Rightarrow> DWORD \<Rightarrow> DWORD list" where
  "param_addrs base n = map (\<lambda>i. base + DMACC_OPT n + 4 * i) [0, 1, 2, 3, 4, 5, 6, 7]"

definition DMAGetPaRAM :: "'s bus \<Rightarrow> DWORD \<Rightarrow> DWORD \<Rightarrow> 's \<Rightarrow> DMACCPaRAMEntry \<times> 's" where
  "DMAGetPaRAM B base paRAMId s = (case rd_list B (param_addrs base paRAMId) s of (w, s) \<Rightarrow> (words_param w, s))"

definition DMAQdmaGetPaRAM :: "'s bus \<Rightarrow> DWORD \<Rightarrow> DWORD \<Rightarrow> DWORD \<Rightarrow> 's \<Rightarrow> DMACCPaRAMEntry \<times> 's" where
  "DMAQdmaGetPaRAM B base chNum paRAMId s =
     (case rd_list B (param_addrs base paRAMId) s of (w, s) \<Rightarrow> (words_param w, s))"

definition DMASetPaRAM :: "'s bus \<Rightarrow> DWORD \<Rightarrow> DWORD \<Rightarrow> DMACCPaRAMEntry \<Rightarrow> 's \<Rightarrow> 's" where
  "DMASetPaRAM B base chNum p s = wr_list B (zip (param_addrs base chNum) (param_words p)) s"

definition DMAQdmaSetPaRAM :: "'s bus \<Rightarrow> DWORD \<Rightarrow> DWORD \<Rightarrow> DWORD \<Rightarrow> DMACCPaRAMEntry \<Rightarrow> 's \<Rightarrow> 's" where
  "DMAQdmaSetPaRAM B base chNum paRAMId p s = wr_list B (zip (param_addrs base paRAMId) (param_words p)) s"

text \<open>The range check of the next two reads \<^verbatim>\<open>entry > OPT || entry < CCNT\<close> and excludes nothing.\<close>

definition DMAQdmaSetPaRAMEntry :: "'s bus \<Rightarrow> DWORD \<Rightarrow> DWORD \<Rightarrow> DWORD \<Rightarrow> DWORD \<Rightarrow> 's \<Rightarrow> 's" where
  "DMAQdmaSetPaRAMEntry B base paRAMId paRAMEntry v s =
     (if paRAMEntry > 0 \<or> paRAMEntry < 7 then wr B (base + DMACC_OPT paRAMId + paRAMEntry * 4) v s else s)"

definition DMAQdmaGetPaRAMEntry :: "'s bus \<Rightarrow> DWORD \<Rightarrow> DWORD \<Rightarrow> DWORD \<Rightarrow> 's \<Rightarrow> DWORD \<times> 's" where
  "DMAQdmaGetPaRAMEntry B base paRAMId paRAMEntry s =
     (if paRAMEntry > 0 \<or> paRAMEntry < 7 then rd B (base + DMACC_OPT paRAMId + paRAMEntry * 4) s else (0, s))"

section \<open>Initialisation and context\<close>

definition DMAVersionGet :: DWORD where
  "DMAVersionGet = 2"

definition dmaqnum_step :: "'s bus \<Rightarrow> DWORD \<Rightarrow> DWORD \<Rightarrow> nat \<Rightarrow> 's \<Rightarrow> 's" where
  "dmaqnum_step B base queNum count s =
     (let a = base + DMACC_DMAQNUM (drop_bit 3 (of_nat count)) in
      reg_or B a (DMACC_DMAQNUM_SET (of_nat count) queNum) (reg_and B a (DMACC_DMAQNUM_CLR (of_nat count)) s))"

definition qdmaqnum_step :: "'s bus \<Rightarrow> DWORD \<Rightarrow> DWORD \<Rightarrow> nat \<Rightarrow> 's \<Rightarrow> 's" where
  "qdmaqnum_step B base queNum count s =
     (let a = base + DMACC_QDMAQNUM in
      reg_or B a (DMACC_QDMAQNUM_SET (of_nat count) queNum) (reg_and B a (DMACC_QDMAQNUM_CLR (of_nat count)) s))"

definition dchmap_writes :: "DWORD \<Rightarrow> (DWORD \<times> DWORD) list" where
  "dchmap_writes base = map (\<lambda>i. (base + DMACC_DCHMAP (of_nat i), push_bit 5 (of_nat i))) [0..<64]"

definition DMAInit :: "'s bus \<Rightarrow> DWORD \<Rightarrow> DWORD \<Rightarrow> 's \<Rightarrow> 's" where
  "DMAInit B base queNum s =
     (let s = wr B (base + DMACC_EMCR) DMA_SET_ALL_BITS s;
          s = wr B (base + DMACC_EMCRH) DMA_SET_ALL_BITS s;
          s = wr B (base + DMACC_QEMCR) DMA_SET_ALL_BITS s;
          s = wr B (base + DMACC_CCERRCLR) DMA_SET_ALL_BITS s;
          s = wr B (base + DMACC_DRAE regionId) DMA_SET_ALL_BITS s;
          s = wr B (base + DMACC_DRAEH regionId) DMA_SET_ALL_BITS s;
          s = (if DMAVersionGet = 2 then wr_list B (dchmap_writes base) s else s);
          s = fold (dmaqnum_step B base queNum) [0..<64] s;
          s = wr B (base + DMACC_QRAE regionId) DMA_SET_ALL_BITS s
      in fold (qdmaqnum_step B base queNum) [0..<8] s)"

definition DMADeinit :: "'s bus \<Rightarrow> DWORD \<Rightarrow> DWORD \<Rightarrow> 's \<Rightarrow> 's" where
  "DMADeinit B base queNum s =
     (let s = wr B (base + DMACC_DRAE regionId) 0 s;
          s = wr B (base + DMACC_DRAEH regionId) 0 s;
          s = DMAClrCCErr B base 0x10000 s;
          s = wr B (base + DMACC_EMCR) DMA_SET_ALL_BITS s;
          s = wr B (base + DMACC_EMCRH) DMA_SET_ALL_BITS s;
          s = wr B (base + DMACC_CCERRCLR) DMA_SET_ALL_BITS s;
          s = fold (\<lambda>c. reg_and B (base + DMACC_DMAQNUM (drop_bit 3 (of_nat c))) (DMACC_DMAQNUM_CLR (of_nat c))) [0..<64] s
      in fold (\<lambda>c. reg_and B (base + DMACC_QDMAQNUM) (DMACC_QDMAQNUM_CLR (of_nat c))) [0..<8] s)"

text \<open>
  The context: the channel map, the queue numbers, the access enables, the event set, event enable and
  interrupt enable registers of region 0, and 256 parameter sets.  The event enables are read at \<^verbatim>\<open>EER\<close>
  and \<^verbatim>\<open>IER\<close> and restored through \<^verbatim>\<open>EESR\<close> and \<^verbatim>\<open>IESR\<close>, which set bits.
\<close>

record DMACONTEXT =
  dchMap :: "DWORD list"
  dmaQNum :: "DWORD list"
  regAccEnable :: "DWORD list"
  eventSetReg :: "DWORD list"
  enableEvtSetReg :: "DWORD list"
  intEnableSetReg :: "DWORD list"
  dmaParEntry :: "DMACCPaRAMEntry list"

definition dchmap_addrs :: "DWORD \<Rightarrow> DWORD list" where
  "dchmap_addrs base = map (\<lambda>i. base + DMACC_DCHMAP (of_nat i)) [0..<64]"

definition dmaqnum_addrs :: "DWORD \<Rightarrow> DWORD list" where
  "dmaqnum_addrs base = map (\<lambda>i. base + DMACC_DMAQNUM (of_nat i)) [0..<8]"

fun get_params :: "'s bus \<Rightarrow> DWORD \<Rightarrow> DWORD \<Rightarrow> nat \<Rightarrow> 's \<Rightarrow> DMACCPaRAMEntry list \<times> 's" where
  "get_params B base i 0 s = ([], s)"
| "get_params B base i (Suc n) s =
     (case DMAGetPaRAM B base i s of (p, s) \<Rightarrow> case get_params B base (i + 1) n s of (ps, s) \<Rightarrow> (p # ps, s))"

fun set_params :: "'s bus \<Rightarrow> DWORD \<Rightarrow> DWORD \<Rightarrow> DMACCPaRAMEntry list \<Rightarrow> 's \<Rightarrow> 's" where
  "set_params B base i [] s = s"
| "set_params B base i (p # ps) s = set_params B base (i + 1) ps (DMASetPaRAM B base i p s)"

definition maxPar :: nat where
  "maxPar = (if DMAVersionGet = 2 then 256 else 128)"

definition DMAContextSave :: "'s bus \<Rightarrow> DWORD \<Rightarrow> 's \<Rightarrow> DMACONTEXT \<times> 's" where
  "DMAContextSave B base s =
     (case rd_list B (dchmap_addrs base) s of (ch, s) \<Rightarrow>
      case rd_list B (dmaqnum_addrs base) s of (qn, s) \<Rightarrow>
      case rd_list B [base + DMACC_DRAE 0, base + DMACC_DRAEH 0] s of (ae, s) \<Rightarrow>
      case rd_list B [base + DMACC_S S_ESR 0, base + DMACC_S S_ESRH 0] s of (es, s) \<Rightarrow>
      case rd_list B [base + DMACC_S S_EER 0, base + DMACC_S S_EERH 0] s of (ee, s) \<Rightarrow>
      case rd_list B [base + DMACC_S S_IER 0, base + DMACC_S S_IERH 0] s of (ie, s) \<Rightarrow>
      case get_params B base 0 maxPar s of (ps, s) \<Rightarrow>
        (\<lparr>dchMap = ch, dmaQNum = qn, regAccEnable = ae, eventSetReg = es, enableEvtSetReg = ee,
          intEnableSetReg = ie, dmaParEntry = ps\<rparr>, s))"

definition DMAContextRestore :: "'s bus \<Rightarrow> DWORD \<Rightarrow> DMACONTEXT \<Rightarrow> 's \<Rightarrow> 's" where
  "DMAContextRestore B base c s =
     (let s = wr_list B (zip (dchmap_addrs base) (dchMap c)) s;
          s = wr_list B (zip (dmaqnum_addrs base) (dmaQNum c)) s;
          s = wr_list B (zip [base + DMACC_DRAE 0, base + DMACC_DRAEH 0] (regAccEnable c)) s;
          s = wr_list B (zip [base + DMACC_S S_ESR 0, base + DMACC_S S_ESRH 0] (eventSetReg c)) s;
          s = wr_list B (zip [base + DMACC_S S_EESR 0, base + DMACC_S S_EESRH 0] (enableEvtSetReg c)) s;
          s = wr_list B (zip [base + DMACC_S S_IESR 0, base + DMACC_S S_IESRH 0] (intEnableSetReg c)) s
      in set_params B base 0 (take maxPar (dmaParEntry c)) s)"

section \<open>Clocks\<close>

abbreviation SOC_CM_PER_REGS :: DWORD where "SOC_CM_PER_REGS \<equiv> 0x44E00000"
abbreviation CM_PER_TPCC_CLKCTRL :: DWORD where "CM_PER_TPCC_CLKCTRL \<equiv> 0xBC"
abbreviation CM_PER_TPTC0_CLKCTRL :: DWORD where "CM_PER_TPTC0_CLKCTRL \<equiv> 0x24"
abbreviation CM_PER_TPTC1_CLKCTRL :: DWORD where "CM_PER_TPTC1_CLKCTRL \<equiv> 0xFC"
abbreviation CM_PER_TPTC2_CLKCTRL :: DWORD where "CM_PER_TPTC2_CLKCTRL \<equiv> 0x100"

definition module_enable :: "'s bus \<Rightarrow> DWORD \<Rightarrow> 's \<Rightarrow> 's option" where
  "module_enable B a s = wait_field B a 3 2 (reg_or B a 2 s)"

definition dma_clk_cfg :: "'s bus \<Rightarrow> 's \<Rightarrow> 's option" where
  "dma_clk_cfg B s = do {
     s \<leftarrow> module_enable B (SOC_CM_PER_REGS + CM_PER_TPCC_CLKCTRL) s;
     s \<leftarrow> module_enable B (SOC_CM_PER_REGS + CM_PER_TPTC0_CLKCTRL) s;
     s \<leftarrow> module_enable B (SOC_CM_PER_REGS + CM_PER_TPTC1_CLKCTRL) s;
     s \<leftarrow> module_enable B (SOC_CM_PER_REGS + CM_PER_TPTC2_CLKCTRL) s;
     let s = wr B 0x49A00010 0x28 (wr B 0x49900010 0x28 (wr B 0x49800010 0x28 s));
     s \<leftarrow> wait_field B (SOC_CM_PER_REGS + CM_PER_TPCC_CLKCTRL) 0x30000 0 s;
     s \<leftarrow> wait_field B (SOC_CM_PER_REGS + CM_PER_TPTC0_CLKCTRL) 0x30000 0 s;
     s \<leftarrow> wait_field B (SOC_CM_PER_REGS + CM_PER_TPTC0_CLKCTRL) 0x40000 0 s;
     s \<leftarrow> wait_field B (SOC_CM_PER_REGS + CM_PER_TPTC1_CLKCTRL) 0x30000 0 s;
     s \<leftarrow> wait_field B (SOC_CM_PER_REGS + CM_PER_TPTC1_CLKCTRL) 0x40000 0 s;
     s \<leftarrow> wait_field B (SOC_CM_PER_REGS + CM_PER_TPTC2_CLKCTRL) 0x30000 0 s;
     wait_field B (SOC_CM_PER_REGS + CM_PER_TPTC2_CLKCTRL) 0x40000 0 s }"

section \<open>Parameter sets and queues in a controller that holds its registers\<close>

lemma halves_lo [simp]: "ucast (halves lo hi) = lo"
  by (rule bit_word_eqI) (auto simp: halves_def bit_simps)

lemma halves_hi [simp]: "ucast (drop_bit 16 (halves lo hi)) = hi"
  by (rule bit_word_eqI) (auto simp: halves_def bit_simps dest: bit_imp_le_length)

lemma words_param_words [simp]: "words_param (param_words p) = p"
  by (simp add: words_param_def param_words_def Let_def)

lemma length_param_words [simp]: "length (param_words p) = 8"
  by (simp add: param_words_def)

lemma param_addrs_length [simp]: "length (param_addrs base n) = 8"
  by (simp add: param_addrs_def)

lemma param_addrs_distinct [simp]: "distinct (param_addrs base n)"
  by (simp add: param_addrs_def)

context plain_regs
begin

lemma set_param_words:
  assumes "\<forall>a \<in> set (param_addrs base n). plain a"
  shows "map (\<lambda>a. val a (DMASetPaRAM B base n p s)) (param_addrs base n) = param_words p"
proof (rule nth_equalityI)
  fix i assume i: "i < length (map (\<lambda>a. val a (DMASetPaRAM B base n p s)) (param_addrs base n))"
  have m: "map fst (zip (param_addrs base n) (param_words p)) = param_addrs base n" by (rule map_fst_zip) simp
  have "(param_addrs base n ! i, param_words p ! i) \<in> set (zip (param_addrs base n) (param_words p))"
    using i by (auto simp: set_zip)
  then have "val (param_addrs base n ! i) (DMASetPaRAM B base n p s) = param_words p ! i"
    unfolding DMASetPaRAM_def
    by (rule wr_list_val [rotated 2]) (use m assms in \<open>auto simp flip: set_map\<close>)
  then show "map (\<lambda>a. val a (DMASetPaRAM B base n p s)) (param_addrs base n) ! i = param_words p ! i" using i by simp
qed simp

lemma get_set_param:
  assumes "\<forall>a \<in> set (param_addrs base n). plain a"
  shows "DMAGetPaRAM B base n (DMASetPaRAM B base n p s) = (p, DMASetPaRAM B base n p s)"
  using set_param_words [OF assms] by (simp add: DMAGetPaRAM_def rd_list_val [OF assms])

lemma set_param_other:
  assumes "\<forall>a \<in> set (param_addrs base n). plain a" "plain a" "a \<notin> set (param_addrs base n)"
  shows "val a (DMASetPaRAM B base n p s) = val a s"
  unfolding DMASetPaRAM_def using assms by (intro wr_list_other) (auto dest: set_zip_leftD)

end

section \<open>The queue of a channel\<close>

text \<open>Eight channels share a register of queue numbers, four bits each.\<close>

definition queue_of :: "(DWORD \<Rightarrow> 's \<Rightarrow> DWORD) \<Rightarrow> DWORD \<Rightarrow> 's \<Rightarrow> nat \<Rightarrow> DWORD" where
  "queue_of val base s c = take_bit 3 (drop_bit (4 * (c mod 8)) (val (base + DMACC_DMAQNUM (of_nat (c div 8))) s))"

lemma chan_word:
  assumes "c < 64"
  shows "drop_bit 3 (of_nat c :: DWORD) = of_nat (c div 8)" "unat ((of_nat c :: DWORD) mod 8 * 4) = 4 * (c mod 8)"
proof -
  have u: "unat (of_nat c :: DWORD) = c" using assms by (simp add: unat_of_nat)
  show "drop_bit 3 (of_nat c :: DWORD) = of_nat (c div 8)"
    by (rule word_unat_eq_iff [THEN iffD2])
      (use assms in \<open>simp only: unat_drop_bit_eq u, simp add: drop_bit_eq_div unat_of_nat\<close>)
  have "c mod 8 < 8" by simp
  then show "unat ((of_nat c :: DWORD) mod 8 * 4) = 4 * (c mod 8)"
    using u by (simp add: unat_word_ariths unat_mod)
qed

lemma queue_regs: "c < 64 \<Longrightarrow> d < 64 \<Longrightarrow>
  DMACC_DMAQNUM (of_nat (c div 8)) = DMACC_DMAQNUM (of_nat (d div 8)) \<longleftrightarrow> c div 8 = d div 8"
proof -
  assume a: "c < 64" "d < 64"
  have u: "unat (DMACC_DMAQNUM (of_nat k)) = 0x240 + 4 * k" if "k < 8" for k
    using that by (simp add: DMACC_DMAQNUM_def unat_word_ariths unat_of_nat)
  have k: "c div 8 < 8" "d div 8 < 8" using a by auto
  show ?thesis
  proof
    assume "DMACC_DMAQNUM (of_nat (c div 8)) = DMACC_DMAQNUM (of_nat (d div 8))"
    then have "0x240 + 4 * (c div 8) = 0x240 + 4 * (d div 8)" by (simp only: u [OF k(1), symmetric] u [OF k(2), symmetric])
    then show "c div 8 = d div 8" by linarith
  qed (simp only:)
qed

lemma same_group: "c div 8 = d div 8 \<Longrightarrow> c mod 8 = d mod 8 \<longleftrightarrow> c = d" for c d :: nat
  by (metis div_mult_mod_eq)

lemma field_bits:
  fixes w q :: DWORD
  assumes "i < 8" "j < 8" "q < 8"
  shows "take_bit 3 (drop_bit (4 * i) ((w AND NOT (push_bit (4 * j) 7)) OR push_bit (4 * j) (7 AND q))) =
      (if i = j then q else take_bit 3 (drop_bit (4 * i) w))"
    "take_bit 3 (drop_bit (4 * i) (w OR NOT (push_bit (4 * j) 7))) =
      (if i = j then take_bit 3 (drop_bit (4 * i) w) else 7)"
proof -
  have m: "(7 :: DWORD) = mask 3" by (simp add: mask_eq_exp_minus_1)
  have q: "bit q n \<Longrightarrow> n < 3" for n
    using assms(3) bits_below [of q 3 n] by (simp add: word_less_nat_alt)
  show "take_bit 3 (drop_bit (4 * i) ((w AND NOT (push_bit (4 * j) 7)) OR push_bit (4 * j) (7 AND q))) =
      (if i = j then q else take_bit 3 (drop_bit (4 * i) w))"
    unfolding m by (rule bit_word_eqI) (use assms(1,2) q in \<open>auto simp: bit_simps dest: q\<close>)
  show "take_bit 3 (drop_bit (4 * i) (w OR NOT (push_bit (4 * j) 7))) =
      (if i = j then take_bit 3 (drop_bit (4 * i) w) else 7)"
    unfolding m by (rule bit_word_eqI) (use assms(1,2) in \<open>auto simp: bit_simps\<close>)
qed

context plain_regs
begin

lemma map_queue:
  assumes "c < 64" "d < 64" "plain (base + DMACC_DMAQNUM (of_nat (c div 8)))"
    "plain (base + DMACC_DMAQNUM (of_nat (d div 8)))" "q < 8"
  shows "queue_of val base (DMAMapChToEvtQ B base DMA_CHANNEL_TYPE_DMA (of_nat d) q s) c =
    (if c = d then q else queue_of val base s c)"
proof (cases "c div 8 = d div 8")
  case True
  then show ?thesis
    using assms same_group [OF True] field_bits(1) [of "c mod 8" "d mod 8" q]
    by (simp add: queue_of_def DMAMapChToEvtQ_def chan_word field_val DMACC_DMAQNUM_CLR_def DMACC_DMAQNUM_SET_def)
next
  case False
  then have "base + DMACC_DMAQNUM (of_nat (c div 8)) \<noteq> base + DMACC_DMAQNUM (of_nat (d div 8))"
    using queue_regs assms(1,2) by simp
  then show ?thesis
    using assms False by (auto simp: queue_of_def DMAMapChToEvtQ_def chan_word or_val and_val)
qed

lemma unmap_queue:
  assumes "c < 64" "d < 64" "plain (base + DMACC_DMAQNUM (of_nat (c div 8)))"
    "plain (base + DMACC_DMAQNUM (of_nat (d div 8)))"
  shows "queue_of val base (DMAUnmapChToEvtQ B base DMA_CHANNEL_TYPE_DMA (of_nat d) s) c =
    (if c \<noteq> d \<and> c div 8 = d div 8 then 7 else queue_of val base s c)"
proof (cases "c div 8 = d div 8")
  case True
  then show ?thesis
    using assms same_group [OF True] field_bits(2) [of "c mod 8" "d mod 8" 0]
    by (simp add: queue_of_def DMAUnmapChToEvtQ_def chan_word or_val DMACC_DMAQNUM_CLR_def)
next
  case False
  then have "base + DMACC_DMAQNUM (of_nat (c div 8)) \<noteq> base + DMACC_DMAQNUM (of_nat (d div 8))"
    using queue_regs assms(1,2) by simp
  then show ?thesis
    using assms False by (auto simp: queue_of_def DMAUnmapChToEvtQ_def chan_word or_val)
qed

end

section \<open>Properties\<close>

text \<open>A controller whose registers all hold their value.\<close>

definition reg_file :: "(DWORD \<Rightarrow> DWORD) bus" where
  "reg_file = \<lparr>rd = (\<lambda>a s. (s a, s)), wr = (\<lambda>a x s. s(a := x))\<rparr>"

interpretation regf: plain_regs reg_file "\<lambda>a. True" "\<lambda>a s. s a"
  by unfold_locales (simp_all add: reg_file_def)

text \<open>mapping a channel to an event queue sets the queue of that channel and of no other.  Unmapping
  it does the reverse of what it is named for: the channel keeps its queue, and the seven others that
  share its register are sent to queue 7.\<close>

theorem unmap_moves_neighbours:
  assumes "plain_regs B plain val" and "c < 64" and "d < 64" and "q < 8"
    and "plain (base + DMACC_DMAQNUM (of_nat (c div 8)))" and "plain (base + DMACC_DMAQNUM (of_nat (d div 8)))"
  shows "queue_of val base (DMAMapChToEvtQ B base DMA_CHANNEL_TYPE_DMA (of_nat d) q s) c =
      (if c = d then q else queue_of val base s c) \<and>
    queue_of val base (DMAUnmapChToEvtQ B base DMA_CHANNEL_TYPE_DMA (of_nat d) s) c =
      (if c \<noteq> d \<and> c div 8 = d div 8 then 7 else queue_of val base s c)"
  using plain_regs.map_queue [OF assms(1-3,5,6,4)] plain_regs.unmap_queue [OF assms(1-3,5,6)] by blast

lemma unmap_moves_neighbours_witness:
  "queue_of (\<lambda>a s. s a) 0 (DMAUnmapChToEvtQ reg_file 0 DMA_CHANNEL_TYPE_DMA (of_nat 24) (\<lambda>a. 0)) 25 = 7"
  using unmap_moves_neighbours [OF regf.plain_regs_axioms, of 25 24 0 0 "\<lambda>a. 0"] by simp

text \<open>a parameter set that is written to a channel is read back as it was, field by field, and the
  write changes no other register.\<close>

theorem param_roundtrip:
  assumes "plain_regs B plain val" and "\<forall>a \<in> set (param_addrs base n). plain a"
  shows "fst (DMAGetPaRAM B base n (DMASetPaRAM B base n p s)) = p \<and>
    (\<forall>a. plain a \<and> a \<notin> set (param_addrs base n) \<longrightarrow> val a (DMASetPaRAM B base n p s) = val a s)"
  using plain_regs.get_set_param [OF assms] plain_regs.set_param_other [OF assms] by simp

lemma param_roundtrip_witness:
  "fst (DMAGetPaRAM reg_file 0x49000000 25 (DMASetPaRAM reg_file 0x49000000 25
     \<lparr>opt = 0x119205, srcAddr = 0x48060220, aCnt = 4, bCnt = 128, destAddr = 0x80001000, srcBIdx = 0, destBIdx = 4,
      linkAddr = 0xFFFF, bCntReload = 0, srcCIdx = 0, destCIdx = 512, cCnt = 2, rsvd = 0\<rparr> (\<lambda>a. 0))) =
     \<lparr>opt = 0x119205, srcAddr = 0x48060220, aCnt = 4, bCnt = 128, destAddr = 0x80001000, srcBIdx = 0, destBIdx = 4,
      linkAddr = 0xFFFF, bCntReload = 0, srcCIdx = 0, destCIdx = 512, cCnt = 2, rsvd = 0\<rparr>"
  using param_roundtrip [OF regf.plain_regs_axioms, of "0x49000000" 25] by simp

end
