(* ===== verification/MmcHw.thy ===== *)
theory MmcHw
  imports Dma Libc
begin

unbundle bit_operations_syntax

text \<open>
  The host controller of the MMC card: \<^verbatim>\<open>mmc_lib/mmc_hwif.c\<close>, and the routines of \<^verbatim>\<open>drivers/mmc.s\<close> that
  write its registers.  The loops that wait for a register give up after a number of polls; how they
  count decides what the functions report, so the counter is modelled as the code keeps it, a word that
  wraps around.
\<close>

abbreviation MMC_SYSCONFIG :: DWORD where "MMC_SYSCONFIG \<equiv> 0x110"
abbreviation MMC_SYSSTATUS :: DWORD where "MMC_SYSSTATUS \<equiv> 0x114"
abbreviation MMC_CON :: DWORD where "MMC_CON \<equiv> 0x12C"
abbreviation MMC_BLK :: DWORD where "MMC_BLK \<equiv> 0x204"
abbreviation MMC_ARG :: DWORD where "MMC_ARG \<equiv> 0x208"
abbreviation MMC_CMD :: DWORD where "MMC_CMD \<equiv> 0x20C"
abbreviation MMC_RSP :: DWORD where "MMC_RSP \<equiv> 0x210"
abbreviation MMC_DATA :: DWORD where "MMC_DATA \<equiv> 0x220"
abbreviation MMC_PSTATE :: DWORD where "MMC_PSTATE \<equiv> 0x224"
abbreviation MMC_HCTL :: DWORD where "MMC_HCTL \<equiv> 0x228"
abbreviation MMC_SYSCTL :: DWORD where "MMC_SYSCTL \<equiv> 0x22C"
abbreviation MMC_STAT :: DWORD where "MMC_STAT \<equiv> 0x230"
abbreviation MMC_IE :: DWORD where "MMC_IE \<equiv> 0x234"
abbreviation MMC_ISE :: DWORD where "MMC_ISE \<equiv> 0x238"
abbreviation MMC_CAPA :: DWORD where "MMC_CAPA \<equiv> 0x240"
abbreviation MMC_CON_DW8 :: DWORD where "MMC_CON_DW8 \<equiv> 0x20"
abbreviation MMC_CON_INIT :: DWORD where "MMC_CON_INIT \<equiv> 0x2"
abbreviation MMC_HCTL_DTW :: DWORD where "MMC_HCTL_DTW \<equiv> 0x2"
abbreviation MMC_HCTL_SDBP :: DWORD where "MMC_HCTL_SDBP \<equiv> 0x100"
abbreviation MMC_SYSCTL_ICE :: DWORD where "MMC_SYSCTL_ICE \<equiv> 0x1"
abbreviation MMC_SYSCTL_ICS :: DWORD where "MMC_SYSCTL_ICS \<equiv> 0x2"
abbreviation MMC_SYSCTL_CEN :: DWORD where "MMC_SYSCTL_CEN \<equiv> 0x4"
abbreviation MMC_SYSCTL_CLKD :: DWORD where "MMC_SYSCTL_CLKD \<equiv> 0xFFC0"
abbreviation SOC_MMC_0_REGS :: DWORD where "SOC_MMC_0_REGS \<equiv> 0x48060000"
abbreviation SOC_PRCM_REGS :: DWORD where "SOC_PRCM_REGS \<equiv> 0x44E00000"

text \<open>The results of the functions that return a signed \<^verbatim>\<open>int\<close>.\<close>

abbreviation FAILED :: DWORD where "FAILED \<equiv> 0xFFFFFFFF"

section \<open>Loops that give up\<close>

text \<open>
  \<^verbatim>\<open>do { if (ok) break; } while (timeout--);\<close> with the counter it leaves: the decrement also happens when
  the counter is zero already, so a loop that gives up leaves \<^verbatim>\<open>0xFFFFFFFF\<close>.
\<close>

lemma unat_pred: "w \<noteq> 0 \<Longrightarrow> unat (w - 1) < unat w" for w :: DWORD
  by (simp add: unat_minus_one unat_gt_0)

function poll_down :: "'s bus \<Rightarrow> DWORD \<Rightarrow> (DWORD \<Rightarrow> bool) \<Rightarrow> DWORD \<Rightarrow> 's \<Rightarrow> DWORD \<times> 's" where
  "poll_down B a ok timeout s =
     (case rd B a s of (v, s) \<Rightarrow>
        if ok v then (timeout, s)
        else if timeout = 0 then (timeout - 1, s)
        else poll_down B a ok (timeout - 1) s)"
  by pat_completeness auto

termination
  by (relation "measure (\<lambda>(B, a, ok, timeout, s). unat timeout)") (auto simp: unat_minus_one unat_gt_0)

declare poll_down.simps [simp del]

text \<open>\<^verbatim>\<open>do { status = ...; if ((1 == status) || (0 == retry)) break; } while (retry--);\<close>\<close>

function poll_status :: "'s bus \<Rightarrow> DWORD \<Rightarrow> (DWORD \<Rightarrow> DWORD) \<Rightarrow> DWORD \<Rightarrow> 's \<Rightarrow> DWORD \<times> 's" where
  "poll_status B a f retry s =
     (case rd B a s of (v, s) \<Rightarrow>
        if f v = 1 \<or> retry = 0 then (f v, s) else poll_status B a f (retry - 1) s)"
  by pat_completeness auto

termination
  by (relation "measure (\<lambda>(B, a, f, retry, s). unat retry)") (auto simp: unat_minus_one unat_gt_0)

declare poll_status.simps [simp del]

section \<open>Resets and modes\<close>

definition MMCSoftReset :: "'s bus \<Rightarrow> DWORD \<Rightarrow> 's \<Rightarrow> DWORD \<times> 's" where
  "MMCSoftReset B baseAddr s =
     (case poll_down B (baseAddr + MMC_SYSSTATUS) (\<lambda>v. v AND 1 = 1) 0xFFFF (reg_or B (baseAddr + MMC_SYSCONFIG) 2 s) of
        (timeout, s) \<Rightarrow> (if timeout = 0 then FAILED else 0, s))"

definition MMCLinesReset :: "'s bus \<Rightarrow> DWORD \<Rightarrow> DWORD \<Rightarrow> 's \<Rightarrow> DWORD \<times> 's" where
  "MMCLinesReset B baseAddr flag s =
     (case poll_down B (baseAddr + MMC_SYSCTL) (\<lambda>v. v AND flag = flag) 0xFFFF (reg_or B (baseAddr + MMC_SYSCTL) flag s) of
        (timeout, s) \<Rightarrow> (if timeout = 0 then FAILED else 0, s))"

definition MMCSystemConfig :: "'s bus \<Rightarrow> DWORD \<Rightarrow> DWORD \<Rightarrow> 's \<Rightarrow> 's" where
  "MMCSystemConfig B baseAddr config s =
     reg_or B (baseAddr + MMC_SYSCONFIG) config
       (reg_and B (baseAddr + MMC_SYSCONFIG) (NOT (0x3000 OR 0x300 OR 0x18 OR 0x4 OR 0x1)) s)"

definition MMCSetBusWidth :: "'s bus \<Rightarrow> DWORD \<Rightarrow> DWORD \<Rightarrow> 's \<Rightarrow> 's" where
  "MMCSetBusWidth B baseAddr width s =
     (if width = 8 then reg_or B (baseAddr + MMC_CON) MMC_CON_DW8 s
      else if width = 4 then
        reg_or B (baseAddr + MMC_HCTL) (push_bit 1 1) (reg_and B (baseAddr + MMC_CON) (NOT MMC_CON_DW8) s)
      else if width = 1 then
        reg_or B (baseAddr + MMC_HCTL) (push_bit 1 0)
          (reg_and B (baseAddr + MMC_HCTL) (NOT MMC_HCTL_DTW) (reg_and B (baseAddr + MMC_CON) (NOT MMC_CON_DW8) s))
      else s)"

definition MMCBusVoltSet :: "'s bus \<Rightarrow> DWORD \<Rightarrow> DWORD \<Rightarrow> 's \<Rightarrow> 's" where
  "MMCBusVoltSet B baseAddr volt s = reg_or B (baseAddr + MMC_HCTL) volt (reg_and B (baseAddr + MMC_HCTL) (NOT 0xE00) s)"

definition MMCBusPower :: "'s bus \<Rightarrow> DWORD \<Rightarrow> DWORD \<Rightarrow> 's \<Rightarrow> DWORD \<times> 's" where
  "MMCBusPower B baseAddr pwr s =
     (case rd B (baseAddr + MMC_HCTL) s of (v, s) \<Rightarrow>
      let s = wr B (baseAddr + MMC_HCTL) ((v AND NOT MMC_HCTL_SDBP) OR pwr) s in
      case (if pwr = 0x100 then poll_down B (baseAddr + MMC_HCTL) (\<lambda>v. v AND MMC_HCTL_SDBP \<noteq> 0) 0xFFFFF s
            else (0xFFFFF, s)) of
        (timeout, s) \<Rightarrow> (if timeout = 0 then FAILED else 0, s))"

section \<open>Clocks\<close>

definition MMCIsIntClockStable :: "'s bus \<Rightarrow> DWORD \<Rightarrow> DWORD \<Rightarrow> 's \<Rightarrow> DWORD \<times> 's" where
  "MMCIsIntClockStable B baseAddr retry s =
     poll_status B (baseAddr + MMC_SYSCTL) (\<lambda>v. drop_bit 1 (v AND MMC_SYSCTL_ICS)) retry s"

definition MMCIntClock :: "'s bus \<Rightarrow> DWORD \<Rightarrow> DWORD \<Rightarrow> 's \<Rightarrow> DWORD \<times> 's" where
  "MMCIntClock B baseAddr pwr s =
     (case rd B (baseAddr + MMC_SYSCTL) s of (v, s) \<Rightarrow>
      let s = wr B (baseAddr + MMC_SYSCTL) ((v AND NOT MMC_SYSCTL_ICE) OR pwr) s in
      if pwr = 1 then
        case MMCIsIntClockStable B baseAddr 0xFFFF s of (st, s) \<Rightarrow> (if st = 0 then FAILED else 0, s)
      else (0, s))"

definition MMCSupportedVoltSet :: "'s bus \<Rightarrow> DWORD \<Rightarrow> DWORD \<Rightarrow> 's \<Rightarrow> 's" where
  "MMCSupportedVoltSet B baseAddr volt s =
     reg_or B (baseAddr + MMC_CAPA) volt (reg_and B (baseAddr + MMC_CAPA) (NOT (0x4000000 OR 0x2000000 OR 0x1000000)) s)"

definition MMCIsHSupported :: "'s bus \<Rightarrow> DWORD \<Rightarrow> 's \<Rightarrow> DWORD \<times> 's" where
  "MMCIsHSupported B baseAddr s = (case rd B (baseAddr + MMC_CAPA) s of (v, s) \<Rightarrow> (drop_bit 21 (v AND 0x200000), s))"

definition MMCDataTimeoutSet :: "'s bus \<Rightarrow> DWORD \<Rightarrow> DWORD \<Rightarrow> 's \<Rightarrow> 's" where
  "MMCDataTimeoutSet B baseAddr timeout s =
     reg_or B (baseAddr + MMC_SYSCTL) timeout (reg_and B (baseAddr + MMC_SYSCTL) (NOT 0xF0000) s)"

text \<open>
  The divisor of the bus clock.  The divisions are calls of the routine of \<^verbatim>\<open>libc.c\<close>, which does not
  return for a divisor of zero; \<open>None\<close> inside is the failure at the largest divisor.
\<close>

function clkd_loop :: "DWORD \<Rightarrow> DWORD \<Rightarrow> DWORD \<Rightarrow> DWORD option option" where
  "clkd_loop freq_in freq_out clkd =
     Option.bind (aeabi_uidiv freq_in clkd) (\<lambda>q.
       if q > freq_out then
         if clkd = 1023 then Some None else clkd_loop freq_in freq_out (clkd + 1)
       else Some (Some clkd))"
  by pat_completeness auto

termination
proof (relation "measure (\<lambda>(freq_in, freq_out, clkd). unat (1023 - clkd))", goal_cases)
  case (2 freq_in freq_out clkd q)
  then have "1023 - clkd \<noteq> 0" unfolding right_minus_eq by blast
  then have "unat (1023 - clkd - 1) < unat (1023 - clkd)" by (rule unat_pred)
  moreover have "1023 - (clkd + 1) = 1023 - clkd - 1" by (simp only: diff_diff_eq)
  ultimately show ?case by (simp only: in_measure split_conv)
qed simp

declare clkd_loop.simps [simp del]

definition clock_divisor :: "DWORD \<Rightarrow> DWORD \<Rightarrow> DWORD option option" where
  "clock_divisor freq_in freq_out =
     Option.bind (aeabi_uidiv freq_in freq_out) (\<lambda>clkd.
       let clkd = (if clkd < 2 then 2 else clkd);
           clkd = (if clkd > 1023 then 1023 else clkd)
       in clkd_loop freq_in freq_out clkd)"

definition MMCSetBusFreq :: "'s bus \<Rightarrow> DWORD \<Rightarrow> DWORD \<Rightarrow> DWORD \<Rightarrow> DWORD \<Rightarrow> 's \<Rightarrow> (DWORD \<times> 's) option" where
  "MMCSetBusFreq B baseAddr freq_in freq_out bypass s =
     (case MMCIntClock B baseAddr 1 s of (r, s) \<Rightarrow>
      if r = FAILED then Some (FAILED, s)
      else if bypass = 0 then
        Option.bind (clock_divisor freq_in freq_out) (\<lambda>d. case d of
          None \<Rightarrow> Some (FAILED, s)
        | Some clkd \<Rightarrow>
           (case rd B (baseAddr + MMC_SYSCTL) s of (v, s) \<Rightarrow>
            let s = wr B (baseAddr + MMC_SYSCTL) ((v AND NOT MMC_SYSCTL_CLKD) OR push_bit 6 clkd) s in
            case MMCIsIntClockStable B baseAddr 0xFFFF s of (st, s) \<Rightarrow>
            if st = 0 then Some (FAILED, s)
            else Some (0, reg_or B (baseAddr + MMC_SYSCTL) MMC_SYSCTL_CEN s)))
      else Some (0, s))"

section \<open>Events, data and card state\<close>

definition MMCIntrStatusEnable :: "'s bus \<Rightarrow> DWORD \<Rightarrow> DWORD \<Rightarrow> 's \<Rightarrow> 's" where
  "MMCIntrStatusEnable B baseAddr flag s = reg_or B (baseAddr + MMC_IE) flag s"

definition MMCIntrStatusDisable :: "'s bus \<Rightarrow> DWORD \<Rightarrow> DWORD \<Rightarrow> 's \<Rightarrow> 's" where
  "MMCIntrStatusDisable B baseAddr flag s = reg_and B (baseAddr + MMC_IE) (NOT flag) s"

definition MMCIntrEnable :: "'s bus \<Rightarrow> DWORD \<Rightarrow> DWORD \<Rightarrow> 's \<Rightarrow> 's" where
  "MMCIntrEnable B baseAddr flag s = MMCIntrStatusEnable B baseAddr flag (reg_or B (baseAddr + MMC_ISE) flag s)"

definition MMCIntrStatusGet :: "'s bus \<Rightarrow> DWORD \<Rightarrow> DWORD \<Rightarrow> 's \<Rightarrow> DWORD \<times> 's" where
  "MMCIntrStatusGet B baseAddr flag s = reg_test B (baseAddr + MMC_STAT) flag s"

definition MMCIsCmdComplete :: "'s bus \<Rightarrow> DWORD \<Rightarrow> DWORD \<Rightarrow> 's \<Rightarrow> DWORD \<times> 's" where
  "MMCIsCmdComplete B baseAddr retry s = poll_status B (baseAddr + MMC_STAT) (\<lambda>v. drop_bit 0 (v AND 1)) retry s"

definition MMCIsXferComplete :: "'s bus \<Rightarrow> DWORD \<Rightarrow> DWORD \<Rightarrow> 's \<Rightarrow> DWORD \<times> 's" where
  "MMCIsXferComplete B baseAddr retry s = poll_status B (baseAddr + MMC_STAT) (\<lambda>v. drop_bit 1 (v AND 2)) retry s"

definition MMCBlkLenSet :: "'s bus \<Rightarrow> DWORD \<Rightarrow> DWORD \<Rightarrow> 's \<Rightarrow> 's" where
  "MMCBlkLenSet B baseAddr blklen s = reg_or B (baseAddr + MMC_BLK) blklen (reg_and B (baseAddr + MMC_BLK) (NOT 0xFFF) s)"

text \<open>The words read from the data register, in the order they are stored at the buffer.\<close>

fun data_words :: "'s bus \<Rightarrow> DWORD \<Rightarrow> nat \<Rightarrow> 's \<Rightarrow> DWORD list \<times> 's" where
  "data_words B baseAddr 0 s = ([], s)"
| "data_words B baseAddr (Suc n) s =
     (case rd B (baseAddr + MMC_DATA) s of (v, s) \<Rightarrow> case data_words B baseAddr n s of (vs, s) \<Rightarrow> (v # vs, s))"

definition MMCDataGet :: "'s bus \<Rightarrow> DWORD \<Rightarrow> DWORD \<Rightarrow> 's \<Rightarrow> DWORD list \<times> 's" where
  "MMCDataGet B baseAddr len s = data_words B baseAddr (unat (len div 4)) s"

definition MMCCardInserted :: "'s bus \<Rightarrow> 's \<Rightarrow> DWORD \<times> 's" where
  "MMCCardInserted B s = (case rd B (SOC_MMC_0_REGS + MMC_PSTATE) s of (v, s) \<Rightarrow> (drop_bit 16 (v AND 0x10000), s))"

definition MMCIsCardWriteProtected :: "'s bus \<Rightarrow> DWORD \<Rightarrow> 's \<Rightarrow> DWORD \<times> 's" where
  "MMCIsCardWriteProtected B baseAddr s = (case rd B (baseAddr + MMC_PSTATE) s of (v, s) \<Rightarrow> (drop_bit 19 (v AND 0x80000), s))"

definition MMCModuleClkCfg :: "'s bus \<Rightarrow> 's \<Rightarrow> 's option" where
  "MMCModuleClkCfg B s = wait_field B (SOC_PRCM_REGS + 0x3C) 3 2 (reg_or B (SOC_PRCM_REGS + 0x3C) 2 s)"

section \<open>Context\<close>

record MMCCONTEXT =
  capa :: DWORD
  systemConfig :: DWORD
  ctrl_Info :: DWORD
  hctl :: DWORD
  sysCtl :: DWORD
  pState :: DWORD

definition MMCContextSave :: "'s bus \<Rightarrow> DWORD \<Rightarrow> 's \<Rightarrow> MMCCONTEXT \<times> 's" where
  "MMCContextSave B mmcBase s =
     (case rd B (mmcBase + MMC_CAPA) s of (ca, s) \<Rightarrow>
      case rd B (mmcBase + MMC_SYSCONFIG) s of (sc, s) \<Rightarrow>
      case rd B (mmcBase + MMC_CON) s of (co, s) \<Rightarrow>
      case rd B (mmcBase + MMC_SYSCTL) s of (sy, s) \<Rightarrow>
      case rd B (mmcBase + MMC_PSTATE) s of (ps, s) \<Rightarrow>
      case rd B (mmcBase + MMC_HCTL) s of (hc, s) \<Rightarrow>
        (\<lparr>capa = ca, systemConfig = sc, ctrl_Info = co, hctl = hc, sysCtl = sy, pState = ps\<rparr>, s))"

definition MMCContextRestore :: "'s bus \<Rightarrow> DWORD \<Rightarrow> MMCCONTEXT \<Rightarrow> 's \<Rightarrow> 's" where
  "MMCContextRestore B mmcBase c s =
     wr_list B [(mmcBase + MMC_SYSCONFIG, systemConfig c), (mmcBase + MMC_SYSCTL, sysCtl c), (mmcBase + MMC_CAPA, capa c),
       (mmcBase + MMC_CON, ctrl_Info c), (mmcBase + MMC_HCTL, hctl c), (mmcBase + MMC_PSTATE, pState c)] s"

section \<open>The routines in assembly\<close>

definition mmc0_send_cmd :: "'s bus \<Rightarrow> DWORD \<Rightarrow> DWORD \<Rightarrow> DWORD \<Rightarrow> 's \<Rightarrow> 's" where
  "mmc0_send_cmd B command arg nblk s =
     (case rd B (SOC_MMC_0_REGS + MMC_BLK) s of (v, s) \<Rightarrow>
        wr B (SOC_MMC_0_REGS + MMC_CMD) command
          (wr B (SOC_MMC_0_REGS + MMC_ARG) arg
            (wr B (SOC_MMC_0_REGS + MMC_BLK) ((v AND NOT 0xFFFF0000) OR push_bit 16 nblk) s)))"

definition mmc0_set_dto :: "'s bus \<Rightarrow> DWORD \<Rightarrow> 's \<Rightarrow> 's" where
  "mmc0_set_dto B ticks s =
     (case rd B (SOC_MMC_0_REGS + MMC_SYSCTL) s of (v, s) \<Rightarrow>
        wr B (SOC_MMC_0_REGS + MMC_SYSCTL) ((v AND NOT (push_bit 16 0xF)) OR push_bit 16 ((ticks - 13) AND 0xF)) s)"

definition mmc0_clear_status :: "'s bus \<Rightarrow> DWORD \<Rightarrow> 's \<Rightarrow> 's" where
  "mmc0_clear_status B bit_pattern s = wr B (SOC_MMC_0_REGS + MMC_STAT) bit_pattern s"

definition mmc0_get_resp :: "'s bus \<Rightarrow> 's \<Rightarrow> DWORD list \<times> 's" where
  "mmc0_get_resp B s = rd_list B (map (\<lambda>i. SOC_MMC_0_REGS + MMC_RSP + i) [0, 4, 8, 0xC]) s"

text \<open>The macro \<^verbatim>\<open>setreg32\<close>.\<close>

definition setreg32 :: "'s bus \<Rightarrow> DWORD \<Rightarrow> DWORD \<Rightarrow> DWORD \<Rightarrow> 's \<Rightarrow> 's" where
  "setreg32 B a msk data s = (case rd B a s of (v, s) \<Rightarrow> wr B a ((v AND NOT msk) OR (data AND msk)) s)"

definition mmc0_irq_enab :: "'s bus \<Rightarrow> 's \<Rightarrow> 's" where
  "mmc0_irq_enab B s =
     (let m = 0x1 OR 0x2 OR 0x10000 OR 0x100000 OR 0x40 OR 0x80 in
      setreg32 B (SOC_MMC_0_REGS + MMC_IE) m m (setreg32 B (SOC_MMC_0_REGS + MMC_ISE) m m s))"

text \<open>The wait for the end of the initialisation command: complete, or an error.\<close>

partial_function (option) init_wait :: "'s bus \<Rightarrow> 's \<Rightarrow> (bool \<times> 's) option" where
  "init_wait B s =
     (case rd B (SOC_MMC_0_REGS + MMC_STAT) s of (v, s) \<Rightarrow>
        if v AND 1 = 1 then Some (True, s) else if v AND 0x8000 = 0 then init_wait B s else Some (False, s))"

definition mmc0_init :: "'s bus \<Rightarrow> 's \<Rightarrow> (DWORD \<times> 's) option" where
  "mmc0_init B s = (let m = (\<lambda>r. SOC_MMC_0_REGS + r); all = 0xFFFFFFFF in do {
     s \<leftarrow> wait_field B (SOC_PRCM_REGS + 0x3C) all 2 (reg_or B (SOC_PRCM_REGS + 0x3C) 2 s);
     s \<leftarrow> wait_field B (m MMC_SYSSTATUS) all 1
           (case rd B (m MMC_SYSCONFIG) s of (v, s) \<Rightarrow> wr B (m MMC_SYSCONFIG) ((v AND NOT 2) OR 2) s);
     let s = setreg32 B (m MMC_CAPA) (push_bit 24 7) (push_bit 26 1 OR push_bit 25 1) s;
     let s = setreg32 B (m MMC_SYSCONFIG) (1 OR 4 OR 0x18 OR 0x300 OR 0x3000) (1 OR 4 OR 0x10 OR 0 OR 0x2000) s;
     let s = setreg32 B (m MMC_HCTL) 0x1000000 0x1000000 s;
     let s = setreg32 B (m MMC_CON) 0x20 0 s;
     let s = setreg32 B (m MMC_HCTL) 1 1 s;
     let s = setreg32 B (m MMC_HCTL) 0xE00 0xC00 s;
     s \<leftarrow> wait_field B (m MMC_HCTL) 0x100 0x100 (setreg32 B (m MMC_HCTL) 0x100 0x100 s);
     let s = setreg32 B (m MMC_SYSCTL) 1 1 s;
     let s = setreg32 B (m MMC_SYSCTL) 0xFFC0 0xFFC0 s;
     s \<leftarrow> wait_field B (m MMC_SYSCTL) 2 2 (setreg32 B (m MMC_SYSCTL) 4 4 s);
     let s = setreg32 B (m MMC_IE) 1 1 s;
     let s = setreg32 B (m MMC_IE) 2 2 s;
     let s = setreg32 B (m MMC_IE) 0x337F8000 0x0FFFFFFF s;
     let s = setreg32 B (m MMC_STAT) 0x337F8000 all s;
     let s = setreg32 B (m MMC_CON) 2 2 s;
     (done, s) \<leftarrow> init_wait B (wr B (m MMC_CMD) 0 s);
     if done then Some (0, setreg32 B (m MMC_CON) 2 0 (setreg32 B (m MMC_STAT) 1 1 s)) else Some (1, s) })"

definition MMCInitStreamSend :: "'s bus \<Rightarrow> DWORD \<Rightarrow> 's \<Rightarrow> DWORD \<times> 's" where
  "MMCInitStreamSend B baseAddr s =
     (let s = MMCIntrStatusEnable B baseAddr 1 s;
          s = reg_or B (baseAddr + MMC_CON) MMC_CON_INIT s;
          s = wr B (baseAddr + MMC_CMD) 0 s in
      case MMCIsCmdComplete B baseAddr 0xFFFF s of (status, s) \<Rightarrow>
        (status, mmc0_clear_status B 0xFFFFFFFF (reg_and B (baseAddr + MMC_CON) (NOT MMC_CON_INIT) s)))"

section \<open>What the waiting loops report\<close>

text \<open>The values that repeated reads of one register give.\<close>

fun read_at :: "'s bus \<Rightarrow> DWORD \<Rightarrow> nat \<Rightarrow> 's \<Rightarrow> DWORD" where
  "read_at B a 0 s = fst (rd B a s)"
| "read_at B a (Suc n) s = read_at B a n (snd (rd B a s))"

lemma poll_down_hit:
  "\<forall>i < k. \<not> ok (read_at B a i s) \<Longrightarrow> ok (read_at B a k s) \<Longrightarrow> k \<le> unat t \<Longrightarrow>
   fst (poll_down B a ok t s) = t - of_nat k"
proof (induction k arbitrary: t s)
  case 0
  then show ?case by (simp add: poll_down.simps [of B a ok t s] case_prod_beta)
next
  case (Suc k)
  obtain v s' where r: "rd B a s = (v, s')" by fastforce
  have t: "t \<noteq> 0" using Suc.prems(3) by auto
  have "\<not> ok v" using Suc.prems(1) r by (auto dest: spec [of _ 0])
  moreover have "fst (poll_down B a ok (t - 1) s') = t - 1 - of_nat k"
    using Suc.prems r t by (intro Suc.IH) (auto simp: unat_minus_one dest: spec [of _ "Suc _"])
  ultimately show ?case using r t by (simp add: poll_down.simps [of B a ok t s] algebra_simps)
qed

lemma poll_down_miss:
  "\<forall>i \<le> unat t. \<not> ok (read_at B a i s) \<Longrightarrow> fst (poll_down B a ok t s) = -1"
proof (induction "unat t" arbitrary: t s)
  case 0
  then have "t = 0" by (simp add: unat_eq_0)
  moreover have "\<not> ok (fst (rd B a s))" using 0(2) by (auto dest: spec [of _ 0])
  ultimately show ?case
    using \<open>t = 0\<close> by (simp add: poll_down.simps [of B a ok 0 s] case_prod_beta)
next
  case (Suc n)
  obtain v s' where r: "rd B a s = (v, s')" by fastforce
  have "t \<noteq> 0" using Suc(2) by auto
  then have t: "t \<noteq> 0" "n = unat (t - 1)" using Suc(2) by (simp_all add: unat_minus_one)
  have "\<not> ok v" using Suc.prems r by (auto dest: spec [of _ 0])
  moreover have "fst (poll_down B a ok (t - 1) s') = -1"
  proof (intro Suc.hyps(1) t allI impI)
    fix i assume "i \<le> unat (t - 1)"
    then have "Suc i \<le> unat t" using t Suc(2) by simp
    then have "\<not> ok (read_at B a (Suc i) s)" using Suc.prems by blast
    then show "\<not> ok (read_at B a i s')" using r by simp
  qed
  ultimately show ?case using r t by (simp add: poll_down.simps [of B a ok t s])
qed

lemma poll_down_zero:
  "fst (poll_down B a ok t s) = 0 \<longleftrightarrow>
   (\<forall>i < unat t. \<not> ok (read_at B a i s)) \<and> ok (read_at B a (unat t) s)"
proof (cases "\<exists>k \<le> unat t. ok (read_at B a k s)")
  case True
  define k where "k = (LEAST k. ok (read_at B a k s))"
  have k: "ok (read_at B a k s)" "\<forall>i < k. \<not> ok (read_at B a i s)" "k \<le> unat t"
    using True LeastI_ex [of "\<lambda>k. ok (read_at B a k s)"] not_less_Least Least_le unfolding k_def
    by (blast, blast, meson order_trans)
  then have "fst (poll_down B a ok t s) = t - of_nat k" by (intro poll_down_hit)
  moreover have "t - of_nat k = 0 \<longleftrightarrow> k = unat t"
  proof -
    have "k < 2 ^ LENGTH(32)" using k(3) by (rule le_less_trans) (rule unsigned_less)
    then have "unat (of_nat k :: DWORD) = k" by (simp add: unat_of_nat take_bit_nat_eq_self)
    then show ?thesis unfolding right_minus_eq by auto
  qed
  ultimately show ?thesis using k by (metis linorder_neqE_nat le_neq_implies_less)
next
  case False
  then show ?thesis using poll_down_miss [of t ok B a s] by auto
qed

section \<open>The divisor of the bus clock\<close>

lemma uidiv_spec: "aeabi_uidiv a b = (if b = 0 then None else Some (a div b))"
  using udiv_loop [of b a 0] udiv_zero by (simp add: aeabi_uidiv_def word_gt_0)

lemma clkd_loop_spec:
  assumes "0 < clkd" "clkd \<le> 1023"
  shows "\<exists>r. clkd_loop freq_in freq_out clkd = Some r \<and>
    (case r of
       None \<Rightarrow> freq_in div 1023 > freq_out
     | Some d \<Rightarrow> clkd \<le> d \<and> d \<le> 1023 \<and> freq_in div d \<le> freq_out \<and> (\<forall>e. clkd \<le> e \<and> e < d \<longrightarrow> freq_in div e > freq_out))"
  using assms
proof (induction freq_in freq_out clkd rule: clkd_loop.induct)
  case (1 freq_in freq_out clkd)
  have nz: "clkd \<noteq> 0" using 1(2) by auto
  show ?case
  proof (cases "freq_in div clkd > freq_out \<and> clkd \<noteq> 1023")
    case False
    then show ?thesis
      by (cases "freq_in div clkd > freq_out")
        (use 1(3) nz in \<open>auto simp: clkd_loop.simps [of freq_in freq_out clkd] clkd_loop.simps [of freq_in freq_out 1023] uidiv_spec not_less\<close>)
  next
    case True
    have lt: "clkd < 1023" using True 1(3) by auto
    then have s: "unat (clkd + 1) = unat clkd + 1" by (simp add: unat_word_ariths word_less_nat_alt)
    then have c: "0 < clkd + 1" "clkd + 1 \<le> 1023" using lt by (auto simp: word_less_nat_alt word_le_nat_alt)
    have q: "aeabi_uidiv freq_in clkd = Some (freq_in div clkd)" using nz by (simp add: uidiv_spec)
    from 1(1) [OF q _ _ c] True obtain r where r: "clkd_loop freq_in freq_out (clkd + 1) = Some r"
      "case r of None \<Rightarrow> freq_in div 1023 > freq_out
       | Some d \<Rightarrow> clkd + 1 \<le> d \<and> d \<le> 1023 \<and> freq_in div d \<le> freq_out \<and>
           (\<forall>e. clkd + 1 \<le> e \<and> e < d \<longrightarrow> freq_in div e > freq_out)" by auto
    have "clkd \<le> e \<longleftrightarrow> e = clkd \<or> clkd + 1 \<le> e" for e
      using s by (auto simp: word_le_nat_alt word_unat_eq_iff)
    then show ?thesis
      using r True q by (intro exI [of _ r]) (auto simp: clkd_loop.simps [of freq_in freq_out clkd] split: option.splits)
  qed
qed

section \<open>Properties\<close>

text \<open>what \<^verbatim>\<open>MMCSoftReset\<close> reports does not depend on whether the controller was reset.  It reports
  failure exactly when the reset completes at the last of the 65536 polls, and success in every other
  case, also when the controller never completes its reset.\<close>

theorem soft_reset_report:
  "fst (MMCSoftReset B base s) =
     (let complete = (\<lambda>i. read_at B (base + MMC_SYSSTATUS) i (reg_or B (base + MMC_SYSCONFIG) 2 s) AND 1 = 1)
      in if (\<forall>i < 65535. \<not> complete i) \<and> complete 65535 then FAILED else 0)"
proof -
  have u: "unat (0xFFFF :: DWORD) = 65535" by simp
  show ?thesis
    unfolding MMCSoftReset_def Let_def case_prod_beta fst_conv poll_down_zero u by (rule refl)
qed

lemma soft_reset_report_witness:
  "fst (MMCSoftReset reg_file SOC_MMC_0_REGS (\<lambda>a. 0)) = 0"
proof -
  have r: "read_at reg_file a i s = s a" for a i and s :: "DWORD \<Rightarrow> DWORD"
    by (induction i) (simp_all add: reg_file_def)
  show ?thesis unfolding soft_reset_report Let_def r by (simp add: reg_or_def reg_file_def)
qed

text \<open>the search for the divisor of the bus clock ends for every frequency but zero.  It fails only
  if the largest divisor is too small; otherwise the divisor fits the ten bits of its field, the
  quotient does not exceed the frequency asked for, and it is the first such divisor from the quotient
  of the frequencies on.\<close>

theorem clock_divisor_first:
  assumes "0 < freq_out"
  shows "\<exists>r. clock_divisor freq_in freq_out = Some r \<and>
    (case r of
       None \<Rightarrow> freq_in div 1023 > freq_out
     | Some d \<Rightarrow> 2 \<le> d \<and> d \<le> 1023 \<and> freq_in div d \<le> freq_out \<and>
         (\<forall>e. 2 \<le> e \<and> freq_in div freq_out \<le> e \<and> e < d \<longrightarrow> freq_in div e > freq_out))"
proof -
  define q where "q = freq_in div freq_out"
  define c where "c = (if (if q < 2 then 2 else q) > 1023 then 1023 else (if q < 2 then 2 else q))"
  have c: "2 \<le> c" "c \<le> 1023" unfolding c_def by (auto simp: not_less intro: order_trans)
  have e: "c \<le> e" if "2 \<le> e" "q \<le> e" for e
    using that unfolding c_def by (auto simp: not_less intro: order_trans less_imp_le)
  have "clock_divisor freq_in freq_out = clkd_loop freq_in freq_out c"
    using assms by (simp add: clock_divisor_def uidiv_spec word_gt_0 Let_def c_def q_def)
  moreover have "0 < c" using c(1) by (auto intro: less_le_trans [of 0 2])
  ultimately obtain r where r: "clock_divisor freq_in freq_out = Some r"
    "case r of None \<Rightarrow> freq_in div 1023 > freq_out
     | Some d \<Rightarrow> c \<le> d \<and> d \<le> 1023 \<and> freq_in div d \<le> freq_out \<and> (\<forall>e. c \<le> e \<and> e < d \<longrightarrow> freq_in div e > freq_out)"
    using clkd_loop_spec [of c freq_in freq_out] c(2) by auto
  show ?thesis
  proof (intro exI conjI, rule r(1))
    show "case r of None \<Rightarrow> freq_in div 1023 > freq_out
     | Some d \<Rightarrow> 2 \<le> d \<and> d \<le> 1023 \<and> freq_in div d \<le> freq_out \<and>
         (\<forall>e. 2 \<le> e \<and> freq_in div freq_out \<le> e \<and> e < d \<longrightarrow> freq_in div e > freq_out)"
      using r(2) order_trans [OF c(1)] e unfolding q_def by (auto split: option.splits)
  qed
qed

lemma clock_divisor_first_witness:
  "\<exists>r. clock_divisor 96000000 25000000 = Some r \<and> r \<noteq> None"
proof -
  have "(0 :: DWORD) < 25000000" by simp
  from clock_divisor_first [OF this, of 96000000] show ?thesis by (auto split: option.splits)
qed

end
