(* ===== verification/MmcApi.thy ===== *)
theory MmcApi
  imports MmcHw
begin

unbundle bit_operations_syntax

text \<open>
  The driver of the MMC card: \<^verbatim>\<open>mmc_lib/mmc_api.c\<close>.  A transfer is set up in the DMA controller, started
  by a command to the card, and ends with interrupts whose handlers set flags the driver waits for.  The
  hardware, and when it raises which interrupt, is the argument \<open>board\<close>; interrupts are taken where the
  driver waits, which is the only place where it reads the flags.  A wait that is never answered is
  \<open>None\<close>.  The pointers \<^verbatim>\<open>ctrl\<close> and \<^verbatim>\<open>card\<close> always point to the two global structures, which are part of
  the state.  The operations on the data cache are left out.
\<close>

section \<open>State\<close>

abbreviation SD_CMDRSP_NONE :: DWORD where "SD_CMDRSP_NONE \<equiv> 0x1"
abbreviation SD_CMDRSP_ABORT :: DWORD where "SD_CMDRSP_ABORT \<equiv> 0x8"
abbreviation SD_CMDRSP_BUSY :: DWORD where "SD_CMDRSP_BUSY \<equiv> 0x10"
abbreviation SD_CMDRSP_136BITS :: DWORD where "SD_CMDRSP_136BITS \<equiv> 0x20"
abbreviation SD_CMDRSP_DATA :: DWORD where "SD_CMDRSP_DATA \<equiv> 0x40"
abbreviation SD_CMDRSP_READ :: DWORD where "SD_CMDRSP_READ \<equiv> 0x80"
abbreviation SD_CMDRSP_WRITE :: DWORD where "SD_CMDRSP_WRITE \<equiv> 0x100"
abbreviation MMC_CMD_DP :: DWORD where "MMC_CMD_DP \<equiv> 0x200000"
abbreviation DMA_CHA_MMC0_TX :: DWORD where "DMA_CHA_MMC0_TX \<equiv> 24"
abbreviation DMA_CHA_MMC0_RX :: DWORD where "DMA_CHA_MMC0_RX \<equiv> 25"
abbreviation SOC_DMA0CC_0_REGS :: DWORD where "SOC_DMA0CC_0_REGS \<equiv> 0x49000000"

record mmcCardInfo =
  cardType :: DWORD
  rca :: DWORD
  raw_scr :: "DWORD list"
  raw_csd :: "DWORD list"
  raw_cid :: "DWORD list"
  card_ocr :: DWORD
  sd_ver :: BYTE
  card_busWidth :: BYTE
  tranSpeed :: BYTE
  highCap :: BYTE
  blkLen :: DWORD
  nBlks :: DWORD
  card_size :: DWORD

record mmcCtrlInfo =
  memBase :: DWORD
  ipClk :: DWORD
  opClk :: DWORD
  intrMask :: DWORD
  dmaEnable :: DWORD
  busWidth :: DWORD
  highspeed :: DWORD
  ctrl_ocr :: DWORD
  cdPinNum :: DWORD

record mmcCmd =
  c_idx :: DWORD
  c_flags :: DWORD
  c_arg :: DWORD
  c_nblks :: DWORD
  c_rsp :: "DWORD list"

text \<open>The globals of the file, over a hardware state.  \<open>cb_Fxn\<close> says whether \<^verbatim>\<open>callback\<close> is registered.\<close>

record 's mmcdrv =
  hw :: 's
  callbackOccured :: DWORD
  xferCompFlag :: DWORD
  dataTimeout :: DWORD
  cmdCompFlag :: DWORD
  cmdTimeout :: DWORD
  errFlag :: DWORD
  ctrlInfo :: mmcCtrlInfo
  sdCard :: mmcCardInfo
  cb_Fxn :: "nat \<Rightarrow> bool"

datatype interrupt = MMC_IRQ | DMA_IRQ | DMA_ERR_IRQ

text \<open>
  The board: its registers, the next interrupt if there is one, the bytes of its memory, the address of
  \<^verbatim>\<open>dataBuffer\<close>; what the handler calls in other files when a card is put in (\<^verbatim>\<open>FATFsMount\<close>,
  \<^verbatim>\<open>CmdLineProcess\<close>) and writes there when it is taken out; and the contents of uninitialised variables.
\<close>

record 's board =
  regs :: "'s bus"
  next_irq :: "'s \<Rightarrow> interrupt option \<times> 's"
  peek :: "DWORD \<Rightarrow> 's \<Rightarrow> BYTE"
  dataBuffer :: DWORD
  attach :: "'s mmcdrv \<Rightarrow> 's mmcdrv option"
  wipe_cwd :: "'s \<Rightarrow> 's"
  stack_half :: WORD
  stack_words :: "DWORD list"

abbreviation on_hw :: "('s \<Rightarrow> 's) \<Rightarrow> 's mmcdrv \<Rightarrow> 's mmcdrv" where
  "on_hw f st \<equiv> st\<lparr>hw := f (hw st)\<rparr>"

section \<open>Interrupt handlers\<close>

definition mmc0_isr :: "'s board \<Rightarrow> 's mmcdrv \<Rightarrow> 's mmcdrv option" where
  "mmc0_isr M st =
     (case MMCIntrStatusGet (regs M) (memBase (ctrlInfo st)) 0xFFFFFFFF (hw st) of (status, h) \<Rightarrow>
      let st = st\<lparr>hw := mmc0_clear_status (regs M) status h\<rparr>;
          st = (if status AND 0x1 \<noteq> 0 then st\<lparr>cmdCompFlag := 1\<rparr> else st);
          st = (if status AND 0x8000 \<noteq> 0 then
                  let st = st\<lparr>errFlag := status AND 0xFFFF0000\<rparr>;
                      st = (if status AND 0x10000 \<noteq> 0 then st\<lparr>cmdTimeout := 1\<rparr> else st)
                  in if status AND 0x100000 \<noteq> 0 then st\<lparr>dataTimeout := 1\<rparr> else st
                else st);
          st = (if status AND 0x2 \<noteq> 0 then st\<lparr>xferCompFlag := 1\<rparr> else st) in do {
      st \<leftarrow> (if status AND 0x40 \<noteq> 0 then attach M st else Some st);
      if status AND 0x80 \<noteq> 0 then do {
        let st = st\<lparr>hw := wipe_cwd M (hw st), callbackOccured := 0, xferCompFlag := 0, dataTimeout := 0,
                     cmdCompFlag := 0, cmdTimeout := 0\<rparr>;
        (r, h) \<leftarrow> mmc0_init (regs M) (hw st);
        Some (st\<lparr>hw := mmc0_irq_enab (regs M) h\<rparr>) }
      else Some st })"

definition callback :: "'s board \<Rightarrow> DWORD \<Rightarrow> 's mmcdrv \<Rightarrow> 's mmcdrv" where
  "callback M tccNum st =
     on_hw (\<lambda>h. snd (DMADisableTransfer (regs M) SOC_DMA0CC_0_REGS tccNum DMA_TRIG_MODE_EVENT h)) (st\<lparr>callbackOccured := 1\<rparr>)"

text \<open>\<^verbatim>\<open>while (pending) { if (pending & 1) f(index); ++index; pending >>= 1; }\<close>, with the index it leaves.\<close>

function each_bit :: "(nat \<Rightarrow> 'a \<Rightarrow> 'a) \<Rightarrow> nat \<Rightarrow> DWORD \<Rightarrow> 'a \<Rightarrow> nat \<times> 'a" where
  "each_bit f index pending st =
     (if pending = 0 then (index, st)
      else each_bit f (Suc index) (drop_bit 1 pending) (if pending AND 1 \<noteq> 0 then f index st else st))"
  by pat_completeness auto

termination
proof (relation "measure (\<lambda>(f, index, pending, st). unat pending)", goal_cases)
  case (2 f index pending st)
  then have "0 < unat pending" by (simp add: unat_gt_0)
  then have "unat (drop_bit 1 pending) < unat pending" by (simp only: unat_drop_bit_eq, simp only: drop_bit_eq_div, simp)
  then show ?case by (simp only: in_measure split_conv)
qed simp

declare each_bit.simps [simp del]

definition completion :: "'s board \<Rightarrow> nat \<Rightarrow> 's mmcdrv \<Rightarrow> 's mmcdrv" where
  "completion M index st =
     (let st = on_hw (DMAClrIntr (regs M) SOC_DMA0CC_0_REGS (of_nat index)) st
      in if cb_Fxn st index then callback M (of_nat index) st else st)"

fun completion_rounds :: "'s board \<Rightarrow> nat \<Rightarrow> nat \<Rightarrow> 's mmcdrv \<Rightarrow> 's mmcdrv" where
  "completion_rounds M 0 index st = st"
| "completion_rounds M (Suc n) index st =
     (if index \<noteq> 0 then
        case DMAGetIntrStatus (regs M) SOC_DMA0CC_0_REGS (hw st) of (pending, h) \<Rightarrow>
        case each_bit (completion M) 0 pending (st\<lparr>hw := h\<rparr>) of (index, st) \<Rightarrow> completion_rounds M n index st
      else st)"

definition DMACompletionISR :: "'s board \<Rightarrow> 's mmcdrv \<Rightarrow> 's mmcdrv" where
  "DMACompletionISR M st =
     (case DMAGetIntrStatus (regs M) SOC_DMA0CC_0_REGS (hw st) of (isIPR, h) \<Rightarrow>
      let st = st\<lparr>hw := h\<rparr> in if isIPR \<noteq> 0 then completion_rounds M 10 1 st else st)"

fun clear_queue_errors :: "'s bus \<Rightarrow> DWORD \<Rightarrow> nat list \<Rightarrow> 's \<Rightarrow> 's" where
  "clear_queue_errors B pending [] h = h"
| "clear_queue_errors B pending (q # qs) h =
     clear_queue_errors B pending qs
       (if pending AND push_bit q 1 \<noteq> 0 then DMAClrCCErr B SOC_DMA0CC_0_REGS (push_bit q 1) h else h)"

definition error_round :: "'s bus \<Rightarrow> bool \<Rightarrow> 's \<Rightarrow> nat \<times> 's" where
  "error_round B isIPR h =
     (case (if isIPR then DMAGetErrIntrStatus B SOC_DMA0CC_0_REGS h
            else DMAErrIntrHighStatusGet B SOC_DMA0CC_0_REGS h) of (pending, h) \<Rightarrow>
      case each_bit (\<lambda>i. DMAClrMissEvt B SOC_DMA0CC_0_REGS (of_nat (if isIPR then i else i + 32))) 0 pending h of (_, h) \<Rightarrow>
      case DMAQdmaGetErrIntrStatus B SOC_DMA0CC_0_REGS h of (pending, h) \<Rightarrow>
      case each_bit (\<lambda>i. DMAQdmaClrMissEvt B SOC_DMA0CC_0_REGS (of_nat i)) 0 pending h of (_, h) \<Rightarrow>
      case DMAGetCCErrStatus B SOC_DMA0CC_0_REGS h of (pending, h) \<Rightarrow>
        if pending \<noteq> 0 then
          let h = clear_queue_errors B pending [0, 1, 2, 3] h
          in (1, if pending AND push_bit 16 1 \<noteq> 0 then DMAClrCCErr B SOC_DMA0CC_0_REGS (push_bit 16 1) h else h)
        else (0, h))"

fun error_rounds :: "'s bus \<Rightarrow> bool \<Rightarrow> nat \<Rightarrow> nat \<Rightarrow> 's \<Rightarrow> 's" where
  "error_rounds B isIPR 0 index h = h"
| "error_rounds B isIPR (Suc n) index h =
     (if index \<noteq> 0 then case error_round B isIPR h of (index, h) \<Rightarrow> error_rounds B isIPR n index h else h)"

text \<open>The conditions of the error handler are read one after the other and only as far as \<^verbatim>\<open>||\<close> needs them.\<close>

definition DMACCErrorISR :: "'s board \<Rightarrow> 's mmcdrv \<Rightarrow> 's mmcdrv" where
  "DMACCErrorISR M st =
     (case DMAGetIntrStatus (regs M) SOC_DMA0CC_0_REGS (hw st) of (isIPR, h) \<Rightarrow>
      case DMAIntrStatusHighGet (regs M) SOC_DMA0CC_0_REGS h of (isIPRH, h) \<Rightarrow>
      case (if isIPR OR isIPRH \<noteq> 0 then (True, h)
            else case DMAQdmaGetErrIntrStatus (regs M) SOC_DMA0CC_0_REGS h of (q, h) \<Rightarrow>
              if q \<noteq> 0 then (True, h)
              else case DMAGetCCErrStatus (regs M) SOC_DMA0CC_0_REGS h of (e, h) \<Rightarrow> (e \<noteq> 0, h)) of (go, h) \<Rightarrow>
        st\<lparr>hw := if go then error_rounds (regs M) (isIPR \<noteq> 0) 10 1 h else h\<rparr>)"

text \<open>One step of waiting: the next interrupt, if there is one, is handled.\<close>

definition take_irq :: "'s board \<Rightarrow> 's mmcdrv \<Rightarrow> 's mmcdrv option" where
  "take_irq M st =
     (case next_irq M (hw st) of (i, h) \<Rightarrow>
      let st = st\<lparr>hw := h\<rparr> in
      case i of None \<Rightarrow> Some st
              | Some MMC_IRQ \<Rightarrow> mmc0_isr M st
              | Some DMA_IRQ \<Rightarrow> Some (DMACompletionISR M st)
              | Some DMA_ERR_IRQ \<Rightarrow> Some (DMACCErrorISR M st))"

section \<open>Waiting for a command and for a transfer\<close>

text \<open>The two loops \<^verbatim>\<open>while ((done == 0) && (timeout == 0));\<close> over flags that handlers set.\<close>

partial_function (option) wait_until :: "'s board \<Rightarrow> ('s mmcdrv \<Rightarrow> bool) \<Rightarrow> 's mmcdrv \<Rightarrow> 's mmcdrv option" where
  "wait_until M ready st =
     (if ready st then Some st else Option.bind (take_irq M st) (wait_until M ready))"

definition cmd_wait :: "'s board \<Rightarrow> 's mmcdrv \<Rightarrow> 's mmcdrv option" where
  "cmd_wait M = wait_until M (\<lambda>st. \<not> (cmdCompFlag st = 0 \<and> cmdTimeout st = 0))"

definition xfer_wait :: "'s board \<Rightarrow> 's mmcdrv \<Rightarrow> 's mmcdrv option" where
  "xfer_wait M = wait_until M (\<lambda>st. \<not> (xferCompFlag st = 0 \<and> dataTimeout st = 0))"

definition mmc0_get_cmd_status :: "'s board \<Rightarrow> 's mmcdrv \<Rightarrow> (DWORD \<times> 's mmcdrv) option" where
  "mmc0_get_cmd_status M st = Option.bind (cmd_wait M st) (\<lambda>st.
     let (status, st) = (if cmdCompFlag st \<noteq> 0 then (1, st\<lparr>cmdCompFlag := 0\<rparr>) else (0, st));
         (status, st) = (if cmdTimeout st \<noteq> 0 then (0, st\<lparr>cmdTimeout := 0\<rparr>) else (status, st))
     in Some (status, st))"

text \<open>\<^verbatim>\<open>while (callbackOccured == 0 && ((timeOut--) != 0));\<close> with the counter it leaves\<close>

function callback_wait :: "'s board \<Rightarrow> DWORD \<Rightarrow> 's mmcdrv \<Rightarrow> (DWORD \<times> 's mmcdrv) option" where
  "callback_wait M timeOut st =
     (if callbackOccured st \<noteq> 0 then Some (timeOut, st)
      else if timeOut = 0 then Some (timeOut - 1, st)
      else Option.bind (take_irq M st) (callback_wait M (timeOut - 1)))"
  by pat_completeness auto

termination
  by (relation "measure (\<lambda>(M, timeOut, st). unat timeOut)") (auto simp: unat_pred)

declare callback_wait.simps [simp del]

definition mmc0_get_xfer_status :: "'s board \<Rightarrow> 's mmcdrv \<Rightarrow> (DWORD \<times> 's mmcdrv) option" where
  "mmc0_get_xfer_status M st = do {
     st \<leftarrow> xfer_wait M st;
     let (status, st) = (if xferCompFlag st \<noteq> 0 then (1, st\<lparr>xferCompFlag := 0\<rparr>) else (0, st));
     let (status, st) = (if dataTimeout st \<noteq> 0 then (0, st\<lparr>dataTimeout := 0\<rparr>) else (status, st));
     let (v, h) = rd (regs M) (memBase (ctrlInfo st) + MMC_CMD) (hw st);
     let st = st\<lparr>hw := h\<rparr>;
     (status, st) \<leftarrow> (if v AND MMC_CMD_DP \<noteq> 0 then do {
         (timeOut, st) \<leftarrow> callback_wait M 0xFFFF st;
         Some (if timeOut = 0 then 0 else status, st\<lparr>callbackOccured := 0\<rparr>) }
       else Some (status, st));
     Some (status, st\<lparr>ctrlInfo := (ctrlInfo st)\<lparr>dmaEnable := 0\<rparr>\<rparr>) }"

section \<open>Transfers\<close>

definition rx_param :: "'s board \<Rightarrow> 's mmcdrv \<Rightarrow> DWORD \<Rightarrow> DWORD \<Rightarrow> DWORD \<Rightarrow> DMACCPaRAMEntry" where
  "rx_param M st ptr blkSize nblks =
     \<lparr>opt = (push_bit 12 DMA_CHA_MMC0_RX AND 0x3F000) OR push_bit 20 1 OR 1 OR push_bit 8 2 OR push_bit 2 1,
      srcAddr = memBase (ctrlInfo st) + MMC_DATA, aCnt = 4, bCnt = ucast blkSize div 4, destAddr = ptr,
      srcBIdx = 0, destBIdx = 4, linkAddr = 0xFFFF, bCntReload = 0, srcCIdx = 0, destCIdx = ucast blkSize,
      cCnt = ucast nblks, rsvd = stack_half M\<rparr>"

definition tx_param :: "'s board \<Rightarrow> 's mmcdrv \<Rightarrow> DWORD \<Rightarrow> DWORD \<Rightarrow> DWORD \<Rightarrow> DMACCPaRAMEntry" where
  "tx_param M st ptr blkSize blks =
     \<lparr>opt = (push_bit 12 DMA_CHA_MMC0_TX AND 0x3F000) OR push_bit 20 1 OR push_bit 1 1 OR push_bit 8 2 OR push_bit 2 1,
      srcAddr = ptr, aCnt = 4, bCnt = ucast blkSize div 4, destAddr = memBase (ctrlInfo st) + MMC_DATA,
      srcBIdx = 4, destBIdx = 0, linkAddr = 0xFFFF, bCntReload = 0, srcCIdx = ucast blkSize, destCIdx = 0,
      cCnt = ucast blks, rsvd = stack_half M\<rparr>"

definition MMCRxDMAsetup :: "'s board \<Rightarrow> DWORD \<Rightarrow> DWORD \<Rightarrow> DWORD \<Rightarrow> 's mmcdrv \<Rightarrow> 's mmcdrv" where
  "MMCRxDMAsetup M ptr blkSize nblks st =
     on_hw (\<lambda>h. snd (DMAEnableTransfer (regs M) SOC_DMA0CC_0_REGS DMA_CHA_MMC0_RX DMA_TRIG_MODE_EVENT
       (DMASetPaRAM (regs M) SOC_DMA0CC_0_REGS DMA_CHA_MMC0_RX (rx_param M st ptr blkSize nblks) h))) st"

definition MMCTxDMAsetup :: "'s board \<Rightarrow> DWORD \<Rightarrow> DWORD \<Rightarrow> DWORD \<Rightarrow> 's mmcdrv \<Rightarrow> 's mmcdrv" where
  "MMCTxDMAsetup M ptr blkSize blks st =
     on_hw (\<lambda>h. snd (DMAEnableTransfer (regs M) SOC_DMA0CC_0_REGS DMA_CHA_MMC0_TX DMA_TRIG_MODE_EVENT
       (DMASetPaRAM (regs M) SOC_DMA0CC_0_REGS DMA_CHA_MMC0_TX (tx_param M st ptr blkSize blks) h))) st"

definition MMCXferSetup :: "'s board \<Rightarrow> BYTE \<Rightarrow> DWORD \<Rightarrow> DWORD \<Rightarrow> DWORD \<Rightarrow> 's mmcdrv \<Rightarrow> 's mmcdrv" where
  "MMCXferSetup M rwFlag ptr blkSize n st =
     (let st = st\<lparr>callbackOccured := 0, xferCompFlag := 0\<rparr>;
          st = (if rwFlag = 1 then MMCRxDMAsetup M ptr blkSize n st else MMCTxDMAsetup M ptr blkSize n st);
          st = st\<lparr>ctrlInfo := (ctrlInfo st)\<lparr>dmaEnable := 1\<rparr>\<rparr>
      in on_hw (MMCBlkLenSet (regs M) (memBase (ctrlInfo st)) blkSize) st)"

section \<open>Commands\<close>

text \<open>
  The word for the command register.  The first case of the type is \<^verbatim>\<open>0x1 < 0x16\<close> in the source, which
  is 1, where a shift is meant.
\<close>

definition cmd_word :: "DWORD \<Rightarrow> mmcCmd \<Rightarrow> DWORD" where
  "cmd_word dma c =
     (let cmdType = (if c_flags c AND 0x2 \<noteq> 0 then (if 0x1 < (0x16 :: DWORD) then 1 else 0)
                     else if c_flags c AND 0x4 \<noteq> 0 then push_bit 0x16 0x2
                     else if c_flags c AND 0x8 \<noteq> 0 then push_bit 0x16 0x3 else 0);
          cmdDir = (if c_flags c AND 0x80 \<noteq> 0 then push_bit 0x4 0x1 else 0);
          rspType = (if c_flags c AND 0x1 \<noteq> 0 then 0
                     else if c_flags c AND 0x20 \<noteq> 0 then push_bit 0x10 1
                     else if c_flags c AND 0x10 \<noteq> 0 then push_bit 0x10 3 else push_bit 0x10 2);
          cmd = push_bit 0x18 (c_idx c) OR cmdType OR rspType OR cmdDir;
          cmd = (if c_flags c AND 0x40 \<noteq> 0 then cmd OR (MMC_CMD_DP OR 0x20 OR 0x2) else cmd)
      in if dma = 1 then cmd OR 1 else cmd)"

definition MMC0CmdSend :: "'s board \<Rightarrow> mmcCmd \<Rightarrow> 's mmcdrv \<Rightarrow> (DWORD \<times> mmcCmd \<times> 's mmcdrv) option" where
  "MMC0CmdSend M c st =
     (let st = (if c_flags c AND 0x40 \<noteq> 0
                then on_hw (\<lambda>h. mmc0_set_dto (regs M) 27 (mmc0_clear_status (regs M) 0x2 h)) st else st);
          nblks = (if c_flags c AND 0x40 \<noteq> 0 then c_nblks c else 0);
          st = on_hw (mmc0_send_cmd (regs M) (cmd_word (dmaEnable (ctrlInfo st)) c) (c_arg c) nblks) st in do {
      (status, st) \<leftarrow> mmc0_get_cmd_status M st;
      if status = 1 then let (r, h) = mmc0_get_resp (regs M) (hw st) in Some (status, c\<lparr>c_rsp := r\<rparr>, st\<lparr>hw := h\<rparr>)
      else Some (status, c, st) })"

text \<open>A command structure on the stack: the fields the code sets, the others as they happen to be.\<close>

definition new_cmd :: "'s board \<Rightarrow> DWORD \<Rightarrow> DWORD \<Rightarrow> DWORD \<Rightarrow> mmcCmd" where
  "new_cmd M idx fl a = \<lparr>c_idx = idx, c_flags = fl, c_arg = a, c_nblks = stack_words M ! 4, c_rsp = take 4 (stack_words M)\<rparr>"

definition MMCAppCmdSend :: "'s board \<Rightarrow> mmcCmd \<Rightarrow> 's mmcdrv \<Rightarrow> (DWORD \<times> mmcCmd \<times> 's mmcdrv) option" where
  "MMCAppCmdSend M c st = do {
     (status, capp, st) \<leftarrow> MMC0CmdSend M (new_cmd M 55 0 (push_bit 16 (rca (sdCard st)))) st;
     if status = 0 then Some (0, c, st) else MMC0CmdSend M c st }"

definition MMCBusWidthSet :: "'s board \<Rightarrow> 's mmcdrv \<Rightarrow> (DWORD \<times> 's mmcdrv) option" where
  "MMCBusWidthSet M st =
     (let a = (if busWidth (ctrlInfo st) AND 4 \<noteq> 0 \<and> card_busWidth (sdCard st) AND 4 \<noteq> 0 then 4 else 1);
          a = drop_bit 1 a in do {
      (status, capp, st) \<leftarrow> MMCAppCmdSend M (new_cmd M 6 0 a) st;
      if status = 1
      then Some (status, on_hw (MMCSetBusWidth (regs M) (memBase (ctrlInfo st)) (if a = 0 then 1 else 4)) st)
      else Some (status, st) })"

abbreviation upd_card :: "(mmcCardInfo \<Rightarrow> mmcCardInfo) \<Rightarrow> 's mmcdrv \<Rightarrow> 's mmcdrv" where
  "upd_card f st \<equiv> st\<lparr>sdCard := f (sdCard st)\<rparr>"

definition MMCTranSpeedSet :: "'s board \<Rightarrow> 's mmcdrv \<Rightarrow> (DWORD \<times> 's mmcdrv) option" where
  "MMCTranSpeedSet M st = do {
     let st = MMCXferSetup M 1 (dataBuffer M) 64 1 st;
     (status, cmd, st) \<leftarrow> MMC0CmdSend M ((new_cmd M 6 (SD_CMDRSP_READ OR SD_CMDRSP_DATA)
                             ((0x80FFFFFF AND 0xFFFFFFF0) OR 0x1))\<lparr>c_nblks := 1\<rparr>) st;
     if status = 0 then Some (0, st) else do {
     (status, st) \<leftarrow> mmc0_get_xfer_status M st;
     if status = 0 then Some (0, st) else do {
     let speed = tranSpeed (sdCard st);
     let st = (if peek M (dataBuffer M + 16) (hw st) AND 0xF = 0x1 then upd_card (\<lambda>c. c\<lparr>tranSpeed := 0x5A\<rparr>) st else st);
     let freq = (if speed = 0x5A then 50000000 else 25000000);
     (status, h) \<leftarrow> MMCSetBusFreq (regs M) (memBase (ctrlInfo st)) (ipClk (ctrlInfo st)) freq 0 (hw st);
     let st = st\<lparr>hw := h, ctrlInfo := (ctrlInfo st)\<lparr>opClk := freq\<rparr>\<rparr>;
     Some (if status \<noteq> 0 then 0 else 1, st) }}}"

definition MMCCardReset :: "'s board \<Rightarrow> 's mmcdrv \<Rightarrow> (DWORD \<times> 's mmcdrv) option" where
  "MMCCardReset M st = do {
     (status, cmd, st) \<leftarrow> MMC0CmdSend M (new_cmd M 0 SD_CMDRSP_NONE 0) st;
     Some (status, st) }"

definition MMCStopCmdSend :: "'s board \<Rightarrow> 's mmcdrv \<Rightarrow> (DWORD \<times> 's mmcdrv) option" where
  "MMCStopCmdSend M st = do {
     (status, cmd, st) \<leftarrow> MMC0CmdSend M (new_cmd M 12 SD_CMDRSP_BUSY 0) st;
     mmc0_get_xfer_status M st }"

definition MMCCardTypeCheck :: "'s board \<Rightarrow> 's mmcdrv \<Rightarrow> (DWORD \<times> 's mmcdrv) option" where
  "MMCCardTypeCheck M st = do {
     (status, cmd, st) \<leftarrow> MMCAppCmdSend M (new_cmd M 55 0 0) st;
     Some (status, st) }"

section \<open>Blocks\<close>

text \<open>The address of a block: high capacity cards count blocks, others bytes.\<close>

definition block_address :: "mmcCardInfo \<Rightarrow> DWORD \<Rightarrow> DWORD" where
  "block_address crd blkno = (if highCap crd \<noteq> 0 then blkno else blkno * blkLen crd)"

definition MMCReadCmdSend :: "'s board \<Rightarrow> DWORD \<Rightarrow> DWORD \<Rightarrow> DWORD \<Rightarrow> 's mmcdrv \<Rightarrow> (DWORD \<times> 's mmcdrv) option" where
  "MMCReadCmdSend M ptr blkno nblks st = do {
     let address = block_address (sdCard st) blkno;
     let st = MMCXferSetup M 1 ptr 512 nblks st;
     let fl = SD_CMDRSP_READ OR SD_CMDRSP_DATA;
     let cmd = (if nblks > 1 then new_cmd M 18 (fl OR SD_CMDRSP_ABORT) address else new_cmd M 17 fl address);
     (status, cmd, st) \<leftarrow> MMC0CmdSend M (cmd\<lparr>c_nblks := nblks\<rparr>) st;
     if status = 0 then Some (0, st) else do {
     (status, st) \<leftarrow> mmc0_get_xfer_status M st;
     if status = 0 then Some (0, st) else
     if c_nblks cmd > 1 then do {
       (status, st) \<leftarrow> MMCStopCmdSend M st;
       if status = 0 then Some (0, st) else Some (1, st) }
     else Some (1, st) }}"

definition MMCWriteCmdSend :: "'s board \<Rightarrow> DWORD \<Rightarrow> DWORD \<Rightarrow> DWORD \<Rightarrow> 's mmcdrv \<Rightarrow> (DWORD \<times> 's mmcdrv) option" where
  "MMCWriteCmdSend M ptr blkno nblks st = do {
     let address = block_address (sdCard st) blkno;
     let st = MMCXferSetup M 0 ptr 512 nblks st;
     let fl = SD_CMDRSP_WRITE OR SD_CMDRSP_DATA;
     let cmd = (if nblks > 1 then new_cmd M 25 (fl OR SD_CMDRSP_ABORT) address else new_cmd M 24 fl address);
     (status, cmd, st) \<leftarrow> MMC0CmdSend M (cmd\<lparr>c_nblks := nblks\<rparr>) st;
     if status = 0 then Some (0, st) else do {
     (status, st) \<leftarrow> mmc0_get_xfer_status M st;
     if status = 0 then Some (0, st) else
     if c_nblks cmd > 1 then do {
       (status, st) \<leftarrow> MMCStopCmdSend M st;
       if status = 0 then Some (0, st) else Some (1, st) }
     else Some (1, st) }}"

section \<open>Initialising a card\<close>

definition csd_version :: "DWORD list \<Rightarrow> DWORD" where
  "csd_version csd = drop_bit 30 (csd ! 3 AND 0xC0000000)"

definition csd_rdblklen :: "DWORD list \<Rightarrow> DWORD" where
  "csd_rdblklen csd = drop_bit 16 (csd ! 2 AND 0x000F0000)"

definition csd_transpeed :: "DWORD list \<Rightarrow> DWORD" where
  "csd_transpeed csd = csd ! 3 AND 0xFF"

definition csd0_dev_size :: "DWORD list \<Rightarrow> DWORD" where
  "csd0_dev_size csd = push_bit 2 (csd ! 2 AND 0x3FF) OR drop_bit 30 (csd ! 1 AND 0xC0000000)"

definition csd0_mult :: "DWORD list \<Rightarrow> DWORD" where
  "csd0_mult csd = drop_bit 15 (csd ! 1 AND 0x00038000)"

definition csd0_numblk :: "DWORD list \<Rightarrow> DWORD" where
  "csd0_numblk csd = (csd0_dev_size csd + 1) * push_bit (unat (csd0_mult csd + 2)) 1"

definition csd1_dev_size :: "DWORD list \<Rightarrow> DWORD" where
  "csd1_dev_size csd = push_bit 16 (csd ! 2 AND 0x3F) OR drop_bit 16 (csd ! 1 AND 0xFFFF0000)"

definition csd1_size :: "DWORD list \<Rightarrow> DWORD" where
  "csd1_size csd = (csd1_dev_size csd + 1) * (512 * 1024)"

text \<open>What the initialisation takes from the card specific data.\<close>

definition take_csd :: "mmcCardInfo \<Rightarrow> mmcCardInfo option" where
  "take_csd crd =
     (let csd = raw_csd crd; crd = crd\<lparr>tranSpeed := ucast (csd_transpeed csd), blkLen := push_bit (unat (csd_rdblklen csd)) 1\<rparr> in
      if csd_version csd \<noteq> 0
      then Option.bind (aeabi_uidiv (csd1_size csd) (blkLen crd)) (\<lambda>n. Some (crd\<lparr>card_size := csd1_size csd, nBlks := n\<rparr>))
      else Some (crd\<lparr>nBlks := csd0_numblk csd, card_size := csd0_numblk csd * push_bit (unat (csd_rdblklen csd)) 1\<rparr>))"

text \<open>The loop that waits for the card to power up, with the retries it leaves.\<close>

function ocr_wait :: "'s board \<Rightarrow> DWORD \<Rightarrow> mmcCmd \<Rightarrow> 's mmcdrv \<Rightarrow> (DWORD \<times> mmcCmd \<times> 's mmcdrv) option" where
  "ocr_wait M retry cmd st =
     Option.bind (MMCAppCmdSend M (cmd\<lparr>c_idx := 41, c_flags := 0, c_arg := push_bit 30 1 OR push_bit 15 0x1FF\<rparr>) st)
       (\<lambda>(status, cmd, st).
          if c_rsp cmd ! 0 AND push_bit 31 1 \<noteq> 0 then Some (retry, cmd, st)
          else if retry = 0 then Some (retry - 1, cmd, st)
          else ocr_wait M (retry - 1) cmd st)"
  by pat_completeness auto

termination
  by (relation "measure (\<lambda>(M, retry, cmd, st). unat retry)") (auto simp: unat_pred)

declare ocr_wait.simps [simp del]

definition scr_word :: "'s board \<Rightarrow> DWORD \<Rightarrow> 's \<Rightarrow> DWORD" where
  "scr_word M i h = (let b = (\<lambda>k. ucast (peek M (dataBuffer M + i + k) h) :: DWORD) in
     push_bit 24 (b 3) OR push_bit 16 (b 2) OR push_bit 8 (b 1) OR b 0)"

definition zero_card :: mmcCardInfo where
  "zero_card = \<lparr>cardType = 0, rca = 0, raw_scr = [0, 0], raw_csd = [0, 0, 0, 0], raw_cid = [0, 0, 0, 0], card_ocr = 0,
     sd_ver = 0, card_busWidth = 0, tranSpeed = 0, highCap = 0, blkLen = 0, nBlks = 0, card_size = 0\<rparr>"

text \<open>A step that ends the initialisation when the card does not answer.\<close>

abbreviation or_fail :: "DWORD \<Rightarrow> 's mmcdrv \<Rightarrow> (DWORD \<times> 's mmcdrv) option \<Rightarrow> (DWORD \<times> 's mmcdrv) option" where
  "or_fail status st rest \<equiv> (if status = 0 then Some (0, st) else rest)"

text \<open>From the selection of the card on.\<close>

definition init_scr :: "'s board \<Rightarrow> mmcCmd \<Rightarrow> 's mmcdrv \<Rightarrow> (DWORD \<times> 's mmcdrv) option" where
  "init_scr M cmd st = do {
     (status, cmd, st) \<leftarrow> MMC0CmdSend M (cmd\<lparr>c_idx := 7, c_flags := SD_CMDRSP_BUSY, c_arg := push_bit 16 (rca (sdCard st))\<rparr>) st;
     or_fail status st (do {
     (status, cmd, st) \<leftarrow> MMC0CmdSend M (cmd\<lparr>c_idx := 55, c_flags := 0, c_arg := push_bit 16 (rca (sdCard st))\<rparr>) st;
     or_fail status st (do {
     let st = MMCXferSetup M 1 (dataBuffer M) 8 1 st;
     (status, cmd, st) \<leftarrow> MMC0CmdSend M (cmd\<lparr>c_idx := 51, c_flags := SD_CMDRSP_READ OR SD_CMDRSP_DATA,
                             c_arg := push_bit 16 (rca (sdCard st)), c_nblks := 1\<rparr>) st;
     or_fail status st (do {
     (status, st) \<leftarrow> mmc0_get_xfer_status M st;
     or_fail status st (
       let scr = [scr_word M 0 (hw st), scr_word M 4 (hw st)] in
       Some (1, upd_card (\<lambda>c. c\<lparr>raw_scr := scr, sd_ver := ucast (scr ! 0 AND 0xF),
                                card_busWidth := ucast (drop_bit 8 (scr ! 0 AND 0xF00))\<rparr>) st)) }) }) }) }"

text \<open>The identification of the card: registers CID, RCA and CSD, and the length of a block.\<close>

definition init_identify :: "'s board \<Rightarrow> mmcCmd \<Rightarrow> 's mmcdrv \<Rightarrow> (DWORD \<times> 's mmcdrv) option" where
  "init_identify M cmd st = do {
     (status, cmd, st) \<leftarrow> MMC0CmdSend M (cmd\<lparr>c_idx := 2, c_flags := SD_CMDRSP_136BITS, c_arg := 0\<rparr>) st;
     let st = upd_card (\<lambda>c. c\<lparr>raw_cid := c_rsp cmd\<rparr>) st;
     or_fail status st (do {
     (status, cmd, st) \<leftarrow> MMC0CmdSend M (cmd\<lparr>c_idx := 3, c_flags := 0, c_arg := 0\<rparr>) st;
     let st = upd_card (\<lambda>c. c\<lparr>rca := drop_bit 16 (c_rsp cmd ! 0 AND 0xFFFF0000)\<rparr>) st;
     or_fail status st (do {
     (status, cmd, st) \<leftarrow> MMC0CmdSend M (cmd\<lparr>c_idx := 9, c_flags := SD_CMDRSP_136BITS, c_arg := push_bit 16 (rca (sdCard st))\<rparr>) st;
     let st = upd_card (\<lambda>c. c\<lparr>raw_csd := c_rsp cmd\<rparr>) st;
     or_fail status st (do {
     crd \<leftarrow> take_csd (sdCard st);
     let st = st\<lparr>sdCard := crd\<rparr>;
     if highCap crd = 0 then do {
       (status, cmd, st) \<leftarrow> MMC0CmdSend M (cmd\<lparr>c_idx := 16, c_flags := SD_CMDRSP_NONE, c_arg := 512\<rparr>) st;
       or_fail status st (init_scr M cmd (upd_card (\<lambda>c. c\<lparr>blkLen := 512\<rparr>) st)) }
     else init_scr M cmd st }) }) }) }"

definition MMCCardInit :: "'s board \<Rightarrow> 's mmcdrv \<Rightarrow> (DWORD \<times> 's mmcdrv) option" where
  "MMCCardInit M st = do {
     (status, st) \<leftarrow> MMCCardReset M (st\<lparr>sdCard := zero_card\<rparr>);
     or_fail status st (do {
     (status, st) \<leftarrow> MMCCardTypeCheck M st;
     if status = 1 then do {
       (status, st) \<leftarrow> MMCCardReset M (upd_card (\<lambda>c. c\<lparr>cardType := 0\<rparr>) st);
       or_fail status st (do {
       (status, cmd, st) \<leftarrow> MMC0CmdSend M (new_cmd M 8 0 (0xAA OR 0x100)) st;
       (status, cmd, st) \<leftarrow> MMCAppCmdSend M (cmd\<lparr>c_idx := 41, c_flags := 0, c_arg := push_bit 30 1 OR push_bit 15 0x1FF\<rparr>) st;
       or_fail status st (do {
       (retry, cmd, st) \<leftarrow> ocr_wait M 0xFFFF cmd st;
       or_fail retry st (
         let ocr = c_rsp cmd ! 0 in
         init_identify M cmd (upd_card (\<lambda>c. c\<lparr>card_ocr := ocr, highCap := (if ocr AND push_bit 30 1 \<noteq> 0 then 1 else 0)\<rparr>) st)) }) }) }
     else Some (0, st) }) }"

section \<open>Starting the driver\<close>

definition mmc0_dma_config :: "'s board \<Rightarrow> 's mmcdrv \<Rightarrow> 's mmcdrv option" where
  "mmc0_dma_config M st = do {
     h \<leftarrow> dma_clk_cfg (regs M) (hw st);
     let h = DMAInit (regs M) SOC_DMA0CC_0_REGS 0 h;
     let h = snd (DMARequestChannel (regs M) SOC_DMA0CC_0_REGS DMA_CHANNEL_TYPE_DMA DMA_CHA_MMC0_TX DMA_CHA_MMC0_TX 0 h);
     let h = snd (DMARequestChannel (regs M) SOC_DMA0CC_0_REGS DMA_CHANNEL_TYPE_DMA DMA_CHA_MMC0_RX DMA_CHA_MMC0_RX 0 h);
     Some (st\<lparr>hw := h, cb_Fxn := (cb_Fxn st)(24 := True, 25 := True)\<rparr>) }"

definition pinmux :: "'s bus \<Rightarrow> DWORD \<Rightarrow> DWORD \<Rightarrow> 's \<Rightarrow> 's" where
  "pinmux B pin v h = wr B (0x44E10000 + pin) v h"

definition mmc0_config :: "'s board \<Rightarrow> 's mmcdrv \<Rightarrow> 's mmcdrv" where
  "mmc0_config M st =
     st\<lparr>hw := fold (\<lambda>(pin, v). pinmux (regs M) pin v)
               [(0x8F0, 0x30), (0x8F4, 0x30), (0x8F8, 0x30), (0x8FC, 0x30), (0x900, 0x30), (0x904, 0x30), (0x960, 0x35)] (hw st),
       ctrlInfo := (ctrlInfo st)\<lparr>memBase := SOC_MMC_0_REGS, intrMask := 0x1 OR 0x10000 OR 0x100000 OR 0x2,
         busWidth := 1 OR 4, highspeed := 1, ctrl_ocr := push_bit 18 1 OR push_bit 19 1, ipClk := 96000000,
         opClk := 400000, cdPinNum := 6\<rparr>,
       callbackOccured := 0, xferCompFlag := 0, dataTimeout := 0, cmdCompFlag := 0, cmdTimeout := 0\<rparr>"

definition mmc0_start :: "'s board \<Rightarrow> 's mmcdrv \<Rightarrow> 's mmcdrv option" where
  "mmc0_start M st = do {
     st \<leftarrow> mmc0_dma_config M st;
     let st = mmc0_config M st;
     (r, h) \<leftarrow> mmc0_init (regs M) (hw st);
     Some (st\<lparr>hw := mmc0_irq_enab (regs M) h\<rparr>) }"

end
