(* ===== verification/MmcDisk.thy ===== *)
theory MmcDisk
  imports MmcApi Diskio
begin

unbundle bit_operations_syntax

text \<open>
  Reading and writing blocks, from the call to the end of the transfer.  The locale \<open>sd_host\<close> states what
  the reference manual of the chip promises of the host controller, the DMA controller and the card: the
  registers that set and clear bits, the interrupts and the status behind them, and what a command for
  a data transfer does when it is written.  Interrupts come in any order and with any delay, as long as
  the one of the DMA controller comes before the driver gives up on it; the card may not answer,
  or fail to deliver.  Inside the locale the driver is followed through the transfer.
\<close>

section \<open>The view of the hardware\<close>

datatype mmc_event = Idle | Cmd_done | Cmd_silent | Data_done | Data_lost | Dma_done nat

record sd_view =
  blocks :: "DWORD \<Rightarrow> nat \<Rightarrow> BYTE"   \<comment> \<open>the card, by the address of a command and the byte in the block\<close>
  mem :: "DWORD \<Rightarrow> BYTE"
  armed :: DWORD                    \<comment> \<open>\<^verbatim>\<open>EER\<close>\<close>
  stat :: DWORD                     \<comment> \<open>\<^verbatim>\<open>SD_STAT\<close>\<close>
  ipr :: DWORD                      \<comment> \<open>\<^verbatim>\<open>IPR\<close>\<close>
  lastcmd :: DWORD                  \<comment> \<open>\<^verbatim>\<open>SD_CMD\<close>\<close>
  due :: "mmc_event list"           \<comment> \<open>the interrupts to come\<close>

text \<open>What an event sets when it happens, and the interrupt it raises.\<close>

fun event_stat :: "mmc_event \<Rightarrow> DWORD" where
  "event_stat Cmd_done = 0x1"
| "event_stat Cmd_silent = 0x18000"
| "event_stat Data_done = 0x2"
| "event_stat Data_lost = 0x108000"
| "event_stat _ = 0"

fun event_ipr :: "mmc_event \<Rightarrow> DWORD" where
  "event_ipr (Dma_done ch) = push_bit ch 1"
| "event_ipr _ = 0"

fun event_irq :: "mmc_event \<Rightarrow> interrupt option" where
  "event_irq Idle = None"
| "event_irq (Dma_done ch) = Some DMA_IRQ"
| "event_irq _ = Some MMC_IRQ"

definition happen :: "mmc_event \<Rightarrow> mmc_event list \<Rightarrow> sd_view \<Rightarrow> sd_view" where
  "happen e es v = v\<lparr>stat := stat v OR event_stat e, ipr := ipr v OR event_ipr e, due := es\<rparr>"

text \<open>The bytes of consecutive blocks at an address of the memory, and the blocks from the bytes.\<close>

definition fill :: "(DWORD \<Rightarrow> BYTE) \<Rightarrow> DWORD \<Rightarrow> nat \<Rightarrow> (nat \<Rightarrow> BYTE) \<Rightarrow> DWORD \<Rightarrow> BYTE" where
  "fill m ptr n f x = (if unat (x - ptr) < n then f (unat (x - ptr)) else m x)"

text \<open>A parameter set that moves \<open>n\<close> blocks of 512 bytes between the data register and the memory.\<close>

definition rx_moves :: "DMACCPaRAMEntry \<Rightarrow> DWORD \<Rightarrow> nat \<Rightarrow> bool" where
  "rx_moves p ptr n \<longleftrightarrow> opt p = 0x119205 \<and> srcAddr p = SOC_MMC_0_REGS + MMC_DATA \<and> aCnt p = 4 \<and> bCnt p = 128 \<and>
     destAddr p = ptr \<and> srcBIdx p = 0 \<and> destBIdx p = 4 \<and> linkAddr p = 0xFFFF \<and> srcCIdx p = 0 \<and> destCIdx p = 512 \<and>
     unat (cCnt p) = n"

definition tx_moves :: "DMACCPaRAMEntry \<Rightarrow> DWORD \<Rightarrow> nat \<Rightarrow> bool" where
  "tx_moves p ptr n \<longleftrightarrow> opt p = 0x118206 \<and> destAddr p = SOC_MMC_0_REGS + MMC_DATA \<and> aCnt p = 4 \<and> bCnt p = 128 \<and>
     srcAddr p = ptr \<and> srcBIdx p = 4 \<and> destBIdx p = 0 \<and> linkAddr p = 0xFFFF \<and> srcCIdx p = 512 \<and> destCIdx p = 0 \<and>
     unat (cCnt p) = n"

text \<open>The interrupts of a transfer that works, of a command that is not answered, and of lost data.\<close>

definition brings :: "mmc_event set \<Rightarrow> mmc_event list \<Rightarrow> bool" where
  "brings E es \<longleftrightarrow> set es \<subseteq> insert Idle E \<and> (\<forall>e \<in> E. count_list es e = 1) \<and> length es < 65535"

datatype answer = Works | Silent | Lost

lemma concat_nth:
  assumes "\<And>k. length (f k) = m" "j < m * n"
  shows "concat (map f [0..<n]) ! j = f (j div m) ! (j mod m)"
  using assms(2)
proof (induction n)
  case (Suc n)
  have len: "length (concat (map f [0..<n])) = m * n"
    using assms(1) by (simp add: length_concat comp_def sum_list_triv)
  show ?case
  proof (cases "j < m * n")
    case True
    then show ?thesis using Suc.IH len by (simp add: nth_append)
  next
    case False
    then obtain i where i: "j = m * n + i" "i < m" using Suc.prems by (metis add.commute add_less_cancel_left le_Suc_ex mult_Suc_right not_less)
    then have "j div m = n" "j mod m = i" by simp_all
    then show ?thesis using i(1) len by (simp add: nth_append)
  qed
qed simp

lemma each_bit_single:
  "k < 32 \<Longrightarrow> each_bit f i (push_bit k 1) st = (Suc (i + k), f (i + k) st)"
proof (induction k arbitrary: i)
  case 0
  then show ?case by (simp add: each_bit.simps [of f i 1] each_bit.simps [of f "Suc i" 0])
next
  case (Suc k)
  have "bit (push_bit (Suc k) 1 :: DWORD) (Suc k)" using Suc.prems by (simp add: bit_simps)
  then have nz: "push_bit (Suc k) 1 \<noteq> (0 :: DWORD)" by auto
  have lo: "push_bit (Suc k) 1 AND 1 = (0 :: DWORD)" by (rule bit_word_eqI) (auto simp: bit_simps)
  have dr: "drop_bit 1 (push_bit (Suc k) 1 :: DWORD) = push_bit k 1"
    by (rule bit_word_eqI) (use Suc.prems in \<open>auto simp: bit_simps\<close>)
  have "each_bit f (Suc i) (push_bit k 1) st = (Suc (i + Suc k), f (i + Suc k) st)"
    using Suc.IH [of "Suc i"] Suc.prems by simp
  then show ?case by (simp only: each_bit.simps [of f i "push_bit (Suc k) 1"] nz lo dr if_False simp_thms)
qed

lemma rounds_10: "completion_rounds M 10 i st = completion_rounds M (Suc (Suc (Suc 7))) i st"
  by (simp add: eval_nat_numeral)

text \<open>The driver between two transfers: registered callbacks, no flag set, no interrupt to come.\<close>

definition sd_ready :: "('s \<Rightarrow> sd_view) \<Rightarrow> 's mmcdrv \<Rightarrow> bool" where
  "sd_ready view st \<longleftrightarrow> memBase (ctrlInfo st) = SOC_MMC_0_REGS \<and> cb_Fxn st 24 \<and> cb_Fxn st 25 \<and>
     stat (view (hw st)) = 0 \<and> ipr (view (hw st)) = 0 \<and> cmdCompFlag st = 0 \<and> cmdTimeout st = 0 \<and>
     dataTimeout st = 0 \<and> xferCompFlag st = 0 \<and> callbackOccured st = 0 \<and> set (due (view (hw st))) \<subseteq> {Idle}"

text \<open>The card counts its addresses in \<open>scale\<close> per block, and a disk of \<open>cap\<close> blocks lies in its address space.\<close>

definition counts :: "DWORD \<Rightarrow> nat \<Rightarrow> mmcCardInfo \<Rightarrow> bool" where
  "counts scale cap crd \<longleftrightarrow> scale = (if highCap crd \<noteq> 0 then 1 else blkLen crd) \<and> cap * unat scale \<le> 2 ^ 32"

text \<open>The disk layer's card holds the blocks of the card behind the controller.\<close>

definition card_holds :: "DWORD \<Rightarrow> nat \<Rightarrow> card \<Rightarrow> sd_view \<Rightarrow> bool" where
  "card_holds scale cap c v \<longleftrightarrow> (\<forall>s i. unat s < cap \<longrightarrow> i < 512 \<longrightarrow> blk c s i = blocks v (scale * s) i)"

definition bytes_at :: "sd_view \<Rightarrow> DWORD \<Rightarrow> nat \<Rightarrow> buffer" where
  "bytes_at v ptr n = map (\<lambda>i. mem v (ptr + of_nat i)) [0..<n]"

section \<open>The contract\<close>

locale sd_host = plain_regs B plain val
  for B :: "'s bus" and plain val +
  fixes M :: "'s board" and view :: "'s \<Rightarrow> sd_view" and answer :: answer and scale :: DWORD
  assumes board: "regs M = B" "peek M a s = mem (view s) a"
    and scale_pos: "scale \<noteq> 0"
    and plain_mmc: "plain (SOC_MMC_0_REGS + MMC_BLK)" "plain (SOC_MMC_0_REGS + MMC_ARG)" "plain (SOC_MMC_0_REGS + MMC_SYSCTL)"
    and plain_param: "a \<in> set (param_addrs SOC_DMA0CC_0_REGS 24) \<union> set (param_addrs SOC_DMA0CC_0_REGS 25) \<Longrightarrow> plain a"
    and view_plain: "plain a \<Longrightarrow> view (wr B a x s) = view s"
    and read_stat: "rd B (SOC_MMC_0_REGS + MMC_STAT) s = (stat (view s), s)"
    and clear_stat: "view (wr B (SOC_MMC_0_REGS + MMC_STAT) x s) = (view s)\<lparr>stat := stat (view s) AND NOT x\<rparr>"
    and read_cmd: "rd B (SOC_MMC_0_REGS + MMC_CMD) s = (lastcmd (view s), s)"
    and read_rsp: "i \<in> {0, 4, 8, 0xC} \<Longrightarrow> \<exists>v. rd B (SOC_MMC_0_REGS + MMC_RSP + i) s = (v, s)"
    and read_ipr: "rd B (SOC_DMA0CC_0_REGS + S_IPR) s = (ipr (view s), s)"
    and clear_ipr: "view (wr B (SOC_DMA0CC_0_REGS + S_ICR) x s) = (view s)\<lparr>ipr := ipr (view s) AND NOT x\<rparr>"
    and write_only: "a \<in> {S_EESR, S_EECR, DMACC_EMCR} \<Longrightarrow> rd B (SOC_DMA0CC_0_REGS + a) s = (0, s)"
    and arm: "view (wr B (SOC_DMA0CC_0_REGS + S_EESR) x s) = (view s)\<lparr>armed := armed (view s) OR x\<rparr>"
    and disarm: "view (wr B (SOC_DMA0CC_0_REGS + S_EECR) x s) = (view s)\<lparr>armed := armed (view s) AND NOT x\<rparr>"
    and inert: "a \<in> {S_SECR, DMACC_EMCR} \<Longrightarrow> view (wr B (SOC_DMA0CC_0_REGS + a) x s) = view s"
    and val_dma: "plain b \<Longrightarrow> a \<in> {S_ICR, S_EESR, S_EECR, S_SECR, DMACC_EMCR} \<Longrightarrow>
      val b (wr B (SOC_DMA0CC_0_REGS + a) x s) = val b s"
    and val_mmc: "plain b \<Longrightarrow> a \<in> {MMC_STAT, MMC_CMD} \<Longrightarrow> val b (wr B (SOC_MMC_0_REGS + a) x s) = val b s"
    and event: "due (view s) = e # es \<Longrightarrow> \<exists>s'. next_irq M s = (event_irq e, s') \<and> view s' = happen e es (view s) \<and>
      (\<forall>a. plain a \<longrightarrow> val a s' = val a s)"
    and no_event: "due (view s) = [] \<Longrightarrow> \<exists>s'. next_irq M s = (None, s') \<and> view s' = view s \<and>
      (\<forall>a. plain a \<longrightarrow> val a s' = val a s)"
    and stop_cmd: "drop_bit 24 c = 12 \<Longrightarrow> answer = Works \<Longrightarrow> \<exists>es. brings {Cmd_done, Data_done} es \<and>
      view (wr B (SOC_MMC_0_REGS + MMC_CMD) c s) = (view s)\<lparr>lastcmd := c, due := es\<rparr>"
    and read_cmd_works: "drop_bit 24 c = (if n = 1 then 17 else 18) \<Longrightarrow> c AND 0x200011 = 0x200011 \<Longrightarrow>
      take_bit 12 (val (SOC_MMC_0_REGS + MMC_BLK) s) = 512 \<Longrightarrow>
      unat (drop_bit 16 (val (SOC_MMC_0_REGS + MMC_BLK) s)) = n \<Longrightarrow> 0 < n \<Longrightarrow>
      bit (armed (view s)) 25 \<Longrightarrow>
      rx_moves (words_param (map (\<lambda>a. val a s) (param_addrs SOC_DMA0CC_0_REGS 25))) ptr n \<Longrightarrow>
      answer = Works \<Longrightarrow> \<exists>es. brings {Cmd_done, Data_done, Dma_done 25} es \<and>
      view (wr B (SOC_MMC_0_REGS + MMC_CMD) c s) = (view s)\<lparr>lastcmd := c, due := es,
        mem := fill (mem (view s)) ptr (512 * n)
          (\<lambda>i. blocks (view s) (val (SOC_MMC_0_REGS + MMC_ARG) s + scale * of_nat (i div 512)) (i mod 512))\<rparr>"
    and write_cmd_works: "drop_bit 24 c = (if n = 1 then 24 else 25) \<Longrightarrow> c AND 0x200011 = 0x200001 \<Longrightarrow>
      take_bit 12 (val (SOC_MMC_0_REGS + MMC_BLK) s) = 512 \<Longrightarrow>
      unat (drop_bit 16 (val (SOC_MMC_0_REGS + MMC_BLK) s)) = n \<Longrightarrow> 0 < n \<Longrightarrow>
      bit (armed (view s)) 24 \<Longrightarrow>
      tx_moves (words_param (map (\<lambda>a. val a s) (param_addrs SOC_DMA0CC_0_REGS 24))) ptr n \<Longrightarrow>
      answer = Works \<Longrightarrow> \<exists>es. brings {Cmd_done, Data_done, Dma_done 24} es \<and>
      (\<exists>b. view (wr B (SOC_MMC_0_REGS + MMC_CMD) c s) = (view s)\<lparr>lastcmd := c, due := es, blocks := b\<rparr> \<and>
        (\<forall>k < n. b (val (SOC_MMC_0_REGS + MMC_ARG) s + scale * of_nat k) =
            (\<lambda>i. mem (view s) (ptr + of_nat (512 * k + i)))) \<and>
        (\<forall>a. (\<forall>k < n. a \<noteq> val (SOC_MMC_0_REGS + MMC_ARG) s + scale * of_nat k) \<longrightarrow> b a = blocks (view s) a))"
    and cmd_silent: "answer = Silent \<Longrightarrow> \<exists>es. brings {Cmd_silent} es \<and>
      view (wr B (SOC_MMC_0_REGS + MMC_CMD) c s) = (view s)\<lparr>lastcmd := c, due := es\<rparr>"
    and data_lost: "answer = Lost \<Longrightarrow> c AND MMC_CMD_DP \<noteq> 0 \<Longrightarrow> \<exists>es m. brings {Cmd_done, Data_lost} es \<and>
      view (wr B (SOC_MMC_0_REGS + MMC_CMD) c s) = (view s)\<lparr>lastcmd := c, due := es, mem := m\<rparr>"
begin

section \<open>One interrupt\<close>

lemma B [simp]: "regs M = B" by (rule board)

text \<open>The laws with the addresses computed.\<close>

lemmas stat_laws = read_stat [simplified] clear_stat [simplified] read_cmd [simplified]
lemmas dma_laws = read_ipr [simplified] clear_ipr [simplified] arm [simplified] disarm [simplified]

lemma more_dma:
  "rd B 0x49002030 s = (0, s)" "rd B 0x49002028 s = (0, s)" "rd B 0x49000308 s = (0, s)"
  "view (wr B 0x49002040 x s) = view s" "view (wr B 0x49000308 x s) = view s"
  using write_only [of S_EESR s] write_only [of S_EECR s] write_only [of DMACC_EMCR s]
    inert [of S_SECR x s] inert [of DMACC_EMCR x s] by simp_all

lemma val_other:
  assumes "plain b" "a \<in> {0x49002070, 0x49002030, 0x49002028, 0x49002040, 0x49000308, 0x48060230, 0x4806020C}"
  shows "val b (wr B a x s) = val b s"
  using val_dma [OF assms(1), of S_ICR x s] val_dma [OF assms(1), of S_EESR x s] val_dma [OF assms(1), of S_EECR x s]
    val_dma [OF assms(1), of S_SECR x s] val_dma [OF assms(1), of DMACC_EMCR x s]
    val_mmc [OF assms(1), of MMC_STAT x s] val_mmc [OF assms(1), of MMC_CMD x s] assms(2) by auto

text \<open>What the handler of an event does to the flags, and to the enabled channels.\<close>

fun ev :: "mmc_event \<Rightarrow> 's mmcdrv \<Rightarrow> 's mmcdrv" where
  "ev Idle st = st"
| "ev Cmd_done st = st\<lparr>cmdCompFlag := 1\<rparr>"
| "ev Cmd_silent st = st\<lparr>errFlag := 0x10000, cmdTimeout := 1\<rparr>"
| "ev Data_done st = st\<lparr>xferCompFlag := 1\<rparr>"
| "ev Data_lost st = st\<lparr>errFlag := 0x100000, dataTimeout := 1\<rparr>"
| "ev (Dma_done ch) st = st\<lparr>callbackOccured := 1\<rparr>"

text \<open>What stays the same while the driver waits.\<close>

definition keeps :: "'s mmcdrv \<Rightarrow> 's mmcdrv \<Rightarrow> bool" where
  "keeps st st' \<longleftrightarrow> ctrlInfo st' = ctrlInfo st \<and> sdCard st' = sdCard st \<and> cb_Fxn st' = cb_Fxn st \<and>
     (view (hw st'))\<lparr>armed := 0, due := []\<rparr> = (view (hw st))\<lparr>armed := 0, due := []\<rparr> \<and>
     (\<forall>a. plain a \<longrightarrow> val a (hw st') = val a (hw st))"

lemma keeps_refl [simp]: "keeps st st" by (simp add: keeps_def)

lemma keeps_trans: "keeps st st' \<Longrightarrow> keeps st' st'' \<Longrightarrow> keeps st st''" by (simp add: keeps_def)

lemma keeps_view: "keeps st st' \<Longrightarrow> blocks (view (hw st')) = blocks (view (hw st)) \<and>
  mem (view (hw st')) = mem (view (hw st)) \<and> stat (view (hw st')) = stat (view (hw st)) \<and>
  ipr (view (hw st')) = ipr (view (hw st)) \<and> lastcmd (view (hw st')) = lastcmd (view (hw st))"
  by (cases "view (hw st)"; cases "view (hw st')") (simp add: keeps_def)

text \<open>Nothing is pending, the structure points to the controller and the callbacks are registered.\<close>

definition waiting :: "'s mmcdrv \<Rightarrow> bool" where
  "waiting st \<longleftrightarrow> memBase (ctrlInfo st) = SOC_MMC_0_REGS \<and> cb_Fxn st 24 \<and> cb_Fxn st 25 \<and>
     stat (view (hw st)) = 0 \<and> ipr (view (hw st)) = 0"

lemma keeps_waiting: "keeps st st' \<Longrightarrow> waiting st \<Longrightarrow> waiting st'"
  using keeps_view [of st st'] by (simp add: waiting_def keeps_def)

definition expected :: "mmc_event \<Rightarrow> bool" where
  "expected e \<longleftrightarrow> (\<forall>ch. e = Dma_done ch \<longrightarrow> ch = 24 \<or> ch = 25)"

lemma irq_mmc:
  assumes w: "waiting st" and d: "due (view (hw st)) = e # es" and e: "event_irq e = Some MMC_IRQ"
  shows "\<exists>h. take_irq M st = Some ((ev e st)\<lparr>hw := h\<rparr>) \<and> view h = (view (hw st))\<lparr>due := es\<rparr> \<and>
    (\<forall>a. plain a \<longrightarrow> val a h = val a (hw st))"
proof -
  obtain s' where s': "next_irq M (hw st) = (Some MMC_IRQ, s')" "view s' = happen e es (view (hw st))"
    "\<forall>a. plain a \<longrightarrow> val a s' = val a (hw st)" using event [OF d] e by auto
  let ?h = "wr B (SOC_MMC_0_REGS + MMC_STAT) (event_stat e) s'"
  have st: "stat (view s') = event_stat e" using w by (simp add: s'(2) happen_def waiting_def)
  have v: "view ?h = (view (hw st))\<lparr>due := es\<rparr>"
    using w e by (cases e; simp add: stat_laws s'(2) happen_def waiting_def)
  have "\<forall>a. plain a \<longrightarrow> val a ?h = val a (hw st)" using s'(3) val_other [where a = "0x48060230"] by simp
  moreover have "take_irq M st = Some ((ev e st)\<lparr>hw := ?h\<rparr>)"
    using w e st
    by (cases e; simp add: take_irq_def s'(1) mmc0_isr_def MMCIntrStatusGet_def reg_test_def stat_laws waiting_def
        mmc0_clear_status_def Let_def)
  ultimately show ?thesis using v by blast
qed

lemma irq_idle:
  assumes "due (view (hw st)) = Idle # es"
  shows "\<exists>h. take_irq M st = Some ((ev Idle st)\<lparr>hw := h\<rparr>) \<and> view h = (view (hw st))\<lparr>due := es\<rparr> \<and>
    (\<forall>a. plain a \<longrightarrow> val a h = val a (hw st))"
  using event [OF assms] by (auto simp: take_irq_def happen_def)

lemma irq_dma:
  assumes w: "waiting st" and d: "due (view (hw st)) = Dma_done ch # es" and ch: "ch = 24 \<or> ch = 25"
  shows "\<exists>h. take_irq M st = Some ((ev (Dma_done ch) st)\<lparr>hw := h\<rparr>) \<and>
    view h = (view (hw st))\<lparr>due := es, armed := armed (view (hw st)) AND NOT (push_bit ch 1)\<rparr> \<and>
    (\<forall>a. plain a \<longrightarrow> val a h = val a (hw st))"
proof -
  obtain s' where s': "next_irq M (hw st) = (Some DMA_IRQ, s')" "view s' = happen (Dma_done ch) es (view (hw st))"
    "\<forall>a. plain a \<longrightarrow> val a s' = val a (hw st)" using event [OF d] by auto
  define h where "h = snd (DMADisableTransfer B SOC_DMA0CC_0_REGS (of_nat ch) DMA_TRIG_MODE_EVENT
    (DMAClrIntr B SOC_DMA0CC_0_REGS (of_nat ch) s'))"
  have ip: "ipr (view s') = push_bit ch 1" "armed (view s') = armed (view (hw st))"
    using w by (simp_all add: s'(2) happen_def waiting_def)
  have h24: "h = wr B 0x49002028 0x1000000 (wr B 0x49000308 0x1000000 (wr B 0x49002040 0x1000000 (wr B 0x49002070 0x1000000 s')))"
    if "ch = 24"
    using that by (simp add: h_def DMADisableTransfer_def DMAClrIntr_def DMAClrMissEvt_def DMADisableDmaEvt_def lo_hi_def
        DMACC_S_def regionId_def reg_or_def more_dma)
  have h25: "h = wr B 0x49002028 0x2000000 (wr B 0x49000308 0x2000000 (wr B 0x49002040 0x2000000 (wr B 0x49002070 0x2000000 s')))"
    if "ch = 25"
    using that by (simp add: h_def DMADisableTransfer_def DMAClrIntr_def DMAClrMissEvt_def DMADisableDmaEvt_def lo_hi_def
        DMACC_S_def regionId_def reg_or_def more_dma)
  have pb: "push_bit 24 1 = (0x1000000 :: DWORD)" "push_bit 25 1 = (0x2000000 :: DWORD)" by simp_all
  have h: "h = wr B 0x49002028 (push_bit ch 1) (wr B 0x49000308 (push_bit ch 1) (wr B 0x49002040 (push_bit ch 1)
      (wr B 0x49002070 (push_bit ch 1) s')))"
    using ch h24 h25 by (elim disjE; simp only: pb)
  have v: "view h = (view (hw st))\<lparr>due := es, armed := armed (view (hw st)) AND NOT (push_bit ch 1)\<rparr>"
    using w unfolding h dma_laws more_dma s'(2) happen_def waiting_def by simp
  have vals: "\<forall>a. plain a \<longrightarrow> val a h = val a (hw st)"
    unfolding h using s'(3) by (simp add: val_other)
  have i0: "ipr (view h) = 0" using w by (simp add: v waiting_def)
  have nz: "push_bit ch 1 \<noteq> (0 :: DWORD)" using ch by auto
  have ch32: "ch < 32" using ch by auto
  have cb: "cb_Fxn st ch" using w ch by (auto simp: waiting_def)
  have co: "completion M ch (st\<lparr>hw := s'\<rparr>) = st\<lparr>callbackOccured := 1, hw := h\<rparr>"
    unfolding completion_def callback_def Let_def h_def by (simp add: cb)
  have eb: "each_bit (completion M) 0 (push_bit ch 1) (st\<lparr>hw := s'\<rparr>) = (Suc ch, (st\<lparr>callbackOccured := 1, hw := h\<rparr>))"
    unfolding each_bit_single [OF ch32] add_0 by (simp only: co)
  define pw :: DWORD where "pw = push_bit ch 1"
  note pw = nz [folded pw_def] ip(1) [folded pw_def] eb [folded pw_def]
  have "completion_rounds M (Suc (Suc (Suc n))) 1 (st\<lparr>hw := s'\<rparr>) = st\<lparr>callbackOccured := 1, hw := h\<rparr>" for n
    using i0 by (simp add: DMAGetIntrStatus_def DMACC_S_def regionId_def dma_laws pw each_bit.simps [of _ 0 0])
  from this [of 7] have "DMACompletionISR M (st\<lparr>hw := s'\<rparr>) = st\<lparr>callbackOccured := 1, hw := h\<rparr>"
    unfolding rounds_10 [symmetric]
    by (simp add: DMACompletionISR_def DMAGetIntrStatus_def DMACC_S_def regionId_def dma_laws pw)
  then have "take_irq M st = Some ((ev (Dma_done ch) st)\<lparr>hw := h\<rparr>)" by (simp add: take_irq_def s'(1))
  then show ?thesis using v vals by blast
qed

text \<open>The driver has handled the events \<open>es\<close>.\<close>

definition ran :: "'s mmcdrv \<Rightarrow> mmc_event list \<Rightarrow> 's mmcdrv \<Rightarrow> bool" where
  "ran st es st' \<longleftrightarrow> keeps st st' \<and> due (view (hw st)) = es @ due (view (hw st')) \<and>
     callbackOccured st' = (if \<exists>ch. Dma_done ch \<in> set es then 1 else callbackOccured st) \<and>
     xferCompFlag st' = (if Data_done \<in> set es then 1 else xferCompFlag st) \<and>
     dataTimeout st' = (if Data_lost \<in> set es then 1 else dataTimeout st) \<and>
     cmdCompFlag st' = (if Cmd_done \<in> set es then 1 else cmdCompFlag st) \<and>
     cmdTimeout st' = (if Cmd_silent \<in> set es then 1 else cmdTimeout st)"

lemma ran_refl: "ran st [] st" by (simp add: ran_def)

lemma irq_event:
  assumes w: "waiting st" and d: "due (view (hw st)) = e # es" and e: "expected e"
  shows "\<exists>st'. take_irq M st = Some st' \<and> ran st [e] st' \<and> due (view (hw st')) = es"
proof -
  consider "e = Idle" | "event_irq e = Some MMC_IRQ" | ch where "e = Dma_done ch" by (cases e) auto
  then show ?thesis
  proof cases
    case 1
    from irq_idle [OF d [unfolded 1]] obtain h where
      h: "take_irq M st = Some ((ev Idle st)\<lparr>hw := h\<rparr>)" "view h = (view (hw st))\<lparr>due := es\<rparr>"
        "\<forall>a. plain a \<longrightarrow> val a h = val a (hw st)" by blast
    then show ?thesis using d 1 by (simp add: ran_def keeps_def)
  next
    case 2
    from irq_mmc [OF w d 2] obtain h where
      h: "take_irq M st = Some ((ev e st)\<lparr>hw := h\<rparr>)" "view h = (view (hw st))\<lparr>due := es\<rparr>"
        "\<forall>a. plain a \<longrightarrow> val a h = val a (hw st)" by blast
    then show ?thesis using d 2 by (cases e; simp add: ran_def keeps_def)
  next
    case 3
    have ch: "ch = 24 \<or> ch = 25" using e 3 by (simp add: expected_def)
    from irq_dma [OF w d [unfolded 3] ch] obtain h where
      h: "take_irq M st = Some ((ev (Dma_done ch) st)\<lparr>hw := h\<rparr>)"
        "view h = (view (hw st))\<lparr>due := es, armed := armed (view (hw st)) AND NOT (push_bit ch 1)\<rparr>"
        "\<forall>a. plain a \<longrightarrow> val a h = val a (hw st)" by blast
    then show ?thesis using d 3 by (simp add: ran_def keeps_def)
  qed
qed

lemma irq_none:
  assumes "due (view (hw st)) = []"
  shows "\<exists>st'. take_irq M st = Some st' \<and> ran st [] st'"
  using no_event [OF assms] assms by (auto simp: take_irq_def ran_def keeps_def)

lemma ran_snoc:
  assumes "ran st es st'" "ran st' [e] st''"
  shows "ran st (es @ [e]) st''"
  using assms keeps_trans [of st st' st''] unfolding ran_def by auto

section \<open>Waiting\<close>

lemma wait_until_ran:
  assumes w: "waiting st" and x: "\<forall>e \<in> set (due (view (hw st))). expected e"
    and rdy: "\<And>es st'. ran st es st' \<Longrightarrow> ready st' \<longleftrightarrow> P es" and P: "P (due (view (hw st)))"
  shows "\<exists>es st'. wait_until M ready st = Some st' \<and> ran st es st' \<and> P es"
proof -
  have "\<exists>es' st'. wait_until M ready st1 = Some st' \<and> ran st es' st' \<and> P es'" if "ran st es st1" for es st1
    using that
  proof (induction "due (view (hw st1))" arbitrary: es st1)
    case Nil
    then have "P es" using P by (simp add: ran_def)
    then have "ready st1" using rdy [OF Nil(2)] by simp
    then show ?case using Nil(2) \<open>P es\<close> by (auto simp: wait_until.simps [of M ready st1])
  next
    case (Cons e r)
    show ?case
    proof (cases "ready st1")
      case True
      then show ?thesis using Cons.prems rdy [OF Cons.prems] by (auto simp: wait_until.simps [of M ready st1])
    next
      case False
      have "waiting st1" using Cons.prems keeps_waiting w by (auto simp: ran_def)
      moreover have "due (view (hw st)) = es @ e # r" using Cons.prems unfolding ran_def Cons(2) by simp
      then have "expected e" using x by simp
      ultimately obtain st2 where st2: "take_irq M st1 = Some st2" "ran st1 [e] st2" "due (view (hw st2)) = r"
        using irq_event Cons(2) by metis
      from Cons(1) [OF st2(3) [symmetric] ran_snoc [OF Cons.prems st2(2)]] show ?thesis
        using False st2(1) by (simp add: wait_until.simps [of M ready st1])
    qed
  qed
  from this [OF ran_refl] show ?thesis by blast
qed

lemma callback_wait_ran:
  assumes w: "waiting st" and x: "\<forall>e \<in> set (due (view (hw st))). expected e"
    and c: "callbackOccured st \<noteq> 0 \<or> (\<exists>ch. Dma_done ch \<in> set (due (view (hw st))))"
    and t: "length (due (view (hw st))) < unat t"
  shows "\<exists>es st' t'. callback_wait M t st = Some (t', st') \<and> t' \<noteq> 0 \<and> ran st es st' \<and>
    (callbackOccured st \<noteq> 0 \<or> (\<exists>ch. Dma_done ch \<in> set es))"
proof -
  have "\<exists>es' st' t'. callback_wait M t1 st1 = Some (t', st') \<and> t' \<noteq> 0 \<and> ran st es' st' \<and>
      (callbackOccured st \<noteq> 0 \<or> (\<exists>ch. Dma_done ch \<in> set es'))"
    if "ran st es st1" "length (due (view (hw st1))) < unat t1" for es st1 t1
    using that
  proof (induction "due (view (hw st1))" arbitrary: es st1 t1)
    case Nil
    then have "callbackOccured st1 \<noteq> 0" using c by (auto simp: ran_def)
    moreover have "t1 \<noteq> 0" using Nil by auto
    moreover have "callbackOccured st \<noteq> 0 \<or> (\<exists>ch. Dma_done ch \<in> set es)" using c Nil by (auto simp: ran_def)
    ultimately show ?case using Nil(2) by (auto simp: callback_wait.simps [of M t1 st1])
  next
    case (Cons e r)
    have nz: "t1 \<noteq> 0" using Cons.prems(2) by auto
    show ?case
    proof (cases "callbackOccured st1 = 0")
      case False
      then have "callbackOccured st \<noteq> 0 \<or> (\<exists>ch. Dma_done ch \<in> set es)" using Cons.prems by (auto simp: ran_def split: if_splits)
      then show ?thesis using False nz Cons.prems by (auto simp: callback_wait.simps [of M t1 st1])
    next
      case True
      have "waiting st1" using Cons.prems keeps_waiting w by (auto simp: ran_def)
      moreover have "due (view (hw st)) = es @ e # r" using Cons.prems(1) unfolding ran_def Cons(2) by simp
      then have "expected e" using x by simp
      ultimately obtain st2 where st2: "take_irq M st1 = Some st2" "ran st1 [e] st2" "due (view (hw st2)) = r"
        using irq_event Cons(2) by metis
      have "length (due (view (hw st2))) < unat (t1 - 1)"
        using Cons.prems(2) nz st2(3) by (simp add: unat_minus_one flip: Cons(2))
      from Cons(1) [OF st2(3) [symmetric] ran_snoc [OF Cons.prems(1) st2(2)] this] show ?thesis
        using True nz st2(1) by (simp add: callback_wait.simps [of M t1 st1])
    qed
  qed
  from this [OF ran_refl t] show ?thesis .
qed

section \<open>The end of a command and of a transfer\<close>

lemma cmd_status_works:
  assumes "waiting st" "\<forall>e \<in> set (due (view (hw st))). expected e" "cmdCompFlag st = 0" "cmdTimeout st = 0"
    "Cmd_done \<in> set (due (view (hw st)))" "Cmd_silent \<notin> set (due (view (hw st)))"
  shows "\<exists>es st'. mmc0_get_cmd_status M st = Some (1, st'\<lparr>cmdCompFlag := 0\<rparr>) \<and> ran st es st' \<and> Cmd_done \<in> set es"
proof -
  have "\<exists>es st'. cmd_wait M st = Some st' \<and> ran st es st' \<and> Cmd_done \<in> set es" unfolding cmd_wait_def
    by (rule wait_until_ran [OF assms(1,2)]) (use assms in \<open>auto simp: ran_def\<close>)
  then obtain es st' where e: "cmd_wait M st = Some st'" "ran st es st'" "Cmd_done \<in> set es" by blast
  moreover have "cmdCompFlag st' = 1" "cmdTimeout st' = 0" using e(2,3) assms(4,6) by (auto simp: ran_def)
  ultimately show ?thesis by (auto simp: mmc0_get_cmd_status_def)
qed

lemma cmd_status_silent:
  assumes "waiting st" "\<forall>e \<in> set (due (view (hw st))). expected e" "cmdCompFlag st = 0" "cmdTimeout st = 0"
    "Cmd_silent \<in> set (due (view (hw st)))" "Cmd_done \<notin> set (due (view (hw st)))"
  shows "\<exists>es st'. mmc0_get_cmd_status M st = Some (0, st'\<lparr>cmdTimeout := 0\<rparr>) \<and> ran st es st' \<and> Cmd_silent \<in> set es"
proof -
  have "\<exists>es st'. cmd_wait M st = Some st' \<and> ran st es st' \<and> Cmd_silent \<in> set es" unfolding cmd_wait_def
    by (rule wait_until_ran [OF assms(1,2)]) (use assms in \<open>auto simp: ran_def\<close>)
  then obtain es st' where e: "cmd_wait M st = Some st'" "ran st es st'" "Cmd_silent \<in> set es" by blast
  moreover have "cmdCompFlag st' = 0" "cmdTimeout st' = 1" using e(2,3) assms(3,6) by (auto simp: ran_def)
  ultimately show ?thesis by (auto simp: mmc0_get_cmd_status_def)
qed

text \<open>The driver with the DMA request of the next command withdrawn.\<close>

abbreviation dma_off :: "'s mmcdrv \<Rightarrow> 's mmcdrv" where
  "dma_off st \<equiv> st\<lparr>ctrlInfo := (ctrlInfo st)\<lparr>dmaEnable := 0\<rparr>\<rparr>"

lemma xfer_status_plain:
  assumes "waiting st" "\<forall>e \<in> set (due (view (hw st))). expected e" "dataTimeout st = 0"
    "xferCompFlag st \<noteq> 0 \<or> Data_done \<in> set (due (view (hw st)))" "Data_lost \<notin> set (due (view (hw st)))"
    "lastcmd (view (hw st)) AND MMC_CMD_DP = 0"
  shows "\<exists>es st'. mmc0_get_xfer_status M st = Some (1, dma_off (st'\<lparr>xferCompFlag := 0\<rparr>)) \<and> ran st es st' \<and>
    (xferCompFlag st \<noteq> 0 \<or> Data_done \<in> set es)"
proof -
  have "\<exists>es st'. xfer_wait M st = Some st' \<and> ran st es st' \<and> (xferCompFlag st \<noteq> 0 \<or> Data_done \<in> set es)"
    unfolding xfer_wait_def
    by (rule wait_until_ran [OF assms(1,2)]) (use assms in \<open>auto simp: ran_def\<close>)
  then obtain es st' where e: "xfer_wait M st = Some st'" "ran st es st'" "xferCompFlag st \<noteq> 0 \<or> Data_done \<in> set es" by blast
  moreover have "xferCompFlag st' \<noteq> 0" "dataTimeout st' = 0" using e(2,3) assms(3,5) by (auto simp: ran_def)
  moreover have "waiting st'" "lastcmd (view (hw st')) AND MMC_CMD_DP = 0"
    using e(2) keeps_waiting [OF _ assms(1)] keeps_view assms(6) by (auto simp: ran_def)
  ultimately show ?thesis by (auto simp: mmc0_get_xfer_status_def waiting_def stat_laws)
qed

lemma xfer_status_data:
  assumes "waiting st" "\<forall>e \<in> set (due (view (hw st))). expected e" "dataTimeout st = 0"
    "xferCompFlag st \<noteq> 0 \<or> Data_done \<in> set (due (view (hw st)))" "Data_lost \<notin> set (due (view (hw st)))"
    "lastcmd (view (hw st)) AND MMC_CMD_DP \<noteq> 0" "length (due (view (hw st))) < 65535"
    "callbackOccured st \<noteq> 0 \<or> (\<exists>ch. Dma_done ch \<in> set (due (view (hw st))))"
  shows "\<exists>es st1 es' st2. mmc0_get_xfer_status M st = Some (1, dma_off (st2\<lparr>callbackOccured := 0\<rparr>)) \<and>
    ran st es st1 \<and> ran (st1\<lparr>xferCompFlag := 0\<rparr>) es' st2 \<and> (xferCompFlag st \<noteq> 0 \<or> Data_done \<in> set es) \<and>
    (callbackOccured st \<noteq> 0 \<or> (\<exists>ch. Dma_done ch \<in> set (es @ es')))"
proof -
  have "\<exists>es st'. xfer_wait M st = Some st' \<and> ran st es st' \<and> (xferCompFlag st \<noteq> 0 \<or> Data_done \<in> set es)"
    unfolding xfer_wait_def
    by (rule wait_until_ran [OF assms(1,2)]) (use assms in \<open>auto simp: ran_def\<close>)
  then obtain es st1 where e: "xfer_wait M st = Some st1" "ran st es st1" "xferCompFlag st \<noteq> 0 \<or> Data_done \<in> set es" by blast
  have f: "xferCompFlag st1 \<noteq> 0" "dataTimeout st1 = 0" using e(2,3) assms(3,5) by (auto simp: ran_def)
  have w: "waiting st1" "lastcmd (view (hw st1)) AND MMC_CMD_DP \<noteq> 0"
    using e(2) keeps_waiting [OF _ assms(1)] keeps_view assms(6) by (auto simp: ran_def)
  let ?st = "st1\<lparr>xferCompFlag := 0\<rparr>"
  have d: "due (view (hw st)) = es @ due (view (hw ?st))" using e(2) by (simp add: ran_def)
  have w2: "waiting ?st" using w(1) by (simp add: waiting_def)
  have x2: "\<forall>e \<in> set (due (view (hw ?st))). expected e" using assms(2) d by auto
  have c2: "callbackOccured ?st \<noteq> 0 \<or> (\<exists>ch. Dma_done ch \<in> set (due (view (hw ?st))))"
    using assms(8) d e(2) by (auto simp: ran_def)
  have t2: "length (due (view (hw ?st))) < unat (0xFFFF :: DWORD)" using assms(7) d by simp
  obtain es' st2 t' where c: "callback_wait M 0xFFFF ?st = Some (t', st2)" "t' \<noteq> 0" "ran ?st es' st2"
    "callbackOccured ?st \<noteq> 0 \<or> (\<exists>ch. Dma_done ch \<in> set es')"
    using callback_wait_ran [OF w2 x2 c2 t2] by blast
  have "callbackOccured st \<noteq> 0 \<or> (\<exists>ch. Dma_done ch \<in> set (es @ es'))"
    using c(4) e(2) by (auto simp: ran_def split: if_splits)
  moreover have "mmc0_get_xfer_status M st = Some (1, dma_off (st2\<lparr>callbackOccured := 0\<rparr>))"
    using e(1) f w c(1,2) by (simp add: mmc0_get_xfer_status_def waiting_def stat_laws)
  ultimately show ?thesis using e(2,3) c(3) by blast
qed

section \<open>Setting up a transfer\<close>

definition idle :: "'s mmcdrv \<Rightarrow> bool" where
  "idle st \<longleftrightarrow> waiting st \<and> cmdCompFlag st = 0 \<and> cmdTimeout st = 0 \<and> dataTimeout st = 0 \<and> xferCompFlag st = 0 \<and>
     callbackOccured st = 0 \<and> set (due (view (hw st))) \<subseteq> {Idle}"

lemma idle_ready: "idle st \<longleftrightarrow> sd_ready view st" by (auto simp: idle_def waiting_def sd_ready_def)

lemmas plain_addr = plain_mmc [simplified]

text \<open>The hardware when the transfer is set up and the registers of the command are not yet written.\<close>

definition set_up :: "DWORD \<Rightarrow> DMACCPaRAMEntry \<Rightarrow> DWORD \<Rightarrow> 's \<Rightarrow> 's \<Rightarrow> bool" where
  "set_up ch p bits h h' \<longleftrightarrow> view h' = (view h)\<lparr>armed := armed (view h) OR bits\<rparr> \<and>
     map (\<lambda>a. val a h') (param_addrs SOC_DMA0CC_0_REGS ch) = param_words p \<and>
     take_bit 12 (val 0x48060204 h') = 512"

lemma blk_not_param: "0x48060204 \<notin> set (param_addrs SOC_DMA0CC_0_REGS 24)" "0x48060204 \<notin> set (param_addrs SOC_DMA0CC_0_REGS 25)"
  "0x48060208 \<notin> set (param_addrs SOC_DMA0CC_0_REGS 24)" "0x48060208 \<notin> set (param_addrs SOC_DMA0CC_0_REGS 25)"
  "0x4806022C \<notin> set (param_addrs SOC_DMA0CC_0_REGS 24)" "0x4806022C \<notin> set (param_addrs SOC_DMA0CC_0_REGS 25)"
  by (simp_all add: param_addrs_def DMACC_OPT_def)

lemma blen: "take_bit 12 ((v AND NOT 0xFFF) OR 512) = (512 :: DWORD)"
proof -
  have m: "(0xFFF :: DWORD) = mask 12" by (simp add: mask_eq_exp_minus_1)
  have "take_bit 12 (v AND NOT (mask 12)) = 0" by (rule bit_word_eqI) (auto simp: bit_simps)
  then show ?thesis unfolding m take_bit_or by simp
qed

lemma view_wr_list: "\<forall>a \<in> fst ` set axs. plain a \<Longrightarrow> view (wr_list B axs h) = view h"
  by (induction axs arbitrary: h rule: list.induct) (auto simp: view_plain)

lemma view_set_param:
  "\<forall>a \<in> set (param_addrs base ch). plain a \<Longrightarrow> view (DMASetPaRAM B base ch p h) = view h"
  unfolding DMASetPaRAM_def by (rule view_wr_list) (auto dest: set_zip_leftD)

lemma set_up_channel:
  assumes ch: "ch = 24 \<and> bits = 0x1000000 \<or> ch = 25 \<and> bits = 0x2000000"
  shows "set_up ch p bits h (MMCBlkLenSet B SOC_MMC_0_REGS 512
    (snd (DMAEnableTransfer B SOC_DMA0CC_0_REGS ch DMA_TRIG_MODE_EVENT (DMASetPaRAM B SOC_DMA0CC_0_REGS ch p h))))"
proof -
  let ?h = "DMASetPaRAM B SOC_DMA0CC_0_REGS ch p h"
  have pl: "\<forall>a \<in> set (param_addrs SOC_DMA0CC_0_REGS ch). plain a" using plain_param ch by auto
  have en: "snd (DMAEnableTransfer B SOC_DMA0CC_0_REGS ch DMA_TRIG_MODE_EVENT ?h) =
      wr B 0x49002030 bits (wr B 0x49000308 bits (wr B 0x49002040 bits ?h))"
    using ch by (elim disjE conjE) (simp_all add: DMAEnableTransfer_def DMAClrMissEvt_def DMAEnableDmaEvt_def lo_hi_def
        DMACC_S_def regionId_def reg_or_def more_dma)
  let ?e = "wr B 0x49002030 bits (wr B 0x49000308 bits (wr B 0x49002040 bits ?h))"
  let ?m = "MMCBlkLenSet B SOC_MMC_0_REGS 512 ?e"
  have m: "?m = wr B 0x48060204 (val 0x48060204 (wr B 0x48060204 (val 0x48060204 ?e AND NOT 0xFFF) ?e) OR 512)
      (wr B 0x48060204 (val 0x48060204 ?e AND NOT 0xFFF) ?e)"
    by (simp add: MMCBlkLenSet_def reg_or_def reg_and_def rd_plain plain_addr)
  have "view ?m = (view h)\<lparr>armed := armed (view h) OR bits\<rparr>"
    unfolding m by (simp add: view_plain plain_addr dma_laws more_dma view_set_param [OF pl])
  moreover have "map (\<lambda>a. val a ?m) (param_addrs SOC_DMA0CC_0_REGS ch) = map (\<lambda>a. val a ?h) (param_addrs SOC_DMA0CC_0_REGS ch)"
  proof (rule map_cong [OF refl])
    fix a assume a: "a \<in> set (param_addrs SOC_DMA0CC_0_REGS ch)"
    then have "a \<noteq> 0x48060204" using blk_not_param(1,2) ch by auto
    then show "val a ?m = val a ?h" unfolding m using pl a by (simp add: wr_val plain_addr val_other)
  qed
  then have "map (\<lambda>a. val a ?m) (param_addrs SOC_DMA0CC_0_REGS ch) = param_words p"
    by (simp only: set_param_words [OF pl])
  moreover have "take_bit 12 (val 0x48060204 ?m) = 512" unfolding m by (simp only: wr_same plain_addr blen)
  ultimately show ?thesis unfolding set_up_def en by blast
qed

section \<open>Sending a command\<close>

text \<open>The hardware just before the command register is written.\<close>

definition pre_cmd :: "mmcCmd \<Rightarrow> 's \<Rightarrow> 's" where
  "pre_cmd c h =
     (let data = (c_flags c AND 0x40 \<noteq> 0);
          h = (if data then mmc0_set_dto B 27 (mmc0_clear_status B 0x2 h) else h) in
      wr B 0x48060208 (c_arg c)
        (wr B 0x48060204 ((val 0x48060204 h AND NOT 0xFFFF0000) OR push_bit 16 (if data then c_nblks c else 0)) h))"

lemma dto_view: "stat (view h) = 0 \<Longrightarrow> view (mmc0_set_dto B 27 (mmc0_clear_status B 0x2 h)) = view h"
  by (simp add: mmc0_set_dto_def mmc0_clear_status_def rd_plain plain_addr view_plain stat_laws)

lemma dto_val: "plain a \<Longrightarrow> a \<noteq> 0x4806022C \<Longrightarrow> val a (mmc0_set_dto B 27 (mmc0_clear_status B 0x2 h)) = val a h"
  by (simp add: mmc0_set_dto_def mmc0_clear_status_def rd_plain plain_addr wr_val val_other)

lemma nblk_field:
  assumes "n < 65536"
  shows "take_bit 12 ((v AND NOT 0xFFFF0000) OR push_bit 16 (of_nat n)) = take_bit 12 (v :: DWORD)"
    "unat (drop_bit 16 ((v AND NOT 0xFFFF0000) OR push_bit 16 (of_nat n :: DWORD))) = n"
proof -
  have m: "(0xFFFF0000 :: DWORD) = push_bit 16 (mask 16)" by (simp add: mask_eq_exp_minus_1)
  show "take_bit 12 ((v AND NOT 0xFFFF0000) OR push_bit 16 (of_nat n)) = take_bit 12 (v :: DWORD)"
    unfolding m by (rule bit_word_eqI) (auto simp: bit_simps)
  have u: "unat (of_nat n :: DWORD) = n" using assms by (simp add: unat_of_nat take_bit_nat_eq_self)
  have b: "bit (of_nat n :: DWORD) i \<Longrightarrow> i < 16" for i
    using bits_below [of "of_nat n" 16 i] assms u by simp
  have "drop_bit 16 ((v AND NOT 0xFFFF0000) OR push_bit 16 (of_nat n :: DWORD)) = of_nat n"
    unfolding m by (rule bit_word_eqI) (use b in \<open>auto simp: bit_simps dest: bit_imp_le_length\<close>)
  then show "unat (drop_bit 16 ((v AND NOT 0xFFFF0000) OR push_bit 16 (of_nat n :: DWORD))) = n" using u by simp
qed

lemma pre_cmd_facts:
  assumes "stat (view h) = 0"
  shows "view (pre_cmd c h) = view h" "val 0x48060208 (pre_cmd c h) = c_arg c"
    "plain a \<Longrightarrow> a \<notin> {0x48060204, 0x48060208, 0x4806022C} \<Longrightarrow> val a (pre_cmd c h) = val a h"
    "val 0x48060204 (pre_cmd c h) =
      (val 0x48060204 h AND NOT 0xFFFF0000) OR push_bit 16 (if c_flags c AND 0x40 \<noteq> 0 then c_nblks c else 0)"
  using assms by (simp_all add: pre_cmd_def Let_def view_plain plain_addr wr_val dto_view dto_val)

lemma resp: "\<exists>r. mmc0_get_resp B h = (r, h)"
proof -
  obtain a b c d where "rd B 0x48060210 h = (a, h)" "rd B 0x48060214 h = (b, h)" "rd B 0x48060218 h = (c, h)"
    "rd B 0x4806021C h = (d, h)"
    using read_rsp [of 0 h] read_rsp [of 4 h] read_rsp [of 8 h] read_rsp [of "0xC" h] by auto
  then show ?thesis by (simp add: mmc0_get_resp_def)
qed

definition commanded :: "mmcCmd \<Rightarrow> 's mmcdrv \<Rightarrow> 's mmcdrv" where
  "commanded c st = st\<lparr>hw := wr B 0x4806020C (cmd_word (dmaEnable (ctrlInfo st)) c) (pre_cmd c (hw st))\<rparr>"

lemma cmd_send_unfold:
  "MMC0CmdSend M c st = Option.bind (mmc0_get_cmd_status M (commanded c st)) (\<lambda>(status, st).
     if status = 1 then Some (status, c\<lparr>c_rsp := fst (mmc0_get_resp B (hw st))\<rparr>, st) else Some (status, c, st))"
proof -
  have sr: "mmc0_get_resp B h = (x, y) \<Longrightarrow> y = h" for h x y using resp [of h] by auto
  have r: "(\<lambda>(status, st). if status = 1 then let (r, h) = mmc0_get_resp (regs M) (hw st) in Some (status, c\<lparr>c_rsp := r\<rparr>, st\<lparr>hw := h\<rparr>)
        else Some (status, c, st)) =
      (\<lambda>(status, st). if status = 1 then Some (status, c\<lparr>c_rsp := fst (mmc0_get_resp B (hw st))\<rparr>, st)
        else Some (status, c, st))"
    by (auto simp: fun_eq_iff split: prod.splits dest: sr)
  have s: "mmc0_send_cmd B w a n h = wr B 0x4806020C w (wr B 0x48060208 a
      (wr B 0x48060204 ((val 0x48060204 h AND NOT 0xFFFF0000) OR push_bit 16 n) h))" for w a n h
    by (simp add: mmc0_send_cmd_def rd_plain plain_addr)
  show ?thesis
    by (cases "c_flags c AND 0x40 = 0") (simp_all add: MMC0CmdSend_def commanded_def pre_cmd_def Let_def s r cong: option.case_cong)
qed

lemma send_works:
  assumes "waiting st" "cmdCompFlag st = 0" "cmdTimeout st = 0" "stat (view (hw st)) = 0" "ipr (view (hw st)) = 0"
    "stat (view (hw (commanded c st))) = 0" "ipr (view (hw (commanded c st))) = 0"
    "\<forall>e \<in> set (due (view (hw (commanded c st)))). expected e"
    "Cmd_done \<in> set (due (view (hw (commanded c st))))" "Cmd_silent \<notin> set (due (view (hw (commanded c st))))"
  shows "\<exists>es st' r. MMC0CmdSend M c st = Some (1, c\<lparr>c_rsp := r\<rparr>, st'\<lparr>cmdCompFlag := 0\<rparr>) \<and>
    ran (commanded c st) es st' \<and> Cmd_done \<in> set es"
proof -
  have "waiting (commanded c st)" using assms by (simp add: waiting_def commanded_def)
  from cmd_status_works [OF this assms(8) _ _ assms(9,10)] assms(2,3) obtain es st' where
    "mmc0_get_cmd_status M (commanded c st) = Some (1, st'\<lparr>cmdCompFlag := 0\<rparr>)" "ran (commanded c st) es st'" "Cmd_done \<in> set es"
    by (auto simp: commanded_def)
  then show ?thesis by (auto simp: cmd_send_unfold)
qed

section \<open>Whole transfers\<close>

lemma rest_idle:
  assumes "brings E es" "es = a @ r" "E \<subseteq> set a"
  shows "set r \<subseteq> {Idle}"
proof
  fix e assume e: "e \<in> set r"
  show "e \<in> {Idle}"
  proof (rule ccontr)
    assume "e \<notin> {Idle}"
    then have E: "e \<in> E" using assms(1,2) e by (auto simp: brings_def)
    then have "count_list a e + count_list r e = 1" using assms(1,2) by (auto simp: brings_def)
    moreover have "count_list a e \<noteq> 0" "count_list r e \<noteq> 0" using E assms(3) e by (auto simp: count_list_0_iff)
    ultimately show False by simp
  qed
qed

lemma brings_facts:
  assumes "brings E es" "\<forall>e \<in> E. expected e" "Idle \<notin> E"
  shows "\<forall>e \<in> set es. expected e" "E \<subseteq> set es" "\<And>e. e \<notin> E \<Longrightarrow> e \<noteq> Idle \<Longrightarrow> e \<notin> set es" "length es < 65535"
proof -
  show "\<forall>e \<in> set es. expected e" using assms by (auto simp: brings_def expected_def)
  show "E \<subseteq> set es"
  proof
    fix e assume "e \<in> E"
    then have "count_list es e = 1" using assms(1) by (simp add: brings_def)
    then show "e \<in> set es" by (metis count_list_0_iff zero_neq_one)
  qed
qed (use assms in \<open>auto simp: brings_def\<close>)

lemma data_transfer:
  assumes w: "waiting st" and fl: "cmdCompFlag st = 0" "cmdTimeout st = 0" "dataTimeout st = 0" "xferCompFlag st = 0"
      "callbackOccured st = 0"
    and V: "stat (view (hw (commanded c st))) = 0" "ipr (view (hw (commanded c st))) = 0"
      "lastcmd (view (hw (commanded c st))) AND MMC_CMD_DP \<noteq> 0"
    and es: "brings {Cmd_done, Data_done, Dma_done ch} (due (view (hw (commanded c st))))" and ch: "ch = 24 \<or> ch = 25"
  shows "\<exists>r st2 st'. MMC0CmdSend M c st = Some (1, c\<lparr>c_rsp := r\<rparr>, st2) \<and>
    mmc0_get_xfer_status M st2 = Some (1, st') \<and> idle st' \<and> keeps (dma_off (commanded c st)) st'"
proof -
  let ?c = "commanded c st"
  let ?E = "{Cmd_done, Data_done, Dma_done ch}"
  note b = brings_facts [OF es]
  have ex: "\<forall>e \<in> ?E. expected e" "Idle \<notin> ?E" using ch by (auto simp: expected_def)
  note b = b [OF ex]
  have mem3: "Cmd_done \<in> set (due (view (hw ?c)))" "Data_done \<in> set (due (view (hw ?c)))" "Dma_done ch \<in> set (due (view (hw ?c)))"
    using b(2) by auto
  have non: "Cmd_silent \<notin> set (due (view (hw ?c)))" "Data_lost \<notin> set (due (view (hw ?c)))" using b(3) by auto
  have st0: "stat (view (hw st)) = 0" "ipr (view (hw st)) = 0" using w by (simp_all add: waiting_def)
  from send_works [OF w fl(1,2) st0 V(1,2) b(1) mem3(1) non(1)] obtain es1 s1 r where
    s1: "MMC0CmdSend M c st = Some (1, c\<lparr>c_rsp := r\<rparr>, s1\<lparr>cmdCompFlag := 0\<rparr>)" "ran ?c es1 s1" "Cmd_done \<in> set es1" by blast
  let ?s2 = "s1\<lparr>cmdCompFlag := 0\<rparr>"
  have d1: "due (view (hw ?c)) = es1 @ due (view (hw ?s2))" using s1(2) by (simp add: ran_def)
  have cfl: "xferCompFlag ?c = 0" "callbackOccured ?c = 0" "dataTimeout ?c = 0" "cmdTimeout ?c = 0"
    using fl by (simp_all add: commanded_def)
  have k1: "keeps ?c ?s2" using s1(2) by (simp add: ran_def keeps_def)
  have wc: "waiting ?c" using w V by (simp add: waiting_def commanded_def)
  have x2: "\<forall>e \<in> set (due (view (hw ?s2))). expected e" using b(1) d1 by auto
  have t2: "dataTimeout ?s2 = 0" "cmdTimeout ?s2 = 0" using s1(2) non cfl d1 by (auto simp: ran_def)
  have y2: "xferCompFlag ?s2 \<noteq> 0 \<or> Data_done \<in> set (due (view (hw ?s2)))"
    using s1(2) mem3(2) d1 by (auto simp: ran_def)
  have z2: "callbackOccured ?s2 \<noteq> 0 \<or> (\<exists>ch. Dma_done ch \<in> set (due (view (hw ?s2))))"
    using s1(2) mem3(3) d1 by (auto simp: ran_def)
  have n2: "Data_lost \<notin> set (due (view (hw ?s2)))" using non(2) d1 by auto
  have l2: "lastcmd (view (hw ?s2)) AND MMC_CMD_DP \<noteq> 0" using V(3) keeps_view [OF k1] by simp
  have len2: "length (due (view (hw ?s2))) < 65535" using b(4) d1 by simp
  from xfer_status_data [OF keeps_waiting [OF k1 wc] x2 t2(1) y2 n2 l2 len2 z2] obtain es2 s3 es3 s4 where
    s4: "mmc0_get_xfer_status M ?s2 = Some (1, dma_off (s4\<lparr>callbackOccured := 0\<rparr>))" "ran ?s2 es2 s3"
      "ran (s3\<lparr>xferCompFlag := 0\<rparr>) es3 s4" "xferCompFlag ?s2 \<noteq> 0 \<or> Data_done \<in> set es2"
      "callbackOccured ?s2 \<noteq> 0 \<or> (\<exists>ch. Dma_done ch \<in> set (es2 @ es3))" by blast
  let ?s' = "dma_off (s4\<lparr>callbackOccured := 0\<rparr>)"
  have d: "due (view (hw ?c)) = (es1 @ es2 @ es3) @ due (view (hw s4))" using d1 s4(2,3) by (simp add: ran_def)
  have sub: "?E \<subseteq> set (es1 @ es2 @ es3)"
  proof -
    have D: "Data_done \<in> set (es1 @ es2 @ es3)" using s4(4) s1(2) cfl by (auto simp: ran_def split: if_splits)
    have "\<exists>ch'. Dma_done ch' \<in> set (es1 @ es2 @ es3)" using s4(5) s1(2) cfl by (auto simp: ran_def split: if_splits)
    then obtain ch' where ch': "Dma_done ch' \<in> set (es1 @ es2 @ es3)" by blast
    then have "Dma_done ch' \<in> set (due (view (hw ?c)))" using d by auto
    then have "ch' = ch" using b(3) [of "Dma_done ch'"] by blast
    then show ?thesis using ch' D s1(3) by auto
  qed
  have rest: "set (due (view (hw s4))) \<subseteq> {Idle}" by (rule rest_idle [OF es d sub])
  have "count_list (due (view (hw ?c))) Data_done = 1" using es by (simp add: brings_def)
  moreover have "Data_done \<in> set (es1 @ es2)" using s4(4) s1(2) cfl by (auto simp: ran_def split: if_splits)
  then have "count_list (es1 @ es2) Data_done \<noteq> 0" by (simp add: count_list_0_iff)
  ultimately have "Data_done \<notin> set es3" using d by (auto simp flip: count_list_0_iff)
  then have xf: "xferCompFlag s4 = 0" using s4(3) by (simp add: ran_def)
  have "count_list (due (view (hw ?c))) Cmd_done = 1" using es by (simp add: brings_def)
  moreover have "count_list es1 Cmd_done \<noteq> 0" using s1(3) by (simp add: count_list_0_iff)
  ultimately have "Cmd_done \<notin> set es2" "Cmd_done \<notin> set es3" using d by (auto simp: count_list_0_iff simp flip: count_list_0_iff)
  then have cc: "cmdCompFlag s4 = 0" "cmdTimeout s4 = 0" "dataTimeout s4 = 0"
    using s4(2,3) t2 non d by (auto simp: ran_def)
  have k: "keeps ?s2 s3" "keeps (s3\<lparr>xferCompFlag := 0\<rparr>) s4" using s4(2,3) by (simp_all add: ran_def)
  then have kk: "keeps ?c s4" using k1 by (simp add: keeps_def)
  have "waiting s4" using keeps_waiting [OF kk wc] .
  then have "idle ?s'" using rest cc xf by (simp add: idle_def waiting_def)
  moreover have "keeps (dma_off ?c) ?s'" using kk by (simp add: keeps_def)
  ultimately show ?thesis using s1(1) s4(1) by blast
qed

lemma stop_word: "drop_bit 24 (cmd_word dma (new_cmd M 12 SD_CMDRSP_BUSY 0)) = 12"
  "cmd_word dma (new_cmd M 12 SD_CMDRSP_BUSY 0) AND MMC_CMD_DP = 0"
  by (cases "dma = 1"; simp add: cmd_word_def new_cmd_def)+

lemma stop_transfer:
  assumes st: "idle st" and ans: "answer = Works"
  shows "\<exists>st'. MMCStopCmdSend M st = Some (1, st') \<and> idle st' \<and> sdCard st' = sdCard st \<and>
    blocks (view (hw st')) = blocks (view (hw st)) \<and> mem (view (hw st')) = mem (view (hw st))"
proof -
  let ?k = "new_cmd M 12 SD_CMDRSP_BUSY 0"
  let ?c = "commanded ?k st"
  let ?w = "cmd_word (dmaEnable (ctrlInfo st)) ?k"
  have w: "waiting st" and st0: "stat (view (hw st)) = 0" "ipr (view (hw st)) = 0" using st by (simp_all add: idle_def waiting_def)
  obtain es where es: "brings {Cmd_done, Data_done} es" and
    v: "view (hw ?c) = (view (hw st))\<lparr>lastcmd := ?w, due := es\<rparr>"
    using stop_cmd [OF stop_word(1) ans, simplified] pre_cmd_facts(1) [OF st0(1)] by (auto simp: commanded_def) metis
  have V: "stat (view (hw ?c)) = 0" "ipr (view (hw ?c)) = 0" "lastcmd (view (hw ?c)) AND MMC_CMD_DP = 0"
    "due (view (hw ?c)) = es" using st0 stop_word(2) by (simp_all add: v)
  note b = brings_facts [OF es, unfolded expected_def, simplified]
  have ex: "\<forall>e \<in> set es. expected e" using b(1) by (simp add: expected_def)
  have fl: "cmdCompFlag st = 0" "cmdTimeout st = 0" "dataTimeout ?c = 0" "xferCompFlag ?c = 0" "cmdTimeout ?c = 0" "callbackOccured ?c = 0"
    using st by (simp_all add: idle_def commanded_def)
  from send_works [OF w fl(1,2) st0 V(1,2), unfolded V(4), OF ex] b(2,3) obtain es1 s1 r where
    s1: "MMC0CmdSend M ?k st = Some (1, ?k\<lparr>c_rsp := r\<rparr>, s1\<lparr>cmdCompFlag := 0\<rparr>)" "ran ?c es1 s1" "Cmd_done \<in> set es1" by blast
  let ?s2 = "s1\<lparr>cmdCompFlag := 0\<rparr>"
  have d1: "es = es1 @ due (view (hw ?s2))" using s1(2) V(4) by (simp add: ran_def)
  have k1: "keeps ?c ?s2" using s1(2) by (simp add: ran_def keeps_def)
  have wc: "waiting ?c" using w V by (simp add: waiting_def commanded_def)
  have x2: "\<forall>e \<in> set (due (view (hw ?s2))). expected e" using ex d1 by auto
  have non: "Data_lost \<notin> set es" "Cmd_silent \<notin> set es" "\<And>ch. Dma_done ch \<notin> set es" using b(3) by auto
  have t2: "dataTimeout ?s2 = 0" "cmdTimeout ?s2 = 0" using s1(2) non fl d1 by (auto simp: ran_def)
  have y2: "xferCompFlag ?s2 \<noteq> 0 \<or> Data_done \<in> set (due (view (hw ?s2)))"
    using s1(2) b(2) d1 by (auto simp: ran_def)
  have n2: "Data_lost \<notin> set (due (view (hw ?s2)))" using non(1) d1 by auto
  have l2: "lastcmd (view (hw ?s2)) AND MMC_CMD_DP = 0" using V(3) keeps_view [OF k1] by simp
  from xfer_status_plain [OF keeps_waiting [OF k1 wc] x2 t2(1) y2 n2 l2] obtain es2 s3 where
    s3: "mmc0_get_xfer_status M ?s2 = Some (1, dma_off (s3\<lparr>xferCompFlag := 0\<rparr>))" "ran ?s2 es2 s3"
      "xferCompFlag ?s2 \<noteq> 0 \<or> Data_done \<in> set es2" by blast
  let ?s' = "dma_off (s3\<lparr>xferCompFlag := 0\<rparr>)"
  have d: "es = (es1 @ es2) @ due (view (hw s3))" using d1 s3(2) by (simp add: ran_def)
  have "{Cmd_done, Data_done} \<subseteq> set (es1 @ es2)" using s3(3) s1(2,3) fl(4) by (auto simp: ran_def split: if_splits)
  from rest_idle [OF es d this] have rest: "set (due (view (hw s3))) \<subseteq> {Idle}" .
  have "count_list es Cmd_done = 1" using es by (simp add: brings_def)
  moreover have "count_list es1 Cmd_done \<noteq> 0" using s1(3) by (simp add: count_list_0_iff)
  ultimately have "Cmd_done \<notin> set es2" using d by (auto simp flip: count_list_0_iff)
  then have cc: "cmdCompFlag s3 = 0" "cmdTimeout s3 = 0" "dataTimeout s3 = 0" "callbackOccured s3 = 0"
    using s3(2) t2 non d s1(2) fl(6) by (auto simp: ran_def)
  have kk: "keeps ?c s3" using s3(2) k1 by (simp add: ran_def keeps_def)
  have "idle ?s'" using keeps_waiting [OF kk wc] rest cc by (simp add: idle_def waiting_def)
  moreover have "sdCard ?s' = sdCard st" using kk by (simp add: keeps_def commanded_def)
  moreover have "blocks (view (hw ?s')) = blocks (view (hw st))" "mem (view (hw ?s')) = mem (view (hw st))"
    using keeps_view [OF kk] by (simp_all add: v)
  ultimately show ?thesis using s1(1) s3(1) by (auto simp: MMCStopCmdSend_def)
qed

section \<open>Reading and writing blocks\<close>

lemma read_words:
  "n = 1 \<Longrightarrow> cmd_word 1 ((new_cmd M 17 0xC0 a)\<lparr>c_nblks := k\<rparr>) = 0x11220033"
  "cmd_word 1 ((new_cmd M 18 0xC8 a)\<lparr>c_nblks := k\<rparr>) = 0x12E20033"
  "cmd_word 1 ((new_cmd M 24 0x140 a)\<lparr>c_nblks := k\<rparr>) = 0x18220023"
  "cmd_word 1 ((new_cmd M 25 0x148 a)\<lparr>c_nblks := k\<rparr>) = 0x19E20023"
  by (simp_all add: cmd_word_def new_cmd_def)

lemma ucast_count: "n < 65536 \<Longrightarrow> unat (ucast (of_nat n :: DWORD) :: WORD) = n"
  by (simp add: unsigned_ucast_eq unsigned_of_nat take_bit_nat_eq_self)

lemma rx_moves_param:
  "memBase (ctrlInfo st) = SOC_MMC_0_REGS \<Longrightarrow> n < 65536 \<Longrightarrow> rx_moves (rx_param M st ptr 512 (of_nat n)) ptr n"
  by (simp add: rx_moves_def rx_param_def ucast_count)

lemma tx_moves_param:
  "memBase (ctrlInfo st) = SOC_MMC_0_REGS \<Longrightarrow> n < 65536 \<Longrightarrow> tx_moves (tx_param M st ptr 512 (of_nat n)) ptr n"
  by (simp add: tx_moves_def tx_param_def ucast_count)

text \<open>What the command register is written to meets: block length and count, address, parameters.\<close>

lemma before_data:
  assumes su: "set_up ch p bits h0 h" and ch: "ch \<in> {24, 25}" and st0: "stat (view h0) = 0" and n: "n < 65536"
    and c: "c_flags c AND 0x40 \<noteq> 0" "c_nblks c = of_nat n"
  shows "view (pre_cmd c h) = (view h0)\<lparr>armed := armed (view h0) OR bits\<rparr>"
    "take_bit 12 (val 0x48060204 (pre_cmd c h)) = 512" "unat (drop_bit 16 (val 0x48060204 (pre_cmd c h))) = n"
    "val 0x48060208 (pre_cmd c h) = c_arg c"
    "words_param (map (\<lambda>a. val a (pre_cmd c h)) (param_addrs SOC_DMA0CC_0_REGS ch)) = p"
proof -
  have sv: "stat (view h) = 0" using su st0 by (simp add: set_up_def)
  note f = pre_cmd_facts [OF sv, where c = c]
  show "view (pre_cmd c h) = (view h0)\<lparr>armed := armed (view h0) OR bits\<rparr>" using f(1) su by (simp add: set_up_def)
  show "take_bit 12 (val 0x48060204 (pre_cmd c h)) = 512"
    using f(4) su c nblk_field(1) [OF n, of "val 0x48060204 h"] by (simp add: set_up_def)
  show "unat (drop_bit 16 (val 0x48060204 (pre_cmd c h))) = n"
    using f(4) c nblk_field(2) [OF n, of "val 0x48060204 h"] by simp
  show "val 0x48060208 (pre_cmd c h) = c_arg c" by (rule f(2))
  have "map (\<lambda>a. val a (pre_cmd c h)) (param_addrs SOC_DMA0CC_0_REGS ch) = map (\<lambda>a. val a h) (param_addrs SOC_DMA0CC_0_REGS ch)"
  proof (rule map_cong [OF refl])
    fix a assume a: "a \<in> set (param_addrs SOC_DMA0CC_0_REGS ch)"
    then have "plain a" using plain_param ch by auto
    moreover have "a \<notin> {0x48060204, 0x48060208, 0x4806022C}" using a ch blk_not_param by auto
    ultimately show "val a (pre_cmd c h) = val a h" by (rule f(3))
  qed
  also have "\<dots> = param_words p" using su by (simp add: set_up_def)
  finally show "words_param (map (\<lambda>a. val a (pre_cmd c h)) (param_addrs SOC_DMA0CC_0_REGS ch)) = p" by (simp only: words_param_words)
qed

lemma bit_armed: "bit (x OR 0x2000000 :: DWORD) 25" "bit (x OR 0x1000000 :: DWORD) 24"
proof -
  have "bit (push_bit 25 1 :: DWORD) 25" "bit (push_bit 24 1 :: DWORD) 24" by (simp_all only: bit_push_bit_iff) simp_all
  then show "bit (x OR 0x2000000 :: DWORD) 25" "bit (x OR 0x1000000 :: DWORD) 24" by (simp_all add: bit_or_iff)
qed

text \<open>What reads and writes share: the command, the wait for the transfer and the stop command.\<close>

definition carry :: "mmcCmd \<Rightarrow> 's mmcdrv \<Rightarrow> (DWORD \<times> 's mmcdrv) option" where
  "carry c st = Option.bind (MMC0CmdSend M c st) (\<lambda>(status, cmd, st). if status = 0 then Some (0, st) else
     Option.bind (mmc0_get_xfer_status M st) (\<lambda>(status, st). if status = 0 then Some (0, st) else
       if c_nblks cmd > 1 then Option.bind (MMCStopCmdSend M st)
         (\<lambda>(status, st). if status = 0 then Some (0, st) else Some (1, st))
       else Some (1, st)))"

lemma carry_unfold:
  "MMCReadCmdSend M ptr b k st = carry ((if 1 < k then new_cmd M 18 0xC8 (block_address (sdCard st) b)
     else new_cmd M 17 0xC0 (block_address (sdCard st) b))\<lparr>c_nblks := k\<rparr>) (MMCXferSetup M 1 ptr 512 k st)"
  "MMCWriteCmdSend M ptr b k st = carry ((if 1 < k then new_cmd M 25 0x148 (block_address (sdCard st) b)
     else new_cmd M 24 0x140 (block_address (sdCard st) b))\<lparr>c_nblks := k\<rparr>) (MMCXferSetup M 0 ptr 512 k st)"
  by (simp_all add: carry_def MMCReadCmdSend_def MMCWriteCmdSend_def Let_def)

lemma carry_works:
  assumes w: "waiting st" and fl: "cmdCompFlag st = 0" "cmdTimeout st = 0" "dataTimeout st = 0" "xferCompFlag st = 0"
      "callbackOccured st = 0"
    and V: "stat (view (hw (commanded c st))) = 0" "ipr (view (hw (commanded c st))) = 0"
      "lastcmd (view (hw (commanded c st))) AND MMC_CMD_DP \<noteq> 0"
    and es: "brings {Cmd_done, Data_done, Dma_done ch} (due (view (hw (commanded c st))))" and ch: "ch = 24 \<or> ch = 25"
    and ans: "answer = Works"
  shows "\<exists>st'. carry c st = Some (1, st') \<and> idle st' \<and> sdCard st' = sdCard st \<and>
    blocks (view (hw st')) = blocks (view (hw (commanded c st))) \<and> mem (view (hw st')) = mem (view (hw (commanded c st)))"
proof -
  from data_transfer [OF w fl V es ch] obtain r st2 st3 where
    s3: "MMC0CmdSend M c st = Some (1, c\<lparr>c_rsp := r\<rparr>, st2)" "mmc0_get_xfer_status M st2 = Some (1, st3)" "idle st3"
      "keeps (dma_off (commanded c st)) st3" by auto
  have k: "sdCard st3 = sdCard st" "blocks (view (hw st3)) = blocks (view (hw (commanded c st)))"
    "mem (view (hw st3)) = mem (view (hw (commanded c st)))"
    using s3(4) keeps_view [OF s3(4)] by (simp_all add: keeps_def commanded_def)
  show ?thesis
  proof (cases "c_nblks c > 1")
    case True
    from stop_transfer [OF s3(3) ans] obtain st4 where
      "MMCStopCmdSend M st3 = Some (1, st4)" "idle st4" "sdCard st4 = sdCard st3"
        "blocks (view (hw st4)) = blocks (view (hw st3))" "mem (view (hw st4)) = mem (view (hw st3))" by blast
    then show ?thesis using s3(1,2) k True by (simp add: carry_def)
  next
    case False
    then show ?thesis using s3 k by (simp add: carry_def)
  qed
qed

lemma un_gt: "n < 65536 \<Longrightarrow> 1 < (of_nat n :: DWORD) \<longleftrightarrow> 1 < n"
  by (simp add: word_less_nat_alt unat_of_nat take_bit_nat_eq_self)

lemma read_blocks:
  assumes st: "idle st" and ans: "answer = Works" and n: "0 < n" "n < 65536"
  shows "\<exists>st'. MMCReadCmdSend M ptr b (of_nat n) st = Some (1, st') \<and> idle st' \<and> sdCard st' = sdCard st \<and>
    blocks (view (hw st')) = blocks (view (hw st)) \<and>
    mem (view (hw st')) = fill (mem (view (hw st))) ptr (512 * n)
      (\<lambda>i. blocks (view (hw st)) (block_address (sdCard st) b + scale * of_nat (i div 512)) (i mod 512))"
proof -
  let ?p = "rx_param M (st\<lparr>callbackOccured := 0, xferCompFlag := 0\<rparr>) ptr 512 (of_nat n)"
  let ?a = "block_address (sdCard st) b"
  let ?st1 = "MMCXferSetup M 1 ptr 512 (of_nat n) st"
  define c where "c = (if 1 < n then new_cmd M 18 0xC8 ?a else new_cmd M 17 0xC0 ?a)\<lparr>c_nblks := of_nat n\<rparr>"
  have base: "memBase (ctrlInfo st) = SOC_MMC_0_REGS" and w: "waiting st" and st0: "stat (view (hw st)) = 0" "ipr (view (hw st)) = 0"
    using st by (simp_all add: idle_def waiting_def)
  define h1 where "h1 = hw ?st1"
  have su: "set_up 25 ?p 0x2000000 (hw st) h1"
    using set_up_channel [of 25 "0x2000000" ?p "hw st"] base
    by (simp add: h1_def MMCXferSetup_def MMCRxDMAsetup_def Let_def)
  have st1: "?st1 = st\<lparr>callbackOccured := 0, xferCompFlag := 0, ctrlInfo := (ctrlInfo st)\<lparr>dmaEnable := 1\<rparr>, hw := h1\<rparr>"
    by (simp add: h1_def MMCXferSetup_def MMCRxDMAsetup_def Let_def)
  have c: "c_flags c AND 0x40 \<noteq> 0" "c_nblks c = of_nat n" "c_arg c = ?a" by (simp_all add: c_def new_cmd_def)
  define cw where "cw = cmd_word 1 c"
  have cw: "drop_bit 24 cw = (if n = 1 then 17 else 18)" "cw AND 0x200011 = 0x200011" "cw AND MMC_CMD_DP \<noteq> 0"
    using n(1) unfolding cw_def c_def by (cases "n = 1"; simp add: read_words)+
  let ?s0 = "pre_cmd c h1"
  note bf = before_data [OF su _ st0(1) n(2) c(1,2), simplified]
  have "rx_moves (words_param (map (\<lambda>a. val a ?s0) (param_addrs SOC_DMA0CC_0_REGS 25))) ptr n"
    unfolding bf(5) by (rule rx_moves_param) (simp_all add: base n(2))
  moreover have "bit (armed (view ?s0)) 25" unfolding bf(1) using bit_armed by simp
  ultimately obtain es where es: "brings {Cmd_done, Data_done, Dma_done 25} es" and
    v: "view (wr B 0x4806020C cw ?s0) = (view ?s0)\<lparr>lastcmd := cw, due := es,
        mem := fill (mem (view ?s0)) ptr (512 * n) (\<lambda>i. blocks (view ?s0) (?a + scale * of_nat (i div 512)) (i mod 512))\<rparr>"
    using read_cmd_works [OF cw(1,2), simplified, of ?s0 ptr] bf(2,3,4) n(1) ans c(3) by auto
  have hc: "hw (commanded c ?st1) = wr B 0x4806020C cw ?s0" by (simp add: commanded_def st1 cw_def)
  have V: "stat (view (hw (commanded c ?st1))) = 0" "ipr (view (hw (commanded c ?st1))) = 0"
    "lastcmd (view (hw (commanded c ?st1))) AND MMC_CMD_DP \<noteq> 0" "due (view (hw (commanded c ?st1))) = es"
    using st0 cw(3) by (simp_all add: hc v bf(1))
  have w1: "waiting ?st1" using w st0 su by (simp add: st1 waiting_def set_up_def)
  have fl: "cmdCompFlag ?st1 = 0" "cmdTimeout ?st1 = 0" "dataTimeout ?st1 = 0" "xferCompFlag ?st1 = 0" "callbackOccured ?st1 = 0"
    using st by (simp_all add: st1 idle_def)
  have cc: "MMCReadCmdSend M ptr b (of_nat n) st = carry c ?st1"
    by (simp only: carry_unfold un_gt [OF n(2)] c_def)
  from carry_works [OF w1 fl V(1-3), unfolded V(4), OF es _ ans] obtain st3 where
    "carry c ?st1 = Some (1, st3)" "idle st3" "sdCard st3 = sdCard ?st1"
      "blocks (view (hw st3)) = blocks (view (hw (commanded c ?st1)))"
      "mem (view (hw st3)) = mem (view (hw (commanded c ?st1)))" by blast
  then show ?thesis by (simp add: cc hc v bf(1)) (simp add: st1)
qed

lemma write_blocks:
  assumes st: "idle st" and ans: "answer = Works" and n: "0 < n" "n < 65536"
  shows "\<exists>st'. MMCWriteCmdSend M ptr b (of_nat n) st = Some (1, st') \<and> idle st' \<and> sdCard st' = sdCard st \<and>
    mem (view (hw st')) = mem (view (hw st)) \<and>
    (\<forall>k < n. blocks (view (hw st')) (block_address (sdCard st) b + scale * of_nat k) =
      (\<lambda>i. mem (view (hw st)) (ptr + of_nat (512 * k + i)))) \<and>
    (\<forall>a. (\<forall>k < n. a \<noteq> block_address (sdCard st) b + scale * of_nat k) \<longrightarrow>
      blocks (view (hw st')) a = blocks (view (hw st)) a)"
proof -
  let ?p = "tx_param M (st\<lparr>callbackOccured := 0, xferCompFlag := 0\<rparr>) ptr 512 (of_nat n)"
  let ?a = "block_address (sdCard st) b"
  let ?st1 = "MMCXferSetup M 0 ptr 512 (of_nat n) st"
  define c where "c = (if 1 < n then new_cmd M 25 0x148 ?a else new_cmd M 24 0x140 ?a)\<lparr>c_nblks := of_nat n\<rparr>"
  have base: "memBase (ctrlInfo st) = SOC_MMC_0_REGS" and w: "waiting st" and st0: "stat (view (hw st)) = 0" "ipr (view (hw st)) = 0"
    using st by (simp_all add: idle_def waiting_def)
  define h1 where "h1 = hw ?st1"
  have su: "set_up 24 ?p 0x1000000 (hw st) h1"
    using set_up_channel [of 24 "0x1000000" ?p "hw st"] base
    by (simp add: h1_def MMCXferSetup_def MMCTxDMAsetup_def Let_def)
  have st1: "?st1 = st\<lparr>callbackOccured := 0, xferCompFlag := 0, ctrlInfo := (ctrlInfo st)\<lparr>dmaEnable := 1\<rparr>, hw := h1\<rparr>"
    by (simp add: h1_def MMCXferSetup_def MMCTxDMAsetup_def Let_def)
  have c: "c_flags c AND 0x40 \<noteq> 0" "c_nblks c = of_nat n" "c_arg c = ?a" by (simp_all add: c_def new_cmd_def)
  define cw where "cw = cmd_word 1 c"
  have cw: "drop_bit 24 cw = (if n = 1 then 24 else 25)" "cw AND 0x200011 = 0x200001" "cw AND MMC_CMD_DP \<noteq> 0"
    using n(1) unfolding cw_def c_def by (cases "n = 1"; simp add: read_words)+
  let ?s0 = "pre_cmd c h1"
  note bf = before_data [OF su _ st0(1) n(2) c(1,2), simplified]
  have "tx_moves (words_param (map (\<lambda>a. val a ?s0) (param_addrs SOC_DMA0CC_0_REGS 24))) ptr n"
    unfolding bf(5) by (rule tx_moves_param) (simp_all add: base n(2))
  moreover have "bit (armed (view ?s0)) 24" unfolding bf(1) using bit_armed by simp
  ultimately obtain es bl where es: "brings {Cmd_done, Data_done, Dma_done 24} es" and
    v: "view (wr B 0x4806020C cw ?s0) = (view ?s0)\<lparr>lastcmd := cw, due := es, blocks := bl\<rparr>" and
    bl: "\<forall>k < n. bl (?a + scale * of_nat k) = (\<lambda>i. mem (view ?s0) (ptr + of_nat (512 * k + i)))"
      "\<forall>a. (\<forall>k < n. a \<noteq> ?a + scale * of_nat k) \<longrightarrow> bl a = blocks (view ?s0) a"
    using write_cmd_works [OF cw(1,2), simplified, of ?s0 ptr] bf(2,3,4) n(1) ans c(3) by auto
  have hc: "hw (commanded c ?st1) = wr B 0x4806020C cw ?s0" by (simp add: commanded_def st1 cw_def)
  have V: "stat (view (hw (commanded c ?st1))) = 0" "ipr (view (hw (commanded c ?st1))) = 0"
    "lastcmd (view (hw (commanded c ?st1))) AND MMC_CMD_DP \<noteq> 0" "due (view (hw (commanded c ?st1))) = es"
    using st0 cw(3) by (simp_all add: hc v bf(1))
  have w1: "waiting ?st1" using w st0 su by (simp add: st1 waiting_def set_up_def)
  have fl: "cmdCompFlag ?st1 = 0" "cmdTimeout ?st1 = 0" "dataTimeout ?st1 = 0" "xferCompFlag ?st1 = 0" "callbackOccured ?st1 = 0"
    using st by (simp_all add: st1 idle_def)
  have cc: "MMCWriteCmdSend M ptr b (of_nat n) st = carry c ?st1"
    by (simp only: carry_unfold un_gt [OF n(2)] c_def)
  from carry_works [OF w1 fl V(1-3), unfolded V(4), OF es _ ans] obtain st3 where
    s3: "carry c ?st1 = Some (1, st3)" "idle st3" "sdCard st3 = sdCard ?st1"
      "blocks (view (hw st3)) = bl" "mem (view (hw st3)) = mem (view (hw st))" by (auto simp: hc v bf(1))
  moreover have "mem (view ?s0) = mem (view (hw st))" "blocks (view ?s0) = blocks (view (hw st))" by (simp_all add: bf(1))
  ultimately show ?thesis using bl by (simp add: cc st1)
qed

text \<open>A card that does not answer: the call fails, nothing is moved, and the DMA request stays enabled.\<close>

lemma silent:
  assumes w: "waiting st" and fl: "cmdCompFlag st = 0" "cmdTimeout st = 0" and ans: "answer = Silent"
    and V: "stat (view (hw st)) = 0"
  shows "\<exists>st'. carry c st = Some (0, st') \<and> ctrlInfo st' = ctrlInfo st \<and> sdCard st' = sdCard st \<and>
    blocks (view (hw st')) = blocks (view (hw st)) \<and> mem (view (hw st')) = mem (view (hw st))"
proof -
  let ?c = "commanded c st"
  obtain es where es: "brings {Cmd_silent} es" and v: "view (hw ?c) = (view (hw st))\<lparr>lastcmd := cmd_word (dmaEnable (ctrlInfo st)) c, due := es\<rparr>"
    using cmd_silent [OF ans, simplified] pre_cmd_facts(1) [OF V] by (auto simp: commanded_def) metis
  note b = brings_facts [OF es, unfolded expected_def, simplified]
  have x: "\<forall>e \<in> set (due (view (hw ?c))). expected e" using b(1) by (simp add: expected_def v)
  have wc: "waiting ?c" using w v by (simp add: waiting_def commanded_def v [unfolded commanded_def, simplified])
  have "Cmd_silent \<in> set (due (view (hw ?c)))" "Cmd_done \<notin> set (due (view (hw ?c)))"
    using b(2,3) by (auto simp: v)
  from cmd_status_silent [OF wc x _ _ this] fl obtain es1 s1 where
    s1: "mmc0_get_cmd_status M ?c = Some (0, s1\<lparr>cmdTimeout := 0\<rparr>)" "ran ?c es1 s1" by (auto simp: commanded_def)
  have "keeps ?c s1" using s1(2) by (simp add: ran_def)
  then show ?thesis using s1(1) keeps_view [of ?c s1]
    by (simp add: carry_def cmd_send_unfold v) (simp add: keeps_def commanded_def)
qed

lemma read_silent:
  assumes st: "idle st" and ans: "answer = Silent" and n: "0 < n" "n < 65536"
  shows "\<exists>st'. MMCReadCmdSend M ptr b (of_nat n) st = Some (0, st') \<and> dmaEnable (ctrlInfo st') = 1 \<and>
    blocks (view (hw st')) = blocks (view (hw st)) \<and> mem (view (hw st')) = mem (view (hw st))"
proof -
  let ?p = "rx_param M (st\<lparr>callbackOccured := 0, xferCompFlag := 0\<rparr>) ptr 512 (of_nat n)"
  let ?st1 = "MMCXferSetup M 1 ptr 512 (of_nat n) st"
  have w: "waiting st" and base: "memBase (ctrlInfo st) = SOC_MMC_0_REGS" using st by (simp_all add: idle_def waiting_def)
  define h1 where "h1 = hw ?st1"
  have su: "set_up 25 ?p 0x2000000 (hw st) h1"
    using set_up_channel [of 25 "0x2000000" ?p "hw st"] base
    by (simp add: h1_def MMCXferSetup_def MMCRxDMAsetup_def Let_def)
  have st1: "?st1 = st\<lparr>callbackOccured := 0, xferCompFlag := 0, ctrlInfo := (ctrlInfo st)\<lparr>dmaEnable := 1\<rparr>, hw := h1\<rparr>"
    by (simp add: h1_def MMCXferSetup_def MMCRxDMAsetup_def Let_def)
  have v: "view h1 = (view (hw st))\<lparr>armed := armed (view (hw st)) OR 0x2000000\<rparr>" using su by (simp add: set_up_def)
  have w1: "waiting ?st1" using w by (simp add: st1 waiting_def v)
  have fl: "cmdCompFlag ?st1 = 0" "cmdTimeout ?st1 = 0" "stat (view (hw ?st1)) = 0"
    using st by (simp_all add: st1 v idle_def waiting_def)
  let ?c = "(if 1 < (of_nat n :: DWORD) then new_cmd M 18 0xC8 (block_address (sdCard st) b)
     else new_cmd M 17 0xC0 (block_address (sdCard st) b))\<lparr>c_nblks := of_nat n\<rparr>"
  from silent [OF w1 fl(1,2) ans fl(3), of ?c] obtain st' where
    "carry ?c ?st1 = Some (0, st')" "ctrlInfo st' = ctrlInfo ?st1"
      "blocks (view (hw st')) = blocks (view (hw ?st1))" "mem (view (hw st')) = mem (view (hw ?st1))" by blast
  then show ?thesis unfolding carry_unfold by (intro exI [of _ st'] conjI) (simp_all add: st1 v)
qed

lemma write_silent:
  assumes st: "idle st" and ans: "answer = Silent" and n: "0 < n" "n < 65536"
  shows "\<exists>st'. MMCWriteCmdSend M ptr b (of_nat n) st = Some (0, st') \<and> dmaEnable (ctrlInfo st') = 1 \<and>
    blocks (view (hw st')) = blocks (view (hw st)) \<and> mem (view (hw st')) = mem (view (hw st))"
proof -
  let ?p = "tx_param M (st\<lparr>callbackOccured := 0, xferCompFlag := 0\<rparr>) ptr 512 (of_nat n)"
  let ?st1 = "MMCXferSetup M 0 ptr 512 (of_nat n) st"
  have w: "waiting st" and base: "memBase (ctrlInfo st) = SOC_MMC_0_REGS" using st by (simp_all add: idle_def waiting_def)
  define h1 where "h1 = hw ?st1"
  have su: "set_up 24 ?p 0x1000000 (hw st) h1"
    using set_up_channel [of 24 "0x1000000" ?p "hw st"] base
    by (simp add: h1_def MMCXferSetup_def MMCTxDMAsetup_def Let_def)
  have st1: "?st1 = st\<lparr>callbackOccured := 0, xferCompFlag := 0, ctrlInfo := (ctrlInfo st)\<lparr>dmaEnable := 1\<rparr>, hw := h1\<rparr>"
    by (simp add: h1_def MMCXferSetup_def MMCTxDMAsetup_def Let_def)
  have v: "view h1 = (view (hw st))\<lparr>armed := armed (view (hw st)) OR 0x1000000\<rparr>" using su by (simp add: set_up_def)
  have w1: "waiting ?st1" using w by (simp add: st1 waiting_def v)
  have fl: "cmdCompFlag ?st1 = 0" "cmdTimeout ?st1 = 0" "stat (view (hw ?st1)) = 0"
    using st by (simp_all add: st1 v idle_def waiting_def)
  let ?c = "(if 1 < (of_nat n :: DWORD) then new_cmd M 25 0x148 (block_address (sdCard st) b)
     else new_cmd M 24 0x140 (block_address (sdCard st) b))\<lparr>c_nblks := of_nat n\<rparr>"
  from silent [OF w1 fl(1,2) ans fl(3), of ?c] obtain st' where
    "carry ?c ?st1 = Some (0, st')" "ctrlInfo st' = ctrlInfo ?st1"
      "blocks (view (hw st')) = blocks (view (hw ?st1))" "mem (view (hw st')) = mem (view (hw ?st1))" by blast
  then show ?thesis unfolding carry_unfold by (intro exI [of _ st'] conjI) (simp_all add: st1 v)
qed

text \<open>In terms of the disk layer's card.\<close>

lemma scaled_inj:
  assumes "unat s < cap" "unat t < cap" "cap * unat scale \<le> 2 ^ 32" "scale * s = scale * t"
  shows "s = t"
proof -
  have p: "0 < unat scale" using scale_pos by (simp add: unat_gt_0)
  have f: "unat (scale * x) = unat scale * unat x" if "unat x < cap" for x :: DWORD
  proof -
    have "unat scale * unat x < unat scale * cap" using that p by simp
    also have "\<dots> \<le> 2 ^ 32" using assms(3) by (simp add: mult.commute)
    finally show ?thesis by (simp add: unat_mult_lem [symmetric])
  qed
  have "unat scale * unat s = unat scale * unat t" using f [OF assms(1)] f [OF assms(2)] assms(4) by metis
  then have "unat s = unat t" using p by simp
  then show ?thesis by (simp add: word_unat_eq_iff)
qed

lemma address: "counts scale cap crd \<Longrightarrow> block_address crd b = scale * b"
  by (auto simp: counts_def block_address_def split: if_splits)

lemma sector_bound:
  assumes "unat s + n \<le> cap" "k < n"
  shows "unat (s + of_nat k) < cap"
proof -
  have "unat (s + of_nat k) \<le> unat s + k" by (simp add: unat_word_ariths(1) unat_of_nat) (metis mod_less_eq_dividend mod_add_right_eq take_bit_eq_mod)
  then show ?thesis using assms by simp
qed

lemma read_refines:
  fixes count :: BYTE
  assumes st: "sd_ready view st" and ct: "counts scale cap (sdCard st)" and c: "card_holds scale cap c (view (hw st))"
    and x: "answer = (if xfer_ok c (tick c) then Works else Silent)" and n: "0 < count" "unat s + unat count \<le> cap"
    and card_eq: "card_read buff s count c = (ok, buff', c')" and len: "length buff = 512 * unat count"
  shows "\<exists>st'. MMCReadCmdSend M ptr s (ucast count) st = Some (if ok then 1 else 0, st') \<and>
    card_holds scale cap c' (view (hw st')) \<and> (ok \<longrightarrow> sd_ready view st' \<and> bytes_at (view (hw st')) ptr (512 * unat count) = buff')"
proof -
  define n' where "n' = unat count"
  have i: "idle st" using st by (simp add: idle_ready)
  have "unat count < 2 ^ LENGTH(8)" by (rule unsigned_less)
  then have n': "0 < n'" "n' < 65536" and nw: "(ucast count :: DWORD) = of_nat n'"
    using n(1) by (simp_all add: n'_def unat_gt_0 word_gt_0)
  have ok: "ok \<longleftrightarrow> xfer_ok c (tick c)" and c': "blk c' = blk c"
    and b': "xfer_ok c (tick c) \<Longrightarrow> buff' = concat (map (\<lambda>k. sector_of c (s + of_nat k)) [0..<n'])"
    using card_eq len by (auto simp: card_read_def Let_def n'_def)
  show ?thesis
  proof (cases "xfer_ok c (tick c)")
    case False
    then obtain st' where "MMCReadCmdSend M ptr s (of_nat n') st = Some (0, st')" "blocks (view (hw st')) = blocks (view (hw st))"
      using read_silent [OF i _ n'] x by auto
    then show ?thesis using False ok c c' by (simp add: nw card_holds_def)
  next
    case True
    then obtain st' where r: "MMCReadCmdSend M ptr s (of_nat n') st = Some (1, st')" "idle st'"
      "blocks (view (hw st')) = blocks (view (hw st))"
      "mem (view (hw st')) = fill (mem (view (hw st))) ptr (512 * n')
        (\<lambda>i. blocks (view (hw st)) (scale * s + scale * of_nat (i div 512)) (i mod 512))"
      using read_blocks [OF i _ n', of ptr s] x address [OF ct] by auto
    have data: "bytes_at (view (hw st')) ptr (512 * n') = concat (map (\<lambda>k. sector_of c (s + of_nat k)) [0..<n'])"
    proof (rule nth_equalityI)
      show "length (bytes_at (view (hw st')) ptr (512 * n')) = length (concat (map (\<lambda>k. sector_of c (s + of_nat k)) [0..<n']))"
        by (simp add: bytes_at_def length_concat comp_def sector_of_def sum_list_triv)
    next
      fix j assume "j < length (bytes_at (view (hw st')) ptr (512 * n'))"
      then have j: "j < 512 * n'" by (simp add: bytes_at_def)
      have u: "unat (of_nat j :: DWORD) = j" using j n'(2) by (simp add: unat_of_nat take_bit_nat_eq_self)
      have k: "j div 512 < n'" using j by (simp add: less_mult_imp_div_less mult.commute)
      have "blk c (s + of_nat (j div 512)) (j mod 512) = blocks (view (hw st)) (scale * (s + of_nat (j div 512))) (j mod 512)"
        using c sector_bound [OF _ k, of s cap] n(2) by (simp add: card_holds_def n'_def)
      then show "bytes_at (view (hw st')) ptr (512 * n') ! j = concat (map (\<lambda>k. sector_of c (s + of_nat k)) [0..<n']) ! j"
        using j u k by (simp add: bytes_at_def r(4) fill_def concat_nth [where m = 512] sector_of_def distrib_left)
    qed
    have "card_holds scale cap c' (view (hw st'))" using c r(3) by (simp add: card_holds_def c')
    then show ?thesis using r(1,2) True ok b' [OF True] data unfolding nw idle_ready n'_def by simp
  qed
qed

lemma write_refines:
  fixes count :: BYTE
  assumes st: "sd_ready view st" and ct: "counts scale cap (sdCard st)" and c: "card_holds scale cap c (view (hw st))"
    and x: "answer = (if xfer_ok c (tick c) then Works else Silent)" and n: "0 < count" "unat s + unat count \<le> cap"
    and card_eq: "card_write buff s count c = (ok, c')" and b: "bytes_at (view (hw st)) ptr (512 * unat count) = buff"
  shows "\<exists>st'. MMCWriteCmdSend M ptr s (ucast count) st = Some (if ok then 1 else 0, st') \<and>
    (if ok then sd_ready view st' \<and> card_holds scale cap c' (view (hw st')) else card_holds scale cap c (view (hw st')))"
proof -
  define n' where "n' = unat count"
  have i: "idle st" using st by (simp add: idle_ready)
  have "unat count < 2 ^ LENGTH(8)" by (rule unsigned_less)
  then have n': "0 < n'" "n' < 65536" and nw: "(ucast count :: DWORD) = of_nat n'"
    using n(1) by (simp_all add: n'_def unat_gt_0 word_gt_0)
  have ok: "ok \<longleftrightarrow> xfer_ok c (tick c)" using card_eq by (auto simp: card_write_def Let_def)
  show ?thesis
  proof (cases "xfer_ok c (tick c)")
    case False
    then obtain st' where "MMCWriteCmdSend M ptr s (of_nat n') st = Some (0, st')" "blocks (view (hw st')) = blocks (view (hw st))"
      using write_silent [OF i _ n'] x by auto
    then show ?thesis using False ok c by (simp add: nw card_holds_def)
  next
    case True
    then obtain st' where r: "MMCWriteCmdSend M ptr s (of_nat n') st = Some (1, st')" "idle st'"
      "\<forall>k < n'. blocks (view (hw st')) (scale * s + scale * of_nat k) = (\<lambda>i. mem (view (hw st)) (ptr + of_nat (512 * k + i)))"
      "\<forall>a. (\<forall>k < n'. a \<noteq> scale * s + scale * of_nat k) \<longrightarrow> blocks (view (hw st')) a = blocks (view (hw st)) a"
      using write_blocks [OF i _ n', of ptr s] x address [OF ct] by auto
    have c': "blk c' t i = (if unat (t - s) < n' then buff ! (512 * unat (t - s) + i) else blk c t i)" for t i
      using card_eq True by (auto simp: card_write_def Let_def n'_def)
    have cap: "cap * unat scale \<le> 2 ^ 32" using ct unfolding counts_def by (rule conjunct2)
    have "card_holds scale cap c' (view (hw st'))" unfolding card_holds_def
    proof (intro allI impI)
      fix t :: DWORD and i assume t: "unat t < cap" and i: "i < (512 :: nat)"
      show "blk c' t i = blocks (view (hw st')) (scale * t) i"
      proof (cases "unat (t - s) < n'")
        case in_: True
        let ?k = "unat (t - s)"
        have "512 * ?k + i < 512 * n'" using in_ i by simp
        then have "buff ! (512 * ?k + i) = mem (view (hw st)) (ptr + of_nat (512 * ?k + i))"
          unfolding b [symmetric] bytes_at_def n'_def [symmetric] by simp
        moreover have "scale * t = scale * s + scale * of_nat ?k" by (simp add: algebra_simps)
        moreover have "blocks (view (hw st')) (scale * s + scale * of_nat ?k) i = mem (view (hw st)) (ptr + of_nat (512 * ?k + i))"
          using r(3) in_ by metis
        ultimately show ?thesis unfolding c' using in_ by (simp only: if_True)
      next
        case out: False
        have "scale * t \<noteq> scale * s + scale * of_nat k" if k: "k < n'" for k
        proof
          assume e: "scale * t = scale * s + scale * of_nat k"
          have "unat (s + of_nat k) < cap" by (rule sector_bound [OF _ k]) (use n(2) in \<open>simp add: n'_def\<close>)
          then have "t = s + of_nat k" using scaled_inj [OF t _ cap] e by (simp add: distrib_left)
          then have "unat (t - s) = k" using k n'(2) by (simp add: unat_of_nat take_bit_nat_eq_self)
          then show False using out k by simp
        qed
        then have "blocks (view (hw st')) (scale * t) = blocks (view (hw st)) (scale * t)" using r(4) by blast
        then show ?thesis using out c t i by (simp add: c' card_holds_def)
      qed
    qed
    then show ?thesis using r(1,2) True ok by (simp add: nw idle_ready)
  qed
qed

end

end
