(* ===== verification/MmcCard.thy ===== *)
theory MmcCard
  imports MmcDisk
begin

unbundle bit_operations_syntax

text \<open>
  A machine with a high capacity card behind the controller, on which the contract \<open>sd_host\<close> is
  interpreted, and what the driver's read and write do, in terms of the disk layer's card.
\<close>

section \<open>A machine\<close>

record sd_hw =
  held :: "DWORD \<Rightarrow> DWORD"
  sdv :: sd_view

definition sd_special :: "DWORD list" where
  "sd_special = [0x48060230, 0x4806020C, 0x49002068, 0x49002070, 0x49002030, 0x49002028, 0x49002040, 0x49000308]"

definition sd_plain :: "DWORD \<Rightarrow> bool" where "sd_plain a \<longleftrightarrow> a \<notin> set sd_special"

definition sd_val :: "DWORD \<Rightarrow> sd_hw \<Rightarrow> DWORD" where "sd_val a h = held h a"

definition dma_set :: "DWORD \<Rightarrow> sd_hw \<Rightarrow> DMACCPaRAMEntry" where
  "dma_set ch h = words_param (map (held h) (param_addrs SOC_DMA0CC_0_REGS ch))"

definition blk_count :: "sd_hw \<Rightarrow> nat" where "blk_count h = unat (drop_bit 16 (held h 0x48060204))"

definition reads_card :: "DWORD \<Rightarrow> sd_hw \<Rightarrow> bool" where
  "reads_card c h \<longleftrightarrow> drop_bit 24 c = (if blk_count h = 1 then 17 else 18) \<and> c AND 0x200011 = 0x200011 \<and>
     take_bit 12 (held h 0x48060204) = 512 \<and> 0 < blk_count h \<and> bit (armed (sdv h)) 25 \<and>
     rx_moves (dma_set 25 h) (destAddr (dma_set 25 h)) (blk_count h)"

definition writes_card :: "DWORD \<Rightarrow> sd_hw \<Rightarrow> bool" where
  "writes_card c h \<longleftrightarrow> drop_bit 24 c = (if blk_count h = 1 then 24 else 25) \<and> c AND 0x200011 = 0x200001 \<and>
     take_bit 12 (held h 0x48060204) = 512 \<and> 0 < blk_count h \<and> bit (armed (sdv h)) 24 \<and>
     tx_moves (dma_set 24 h) (srcAddr (dma_set 24 h)) (blk_count h)"

text \<open>What the card does with a command.\<close>

definition sd_command :: "answer \<Rightarrow> DWORD \<Rightarrow> sd_hw \<Rightarrow> sd_view" where
  "sd_command an c h =
     (let v = (sdv h)\<lparr>lastcmd := c\<rparr>; a = held h 0x48060208; n = blk_count h in
      case an of
        Silent \<Rightarrow> v\<lparr>due := [Idle, Cmd_silent]\<rparr>
      | Lost \<Rightarrow> v\<lparr>due := [Cmd_done, Idle, Data_lost]\<rparr>
      | Works \<Rightarrow>
          if reads_card c h then
            v\<lparr>due := [Cmd_done, Dma_done 25, Idle, Data_done],
              mem := fill (mem v) (destAddr (dma_set 25 h)) (512 * n) (\<lambda>i. blocks v (a + 1 * of_nat (i div 512)) (i mod 512))\<rparr>
          else if writes_card c h then
            v\<lparr>due := [Cmd_done, Data_done, Idle, Dma_done 24],
              blocks := \<lambda>b. if unat (b - a) < n
                then (\<lambda>i. mem v (srcAddr (dma_set 24 h) + of_nat (512 * unat (b - a) + i))) else blocks v b\<rparr>
          else v\<lparr>due := [Idle, Cmd_done, Data_done]\<rparr>)"

definition sd_rd :: "DWORD \<Rightarrow> sd_hw \<Rightarrow> DWORD \<times> sd_hw" where
  "sd_rd a h = (if a = 0x48060230 then stat (sdv h) else if a = 0x4806020C then lastcmd (sdv h)
     else if a = 0x49002068 then ipr (sdv h) else if sd_plain a then held h a else 0, h)"

definition sd_wr :: "answer \<Rightarrow> DWORD \<Rightarrow> DWORD \<Rightarrow> sd_hw \<Rightarrow> sd_hw" where
  "sd_wr an a x h =
     (if sd_plain a then h\<lparr>held := (held h)(a := x)\<rparr>
      else h\<lparr>sdv := if a = 0x48060230 then (sdv h)\<lparr>stat := stat (sdv h) AND NOT x\<rparr>
        else if a = 0x49002070 then (sdv h)\<lparr>ipr := ipr (sdv h) AND NOT x\<rparr>
        else if a = 0x49002030 then (sdv h)\<lparr>armed := armed (sdv h) OR x\<rparr>
        else if a = 0x49002028 then (sdv h)\<lparr>armed := armed (sdv h) AND NOT x\<rparr>
        else if a = 0x4806020C then sd_command an x h else sdv h\<rparr>)"

definition sd_irq :: "sd_hw \<Rightarrow> interrupt option \<times> sd_hw" where
  "sd_irq h = (case due (sdv h) of [] \<Rightarrow> (None, h) | e # es \<Rightarrow> (event_irq e, h\<lparr>sdv := happen e es (sdv h)\<rparr>))"

definition sd_bus :: "answer \<Rightarrow> sd_hw bus" where "sd_bus an = \<lparr>rd = sd_rd, wr = sd_wr an\<rparr>"

definition sd_board :: "answer \<Rightarrow> sd_hw board" where
  "sd_board an = \<lparr>regs = sd_bus an, next_irq = sd_irq, peek = (\<lambda>a h. mem (sdv h) a), dataBuffer = 0x80000000,
     attach = Some, wipe_cwd = id, stack_half = 0, stack_words = [0, 0, 0, 0, 0]\<rparr>"

lemmas sd_defs = sd_rd_def sd_wr_def sd_bus_def sd_board_def sd_plain_def sd_special_def sd_val_def sd_irq_def

lemma sd_write_law:
  fixes a :: DWORD
  assumes "n < 2 ^ 32"
  shows "(\<forall>k < n. (\<lambda>b. if unat (b - a) < n then f (unat (b - a)) else g b) (a + 1 * of_nat k) = f k) \<and>
    (\<forall>x. (\<forall>k < n. x \<noteq> a + 1 * of_nat k) \<longrightarrow> (\<lambda>b. if unat (b - a) < n then f (unat (b - a)) else g b) x = g x)"
proof (intro conjI allI impI)
  fix k assume "k < n"
  then show "(\<lambda>b. if unat (b - a) < n then f (unat (b - a)) else g b) (a + 1 * of_nat k) = f k"
    using assms by (simp add: unat_of_nat take_bit_nat_eq_self)
next
  fix x assume x: "\<forall>k < n. x \<noteq> a + 1 * of_nat k"
  have "\<not> unat (x - a) < n"
  proof
    assume "unat (x - a) < n"
    then have "x \<noteq> a + 1 * of_nat (unat (x - a))" using x by blast
    then show False by simp
  qed
  then show "(\<lambda>b. if unat (b - a) < n then f (unat (b - a)) else g b) x = g x" by simp
qed

lemma sd_cmd_view: "sdv (wr (sd_bus an) 0x4806020C c h) = sd_command an c h"
  by (simp add: sd_defs)

lemma sd_dma_set: "words_param (map (\<lambda>a. sd_val a h) (param_addrs SOC_DMA0CC_0_REGS ch)) = dma_set ch h"
  by (simp add: dma_set_def sd_val_def)

lemma sd_reads:
  assumes "reads_card c h" "rx_moves (dma_set 25 h) ptr n" "blk_count h = n"
  shows "sd_command Works c h = (sdv h)\<lparr>lastcmd := c, due := [Cmd_done, Dma_done 25, Idle, Data_done],
    mem := fill (mem (sdv h)) ptr (512 * n) (\<lambda>i. blocks (sdv h) (held h 0x48060208 + 1 * of_nat (i div 512)) (i mod 512))\<rparr>"
  using assms by (simp add: sd_command_def Let_def rx_moves_def)

lemma sd_writes:
  assumes "\<not> reads_card c h" "writes_card c h" "tx_moves (dma_set 24 h) ptr n" "blk_count h = n"
  shows "sd_command Works c h = (sdv h)\<lparr>lastcmd := c, due := [Cmd_done, Data_done, Idle, Dma_done 24],
    blocks := \<lambda>b. if unat (b - held h 0x48060208) < n
      then (\<lambda>i. mem (sdv h) (ptr + of_nat (512 * unat (b - held h 0x48060208) + i))) else blocks (sdv h) b\<rparr>"
  using assms by (simp add: sd_command_def Let_def tx_moves_def cong: if_cong)

lemma sd_brings:
  "brings {Cmd_done, Data_done} [Idle, Cmd_done, Data_done]"
  "brings {Cmd_done, Data_done, Dma_done 25} [Cmd_done, Dma_done 25, Idle, Data_done]"
  "brings {Cmd_done, Data_done, Dma_done 24} [Cmd_done, Data_done, Idle, Dma_done 24]"
  "brings {Cmd_silent} [Idle, Cmd_silent]"
  "brings {Cmd_done, Data_lost} [Cmd_done, Idle, Data_lost]"
  by (simp_all add: brings_def)

lemma sd_param_plain:
  "a \<in> set (param_addrs SOC_DMA0CC_0_REGS 24) \<union> set (param_addrs SOC_DMA0CC_0_REGS 25) \<Longrightarrow> sd_plain a"
  by (auto simp: sd_plain_def sd_special_def param_addrs_def DMACC_OPT_def)

lemma sd_stop:
  assumes "drop_bit 24 c = 12"
  shows "\<exists>es. brings {Cmd_done, Data_done} es \<and> sd_command Works c h = (sdv h)\<lparr>lastcmd := c, due := es\<rparr>"
proof -
  have "\<not> reads_card c h" "\<not> writes_card c h" using assms by (auto simp: reads_card_def writes_card_def)
  then show ?thesis using sd_brings(1) by (auto simp: sd_command_def Let_def)
qed

lemma sd_read_law:
  assumes "drop_bit 24 c = (if n = 1 then 17 else 18)" "c AND 0x200011 = 0x200011" "take_bit 12 (held h 0x48060204) = 512"
    "blk_count h = n" "0 < n" "bit (armed (sdv h)) 25" "rx_moves (dma_set 25 h) ptr n"
  shows "\<exists>es. brings {Cmd_done, Data_done, Dma_done 25} es \<and> sd_command Works c h = (sdv h)\<lparr>lastcmd := c, due := es,
    mem := fill (mem (sdv h)) ptr (512 * n) (\<lambda>i. blocks (sdv h) (held h 0x48060208 + 1 * of_nat (i div 512)) (i mod 512))\<rparr>"
proof -
  have "destAddr (dma_set 25 h) = ptr" using assms(7) by (simp add: rx_moves_def)
  then have "reads_card c h" using assms by (simp add: reads_card_def)
  from sd_reads [OF this assms(7,4)] sd_brings(2) show ?thesis by blast
qed

lemma sd_write_card_law:
  assumes "drop_bit 24 c = (if n = 1 then 24 else 25)" "c AND 0x200011 = 0x200001" "take_bit 12 (held h 0x48060204) = 512"
    "blk_count h = n" "0 < n" "bit (armed (sdv h)) 24" "tx_moves (dma_set 24 h) ptr n"
  shows "\<exists>es. brings {Cmd_done, Data_done, Dma_done 24} es \<and> (\<exists>b. sd_command Works c h = (sdv h)\<lparr>lastcmd := c, due := es, blocks := b\<rparr> \<and>
    (\<forall>k < n. b (held h 0x48060208 + 1 * of_nat k) = (\<lambda>i. mem (sdv h) (ptr + of_nat (512 * k + i)))) \<and>
    (\<forall>a. (\<forall>k < n. a \<noteq> held h 0x48060208 + 1 * of_nat k) \<longrightarrow> b a = blocks (sdv h) a))"
proof -
  have "srcAddr (dma_set 24 h) = ptr" using assms(7) by (simp add: tx_moves_def)
  then have w: "writes_card c h" using assms by (simp add: writes_card_def)
  have r: "\<not> reads_card c h" using assms(2) by (auto simp: reads_card_def)
  have "n < 2 ^ 32" unfolding assms(4) [symmetric] blk_count_def by (rule order_less_le_trans [OF unsigned_less]) simp
  note law = sd_write_law [OF this, where a = "held h 0x48060208" and g = "blocks (sdv h)"
    and f = "\<lambda>k i. mem (sdv h) (ptr + of_nat (512 * k + i))"]
  show ?thesis using sd_brings(3) sd_writes [OF r w assms(7,4)] law [THEN conjunct1] law [THEN conjunct2] by (intro exI conjI)
qed

lemma sd_machine: "sd_host (sd_bus an) sd_plain sd_val (sd_board an) sdv an 1"
proof
  show "drop_bit 24 c = (12 :: DWORD) \<Longrightarrow> an = Works \<Longrightarrow> \<exists>es. brings {Cmd_done, Data_done} es \<and>
      sdv (wr (sd_bus an) (SOC_MMC_0_REGS + MMC_CMD) c s) = (sdv s)\<lparr>lastcmd := c, due := es\<rparr>" for c s
    using sd_stop [of c s] by (simp add: sd_cmd_view)
  show "a \<in> set (param_addrs SOC_DMA0CC_0_REGS 24) \<union> set (param_addrs SOC_DMA0CC_0_REGS 25) \<Longrightarrow> sd_plain a" for a
    by (rule sd_param_plain)
  show "\<exists>es. brings {Cmd_done, Data_done, Dma_done 25} es \<and>
      sdv (wr (sd_bus an) (SOC_MMC_0_REGS + MMC_CMD) c s) = (sdv s)\<lparr>lastcmd := c, due := es,
        mem := fill (mem (sdv s)) ptr (512 * n)
          (\<lambda>i. blocks (sdv s) (sd_val (SOC_MMC_0_REGS + MMC_ARG) s + 1 * of_nat (i div 512)) (i mod 512))\<rparr>"
    if "drop_bit 24 c = (if n = 1 then 17 else 18)" "c AND 0x200011 = 0x200011"
      "take_bit 12 (sd_val (SOC_MMC_0_REGS + MMC_BLK) s) = 512"
      "unat (drop_bit 16 (sd_val (SOC_MMC_0_REGS + MMC_BLK) s)) = n" "0 < n" "bit (armed (sdv s)) 25"
      "rx_moves (words_param (map (\<lambda>a. sd_val a s) (param_addrs SOC_DMA0CC_0_REGS 25))) ptr n" "an = Works" for c n s ptr
    using sd_read_law [of c n s ptr] that by (simp add: sd_cmd_view sd_dma_set) (simp add: sd_val_def blk_count_def)
  show "\<exists>es. brings {Cmd_done, Data_done, Dma_done 24} es \<and>
      (\<exists>b. sdv (wr (sd_bus an) (SOC_MMC_0_REGS + MMC_CMD) c s) = (sdv s)\<lparr>lastcmd := c, due := es, blocks := b\<rparr> \<and>
        (\<forall>k < n. b (sd_val (SOC_MMC_0_REGS + MMC_ARG) s + 1 * of_nat k) =
            (\<lambda>i. mem (sdv s) (ptr + of_nat (512 * k + i)))) \<and>
        (\<forall>a. (\<forall>k < n. a \<noteq> sd_val (SOC_MMC_0_REGS + MMC_ARG) s + 1 * of_nat k) \<longrightarrow> b a = blocks (sdv s) a))"
    if "drop_bit 24 c = (if n = 1 then 24 else 25)" "c AND 0x200011 = 0x200001"
      "take_bit 12 (sd_val (SOC_MMC_0_REGS + MMC_BLK) s) = 512"
      "unat (drop_bit 16 (sd_val (SOC_MMC_0_REGS + MMC_BLK) s)) = n" "0 < n" "bit (armed (sdv s)) 24"
      "tx_moves (words_param (map (\<lambda>a. sd_val a s) (param_addrs SOC_DMA0CC_0_REGS 24))) ptr n" "an = Works" for c n s ptr
    using sd_write_card_law [of c n s ptr] that by (simp add: sd_cmd_view sd_dma_set) (simp add: sd_val_def blk_count_def)
  show "\<exists>es. brings {Cmd_silent} es \<and> sdv (wr (sd_bus an) (SOC_MMC_0_REGS + MMC_CMD) c s) = (sdv s)\<lparr>lastcmd := c, due := es\<rparr>"
    if "an = Silent" for c s
    using sd_brings(4) that by (auto simp: sd_cmd_view sd_command_def)
  show "\<exists>es m. brings {Cmd_done, Data_lost} es \<and>
      sdv (wr (sd_bus an) (SOC_MMC_0_REGS + MMC_CMD) c s) = (sdv s)\<lparr>lastcmd := c, due := es, mem := m\<rparr>"
    if "an = Lost" "c AND MMC_CMD_DP \<noteq> 0" for c s
    using sd_brings(5) that
    by (intro exI [of _ "[Cmd_done, Idle, Data_lost]"] exI [of _ "mem (sdv s)"]) (simp add: sd_cmd_view sd_command_def)
qed (auto simp: sd_defs)

interpretation sd: sd_host "sd_bus an" sd_plain sd_val "sd_board an" sdv an 1 for an
  by (rule sd_machine)

text \<open>The machine at rest, and the disk layer's description of its card.\<close>

definition sd_disk :: "answer \<Rightarrow> card" where
  "sd_disk an = \<lparr>blk = \<lambda>s i. of_nat (3 * unat s + i), tick = 0, xfer_ok = \<lambda>n. an = Works, rd_junk = \<lambda>n i. 0, wr_junk = \<lambda>n s i. 0\<rparr>"

definition sd_start :: "sd_hw mmcdrv" where
  "sd_start = \<lparr>hw = \<lparr>held = \<lambda>a. 0, sdv = \<lparr>blocks = \<lambda>s i. of_nat (3 * unat s + i), mem = \<lambda>a. 7, armed = 0, stat = 0, ipr = 0,
       lastcmd = 0, due = []\<rparr>\<rparr>,
     callbackOccured = 0, xferCompFlag = 0, dataTimeout = 0, cmdCompFlag = 0, cmdTimeout = 0, errFlag = 0,
     ctrlInfo = \<lparr>memBase = SOC_MMC_0_REGS, ipClk = 96000000, opClk = 25000000, intrMask = 0, dmaEnable = 0, busWidth = 5,
       highspeed = 1, ctrl_ocr = 0, cdPinNum = 6\<rparr>,
     sdCard = \<lparr>cardType = 0, rca = 1, raw_scr = [], raw_csd = [], raw_cid = [], card_ocr = 0, sd_ver = 2, card_busWidth = 5,
       tranSpeed = 0x32, highCap = 1, blkLen = 512, nBlks = 0, card_size = 0\<rparr>,
     cb_Fxn = \<lambda>ch. ch = 24 \<or> ch = 25\<rparr>"

lemma sd_start_facts:
  "sd_ready sdv sd_start" "counts 1 0x100000000 (sdCard sd_start)" "card_holds 1 0x100000000 (sd_disk an) (sdv (hw sd_start))"
  by (simp_all add: sd_ready_def counts_def card_holds_def sd_start_def sd_disk_def)

section \<open>Reads and writes refine the disk layer's card\<close>

text \<open>C2: on hardware that keeps the contract, MMCReadCmdSend implements the disk layer's card: it reports
  success exactly if the transfer does, the blocks of the card are unchanged, and on success the bytes at
  the pointer are the blocks asked for, in order, whatever the order and delay of the interrupts.\<close>
theorem mmc_read_refines_card:
  fixes count :: BYTE
  assumes "sd_host B plain val M view answer scale"
    and "sd_ready view st" "counts scale cap (sdCard st)" "card_holds scale cap c (view (hw st))"
    and "answer = (if xfer_ok c (tick c) then Works else Silent)" "0 < count" "unat s + unat count \<le> cap"
    and "card_read buff s count c = (ok, buff', c')" "length buff = 512 * unat count"
  shows "\<exists>st'. MMCReadCmdSend M ptr s (ucast count) st = Some (if ok then 1 else 0, st') \<and>
    card_holds scale cap c' (view (hw st')) \<and> (ok \<longrightarrow> sd_ready view st' \<and> bytes_at (view (hw st')) ptr (512 * unat count) = buff')"
  using assms by (rule sd_host.read_refines)

lemma mmc_read_refines_card_witness:
  "\<exists>st'. MMCReadCmdSend (sd_board Works) 0x80001000 9 (ucast (2 :: BYTE)) sd_start = Some (1, st') \<and>
    sd_ready sdv st' \<and> bytes_at (sdv (hw st')) 0x80001000 1024 = concat (map (\<lambda>k. sector_of (sd_disk Works) (9 + of_nat k)) [0..<2])"
proof -
  have "card_read (replicate 1024 0) 9 2 (sd_disk Works) =
      (True, concat (map (\<lambda>k. sector_of (sd_disk Works) (9 + of_nat k)) [0..<2]), (sd_disk Works)\<lparr>tick := 1\<rparr>)"
    by (simp add: card_read_def Let_def sd_disk_def)
  from mmc_read_refines_card [OF sd_machine sd_start_facts _ _ _ this, of Works "0x80001000"] show ?thesis
    by (auto simp: sd_disk_def)
qed

text \<open>C11: on the same hardware MMCWriteCmdSend implements the disk layer's write: on success the blocks asked
  for hold the bytes at the pointer and no other block of the disk changes, on failure none does.\<close>
theorem mmc_write_refines_card:
  fixes count :: BYTE
  assumes "sd_host B plain val M view answer scale"
    and "sd_ready view st" "counts scale cap (sdCard st)" "card_holds scale cap c (view (hw st))"
    and "answer = (if xfer_ok c (tick c) then Works else Silent)" "0 < count" "unat s + unat count \<le> cap"
    and "card_write buff s count c = (ok, c')" "bytes_at (view (hw st)) ptr (512 * unat count) = buff"
  shows "\<exists>st'. MMCWriteCmdSend M ptr s (ucast count) st = Some (if ok then 1 else 0, st') \<and>
    (if ok then sd_ready view st' \<and> card_holds scale cap c' (view (hw st')) else card_holds scale cap c (view (hw st')))"
  using assms by (rule sd_host.write_refines)

lemma mmc_write_refines_card_witness:
  "\<exists>st'. MMCWriteCmdSend (sd_board Works) 0x80001000 9 (ucast (2 :: BYTE)) sd_start = Some (1, st') \<and>
    card_holds 1 0x100000000 (snd (card_write (replicate 1024 7) 9 2 (sd_disk Works))) (sdv (hw st'))"
proof -
  have b: "bytes_at (sdv (hw sd_start)) 0x80001000 1024 = replicate 1024 7"
    by (simp add: bytes_at_def sd_start_def map_replicate_const)
  have "card_write (replicate 1024 7) 9 2 (sd_disk Works) = (True, snd (card_write (replicate 1024 7) 9 2 (sd_disk Works)))"
    by (simp add: card_write_def Let_def sd_disk_def)
  from mmc_write_refines_card [OF sd_machine sd_start_facts _ _ _ this, of Works "0x80001000"] b show ?thesis
    by (auto simp: sd_disk_def)
qed

text \<open>when the card does not answer the command of a read, MMCReadCmdSend returns 0 without moving a byte,
  but leaves dmaEnable set, so that the next command of any kind is sent with the DMA bit.\<close>
theorem silent_read_keeps_dma:
  assumes "sd_host B plain val M view Silent scale" "sd_ready view st" "0 < n" "n < 65536"
  shows "\<exists>st'. MMCReadCmdSend M ptr b (of_nat n) st = Some (0, st') \<and> dmaEnable (ctrlInfo st') = 1 \<and>
    blocks (view (hw st')) = blocks (view (hw st)) \<and> mem (view (hw st')) = mem (view (hw st)) \<and>
    (\<forall>cmd. cmd_word (dmaEnable (ctrlInfo st')) cmd AND 1 = 1)"
proof -
  have "(x OR 1) AND 1 = 1" for x :: DWORD by (rule bit_word_eqI) (auto simp: bit_simps)
  then have "\<forall>cmd. cmd_word 1 cmd AND 1 = 1" unfolding cmd_word_def Let_def by (simp only: refl if_True simp_thms)
  then show ?thesis using sd_host.read_silent [OF assms(1), of st n ptr b] assms sd_host.idle_ready [OF assms(1)] by fastforce
qed

lemma silent_read_keeps_dma_witness:
  "\<exists>st'. MMCReadCmdSend (sd_board Silent) 0x80001000 9 (of_nat 1) sd_start = Some (0, st') \<and> dmaEnable (ctrlInfo st') = 1"
  using silent_read_keeps_dma [OF sd_machine sd_start_facts(1), of 1] by fastforce

end
