(* ===== verification/Mmu.thy ===== *)
theory Mmu
  imports Bus
begin

unbundle bit_operations_syntax

text \<open>
  The memory management unit, \<^verbatim>\<open>drivers_C/mmu.c\<close>, over the coprocessor routines of
  \<^verbatim>\<open>drivers/cp15.s\<close> it calls.  The page table is the
  words from \<^verbatim>\<open>pageTable\<close> on, by index; index 4096 and above is the memory behind the table.  What the
  hardware makes of a table is the function \<open>translate\<close>, the translation of sections in short descriptors.
\<close>

section \<open>Coprocessor routines\<close>

record cp15 =
  sctlr :: DWORD      \<comment> \<open>control register\<close>
  dacr :: DWORD       \<comment> \<open>domain access\<close>
  ttbcr :: DWORD
  ttbr0 :: DWORD
  tlb :: "DWORD set"  \<comment> \<open>sections with an entry in the translation buffer\<close>

definition CP15TlbInvalidate :: "'a cp15_scheme \<Rightarrow> 'a cp15_scheme" where
  "CP15TlbInvalidate s = s\<lparr>tlb := {}\<rparr>"

definition CP15DomainAccessClientSet :: "'a cp15_scheme \<Rightarrow> 'a cp15_scheme" where
  "CP15DomainAccessClientSet s = s\<lparr>dacr := 0x55555555\<rparr>"

definition CP15ControlFeatureDisable :: "DWORD \<Rightarrow> 'a cp15_scheme \<Rightarrow> 'a cp15_scheme" where
  "CP15ControlFeatureDisable features s = s\<lparr>sctlr := sctlr s AND NOT features\<rparr>"

definition CP15TtbCtlTtb0Config :: "'a cp15_scheme \<Rightarrow> 'a cp15_scheme" where
  "CP15TtbCtlTtb0Config s = s\<lparr>ttbcr := 0\<rparr>"

definition CP15Ttb0Set :: "DWORD \<Rightarrow> 'a cp15_scheme \<Rightarrow> 'a cp15_scheme" where
  "CP15Ttb0Set a s = s\<lparr>ttbr0 := a\<rparr>"

definition CP15MMUEnable :: "'a cp15_scheme \<Rightarrow> 'a cp15_scheme" where
  "CP15MMUEnable s = s\<lparr>sctlr := sctlr s OR 1\<rparr>"

section \<open>Regions\<close>

record region =
  pgType :: DWORD
  startAddr :: DWORD
  numPages :: DWORD
  memAttrib :: DWORD
  secureType :: DWORD
  accsCtrl :: DWORD

abbreviation MMU_PGTYPE_SECTION :: DWORD where "MMU_PGTYPE_SECTION \<equiv> 0xFFF04002"
abbreviation MMU_PGADDR_MASK :: DWORD where "MMU_PGADDR_MASK \<equiv> 0xFFF00000"
abbreviation MMU_PGTYPE_MASK :: DWORD where "MMU_PGTYPE_MASK \<equiv> 0x00040002"
abbreviation MMU_REGION_NON_SECURE :: DWORD where "MMU_REGION_NON_SECURE \<equiv> 0x00080000"
abbreviation MMU_AP_PRV_RW_USR_RW :: DWORD where "MMU_AP_PRV_RW_USR_RW \<equiv> 0x0C00"
abbreviation MMU_MEMTYPE_DEVICE_SHAREABLE :: DWORD where "MMU_MEMTYPE_DEVICE_SHAREABLE \<equiv> 4"
abbreviation MMU_SECTION_EXEC_NEVER :: DWORD where "MMU_SECTION_EXEC_NEVER \<equiv> 0x10"

definition MMU_MEMTYPE_NORMAL_NON_SHAREABLE :: "DWORD \<Rightarrow> DWORD \<Rightarrow> DWORD" where
  "MMU_MEMTYPE_NORMAL_NON_SHAREABLE inner outer = 0x4000 OR push_bit 12 outer OR push_bit 2 inner"

text \<open>The loop over the pages of a region, from the last to the first; \<open>first\<close> is the index of the first.\<close>

fun map_pages :: "DWORD \<Rightarrow> nat \<Rightarrow> nat \<Rightarrow> (nat \<Rightarrow> DWORD) \<Rightarrow> nat \<Rightarrow> DWORD" where
  "map_pages ptEntry first 0 t = t"
| "map_pages ptEntry first (Suc i) t = map_pages ptEntry first i (t(first + i := ptEntry + push_bit 20 (of_nat i)))"

definition mmu_regionMap :: "region \<Rightarrow> (nat \<Rightarrow> DWORD) \<Rightarrow> nat \<Rightarrow> DWORD" where
  "mmu_regionMap r t =
     (let ptEntry = (startAddr r AND pgType r) AND MMU_PGADDR_MASK;
          ptEntry = ptEntry OR ((MMU_PGTYPE_MASK AND pgType r) OR accsCtrl r OR memAttrib r OR secureType r);
          i = sint (numPages r - 1)
      in map_pages ptEntry (unat (drop_bit 20 (startAddr r))) (nat (i + 1)) t)"

definition regionDdr :: region where
  "regionDdr = \<lparr>pgType = MMU_PGTYPE_SECTION, startAddr = 0x80000000, numPages = 512,
     memAttrib = MMU_MEMTYPE_NORMAL_NON_SHAREABLE 2 1, secureType = MMU_REGION_NON_SECURE, accsCtrl = MMU_AP_PRV_RW_USR_RW\<rparr>"

definition regionOcmc :: region where
  "regionOcmc = \<lparr>pgType = MMU_PGTYPE_SECTION, startAddr = 0x40300000, numPages = 1,
     memAttrib = MMU_MEMTYPE_NORMAL_NON_SHAREABLE 2 1, secureType = MMU_REGION_NON_SECURE, accsCtrl = MMU_AP_PRV_RW_USR_RW\<rparr>"

definition regionDev :: region where
  "regionDev = \<lparr>pgType = MMU_PGTYPE_SECTION, startAddr = 0x44000000, numPages = 960,
     memAttrib = MMU_MEMTYPE_DEVICE_SHAREABLE, secureType = MMU_REGION_NON_SECURE,
     accsCtrl = MMU_AP_PRV_RW_USR_RW OR MMU_SECTION_EXEC_NEVER\<rparr>"

definition regionROM :: region where
  "regionROM = \<lparr>pgType = MMU_PGTYPE_SECTION, startAddr = 0x00020000, numPages = 1,
     memAttrib = MMU_MEMTYPE_NORMAL_NON_SHAREABLE 2 1, secureType = MMU_REGION_NON_SECURE, accsCtrl = MMU_AP_PRV_RW_USR_RW\<rparr>"

section \<open>Initialisation\<close>

record mmu = cp15 +
  pageTable :: "nat \<Rightarrow> DWORD"

text \<open>\<^verbatim>\<open>for (i = 4096; i != 0; i--) pageTable[i] = 0;\<close>\<close>

fun reset_table :: "nat \<Rightarrow> (nat \<Rightarrow> DWORD) \<Rightarrow> nat \<Rightarrow> DWORD" where
  "reset_table 0 t = t"
| "reset_table (Suc i) t = reset_table i (t(Suc i := 0))"

definition mmu_init :: "DWORD \<Rightarrow> mmu \<Rightarrow> mmu" where
  "mmu_init table s =
     (let s = CP15TlbInvalidate s;
          s = CP15DomainAccessClientSet s;
          s = CP15ControlFeatureDisable (0x10000000 OR 0x20000000 OR 0x2 OR 0x1) s;
          s = CP15TtbCtlTtb0Config s;
          s = s\<lparr>pageTable := reset_table 4096 (pageTable s)\<rparr>;
          s = s\<lparr>pageTable := mmu_regionMap regionDdr (pageTable s)\<rparr>;
          s = s\<lparr>pageTable := mmu_regionMap regionOcmc (pageTable s)\<rparr>;
          s = s\<lparr>pageTable := mmu_regionMap regionDev (pageTable s)\<rparr>;
          s = s\<lparr>pageTable := mmu_regionMap regionROM (pageTable s)\<rparr>;
          s = CP15Ttb0Set table s
      in CP15MMUEnable s)"

section \<open>Translation\<close>

text \<open>The address a virtual address is translated to, with the attributes of its section; \<open>None\<close> is a fault.\<close>

definition translate :: "(nat \<Rightarrow> DWORD) \<Rightarrow> DWORD \<Rightarrow> (DWORD \<times> DWORD) option" where
  "translate t va = (let d = t (unat (drop_bit 20 va)) in
     if d AND 0x40003 = 2 then Some ((d AND MMU_PGADDR_MASK) OR (va AND 0xFFFFF), d AND 0xFFFFF) else None)"

lemma map_pages_nth: "map_pages e f n t i = (if f \<le> i \<and> i < f + n then e + push_bit 20 (of_nat (i - f)) else t i)"
  by (induction n arbitrary: t) auto

lemma reset_nth: "reset_table n t i = (if 1 \<le> i \<and> i \<le> n then 0 else t i)"
  by (induction n arbitrary: t) auto

text \<open>The entry of page \<open>i\<close>: its address, and attributes below bit 20.\<close>

definition section_entry :: "DWORD \<Rightarrow> nat \<Rightarrow> DWORD" where
  "section_entry attr i = push_bit 20 (of_nat i) OR attr"

lemma section_sum:
  assumes "unat a < 2 ^ 20"
  shows "push_bit 20 x + a = push_bit 20 x OR (a :: DWORD)"
  by (rule disjunctive_add) (use bits_below [OF assms] in \<open>force simp: bit_simps\<close>)

lemma page_entry:
  assumes "unat a < 2 ^ 20" "f \<le> i" "e = push_bit 20 (of_nat f) + a"
  shows "e + push_bit 20 (of_nat (i - f)) = section_entry a i"
proof -
  have "e + push_bit 20 (of_nat (i - f)) = push_bit 20 (of_nat f + of_nat (i - f)) + a"
    unfolding assms(3) push_bit_add by (simp add: algebra_simps)
  also have "of_nat f + of_nat (i - f) = (of_nat i :: DWORD)" using assms(2) by (metis le_add_diff_inverse of_nat_add)
  finally show ?thesis unfolding section_entry_def section_sum [OF assms(1)] .
qed

lemma region_tables:
  "mmu_regionMap regionDdr t i = (if 0x800 \<le> i \<and> i < 0xA00 then section_entry 0x85C0A i else t i)"
  "mmu_regionMap regionOcmc t i = (if i = 0x403 then section_entry 0x85C0A i else t i)"
  "mmu_regionMap regionDev t i = (if 0x440 \<le> i \<and> i < 0x800 then section_entry 0x80C16 i else t i)"
  "mmu_regionMap regionROM t i = (if i = 0 then section_entry 0x85C0A i else t i)"
proof -
  have "mmu_regionMap regionDdr t = map_pages 0x80085C0A 0x800 512 t"
    by (simp add: mmu_regionMap_def regionDdr_def MMU_MEMTYPE_NORMAL_NON_SHAREABLE_def Let_def)
  then show "mmu_regionMap regionDdr t i = (if 0x800 \<le> i \<and> i < 0xA00 then section_entry 0x85C0A i else t i)"
    using page_entry [of "0x85C0A" "0x800" i "0x80085C0A"] by (simp add: map_pages_nth)
  have "mmu_regionMap regionOcmc t = map_pages 0x40385C0A 0x403 1 t"
    by (simp add: mmu_regionMap_def regionOcmc_def MMU_MEMTYPE_NORMAL_NON_SHAREABLE_def Let_def)
  then show "mmu_regionMap regionOcmc t i = (if i = 0x403 then section_entry 0x85C0A i else t i)"
    using page_entry [of "0x85C0A" "0x403" i "0x40385C0A"] by (auto simp: map_pages_nth)
  have "mmu_regionMap regionDev t = map_pages 0x44080C16 0x440 960 t"
    by (simp add: mmu_regionMap_def regionDev_def Let_def)
  then show "mmu_regionMap regionDev t i = (if 0x440 \<le> i \<and> i < 0x800 then section_entry 0x80C16 i else t i)"
    using page_entry [of "0x80C16" "0x440" i "0x44080C16"] by (simp add: map_pages_nth)
  have "mmu_regionMap regionROM t = map_pages 0x00085C0A 0 1 t"
    by (simp add: mmu_regionMap_def regionROM_def MMU_MEMTYPE_NORMAL_NON_SHAREABLE_def Let_def)
  then show "mmu_regionMap regionROM t i = (if i = 0 then section_entry 0x85C0A i else t i)"
    using page_entry [of "0x85C0A" 0 i "0x85C0A"] by (auto simp: map_pages_nth)
qed

text \<open>The attributes of the sections that are mapped: normal memory, device memory that is not executed.\<close>

definition section_attr :: "nat \<Rightarrow> DWORD option" where
  "section_attr i =
     (if i = 0 \<or> i = 0x403 \<or> 0x800 \<le> i \<and> i < 0xA00 then Some 0x85C0A
      else if 0x440 \<le> i \<and> i < 0x800 then Some 0x80C16 else None)"

lemma init_table:
  "i < 4096 \<Longrightarrow> pageTable (mmu_init table s) i = (case section_attr i of None \<Rightarrow> 0 | Some a \<Rightarrow> section_entry a i)"
  by (simp add: mmu_init_def Let_def region_tables reset_nth section_attr_def CP15TlbInvalidate_def
      CP15DomainAccessClientSet_def CP15ControlFeatureDisable_def CP15TtbCtlTtb0Config_def CP15Ttb0Set_def CP15MMUEnable_def)

lemma translate_section:
  assumes t: "t (unat (drop_bit 20 va)) = section_entry a (unat (drop_bit 20 va))" and a: "a AND 0x40003 = 2" "unat a < 2 ^ 20"
  shows "translate t va = Some (va, a)"
proof -
  have m: "(0xFFFFF :: DWORD) = mask 20" "(0xFFF00000 :: DWORD) = NOT (mask 20)" by (simp_all add: mask_eq_exp_minus_1)
  have b: "bit a n \<Longrightarrow> n < 20" for n using bits_below [OF a(2)] .
  have e: "section_entry a (unat (drop_bit 20 va)) = push_bit 20 (drop_bit 20 va) OR a" by (simp add: section_entry_def)
  have c: "bit (0x40003 :: DWORD) n \<Longrightarrow> n < 20" for n using bits_below [of "0x40003" 20 n] by simp
  have kind: "(push_bit 20 (drop_bit 20 va) OR a) AND 0x40003 = a AND 0x40003"
    by (rule bit_word_eqI) (use c in \<open>force simp: bit_and_iff bit_or_iff bit_push_bit_iff\<close>)
  have addr: "((push_bit 20 (drop_bit 20 va) OR a) AND NOT (mask 20)) OR (va AND mask 20) = va"
    by (rule bit_word_eqI) (use b in \<open>auto simp: bit_simps dest: bit_imp_le_length\<close>)
  have attr: "(push_bit 20 (drop_bit 20 va) OR a) AND mask 20 = a"
    by (rule bit_word_eqI) (use b in \<open>auto simp: bit_simps dest: bit_imp_le_length\<close>)
  show ?thesis unfolding translate_def Let_def t e kind a(1) m addr attr by simp
qed

text \<open>C12: after mmu_init the unit translates every address of the four regions to itself, with the attributes
  of its region, and every other address faults, whatever the table held before.\<close>
theorem mmu_flat_map:
  "translate (pageTable (mmu_init table s)) va =
    (case section_attr (unat (drop_bit 20 va)) of None \<Rightarrow> None | Some a \<Rightarrow> Some (va, a))"
proof -
  let ?i = "unat (drop_bit 20 va)"
  have "unat va < 2 ^ LENGTH(32)" by (rule unsigned_less)
  then have i: "?i < 4096" by (simp only: unat_drop_bit_eq) (simp add: drop_bit_eq_div less_mult_imp_div_less)
  show ?thesis
  proof (cases "section_attr ?i")
    case None
    then show ?thesis using init_table [OF i] by (simp add: translate_def)
  next
    case (Some a)
    then have "a = 0x85C0A \<or> a = 0x80C16" by (auto simp: section_attr_def split: if_splits)
    then have "a AND 0x40003 = 2" "unat a < 2 ^ 20" by auto
    then show ?thesis using init_table [OF i] Some translate_section [of "pageTable (mmu_init table s)" va a] by simp
  qed
qed

text \<open>the loop of mmu_init that resets the table runs from 4096 down to 1: it clears the word behind the
  table and leaves the first entry to the mapping of the ROM region.\<close>
theorem mmu_reset_overruns:
  "pageTable (mmu_init table s) 4096 = 0 \<and> reset_table 4096 t 0 = t 0"
  by (simp_all add: mmu_init_def Let_def region_tables reset_nth CP15TlbInvalidate_def
      CP15DomainAccessClientSet_def CP15ControlFeatureDisable_def CP15TtbCtlTtb0Config_def CP15Ttb0Set_def CP15MMUEnable_def)

end
