(* ===== verification/Console.thy ===== *)
theory Console
  imports FfEdit FfRead Libc
begin

unbundle bit_operations_syntax

text \<open>
  The console, \<^verbatim>\<open>drivers_C/con_uif.c\<close>: the line editor, the command line parser, the commands on files
  and directories; with the commands of \<^verbatim>\<open>lwip/apps/udp_raw/udp_apps.c\<close> that are in its table.  The command line
  buffer is a list of 512 bytes the parser writes into, and the static \<^verbatim>\<open>argv\<close> holds offsets into it; the
  path buffers of 512 bytes are the strings they hold.  Output is the list of bytes sent.  A
  command is \<open>None\<close> when it follows a null pointer, writes outside of a buffer or does not return.  The
  packet buffers and the UDP layer are the argument \<open>net_ops\<close> over a state of their own.
\<close>

section \<open>State\<close>

text \<open>The packet layer: \<^verbatim>\<open>pbuf_alloc\<close> with the bytes there are at the payload, \<^verbatim>\<open>udp_send\<close> of a payload, \<^verbatim>\<open>lwip_strerr\<close>.\<close>

record 'n net_ops =
  pbuf_alloc :: "nat \<Rightarrow> 'n \<Rightarrow> nat option \<times> 'n"
  udp_send :: "BYTE list \<Rightarrow> 'n \<Rightarrow> int \<times> 'n"
  lwip_strerr :: "int \<Rightarrow> BYTE list"

record 'n console =
  fat :: fsys
  CwdBuf :: "BYTE list"
  WrBufPath :: "BYTE list"
  TmpBufPath :: "BYTE list"
  CmdBuf :: "BYTE list"
  CmdBufIdx :: BYTE
  argv :: "nat option list"
  DirObject :: DIR
  FileInfoObject :: FILINFO
  FileObject :: FIL
  fileObjectWrite :: FIL
  net :: 'n
  udp_fo :: FIL
  fr_udp_log :: FRESULT
  udplogflag :: DWORD
  udp_buf :: "nat \<Rightarrow> BYTE"
  pkt_len :: WORD
  udp_rx_count :: DWORD
  wild :: "(DWORD \<times> BYTE) list"   \<comment> \<open>writes to addresses outside of the state\<close>
  outp :: "BYTE list"

definition ascii :: "string \<Rightarrow> BYTE list" where "ascii = map of_char"

definition crlf :: "BYTE list" where "crlf = [0x0A, 0x0D]"

definition print :: "BYTE list \<Rightarrow> 'n console \<Rightarrow> 'n console" where
  "print bs st = st\<lparr>outp := outp st @ bs\<rparr>"

text \<open>The string an offset into the command buffer points to, and the string of an argument.\<close>

definition str_at :: "BYTE list \<Rightarrow> nat \<Rightarrow> BYTE list" where
  "str_at buf i = takeWhile (\<lambda>c. c \<noteq> 0) (drop i buf)"

definition arg :: "nat \<Rightarrow> 'n console \<Rightarrow> BYTE list option" where
  "arg k st = map_option (str_at (CmdBuf st)) (argv st ! k)"

section \<open>Result codes\<close>

fun code :: "FRESULT \<Rightarrow> int" where
  "code FR_OK = 0" | "code FR_NOT_READY = 1" | "code FR_NO_FILE = 2" | "code FR_NO_PATH = 3"
| "code FR_INVALID_NAME = 4" | "code FR_INVALID_DRIVE = 5" | "code FR_DENIED = 6" | "code FR_EXIST = 7"
| "code FR_RW_ERROR = 8" | "code FR_WRITE_PROTECTED = 9" | "code FR_NOT_ENABLED = 10"
| "code FR_NO_FILESYSTEM = 11" | "code FR_INVALID_OBJECT = 12" | "code FR_MKFS_ABORTED = 13"

definition FResultStrings :: "(int \<times> string) list" where
  "FResultStrings = [(code FR_OK, ''FR_OK''), (code FR_NOT_READY, ''FR_NOT_READY''), (code FR_NO_FILE, ''FR_NO_FILE''),
     (code FR_NO_PATH, ''FR_NO_PATH''), (code FR_INVALID_NAME, ''FR_INVALID_NAME''),
     (code FR_INVALID_DRIVE, ''FR_INVALID_DRIVE''), (code FR_DENIED, ''FR_DENIED''), (code FR_EXIST, ''FR_EXIST''),
     (code FR_RW_ERROR, ''FR_RW_ERROR''), (code FR_WRITE_PROTECTED, ''FR_WRITE_PROTECTED''),
     (code FR_NOT_ENABLED, ''FR_NOT_ENABLED''), (code FR_NO_FILESYSTEM, ''FR_NO_FILESYSTEM''),
     (code FR_INVALID_OBJECT, ''FR_INVALID_OBJECT''), (code FR_MKFS_ABORTED, ''FR_MKFS_ABORTED'')]"

definition StringFromFresult :: "int \<Rightarrow> BYTE list" where
  "StringFromFresult fresult =
     (case map_of FResultStrings fresult of Some s \<Rightarrow> ascii s | None \<Rightarrow> ascii ''UNKNOWN ERROR CODE'')"

section \<open>Paths\<close>

text \<open>\<^verbatim>\<open>strcpy(TmpBufPath, CwdBuf)\<close>, a separator unless at the root, \<^verbatim>\<open>strcat(TmpBufPath, argv[1])\<close>.\<close>

definition under_cwd :: "BYTE list \<Rightarrow> BYTE list \<Rightarrow> BYTE list" where
  "under_cwd cwd a = (if cwd \<noteq> [0x2F] then cwd @ [0x2F] else cwd) @ a"

definition too_long :: "BYTE list \<Rightarrow> BYTE list \<Rightarrow> bool" where
  "too_long cwd a \<longleftrightarrow> length cwd + length a + 2 > 512"

section \<open>rm\<close>

definition rm_unlink :: "'n console \<Rightarrow> (int \<times> 'n console) option" where
  "rm_unlink st = Option.bind (f_unlink (TmpBufPath st) (fat st)) (\<lambda>(res, _, s).
     let st = st\<lparr>fat := s\<rparr> in
     if res \<noteq> FR_OK then Some (code res, print (ascii ''rm: '' @ CwdBuf st @ crlf) st) else Some (0, st))"

definition Cmd_rm :: "int \<Rightarrow> 'n console \<Rightarrow> (int \<times> 'n console) option" where
  "Cmd_rm argc st = Option.bind (arg 1 st) (\<lambda>a.
     if char_at a 0 = 0x2F then
       if length a + 1 > 512 then Some (0, print (ascii ''Resulting path name too long'' @ crlf) st)
       else if length (CwdBuf st) \<ge> length a \<and> take (length a) (CwdBuf st) = a \<and>
               (char_at (CwdBuf st) (length a) = 0x2F \<or> char_at (CwdBuf st) (length a) = 0)
       then Some (0, print (ascii ''Cannot delete parent directory '' @ crlf) st)
       else rm_unlink (st\<lparr>TmpBufPath := a\<rparr>)
     else if too_long (CwdBuf st) a
     then Some (0, print (ascii ''Resulting path name is too long'' @ crlf) (st\<lparr>TmpBufPath := CwdBuf st\<rparr>))
     else rm_unlink (st\<lparr>TmpBufPath := under_cwd (CwdBuf st) a\<rparr>))"

section \<open>ls\<close>

definition date_time :: "FILINFO \<Rightarrow> BYTE list" where
  "date_time fi =
     (let d = (ucast (fi_fdate fi) :: DWORD); t = (ucast (fi_ftime fi) :: DWORD)
      in print_dec (drop_bit 9 d + 1980) @ ascii ''/'' @ print_dec (drop_bit 5 d AND 15) @ ascii ''/'' @ print_dec (d AND 31)
         @ ascii '' '' @ print_dec (drop_bit 11 t) @ ascii '':'' @ print_dec (drop_bit 5 t AND 63) @ ascii '':''
         @ print_dec (push_bit 1 (t AND 31)) @ ascii ''    '')"

definition ls_line :: "FILINFO \<Rightarrow> BYTE list" where
  "ls_line fi =
     fi_fname fi @ replicate (unat (16 - of_nat (length (fi_fname fi)) :: DWORD) + 1) 0x20 @ date_time fi
     @ (if fi_fattrib fi AND 0x10 = 0x10 then ascii ''dir'' @ crlf else print_dec (fi_fsize fi) @ ascii '' bytes'' @ crlf)"

partial_function (option) ls_loop :: "'n console \<Rightarrow> (int \<times> 'n console) option" where
  "ls_loop st = Option.bind (f_readdir (DirObject st) (FileInfoObject st) (fat st)) (\<lambda>(res, fi, d, s).
     let st = st\<lparr>FileInfoObject := fi, DirObject := d, fat := s\<rparr> in
     if res \<noteq> FR_OK then Some (code res, st)
     else if fi_fname fi = [] then Some (0, st)
     else ls_loop (print (ls_line fi) st))"

definition Cmd_ls :: "int \<Rightarrow> 'n console \<Rightarrow> (int \<times> 'n console) option" where
  "Cmd_ls argc st = Option.bind (f_opendir (DirObject st) (CwdBuf st) (fat st)) (\<lambda>(res, d, s).
     let st = st\<lparr>DirObject := d, fat := s\<rparr> in if res \<noteq> FR_OK then Some (code res, st) else ls_loop st)"

section \<open>mkdir, cd and pwd\<close>

definition Cmd_mkdir :: "int \<Rightarrow> 'n console \<Rightarrow> (int \<times> 'n console) option" where
  "Cmd_mkdir argc st = Option.bind (arg 1 st) (\<lambda>a.
     let too = (if char_at a 0 = 0x2F then length a + 1 > 512 else too_long (CwdBuf st) a);
         st = (if char_at a 0 = 0x2F then (if too then st else st\<lparr>TmpBufPath := a\<rparr>)
               else st\<lparr>TmpBufPath := if too then CwdBuf st else under_cwd (CwdBuf st) a\<rparr>)
     in if too then Some (0, print (ascii ''Resulting path name is too long'' @ crlf) st)
        else Option.bind (f_mkdir (TmpBufPath st) (fat st)) (\<lambda>(res, _, s).
          let st = st\<lparr>fat := s\<rparr> in
          if res \<noteq> FR_OK then Some (code res, print (ascii ''mkdir: '' @ TmpBufPath st @ crlf) st) else Some (0, st)))"

text \<open>The index \<^verbatim>\<open>cd ..\<close> ends the path at; in an empty path it starts outside of the buffer.\<close>

fun back_up :: "BYTE list \<Rightarrow> nat \<Rightarrow> nat" where
  "back_up p uIdx = (if p ! uIdx \<noteq> 0x2F \<and> uIdx > 1 then back_up p (uIdx - 1) else uIdx)"

declare back_up.simps [simp del]

definition cd_up :: "BYTE list \<Rightarrow> BYTE list option" where
  "cd_up p = (if p = [] then None else Some (take (back_up p (length p - 1)) p))"

definition cd_open :: "'n console \<Rightarrow> (int \<times> 'n console) option" where
  "cd_open st = Option.bind (f_opendir (DirObject st) (TmpBufPath st) (fat st)) (\<lambda>(res, d, s).
     let st = st\<lparr>DirObject := d, fat := s\<rparr> in
     if res \<noteq> FR_OK then Some (code res, print (ascii ''cd: '' @ TmpBufPath st @ crlf) st)
     else Some (0, st\<lparr>CwdBuf := TmpBufPath st\<rparr>))"

definition Cmd_cd :: "int \<Rightarrow> 'n console \<Rightarrow> (int \<times> 'n console) option" where
  "Cmd_cd argc st =
     (let st = st\<lparr>TmpBufPath := CwdBuf st\<rparr> in Option.bind (arg 1 st) (\<lambda>a.
      if char_at a 0 = 0x2F then
        if length a + 1 > 512 then Some (0, print (ascii ''Resulting path name is too long'' @ crlf) st)
        else cd_open (st\<lparr>TmpBufPath := a\<rparr>)
      else if a = ascii ''..'' then Option.bind (cd_up (TmpBufPath st)) (\<lambda>p. cd_open (st\<lparr>TmpBufPath := p\<rparr>))
      else if too_long (TmpBufPath st) a then Some (0, print (ascii ''Resulting path name is too long'' @ crlf) st)
      else cd_open (st\<lparr>TmpBufPath := under_cwd (TmpBufPath st) a\<rparr>)))"

definition Cmd_pwd :: "int \<Rightarrow> 'n console \<Rightarrow> (int \<times> 'n console) option" where
  "Cmd_pwd argc st = Some (0, print (CwdBuf st @ crlf) st)"

section \<open>cat\<close>

text \<open>The loop that reads the file in pieces of 65535 bytes; what is printed ends at the first zero.\<close>

partial_function (option) cat_loop :: "bool \<Rightarrow> 'n console \<Rightarrow> (int \<times> bool \<times> 'n console) option" where
  "cat_loop flagWrite st = Option.bind (f_read (FileObject st) 0xFFFF (fat st)) (\<lambda>(res, buf, fp, s).
     let st = st\<lparr>FileObject := fp, fat := s\<rparr> in
     if res \<noteq> FR_OK then Some (code res, True, st)
     else if flagWrite then
       Option.bind (f_write (fileObjectWrite st) buf (of_nat (length buf)) (fat st)) (\<lambda>(res, bw, fp, s).
         let st = st\<lparr>fileObjectWrite := fp, fat := s\<rparr> in
         if res \<noteq> FR_OK then Some (code res, True, st)
         else if length buf = 0xFFFF then cat_loop flagWrite st else Some (0, False, st))
     else
       let st = print (takeWhile (\<lambda>c. c \<noteq> 0) buf) st in
       if length buf = 0xFFFF then cat_loop flagWrite st else Some (0, False, st))"

definition cat_close :: "bool \<Rightarrow> 'n console \<Rightarrow> int \<times> 'n console" where
  "cat_close flagWrite st =
     (case f_close (FileObject st) (fat st) of (res, fp, s) \<Rightarrow>
      let st = st\<lparr>FileObject := fp, fat := s\<rparr> in
      if res \<noteq> FR_OK then (code res, print crlf st)
      else if flagWrite then
        (case f_close (fileObjectWrite st) (fat st) of (res, fp, s) \<Rightarrow>
         let st = st\<lparr>fileObjectWrite := fp, fat := s\<rparr> in
         if res \<noteq> FR_OK then (code res, print crlf st) else (0, st))
      else (0, st))"

text \<open>Opening the files, copying or printing, and closing.\<close>

definition cat_output :: "'n console \<Rightarrow> (FRESULT \<times> 'n console) option" where
  "cat_output st = Option.bind (arg 3 st) (\<lambda>c.
     if length (WrBufPath st) + length c \<ge> 512 then None
     else let st = st\<lparr>WrBufPath := WrBufPath st @ c\<rparr> in
       Option.bind (f_open (fileObjectWrite st) (WrBufPath st) (FA_WRITE OR FA_OPEN_ALWAYS) (fat st)) (\<lambda>(resW, fp, s).
         Some (resW, st\<lparr>fileObjectWrite := fp, fat := s\<rparr>)))"

definition cat_files :: "bool \<Rightarrow> BYTE list \<Rightarrow> 'n console \<Rightarrow> (int \<times> 'n console) option" where
  "cat_files flagWrite a st =
     (let st = st\<lparr>TmpBufPath := TmpBufPath st @ a\<rparr> in
      Option.bind (f_open (FileObject st) (TmpBufPath st) FA_READ (fat st)) (\<lambda>(resR, fp, s).
      let st = st\<lparr>FileObject := fp, fat := s\<rparr> in
      Option.bind (if flagWrite then cat_output st else Some (FR_OK, st)) (\<lambda>(resW, st).
        if resR \<noteq> FR_OK then Some (code resR, st)
        else if resW \<noteq> FR_OK then Some (code resW, st)
        else Option.bind (cat_loop flagWrite st) (\<lambda>(r, stop, st).
          if stop then Some (r, st) else Some (cat_close flagWrite st)))))"

text \<open>
  With the name \<^verbatim>\<open>dev.UART\<close> the count of bytes received is still 0 when it is checked, so that what follows
  the check is never run.
\<close>

definition Cmd_cat :: "int \<Rightarrow> 'n console \<Rightarrow> (int \<times> 'n console) option" where
  "Cmd_cat argc st = Option.bind (arg 1 st) (\<lambda>a.
     if too_long (CwdBuf st) a then Some (0, print (ascii ''Resulting path name is too long'' @ crlf) st)
     else
       let st = st\<lparr>TmpBufPath := CwdBuf st @ (if CwdBuf st \<noteq> [0x2F] then [0x2F] else [])\<rparr> in
       Option.bind (if argc \<ge> 4 then arg 2 st else Some (WrBufPath st)) (\<lambda>w.
       let st = st\<lparr>WrBufPath := w\<rparr>; flagWrite = (WrBufPath st = [0x3E]);
           st = (if flagWrite then st\<lparr>WrBufPath := TmpBufPath st\<rparr> else st) in
       if a = ascii ''dev.UART'' then
         Some (0, print (crlf @ ascii ''Xmodem receive error'' @ crlf)
           (print (crlf @ ascii ''Please provide text file (Max of '' @ print_dec 64 @ ascii '' Kbytes):'' @ crlf) st))
       else cat_files flagWrite a st))"

section \<open>Commands of the UDP application\<close>

text \<open>\<^verbatim>\<open>Cmd_udptx\<close> of the text its second argument points to.  \<^verbatim>\<open>strcpy\<close> copies the whole text with its
  terminator, whatever length was asked for.\<close>

definition send_text :: "'n net_ops \<Rightarrow> int \<Rightarrow> BYTE list \<Rightarrow> 'n console \<Rightarrow> (int \<times> 'n console) option" where
  "send_text N argc a st =
    (if argc < 2 \<or> a = [] then Some (0, print (ascii ''No data to send'' @ [0x0D, 0x0A]) st)
     else let tot_len = min (length a) 256 in
       case pbuf_alloc N tot_len (net st) of
         (None, n) \<Rightarrow> None
       | (Some room, n) \<Rightarrow>
           if room < length a + 1 then None
           else
             let st = print (ascii ''Tx payload >'' @ a @ ascii ''< len='' @ print_dec (of_nat tot_len) @ [0x0D, 0x0A]) st
             in case udp_send N (take tot_len a) n of (err, n) \<Rightarrow>
               let st = st\<lparr>net := n\<rparr>
               in Some (0, if err \<noteq> 0 then print (ascii ''udp_write error: '' @ lwip_strerr N err @ [0x0D, 0x0A]) st else st))"

definition Cmd_udptx :: "'n net_ops \<Rightarrow> int \<Rightarrow> 'n console \<Rightarrow> (int \<times> 'n console) option" where
  "Cmd_udptx N argc st = Option.bind (arg 1 st) (\<lambda>a. send_text N argc a st)"

definition Cmd_udplog :: "int \<Rightarrow> 'n console \<Rightarrow> (int \<times> 'n console) option" where
  "Cmd_udplog argc st =
     (if udplogflag st \<noteq> 0 then Some (0, st)
      else Option.bind (arg 1 st) (\<lambda>a.
        Option.bind (f_open (udp_fo st) (ascii ''/udplogs/'' @ a) (FA_WRITE OR FA_CREATE_ALWAYS) (fat st)) (\<lambda>(res, fp, s).
          Some (0, st\<lparr>udp_fo := fp, fat := s, fr_udp_log := res, udplogflag := if res = FR_OK then 1 else 0\<rparr>))))"

definition Cmd_udplog0 :: "int \<Rightarrow> 'n console \<Rightarrow> (int \<times> 'n console) option" where
  "Cmd_udplog0 argc st =
     (if udplogflag st \<noteq> 0
      then (case f_close (udp_fo st) (fat st) of (res, fp, s) \<Rightarrow> Some (0, st\<lparr>udp_fo := fp, fat := s, udplogflag := 0\<rparr>))
      else Some (0, st))"

text \<open>A packet of \<open>tot\<close> bytes has come; \<open>payload\<close> is the memory from the payload of its first buffer on.\<close>

definition udp_incoming :: "(nat \<Rightarrow> BYTE) \<Rightarrow> WORD \<Rightarrow> 'n console \<Rightarrow> 'n console" where
  "udp_incoming payload tot st =
     st\<lparr>pkt_len := tot, udp_buf := \<lambda>i. if i < unat tot then payload i else if i = unat tot then 0 else udp_buf st i,
       udp_rx_count := udp_rx_count st + 1\<rparr>"

definition udp_text :: "(nat \<Rightarrow> BYTE) \<Rightarrow> nat \<Rightarrow> BYTE list" where
  "udp_text b n = takeWhile (\<lambda>c. c \<noteq> 0) (map b [0..<n])"

text \<open>The buffer has a zero at \<^verbatim>\<open>pkt_len\<close>; the length written is \<^verbatim>\<open>pkt_len+1\<close> as 16 bits.\<close>

definition udp_rx_process :: "'n console \<Rightarrow> 'n console option" where
  "udp_rx_process st =
     (let st = print (ascii ''packet#'' @ print_dec (udp_rx_count st) @ ascii '' contents>'' @ udp_text (udp_buf st) (unat (pkt_len st))
            @ ascii ''<'' @ print_dec (ucast (pkt_len st)) @ ascii '' bytes'' @ [0x0D, 0x0A]) st in
      if udplogflag st = 0 then Some st
      else
        let st = st\<lparr>udp_buf := (udp_buf st)(unat (pkt_len st) := 0x0A)\<rparr> in
        Option.bind (f_write (udp_fo st) (map (udp_buf st) [0..<unat (pkt_len st + 1)]) (pkt_len st + 1) (fat st)) (\<lambda>(res, bw, fp, s).
          let st = st\<lparr>udp_fo := fp, fat := s, fr_udp_log := res\<rparr>;
              st = (if res \<noteq> FR_OK \<or> bw < pkt_len st then print (ascii ''log write error'' @ [0x0D, 0x0A]) st else st)
          in case f_sync (udp_fo st) (fat st) of (res, fp, s) \<Rightarrow>
            let st = st\<lparr>udp_fo := fp, fat := s, fr_udp_log := res\<rparr>
            in Some (if res \<noteq> FR_OK then print (ascii ''log sync error'' @ [0x0D, 0x0A]) st else st)))"

section \<open>The command table\<close>

datatype command = Help | Ls | Cd | Mkdir | Pwd | Cat | Rm | Udptx | Udplog | Udplog0

definition HELP_CAT :: "BYTE list" where
  "HELP_CAT = ascii ''      : Show contents of a text file : cat <FILENAME> '' @ crlf
     @ ascii ''           Write to a file : cat <INPUTFILE> > <OUTPUTFILE>''"

definition CmdTable :: "(BYTE list \<times> command \<times> BYTE list) list" where
  "CmdTable =
     [(ascii ''help'', Help, ascii ''     : Display list of commands''),
      (ascii ''h'', Help, ascii ''        : alias for help''),
      (ascii ''?'', Help, ascii ''        : alias for help''),
      (ascii ''ls'', Ls, ascii ''       : Display list of files''),
      (ascii ''chdir'', Cd, ascii ''    : Change directory''),
      (ascii ''mkdir'', Mkdir, ascii ''    : Create directory''),
      (ascii ''cd'', Cd, ascii ''       : alias for chdir''),
      (ascii ''pwd'', Pwd, ascii ''      : Show current working directory''),
      (ascii ''cat'', Cat, HELP_CAT),
      (ascii ''rm'', Rm, ascii ''       : Delete a file or an empty directory''),
      (ascii ''udptx'', Udptx, ascii ''    : Xmit a char string by UDP''),
      (ascii ''udplog'', Udplog, ascii ''   : log incoming UDP packets''),
      (ascii ''udplog0'', Udplog0, ascii ''  : stop udplog and close file'')]"

definition Cmd_help :: "int \<Rightarrow> 'n console \<Rightarrow> (int \<times> 'n console) option" where
  "Cmd_help argc st =
     (let st = print (ascii ''Command list'' @ crlf @ ascii ''------------'' @ crlf) st
      in Some (0, fold (\<lambda>(name, f, help). print (name @ help @ crlf)) CmdTable st))"

fun run :: "'n net_ops \<Rightarrow> command \<Rightarrow> int \<Rightarrow> 'n console \<Rightarrow> (int \<times> 'n console) option" where
  "run N Help = Cmd_help" | "run N Ls = Cmd_ls" | "run N Cd = Cmd_cd" | "run N Mkdir = Cmd_mkdir" | "run N Pwd = Cmd_pwd"
| "run N Cat = Cmd_cat" | "run N Rm = Cmd_rm" | "run N Udptx = Cmd_udptx N" | "run N Udplog = Cmd_udplog"
| "run N Udplog0 = Cmd_udplog0"

section \<open>The parser\<close>

text \<open>A write to an element of an array: \<open>None\<close> when it would fall outside of the array.\<close>

definition put_at :: "'a list \<Rightarrow> nat \<Rightarrow> 'a \<Rightarrow> 'a list option" where
  "put_at xs i x = (if i < length xs then Some (xs[i := x]) else None)"

text \<open>
  The loop over the command line: the position, what is left of the line from there (without its end), the
  count of arguments and whether the next one is looked for.  The inner \<open>None\<close> is the return for too many
  arguments, the outer one a write outside of the line buffer or the argument vector.
\<close>

fun scan_args ::
    "BYTE list \<Rightarrow> nat \<Rightarrow> nat \<Rightarrow> bool \<Rightarrow> BYTE list \<times> nat option list \<Rightarrow> (nat option \<times> BYTE list \<times> nat option list) option" where
  "scan_args [] pos argc bFindArg (buf, av) = Some (Some argc, buf, av)"
| "scan_args (c # cs) pos argc bFindArg (buf, av) =
     (if c = 0x20 then Option.bind (put_at buf pos 0) (\<lambda>buf. scan_args cs (Suc pos) argc True (buf, av))
      else if bFindArg then
        (if argc < 8
         then Option.bind (put_at av argc (Some pos)) (\<lambda>av. scan_args cs (Suc pos) (Suc argc) False (buf, av))
         else Some (None, buf, av))
      else scan_args cs (Suc pos) argc False (buf, av))"

definition CMDLINE_BAD_CMD :: int where "CMDLINE_BAD_CMD = -1"
definition CMDLINE_TOO_MANY_ARGS :: int where "CMDLINE_TOO_MANY_ARGS = -2"

definition CmdLineParse :: "'n net_ops \<Rightarrow> 'n console \<Rightarrow> (int \<times> 'n console) option" where
  "CmdLineParse N st =
     Option.bind (scan_args (str_at (CmdBuf st) 0) 0 0 True (CmdBuf st, argv st)) (\<lambda>(argc, buf, av).
      let st = st\<lparr>CmdBuf := buf, argv := av\<rparr> in
      case argc of
        None \<Rightarrow> Some (CMDLINE_TOO_MANY_ARGS, st)
      | Some argc \<Rightarrow>
          if argc \<noteq> 0 then Option.bind (arg 0 st) (\<lambda>name.
            case map_of CmdTable name of
              Some (f, help) \<Rightarrow> run N f (int argc) st
            | None \<Rightarrow> Some (CMDLINE_BAD_CMD, st))
          else Some (CMDLINE_BAD_CMD, st))"

section \<open>Lines\<close>

definition CmdLineProcess :: "'n net_ops \<Rightarrow> 'n console \<Rightarrow> 'n console option" where
  "CmdLineProcess N st = Option.bind
     (if CmdBuf st ! 0 \<noteq> 0 then Option.bind (CmdLineParse N st) (\<lambda>(iStatus, st).
        Some (if iStatus = CMDLINE_BAD_CMD then print (ascii ''Unrecognized command'' @ crlf) st
              else if iStatus = CMDLINE_TOO_MANY_ARGS then print (ascii ''Too many arguments'' @ crlf) st
              else if iStatus \<noteq> 0 then print (ascii ''Command return error '' @ StringFromFresult iStatus @ crlf) st
              else st))
      else Some st)
     (\<lambda>st. let st = st\<lparr>CmdBuf := (CmdBuf st)[0 := 0]\<rparr>
           in Some (print (CwdBuf st @ ascii ''> '' @ str_at (CmdBuf st) 0) st))"

definition rubout :: "BYTE list" where "rubout = [0x08, 0x20, 0x08]"

fun erase :: "nat \<Rightarrow> 'n console \<Rightarrow> 'n console" where
  "erase 0 st = st"
| "erase (Suc n) st = erase n ((print rubout st)\<lparr>CmdBufIdx := CmdBufIdx st - 1\<rparr>)"

definition char_collect :: "'n net_ops \<Rightarrow> BYTE \<Rightarrow> 'n console \<Rightarrow> 'n console option" where
  "char_collect N k st =
     (if k = 0x08 \<and> CmdBufIdx st \<noteq> 0 then
        let st = (print rubout st)\<lparr>CmdBufIdx := CmdBufIdx st - 1\<rparr>
        in map_option (\<lambda>b. st\<lparr>CmdBuf := b\<rparr>) (put_at (CmdBuf st) (unat (CmdBufIdx st)) 0)
      else if k = 0x0D \<or> k = 0x0A then Option.bind (CmdLineProcess N (print crlf st)) (\<lambda>st.
        Some (st\<lparr>CmdBufIdx := 0, CmdBuf := (CmdBuf st)[0 := 0]\<rparr>))
      else if k = 0x1B \<or> k = 0x15 then
        let st = erase (unat (CmdBufIdx st)) st in Some (st\<lparr>CmdBuf := (CmdBuf st)[0 := 0]\<rparr>)
      else if k \<ge> 0x20 \<and> k \<le> 0x7E \<and> int (unat (CmdBufIdx st)) < 512 - 1 then
        Option.bind (put_at (CmdBuf st) (unat (CmdBufIdx st)) k) (\<lambda>b.
          let st = st\<lparr>CmdBuf := b, CmdBufIdx := CmdBufIdx st + 1\<rparr>
          in map_option (\<lambda>b. print [k] (st\<lparr>CmdBuf := b\<rparr>)) (put_at b (unat (CmdBufIdx st)) 0))
      else Some st)"

text \<open>
  Mounting.  \<^verbatim>\<open>mmc_api.c\<close> declares the array \<^verbatim>\<open>CwdBuf\<close> as a pointer, so that \<^verbatim>\<open>strcpy(CwdBuf, "/")\<close> writes to the
  address its first four bytes make; \<open>rest\<close> is what the array holds behind the string.
\<close>

definition cwd_pointer :: "BYTE list \<Rightarrow> BYTE list \<Rightarrow> DWORD" where
  "cwd_pointer rest cwd = (let b = (\<lambda>i. ucast ((cwd @ 0 # rest @ [0, 0, 0]) ! i) :: DWORD)
     in b 0 OR push_bit 8 (b 1) OR push_bit 16 (b 2) OR push_bit 24 (b 3))"

definition FATFsMount :: "BYTE list \<Rightarrow> BYTE \<Rightarrow> 'n console \<Rightarrow> FRESULT \<times> 'n console" where
  "FATFsMount rest driveNum st =
     (let p = cwd_pointer rest (CwdBuf st);
          st = st\<lparr>wild := wild st @ [(p, 0x2F), (p + 1, 0)], CmdBuf := (CmdBuf st)[0 := 0]\<rparr>
      in case f_mount driveNum (Some 0) (fat st) of (res, s) \<Rightarrow>
        (res, st\<lparr>fat := if driveNum = 0 then s\<lparr>mdisk := (mdisk s)\<lparr>initDone := 0\<rparr>\<rparr> else s\<rparr>))"

section \<open>What commands leave alone\<close>

text \<open>No command touches the command line, its index or the arguments; nor does printing.\<close>

definition frame :: "'n console \<Rightarrow> 'n console \<Rightarrow> bool" where
  "frame st st' \<longleftrightarrow> CmdBuf st' = CmdBuf st \<and> CmdBufIdx st' = CmdBufIdx st \<and> argv st' = argv st"

lemma frame_print [simp]: "frame st (print bs st') \<longleftrightarrow> frame st st'"
  by (simp add: frame_def print_def)

lemma frame_upd [simp]:
  "frame st (st'\<lparr>fat := f\<rparr>) = frame st st'" "frame st (st'\<lparr>CwdBuf := c\<rparr>) = frame st st'"
  "frame st (st'\<lparr>WrBufPath := c\<rparr>) = frame st st'" "frame st (st'\<lparr>TmpBufPath := c\<rparr>) = frame st st'"
  "frame st (st'\<lparr>DirObject := d\<rparr>) = frame st st'" "frame st (st'\<lparr>FileInfoObject := i\<rparr>) = frame st st'"
  "frame st (st'\<lparr>FileObject := fp\<rparr>) = frame st st'" "frame st (st'\<lparr>fileObjectWrite := fp\<rparr>) = frame st st'"
  "frame st (st'\<lparr>net := n\<rparr>) = frame st st'" "frame st (st'\<lparr>udp_fo := fp\<rparr>) = frame st st'"
  "frame st (st'\<lparr>fr_udp_log := r\<rparr>) = frame st st'" "frame st (st'\<lparr>udplogflag := g\<rparr>) = frame st st'"
  "frame (st\<lparr>TmpBufPath := c\<rparr>) st' = frame st st'" "frame (st\<lparr>WrBufPath := c\<rparr>) st' = frame st st'"
  by (simp_all add: frame_def)

lemma frame_refl [simp]: "frame st st" by (simp add: frame_def)

lemma frame_trans: "frame st st' \<Longrightarrow> frame st' st'' \<Longrightarrow> frame st st''" by (simp add: frame_def)

lemma frame_step:
  "frame (print bs st) st' = frame st st'" "frame (st\<lparr>FileInfoObject := fi, DirObject := d, fat := s\<rparr>) st' = frame st st'"
  "frame (st\<lparr>FileObject := fp, fat := s\<rparr>) st' = frame st st'" "frame (st\<lparr>fileObjectWrite := fp, fat := s\<rparr>) st' = frame st st'"
  "frame (st\<lparr>DirObject := d, fat := s\<rparr>) st' = frame st st'" "frame (st\<lparr>FileInfoObject := fi\<rparr>) st' = frame st st'"
  "frame (st\<lparr>FileObject := fp\<rparr>) st' = frame st st'" "frame (st\<lparr>fileObjectWrite := fp\<rparr>) st' = frame st st'"
  by (simp_all add: frame_def print_def)

lemma ls_loop_frame:
  assumes "ls_loop st = Some y"
  shows "frame st (snd y)"
proof (rule ls_loop.raw_induct [where P = "\<lambda>st y. frame st (snd y)", OF _ assms], goal_cases)
  case (1 loop st y)
  then show ?case
    by (auto simp: Let_def frame_step split: Option.bind_splits prod.splits if_splits dest!: 1(1))
qed

lemma cat_loop_frame:
  assumes "cat_loop w st = Some y"
  shows "frame st (snd (snd y))"
proof (rule cat_loop.raw_induct [where P = "\<lambda>w st y. frame st (snd (snd y))", OF _ assms], goal_cases)
  case (1 loop w st y)
  then show ?case
    by (auto simp: Let_def frame_step split: Option.bind_splits prod.splits if_splits dest!: 1(1))
qed

lemma cat_close_frame: "cat_close w st = (r, st') \<Longrightarrow> frame st st'"
  by (auto simp: cat_close_def Let_def split: prod.splits if_splits)

lemma rm_frame: "Cmd_rm n st = Some (r, st') \<Longrightarrow> frame st st'"
  by (auto simp: Cmd_rm_def rm_unlink_def Let_def split: Option.bind_splits prod.splits if_splits)

lemma ls_frame: "Cmd_ls n st = Some (r, st') \<Longrightarrow> frame st st'"
  by (auto simp: Cmd_ls_def Let_def frame_step split: Option.bind_splits prod.splits if_splits dest!: ls_loop_frame)

lemma mkdir_frame: "Cmd_mkdir n st = Some (r, st') \<Longrightarrow> frame st st'"
  by (auto simp: Cmd_mkdir_def Let_def split: Option.bind_splits prod.splits if_splits)

lemma cd_frame: "Cmd_cd n st = Some (r, st') \<Longrightarrow> frame st st'"
  by (auto simp: Cmd_cd_def cd_open_def Let_def split: Option.bind_splits prod.splits if_splits)

lemma cat_output_frame: "cat_output st = Some (r, st') \<Longrightarrow> frame st st'"
  by (auto simp: cat_output_def Let_def split: Option.bind_splits prod.splits if_splits)

lemma cat_files_frame: "cat_files w a st = Some (r, st') \<Longrightarrow> frame st st'"
  by (auto simp: cat_files_def Let_def frame_step split: Option.bind_splits prod.splits if_splits
      dest!: cat_output_frame cat_loop_frame cat_close_frame elim!: frame_trans [rotated])

lemma cat_frame: "Cmd_cat n st = Some (r, st') \<Longrightarrow> frame st st'"
  by (auto simp: Cmd_cat_def Let_def frame_step split: Option.bind_splits if_splits dest!: cat_files_frame)

lemma udp_frames:
  "Cmd_udptx N n st = Some (r, st') \<Longrightarrow> frame st st'" "Cmd_udplog n st = Some (r, st') \<Longrightarrow> frame st st'"
  "Cmd_udplog0 n st = Some (r, st') \<Longrightarrow> frame st st'"
  by (auto simp: Cmd_udptx_def send_text_def Cmd_udplog_def Cmd_udplog0_def Let_def
      split: Option.bind_splits prod.splits if_splits option.splits)

lemma help_frame: "Cmd_help n st = Some (r, st') \<Longrightarrow> frame st st'"
proof -
  have "frame st0 (fold (\<lambda>(name, f, help). print (name @ help @ crlf)) t st0)" for t :: "(BYTE list \<times> command \<times> BYTE list) list" and st0 :: "'a console"
  proof (induction t arbitrary: st0)
    case (Cons e t)
    show ?case using Cons.IH [of "(case e of (name, f, help) \<Rightarrow> print (name @ help @ crlf)) st0"]
      by (cases e) (simp add: frame_step)
  qed simp
  from this [of "print b st" for b] have "frame st (fold (\<lambda>(name, f, help). print (name @ help @ crlf)) CmdTable (print b st))" for b
    by (simp only: frame_step(1))
  then show "Cmd_help n st = Some (r, st') \<Longrightarrow> frame st st'"
    by (auto simp: Cmd_help_def Let_def)
qed

lemma run_frame: "run N f n st = Some (r, st') \<Longrightarrow> frame st st'"
  by (cases f) (auto simp: Cmd_pwd_def dest: rm_frame ls_frame mkdir_frame cd_frame cat_frame udp_frames help_frame)

end
