(* ===== verification/ConsoleLine.thy ===== *)
theory ConsoleLine
  imports Console
begin

unbundle bit_operations_syntax

text \<open>
  Properties of the console: the line editor refines a one-line specification, the parser finds the words of
  the line, no command loses the shape of the state, and what the commands do with paths.
\<close>

section \<open>The line editor\<close>

text \<open>The state: the index is at the end of the text, which is printable, and what arguments point to is terminated.\<close>

definition typed :: "'n console \<Rightarrow> BYTE list" where
  "typed st = take (unat (CmdBufIdx st)) (CmdBuf st)"

definition printable :: "BYTE \<Rightarrow> bool" where "printable c \<longleftrightarrow> 0x20 \<le> c \<and> c \<le> 0x7E"

definition console_ok :: "'n console \<Rightarrow> bool" where
  "console_ok st \<longleftrightarrow> length (CmdBuf st) = 512 \<and> CmdBuf st ! unat (CmdBufIdx st) = 0 \<and> list_all printable (typed st) \<and>
     drop 256 (CmdBuf st) = replicate 256 0 \<and> length (argv st) = 9 \<and> (\<forall>i. Some i \<in> set (argv st) \<longrightarrow> i < 255)"

text \<open>What the editor is to do: the index has 8 bits, so that the 256th character empties the line.\<close>

definition edit :: "BYTE \<Rightarrow> BYTE list \<Rightarrow> BYTE list" where
  "edit k l =
     (if k = 0x08 then butlast l
      else if k = 0x1B \<or> k = 0x15 then []
      else if printable k then (if length l = 255 then [] else l @ [k]) else l)"

lemma idx_less: "unat (i :: BYTE) < 256"
proof -
  have "unat i < 2 ^ LENGTH(8)" by (rule unsigned_less)
  then show ?thesis by simp
qed

lemma idx_suc: "unat (i + 1 :: BYTE) = (if unat i = 255 then 0 else Suc (unat i))"
proof (cases "unat i = 255")
  case True
  then have "i = 255" by (simp add: word_unat_eq_iff)
  then show ?thesis by simp
next
  case False
  then have "unat i + 1 < 256" using idx_less [of i] by simp
  then show ?thesis using False by (simp add: unat_word_ariths(1))
qed

lemma erase_facts:
  "CmdBuf (erase n st) = CmdBuf st" "argv (erase n st) = argv st" "CmdBufIdx (erase n st) = CmdBufIdx st - of_nat n"
  "fat (erase n st) = fat st"
  by (induction n arbitrary: st) (simp_all add: print_def algebra_simps)

lemma print_keeps [simp]:
  "CmdBuf (print b st) = CmdBuf st" "argv (print b st) = argv st" "CmdBufIdx (print b st) = CmdBufIdx st"
  "fat (print b st) = fat st" "CwdBuf (print b st) = CwdBuf st" "TmpBufPath (print b st) = TmpBufPath st"
  "WrBufPath (print b st) = WrBufPath st"
  by (simp_all add: print_def)

lemma printable_pos: "printable c \<Longrightarrow> c \<noteq> 0"
  by (auto simp: printable_def)

lemma typed_str: "console_ok st \<Longrightarrow> str_at (CmdBuf st) 0 = typed st"
proof -
  assume ok: "console_ok st"
  let ?i = "unat (CmdBufIdx st)"
  have i: "?i < length (CmdBuf st)" using ok idx_less [of "CmdBufIdx st"] by (simp add: console_ok_def)
  have "CmdBuf st = typed st @ 0 # drop (Suc ?i) (CmdBuf st)"
    using ok id_take_nth_drop [OF i] by (simp add: console_ok_def typed_def)
  moreover have "\<forall>c \<in> set (typed st). c \<noteq> 0" using ok printable_pos by (auto simp: console_ok_def list_all_iff)
  ultimately show ?thesis by (metis (mono_tags, lifting) drop0 str_at_def takeWhile_append2 takeWhile.simps(2) append_Nil2)
qed

lemma key_step:
  assumes ok: "console_ok st" and k: "k \<noteq> 0x0D" "k \<noteq> 0x0A"
  shows "\<exists>st'. char_collect N k st = Some st' \<and> console_ok st' \<and> typed st' = edit k (typed st) \<and> argv st' = argv st \<and> fat st' = fat st"
proof -
  let ?i = "unat (CmdBufIdx st)"
  have i: "?i < 256" by (rule idx_less)
  have len: "length (CmdBuf st) = 512" "length (typed st) = ?i" using ok i by (simp_all add: console_ok_def typed_def)
  consider "k = 0x08 \<and> CmdBufIdx st \<noteq> 0" | "k = 0x1B \<or> k = 0x15" | "printable k" | "\<not> printable k" "k \<noteq> 0x1B" "k \<noteq> 0x15" "\<not> (k = 0x08 \<and> CmdBufIdx st \<noteq> 0)"
    by blast
  then show ?thesis
  proof cases
    case 1
    have u: "unat (CmdBufIdx st - 1) = ?i - 1" using 1 by (simp add: unat_minus_one)
    have "0 < ?i" using 1 by (simp add: unat_gt_0)
    then have t: "take (?i - 1) (CmdBuf st) = butlast (typed st)"
      using i len(1) by (simp add: typed_def butlast_take)
    show ?thesis using 1 ok i u t len
      by (auto simp: char_collect_def put_at_def Let_def console_ok_def typed_def edit_def nth_list_update in_set_butlastD list_all_iff)
  next
    case 2
    then show ?thesis using ok i len
      by (auto simp: char_collect_def Let_def console_ok_def typed_def edit_def erase_facts)
  next
    case 3
    then have nk: "k \<noteq> 0x08" "k \<noteq> 0x1B" "k \<noteq> 0x15" by (auto simp: printable_def)
    show ?thesis
    proof (cases "?i = 255")
      case True
      have "CmdBuf st \<noteq> []" using len(1) by auto
      then show ?thesis using True 3 nk k ok len idx_suc [of "CmdBufIdx st"]
        by (simp add: char_collect_def put_at_def Let_def console_ok_def typed_def edit_def printable_def)
    next
      case False
      then have s: "unat (CmdBufIdx st + 1) = Suc ?i" by (simp add: idx_suc)
      have "take (Suc ?i) (((CmdBuf st)[?i := k])[Suc ?i := 0]) = typed st @ [k]"
        using i len by (simp add: take_Suc_conv_app_nth typed_def)
      moreover have "int ?i < 511" using i by linarith
      ultimately show ?thesis using 3 nk k ok len s False i
        by (simp add: char_collect_def put_at_def Let_def console_ok_def typed_def edit_def printable_def)
    qed
  next
    case 4
    have e: "edit k (typed st) = typed st" using 4 len by (auto simp: edit_def)
    have "char_collect N k st = Some st" using 4 k by (auto simp: char_collect_def printable_def)
    then show ?thesis using ok e by simp
  qed
qed

section \<open>A console\<close>

text \<open>A console in the directory \<open>/a\<close>, with a line just typed and the arguments of an earlier one.\<close>

definition sample_console :: "BYTE list \<Rightarrow> BYTE list \<Rightarrow> nat option list \<Rightarrow> unit console" where
  "sample_console line rest av =
     \<lparr>fat = sample_sys, CwdBuf = ascii ''/a'', WrBufPath = [0x2F], TmpBufPath = [],
      CmdBuf = take 512 (line @ 0 # rest @ replicate 512 0), CmdBufIdx = of_nat (length line), argv = av,
      DirObject = sample_dir, FileInfoObject = \<lparr>fi_fsize = 0, fi_fdate = 0, fi_ftime = 0, fi_fattrib = 0, fi_fname = []\<rparr>,
      FileObject = sample_fil, fileObjectWrite = sample_fil, net = (), udp_fo = sample_fil, fr_udp_log = FR_NOT_READY,
      udplogflag = 0, udp_buf = \<lambda>i. 0, pkt_len = 0, udp_rx_count = 0, wild = [], outp = []\<rparr>"

definition sample_net :: "unit net_ops" where
  "sample_net = \<lparr>pbuf_alloc = \<lambda>n u. (Some (n + 4), u), udp_send = \<lambda>b u. (0, u), lwip_strerr = \<lambda>e. []\<rparr>"

abbreviation no_args :: "nat option list" where "no_args \<equiv> replicate 9 None"

lemma sample_console_ok:
  assumes "length line + length rest < 255" "list_all printable line" "length av = 9" "\<forall>i. Some i \<in> set av \<longrightarrow> i < 255"
  shows "console_ok (sample_console line rest av)" "typed (sample_console line rest av) = line"
proof -
  have u: "unat (of_nat (length line) :: BYTE) = length line" using assms(1) by (simp add: unat_of_nat take_bit_nat_eq_self)
  show t: "typed (sample_console line rest av) = line" using assms(1) u by (simp add: typed_def sample_console_def)
  have "drop 256 (take 512 (line @ 0 # rest @ replicate 512 0)) = replicate 256 0"
    using assms(1) by (simp add: drop_take drop_Cons' min_def)
  then show "console_ok (sample_console line rest av)"
    using assms t u by (simp add: console_ok_def) (simp add: sample_console_def nth_append)
qed

section \<open>The words of a line\<close>

text \<open>The reference: the longest pieces without a space.\<close>

function words :: "BYTE list \<Rightarrow> BYTE list list" where
  "words [] = []"
| "words (c # cs) = (if c = 0x20 then words cs else (c # takeWhile (\<lambda>d. d \<noteq> 0x20) cs) # words (dropWhile (\<lambda>d. d \<noteq> 0x20) cs))"
  by pat_completeness auto

termination
  by (relation "measure length") (auto simp: less_Suc_eq_le length_dropWhile_le)

text \<open>The positions at which the parser finds arguments, and the line with its spaces overwritten.\<close>

fun starts :: "BYTE list \<Rightarrow> nat \<Rightarrow> bool \<Rightarrow> nat list" where
  "starts [] p f = []"
| "starts (c # cs) p f = (if c = 0x20 then starts cs (Suc p) True else if f then p # starts cs (Suc p) False else starts cs (Suc p) False)"

definition blanked :: "BYTE list \<Rightarrow> BYTE list" where "blanked cs = map (\<lambda>c. if c = 0x20 then 0 else c) cs"

definition put_args :: "nat \<Rightarrow> nat list \<Rightarrow> nat option list \<Rightarrow> nat option list" where
  "put_args argc ps av = take argc av @ map Some ps @ drop (argc + length ps) av"

lemma put_args_step: "argc < length av \<Longrightarrow> put_args (Suc argc) ps (av[argc := Some p]) = put_args argc (p # ps) av"
  by (simp add: put_args_def take_Suc_conv_app_nth)

lemma scan_run:
  "argc + length (starts cs pos f) \<le> 8 \<Longrightarrow> length av = 9 \<Longrightarrow> pos + length cs \<le> length buf \<Longrightarrow>
   take (length cs) (drop pos buf) = cs \<Longrightarrow>
   scan_args cs pos argc f (buf, av) = Some (Some (argc + length (starts cs pos f)),
     take pos buf @ blanked cs @ drop (pos + length cs) buf, put_args argc (starts cs pos f) av)"
proof (induction cs arbitrary: pos argc f buf av)
  case Nil
  then show ?case by (simp add: put_args_def blanked_def)
next
  case (Cons c cs)
  have pos: "pos < length buf" and c: "buf ! pos = c" and cs: "take (length cs) (drop (Suc pos) buf) = cs"
    using Cons.prems(3,4) by (auto simp: Cons_nth_drop_Suc [symmetric])
  have tk: "take (Suc pos) (buf[pos := x]) = take pos buf @ [x]" for x using pos by (simp add: take_Suc_conv_app_nth)
  have tk2: "take (Suc pos) buf = take pos buf @ [c]" using pos c by (simp add: take_Suc_conv_app_nth)
  show ?case
  proof (cases "c = 0x20")
    case True
    then show ?thesis using Cons.IH [of argc "Suc pos" True av "buf[pos := 0]"] Cons.prems cs tk pos
      by (simp add: blanked_def put_at_def)
  next
    case False
    then show ?thesis
      using Cons.IH [of "Suc argc" "Suc pos" False "av[argc := Some pos]" buf] Cons.IH [of argc "Suc pos" False av buf]
        Cons.prems cs tk2 put_args_step [of argc av]
      by (auto simp: blanked_def put_at_def)
  qed
qed

lemma scan_many:
  "argc \<le> 8 \<Longrightarrow> 8 < argc + length (starts cs pos f) \<Longrightarrow> length av = 9 \<Longrightarrow> pos + length cs \<le> length buf \<Longrightarrow>
   \<exists>buf' av'. scan_args cs pos argc f (buf, av) = Some (None, buf', av')"
  by (induction cs arbitrary: pos argc f buf av) (auto simp: put_at_def)

lemma drop_while_words: "words (dropWhile (\<lambda>d. d \<noteq> 0x20) (c # cs)) = (if c = 0x20 then words cs else words (dropWhile (\<lambda>d. d \<noteq> 0x20) cs))"
  by simp

lemma starts_words:
  "drop pos line = cs \<Longrightarrow> map (\<lambda>p. takeWhile (\<lambda>c. c \<noteq> 0x20) (drop p line)) (starts cs pos f) =
    words (if f then cs else dropWhile (\<lambda>c. c \<noteq> 0x20) cs)"
proof (induction cs arbitrary: pos f)
  case (Cons c cs)
  have d: "drop (Suc pos) line = cs" using Cons.prems by (metis drop_Suc tl_drop list.sel(3))
  show ?case using Cons.IH [OF d, of True] Cons.IH [OF d, of False] Cons.prems by auto
qed simp

lemma starts_bound: "p \<in> set (starts cs pos f) \<Longrightarrow> pos \<le> p \<and> p < pos + length cs"
  by (induction cs arbitrary: pos f) (fastforce split: if_splits)+

lemma str_blanked:
  assumes "p \<le> length line" "\<forall>c \<in> set line. c \<noteq> 0" "rest \<noteq> []" "hd rest = 0"
  shows "str_at (blanked line @ rest) p = takeWhile (\<lambda>c. c \<noteq> 0x20) (drop p line)"
proof -
  have d: "drop p (blanked line @ rest) = blanked (drop p line) @ rest" using assms(1) by (simp add: blanked_def drop_map)
  have "takeWhile (\<lambda>c. c \<noteq> 0) (blanked l @ rest) = takeWhile (\<lambda>c. c \<noteq> 0x20) l" if "\<forall>c \<in> set l. c \<noteq> 0" for l
    using that
  proof (induction l)
    case Nil
    then show ?case using assms(3,4) by (cases rest) (auto simp: blanked_def)
  qed (auto simp: blanked_def)
  then show ?thesis unfolding str_at_def d using assms(2) by (auto dest: in_set_dropD)
qed

lemma parser_finds_words_aux:
  assumes "console_ok st"
  shows "case scan_args (str_at (CmdBuf st) 0) 0 0 True (CmdBuf st, argv st) of
      Some (Some argc, buf, av) \<Rightarrow> argc = length (words (typed st)) \<and>
        map (\<lambda>k. map_option (str_at buf) (av ! k)) [0..<argc] = map Some (words (typed st))
    | Some (None, buf, av) \<Rightarrow> 8 < length (words (typed st))
    | None \<Rightarrow> False"
proof -
  let ?l = "typed st"
  have str: "str_at (CmdBuf st) 0 = ?l" by (rule typed_str [OF assms])
  have sw: "map (\<lambda>p. takeWhile (\<lambda>c. c \<noteq> 0x20) (drop p ?l)) (starts ?l 0 True) = words ?l"
    using starts_words [of 0 ?l ?l True] by simp
  then have len: "length (starts ?l 0 True) = length (words ?l)" by (metis length_map)
  show ?thesis
  proof (cases "length (words ?l) \<le> 8")
    case True
    let ?n = "length (words ?l)"
    have i: "length ?l = unat (CmdBufIdx st)" "unat (CmdBufIdx st) < length (CmdBuf st)" "length (argv st) = 9"
      using assms idx_less [of "CmdBufIdx st"] by (simp_all add: typed_def console_ok_def)
    have tk: "take (length ?l) (drop 0 (CmdBuf st)) = ?l" unfolding i(1) by (simp add: typed_def)
    let ?rest = "drop (length ?l) (CmdBuf st)"
    have sc: "scan_args ?l 0 0 True (CmdBuf st, argv st) = Some (Some ?n, blanked ?l @ ?rest, put_args 0 (starts ?l 0 True) (argv st))"
      using scan_run [of 0 ?l 0 True "argv st" "CmdBuf st"] True i tk len by simp
    have r: "?rest \<noteq> []" "hd ?rest = 0" using assms i by (simp_all add: console_ok_def hd_drop_conv_nth)
    have nz: "\<forall>c \<in> set ?l. c \<noteq> 0" using assms printable_pos by (auto simp: console_ok_def list_all_iff)
    have "map (\<lambda>k. map_option (str_at (blanked ?l @ ?rest)) (put_args 0 (starts ?l 0 True) (argv st) ! k)) [0..<?n] =
        map Some (map (\<lambda>p. takeWhile (\<lambda>c. c \<noteq> 0x20) (drop p ?l)) (starts ?l 0 True))"
    proof (rule nth_equalityI)
      fix k assume "k < length (map (\<lambda>k. map_option (str_at (blanked ?l @ ?rest)) (put_args 0 (starts ?l 0 True) (argv st) ! k)) [0..<?n])"
      then have k: "k < length (starts ?l 0 True)" using len by simp
      have "starts ?l 0 True ! k \<le> length ?l" using starts_bound [OF nth_mem [OF k]] by simp
      from str_blanked [OF this nz r] show "map (\<lambda>k. map_option (str_at (blanked ?l @ ?rest)) (put_args 0 (starts ?l 0 True) (argv st) ! k)) [0..<?n] ! k =
        map Some (map (\<lambda>p. takeWhile (\<lambda>c. c \<noteq> 0x20) (drop p ?l)) (starts ?l 0 True)) ! k"
        using k len by (simp add: put_args_def nth_append)
    qed (simp add: len)
    then show ?thesis unfolding str sc sw by simp
  next
    case False
    moreover have "length ?l \<le> length (CmdBuf st)" "length (argv st) = 9"
      using assms by (simp_all add: typed_def console_ok_def)
    ultimately obtain buf av where "scan_args ?l 0 0 True (CmdBuf st, argv st) = Some (None, buf, av)"
      using scan_many [of 0 ?l 0 True "argv st" "CmdBuf st"] len by auto
    then show ?thesis unfolding str using False by simp
  qed
qed

text \<open>C4: for a line of at most eight words the parser's arguments are exactly its words, in order, as a split at
  spaces finds them; with more words it gives up; and it never writes outside of the line or the argument vector.\<close>
theorem parser_finds_words:
  assumes "console_ok st"
  shows "case scan_args (str_at (CmdBuf st) 0) 0 0 True (CmdBuf st, argv st) of
      Some (Some argc, buf, av) \<Rightarrow> argc = length (words (typed st)) \<and>
        map (\<lambda>k. map_option (str_at buf) (av ! k)) [0..<argc] = map Some (words (typed st))
    | Some (None, buf, av) \<Rightarrow> 8 < length (words (typed st))
    | None \<Rightarrow> False"
  using parser_finds_words_aux [OF assms] .

section \<open>The invariant\<close>

lemma scan_shape:
  "scan_args cs pos argc f (buf, av) = Some (r, buf', av') \<Longrightarrow> pos + length cs \<le> 255 \<Longrightarrow>
   length buf' = length buf \<and> length av' = length av \<and> drop 256 buf' = drop 256 buf \<and>
   (\<forall>i. Some i \<in> set av' \<longrightarrow> Some i \<in> set av \<or> i < 255)"
proof (induction cs arbitrary: pos argc f buf av)
  case (Cons c cs)
  show ?case
  proof (cases "c = 0x20 \<or> (f \<longrightarrow> argc < 8)")
    case True
    then obtain f' argc' buf1 av1 where r: "scan_args cs (Suc pos) argc' f' (buf1, av1) = Some (r, buf', av')"
      and u: "buf1 = buf \<or> buf1 = buf[pos := 0]" "av1 = av \<or> av1 = av[argc := Some pos]"
      using Cons.prems by (auto simp: put_at_def split: if_splits Option.bind_splits)
    have a: "\<forall>i. Some i \<in> set av1 \<longrightarrow> Some i \<in> set av \<or> i < 255"
      using u(2) set_update_subset_insert [of av argc "Some pos"] Cons.prems(2) by auto
    have l: "length buf1 = length buf \<and> length av1 = length av \<and> drop 256 buf1 = drop 256 buf"
      using u Cons.prems(2) by (auto simp: drop_update_cancel)
    have "pos + length (c # cs) \<le> 255 \<Longrightarrow> Suc pos + length cs \<le> 255" by simp
    from Cons.IH [OF r this [OF Cons.prems(2)]] show ?thesis using a l by (metis (no_types))
  qed (use Cons.prems in auto)
qed simp

lemma parse_ok:
  assumes ok: "console_ok st" and p: "CmdLineParse N st = Some (r, st')"
  shows "length (CmdBuf st') = 512" "drop 256 (CmdBuf st') = replicate 256 0" "length (argv st') = 9"
    "\<forall>i. Some i \<in> set (argv st') \<longrightarrow> i < 255"
proof -
  obtain argc buf av where sc: "scan_args (str_at (CmdBuf st) 0) 0 0 True (CmdBuf st, argv st) = Some (argc, buf, av)"
    using p by (auto simp: CmdLineParse_def split: Option.bind_splits)
  have "length (typed st) \<le> 255" using idx_less [of "CmdBufIdx st"] by (simp add: typed_def)
  then have sh: "length buf = 512 \<and> length av = 9 \<and> drop 256 buf = replicate 256 0 \<and> (\<forall>i. Some i \<in> set av \<longrightarrow> i < 255)"
    using scan_shape [OF sc] ok by (auto simp: typed_str [OF ok] console_ok_def)
  have "frame (st\<lparr>CmdBuf := buf, argv := av\<rparr>) st'"
    using p sc run_frame by (fastforce simp: CmdLineParse_def Let_def split: option.splits Option.bind_splits if_splits)
  then have "CmdBuf st' = buf" "argv st' = av" by (simp_all add: frame_def)
  then show "length (CmdBuf st') = 512" "drop 256 (CmdBuf st') = replicate 256 0" "length (argv st') = 9"
    "\<forall>i. Some i \<in> set (argv st') \<longrightarrow> i < 255" using sh by simp_all
qed

lemma newline_step:
  assumes ok: "console_ok st" and k: "k = 0x0D \<or> k = 0x0A" and c: "char_collect N k st = Some st'"
  shows "console_ok st' \<and> typed st' = []"
proof -
  let ?st = "print crlf st"
  have ok1: "console_ok ?st" using ok by (simp add: console_ok_def typed_def)
  obtain st1 where st1: "CmdLineProcess N ?st = Some st1" and st': "st' = st1\<lparr>CmdBufIdx := 0, CmdBuf := (CmdBuf st1)[0 := 0]\<rparr>"
    using c k by (auto simp: char_collect_def split: if_splits Option.bind_splits)
  have "length (CmdBuf st1) = 512 \<and> drop 256 (CmdBuf st1) = replicate 256 0 \<and> length (argv st1) = 9 \<and>
    (\<forall>i. Some i \<in> set (argv st1) \<longrightarrow> i < 255)"
  proof (cases "CmdBuf ?st ! 0 = 0")
    case True
    then show ?thesis using st1 ok by (auto simp: CmdLineProcess_def console_ok_def Let_def drop_update_cancel)
  next
    case False
    then obtain r st2 where st2: "CmdLineParse N ?st = Some (r, st2)" and "CmdBuf st1 = (CmdBuf st2)[0 := 0]" "argv st1 = argv st2"
      using st1 by (auto simp: CmdLineProcess_def Let_def split: Option.bind_splits)
    then show ?thesis using parse_ok [OF ok1 st2] by (simp add: drop_update_cancel)
  qed
  then show ?thesis by (simp add: st' console_ok_def typed_def drop_update_cancel)
qed

lemma str_bound:
  assumes "drop 256 b = replicate 256 0" "length b = 512" "i < 255"
  shows "length (str_at b i) < 257 - i"
proof -
  have "drop i b = take (256 - i) (drop i b) @ 0 # replicate 255 0"
  proof -
    have "drop i b = take (256 - i) (drop i b) @ drop (256 - i) (drop i b)" by (rule append_take_drop_id [symmetric])
    moreover have "drop (256 - i) (drop i b) = 0 # replicate 255 0"
      using assms by (simp add: replicate_Suc [symmetric] del: replicate_Suc)
    ultimately show ?thesis by (simp only:)
  qed
  then have "str_at b i = takeWhile (\<lambda>c. c \<noteq> 0) (take (256 - i) (drop i b))"
    unfolding str_at_def by (metis (mono_tags, lifting) takeWhile_tail)
  then have "length (str_at b i) \<le> 256 - i"
    using length_takeWhile_le [of "\<lambda>c. c \<noteq> 0" "take (256 - i) (drop i b)"] by simp
  then show ?thesis using assms(3) by linarith
qed

text \<open>C13: the line editor implements its specification: every key but the newline changes the text as \<open>edit\<close>
  says and nothing else of what a command reads; the 256th character empties the line.\<close>
theorem editor_refines:
  assumes "console_ok st" "k \<noteq> 0x0D" "k \<noteq> 0x0A"
  shows "\<exists>st'. char_collect N k st = Some st' \<and> typed st' = edit k (typed st) \<and> argv st' = argv st \<and> fat st' = fat st"
  using key_step [OF assms] by blast

section \<open>Dispatch\<close>

lemma parse_single:
  assumes ok: "console_ok st" and w: "words (typed st) = [w]"
  shows "\<exists>buf av. scan_args (str_at (CmdBuf st) 0) 0 0 True (CmdBuf st, argv st) = Some (Some 1, buf, av) \<and>
    map_option (str_at buf) (av ! 0) = Some w \<and> (\<forall>k. 0 < k \<longrightarrow> k < 9 \<longrightarrow> av ! k = argv st ! k) \<and>
    drop (length (typed st)) buf = drop (length (typed st)) (CmdBuf st)"
proof -
  let ?l = "typed st"
  have sw: "map (\<lambda>p. takeWhile (\<lambda>c. c \<noteq> 0x20) (drop p ?l)) (starts ?l 0 True) = [w]"
    using starts_words [of 0 ?l ?l True] w by simp
  then obtain p where p: "starts ?l 0 True = [p]" by (metis (no_types, lifting) map_eq_Cons_conv map_is_Nil_conv)
  have i: "length ?l = unat (CmdBufIdx st)" "unat (CmdBufIdx st) < length (CmdBuf st)" "length (argv st) = 9"
    using ok idx_less [of "CmdBufIdx st"] by (simp_all add: typed_def console_ok_def)
  have tk: "take (length ?l) (drop 0 (CmdBuf st)) = ?l" unfolding i(1) by (simp add: typed_def)
  let ?buf = "blanked ?l @ drop (length ?l) (CmdBuf st)" and ?av = "put_args 0 [p] (argv st)"
  have sc: "scan_args ?l 0 0 True (CmdBuf st, argv st) = Some (Some 1, ?buf, ?av)"
    using scan_run [of 0 ?l 0 True "argv st" "CmdBuf st"] i tk p by simp
  have "map (\<lambda>k. map_option (str_at ?buf) (?av ! k)) [0..<1] = [Some w]"
    using parser_finds_words_aux [OF ok] sc w by (simp add: typed_str [OF ok])
  moreover have "?av ! k = argv st ! k" if "0 < k" "k < 9" for k
    using that i(3) by (cases k) (simp_all add: put_args_def)
  moreover have "drop (length ?l) ?buf = drop (length ?l) (CmdBuf st)" by (simp add: blanked_def)
  ultimately show ?thesis unfolding typed_str [OF ok] sc by (intro exI [of _ ?buf] exI [of _ ?av]) (simp del: drop_append)
qed

text \<open>Running the parser on a line with a word and at most seven more.\<close>

lemma line_runs:
  assumes "console_ok st" "words (typed st) = w # ws" "length ws < 8"
  shows "\<exists>buf av. (\<forall>k < length (w # ws). arg k (st\<lparr>CmdBuf := buf, argv := av\<rparr>) = Some ((w # ws) ! k)) \<and>
    CmdLineParse N st = (case map_of CmdTable w of
        None \<Rightarrow> Some (CMDLINE_BAD_CMD, st\<lparr>CmdBuf := buf, argv := av\<rparr>)
      | Some (f, help) \<Rightarrow> run N f (int (length (w # ws))) (st\<lparr>CmdBuf := buf, argv := av\<rparr>))"
proof -
  obtain r buf av where sc: "scan_args (str_at (CmdBuf st) 0) 0 0 True (CmdBuf st, argv st) = Some (r, buf, av)"
    using parser_finds_words_aux [OF assms(1)] by (auto split: option.splits)
  have "r = Some (length (w # ws)) \<and> map (\<lambda>k. map_option (str_at buf) (av ! k)) [0..<length (w # ws)] = map Some (w # ws)"
    using parser_finds_words_aux [OF assms(1)] sc assms(2,3) by (cases r) auto
  then have r: "r = Some (length (w # ws))"
    and m: "map (\<lambda>k. map_option (str_at buf) (av ! k)) [0..<length (w # ws)] = map Some (w # ws)" by simp_all
  let ?st = "st\<lparr>CmdBuf := buf, argv := av\<rparr>"
  have args: "arg k ?st = Some ((w # ws) ! k)" if "k < length (w # ws)" for k
    using arg_cong [OF m, of "\<lambda>l. l ! k"] that by (simp add: arg_def del: upt_Suc list.map)
  then have "arg 0 ?st = Some w" by fastforce
  then have "CmdLineParse N st = (case map_of CmdTable w of None \<Rightarrow> Some (CMDLINE_BAD_CMD, ?st)
      | Some (f, help) \<Rightarrow> run N f (int (length (w # ws))) ?st)"
    by (simp add: CmdLineParse_def sc r Let_def split: option.splits)
  then show ?thesis using args by blast
qed

text \<open>
  A newline on a console that has no result: the command of the line has none.
\<close>

lemma parse_none:
  assumes ok: "console_ok st" and p: "CmdLineParse N st = None"
  shows "\<exists>w ws buf av f help. words (typed st) = w # ws \<and> length ws < 8 \<and> map_of CmdTable w = Some (f, help) \<and>
    (\<forall>k < length (w # ws). arg k (st\<lparr>CmdBuf := buf, argv := av\<rparr>) = Some ((w # ws) ! k)) \<and>
    run N f (int (length (w # ws))) (st\<lparr>CmdBuf := buf, argv := av\<rparr>) = None"
proof -
  obtain r buf av where sc: "scan_args (str_at (CmdBuf st) 0) 0 0 True (CmdBuf st, argv st) = Some (r, buf, av)"
    using parser_finds_words_aux [OF ok] by (auto split: option.splits)
  then obtain n where r: "r = Some n" "n \<noteq> 0"
    using p by (auto simp: CmdLineParse_def Let_def split: option.splits if_splits)
  then have n: "n = length (words (typed st))" using parser_finds_words_aux [OF ok] sc by simp
  then obtain w ws where w: "words (typed st) = w # ws" using r(2) by (cases "words (typed st)") auto
  have "length ws < 8"
  proof (rule ccontr)
    assume "\<not> length ws < 8"
    moreover have "length (starts (typed st) 0 True) = length (words (typed st))"
      using starts_words [of 0 "typed st" "typed st" True] by (metis drop0 length_map)
    moreover have "length (typed st) \<le> length (CmdBuf st)" "length (argv st) = 9"
      using ok by (simp_all add: typed_def console_ok_def)
    ultimately show False using scan_many [of 0 "typed st" 0 True "argv st" "CmdBuf st"] w sc r(1) typed_str [OF ok] by auto
  qed
  from line_runs [OF ok w this, of N] p obtain buf' av' where
    "\<forall>k < length (w # ws). arg k (st\<lparr>CmdBuf := buf', argv := av'\<rparr>) = Some ((w # ws) ! k)"
    "(case map_of CmdTable w of None \<Rightarrow> Some (CMDLINE_BAD_CMD, st\<lparr>CmdBuf := buf', argv := av'\<rparr>)
      | Some (f, help) \<Rightarrow> run N f (int (length (w # ws))) (st\<lparr>CmdBuf := buf', argv := av'\<rparr>)) = None" by auto
  then show ?thesis using w \<open>length ws < 8\<close> by (auto split: option.splits)
qed

text \<open>C14: no key loses the shape of the console and neither the line editor nor the parser writes outside of the
  line buffer or the argument vector.  Every key but a newline, and a newline on a line that runs no command, has
  a result; a newline on a line of one to eight words that names a command has one unless the command, run with
  those words, writes outside of a buffer or does not return; and in every result the index is at the end of a
  printable text, the static argument vector holds nine entries, and each points to a terminated string of the
  line buffer.\<close>
theorem console_ok_kept:
  assumes "console_ok st"
  shows "case char_collect N k st of
      Some st' \<Rightarrow> console_ok st' \<and> (\<forall>i. Some i \<in> set (argv st') \<longrightarrow> length (str_at (CmdBuf st') i) < 257)
    | None \<Rightarrow> (k = 0x0D \<or> k = 0x0A) \<and> (\<exists>w ws buf av f help. words (typed st) = w # ws \<and> length ws < 8 \<and>
        map_of CmdTable w = Some (f, help) \<and>
        (\<forall>i < length (w # ws). arg i ((print crlf st)\<lparr>CmdBuf := buf, argv := av\<rparr>) = Some ((w # ws) ! i)) \<and>
        run N f (int (length (w # ws))) ((print crlf st)\<lparr>CmdBuf := buf, argv := av\<rparr>) = None)"
proof (cases "char_collect N k st")
  case None
  then have k: "k = 0x0D \<or> k = 0x0A" using key_step [OF assms, of k N] by auto
  have ok: "console_ok (print crlf st)" and t: "typed (print crlf st) = typed st"
    using assms by (simp_all add: console_ok_def typed_def)
  have "k \<noteq> 8" using k by auto
  then have "CmdLineParse N (print crlf st) = None"
    using None k by (auto simp: char_collect_def CmdLineProcess_def Let_def split: if_splits Option.bind_splits)
  from parse_none [OF ok this] show ?thesis unfolding None t using k by simp
next
  case (Some st')
  have ok: "console_ok st'"
    using newline_step [OF assms _ Some] key_step [OF assms, of k N] Some by (cases "k = 0x0D \<or> k = 0x0A") auto
  then have "length (str_at (CmdBuf st') i) < 257" if "Some i \<in> set (argv st')" for i
    using that str_bound [of "CmdBuf st'" i] by (fastforce simp: console_ok_def)
  then show ?thesis using ok Some by simp
qed

text \<open>C15: a line of one to eight words runs the command of its first word with the words as arguments, and
  answers CMDLINE_BAD_CMD if the table has none; nothing but line and arguments has changed before.\<close>
theorem line_runs_command:
  assumes "console_ok st" "words (typed st) = w # ws" "length ws < 8"
  shows "\<exists>buf av. (\<forall>k < length (w # ws). arg k (st\<lparr>CmdBuf := buf, argv := av\<rparr>) = Some ((w # ws) ! k)) \<and>
    CmdLineParse N st = (case map_of CmdTable w of
        None \<Rightarrow> Some (CMDLINE_BAD_CMD, st\<lparr>CmdBuf := buf, argv := av\<rparr>)
      | Some (f, help) \<Rightarrow> run N f (int (length (w # ws))) (st\<lparr>CmdBuf := buf, argv := av\<rparr>))"
  using assms by (rule line_runs)

text \<open>the arguments of earlier lines stay in the static vector: a line that is just rm unlinks what argument 1
  of an earlier command left in the line buffer, behind the two characters typed.\<close>
theorem rm_takes_old_argument:
  assumes "console_ok st" "typed st = ascii ''rm''" "argv st ! 1 = Some i" "2 < i"
  shows "\<exists>buf av. CmdLineParse N st = Cmd_rm 1 (st\<lparr>CmdBuf := buf, argv := av\<rparr>) \<and>
    arg 1 (st\<lparr>CmdBuf := buf, argv := av\<rparr>) = Some (str_at (CmdBuf st) i)"
proof -
  have w: "words (typed st) = [ascii ''rm'']" unfolding assms(2) by (simp add: ascii_def)
  from parse_single [OF assms(1) w] obtain buf av where
    p: "scan_args (str_at (CmdBuf st) 0) 0 0 True (CmdBuf st, argv st) = Some (Some 1, buf, av)"
      "map_option (str_at buf) (av ! 0) = Some (ascii ''rm'')" "av ! 1 = argv st ! 1"
      "drop (length (typed st)) buf = drop (length (typed st)) (CmdBuf st)" by auto
  have "drop 2 buf = drop 2 (CmdBuf st)" using p(4) by (simp add: assms(2) ascii_def numeral_2_eq_2)
  then have "drop (i - 2) (drop 2 buf) = drop (i - 2) (drop 2 (CmdBuf st))" by (rule arg_cong)
  moreover have "i - 2 + 2 = i" using assms(4) by simp
  ultimately have "drop i buf = drop i (CmdBuf st)" by (simp only: drop_drop)
  then have "str_at buf i = str_at (CmdBuf st) i" by (simp only: str_at_def)
  moreover have "map_of CmdTable (ascii ''rm'') = Some (Rm, ascii ''       : Delete a file or an empty directory'')"
    by (simp add: CmdTable_def ascii_def)
  ultimately show ?thesis using p(1-3) assms(3) by (intro exI [of _ buf] exI [of _ av]) (auto simp: CmdLineParse_def arg_def Let_def)
qed

section \<open>Paths\<close>

lemma back_up_run:
  "m \<le> i \<Longrightarrow> (\<And>j. m < j \<Longrightarrow> j \<le> i \<Longrightarrow> p ! j \<noteq> 0x2F) \<Longrightarrow> p ! m = 0x2F \<or> m = 1 \<Longrightarrow> 0 < m \<or> i = 0 \<Longrightarrow> back_up p i = m"
proof (induction i)
  case (Suc i)
  show ?case
  proof (cases "m = Suc i")
    case True
    then show ?thesis using Suc.prems(3) by (auto simp: back_up.simps [of p "Suc i"])
  next
    case False
    then have "back_up p i = m" using Suc by auto
    moreover have "p ! Suc i \<noteq> 0x2F" "Suc i > 1" using Suc.prems(1,2,4) False by auto
    ultimately show ?thesis by (simp add: back_up.simps [of p "Suc i"])
  qed
qed (auto simp: back_up.simps)

text \<open>cd .. removes the last name of the working directory and stops at the root for a name directly under it,
  but at the root itself it leaves the empty path, from which it would read in front of the buffer.\<close>
theorem cd_up_cases:
  "(\<forall>p name. p \<noteq> [] \<and> name \<noteq> [] \<and> 0x2F \<notin> set name \<longrightarrow> cd_up (p @ [0x2F] @ name) = Some p) \<and>
   (\<forall>name. name \<noteq> [] \<and> 0x2F \<notin> set name \<longrightarrow> cd_up ([0x2F] @ name) = Some [0x2F]) \<and>
   cd_up [0x2F] = Some [] \<and> cd_up [] = None"
proof (intro conjI allI impI)
  fix p name :: "BYTE list" assume a: "p \<noteq> [] \<and> name \<noteq> [] \<and> 0x2F \<notin> set name"
  have "back_up (p @ [0x2F] @ name) (length p + length name) = length p"
  proof (rule back_up_run)
    show "(p @ [0x2F] @ name) ! j \<noteq> 0x2F" if "length p < j" "j \<le> length p + length name" for j
    proof -
      have "j - Suc (length p) < length name" using that by linarith
      then have "name ! (j - Suc (length p)) \<noteq> 0x2F" using a nth_mem by metis
      then show ?thesis using that by (auto simp: nth_append nth_Cons')
    qed
  qed (use a in auto)
  then show "cd_up (p @ [0x2F] @ name) = Some p" by (simp add: cd_up_def)
next
  fix name :: "BYTE list" assume a: "name \<noteq> [] \<and> 0x2F \<notin> set name"
  have "back_up ([0x2F] @ name) (length name) = 1"
  proof (rule back_up_run)
    show "([0x2F] @ name) ! j \<noteq> 0x2F" if "1 < j" "j \<le> length name" for j
    proof -
      have "j - Suc 0 < length name" using that by linarith
      then have "name ! (j - Suc 0) \<noteq> 0x2F" using a nth_mem by metis
      then show ?thesis using that by auto
    qed
  qed (use a in \<open>auto simp: Suc_leI\<close>)
  then show "cd_up ([0x2F] @ name) = Some [0x2F]" using a by (simp add: cd_up_def)
qed (simp_all add: cd_up_def back_up.simps)

text \<open>rm refuses to delete the working directory and every directory it is in, when named by its full path:
  the file system is not touched.\<close>
theorem rm_spares_parents:
  assumes "arg 1 st = Some a" "char_at a 0 = 0x2F" "length a < 512"
    and "CwdBuf st = a \<or> (\<exists>rest. CwdBuf st = a @ [0x2F] @ rest)"
  shows "\<exists>st'. Cmd_rm argc st = Some (0, st') \<and> fat st' = fat st \<and> CwdBuf st' = CwdBuf st"
  using assms by (auto simp: Cmd_rm_def char_at_def nth_append)

text \<open>The strings in the path buffers of 512 bytes.\<close>

definition paths_fit :: "'n console \<Rightarrow> bool" where
  "paths_fit st \<longleftrightarrow> length (CwdBuf st) < 512 \<and> length (TmpBufPath st) < 512 \<and> length (WrBufPath st) < 512"

lemma fit_print [simp]: "paths_fit (print b st) = paths_fit st" by (simp add: paths_fit_def)

lemma fit_upd [simp]:
  "paths_fit (st\<lparr>fat := f\<rparr>) = paths_fit st" "paths_fit (st\<lparr>DirObject := d\<rparr>) = paths_fit st"
  "paths_fit (st\<lparr>FileInfoObject := i\<rparr>) = paths_fit st" "paths_fit (st\<lparr>FileObject := fp\<rparr>) = paths_fit st"
  "paths_fit (st\<lparr>fileObjectWrite := fp\<rparr>) = paths_fit st" "paths_fit (st\<lparr>net := n\<rparr>) = paths_fit st"
  "paths_fit (st\<lparr>udp_fo := fp\<rparr>) = paths_fit st" "paths_fit (st\<lparr>fr_udp_log := r\<rparr>) = paths_fit st"
  "paths_fit (st\<lparr>udplogflag := g\<rparr>) = paths_fit st"
  "paths_fit (st\<lparr>FileInfoObject := i, DirObject := d, fat := f\<rparr>) = paths_fit st"
  "paths_fit (st\<lparr>FileObject := fp, fat := f\<rparr>) = paths_fit st"
  "paths_fit (st\<lparr>fileObjectWrite := fp, fat := f\<rparr>) = paths_fit st"
  by (simp_all add: paths_fit_def)

lemma ls_loop_fit:
  assumes "ls_loop st = Some y"
  shows "paths_fit (snd y) = paths_fit st"
proof (rule ls_loop.raw_induct [where P = "\<lambda>st y. paths_fit (snd y) = paths_fit st", OF _ assms], goal_cases)
  case (1 loop st y)
  then show ?case
    by (auto simp: Let_def split: Option.bind_splits prod.splits if_splits dest!: 1(1))
qed

lemma cat_loop_fit:
  assumes "cat_loop w st = Some y"
  shows "paths_fit (snd (snd y)) = paths_fit st"
proof (rule cat_loop.raw_induct [where P = "\<lambda>w st y. paths_fit (snd (snd y)) = paths_fit st", OF _ assms], goal_cases)
  case (1 loop w st y)
  then show ?case
    by (auto simp: Let_def split: Option.bind_splits prod.splits if_splits dest!: 1(1))
qed

lemma cat_close_fit: "cat_close w st = (r, st') \<Longrightarrow> paths_fit st' = paths_fit st"
  by (auto simp: cat_close_def Let_def split: prod.splits if_splits)

lemma rm_fit: "Cmd_rm n st = Some (r, st') \<Longrightarrow> paths_fit st \<Longrightarrow> paths_fit st'"
  by (auto simp: Cmd_rm_def rm_unlink_def Let_def too_long_def under_cwd_def paths_fit_def
      split: Option.bind_splits prod.splits if_splits)

lemma mkdir_fit: "Cmd_mkdir n st = Some (r, st') \<Longrightarrow> paths_fit st \<Longrightarrow> paths_fit st'"
  by (auto simp: Cmd_mkdir_def Let_def too_long_def under_cwd_def paths_fit_def
      split: Option.bind_splits prod.splits if_splits)

lemma cd_up_length: "cd_up p = Some q \<Longrightarrow> length q \<le> length p"
  by (auto simp: cd_up_def split: if_splits)

lemma cd_fit: "Cmd_cd n st = Some (r, st') \<Longrightarrow> paths_fit st \<Longrightarrow> paths_fit st'"
  by (auto simp: Cmd_cd_def cd_open_def Let_def too_long_def under_cwd_def paths_fit_def
      split: Option.bind_splits prod.splits if_splits dest!: cd_up_length)

lemma cat_output_fit: "cat_output st = Some (r, st') \<Longrightarrow> paths_fit st \<Longrightarrow> paths_fit st'"
  by (auto simp: cat_output_def Let_def paths_fit_def split: Option.bind_splits prod.splits if_splits)

lemma cat_files_fit:
  assumes "cat_files w a st = Some (r, st')" "paths_fit (st\<lparr>TmpBufPath := TmpBufPath st @ a\<rparr>)"
  shows "paths_fit st'"
  using assms unfolding cat_files_def Let_def
  by (auto split: Option.bind_splits prod.splits if_splits dest!: cat_output_fit cat_loop_fit cat_close_fit)

lemma cat_fit:
  assumes "Cmd_cat n st = Some (r, st')" "paths_fit st" "\<And>w. arg 2 st = Some w \<Longrightarrow> length w < 512"
  shows "paths_fit st'"
  using assms
  by (auto simp: Cmd_cat_def Let_def too_long_def arg_def paths_fit_def
      split: Option.bind_splits if_splits dest!: cat_files_fit)

lemma other_fit:
  "Cmd_ls n st = Some (r, st') \<Longrightarrow> paths_fit st \<Longrightarrow> paths_fit st'"
  "Cmd_udptx N n st = Some (r, st') \<Longrightarrow> paths_fit st \<Longrightarrow> paths_fit st'"
  "Cmd_udplog n st = Some (r, st') \<Longrightarrow> paths_fit st \<Longrightarrow> paths_fit st'"
  "Cmd_udplog0 n st = Some (r, st') \<Longrightarrow> paths_fit st \<Longrightarrow> paths_fit st'"
  "Cmd_help n st = Some (r, st') \<Longrightarrow> paths_fit st \<Longrightarrow> paths_fit st'"
proof -
  show "Cmd_ls n st = Some (r, st') \<Longrightarrow> paths_fit st \<Longrightarrow> paths_fit st'"
    by (auto simp: Cmd_ls_def Let_def split: Option.bind_splits prod.splits if_splits dest!: ls_loop_fit)
  show "Cmd_udptx N n st = Some (r, st') \<Longrightarrow> paths_fit st \<Longrightarrow> paths_fit st'"
    "Cmd_udplog n st = Some (r, st') \<Longrightarrow> paths_fit st \<Longrightarrow> paths_fit st'"
    "Cmd_udplog0 n st = Some (r, st') \<Longrightarrow> paths_fit st \<Longrightarrow> paths_fit st'"
    by (auto simp: Cmd_udptx_def send_text_def Cmd_udplog_def Cmd_udplog0_def Let_def paths_fit_def
        split: Option.bind_splits prod.splits if_splits option.splits)
  have "paths_fit (fold (\<lambda>(name, f, help). print (name @ help @ crlf)) t st0) = paths_fit st0"
    for t :: "(BYTE list \<times> command \<times> BYTE list) list" and st0 :: "'a console"
    by (induction t arbitrary: st0) (simp_all add: split_def)
  then show "Cmd_help n st = Some (r, st') \<Longrightarrow> paths_fit st \<Longrightarrow> paths_fit st'"
    by (auto simp: Cmd_help_def Let_def)
qed

lemma run_fit:
  assumes "run N f n st = Some (r, st')" "paths_fit st" "\<And>w. arg 2 st = Some w \<Longrightarrow> length w < 512"
  shows "paths_fit st'"
  using assms by (cases f) (auto simp: Cmd_pwd_def dest: rm_fit mkdir_fit cd_fit cat_fit other_fit)

lemma parse_fit:
  assumes ok: "console_ok st" and p: "CmdLineParse N st = Some (r, st')" and fit: "paths_fit st"
  shows "paths_fit st'"
proof -
  obtain argc buf av where sc: "scan_args (str_at (CmdBuf st) 0) 0 0 True (CmdBuf st, argv st) = Some (argc, buf, av)"
    using p by (auto simp: CmdLineParse_def split: Option.bind_splits)
  have "length (typed st) \<le> 255" using idx_less [of "CmdBufIdx st"] by (simp add: typed_def)
  then have "length buf = 512" "\<forall>i. Some i \<in> set av \<longrightarrow> i < 255" "drop 256 buf = replicate 256 0" "length av = 9"
    using scan_shape [OF sc] ok by (auto simp: typed_str [OF ok] console_ok_def)
  note sh = this
  have a: "length w < 512" if "arg 2 (st\<lparr>CmdBuf := buf, argv := av\<rparr>) = Some w" for w
  proof -
    from that obtain i where i: "av ! 2 = Some i" "w = str_at buf i" by (auto simp: arg_def)
    then have "i < 255" using sh(2,4) nth_mem [of 2 av] by simp
    then show ?thesis using str_bound [OF sh(3,1)] i(2) by fastforce
  qed
  have f: "paths_fit (st\<lparr>CmdBuf := buf, argv := av\<rparr>)" using fit by (simp add: paths_fit_def)
  show ?thesis using p sc f
    by (auto simp: CmdLineParse_def Let_def split: option.splits Option.bind_splits if_splits dest: run_fit [OF _ f a])
qed

text \<open>no key overruns a path buffer: the strings in CwdBuf, TmpBufPath and WrBufPath fit their 512 bytes after
  every command that returns.\<close>
theorem paths_fit_kept:
  assumes "console_ok st" "paths_fit st" "char_collect N k st = Some st'"
  shows "paths_fit st'"
proof (cases "k = 0x0D \<or> k = 0x0A")
  case True
  then have k8: "k \<noteq> 8" by auto
  let ?st = "print crlf st"
  have ok1: "console_ok ?st" "paths_fit ?st" using assms by (simp_all add: console_ok_def typed_def)
  obtain st1 where st1: "CmdLineProcess N ?st = Some st1" and st': "st' = st1\<lparr>CmdBufIdx := 0, CmdBuf := (CmdBuf st1)[0 := 0]\<rparr>"
    using assms(3) True k8 by (auto simp: char_collect_def split: if_splits Option.bind_splits)
  have "paths_fit st1"
    using st1 ok1(2) parse_fit [OF ok1(1) _ ok1(2)]
    by (auto simp: CmdLineProcess_def Let_def paths_fit_def split: Option.bind_splits if_splits)
  then show ?thesis by (simp add: st' paths_fit_def)
next
  case False
  have e: "CwdBuf (erase n s) = CwdBuf s" "TmpBufPath (erase n s) = TmpBufPath s" "WrBufPath (erase n s) = WrBufPath s"
    for n and s :: "'a console"
    by (induction n arbitrary: s) simp_all
  show ?thesis using assms(2,3) False e
    by (auto simp: char_collect_def put_at_def Let_def paths_fit_def split: if_splits Option.bind_splits)
qed

text \<open>cat checks the path of its input only: with an output name that does not fit behind the working directory
  it writes past the end of WrBufPath.\<close>
theorem cat_output_overruns:
  assumes "argc \<ge> 4" "arg 1 st = Some a" "arg 2 st = Some [0x3E]" "arg 3 st = Some c" "a \<noteq> ascii ''dev.UART''"
    "CwdBuf st \<noteq> [0x2F]" "length (CwdBuf st) + length a + 2 \<le> 512" "512 \<le> length (CwdBuf st) + length c + 1"
  shows "Cmd_cat argc st = None"
  using assms by (auto simp: Cmd_cat_def Let_def too_long_def arg_def cat_files_def cat_output_def bind_eq_None_conv split: prod.splits)

text \<open>a mount does not set the working directory: it stays what it was, and the two bytes meant for it go to the
  address its own text makes, 0x2F at the start.\<close>
theorem mount_misses_cwd:
  "CwdBuf (snd (FATFsMount rest d st)) = CwdBuf st \<and>
   (\<forall>r. cwd_pointer (0 # 0 # r) (ascii ''/'') = 0x2F) \<and>
   wild (snd (FATFsMount rest d st)) = wild st @ [(cwd_pointer rest (CwdBuf st), 0x2F), (cwd_pointer rest (CwdBuf st) + 1, 0)]"
  by (simp add: FATFsMount_def Let_def cwd_pointer_def ascii_def split: prod.splits)

section \<open>Concrete runs\<close>

lemma sample_pwd: "console_ok (sample_console (ascii ''pwd'') [] no_args)" "typed (sample_console (ascii ''pwd'') [] no_args) = ascii ''pwd''"
  by (rule sample_console_ok; simp add: ascii_def printable_def)+

lemma parser_finds_words_witness:
  "length (words (typed (sample_console (ascii ''cat  a > b'') [] no_args))) = 4 \<and>
   (case scan_args (str_at (CmdBuf (sample_console (ascii ''cat  a > b'') [] no_args)) 0) 0 0 True
      (CmdBuf (sample_console (ascii ''cat  a > b'') [] no_args), no_args) of
      Some (Some argc, buf, av) \<Rightarrow> map (\<lambda>k. map_option (str_at buf) (av ! k)) [0..<argc] =
        [Some (ascii ''cat''), Some (ascii ''a''), Some (ascii ''>''), Some (ascii ''b'')]
    | _ \<Rightarrow> False)"
proof -
  let ?st = "sample_console (ascii ''cat  a > b'') [] no_args"
  have ok: "console_ok ?st" "typed ?st = ascii ''cat  a > b''" by (rule sample_console_ok; simp add: ascii_def printable_def)+
  have w: "words (typed ?st) = [ascii ''cat'', ascii ''a'', ascii ''>'', ascii ''b'']" unfolding ok(2) by (simp add: ascii_def)
  have "argv ?st = no_args" by (simp add: sample_console_def)
  then show ?thesis using parser_finds_words [OF ok(1)] unfolding w by (auto split: option.splits prod.splits)
qed

lemma console_ok_kept_witness:
  "\<exists>st'. char_collect sample_net 0x21 (sample_console (ascii ''pwd'') [] no_args) = Some st' \<and> console_ok st'"
proof -
  obtain st' where s: "char_collect sample_net 0x21 (sample_console (ascii ''pwd'') [] no_args) = Some st'"
    using key_step [OF sample_pwd(1), of "0x21" sample_net] by auto
  then show ?thesis using console_ok_kept [OF sample_pwd(1), where N = sample_net and k = "0x21"] by simp
qed

lemma editor_refines_witness:
  "\<exists>st'. char_collect sample_net 0x21 (sample_console (ascii ''pwd'') [] no_args) = Some st' \<and> typed st' = ascii ''pwd!''"
proof -
  have "edit 0x21 (typed (sample_console (ascii ''pwd'') [] no_args)) = ascii ''pwd!''"
    unfolding sample_pwd(2) by (simp add: edit_def ascii_def printable_def)
  then show ?thesis using editor_refines [OF sample_pwd(1), of "0x21" sample_net] by auto
qed

lemma line_runs_command_witness:
  "\<exists>st'. CmdLineParse sample_net (sample_console (ascii ''pwd'') [] no_args) = Some (0, st') \<and> outp st' = ascii ''/a'' @ crlf"
proof -
  have "words (typed (sample_console (ascii ''pwd'') [] no_args)) = [ascii ''pwd'']"
    unfolding sample_pwd(2) by (simp add: ascii_def)
  from line_runs_command [OF sample_pwd(1) this, of sample_net] show ?thesis
    by (auto simp: CmdTable_def ascii_def Cmd_pwd_def print_def sample_console_def)
qed

lemma rm_takes_old_argument_witness:
  "\<exists>buf av. CmdLineParse sample_net (sample_console (ascii ''rm'') (ascii ''old'') (None # Some 3 # replicate 7 None)) =
      Cmd_rm 1 (sample_console (ascii ''rm'') (ascii ''old'') (None # Some 3 # replicate 7 None)\<lparr>CmdBuf := buf, argv := av\<rparr>) \<and>
    arg 1 (sample_console (ascii ''rm'') (ascii ''old'') (None # Some 3 # replicate 7 None)\<lparr>CmdBuf := buf, argv := av\<rparr>) = Some (ascii ''old'')"
proof -
  let ?st = "sample_console (ascii ''rm'') (ascii ''old'') (None # Some 3 # replicate 7 None)"
  have ok: "console_ok ?st" "typed ?st = ascii ''rm''" by (rule sample_console_ok; auto simp: ascii_def printable_def)+
  have a: "argv ?st ! 1 = Some 3" by (simp add: sample_console_def)
  have "str_at (CmdBuf ?st) 3 = ascii ''old''" by (simp add: sample_console_def str_at_def ascii_def drop_take)
  then show ?thesis using rm_takes_old_argument [OF ok a, of sample_net] by simp
qed

lemma cd_up_cases_witness: "cd_up (ascii ''/a/bc'') = Some (ascii ''/a'')"
proof -
  have "ascii ''/a/bc'' = ascii ''/a'' @ [0x2F] @ ascii ''bc''" by (simp add: ascii_def)
  moreover have "cd_up (ascii ''/a'' @ [0x2F] @ ascii ''bc'') = Some (ascii ''/a'')"
    by (rule cd_up_cases [THEN conjunct1, rule_format]) (simp add: ascii_def)
  ultimately show ?thesis by simp
qed

lemma rm_spares_parents_witness:
  "\<exists>st'. Cmd_rm 2 (sample_console (ascii ''rm'') (ascii ''/a'') (None # Some 3 # replicate 7 None)) = Some (0, st') \<and> CwdBuf st' = ascii ''/a''"
proof -
  let ?st = "sample_console (ascii ''rm'') (ascii ''/a'') (None # Some 3 # replicate 7 None)"
  have "arg 1 ?st = Some (ascii ''/a'')" by (simp add: arg_def sample_console_def str_at_def ascii_def drop_take)
  moreover have "CwdBuf ?st = ascii ''/a''" by (simp add: sample_console_def)
  ultimately show ?thesis using rm_spares_parents [of ?st "ascii ''/a''" 2] by (auto simp: ascii_def char_at_def)
qed

lemma paths_fit_kept_witness:
  "\<exists>st'. char_collect sample_net 0x21 (sample_console (ascii ''pwd'') [] no_args) = Some st' \<and> paths_fit st'"
proof -
  let ?st = "sample_console (ascii ''pwd'') [] no_args"
  obtain st' where "char_collect sample_net 0x21 ?st = Some st'" using key_step [OF sample_pwd(1), of "0x21" sample_net] by auto
  moreover have "paths_fit ?st" by (simp add: paths_fit_def sample_console_def ascii_def sample_dir_def)
  ultimately show ?thesis using paths_fit_kept [OF sample_pwd(1)] by blast
qed

lemma cat_output_overruns_witness:
  "Cmd_cat 4 ((sample_console (ascii ''cat'') ([0x78, 0, 0x3E, 0] @ replicate 40 0x63)
    ([None, Some 4, Some 6, Some 8] @ replicate 5 None))\<lparr>CwdBuf := replicate 480 0x2F\<rparr>) = None"
proof -
  let ?st = "(sample_console (ascii ''cat'') ([0x78, 0, 0x3E, 0] @ replicate 40 0x63)
    ([None, Some 4, Some 6, Some 8] @ replicate 5 None))\<lparr>CwdBuf := replicate 480 0x2F\<rparr>"
  have a: "arg 1 ?st = Some [0x78]" "arg 2 ?st = Some [0x3E]" "arg 3 ?st = Some (replicate 40 0x63)"
    by (simp_all add: arg_def sample_console_def str_at_def ascii_def drop_take takeWhile_append takeWhile_replicate take_replicate)
  have "CwdBuf ?st \<noteq> [0x2F]"
  proof
    assume "CwdBuf ?st = [0x2F]"
    then have "length (CwdBuf ?st) = 1" by (simp only: list.size)
    then show False by simp
  qed
  from cat_output_overruns [OF _ a _ this, of 4] show ?thesis by (simp add: ascii_def)
qed

end
