(* ===== verification/LwHeap.thy ===== *)
theory LwHeap
  imports Prelude
begin

unbundle bit_operations_syntax

text \<open>
  The heap of lwIP, \<^verbatim>\<open>lwip/src/core/mem.c\<close>: a first-fit allocator over an array, whose blocks are linked
  in both directions through headers inside the array.  A header is a record, held by its offset in the
  array; a pointer is an address, so that \<open>off\<close> is the index a pointer means.  The abstraction is the list
  of the blocks with their sizes, on which allocation is first fit and freeing is marking and melting
  free neighbours.  The configuration has no threads, so the locks are empty.
\<close>

section \<open>State\<close>

record mem =
  mem_next :: DWORD
  mem_prev :: DWORD
  mem_used :: BYTE

record heap =
  hdr :: "nat \<Rightarrow> mem"
  ram :: DWORD
  ram_end :: DWORD
  lfree :: DWORD

abbreviation MEM_SIZE_ALIGNED :: DWORD where "MEM_SIZE_ALIGNED \<equiv> 0x20000"
abbreviation SIZEOF_STRUCT_MEM :: DWORD where "SIZEOF_STRUCT_MEM \<equiv> 12"
abbreviation MIN_SIZE_ALIGNED :: DWORD where "MIN_SIZE_ALIGNED \<equiv> 12"

definition LWIP_MEM_ALIGN_SIZE :: "DWORD \<Rightarrow> DWORD" where
  "LWIP_MEM_ALIGN_SIZE n = (n + 4 - 1) AND NOT 3"

definition off :: "heap \<Rightarrow> DWORD \<Rightarrow> nat" where
  "off h p = unat (p - ram h)"

definition at :: "heap \<Rightarrow> DWORD \<Rightarrow> mem" where
  "at h p = hdr h (off h p)"

definition upd :: "DWORD \<Rightarrow> (mem \<Rightarrow> mem) \<Rightarrow> heap \<Rightarrow> heap" where
  "upd p f h = h\<lparr>hdr := (hdr h)(off h p := f (at h p))\<rparr>"

section \<open>The operations\<close>

definition mem_init :: "DWORD \<Rightarrow> heap \<Rightarrow> heap" where
  "mem_init ram_heap h =
     (let h = h\<lparr>ram := LWIP_MEM_ALIGN_SIZE ram_heap\<rparr>;
          h = upd (ram h) (\<lambda>m. m\<lparr>mem_next := MEM_SIZE_ALIGNED, mem_prev := 0, mem_used := 0\<rparr>) h;
          h = h\<lparr>ram_end := ram h + MEM_SIZE_ALIGNED\<rparr>;
          h = upd (ram_end h) (\<lambda>m. m\<lparr>mem_used := 1, mem_next := MEM_SIZE_ALIGNED, mem_prev := MEM_SIZE_ALIGNED\<rparr>) h
      in h\<lparr>lfree := ram h\<rparr>)"

definition plug_forward :: "DWORD \<Rightarrow> heap \<Rightarrow> heap" where
  "plug_forward mem h =
     (let nmem = ram h + mem_next (at h mem) in
      if mem \<noteq> nmem \<and> mem_used (at h nmem) = 0 \<and> nmem \<noteq> ram_end h then
        let h = (if lfree h = nmem then h\<lparr>lfree := mem\<rparr> else h);
            h = upd mem (\<lambda>m. m\<lparr>mem_next := mem_next (at h nmem)\<rparr>) h
        in upd (ram h + mem_next (at h nmem)) (\<lambda>m. m\<lparr>mem_prev := mem - ram h\<rparr>) h
      else h)"

definition plug_backward :: "DWORD \<Rightarrow> heap \<Rightarrow> heap" where
  "plug_backward mem h =
     (let pmem = ram h + mem_prev (at h mem) in
      if pmem \<noteq> mem \<and> mem_used (at h pmem) = 0 then
        let h = (if lfree h = mem then h\<lparr>lfree := pmem\<rparr> else h);
            h = upd pmem (\<lambda>m. m\<lparr>mem_next := mem_next (at h mem)\<rparr>) h
        in upd (ram h + mem_next (at h mem)) (\<lambda>m. m\<lparr>mem_prev := pmem - ram h\<rparr>) h
      else h)"

definition plug_holes :: "DWORD \<Rightarrow> heap \<Rightarrow> heap" where
  "plug_holes mem h = plug_backward mem (plug_forward mem h)"

definition mem_free :: "DWORD \<Rightarrow> heap \<Rightarrow> heap" where
  "mem_free rmem h =
     (if rmem = 0 then h
      else if rmem < ram h \<or> rmem \<ge> ram_end h then h
      else
        let mem = rmem - SIZEOF_STRUCT_MEM;
            h = upd mem (\<lambda>m. m\<lparr>mem_used := 0\<rparr>) h;
            h = (if mem < lfree h then h\<lparr>lfree := mem\<rparr> else h)
        in plug_holes mem h)"

definition mem_trim :: "DWORD \<Rightarrow> DWORD \<Rightarrow> heap \<Rightarrow> DWORD \<times> heap" where
  "mem_trim rmem newsize h =
     (let newsize = LWIP_MEM_ALIGN_SIZE newsize;
          newsize = (if newsize < MIN_SIZE_ALIGNED then MIN_SIZE_ALIGNED else newsize)
      in if newsize > MEM_SIZE_ALIGNED then (0, h)
      else if rmem < ram h \<or> rmem \<ge> ram_end h then (rmem, h)
      else
        let mem = rmem - SIZEOF_STRUCT_MEM;
            ptr = mem - ram h;
            sz = mem_next (at h mem) - ptr - SIZEOF_STRUCT_MEM
        in if newsize > sz then (0, h)
        else if newsize = sz then (rmem, h)
        else
          let mem2 = ram h + mem_next (at h mem);
              ptr2 = ptr + SIZEOF_STRUCT_MEM + newsize
          in if mem_used (at h mem2) = 0 then
            let nxt = mem_next (at h mem2);
                h = (if lfree h = mem2 then h\<lparr>lfree := ram h + ptr2\<rparr> else h);
                h = upd (ram h + ptr2) (\<lambda>m. m\<lparr>mem_used := 0, mem_next := nxt, mem_prev := ptr\<rparr>) h;
                h = upd mem (\<lambda>m. m\<lparr>mem_next := ptr2\<rparr>) h
            in (rmem, if nxt \<noteq> MEM_SIZE_ALIGNED then upd (ram h + nxt) (\<lambda>m. m\<lparr>mem_prev := ptr2\<rparr>) h else h)
          else if newsize + SIZEOF_STRUCT_MEM + MIN_SIZE_ALIGNED \<le> sz then
            let h = (if ram h + ptr2 < lfree h then h\<lparr>lfree := ram h + ptr2\<rparr> else h);
                nxt = mem_next (at h mem);
                h = upd (ram h + ptr2) (\<lambda>m. m\<lparr>mem_used := 0, mem_next := nxt, mem_prev := ptr\<rparr>) h;
                h = upd mem (\<lambda>m. m\<lparr>mem_next := ptr2\<rparr>) h
            in (rmem, if nxt \<noteq> MEM_SIZE_ALIGNED then upd (ram h + nxt) (\<lambda>m. m\<lparr>mem_prev := ptr2\<rparr>) h else h)
          else (rmem, h))"

text \<open>The search for the next free block after an allocation, and the allocation itself.\<close>

partial_function (option) lfree_loop :: "heap \<Rightarrow> heap option" where
  "lfree_loop h =
     (if mem_used (at h (lfree h)) \<noteq> 0 \<and> lfree h \<noteq> ram_end h
      then lfree_loop (h\<lparr>lfree := ram h + mem_next (at h (lfree h))\<rparr>) else Some h)"

definition take_block :: "DWORD \<Rightarrow> DWORD \<Rightarrow> heap \<Rightarrow> heap option" where
  "take_block sz ptr h =
     (let mem = ram h + ptr;
          h = (if mem_next (at h mem) - (ptr + SIZEOF_STRUCT_MEM) \<ge> sz + SIZEOF_STRUCT_MEM + MIN_SIZE_ALIGNED then
                 let ptr2 = ptr + SIZEOF_STRUCT_MEM + sz;
                     nxt = mem_next (at h mem);
                     h = upd (ram h + ptr2) (\<lambda>m. m\<lparr>mem_used := 0, mem_next := nxt, mem_prev := ptr\<rparr>) h;
                     h = upd mem (\<lambda>m. m\<lparr>mem_next := ptr2, mem_used := 1\<rparr>) h
                 in if nxt \<noteq> MEM_SIZE_ALIGNED then upd (ram h + nxt) (\<lambda>m. m\<lparr>mem_prev := ptr2\<rparr>) h else h
               else upd mem (\<lambda>m. m\<lparr>mem_used := 1\<rparr>) h)
      in if mem = lfree h then lfree_loop h else Some h)"

partial_function (option) malloc_loop :: "DWORD \<Rightarrow> DWORD \<Rightarrow> heap \<Rightarrow> (DWORD \<times> heap) option" where
  "malloc_loop sz ptr h =
     (if ptr < MEM_SIZE_ALIGNED - sz then
        if mem_used (at h (ram h + ptr)) = 0 \<and> mem_next (at h (ram h + ptr)) - (ptr + SIZEOF_STRUCT_MEM) \<ge> sz
        then Option.bind (take_block sz ptr h) (\<lambda>h. Some (ram h + ptr + SIZEOF_STRUCT_MEM, h))
        else malloc_loop sz (mem_next (at h (ram h + ptr))) h
      else Some (0, h))"

definition mem_malloc :: "DWORD \<Rightarrow> heap \<Rightarrow> (DWORD \<times> heap) option" where
  "mem_malloc sz h =
     (if sz = 0 then Some (0, h)
      else
        let sz = LWIP_MEM_ALIGN_SIZE sz;
            sz = (if sz < MIN_SIZE_ALIGNED then MIN_SIZE_ALIGNED else sz)
        in if sz > MEM_SIZE_ALIGNED then Some (0, h) else malloc_loop sz (lfree h - ram h) h)"

text \<open>\<^verbatim>\<open>mem_calloc\<close> clears the block it gets; the bytes of the heap are the argument \<open>bytes\<close>.\<close>

definition mem_calloc :: "DWORD \<Rightarrow> DWORD \<Rightarrow> heap \<Rightarrow> (DWORD \<Rightarrow> BYTE) \<Rightarrow> (DWORD \<times> heap \<times> (DWORD \<Rightarrow> BYTE)) option" where
  "mem_calloc count sz h bytes =
     Option.bind (mem_malloc (count * sz) h) (\<lambda>(p, h).
       Some (p, h, if p \<noteq> 0 then \<lambda>a. if a - p < count * sz then 0 else bytes a else bytes))"

section \<open>The heap as a list of blocks\<close>

text \<open>A block is its size, header included, and whether it is in use.\<close>

definition extent :: "(nat \<times> bool) list \<Rightarrow> nat" where
  "extent bs = sum_list (map fst bs)"

fun last_start :: "nat \<Rightarrow> nat \<Rightarrow> (nat \<times> bool) list \<Rightarrow> nat" where
  "last_start p pr [] = pr"
| "last_start p pr ((n, u) # bs) = last_start (p + n) p bs"

fun seg :: "(nat \<Rightarrow> mem) \<Rightarrow> nat \<Rightarrow> nat \<Rightarrow> (nat \<times> bool) list \<Rightarrow> bool" where
  "seg g p pr [] = True"
| "seg g p pr ((n, u) # bs) =
     (unat (mem_next (g p)) = p + n \<and> unat (mem_prev (g p)) = pr \<and> (mem_used (g p) \<noteq> 0 \<longleftrightarrow> u) \<and>
      24 \<le> n \<and> 4 dvd n \<and> seg g (p + n) p bs)"

fun sep :: "(nat \<times> bool) list \<Rightarrow> bool" where
  "sep (x # y # bs) = ((snd x \<or> snd y) \<and> sep (y # bs))"
| "sep bs = True"

fun first_free :: "nat \<Rightarrow> (nat \<times> bool) list \<Rightarrow> nat" where
  "first_free p [] = p"
| "first_free p ((n, u) # bs) = (if u then first_free (p + n) bs else p)"

definition blocks_ok :: "heap \<Rightarrow> (nat \<times> bool) list \<Rightarrow> bool" where
  "blocks_ok h bs \<longleftrightarrow> 4 dvd unat (ram h) \<and> unat (ram h) + 0x20000 + 12 < 2 ^ 32 \<and> ram_end h = ram h + MEM_SIZE_ALIGNED \<and>
     seg (hdr h) 0 0 bs \<and> extent bs = 0x20000 \<and> mem_used (hdr h 0x20000) \<noteq> 0"

definition heap_ok :: "heap \<Rightarrow> (nat \<times> bool) list \<Rightarrow> bool" where
  "heap_ok h bs \<longleftrightarrow> blocks_ok h bs \<and> sep bs \<and> lfree h = ram h + of_nat (first_free 0 bs)"

text \<open>First fit, and freeing: mark the block and melt neighbours that are free.\<close>

definition split_block :: "nat \<Rightarrow> nat \<Rightarrow> (nat \<times> bool) list" where
  "split_block n k = (if n + 36 \<le> k then [(n + 12, True), (k - (n + 12), False)] else [(k, True)])"

fun first_fit :: "nat \<Rightarrow> nat \<Rightarrow> (nat \<times> bool) list \<Rightarrow> (nat \<times> (nat \<times> bool) list) option" where
  "first_fit n p [] = None"
| "first_fit n p ((k, u) # bs) =
     (if \<not> u \<and> n + 12 \<le> k
      then Some (p, split_block n k @ bs)
      else map_option (apsnd ((#) (k, u))) (first_fit n (p + k) bs))"

fun melt :: "(nat \<times> bool) list \<Rightarrow> (nat \<times> bool) list" where
  "melt ((k, u) # (m, v) # bs) = (if u \<or> v then (k, u) # melt ((m, v) # bs) else melt ((k + m, False) # bs))"
| "melt bs = bs"

fun mark :: "nat \<Rightarrow> nat \<Rightarrow> (nat \<times> bool) list \<Rightarrow> (nat \<times> bool) list" where
  "mark x p [] = []"
| "mark x p ((k, u) # bs) = (if p = x then (k, False) # bs else (k, u) # mark x (p + k) bs)"

text \<open>The blocks in use: the offset of their data and its length.\<close>

fun live :: "nat \<Rightarrow> (nat \<times> bool) list \<Rightarrow> (nat \<times> nat) list" where
  "live p [] = []"
| "live p ((k, u) # bs) = (if u then [(p + 12, k - 12)] else []) @ live (p + k) bs"

subsection \<open>Lists of blocks\<close>

lemma total_simps [simp]: "extent [] = 0" "extent ((n, u) # bs) = n + extent bs" "extent (as @ bs) = extent as + extent bs"
  by (simp_all add: extent_def)

lemma seg_append [simp]: "seg g p pr (as @ bs) \<longleftrightarrow> seg g p pr as \<and> seg g (p + extent as) (last_start p pr as) bs"
  by (induction as arbitrary: p pr) (auto simp: add.assoc)

lemma seg_cong: "(\<And>i. p \<le> i \<Longrightarrow> i < p + extent bs \<Longrightarrow> g' i = g i) \<Longrightarrow> seg g' p pr bs = seg g p pr bs"
proof (induction bs arbitrary: p pr)
  case (Cons b bs)
  obtain n u where b: "b = (n, u)" by force
  show ?case
  proof (cases "n = 0")
    case False
    then have "g' p = g p" using Cons.prems by (simp add: b)
    moreover have "seg g' (p + n) p bs = seg g (p + n) p bs" using Cons.prems by (intro Cons.IH) (auto simp: b)
    ultimately show ?thesis by (simp add: b)
  qed (simp add: b)
qed simp

lemma seg_other [simp]: "i < p \<or> p + extent bs \<le> i \<Longrightarrow> seg (g(i := m)) p pr bs = seg g p pr bs"
  by (rule seg_cong) auto

lemma last_start_append [simp]: "last_start p pr (as @ bs) = last_start (p + extent as) (last_start p pr as) bs"
  by (induction as arbitrary: p pr) (auto simp: add.assoc)

lemma seg_dvd: "seg g p pr bs \<Longrightarrow> 4 dvd extent bs"
  by (induction g p pr bs rule: seg.induct) auto

lemma sep_append: "sep (as @ bs) \<longleftrightarrow> sep as \<and> sep bs \<and> (as = [] \<or> bs = [] \<or> snd (last as) \<or> snd (hd bs))"
proof (induction as rule: sep.induct)
  case "2_2"
  then show ?case by (cases bs) auto
qed auto

lemma sep_Cons: "sep (x # bs) \<longleftrightarrow> sep bs \<and> (bs = [] \<or> snd x \<or> snd (hd bs))"
  by (cases bs) auto

lemma first_free_append:
  "first_free p (as @ bs) = (if \<forall>b \<in> set as. snd b then first_free (p + extent as) bs else first_free p as)"
proof (induction as arbitrary: p)
  case (Cons b as)
  then show ?case by (cases b) (simp add: add.assoc)
qed simp

lemma first_free_bounds: "p \<le> first_free p bs \<and> first_free p bs \<le> p + extent bs"
proof (induction bs arbitrary: p)
  case (Cons b bs)
  have "p + fst b \<le> first_free (p + fst b) bs" "first_free (p + fst b) bs \<le> p + fst b + extent bs" using Cons.IH by blast+
  then show ?case by (cases b; cases "snd b") auto
qed simp

lemma first_free_used: "(\<forall>b \<in> set as. snd b) \<Longrightarrow> first_free p as = p + extent as"
  by (induction as arbitrary: p) (auto simp: add.assoc)

lemma first_free_some: "seg g p pr as \<Longrightarrow> \<exists>b \<in> set as. \<not> snd b \<Longrightarrow> first_free p as < p + extent as"
proof (induction g p pr as rule: seg.induct)
  case (2 g p pr n u bs)
  then show ?case by (cases u) (simp_all add: add.assoc)
qed simp

lemma melt_sep: "sep bs \<Longrightarrow> melt bs = bs"
  by (induction bs rule: melt.induct) auto

lemma melt_used: "melt ((k, True) # bs) = (k, True) # melt bs"
  by (cases bs) auto

lemma melt_at:
  assumes "sep as" "sep cs"
  shows "melt (as @ (n, False) # cs) =
    (let n' = (case cs of (m, False) # _ \<Rightarrow> n + m | _ \<Rightarrow> n); cs' = (case cs of (m, False) # cs' \<Rightarrow> cs' | _ \<Rightarrow> cs)
     in if as \<noteq> [] \<and> \<not> snd (last as) then butlast as @ (fst (last as) + n', False) # cs' else as @ (n', False) # cs')"
  using assms
proof (induction as rule: sep.induct, goal_cases)
  case (1 x y bs)
  then show ?case by (cases x; cases y) (auto simp: Let_def split: if_splits)
next
  case 2
  then show ?case by (cases cs rule: sep.cases) (auto simp: Let_def melt_sep sep_Cons split: bool.splits)
next
  case (3 x)
  then show ?case by (cases cs rule: sep.cases; cases x) (auto simp: Let_def melt_sep sep_Cons split: bool.splits)
qed


subsection \<open>Addresses\<close>

lemma off_ram [simp]: "off h (ram h + p) = unat p"
  by (simp add: off_def)

lemma upd_simps [simp]:
  "ram (upd p f h) = ram h" "ram_end (upd p f h) = ram_end h" "lfree (upd p f h) = lfree h"
  "off (upd p f h) = off h" "hdr (upd p f h) = (hdr h)(off h p := f (hdr h (off h p)))"
  by (simp_all add: upd_def at_def off_def fun_eq_iff)

lemma off_fields [simp]: "off (h\<lparr>lfree := x\<rparr>) = off h" "off (h\<lparr>hdr := g\<rparr>) = off h"
  by (simp_all add: off_def fun_eq_iff)

lemma at_simps: "at h p = hdr h (off h p)"
  by (simp add: at_def)

lemma unat_word: "n < 2 ^ 32 \<Longrightarrow> unat (of_nat n :: DWORD) = n"
  by (simp add: unat_of_nat take_bit_nat_eq_self)

lemma unat_offset: "n \<le> 0x20000 \<Longrightarrow> unat (of_nat n :: DWORD) = n"
  by (simp add: unat_word)

lemma in_heap:
  assumes "blocks_ok h (as @ b # cs)" "p = extent as"
  shows "p + fst b \<le> 0x20000" "24 \<le> fst b" "unat (of_nat p :: DWORD) = p" "p < 0x20000" "unat (of_nat (p + fst b) :: DWORD) = p + fst b"
    "4 dvd p" "4 dvd fst b"
proof -
  obtain n u where b: "b = (n, u)" by force
  have e: "extent as + n + extent cs = 0x20000" and s: "seg (hdr h) 0 0 (as @ (n, u) # cs)"
    using assms(1) by (auto simp: blocks_ok_def b)
  show 1: "p + fst b \<le> 0x20000" "24 \<le> fst b" "p < 0x20000" "4 dvd p" "4 dvd fst b"
    using e s assms(2) seg_dvd [of "hdr h" 0 0 as] by (auto simp: b)
  show "unat (of_nat p :: DWORD) = p" "unat (of_nat (p + fst b) :: DWORD) = p + fst b"
    using 1(1,3) by (simp_all add: unat_offset del: of_nat_add)
qed


lemma seg_prev: "seg g p pr bs \<Longrightarrow> unat x = q \<Longrightarrow> seg (g(p := (g p)\<lparr>mem_prev := x\<rparr>)) p q bs"
  by (cases bs) auto

lemma seg_relink:
  assumes "seg g p pr bs" "unat x = q" "\<And>i. p < i \<Longrightarrow> g' i = g i" "bs \<noteq> [] \<Longrightarrow> g' p = (g p)\<lparr>mem_prev := x\<rparr>"
  shows "seg g' p q bs"
proof (cases bs)
  case (Cons b cs)
  then obtain n u where b: "bs = (n, u) # cs" by (cases b) auto
  then have "seg g' (p + n) p cs = seg g (p + n) p cs" using assms(1,3) by (intro seg_cong) auto
  then show ?thesis using assms b by simp
qed simp

lemma seg_start: "bs \<noteq> [] \<Longrightarrow> seg g p pr bs \<Longrightarrow> unat (mem_prev (g p)) = pr"
  by (cases bs) auto

subsection \<open>Melting\<close>

fun fwd :: "nat \<Rightarrow> (nat \<times> bool) list \<Rightarrow> (nat \<times> bool) list" where
  "fwd n ((m, False) # cs) = (n + m, False) # cs"
| "fwd n cs = (n, False) # cs"

lemma plug_forward_ok:
  assumes ok: "blocks_ok h (as @ (n, False) # cs)" and mem: "mem = ram h + of_nat (extent as)"
    and lf: "lfree h \<noteq> ram h + of_nat (extent as + n)"
  shows "blocks_ok (plug_forward mem h) (as @ fwd n cs) \<and> lfree (plug_forward mem h) = lfree h \<and> ram (plug_forward mem h) = ram h"
proof -
  let ?p = "extent as"
  note p = in_heap [OF ok refl, simplified]
  have sg: "seg (hdr h) 0 0 as" "unat (mem_next (hdr h ?p)) = ?p + n" "unat (mem_prev (hdr h ?p)) = last_start 0 0 as"
      "mem_used (hdr h ?p) = 0" "seg (hdr h) (?p + n) ?p cs" "?p + n + extent cs = 0x20000" "mem_used (hdr h 0x20000) \<noteq> 0"
      "ram_end h = ram h + MEM_SIZE_ALIGNED"
    using ok by (auto simp: blocks_ok_def)
  have nx: "mem_next (hdr h ?p) = of_nat (?p + n)" unfolding sg(2) [symmetric] by simp
  have off: "off h mem = ?p" using p(3) by (simp add: mem)
  show ?thesis
  proof (cases "\<exists>m cs'. cs = (m, False) # cs'")
    case False
    then have "fwd n cs = (n, False) # cs" by (cases "(n, cs)" rule: fwd.cases) auto
    moreover have "mem_used (hdr h (?p + n)) \<noteq> 0" using False sg(5-7) by (cases cs) (auto split: prod.splits)
    ultimately show ?thesis using ok by (simp add: plug_forward_def at_def off sg(2))
  next
    case True
    then obtain m cs' where cs: "cs = (m, False) # cs'" by blast
    have nm: "unat (mem_next (hdr h (?p + n))) = ?p + n + m" "mem_used (hdr h (?p + n)) = 0" "24 \<le> m" "4 dvd m"
        "seg (hdr h) (?p + n + m) (?p + n) cs'" "?p + n + m + extent cs' = 0x20000"
      using sg(5,6) by (auto simp: cs)
    have ne: "mem \<noteq> ram h + mem_next (hdr h ?p)" "ram h + mem_next (hdr h ?p) \<noteq> ram_end h" "lfree h \<noteq> ram h + mem_next (hdr h ?p)"
      using p nm sg(2) lf by (auto simp: mem sg(8) nx simp del: of_nat_add)
    let ?q = "?p + n + m"
    let ?g = "(hdr h)(?p := (hdr h ?p)\<lparr>mem_next := mem_next (hdr h (?p + n))\<rparr>)"
    have pf: "plug_forward mem h = h\<lparr>hdr := ?g(?q := (?g ?q)\<lparr>mem_prev := of_nat ?p\<rparr>)\<rparr>"
      using ne nm p sg(2) unfolding plug_forward_def Let_def at_def off by (simp add: off upd_def at_def mem)
    have "seg (?g(?q := (?g ?q)\<lparr>mem_prev := of_nat ?p\<rparr>)) ?q ?p cs'"
      by (rule seg_prev) (use nm p in auto)
    then show ?thesis using ok nm p sg unfolding pf by (simp add: blocks_ok_def cs add.assoc)
  qed
qed


lemma of_nat_next: "unat w = k \<Longrightarrow> w = of_nat k" for w :: DWORD
  by auto

lemma plug_backward_ok:
  assumes ok: "blocks_ok h (as @ (n, False) # cs)" and mem: "mem = ram h + of_nat (extent as)"
    and lf: "as \<noteq> [] \<Longrightarrow> \<not> snd (last as) \<Longrightarrow> lfree h \<noteq> mem"
  shows "blocks_ok (plug_backward mem h)
      (if as \<noteq> [] \<and> \<not> snd (last as) then butlast as @ (fst (last as) + n, False) # cs else as @ (n, False) # cs) \<and>
    lfree (plug_backward mem h) = lfree h \<and> ram (plug_backward mem h) = ram h"
proof (cases as rule: rev_cases)
  case Nil
  then have "mem_prev (hdr h 0) = 0" "off h mem = 0" using ok by (auto simp: blocks_ok_def unat_eq_0 mem off_def)
  then show ?thesis using ok by (simp add: plug_backward_def at_def Nil mem)
next
  case (snoc as' b)
  obtain k u where b: "b = (k, u)" by force
  let ?p = "extent as'"
  have ok': "blocks_ok h (as' @ (k, u) # (n, False) # cs)" and ok2: "blocks_ok h ((as' @ [(k, u)]) @ (n, False) # cs)"
    using ok by (simp_all add: snoc b)
  have U: "unat (of_nat ?p :: DWORD) = ?p" "unat (of_nat (?p + k) :: DWORD) = ?p + k" "24 \<le> k" "?p + k < 0x20000"
    using in_heap [OF ok' refl] in_heap [OF ok2 refl] by (simp_all del: of_nat_add)
  have D: "of_nat ?p \<noteq> (of_nat (?p + k) :: DWORD)"
  proof
    assume "of_nat ?p = (of_nat (?p + k) :: DWORD)"
    then have "?p = ?p + k" using U by metis
    with U(3) show False by simp
  qed
  have sg: "unat (mem_next (hdr h ?p)) = ?p + k" "mem_used (hdr h ?p) \<noteq> 0 \<longleftrightarrow> u" "unat (mem_prev (hdr h (?p + k))) = ?p"
      "mem_used (hdr h (?p + k)) = 0" "ram_end h = ram h + MEM_SIZE_ALIGNED"
    using ok' by (auto simp: blocks_ok_def)
  have off: "off h mem = ?p + k" using U by (simp add: mem snoc b del: of_nat_add)
  have ne: "ram h + mem_prev (hdr h (?p + k)) \<noteq> mem"
    using D by (auto simp: mem snoc b of_nat_next [OF sg(3)] simp del: of_nat_add)
  show ?thesis
  proof (cases u)
    case True
    then show ?thesis using ok sg ne by (simp add: plug_backward_def at_def off snoc b)
  next
    case False
    have nx: "mem_next (hdr h ?p) = of_nat (?p + k)" "mem_prev (hdr h (?p + k)) = of_nat ?p" "mem = ram h + of_nat (?p + k)"
      using of_nat_next [OF sg(1)] of_nat_next [OF sg(3)] by (simp_all add: mem snoc b)
    have ne2: "ram h + of_nat (?p + k) \<noteq> ram_end h" using U by (auto simp: sg(5) simp del: of_nat_add)
    have "plug_backward mem h = plug_forward (ram h + of_nat ?p) h"
      using ne ne2 sg U D lf False off unfolding plug_backward_def plug_forward_def Let_def at_def off
      by (auto simp: nx snoc b simp del: of_nat_add)
    then show ?thesis
      using plug_forward_ok [of h as' k "(n, False) # cs" "ram h + of_nat ?p"] ok' False lf by (simp add: nx snoc b)
  qed
qed


subsection \<open>Freeing\<close>

lemma sep_melt: "sep (melt bs)"
proof (induction bs rule: melt.induct)
  case (1 k u m v bs)
  show ?case
  proof (cases "u \<or> v")
    case True
    have "melt ((m, v) # bs) \<noteq> [] \<and> (v \<longrightarrow> snd (hd (melt ((m, v) # bs))))"
      by (induction "(m, v) # bs" arbitrary: m v bs rule: melt.induct) (auto simp: melt_used)
    then show ?thesis using 1(1) True by (auto simp: sep_Cons)
  qed (use 1(2) in simp)
qed auto

lemma first_free_melt: "first_free p (melt bs) = first_free p bs"
  by (induction bs arbitrary: p rule: melt.induct) auto

lemma live_melt: "live p (melt bs) = live p bs"
  by (induction bs arbitrary: p rule: melt.induct) (auto simp: add.assoc)

lemma live_append: "live p (as @ bs) = live p as @ live (p + extent as) bs"
  by (induction as arbitrary: p) (auto simp: add.assoc)

lemma live_split: "(a, l) \<in> set (live p bs) \<Longrightarrow> \<exists>as n cs. bs = as @ (n, True) # cs \<and> a = p + extent as + 12 \<and> l = n - 12"
proof (induction p bs rule: live.induct)
  case (2 p k u bs)
  show ?case
  proof (cases "u \<and> (a, l) = (p + 12, k - 12)")
    case True
    then show ?thesis by (intro exI [of _ "[]"]) auto
  next
    case False
    then have "(a, l) \<in> set (live (p + k) bs)" using 2(2) by (auto split: if_splits)
    from 2(1) [OF this] obtain as n cs where "bs = as @ (n, True) # cs" "a = p + k + extent as + 12" "l = n - 12" by blast
    then show ?thesis by (intro exI [of _ "(k, u) # as"]) auto
  qed
qed simp

lemma mark_at: "(\<forall>b \<in> set as. 0 < fst b) \<Longrightarrow> mark (p + extent as) p (as @ (n, u) # cs) = as @ (n, False) # cs"
  by (induction as arbitrary: p) (auto simp: add.assoc [symmetric])

lemma seg_sizes: "seg g p pr bs \<Longrightarrow> \<forall>b \<in> set bs. 24 \<le> fst b"
  by (induction g p pr bs rule: seg.induct) auto

lemma unat_addr: "blocks_ok h bs \<Longrightarrow> a \<le> 0x20000 \<Longrightarrow> unat (ram h + of_nat a) = unat (ram h) + a"
  by (subst unat_plus_simple [THEN iffD1]) (auto simp: blocks_ok_def word_le_nat_alt unat_word_ariths unat_offset)

lemma mem_free_ok:
  assumes ok: "heap_ok h (as @ (n, True) # cs)" and r: "rmem = ram h + of_nat (extent as + 12)"
  shows "heap_ok (mem_free rmem h) (melt (as @ (n, False) # cs)) \<and> ram (mem_free rmem h) = ram h"
proof -
  let ?p = "extent as" and ?new = "as @ (n, False) # cs" and ?mem = "ram h + of_nat (extent as)"
  have b: "blocks_ok h (as @ (n, True) # cs)" using ok by (simp add: heap_ok_def)
  note p = in_heap [OF b refl, simplified]
  have A: "unat rmem = unat (ram h) + (?p + 12)" "unat (ram_end h) = unat (ram h) + 0x20000"
    using unat_addr [OF b, of "?p + 12"] unat_addr [OF b, of "0x20000"] p b by (simp_all add: r blocks_ok_def)
  have guards: "rmem \<noteq> 0" "\<not> (rmem < ram h \<or> rmem \<ge> ram_end h)" "rmem - SIZEOF_STRUCT_MEM = ?mem"
    using A p by (auto simp: word_less_nat_alt word_le_nat_alt r)
  define h1 where "h1 = upd ?mem (\<lambda>m. m\<lparr>mem_used := 0\<rparr>) h"
  have b1: "blocks_ok h1 ?new" using b p by (auto simp: blocks_ok_def h1_def unat_offset)
  let ?h2 = "if ?mem < lfree h1 then h1\<lparr>lfree := ?mem\<rparr> else h1"
  have lf: "lfree ?h2 = ram h + of_nat (first_free 0 ?new)"
  proof -
    let ?f = "first_free 0 (as @ (n, True) # cs)"
    have "?f \<le> 0x20000" using first_free_bounds [of 0 "as @ (n, True) # cs"] b by (simp add: blocks_ok_def)
    then have less: "?mem < lfree h1 \<longleftrightarrow> ?p < ?f"
      using ok unat_addr [OF b] p by (simp add: h1_def heap_ok_def word_less_nat_alt)
    show ?thesis
    proof (cases "\<forall>b \<in> set as. snd b")
      case True
      then have "?p + n \<le> ?f" using first_free_bounds [of "?p + n" cs] by (simp add: first_free_append)
      then show ?thesis using less p True by (simp add: first_free_append h1_def)
    next
      case False
      then have "?f < ?p" using first_free_some [of "hdr h" 0 0 as] b by (auto simp: first_free_append blocks_ok_def)
      moreover have "?f = first_free 0 ?new" using False by (auto simp: first_free_append)
      ultimately show ?thesis using less ok by (simp add: h1_def heap_ok_def)
    qed
  qed
  have b2: "blocks_ok ?h2 ?new" "ram ?h2 = ram h" using b1 by (auto simp: blocks_ok_def h1_def)
  have sp: "sep as" "sep cs" using ok by (auto simp: heap_ok_def sep_append sep_Cons)
  have lfle: "first_free 0 ?new \<le> ?p" using first_free_bounds [of 0 as] by (simp add: first_free_append first_free_used)
  have f1: "lfree ?h2 \<noteq> ram ?h2 + of_nat (?p + n)"
  proof
    assume "lfree ?h2 = ram ?h2 + of_nat (?p + n)"
    then have "unat (ram h + of_nat (first_free 0 ?new)) = unat (ram h + of_nat (?p + n))" using lf b2 by simp
    then show False using unat_addr [OF b] lfle p by (simp del: of_nat_add)
  qed
  note F = plug_forward_ok [OF b2(1) _ f1, of ?mem]
  have lb: "lfree ?h2 \<noteq> ?mem" if "as \<noteq> []" "\<not> snd (last as)"
  proof
    assume "lfree ?h2 = ?mem"
    then have "unat (ram h + of_nat (first_free 0 ?new)) = unat (ram h + of_nat ?p)" using lf by simp
    moreover have "first_free 0 ?new < ?p"
      using first_free_some [of "hdr h" 0 0 as] that b by (auto simp: first_free_append blocks_ok_def)
    ultimately show False using unat_addr [OF b] p by simp
  qed
  obtain n' cs' where fw: "fwd n cs = (n', False) # cs'" by (cases "(n, cs)" rule: fwd.cases) auto
  let ?h3 = "plug_forward ?mem ?h2"
  have h3: "blocks_ok ?h3 (as @ (n', False) # cs')" "lfree ?h3 = lfree ?h2" "ram ?h3 = ram h" using F b2(2) by (auto simp: fw)
  have m: "melt ?new = (if as \<noteq> [] \<and> \<not> snd (last as) then butlast as @ (fst (last as) + n', False) # cs' else as @ (n', False) # cs')"
    using melt_at [OF sp, of n] fw by (cases "(n, cs)" rule: fwd.cases) auto
  have "blocks_ok (plug_backward ?mem ?h3) (melt ?new) \<and> lfree (plug_backward ?mem ?h3) = lfree ?h3 \<and> ram (plug_backward ?mem ?h3) = ram ?h3"
    unfolding m using lb h3 by (intro plug_backward_ok) auto
  moreover have "mem_free rmem h = plug_backward ?mem ?h3"
    using guards by (simp add: mem_free_def Let_def h1_def plug_holes_def)
  ultimately show ?thesis using lf h3 by (simp add: heap_ok_def sep_melt first_free_melt)
qed


subsection \<open>Allocation\<close>

lemma blocks_lfree [simp]: "blocks_ok (h\<lparr>lfree := x\<rparr>) bs = blocks_ok h bs"
  by (simp add: blocks_ok_def)

lemma addr_inj:
  assumes "blocks_ok h bs" "a \<le> 0x20000" "b \<le> 0x20000"
  shows "ram h + of_nat a = ram h + of_nat b \<longleftrightarrow> a = b" "ram h + of_nat a < ram h + of_nat b \<longleftrightarrow> a < b"
proof -
  note u = unat_addr [OF assms(1,2)] unat_addr [OF assms(1,3)]
  show "ram h + of_nat a < ram h + of_nat b \<longleftrightarrow> a < b" unfolding word_less_nat_alt u by simp
  have "unat (ram h + of_nat a) = unat (ram h + of_nat b) \<Longrightarrow> a = b" unfolding u by simp
  then show "ram h + of_nat a = ram h + of_nat b \<longleftrightarrow> a = b" by metis
qed

lemma lfree_loop_ok:
  assumes "blocks_ok h (as @ bs)" "lfree h = ram h + of_nat (extent as)"
  shows "lfree_loop h = Some (h\<lparr>lfree := ram h + of_nat (first_free (extent as) bs)\<rparr>)"
  using assms
proof (induction bs arbitrary: h as)
  case Nil
  then have "lfree h = ram_end h" by (simp add: blocks_ok_def)
  then show ?case using Nil by (subst lfree_loop.simps) simp
next
  case (Cons b bs)
  obtain k u where b: "b = (k, u)" by force
  note p = in_heap [OF Cons.prems(1) refl, unfolded b fst_conv]
  have s: "unat (mem_next (hdr h (extent as))) = extent as + k" "mem_used (hdr h (extent as)) \<noteq> 0 \<longleftrightarrow> u" "ram_end h = ram h + of_nat 0x20000"
    using Cons.prems by (auto simp: blocks_ok_def b)
  have ne: "ram h + of_nat (extent as) \<noteq> ram_end h"
    unfolding s(3) addr_inj(1) [OF Cons.prems(1) less_imp_le [OF p(4)] order_refl] using p(4) by simp
  show ?case
  proof (cases u)
    case True
    let ?h = "h\<lparr>lfree := ram h + of_nat (extent (as @ [b]))\<rparr>"
    have "lfree_loop h = lfree_loop ?h"
      using True s ne p Cons.prems(2) of_nat_next [OF s(1)] by (subst lfree_loop.simps) (simp add: at_def b)
    also have "\<dots> = Some (?h\<lparr>lfree := ram ?h + of_nat (first_free (extent (as @ [b])) bs)\<rparr>)"
      using Cons.prems(1) by (intro Cons.IH) simp_all
    finally show ?thesis using True by (simp add: b)
  next
    case False
    then show ?thesis using s p Cons.prems(2) by (subst lfree_loop.simps) (simp add: at_def b)
  qed
qed

lemma cut_ok:
  assumes b: "blocks_ok h (as @ (k, u) # cs @ rest)" and e: "e = k + extent cs" and n: "12 \<le> n" "4 dvd n" "n + 36 \<le> e"
    and q: "q = extent as + (n + 12)" "unat w = q" and nx: "unat nxt = extent as + e"
    and f: "unat (mem_next (f (hdr h (extent as)))) = q" "mem_prev (f (hdr h (extent as))) = mem_prev (hdr h (extent as))"
      "mem_used (f (hdr h (extent as))) \<noteq> 0"
  shows "blocks_ok (let h = upd (ram h + w) (\<lambda>m. m\<lparr>mem_used := 0, mem_next := nxt, mem_prev := of_nat (extent as)\<rparr>) h;
                        h = upd (ram h + of_nat (extent as)) f h
                    in if nxt \<noteq> MEM_SIZE_ALIGNED then upd (ram h + nxt) (\<lambda>m. m\<lparr>mem_prev := w\<rparr>) h else h)
    (as @ [(n + 12, True), (e - (n + 12), False)] @ rest)" (is "blocks_ok ?h1 ?new")
proof -
  let ?p = "extent as"
  have p: "?p + e \<le> 0x20000" "unat (of_nat ?p :: DWORD) = ?p" "unat w = q" "4 dvd ?p" "4 dvd e" "q < ?p + e" "?p < q"
  proof -
    have "?p + k + extent cs + extent rest = 0x20000" "4 dvd extent cs" "4 dvd k" "4 dvd ?p"
      using b seg_dvd by (auto simp: blocks_ok_def dest: seg_dvd)
    then show "?p + e \<le> 0x20000" "unat (of_nat ?p :: DWORD) = ?p" "unat w = q" "4 dvd ?p" "4 dvd e" "q < ?p + e" "?p < q"
      using e n by (auto simp: q unat_offset simp del: of_nat_add)
  qed
  obtain pr where s: "unat (mem_prev (hdr h ?p)) = last_start 0 0 as" "seg (hdr h) 0 0 as" "seg (hdr h) (?p + e) pr rest"
      "?p + e + extent rest = 0x20000" "mem_used (hdr h 0x20000) \<noteq> 0"
    using b by (auto simp: blocks_ok_def e add.assoc)
  define g where "g = hdr ?h1"
  have fin: "nxt \<noteq> MEM_SIZE_ALIGNED" if "rest \<noteq> []" using that s(3,4) nx by (cases rest) (auto split: prod.splits)
  have tail: "seg g (?p + e) q rest"
    by (rule seg_relink [OF s(3) p(3)]) (use p(2,3,6,7) fin in \<open>auto simp: g_def Let_def nx\<close>)
  have hd: "seg g 0 0 as" using s(2) p(2,3,6,7) by (subst seg_cong [where g = "hdr h"]) (auto simp: g_def Let_def nx)
  have at: "g ?p = f (hdr h ?p)" "mem_used (g q) = 0" "mem_next (g q) = nxt" "mem_prev (g q) = of_nat ?p" "mem_used (g 0x20000) \<noteq> 0"
    using p(1,2,3,6,7) s(5) by (auto simp: g_def Let_def nx)
  have "seg g 0 0 ?new"
    using hd tail at p s f n nx q by (auto simp: add.assoc)
  moreover have "ram ?h1 = ram h" "ram_end ?h1 = ram_end h" by (auto simp: Let_def)
  ultimately show ?thesis using b at(5) s(4) n(3) unfolding blocks_ok_def g_def by (simp add: e)
qed

lemma take_block_ok:
  assumes ok: "heap_ok h (as @ (k, False) # cs)" and n: "n + 12 \<le> k" "12 \<le> n" "4 dvd n"
  shows "\<exists>h'. take_block (of_nat n) (of_nat (extent as)) h = Some h' \<and> heap_ok h' (as @ split_block n k @ cs) \<and> ram h' = ram h"
proof -
  let ?p = "extent as" and ?q = "extent as + (n + 12)" and ?new = "as @ split_block n k @ cs"
  have b: "blocks_ok h (as @ (k, False) # cs)" using ok by (simp add: heap_ok_def)
  note p = in_heap [OF b refl, unfolded fst_conv]
  have s: "unat (mem_next (hdr h ?p)) = ?p + k" "mem_used (hdr h ?p) = 0" "unat (mem_prev (hdr h ?p)) = last_start 0 0 as"
      "seg (hdr h) 0 0 as" "seg (hdr h) (?p + k) ?p cs" "?p + k + extent cs = 0x20000" "mem_used (hdr h 0x20000) \<noteq> 0"
    using b by (auto simp: blocks_ok_def)
  note nx = of_nat_next [OF s(1)]
  have "mem_next (hdr h ?p) - (of_nat ?p + SIZEOF_STRUCT_MEM) = of_nat (k - 12)" using n by (simp add: nx of_nat_diff)
  moreover have "unat (of_nat (k - 12) :: DWORD) = k - 12" "unat (of_nat n + SIZEOF_STRUCT_MEM + MIN_SIZE_ALIGNED) = n + 24"
    using p n unat_offset [of "k - 12"] unat_word [of "n + 24"] by (simp_all add: add.commute)
  ultimately have fit: "mem_next (hdr h ?p) - (of_nat ?p + SIZEOF_STRUCT_MEM) \<ge> of_nat n + SIZEOF_STRUCT_MEM + MIN_SIZE_ALIGNED \<longleftrightarrow> n + 36 \<le> k"
    by (auto simp: word_le_nat_alt)
  let ?h1 = "(if n + 36 \<le> k then
      let ptr2 = of_nat ?p + SIZEOF_STRUCT_MEM + of_nat n; nxt = mem_next (hdr h ?p);
          h = upd (ram h + ptr2) (\<lambda>m. m\<lparr>mem_used := 0, mem_next := nxt, mem_prev := of_nat ?p\<rparr>) h;
          h = upd (ram h + of_nat ?p) (\<lambda>m. m\<lparr>mem_next := ptr2, mem_used := 1\<rparr>) h
      in if nxt \<noteq> MEM_SIZE_ALIGNED then upd (ram h + nxt) (\<lambda>m. m\<lparr>mem_prev := ptr2\<rparr>) h else h
    else upd (ram h + of_nat ?p) (\<lambda>m. m\<lparr>mem_used := 1\<rparr>) h)"
  have tb: "take_block (of_nat n) (of_nat ?p) h = (if ram h + of_nat ?p = lfree h then lfree_loop ?h1 else Some ?h1)"
    using p fit unfolding take_block_def Let_def at_def off_ram by simp
  have keep: "ram ?h1 = ram h" "ram_end ?h1 = ram_end h" "lfree ?h1 = lfree h" by (auto simp: Let_def)
  have b1: "blocks_ok ?h1 ?new"
  proof (cases "n + 36 \<le> k")
    case False
    then show ?thesis using b p by (auto simp: blocks_ok_def split_block_def unat_offset)
  next
    case True
    let ?w = "of_nat ?p + SIZEOF_STRUCT_MEM + of_nat n"
    have w: "unat ?w = ?q" using unat_offset [of ?q] p True by (simp add: ac_simps)
    have b': "blocks_ok h (as @ (k, False) # [] @ cs)" using b by simp
    have e: "k = k + extent []" by simp
    show ?thesis
      unfolding if_P [OF True] split_block_def Let_def
      by (rule cut_ok [unfolded Let_def, OF b' e n(2,3) True refl w s(1)]) (simp_all add: w)
  qed
  have sp: "sep ?new" using ok by (auto simp: heap_ok_def sep_append sep_Cons split_block_def)
  have lf: "lfree h = ram h + of_nat (first_free 0 (as @ (k, False) # cs))" using ok by (simp add: heap_ok_def)
  show ?thesis
  proof (cases "\<forall>b \<in> set as. snd b")
    case True
    then have f: "first_free 0 (as @ (k, False) # cs) = ?p" "first_free 0 ?new = first_free ?p (split_block n k @ cs)"
      by (simp_all add: first_free_append)
    have "lfree_loop ?h1 = Some (?h1\<lparr>lfree := ram ?h1 + of_nat (first_free ?p (split_block n k @ cs))\<rparr>)"
      by (rule lfree_loop_ok [OF b1]) (use lf f keep in simp)
    then show ?thesis unfolding tb lf f(1) using b1 sp keep f(2) by (simp add: heap_ok_def)
  next
    case False
    then have "first_free 0 (as @ (k, False) # cs) = first_free 0 as" "first_free 0 ?new = first_free 0 as" "first_free 0 as < ?p"
      using first_free_some [OF s(4)] by (auto simp: first_free_append)
    moreover from this have "ram h + of_nat ?p \<noteq> lfree h" unfolding lf using addr_inj(1) [OF b, of ?p "first_free 0 as"] p by simp
    ultimately show ?thesis unfolding tb using b1 sp keep lf by (simp add: heap_ok_def)
  qed
qed


lemma first_fit_none: "(\<And>k. (k, False) \<in> set bs \<Longrightarrow> k < n + 12) \<Longrightarrow> first_fit n p bs = None"
proof (induction bs arbitrary: p)
  case (Cons b bs)
  obtain k u where b: "b = (k, u)" by force
  have "first_fit n (p + k) bs = None" by (rule Cons.IH) (simp add: Cons.prems)
  moreover have "\<not> u \<Longrightarrow> k < n + 12" using Cons.prems [of k] by (simp add: b)
  ultimately show ?case by (auto simp: b)
qed simp

lemma block_le_extent: "(k, u) \<in> set bs \<Longrightarrow> k \<le> extent bs"
proof (induction bs)
  case (Cons b bs)
  then show ?case by (cases b) auto
qed simp

lemma malloc_loop_ok:
  assumes "heap_ok h (as @ bs)" "12 \<le> n" "4 dvd n" "n \<le> 0x20000"
  shows "case first_fit n (extent as) bs of
      None \<Rightarrow> malloc_loop (of_nat n) (of_nat (extent as)) h = Some (0, h)
    | Some (p, bs') \<Rightarrow> \<exists>h'. malloc_loop (of_nat n) (of_nat (extent as)) h = Some (ram h + of_nat p + SIZEOF_STRUCT_MEM, h') \<and>
        heap_ok h' (as @ bs') \<and> ram h' = ram h"
  using assms(1)
proof (induction bs arbitrary: as)
  case Nil
  then have "extent as = 0x20000" by (simp add: heap_ok_def blocks_ok_def)
  moreover have "\<not> (MEM_SIZE_ALIGNED < MEM_SIZE_ALIGNED - of_nat n)"
    using assms(4) by (auto simp: word_less_nat_alt unat_sub_if' unat_offset)
  ultimately show ?case by (subst malloc_loop.simps) simp
next
  case (Cons b bs)
  obtain k u where b: "b = (k, u)" by force
  let ?p = "extent as"
  have ok: "blocks_ok h (as @ (k, u) # bs)" using Cons.prems by (simp add: heap_ok_def b)
  note p = in_heap [OF ok refl, unfolded fst_conv]
  have s: "unat (mem_next (hdr h ?p)) = ?p + k" "mem_used (hdr h ?p) \<noteq> 0 \<longleftrightarrow> u" "?p + k + extent bs = 0x20000"
    using ok by (auto simp: blocks_ok_def)
  note nx = of_nat_next [OF s(1)]
  have un: "unat (of_nat n :: DWORD) = n" using assms(4) by (rule unat_offset)
  have g: "of_nat ?p < MEM_SIZE_ALIGNED - of_nat n \<longleftrightarrow> ?p + n < 0x20000"
    using p un assms(4) by (auto simp: word_less_nat_alt unat_sub_if' word_le_nat_alt)
  have f: "mem_next (hdr h ?p) - (of_nat ?p + SIZEOF_STRUCT_MEM) \<ge> of_nat n \<longleftrightarrow> n + 12 \<le> k"
  proof -
    have "mem_next (hdr h ?p) - (of_nat ?p + SIZEOF_STRUCT_MEM) = of_nat (k - 12)" using p by (simp add: nx of_nat_diff)
    moreover have "unat (of_nat (k - 12) :: DWORD) = k - 12" using p by (intro unat_offset) simp
    ultimately have "unat (mem_next (hdr h ?p) - (of_nat ?p + SIZEOF_STRUCT_MEM)) = k - 12" by metis
    then show ?thesis using p by (auto simp: word_le_nat_alt un)
  qed
  show ?case
  proof (cases "?p + n < 0x20000")
    case False
    have "first_fit n ?p (b # bs) = None"
      using False s(3) block_le_extent by (intro first_fit_none) (fastforce simp: b)
    then show ?thesis using False g by (subst malloc_loop.simps) simp
  next
    case True
    show ?thesis
    proof (cases "\<not> u \<and> n + 12 \<le> k")
      case fits: True
      then obtain h' where "take_block (of_nat n) (of_nat ?p) h = Some h'" "heap_ok h' (as @ split_block n k @ bs)" "ram h' = ram h"
        using take_block_ok [of h as k bs n] Cons.prems assms(2,3) by (auto simp: b)
      then show ?thesis using fits True g f s p by (subst malloc_loop.simps) (simp add: b at_def)
    next
      case skip: False
      have st: "malloc_loop (of_nat n) (of_nat ?p) h = malloc_loop (of_nat n) (of_nat (extent (as @ [b]))) h"
        using skip True g f s p nx by (subst malloc_loop.simps) (auto simp: b at_def)
      show ?thesis using Cons.IH [of "as @ [b]"] Cons.prems skip unfolding st
        by (auto simp: b split: option.splits prod.splits)
    qed
  qed
qed


definition cut :: "DWORD \<Rightarrow> DWORD \<Rightarrow> (mem \<Rightarrow> mem) \<Rightarrow> DWORD \<Rightarrow> DWORD \<Rightarrow> heap \<Rightarrow> heap" where
  "cut r p f w nxt h =
     (let h = upd (r + w) (\<lambda>m. m\<lparr>mem_used := 0, mem_next := nxt, mem_prev := p\<rparr>) h;
          h = upd (r + p) f h
      in if nxt \<noteq> MEM_SIZE_ALIGNED then upd (r + nxt) (\<lambda>m. m\<lparr>mem_prev := w\<rparr>) h else h)"

lemma cut_blocks:
  assumes "blocks_ok h (as @ (k, u) # cs @ rest)" "r = ram h" "e = k + extent cs" "12 \<le> n" "4 dvd n" "n + 36 \<le> e"
    "q = extent as + (n + 12)" "unat w = q" "unat nxt = extent as + e"
    "unat (mem_next (f (hdr h (extent as)))) = q" "mem_prev (f (hdr h (extent as))) = mem_prev (hdr h (extent as))"
    "mem_used (f (hdr h (extent as))) \<noteq> 0"
  shows "blocks_ok (cut r (of_nat (extent as)) f w nxt h) (as @ [(n + 12, True), (e - (n + 12), False)] @ rest)"
  using cut_ok [where f = f, OF assms(1,3-)] unfolding cut_def assms(2) by (simp add: Let_def cong: if_cong)

lemma cut_fields [simp]: "ram (cut r p f w nxt h) = ram h" "ram_end (cut r p f w nxt h) = ram_end h" "lfree (cut r p f w nxt h) = lfree h"
  by (auto simp: cut_def Let_def)

text \<open>The size of a request in a block: rounded up to words, and at least 12 bytes.\<close>

definition data_size :: "nat \<Rightarrow> nat" where
  "data_size n = max 12 (4 * ((n + 3) div 4))"

lemma data_size_facts: "12 \<le> data_size n" "4 dvd data_size n" "n \<le> data_size n"
  by (auto simp: data_size_def max_def)

lemma align_size:
  assumes "unat x + 3 < 2 ^ 32"
  shows "unat (LWIP_MEM_ALIGN_SIZE x) = 4 * ((unat x + 3) div 4)"
proof -
  have two: "Suc (Suc (i - 2)) = i" if "2 \<le> i" for i using that by simp
  have u: "unat (x + 3) = unat x + 3" using assms by (simp add: unat_word_ariths)
  have "LWIP_MEM_ALIGN_SIZE x = (x + 3) AND NOT (mask 2)" by (simp add: LWIP_MEM_ALIGN_SIZE_def mask_eq_exp_minus_1 add.commute)
  also have "\<dots> = push_bit 2 (drop_bit 2 (x + 3))" by (rule bit_word_eqI) (auto simp: bit_simps two simp del: add_2_eq_Suc)
  finally have "unat (LWIP_MEM_ALIGN_SIZE x) = take_bit 32 (push_bit 2 (drop_bit 2 (unat (x + 3))))"
    using take_bit_nat_eq_self [of "unat (x + 3)" 32] assms u
    by (simp add: unsigned_push_bit_eq unsigned_drop_bit_eq)
  then have "unat (LWIP_MEM_ALIGN_SIZE x) = (4 * ((unat x + 3) div 4)) mod 2 ^ 32"
    by (simp add: u push_bit_eq_mult drop_bit_eq_div take_bit_eq_mod mult.commute)
  moreover have "4 * ((unat x + 3) div 4) < 2 ^ 32" using assms by linarith
  ultimately show ?thesis by simp
qed

lemma first_fit_used:
  "(\<forall>b \<in> set as. snd b) \<Longrightarrow> first_fit n p (as @ bs) = map_option (apsnd ((@) as)) (first_fit n (p + extent as) bs)"
proof (induction as arbitrary: p)
  case (Cons b as)
  then show ?case by (cases b) (auto simp: option.map_comp comp_def add.assoc apsnd_def map_prod_def split_beta intro!: option.map_cong)
next
  case Nil
  show ?case by (cases "first_fit n p bs") auto
qed

lemma mem_malloc_ok:
  assumes ok: "heap_ok h bs" and sz: "0 < unat sz" "unat sz + 3 < 2 ^ 32"
  shows "case first_fit (data_size (unat sz)) 0 bs of
      None \<Rightarrow> mem_malloc sz h = Some (0, h)
    | Some (p, bs') \<Rightarrow> \<exists>h'. mem_malloc sz h = Some (ram h + of_nat p + SIZEOF_STRUCT_MEM, h') \<and> heap_ok h' bs' \<and> ram h' = ram h"
proof -
  let ?n = "data_size (unat sz)" and ?al = "LWIP_MEM_ALIGN_SIZE sz"
  let ?sz = "if ?al < MIN_SIZE_ALIGNED then MIN_SIZE_ALIGNED else ?al"
  have n: "unat ?sz = ?n" using align_size [OF sz(2)] by (auto simp: data_size_def word_less_nat_alt max_def)
  have mm: "mem_malloc sz h = (if ?sz > MEM_SIZE_ALIGNED then Some (0, h) else malloc_loop ?sz (lfree h - ram h) h)"
    using sz(1) by (auto simp: mem_malloc_def Let_def)
  have ex: "extent bs = 0x20000" using ok by (simp add: heap_ok_def blocks_ok_def)
  show ?thesis
  proof (cases "?n \<le> 0x20000")
    case False
    then have "first_fit ?n 0 bs = None" using block_le_extent ex by (intro first_fit_none) fastforce
    moreover have "?sz > MEM_SIZE_ALIGNED" using False n by (simp add: word_less_nat_alt)
    ultimately show ?thesis unfolding mm by simp
  next
    case True
    then have "\<not> ?sz > MEM_SIZE_ALIGNED" using n by (simp add: word_less_nat_alt)
    then have loop: "mem_malloc sz h = malloc_loop (of_nat ?n) (lfree h - ram h) h" unfolding mm using of_nat_next [OF n] by simp
    let ?as = "takeWhile snd bs" and ?cs = "dropWhile snd bs"
    have used: "\<forall>b \<in> set ?as. snd b" by (auto dest: set_takeWhileD)
    have "first_free 0 (?as @ ?cs) = first_free (extent ?as) ?cs" using used by (subst first_free_append) simp
    also have "\<dots> = extent ?as"
    proof (cases ?cs)
      case (Cons c cs)
      then have "\<not> snd c" using hd_dropWhile [of snd bs] by (metis list.distinct(1) list.sel(1))
      then show ?thesis by (cases c) (simp add: Cons)
    next
      case Nil
      show ?thesis unfolding Nil by (simp only: first_free.simps)
    qed
    finally have "lfree h - ram h = of_nat (extent ?as)" using ok by (simp add: heap_ok_def)
    then show ?thesis
      using malloc_loop_ok [of h ?as ?cs ?n] ok data_size_facts True first_fit_used [OF used, of ?n 0 ?cs]
      unfolding loop by (auto split: option.splits)
  qed
qed


subsection \<open>Shrinking, and the empty heap\<close>

lemma mem_init_ok:
  assumes "unat ram_heap + 0x20010 < 2 ^ 32"
  shows "heap_ok (mem_init ram_heap h) [(0x20000, False)]"
proof -
  have "unat (LWIP_MEM_ALIGN_SIZE ram_heap) = 4 * ((unat ram_heap + 3) div 4)" using assms by (intro align_size) simp
  moreover have "4 * ((unat ram_heap + 3) div 4) \<le> unat ram_heap + 3" by (rule times_div_less_eq_dividend)
  ultimately have "4 dvd unat (LWIP_MEM_ALIGN_SIZE ram_heap)" "unat (LWIP_MEM_ALIGN_SIZE ram_heap) + 0x2000C < 2 ^ 32"
    using assms by simp_all
  then show ?thesis by (simp add: heap_ok_def blocks_ok_def mem_init_def Let_def upd_def at_def off_def)
qed

definition trimmed :: "nat \<Rightarrow> nat \<Rightarrow> (nat \<times> bool) list \<Rightarrow> (nat \<times> bool) list" where
  "trimmed n k cs =
     (case cs of
        (m, False) # cs' \<Rightarrow> if n + 12 < k then [(n + 12, True), (k + m - (n + 12), False)] @ cs' else (k, True) # cs
      | _ \<Rightarrow> if n + 36 \<le> k then [(n + 12, True), (k - (n + 12), False)] @ cs else (k, True) # cs)"

lemma mem_trim_ok:
  assumes ok: "heap_ok h (as @ (k, True) # cs)" and r: "rmem = ram h + of_nat (extent as + 12)" and sz: "unat newsize + 3 < 2 ^ 32"
  shows "\<exists>h'. mem_trim rmem newsize h = (if data_size (unat newsize) + 12 \<le> k then rmem else 0, h') \<and>
    heap_ok h' (as @ trimmed (data_size (unat newsize)) k cs) \<and> ram h' = ram h"
proof -
  let ?p = "extent as" and ?n = "data_size (unat newsize)" and ?mem = "ram h + of_nat (extent as)"
  let ?al = "LWIP_MEM_ALIGN_SIZE newsize"
  define ns where "ns = (if ?al < MIN_SIZE_ALIGNED then MIN_SIZE_ALIGNED else ?al)"
  have un: "unat ns = ?n" using align_size [OF sz] by (auto simp: ns_def data_size_def word_less_nat_alt max_def)
  have b: "blocks_ok h (as @ (k, True) # cs)" using ok by (simp add: heap_ok_def)
  note p = in_heap [OF b refl, unfolded fst_conv]
  have A: "unat rmem = unat (ram h) + (?p + 12)" "unat (ram_end h) = unat (ram h) + 0x20000"
    using unat_addr [OF b, of "?p + 12"] unat_addr [OF b, of "0x20000"] p b by (simp_all add: r blocks_ok_def)
  have guards: "\<not> (rmem < ram h \<or> rmem \<ge> ram_end h)" "rmem - SIZEOF_STRUCT_MEM = ?mem" "?mem - ram h = of_nat ?p"
    using A p by (auto simp: word_less_nat_alt word_le_nat_alt r)
  have s: "unat (mem_next (hdr h ?p)) = ?p + k" "mem_used (hdr h ?p) \<noteq> 0" "unat (mem_prev (hdr h ?p)) = last_start 0 0 as"
      "seg (hdr h) 0 0 as" "seg (hdr h) (?p + k) ?p cs" "?p + k + extent cs = 0x20000" "mem_used (hdr h 0x20000) \<noteq> 0"
    using b by (auto simp: blocks_ok_def)
  note nx = of_nat_next [OF s(1)]
  define usz where "usz = mem_next (hdr h ?p) - of_nat ?p - SIZEOF_STRUCT_MEM"
  have usz: "unat usz = k - 12"
  proof -
    have "usz = of_nat (k - 12)" using p by (simp add: usz_def nx of_nat_diff)
    moreover have "unat (of_nat (k - 12) :: DWORD) = k - 12" using p by (intro unat_offset) simp
    ultimately show ?thesis by metis
  qed
  have eq: "ns = usz \<longleftrightarrow> ?n = k - 12" using of_nat_next [OF un] of_nat_next [OF usz] un usz by metis
  have mt: "mem_trim rmem newsize h =
      (if 0x20000 < ?n then (0, h) else if k - 12 < ?n then (0, h) else if ?n = k - 12 then (rmem, h) else
        let ptr2 = of_nat ?p + SIZEOF_STRUCT_MEM + ns; mem2 = ram h + mem_next (hdr h ?p)
        in if mem_used (at h mem2) = 0 then
            let nxt = mem_next (at h mem2);
                h = (if lfree h = mem2 then h\<lparr>lfree := ram h + ptr2\<rparr> else h);
                h = upd (ram h + ptr2) (\<lambda>m. m\<lparr>mem_used := 0, mem_next := nxt, mem_prev := of_nat ?p\<rparr>) h;
                h = upd ?mem (\<lambda>m. m\<lparr>mem_next := ptr2\<rparr>) h
            in (rmem, if nxt \<noteq> MEM_SIZE_ALIGNED then upd (ram h + nxt) (\<lambda>m. m\<lparr>mem_prev := ptr2\<rparr>) h else h)
          else if ?n + 36 \<le> k then
            let h = (if ram h + ptr2 < lfree h then h\<lparr>lfree := ram h + ptr2\<rparr> else h);
                nxt = mem_next (hdr h ?p);
                h = upd (ram h + ptr2) (\<lambda>m. m\<lparr>mem_used := 0, mem_next := nxt, mem_prev := of_nat ?p\<rparr>) h;
                h = upd ?mem (\<lambda>m. m\<lparr>mem_next := ptr2\<rparr>) h
            in (rmem, if nxt \<noteq> MEM_SIZE_ALIGNED then upd (ram h + nxt) (\<lambda>m. m\<lparr>mem_prev := ptr2\<rparr>) h else h)
          else (rmem, h))"
  proof -
    have fit: "24 + ns \<le> usz \<longleftrightarrow> ?n + 36 \<le> k" if "\<not> 0x20000 < ?n"
    proof -
      have "unat (24 + ns) = ?n + 24" using that un by (simp add: unat_word_ariths)
      then show ?thesis using usz p by (auto simp: word_le_nat_alt)
    qed
    have cmp: "MEM_SIZE_ALIGNED < ns \<longleftrightarrow> 0x20000 < ?n" "usz < ns \<longleftrightarrow> k - 12 < ?n"
      by (simp_all add: word_less_nat_alt un usz)
    show ?thesis
    proof (cases "0x20000 < ?n")
      case True
      then show ?thesis unfolding mem_trim_def Let_def ns_def [symmetric] by (simp add: cmp)
    next
      case False
      then show ?thesis
        using guards(1) p(3) unfolding mem_trim_def Let_def ns_def [symmetric] guards(2,3)
        by (simp add: at_def usz_def [symmetric] eq fit [OF False] cmp cong: if_cong)
    qed
  qed
  show ?thesis
  proof (cases "?n + 12 < k")
    case False
    then have "mem_trim rmem newsize h = (if ?n + 12 \<le> k then rmem else 0, h)" using p unfolding mt by auto
    moreover have "trimmed ?n k cs = (k, True) # cs" using False by (auto simp: trimmed_def split: list.splits prod.splits bool.splits)
    ultimately show ?thesis using ok by simp
  next
    case True
    let ?q = "?p + (?n + 12)" and ?w = "of_nat ?p + SIZEOF_STRUCT_MEM + ns"
    have w: "unat ?w = ?q" using un p True by (simp add: unat_word_ariths)
    have lf: "lfree h = ram h + of_nat (first_free 0 (as @ (k, True) # cs))" using ok by (simp add: heap_ok_def)
    have w': "?w = of_nat ?q" by (rule of_nat_next [OF w])
    have nM: "\<not> 0x20000 < ?n" "\<not> k - 12 < ?n" "?n \<noteq> k - 12" using True p by auto
    show ?thesis
    proof (cases "\<exists>m cs'. cs = (m, False) # cs'")
      case free: True
      then obtain m cs' where cs: "cs = (m, False) # cs'" by blast
      have u2: "mem_used (hdr h (?p + k)) = 0" "unat (mem_next (hdr h (?p + k))) = ?p + (k + m)" "24 \<le> m"
        using s(5) by (auto simp: cs add.assoc)
      let ?h0 = "if lfree h = ram h + mem_next (hdr h ?p) then h\<lparr>lfree := ram h + ?w\<rparr> else h"
      have b0: "blocks_ok ?h0 (as @ (k, True) # [(m, False)] @ cs')" using b by (simp add: cs)
      have keep: "ram ?h0 = ram h" "off ?h0 = off h" "hdr ?h0 = hdr h" by simp_all
      let ?h3 = "cut (ram h) (of_nat ?p) (\<lambda>m. m\<lparr>mem_next := ?w\<rparr>) ?w (mem_next (hdr h (?p + k))) ?h0"
      have "mem_trim rmem newsize h = (rmem, ?h3)"
        using nM u2(1) unfolding mt cut_def by (simp add: Let_def at_def s(1))
      moreover have "blocks_ok ?h3 (as @ [(?n + 12, True), (k + m - (?n + 12), False)] @ cs')"
        using s(2) by (intro cut_blocks [OF b0 keep(1) [symmetric] _ data_size_facts(1,2) _ refl w u2(2)])
          (use True u2(3) w keep(3) in simp_all)
      moreover have "sep (as @ [(?n + 12, True), (k + m - (?n + 12), False)] @ cs')"
        using ok by (auto simp: heap_ok_def sep_append sep_Cons cs)
      moreover have "lfree ?h3 = ram h + of_nat (first_free 0 (as @ [(?n + 12, True), (k + m - (?n + 12), False)] @ cs'))"
      proof (cases "\<forall>b \<in> set as. snd b")
        case a: True
        then have "lfree h = ram h + mem_next (hdr h ?p)" unfolding lf nx by (simp add: first_free_append cs)
        then show ?thesis using a w' by (simp add: first_free_append)
      next
        case a: False
        then have f: "first_free 0 (as @ (k, True) # cs) = first_free 0 as" "first_free 0 as < ?p"
          using first_free_some [OF s(4)] by (auto simp: first_free_append)
        then have "lfree h \<noteq> ram h + mem_next (hdr h ?p)"
          unfolding lf nx f(1) using addr_inj(1) [OF b, of "first_free 0 as" "?p + k"] p by (simp del: of_nat_add)
        then show ?thesis using a f lf by (auto simp: first_free_append)
      qed
      ultimately show ?thesis using True by (simp add: heap_ok_def trimmed_def cs)
    next
      case used: False
      have u2: "mem_used (hdr h (?p + k)) \<noteq> 0" using used s(5-7) by (cases cs) (auto split: prod.splits)
      have tr: "trimmed ?n k cs = (if ?n + 36 \<le> k then [(?n + 12, True), (k - (?n + 12), False)] @ cs else (k, True) # cs)"
        using used by (auto simp: trimmed_def split: list.splits prod.splits bool.splits)
      show ?thesis
      proof (cases "?n + 36 \<le> k")
        case False
        then have "mem_trim rmem newsize h = (rmem, h)" using nM u2 unfolding mt by (simp add: Let_def at_def s(1))
        then show ?thesis using True ok tr False by simp
      next
        case fit: True
        let ?h0 = "if ram h + ?w < lfree h then h\<lparr>lfree := ram h + ?w\<rparr> else h"
        have keep: "ram ?h0 = ram h" "off ?h0 = off h" "hdr ?h0 = hdr h" by simp_all
        have b0: "blocks_ok ?h0 (as @ (k, True) # [] @ cs)" using b by simp
        let ?h3 = "cut (ram h) (of_nat ?p) (\<lambda>m. m\<lparr>mem_next := ?w\<rparr>) ?w (mem_next (hdr h ?p)) ?h0"
        have "mem_trim rmem newsize h = (rmem, ?h3)"
          using nM u2 fit unfolding mt cut_def by (simp add: Let_def at_def s(1))
        moreover have "blocks_ok ?h3 (as @ [(?n + 12, True), (k - (?n + 12), False)] @ cs)"
          using s(2) by (intro cut_blocks [OF b0 keep(1) [symmetric] _ data_size_facts(1,2) _ refl w s(1)])
            (use fit w keep(3) in simp_all)
        moreover have "sep (as @ [(?n + 12, True), (k - (?n + 12), False)] @ cs)"
          using ok used by (cases cs) (auto simp: heap_ok_def sep_append sep_Cons)
        moreover have "lfree ?h3 = ram h + of_nat (first_free 0 (as @ [(?n + 12, True), (k - (?n + 12), False)] @ cs))"
        proof -
          let ?f = "first_free 0 (as @ (k, True) # cs)"
          have "?f \<le> 0x20000" using first_free_bounds [of 0 "as @ (k, True) # cs"] s(6) by simp
          then have less: "ram h + ?w < lfree h \<longleftrightarrow> ?q < ?f"
            unfolding lf w' using addr_inj(2) [OF b, of ?q ?f] p fit by (simp del: of_nat_add)
          show ?thesis
          proof (cases "\<forall>b \<in> set as. snd b")
            case a: True
            then have "?p + k \<le> ?f" using first_free_bounds [of "?p + k" cs] by (simp add: first_free_append)
            then have "ram h + ?w < lfree h" using less fit by simp
            then have "lfree ?h3 = ram h + ?w" by simp
            then have "lfree ?h3 = ram h + of_nat ?q" by (simp only: w')
            then show ?thesis using a by (simp add: first_free_append)
          next
            case a: False
            then have f: "?f = first_free 0 as" "first_free 0 as < ?p" using first_free_some [OF s(4)] by (auto simp: first_free_append)
            then show ?thesis using a lf less by (auto simp: first_free_append)
          qed
        qed
        ultimately show ?thesis using True tr fit by (simp add: heap_ok_def)
      qed
    qed
  qed
qed


section \<open>What the blocks promise\<close>

text \<open>An allocator, as its clients see it: the blocks handed out, by address and length.\<close>

locale allocator =
  fixes alloc :: "DWORD \<Rightarrow> 's \<Rightarrow> (DWORD \<times> 's) option"
    and release :: "DWORD \<Rightarrow> 's \<Rightarrow> 's"
    and good :: "'s \<Rightarrow> bool"
    and asked :: "DWORD \<Rightarrow> bool"
    and handed :: "'s \<Rightarrow> (DWORD \<times> nat) set"
  assumes alloc_law: "good s \<Longrightarrow> asked n \<Longrightarrow> \<exists>p s'. alloc n s = Some (p, s') \<and> good s' \<and>
      (if p = 0 then s' = s else \<exists>l\<ge>unat n. p \<notin> fst ` handed s \<and> handed s' = insert (p, l) (handed s))"
    and release_law: "good s \<Longrightarrow> (p, l) \<in> handed s \<Longrightarrow> good (release p s) \<and> handed (release p s) = handed s - {(p, l)}"
    and apart_law: "good s \<Longrightarrow> (p, l) \<in> handed s \<Longrightarrow> (q, m) \<in> handed s \<Longrightarrow> (p, l) \<noteq> (q, m) \<Longrightarrow>
      unat p + l \<le> unat q \<or> unat q + m \<le> unat p"
begin

lemma new_block_apart:
  assumes "good s" "asked n" "alloc n s = Some (p, s')" "p \<noteq> 0" "(q, m) \<in> handed s"
  shows "unat p + unat n \<le> unat q \<or> unat q + m \<le> unat p"
proof -
  obtain l where l: "unat n \<le> l" "p \<notin> fst ` handed s" "handed s' = insert (p, l) (handed s)" "good s'"
    using alloc_law [OF assms(1,2)] assms(3,4) by auto
  then have "(p, l) \<in> handed s'" "(q, m) \<in> handed s'" "(p, l) \<noteq> (q, m)" using assms(5) by force+
  from apart_law [OF l(4) this] l(1) show ?thesis by linarith
qed

lemma release_undoes:
  assumes "good s" "asked n" "alloc n s = Some (p, s')" "p \<noteq> 0"
  shows "good (release p s') \<and> handed (release p s') = handed s"
proof -
  obtain l where l: "p \<notin> fst ` handed s" "handed s' = insert (p, l) (handed s)" "good s'"
    using alloc_law [OF assms(1,2)] assms(3,4) by auto
  then have "good (release p s') \<and> handed (release p s') = handed s' - {(p, l)}" by (intro release_law) auto
  moreover have "(p, l) \<notin> handed s" using l(1) by force
  ultimately show ?thesis using l(2) by simp
qed

end

lemma seg_unique:
  "seg g p pr bs \<Longrightarrow> seg g p pr' bs' \<Longrightarrow> extent bs = extent bs' \<Longrightarrow> bs = bs'"
proof (induction bs arbitrary: p pr pr' bs')
  case Nil
  then show ?case by (cases bs') auto
next
  case (Cons b bs)
  obtain n u where b: "b = (n, u)" by force
  have "bs' \<noteq> []" using Cons.prems by (auto simp: b)
  then obtain n' u' cs where bs': "bs' = (n', u') # cs" by (metis list.exhaust prod.exhaust)
  have "n' = n" "u' = u" using Cons.prems by (auto simp: b bs')
  then show ?case using Cons.prems Cons.IH [of "p + n" p p cs] by (simp add: b bs')
qed

lemma heap_ok_unique: "heap_ok h bs \<Longrightarrow> heap_ok h bs' \<Longrightarrow> bs = bs'"
  by (auto simp: heap_ok_def blocks_ok_def intro: seg_unique)

definition in_use :: "heap \<Rightarrow> (DWORD \<times> nat) set" where
  "in_use h = {(ram h + of_nat a, l) | a l bs. heap_ok h bs \<and> (a, l) \<in> set (live 0 bs)}"

lemma in_use_live: "heap_ok h bs \<Longrightarrow> in_use h = (\<lambda>(a, l). (ram h + of_nat a, l)) ` set (live 0 bs)"
proof -
  assume "heap_ok h bs"
  then have "heap_ok h bs' \<longleftrightarrow> bs' = bs" for bs' using heap_ok_unique by blast
  then show ?thesis by (auto simp: in_use_def image_iff)
qed

lemma live_bounds: "seg g p pr bs \<Longrightarrow> (a, l) \<in> set (live p bs) \<Longrightarrow> p + 12 \<le> a \<and> a + l \<le> p + extent bs \<and> 12 \<le> l"
proof (induction g p pr bs rule: seg.induct)
  case (2 g p pr n u bs)
  show ?case
  proof (cases "(a, l) \<in> set (live (p + n) bs)")
    case True
    then show ?thesis using 2 by fastforce
  next
    case False
    then show ?thesis using 2(2,3) by (auto split: if_splits)
  qed
qed simp

lemma live_apart:
  "seg g p pr bs \<Longrightarrow> (a, l) \<in> set (live p bs) \<Longrightarrow> (b, m) \<in> set (live p bs) \<Longrightarrow> (a, l) \<noteq> (b, m) \<Longrightarrow>
    a + l + 12 \<le> b \<or> b + m + 12 \<le> a"
proof (induction g p pr bs rule: seg.induct)
  case (2 g p pr n u bs)
  have s: "seg g (p + n) p bs" "24 \<le> n" using 2(2) by auto
  have in_tail: "p + n + 12 \<le> x" if "(x, y) \<in> set (live (p + n) bs)" for x y using live_bounds [OF s(1) that] by simp
  consider "(a, l) \<in> set (live (p + n) bs)" "(b, m) \<in> set (live (p + n) bs)"
    | "u" "(a, l) = (p + 12, n - 12)" "(b, m) \<in> set (live (p + n) bs)"
    | "u" "(b, m) = (p + 12, n - 12)" "(a, l) \<in> set (live (p + n) bs)"
    using 2(3-5) by (auto split: if_splits)
  then show ?case
  proof cases
    case 1 then show ?thesis using 2(1) s 2(5) by blast
  next
    case 2 then show ?thesis using in_tail [of b m] s by simp
  next
    case 3 then show ?thesis using in_tail [of a l] s by simp
  qed
qed simp

lemma live_words: "seg g p pr bs \<Longrightarrow> 4 dvd p \<Longrightarrow> (a, l) \<in> set (live p bs) \<Longrightarrow> 4 dvd a"
  by (induction g p pr bs rule: seg.induct) (auto split: if_splits)


lemma live_first_fit:
  "first_fit n p bs = Some (q, bs') \<Longrightarrow> seg g p pr bs \<Longrightarrow>
    \<exists>l\<ge>n. set (live p bs') = insert (q + 12, l) (set (live p bs)) \<and> p \<le> q \<and> q + 12 + l \<le> p + extent bs \<and>
      q + 12 \<notin> fst ` set (live p bs)"
proof (induction n p bs arbitrary: pr bs' rule: first_fit.induct)
  case (2 n p k u bs)
  have s: "seg g (p + k) p bs" "24 \<le> k" using 2(3) by auto
  have tail: "p + k + 12 \<le> a" if "(a, l) \<in> set (live (p + k) bs)" for a l using live_bounds [OF s(1) that] by simp
  show ?case
  proof (cases "\<not> u \<and> n + 12 \<le> k")
    case True
    then have q: "q = p" "bs' = split_block n k @ bs" using 2(2) by auto
    have "q + 12 \<notin> fst ` set (live p ((k, u) # bs))" using tail True q s(2) by fastforce
    then show ?thesis using True q
      by (intro exI [of _ "if n + 36 \<le> k then n else k - 12"]) (auto simp: split_block_def add.assoc)
  next
    case False
    then obtain cs where cs: "first_fit n (p + k) bs = Some (q, cs)" "bs' = (k, u) # cs" using 2(2) by auto
    from 2(1) [OF False cs(1) s(1)] obtain l where
      l: "n \<le> l" "set (live (p + k) cs) = insert (q + 12, l) (set (live (p + k) bs))" "p + k \<le> q" "q + 12 + l \<le> p + k + extent bs"
        "q + 12 \<notin> fst ` set (live (p + k) bs)" by blast
    then show ?thesis using cs s(2) by (intro exI [of _ l]) auto
  qed
qed simp

lemma live_mark: "live p (as @ (n, False) # cs) = live p as @ live (p + extent as + n) cs"
  by (simp add: live_append)

definition asked_size :: "DWORD \<Rightarrow> bool" where
  "asked_size n \<longleftrightarrow> 0 < n \<and> unat n + 3 < 2 ^ 32"

lemma heap_alloc_law:
  assumes "\<exists>bs. heap_ok h bs" "asked_size n"
  shows "\<exists>p h'. mem_malloc n h = Some (p, h') \<and> (\<exists>bs. heap_ok h' bs) \<and>
    (if p = 0 then h' = h else \<exists>l\<ge>unat n. p \<notin> fst ` in_use h \<and> in_use h' = insert (p, l) (in_use h))"
proof -
  obtain bs where ok: "heap_ok h bs" using assms(1) by blast
  have b: "blocks_ok h bs" and sg: "seg (hdr h) 0 0 bs" "extent bs = 0x20000" using ok by (simp_all add: heap_ok_def blocks_ok_def)
  have n: "0 < unat n" "unat n + 3 < 2 ^ 32" using assms(2) by (auto simp: asked_size_def word_greater_zero_iff unat_gt_0)
  note m = mem_malloc_ok [OF ok n]
  show ?thesis
  proof (cases "first_fit (data_size (unat n)) 0 bs")
    case None
    then show ?thesis using m ok by auto
  next
    case (Some r)
    obtain q bs' where r: "r = (q, bs')" by force
    from m obtain h' where h': "mem_malloc n h = Some (ram h + of_nat q + SIZEOF_STRUCT_MEM, h')" "heap_ok h' bs'" "ram h' = ram h"
      by (auto simp: Some r)
    obtain l where l: "data_size (unat n) \<le> l" "set (live 0 bs') = insert (q + 12, l) (set (live 0 bs))"
        "q + 12 + l \<le> 0x20000" "q + 12 \<notin> fst ` set (live 0 bs)"
      using live_first_fit [OF Some [unfolded r] sg(1)] sg(2) by auto
    have p: "ram h + of_nat q + SIZEOF_STRUCT_MEM = ram h + of_nat (q + 12)" by simp
    have new: "ram h + of_nat (q + 12) \<noteq> ram h + of_nat a" if "(a, k) \<in> set (live 0 bs)" for a k
      using addr_inj(1) [OF b, of "q + 12" a] live_bounds [OF sg(1) that] sg(2) l(3,4) that by (force simp del: of_nat_add)
    have nz: "ram h + of_nat (q + 12) \<noteq> 0"
      using unat_addr [OF b, of "q + 12"] l(3) by (metis add_is_0 le_add1 le_trans numeral_eq_Suc unat_0 nat.distinct(1))
    have "in_use h' = insert (ram h + of_nat (q + 12), l) (in_use h)"
      unfolding in_use_live [OF ok] in_use_live [OF h'(2)] l(2) h'(3) by simp
    moreover have "ram h + of_nat (q + 12) \<notin> fst ` in_use h" unfolding in_use_live [OF ok] using new by force
    moreover have "unat n \<le> l" using l(1) data_size_facts(3) [of "unat n"] by simp
    ultimately have "\<exists>l\<ge>unat n. ram h + of_nat (q + 12) \<notin> fst ` in_use h \<and> in_use h' = insert (ram h + of_nat (q + 12), l) (in_use h)"
      by blast
    then show ?thesis using h' nz unfolding p by auto
  qed
qed

lemma heap_release_law:
  assumes "\<exists>bs. heap_ok h bs" "(p, l) \<in> in_use h"
  shows "(\<exists>bs. heap_ok (mem_free p h) bs) \<and> in_use (mem_free p h) = in_use h - {(p, l)} \<and> ram (mem_free p h) = ram h"
proof -
  obtain bs where ok: "heap_ok h bs" using assms(1) by blast
  then obtain a where a: "p = ram h + of_nat a" "(a, l) \<in> set (live 0 bs)" using assms(2) by (auto simp: in_use_live)
  obtain as n cs where bs: "bs = as @ (n, True) # cs" "a = extent as + 12" "l = n - 12" using live_split [OF a(2)] by auto
  have b: "blocks_ok h bs" and sg: "seg (hdr h) 0 0 bs" "extent bs = 0x20000" using ok by (simp_all add: heap_ok_def blocks_ok_def)
  note F = mem_free_ok [OF ok [unfolded bs(1)] a(1) [unfolded bs(2)]]
  have lv: "set (live 0 (melt (as @ (n, False) # cs))) = set (live 0 bs) - {(a, l)}"
  proof -
    have "set (live 0 bs) = insert (a, l) (set (live 0 (as @ (n, False) # cs)))" by (auto simp: bs live_append)
    moreover have "(a, l) \<notin> set (live 0 (as @ (n, False) # cs))"
    proof
      assume "(a, l) \<in> set (live 0 (as @ (n, False) # cs))"
      then consider "(a, l) \<in> set (live 0 as)" | "(a, l) \<in> set (live (extent as + n) cs)" by (auto simp: live_append)
      then show False
      proof cases
        case 1
        then show ?thesis using live_bounds [of "hdr h" 0 0 as a l] sg(1) by (simp add: bs)
      next
        case 2
        moreover have "seg (hdr h) (extent as + n) (extent as) cs" "24 \<le> n" using sg(1) by (simp_all add: bs)
        ultimately show ?thesis using live_bounds [of "hdr h" "extent as + n" "extent as" cs a l] by (simp add: bs)
      qed
    qed
    ultimately show ?thesis by (simp add: live_melt)
  qed
  have inj: "inj_on (\<lambda>(a, l). (ram h + of_nat a, l)) (set (live 0 bs))"
  proof (rule inj_onI)
    fix x y
    assume xy: "x \<in> set (live 0 bs)" "y \<in> set (live 0 bs)"
      "(case x of (a, l) \<Rightarrow> (ram h + of_nat a, l)) = (case y of (a, l) \<Rightarrow> (ram h + of_nat a, l))"
    obtain a1 l1 a2 l2 where e: "x = (a1, l1)" "y = (a2, l2)" by force
    have "a1 \<le> 0x20000" "a2 \<le> 0x20000" using live_bounds [OF sg(1)] xy(1,2) sg(2) by (fastforce simp: e)+
    then show "x = y" using addr_inj(1) [OF b, of a1 a2] xy(3) by (simp add: e)
  qed
  have "in_use (mem_free p h) = (\<lambda>(a, l). (ram h + of_nat a, l)) ` (set (live 0 bs) - {(a, l)})"
    using in_use_live [OF conjunct1 [OF F]] F lv by simp
  also have "\<dots> = in_use h - {(p, l)}"
    using inj_on_image_set_diff [OF inj, of "set (live 0 bs)" "{(a, l)}"] a by (simp add: in_use_live [OF ok])
  finally show ?thesis using F by blast
qed


lemma heap_apart_law:
  assumes "\<exists>bs. heap_ok h bs" "(p, l) \<in> in_use h" "(q, m) \<in> in_use h" "(p, l) \<noteq> (q, m)"
  shows "unat p + l \<le> unat q \<or> unat q + m \<le> unat p"
proof -
  obtain bs where ok: "heap_ok h bs" using assms(1) by blast
  then obtain a b where a: "p = ram h + of_nat a" "(a, l) \<in> set (live 0 bs)" and b: "q = ram h + of_nat b" "(b, m) \<in> set (live 0 bs)"
    using assms(2,3) by (auto simp: in_use_live)
  have k: "blocks_ok h bs" and sg: "seg (hdr h) 0 0 bs" "extent bs = 0x20000" using ok by (simp_all add: heap_ok_def blocks_ok_def)
  have "unat p = unat (ram h) + a" "unat q = unat (ram h) + b"
    using live_bounds [OF sg(1)] a b sg(2) unat_addr [OF k] by fastforce+
  moreover have "a + l + 12 \<le> b \<or> b + m + 12 \<le> a" using live_apart [OF sg(1) a(2) b(2)] assms(4) a(1) b(1) by blast
  ultimately show ?thesis by linarith
qed

interpretation lwmem: allocator mem_malloc mem_free "\<lambda>h. \<exists>bs. heap_ok h bs" asked_size in_use
proof
  fix h n
  assume "\<exists>bs. heap_ok h bs" "asked_size n"
  then show "\<exists>p h'. mem_malloc n h = Some (p, h') \<and> (\<exists>bs. heap_ok h' bs) \<and>
      (if p = 0 then h' = h else \<exists>l\<ge>unat n. p \<notin> fst ` in_use h \<and> in_use h' = insert (p, l) (in_use h))"
    by (rule heap_alloc_law)
next
  fix h p l
  assume "\<exists>bs. heap_ok h bs" "(p, l) \<in> in_use h"
  then show "(\<exists>bs. heap_ok (mem_free p h) bs) \<and> in_use (mem_free p h) = in_use h - {(p, l)}"
    using heap_release_law by blast
next
  fix h p l q m
  assume "\<exists>bs. heap_ok h bs" "(p, l) \<in> in_use h" "(q, m) \<in> in_use h" "(p, l) \<noteq> (q, m)"
  then show "unat p + l \<le> unat q \<or> unat q + m \<le> unat p" by (rule heap_apart_law)
qed

text \<open>The heap states that clients of the heap can bring about.\<close>

inductive reached :: "DWORD \<Rightarrow> heap \<Rightarrow> bool" for ram_heap where
  start: "unat ram_heap + 0x20010 < 2 ^ 32 \<Longrightarrow> reached ram_heap (mem_init ram_heap h)"
| malloc: "reached ram_heap h \<Longrightarrow> asked_size n \<Longrightarrow> mem_malloc n h = Some (p, h') \<Longrightarrow> reached ram_heap h'"
| free: "reached ram_heap h \<Longrightarrow> (p, l) \<in> in_use h \<Longrightarrow> reached ram_heap (mem_free p h)"
| trim: "reached ram_heap h \<Longrightarrow> (p, l) \<in> in_use h \<Longrightarrow> unat n + 3 < 2 ^ 32 \<Longrightarrow> mem_trim p n h = (q, h') \<Longrightarrow> reached ram_heap h'"

lemma reached_ok: "reached ram_heap h \<Longrightarrow> \<exists>bs. heap_ok h bs"
proof (induction rule: reached.induct)
  case (start h)
  then show ?case using mem_init_ok by blast
next
  case (malloc h n p h')
  then show ?case using heap_alloc_law by fastforce
next
  case (free h p l)
  then show ?case using heap_release_law by blast
next
  case (trim h p l n q h')
  then obtain bs where ok: "heap_ok h bs" by blast
  then obtain a where a: "p = ram h + of_nat a" "(a, l) \<in> set (live 0 bs)" using trim by (auto simp: in_use_live)
  obtain as k cs where "bs = as @ (k, True) # cs" "a = extent as + 12" using live_split [OF a(2)] by auto
  then show ?case using mem_trim_ok [of h as k cs p n] ok trim(3,4) a(1) by auto
qed

lemma no_live_one_block: "live p bs = [] \<Longrightarrow> sep bs \<Longrightarrow> bs \<noteq> [] \<Longrightarrow> bs = [(extent bs, False)]"
  by (induction bs arbitrary: p rule: sep.induct) (auto split: if_splits)

text \<open>C33: first fit.  On a well-formed heap \<open>mem_malloc\<close> returns, and what it returns is first fit on the list
  of the blocks: the first free block that holds the request (rounded up to words, at least 12 bytes) and
  its header is split if the rest can hold a block, and taken as a whole otherwise; if there is none, the
  answer is the null pointer and the heap is as it was.\<close>
theorem mem_malloc_first_fit:
  assumes "heap_ok h bs" "0 < unat n" "unat n + 3 < 2 ^ 32"
  shows "case first_fit (data_size (unat n)) 0 bs of
      None \<Rightarrow> mem_malloc n h = Some (0, h)
    | Some (p, bs') \<Rightarrow> \<exists>h'. mem_malloc n h = Some (ram h + of_nat p + SIZEOF_STRUCT_MEM, h') \<and> heap_ok h' bs' \<and> ram h' = ram h"
  using assms by (rule mem_malloc_ok)

text \<open>C34: freeing a block that was handed out marks it free in the list of the blocks and melts it with free
  neighbours on either side; exactly that block is no longer in use.\<close>
theorem mem_free_melts:
  assumes "heap_ok h (as @ (n, True) # cs)" "p = ram h + of_nat (extent as + 12)"
  shows "heap_ok (mem_free p h) (melt (as @ (n, False) # cs)) \<and> in_use (mem_free p h) = in_use h - {(p, n - 12)}"
proof -
  have "(extent as + 12, n - 12) \<in> set (live 0 (as @ (n, True) # cs))" by (simp add: live_append)
  then have "(p, n - 12) \<in> in_use h" unfolding in_use_live [OF assms(1)] assms(2) by force
  then show ?thesis using heap_release_law [of h p "n - 12"] mem_free_ok [OF assms] assms(1) by blast
qed

text \<open>C20: whatever sequence of requests, releases and shrinkings clients make from the initial heap, the blocks
  in use are aligned to words and do not overlap, and when all are released the heap is not fragmented: the
  largest request there can be, all bytes but one header, is granted at the start of the heap.\<close>
theorem heap_never_fragments:
  assumes "reached ram_heap h"
  shows "(\<forall>(p, l) \<in> in_use h. 4 dvd unat p) \<and>
    (\<forall>(p, l) \<in> in_use h. \<forall>(q, m) \<in> in_use h. (p, l) = (q, m) \<or> unat p + l \<le> unat q \<or> unat q + m \<le> unat p) \<and>
    (in_use h = {} \<longrightarrow> (\<exists>h'. mem_malloc 0x1FFF4 h = Some (ram h + SIZEOF_STRUCT_MEM, h')))"
proof -
  obtain bs where ok: "heap_ok h bs" using reached_ok [OF assms] by blast
  have b: "blocks_ok h bs" and sg: "seg (hdr h) 0 0 bs" "extent bs = 0x20000" "sep bs" using ok by (simp_all add: heap_ok_def blocks_ok_def)
  have "4 dvd unat p" if pl: "(p, l) \<in> in_use h" for p l
  proof -
    obtain a where a: "p = ram h + of_nat a" "(a, l) \<in> set (live 0 bs)" using pl by (auto simp: in_use_live [OF ok])
    have "unat p = unat (ram h) + a" "4 dvd a"
      using live_bounds [OF sg(1) a(2)] sg(2) unat_addr [OF b, of a] live_words [OF sg(1) _ a(2)] a(1) by simp_all
    then show ?thesis using b by (simp add: blocks_ok_def)
  qed
  moreover have "\<exists>h'. mem_malloc 0x1FFF4 h = Some (ram h + SIZEOF_STRUCT_MEM, h')" if "in_use h = {}"
  proof -
    have "live 0 bs = []" using that by (simp add: in_use_live [OF ok])
    then have "bs = [(0x20000, False)]" using no_live_one_block [of 0 bs] sg(2,3) by (cases bs) auto
    then have "first_fit (data_size 0x1FFF4) 0 bs = Some (0, split_block 0x1FFF4 0x20000)" by (simp add: data_size_def)
    then show ?thesis using mem_malloc_ok [OF ok, of "0x1FFF4"] by auto
  qed
  ultimately show ?thesis using heap_apart_law ok by blast
qed


lemma first_fit_split:
  "first_fit n p bs = Some (q, bs') \<Longrightarrow>
    \<exists>as k cs. bs = as @ (k, False) # cs \<and> bs' = as @ split_block n k @ cs \<and> q = p + extent as \<and> n + 12 \<le> k"
proof (induction n p bs arbitrary: bs' rule: first_fit.induct)
  case (2 n p k u bs)
  show ?case
  proof (cases "\<not> u \<and> n + 12 \<le> k")
    case True
    then show ?thesis using 2(2) by (intro exI [of _ "[]"] exI [of _ k] exI [of _ bs]) simp
  next
    case False
    then obtain cs where cs: "first_fit n (p + k) bs = Some (q, cs)" "bs' = (k, u) # cs" using 2(2) by auto
    from 2(1) [OF False cs(1)] obtain as k' cs' where
      "bs = as @ (k', False) # cs'" "cs = as @ split_block n k' @ cs'" "q = p + k + extent as" "n + 12 \<le> k'" by blast
    then show ?thesis using cs by (intro exI [of _ "(k, u) # as"] exI [of _ k'] exI [of _ cs']) simp
  qed
qed simp

lemma lfree_not_used:
  assumes "heap_ok h (as @ (k, True) # cs)"
  shows "lfree h \<noteq> ram h + of_nat (extent as)"
proof
  let ?bs = "as @ (k, True) # cs"
  have b: "blocks_ok h ?bs" using assms by (simp add: heap_ok_def)
  note pp = in_heap [OF b refl, unfolded fst_conv]
  assume "lfree h = ram h + of_nat (extent as)"
  then have "ram h + of_nat (first_free 0 ?bs) = ram h + of_nat (extent as)" using assms by (simp add: heap_ok_def)
  moreover have "first_free 0 ?bs \<le> 0x20000" using first_free_bounds [of 0 ?bs] b by (simp add: blocks_ok_def)
  ultimately have eq: "first_free 0 ?bs = extent as" using addr_inj(1) [OF b] pp by simp
  show False
  proof (cases "\<forall>b \<in> set as. snd b")
    case True
    then show ?thesis using eq first_free_bounds [of "extent as + k" cs] pp by (simp add: first_free_append)
  next
    case False
    then have "first_free 0 ?bs = first_free 0 as" unfolding first_free_append by (simp only: if_not_P simp_thms)
    moreover have "first_free 0 as < extent as"
      using first_free_some [of "hdr h" 0 0 as] False b by (auto simp: blocks_ok_def)
    ultimately show ?thesis using eq by simp
  qed
qed

text \<open>nothing protects the heap from an interrupt: the lock of this configuration is empty and
  \<^verbatim>\<open>LWIP_ALLOW_MEM_FREE_FROM_OTHER_CONTEXT\<close> is 0, while the stack runs in interrupt handlers and in the
  console.  If an interrupt asks for a block between the search of \<open>mem_malloc\<close> and its marking of the
  block found, for the same size, the interrupted call marks the block the interrupt has got, and returns it a
  second time.\<close>
theorem interrupted_malloc_twice:
  assumes "heap_ok h bs" "asked_size n" "mem_malloc n h = Some (q, h')" "q \<noteq> 0"
  defines "ptr \<equiv> q - SIZEOF_STRUCT_MEM - ram h"
  shows "\<exists>h''. take_block (of_nat (data_size (unat n))) ptr h' = Some h'' \<and> ram h'' + ptr + SIZEOF_STRUCT_MEM = q \<and>
    heap_ok h'' (the (map_option snd (first_fit (data_size (unat n)) 0 bs)))"
proof -
  let ?n = "data_size (unat n)"
  have n: "0 < unat n" "unat n + 3 < 2 ^ 32" using assms(2) by (auto simp: asked_size_def word_greater_zero_iff unat_gt_0)
  note m = mem_malloc_ok [OF assms(1) n]
  obtain p bs' where ff: "first_fit ?n 0 bs = Some (p, bs')" using m assms(3,4) by (cases "first_fit ?n 0 bs") auto
  have h': "q = ram h + of_nat p + SIZEOF_STRUCT_MEM" "heap_ok h' bs'" "ram h' = ram h" using m assms(3) by (auto simp: ff)
  obtain as k cs where s: "bs' = as @ split_block ?n k @ cs" "p = extent as" "?n + 12 \<le> k"
    using first_fit_split [OF ff] by auto
  define k' where "k' = (if ?n + 36 \<le> k then ?n + 12 else k)"
  define cs' where "cs' = (if ?n + 36 \<le> k then (k - (?n + 12), False) # cs else cs)"
  have bs': "bs' = as @ (k', True) # cs'" by (simp add: s(1) split_block_def k'_def cs'_def)
  have b: "blocks_ok h' (as @ (k', True) # cs')" using h'(2) by (simp add: heap_ok_def bs')
  note pp = in_heap [OF b refl, unfolded fst_conv]
  have t: "unat (mem_next (hdr h' p)) = p + k'" "mem_used (hdr h' p) \<noteq> 0" using b by (auto simp: blocks_ok_def s(2))
  have ptr: "ptr = of_nat p" by (simp add: assms(5) h'(1))
  have nx: "mem_next (hdr h' p) - (of_nat p + SIZEOF_STRUCT_MEM) = of_nat (k' - 12)"
    using pp by (simp add: of_nat_next [OF t(1)] of_nat_diff)
  have u1: "unat (of_nat (k' - 12) :: DWORD) = k' - 12" using pp unat_offset [of "k' - 12"] by simp
  have u2: "unat (of_nat ?n + SIZEOF_STRUCT_MEM + MIN_SIZE_ALIGNED) = ?n + 24"
    using pp unat_word [of "?n + 24"] s(3) by (simp add: add.commute k'_def split: if_splits)
  have "k' - 12 < ?n + 24" using s(3) by (auto simp: k'_def)
  then have fit: "\<not> mem_next (hdr h' p) - (of_nat p + SIZEOF_STRUCT_MEM) \<ge> of_nat ?n + SIZEOF_STRUCT_MEM + MIN_SIZE_ALIGNED"
    unfolding nx word_le_nat_alt u1 u2 by simp
  have lf: "lfree h' \<noteq> ram h' + of_nat p" using lfree_not_used [of h' as k' cs'] h'(2) by (simp add: bs' s(2))
  let ?h2 = "upd (ram h' + of_nat p) (\<lambda>m. m\<lparr>mem_used := 1\<rparr>) h'"
  have "take_block (of_nat ?n) ptr h' = Some ?h2"
    using fit lf pp unfolding take_block_def ptr Let_def at_def off_ram by (simp add: s(2) [symmetric])
  moreover have "heap_ok ?h2 bs'"
    using h'(2) b pp s(2) t(2) by (auto simp: heap_ok_def blocks_ok_def bs')
  ultimately show ?thesis using h' ff by (auto simp: ptr)
qed

definition blank_heap :: heap where
  "blank_heap = \<lparr>hdr = \<lambda>_. \<lparr>mem_next = 0, mem_prev = 0, mem_used = 0\<rparr>, ram = 0, ram_end = 0, lfree = 0\<rparr>"

lemma first_heap: "heap_ok (mem_init 0x80000000 blank_heap) [(0x20000, False)]" "ram (mem_init 0x80000000 blank_heap) = 0x80000000"
  by (rule mem_init_ok) (simp_all add: mem_init_def Let_def LWIP_MEM_ALIGN_SIZE_def)

lemma mem_malloc_first_fit_witness:
  "\<exists>h'. mem_malloc 5 (mem_init 0x80000000 blank_heap) = Some (0x8000000C, h') \<and> heap_ok h' [(24, True), (0x1FFE8, False)]"
  using mem_malloc_first_fit [OF first_heap(1), of 5] by (simp add: first_heap(2) data_size_def split_block_def) blast

lemma mem_free_melts_witness:
  "\<exists>h p. heap_ok h [(24, True), (0x1FFE8, False)] \<and> heap_ok (mem_free p h) [(0x20000, False)] \<and> in_use (mem_free p h) = in_use h - {(p, 12)}"
proof -
  obtain h where h: "heap_ok h ([] @ (24, True) # [(0x1FFE8, False)])"
    using mem_malloc_ok [OF first_heap(1), of 5] by (auto simp: data_size_def split_block_def)
  show ?thesis using mem_free_melts [OF h refl] h by (intro exI [of _ h] exI) simp
qed

lemma heap_never_fragments_witness:
  "\<exists>h'. mem_malloc 0x1FFF4 (mem_init 0x80000000 blank_heap) = Some (0x8000000C, h')"
proof -
  have "reached 0x80000000 (mem_init 0x80000000 blank_heap)" by (rule reached.start) simp
  moreover have "in_use (mem_init 0x80000000 blank_heap) = {}" by (simp add: in_use_live [OF first_heap(1)])
  ultimately show ?thesis using heap_never_fragments first_heap(2) by fastforce
qed


lemma interrupted_malloc_twice_witness:
  "\<exists>h' h''. mem_malloc 100 (mem_init 0x80000000 blank_heap) = Some (0x8000000C, h') \<and> take_block 100 0 h' = Some h''"
proof -
  obtain h' where h': "mem_malloc 100 (mem_init 0x80000000 blank_heap) = Some (0x8000000C, h')"
    using mem_malloc_ok [OF first_heap(1), of 100] by (auto simp: data_size_def split_block_def first_heap(2))
  show ?thesis
    using interrupted_malloc_twice [OF first_heap(1) _ h'] h' by (auto simp: asked_size_def data_size_def first_heap(2))
qed

end
