(* ===== verification/LwPool.thy ===== *)
theory LwPool
  imports LwHeap
begin

unbundle bit_operations_syntax

text \<open>
  The pools of lwIP, \<^verbatim>\<open>lwip/src/core/memp.c\<close>: arrays of elements of one size, whose free elements are linked
  through their first word.  \<open>link\<close> is that word of every element, \<open>memp_tab\<close> the first free element of each
  pool.  The numbers, sizes and bases of the pools, which the preprocessor makes from \<^verbatim>\<open>memp_std.h\<close>, are a list
  of \<open>mempool\<close>; \<^verbatim>\<open>MEMP_SIZE\<close> is 0 without overflow checks.  A pool provides the contract \<open>allocator\<close>.
\<close>

section \<open>State and operations\<close>

record mempool =
  memp_num :: WORD
  memp_size :: WORD
  memp_base :: DWORD

record pool_mem =
  link :: "DWORD \<Rightarrow> DWORD"
  memp_tab :: "nat \<Rightarrow> DWORD"

definition set_link :: "DWORD \<Rightarrow> DWORD \<Rightarrow> 'a pool_mem_scheme \<Rightarrow> 'a pool_mem_scheme" where
  "set_link p x s = s\<lparr>link := (link s)(p := x)\<rparr>"

definition set_tab :: "nat \<Rightarrow> DWORD \<Rightarrow> 'a pool_mem_scheme \<Rightarrow> 'a pool_mem_scheme" where
  "set_tab t x s = s\<lparr>memp_tab := (memp_tab s)(t := x)\<rparr>"

fun carve :: "nat \<Rightarrow> nat \<Rightarrow> WORD \<Rightarrow> DWORD \<Rightarrow> 'a pool_mem_scheme \<Rightarrow> 'a pool_mem_scheme" where
  "carve 0 i sz memp s = s"
| "carve (Suc j) i sz memp s = carve j i sz (memp + ucast sz) (set_tab i memp (set_link memp (memp_tab s i) s))"

fun init_pools :: "mempool list \<Rightarrow> nat \<Rightarrow> 'a pool_mem_scheme \<Rightarrow> 'a pool_mem_scheme" where
  "init_pools [] i s = s"
| "init_pools (c # cs) i s =
     init_pools cs (Suc i) (carve (unat (memp_num c)) i (memp_size c) (memp_base c) (set_tab i 0 s))"

definition memp_init :: "mempool list \<Rightarrow> 'a pool_mem_scheme \<Rightarrow> 'a pool_mem_scheme" where
  "memp_init cfg s = init_pools cfg 0 s"

definition memp_malloc :: "mempool list \<Rightarrow> nat \<Rightarrow> 'a pool_mem_scheme \<Rightarrow> DWORD \<times> 'a pool_mem_scheme" where
  "memp_malloc cfg type s =
     (if \<not> type < length cfg then (0, s)
      else let memp = memp_tab s type in
        if memp \<noteq> 0 then (memp, set_tab type (link s memp) s) else (memp, s))"

definition memp_free :: "nat \<Rightarrow> DWORD \<Rightarrow> 'a pool_mem_scheme \<Rightarrow> 'a pool_mem_scheme" where
  "memp_free type mem s = (if mem = 0 then s else set_tab type mem (set_link mem (memp_tab s type) s))"

section \<open>The elements of a pool and its free list\<close>

definition elem :: "mempool \<Rightarrow> nat \<Rightarrow> DWORD" where
  "elem c j = memp_base c + of_nat j * ucast (memp_size c)"

definition elems :: "mempool \<Rightarrow> DWORD set" where
  "elems c = elem c ` {..<unat (memp_num c)}"

text \<open>A pool is an array inside of the memory, and not at the null pointer; the pools are apart.\<close>

definition pool_fits :: "mempool \<Rightarrow> bool" where
  "pool_fits c \<longleftrightarrow> 0 < unat (memp_base c) \<and> 0 < memp_size c \<and>
     unat (memp_base c) + unat (memp_num c) * unat (memp_size c) < 2 ^ 32"

definition pools_fit :: "mempool list \<Rightarrow> bool" where
  "pools_fit cfg \<longleftrightarrow> (\<forall>c \<in> set cfg. pool_fits c) \<and>
     (\<forall>i < length cfg. \<forall>j < length cfg. i \<noteq> j \<longrightarrow> elems (cfg ! i) \<inter> elems (cfg ! j) = {})"

fun chained :: "(DWORD \<Rightarrow> DWORD) \<Rightarrow> DWORD \<Rightarrow> DWORD list \<Rightarrow> bool" where
  "chained f x [] \<longleftrightarrow> x = 0"
| "chained f x (p # ps) \<longleftrightarrow> x = p \<and> p \<noteq> 0 \<and> chained f (f p) ps"

definition free_list :: "mempool list \<Rightarrow> nat \<Rightarrow> 'a pool_mem_scheme \<Rightarrow> DWORD list \<Rightarrow> bool" where
  "free_list cfg t s ps \<longleftrightarrow> chained (link s) (memp_tab s t) ps \<and> distinct ps \<and> set ps \<subseteq> elems (cfg ! t)"

definition pools_ok :: "mempool list \<Rightarrow> 'a pool_mem_scheme \<Rightarrow> bool" where
  "pools_ok cfg s \<longleftrightarrow> pools_fit cfg \<and> (\<forall>t < length cfg. \<exists>ps. free_list cfg t s ps)"

text \<open>The elements that are handed out, with their size.\<close>

definition taken :: "mempool list \<Rightarrow> nat \<Rightarrow> 'a pool_mem_scheme \<Rightarrow> (DWORD \<times> nat) set" where
  "taken cfg t s = {(p, unat (memp_size (cfg ! t))) | p. p \<in> elems (cfg ! t) \<and> (\<forall>ps. free_list cfg t s ps \<longrightarrow> p \<notin> set ps)}"

lemma set_simps [simp]:
  "link (set_link p x s) = (link s)(p := x)" "memp_tab (set_link p x s) = memp_tab s"
  "memp_tab (set_tab t x s) = (memp_tab s)(t := x)" "link (set_tab t x s) = link s"
  by (simp_all add: set_link_def set_tab_def)

lemma chained_unique: "chained f x ps \<Longrightarrow> chained f x qs \<Longrightarrow> ps = qs"
proof (induction ps arbitrary: x qs)
  case Nil
  then show ?case by (cases qs) auto
next
  case (Cons p ps)
  then obtain qs' where "qs = p # qs'" "chained f (f p) qs'" by (cases qs) auto
  then show ?case using Cons by auto
qed

lemma chained_other: "p \<notin> set ps \<Longrightarrow> chained (f(p := y)) x ps = chained f x ps"
  by (induction ps arbitrary: x) auto

lemma free_list_unique: "free_list cfg t s ps \<Longrightarrow> free_list cfg t s qs \<Longrightarrow> qs = ps"
  unfolding free_list_def by (blast intro: chained_unique)

lemma apart_pools: "pools_fit cfg \<Longrightarrow> i < length cfg \<Longrightarrow> j < length cfg \<Longrightarrow> i \<noteq> j \<Longrightarrow> p \<in> elems (cfg ! i) \<Longrightarrow> p \<notin> elems (cfg ! j)"
  unfolding pools_fit_def by blast

lemma taken_free:
  assumes "free_list cfg t s ps"
  shows "taken cfg t s = (\<lambda>p. (p, unat (memp_size (cfg ! t)))) ` (elems (cfg ! t) - set ps)"
proof -
  have e: "(\<forall>qs. free_list cfg t s qs \<longrightarrow> p \<notin> set qs) \<longleftrightarrow> p \<notin> set ps" for p
    using assms free_list_unique by blast
  show ?thesis unfolding taken_def e by blast
qed

lemma elem_pos:
  assumes "pool_fits c" "j < unat (memp_num c)"
  shows "unat (elem c j) = unat (memp_base c) + j * unat (memp_size c)"
proof -
  have "(j + 1) * unat (memp_size c) \<le> unat (memp_num c) * unat (memp_size c)" using assms(2) by (intro mult_right_mono) auto
  then have "unat (memp_base c) + j * unat (memp_size c) < 2 ^ 32" using assms(1) by (simp add: pool_fits_def)
  moreover have "elem c j = of_nat (unat (memp_base c) + j * unat (memp_size c))" by (simp add: elem_def)
  ultimately show ?thesis by (simp add: unat_word del: of_nat_add of_nat_mult)
qed

lemma elem_inj:
  assumes "pool_fits c" "i < unat (memp_num c)" "j < unat (memp_num c)" "elem c i = elem c j"
  shows "i = j"
proof -
  have "unat (memp_base c) + i * unat (memp_size c) = unat (memp_base c) + j * unat (memp_size c)"
    using elem_pos [OF assms(1,2)] elem_pos [OF assms(1,3)] assms(4) by metis
  then have "i * unat (memp_size c) = j * unat (memp_size c)" by (rule add_left_imp_eq)
  moreover have "0 < unat (memp_size c)" using assms(1) by (simp add: pool_fits_def word_less_nat_alt)
  ultimately show ?thesis by simp
qed

lemma elem_nonzero: "pool_fits c \<Longrightarrow> p \<in> elems c \<Longrightarrow> p \<noteq> 0"
  using elem_pos [of c] by (fastforce simp: elems_def pool_fits_def)

lemma card_elems: "pool_fits c \<Longrightarrow> card (elems c) = unat (memp_num c)"
  unfolding elems_def by (subst card_image) (auto intro!: inj_onI dest: elem_inj)

section \<open>The operations keep the lists\<close>

lemma free_list_same: "link s = link s' \<Longrightarrow> memp_tab s t = memp_tab s' t \<Longrightarrow> free_list cfg t s = free_list cfg t s'"
  by (intro ext) (simp add: free_list_def)

lemma malloc_free_list:
  assumes "pools_ok cfg s" "t < length cfg" "free_list cfg t s ps"
  shows "case ps of [] \<Rightarrow> memp_malloc cfg t s = (0, s)
    | p # ps' \<Rightarrow> \<exists>s'. memp_malloc cfg t s = (p, s') \<and> p \<noteq> 0 \<and> pools_ok cfg s' \<and> free_list cfg t s' ps'"
proof (cases ps)
  case Nil
  then show ?thesis using assms by (simp add: memp_malloc_def free_list_def)
next
  case (Cons p ps')
  let ?s = "set_tab t (link s p) s"
  have m: "memp_malloc cfg t s = (p, ?s)" "p \<noteq> 0" using assms by (auto simp: memp_malloc_def free_list_def Cons)
  have f: "free_list cfg t ?s ps'" using assms(3) by (simp add: free_list_def Cons)
  have "\<exists>qs. free_list cfg u ?s qs" if u: "u < length cfg" for u
  proof (cases "u = t")
    case False
    then have "free_list cfg u s = free_list cfg u ?s" by (intro free_list_same) simp_all
    moreover obtain qs where "free_list cfg u s qs" using assms(1) u by (auto simp: pools_ok_def)
    ultimately show ?thesis by auto
  qed (use f in blast)
  then show ?thesis using m f assms(1) by (auto simp: Cons pools_ok_def)
qed

lemma free_free_list:
  assumes "pools_ok cfg s" "t < length cfg" "free_list cfg t s ps" "p \<in> elems (cfg ! t)" "p \<notin> set ps"
  shows "pools_ok cfg (memp_free t p s) \<and> free_list cfg t (memp_free t p s) (p # ps)"
proof -
  have fits: "pools_fit cfg" using assms(1) by (simp add: pools_ok_def)
  have nz: "p \<noteq> 0" using elem_nonzero [OF _ assms(4)] fits assms(2) by (simp add: pools_fit_def)
  let ?s = "memp_free t p s"
  have f: "free_list cfg t ?s (p # ps)" using assms(3-5) nz by (simp add: free_list_def memp_free_def chained_other)
  have "\<exists>qs. free_list cfg u ?s qs" if u: "u < length cfg" for u
  proof (cases "u = t")
    case True
    then show ?thesis using f by blast
  next
    case False
    obtain qs where qs: "free_list cfg u s qs" using assms(1) u by (auto simp: pools_ok_def)
    moreover have "p \<notin> set qs" using qs apart_pools [OF fits assms(2) u _ assms(4)] False by (auto simp: free_list_def)
    ultimately have "free_list cfg u ?s qs" using False nz by (simp add: free_list_def memp_free_def chained_other)
    then show ?thesis by blast
  qed
  then show ?thesis using f fits by (auto simp: pools_ok_def)
qed

lemma elems_apart:
  assumes "pool_fits c" "p \<in> elems c" "q \<in> elems c" "p \<noteq> q"
  shows "unat p + unat (memp_size c) \<le> unat q \<or> unat q + unat (memp_size c) \<le> unat p"
proof -
  obtain i j where ij: "p = elem c i" "q = elem c j" "i < unat (memp_num c)" "j < unat (memp_num c)"
    using assms(2,3) by (auto simp: elems_def)
  have lt: "a * m + m \<le> b * m" if "a < b" for a b m :: nat
    using mult_right_mono [of "Suc a" b m] that by simp
  have "i \<noteq> j" using assms(4) ij by auto
  then show ?thesis using lt [of i j] lt [of j i] ij elem_pos [OF assms(1)] by (cases "i < j") auto
qed

section \<open>A pool is an allocator\<close>

interpretation mpool: allocator "\<lambda>n s. Some (memp_malloc cfg t s)" "memp_free t"
    "\<lambda>s. pools_ok cfg s \<and> t < length cfg" "\<lambda>n. unat n \<le> unat (memp_size (cfg ! t))" "taken cfg t"
  for cfg :: "mempool list" and t :: nat
proof
  fix s :: "'a pool_mem_scheme" and n :: DWORD
  assume s: "pools_ok cfg s \<and> t < length cfg" and n: "unat n \<le> unat (memp_size (cfg ! t))"
  obtain ps where ps: "free_list cfg t s ps" using s by (auto simp: pools_ok_def)
  note m = malloc_free_list [OF conjunct1 [OF s] conjunct2 [OF s] ps]
  show "\<exists>p s'. Some (memp_malloc cfg t s) = Some (p, s') \<and> (pools_ok cfg s' \<and> t < length cfg) \<and>
      (if p = 0 then s' = s else \<exists>l\<ge>unat n. p \<notin> fst ` taken cfg t s \<and> taken cfg t s' = insert (p, l) (taken cfg t s))"
  proof (cases ps)
    case Nil
    then show ?thesis using m s by auto
  next
    case (Cons p ps')
    then obtain s' where s': "memp_malloc cfg t s = (p, s')" "p \<noteq> 0" "pools_ok cfg s'" "free_list cfg t s' ps'"
      using m by auto
    have "elems (cfg ! t) - set ps' = insert p (elems (cfg ! t) - set ps)" using ps by (auto simp: free_list_def Cons)
    then have "taken cfg t s' = insert (p, unat (memp_size (cfg ! t))) (taken cfg t s)"
      by (simp add: taken_free [OF ps] taken_free [OF s'(4)])
    moreover have "p \<notin> fst ` taken cfg t s" by (auto simp: taken_free [OF ps] Cons)
    ultimately show ?thesis using s' s n by auto
  qed
next
  fix s :: "'a pool_mem_scheme" and p :: DWORD and l :: nat
  assume s: "pools_ok cfg s \<and> t < length cfg" and pl: "(p, l) \<in> taken cfg t s"
  obtain ps where ps: "free_list cfg t s ps" using s by (auto simp: pools_ok_def)
  have p: "p \<in> elems (cfg ! t)" "p \<notin> set ps" "l = unat (memp_size (cfg ! t))" using pl by (auto simp: taken_free [OF ps])
  note f = free_free_list [OF conjunct1 [OF s] conjunct2 [OF s] ps p(1,2)]
  have "elems (cfg ! t) - set (p # ps) = (elems (cfg ! t) - set ps) - {p}" by auto
  then have "taken cfg t (memp_free t p s) = taken cfg t s - {(p, l)}"
    using taken_free [OF ps] taken_free [OF conjunct2 [OF f]] p(3) by auto
  then show "(pools_ok cfg (memp_free t p s) \<and> t < length cfg) \<and> taken cfg t (memp_free t p s) = taken cfg t s - {(p, l)}"
    using f s by simp
next
  fix s :: "'a pool_mem_scheme" and p q :: DWORD and l m :: nat
  assume s: "pools_ok cfg s \<and> t < length cfg" and pq: "(p, l) \<in> taken cfg t s" "(q, m) \<in> taken cfg t s" "(p, l) \<noteq> (q, m)"
  obtain ps where ps: "free_list cfg t s ps" using s by (auto simp: pools_ok_def)
  have "pool_fits (cfg ! t)" using s by (simp add: pools_ok_def pools_fit_def)
  then show "unat p + l \<le> unat q \<or> unat q + m \<le> unat p" using elems_apart pq by (auto simp: taken_free [OF ps])
qed

section \<open>The initial lists\<close>

lemma carve_ok:
  assumes "pool_fits c" "chained (link s) (memp_tab s i) (rev (map (elem c) [0..<k]))" "k + j = unat (memp_num c)"
  shows "let s' = carve j i (memp_size c) (elem c k) s in
    chained (link s') (memp_tab s' i) (rev (map (elem c) [0..<unat (memp_num c)])) \<and>
    (\<forall>u. u \<noteq> i \<longrightarrow> memp_tab s' u = memp_tab s u) \<and> (\<forall>p. p \<notin> elems c \<longrightarrow> link s' p = link s p)"
  using assms(2,3)
proof (induction j arbitrary: k s)
  case 0
  then show ?case by simp
next
  case (Suc j)
  let ?p = "elem c k"
  let ?s = "set_tab i ?p (set_link ?p (memp_tab s i) s)"
  have k: "k < unat (memp_num c)" using Suc.prems(2) by simp
  then have p: "?p \<in> elems c" by (auto simp: elems_def)
  have "?p \<notin> set (rev (map (elem c) [0..<k]))" 
  proof
    assume "?p \<in> set (rev (map (elem c) [0..<k]))"
    then obtain i where i: "i < k" "elem c k = elem c i" by auto
    then show False using elem_inj [OF assms(1) k, of i] k by simp
  qed
  then have "chained (link ?s) (memp_tab ?s i) (rev (map (elem c) [0..<Suc k]))"
    using Suc.prems(1) elem_nonzero [OF assms(1) p] by (simp add: chained_other)
  from Suc.IH [OF this] Suc.prems(2) have
    "let s' = carve j i (memp_size c) (elem c (Suc k)) ?s in
      chained (link s') (memp_tab s' i) (rev (map (elem c) [0..<unat (memp_num c)])) \<and>
      (\<forall>u. u \<noteq> i \<longrightarrow> memp_tab s' u = memp_tab ?s u) \<and> (\<forall>p. p \<notin> elems c \<longrightarrow> link s' p = link ?s p)" by simp
  moreover have "elem c k + ucast (memp_size c) = elem c (Suc k)" by (simp add: elem_def algebra_simps)
  ultimately show ?case using p by (auto simp: Let_def)
qed

lemma carve_free_list:
  assumes "pools_fit cfg" "i < length cfg" "s' = carve (unat (memp_num (cfg ! i))) i (memp_size (cfg ! i)) (memp_base (cfg ! i)) (set_tab i 0 s)"
  shows "free_list cfg i s' (rev (map (elem (cfg ! i)) [0..<unat (memp_num (cfg ! i))]))"
    "u \<noteq> i \<Longrightarrow> u < length cfg \<Longrightarrow> free_list cfg u s ps \<Longrightarrow> free_list cfg u s' ps"
proof -
  let ?c = "cfg ! i"
  have c: "pool_fits ?c" using assms(1,2) by (simp add: pools_fit_def)
  have e0: "elem ?c 0 = memp_base ?c" by (simp add: elem_def)
  have C: "chained (link s') (memp_tab s' i) (rev (map (elem ?c) [0..<unat (memp_num ?c)]))"
    "\<forall>u. u \<noteq> i \<longrightarrow> memp_tab s' u = memp_tab s u" "\<forall>p. p \<notin> elems ?c \<longrightarrow> link s' p = link s p"
    using carve_ok [OF c, where k = 0 and s = "set_tab i 0 s" and i = i] assms(3) by (simp_all add: Let_def e0)
  show "free_list cfg i s' (rev (map (elem ?c) [0..<unat (memp_num ?c)]))"
    using C(1) elem_inj [OF c] by (auto simp: free_list_def distinct_map elems_def intro!: inj_onI)
  show "free_list cfg u s' ps" if u: "u \<noteq> i" "u < length cfg" "free_list cfg u s ps"
  proof -
    have d: "set ps \<inter> elems ?c = {}" using u(3) apart_pools [OF assms(1) u(2) assms(2) u(1)] by (auto simp: free_list_def)
    have "chained (link s') x qs = chained (link s) x qs" if "set qs \<inter> elems ?c = {}" for x qs
      using that C(3) by (induction qs arbitrary: x) auto
    then show ?thesis using u d C(2) by (simp add: free_list_def)
  qed
qed

lemma init_pools_ok:
  assumes "pools_fit cfg" "cfg = as @ cs" "\<forall>u < length as. \<exists>ps. free_list cfg u s ps \<and> set ps = elems (cfg ! u)"
  shows "\<forall>u < length cfg. \<exists>ps. free_list cfg u (init_pools cs (length as) s) ps \<and> set ps = elems (cfg ! u)"
  using assms(2,3)
proof (induction cs arbitrary: as s)
  case (Cons c cs)
  have c: "cfg ! length as = c" "length as < length cfg" using Cons.prems(1) by simp_all
  let ?s = "carve (unat (memp_num c)) (length as) (memp_size c) (memp_base c) (set_tab (length as) 0 s)"
  note F = carve_free_list [OF assms(1) c(2), of ?s s, unfolded c(1), OF refl]
  have "\<exists>ps. free_list cfg u ?s ps \<and> set ps = elems (cfg ! u)" if "u < length (as @ [c])" for u
  proof (cases "u = length as")
    case True
    then show ?thesis using F(1) by (intro exI) (auto simp: c(1) elems_def lessThan_atLeast0)
  next
    case False
    then have u: "u < length as" "u < length cfg" using that c(2) by simp_all
    then obtain ps where "free_list cfg u s ps" "set ps = elems (cfg ! u)" using Cons.prems(2) by blast
    then show ?thesis using F(2) [OF False u(2)] by blast
  qed
  then show ?case using Cons.IH [of "as @ [c]" ?s] Cons.prems(1) by simp
qed simp

lemma memp_init_ok:
  assumes "pools_fit cfg"
  shows "pools_ok cfg (memp_init cfg s)" "t < length cfg \<Longrightarrow> taken cfg t (memp_init cfg s) = {}"
proof -
  have I: "\<forall>u < length cfg. \<exists>ps. free_list cfg u (memp_init cfg s) ps \<and> set ps = elems (cfg ! u)"
    using init_pools_ok [OF assms, of "[]" cfg s] by (simp add: memp_init_def)
  then show "pools_ok cfg (memp_init cfg s)" using assms by (auto simp: pools_ok_def)
  assume "t < length cfg"
  then obtain ps where "free_list cfg t (memp_init cfg s) ps" "set ps = elems (cfg ! t)" using I by blast
  then show "taken cfg t (memp_init cfg s) = {}" by (simp add: taken_free)
qed

section \<open>Any sequence of requests and releases\<close>

inductive pool_reached :: "mempool list \<Rightarrow> pool_mem \<Rightarrow> bool" for cfg where
  start: "pool_reached cfg (memp_init cfg s)"
| malloc: "pool_reached cfg s \<Longrightarrow> t < length cfg \<Longrightarrow> memp_malloc cfg t s = (p, s') \<Longrightarrow> pool_reached cfg s'"
| free: "pool_reached cfg s \<Longrightarrow> t < length cfg \<Longrightarrow> (p, l) \<in> taken cfg t s \<Longrightarrow> pool_reached cfg (memp_free t p s)"

lemma pool_reached_ok: "pool_reached cfg s \<Longrightarrow> pools_fit cfg \<Longrightarrow> pools_ok cfg s"
proof (induction rule: pool_reached.induct)
  case (start s)
  then show ?case by (rule memp_init_ok)
next
  case (malloc s t p s')
  then show ?case using mpool.alloc_law [of cfg s t 0] by auto
next
  case (free s t p l)
  then show ?case using mpool.release_law [of cfg s t p l] by auto
qed

text \<open>C21: after any sequence of requests and releases of elements in use, the elements in use of a pool are
  distinct elements of its array, a request fails exactly when all of them are in use, and what it returns
  otherwise was not in use; other pools are not touched.\<close>
theorem pool_fails_only_when_empty:
  assumes "pools_fit cfg" "pool_reached cfg s" "t < length cfg" "memp_malloc cfg t s = (p, s')"
  shows "fst ` taken cfg t s \<subseteq> elems (cfg ! t) \<and>
    (p = 0 \<longleftrightarrow> card (taken cfg t s) = unat (memp_num (cfg ! t))) \<and>
    (p \<noteq> 0 \<longrightarrow> p \<in> elems (cfg ! t) \<and> p \<notin> fst ` taken cfg t s \<and>
       taken cfg t s' = insert (p, unat (memp_size (cfg ! t))) (taken cfg t s)) \<and>
    (\<forall>u < length cfg. u \<noteq> t \<longrightarrow> taken cfg u s' = taken cfg u s)"
proof -
  have ok: "pools_ok cfg s" using pool_reached_ok assms(1,2) by blast
  obtain ps where ps: "free_list cfg t s ps" using ok assms(3) by (auto simp: pools_ok_def)
  have c: "pool_fits (cfg ! t)" using assms(1,3) by (simp add: pools_fit_def)
  have fin: "finite (elems (cfg ! t))" by (simp add: elems_def)
  have "card (taken cfg t s) = card (elems (cfg ! t) - set ps)"
    unfolding taken_free [OF ps] by (rule card_image) (auto intro: inj_onI)
  also have "\<dots> = unat (memp_num (cfg ! t)) - length ps"
    using ps card_elems [OF c] by (simp add: card_Diff_subset distinct_card free_list_def)
  finally have n: "card (taken cfg t s) = unat (memp_num (cfg ! t)) - length ps" .
  have le: "length ps \<le> unat (memp_num (cfg ! t))"
    using card_mono [OF fin, of "set ps"] ps card_elems [OF c] by (simp add: free_list_def distinct_card)
  have same: "taken cfg u s' = taken cfg u s" if "u \<noteq> t" for u
    using assms(3,4) that by (auto simp: taken_def memp_malloc_def Let_def free_list_def split: if_splits)
  note m = malloc_free_list [OF ok assms(3) ps]
  show ?thesis
  proof (cases ps)
    case Nil
    then show ?thesis using m assms(4) same n by (auto simp: taken_free [OF ps])
  next
    case (Cons q ps')
    then have q: "p = q" "p \<noteq> 0" "free_list cfg t s' ps'" using m assms(4) by auto
    have "elems (cfg ! t) - set ps' = insert p (elems (cfg ! t) - set ps)" using ps q(1) by (auto simp: free_list_def Cons)
    then show ?thesis using q same n le ps by (auto simp: taken_free [OF ps] taken_free [OF q(3)] Cons free_list_def)
  qed
qed

definition two_pools :: "mempool list" where
  "two_pools = [\<lparr>memp_num = 1, memp_size = 16, memp_base = 0x80001000\<rparr>, \<lparr>memp_num = 2, memp_size = 1536, memp_base = 0x80002000\<rparr>]"

definition blank_pool :: pool_mem where
  "blank_pool = \<lparr>link = \<lambda>p. 0, memp_tab = \<lambda>t. 0\<rparr>"

lemma two_pools_fit: "pools_fit two_pools"
proof -
  have "elems (two_pools ! 0) = {0x80001000}" "elems (two_pools ! 1) = {0x80002000, 0x80002600}" by code_simp+
  then show ?thesis by (auto simp: pools_fit_def pool_fits_def two_pools_def less_Suc_eq)
qed

lemma pool_fails_only_when_empty_witness:
  "\<exists>s'. memp_malloc two_pools 1 (memp_init two_pools blank_pool) = (0x80002600, s') \<and>
    taken two_pools 1 s' = {(0x80002600, 1536)}"
proof -
  let ?s = "memp_init two_pools blank_pool"
  have r: "pool_reached two_pools ?s" by (rule pool_reached.start)
  have m: "fst (memp_malloc two_pools 1 ?s) = 0x80002600"
    by code_simp
  then obtain s' where s': "memp_malloc two_pools 1 ?s = (0x80002600, s')" by (cases "memp_malloc two_pools 1 ?s") simp
  have "taken two_pools 1 ?s = {}" using memp_init_ok(2) [OF two_pools_fit, of 1] by (simp add: two_pools_def)
  then show ?thesis using pool_fails_only_when_empty [OF two_pools_fit r _ s'] s' by (auto simp: two_pools_def)
qed

end
