(* ===== verification/LwPbuf.thy ===== *)
theory LwPbuf
  imports LwPool Libc
begin

unbundle bit_operations_syntax

text \<open>
  The packet buffers of lwIP, \<^verbatim>\<open>lwip/src/core/pbuf.c\<close>, over the heap, the pools and a memory of bytes.  The first
  word of a \<^verbatim>\<open>struct pbuf\<close>, its \<^verbatim>\<open>next\<close>, is the word \<open>link\<close> that a free element of a pool is chained by, as
  in the code; the other fields are the record \<open>pkt\<close>.  The heap can loop, so what allocates or frees is partial.
  The configuration has no custom buffers, no queue of out-of-order segments to drop and computes no
  checksum while copying.
\<close>

section \<open>State\<close>

datatype pbuf_layer = PBUF_TRANSPORT | PBUF_IP | PBUF_LINK | PBUF_RAW

datatype pbuf_type = PBUF_RAM | PBUF_ROM | PBUF_REF | PBUF_POOL

record pkt =
  payload :: DWORD
  tot_len :: WORD
  plen :: WORD
  ptype :: pbuf_type
  pflags :: BYTE
  pref :: WORD

record netmem = pool_mem +
  pkts :: "DWORD \<Rightarrow> pkt"
  bytes :: "DWORD \<Rightarrow> BYTE"
  mem_heap :: heap

definition upd_pkt :: "DWORD \<Rightarrow> (pkt \<Rightarrow> pkt) \<Rightarrow> 'a netmem_scheme \<Rightarrow> 'a netmem_scheme" where
  "upd_pkt p f s = s\<lparr>pkts := (pkts s)(p := f (pkts s p))\<rparr>"

definition MEMCPY :: "DWORD \<Rightarrow> DWORD \<Rightarrow> WORD \<Rightarrow> 'a netmem_scheme \<Rightarrow> 'a netmem_scheme" where
  "MEMCPY d q n s = s\<lparr>bytes := memcpy (bytes s) d q (unat n)\<rparr>"

abbreviation SIZEOF_STRUCT_PBUF :: DWORD where "SIZEOF_STRUCT_PBUF \<equiv> 16"
abbreviation PBUF_POOL_BUFSIZE :: WORD where "PBUF_POOL_BUFSIZE \<equiv> 1520"
abbreviation MEMP_PBUF :: nat where "MEMP_PBUF \<equiv> 5"
abbreviation MEMP_PBUF_POOL :: nat where "MEMP_PBUF_POOL \<equiv> 6"

section \<open>Releasing\<close>

partial_function (option) free_loop :: "DWORD \<Rightarrow> BYTE \<Rightarrow> 'a netmem_scheme \<Rightarrow> (BYTE \<times> 'a netmem_scheme) option" where
  "free_loop p count s =
     (if p = 0 then Some (count, s)
      else
        let s = upd_pkt p (\<lambda>b. b\<lparr>pref := pref b - 1\<rparr>) s in
        if pref (pkts s p) = 0 then
          let q = link s p;
              s = (case ptype (pkts s p) of
                     PBUF_POOL \<Rightarrow> memp_free MEMP_PBUF_POOL p s
                   | PBUF_ROM \<Rightarrow> memp_free MEMP_PBUF p s
                   | PBUF_REF \<Rightarrow> memp_free MEMP_PBUF p s
                   | PBUF_RAM \<Rightarrow> s\<lparr>mem_heap := mem_free p (mem_heap s)\<rparr>)
          in free_loop q (count + 1) s
        else Some (count, s))"

definition pbuf_free :: "DWORD \<Rightarrow> 'a netmem_scheme \<Rightarrow> (BYTE \<times> 'a netmem_scheme) option" where
  "pbuf_free p s = (if p = 0 then Some (0, s) else free_loop p 0 s)"

section \<open>Allocation\<close>

fun header_offset :: "pbuf_layer \<Rightarrow> WORD" where
  "header_offset PBUF_TRANSPORT = 20 + 20 + 14"
| "header_offset PBUF_IP = 20 + 14"
| "header_offset PBUF_LINK = 14"
| "header_offset PBUF_RAW = 0"

text \<open>The rest of a chain from the pool: \<open>r\<close> is the buffer before, \<open>rem\<close> the length that is left.\<close>

partial_function (option) alloc_tail ::
    "mempool list \<Rightarrow> DWORD \<Rightarrow> DWORD \<Rightarrow> int \<Rightarrow> 'a netmem_scheme \<Rightarrow> (DWORD \<times> 'a netmem_scheme) option" where
  "alloc_tail cfg p r rem s =
     (if rem > 0 then
        case memp_malloc cfg MEMP_PBUF_POOL s of (q, s) \<Rightarrow>
        if q = 0 then Option.bind (pbuf_free p s) (\<lambda>(_, s). Some (0, s))
        else
          let s = set_link q 0 (upd_pkt q (\<lambda>b. b\<lparr>ptype := PBUF_POOL, pflags := 0\<rparr>) s);
              s = set_link r q s;
              n = min (of_int rem) PBUF_POOL_BUFSIZE;
              s = upd_pkt q (\<lambda>b. b\<lparr>tot_len := of_int rem, plen := n, payload := q + SIZEOF_STRUCT_PBUF, pref := 1\<rparr>) s
          in alloc_tail cfg p q (rem - int (unat n)) s
      else Some (p, s))"

definition pbuf_alloc ::
    "mempool list \<Rightarrow> pbuf_layer \<Rightarrow> WORD \<Rightarrow> pbuf_type \<Rightarrow> 'a netmem_scheme \<Rightarrow> (DWORD \<times> 'a netmem_scheme) option" where
  "pbuf_alloc cfg layer n type s =
     (let offset = (ucast (header_offset layer) :: DWORD);
          done = (\<lambda>(p, s). Some (p, if p = 0 then s else upd_pkt p (\<lambda>b. b\<lparr>pref := 1, pflags := 0\<rparr>) s)) in
      case type of
        PBUF_POOL \<Rightarrow>
          (case memp_malloc cfg MEMP_PBUF_POOL s of (p, s) \<Rightarrow>
           if p = 0 then Some (0, s) else
           let k = min n (PBUF_POOL_BUFSIZE - ucast (LWIP_MEM_ALIGN_SIZE offset));
               s = upd_pkt p (\<lambda>b. b\<lparr>ptype := type,
                     payload := LWIP_MEM_ALIGN_SIZE (p + (SIZEOF_STRUCT_PBUF + offset)), tot_len := n,
                     plen := k, pref := 1\<rparr>) (set_link p 0 s)
           in Option.bind (alloc_tail cfg p p (int (unat n) - int (unat k)) s) done)
      | PBUF_RAM \<Rightarrow>
          Option.bind (mem_malloc (LWIP_MEM_ALIGN_SIZE (SIZEOF_STRUCT_PBUF + offset) + LWIP_MEM_ALIGN_SIZE (ucast n)) (mem_heap s))
            (\<lambda>(p, h). let s = s\<lparr>mem_heap := h\<rparr> in
              if p = 0 then Some (0, s) else
              done (p, upd_pkt p (\<lambda>b. b\<lparr>payload := LWIP_MEM_ALIGN_SIZE (p + SIZEOF_STRUCT_PBUF + offset), tot_len := n,
                 plen := n, ptype := type\<rparr>) (set_link p 0 s)))
      | _ \<Rightarrow>
          (case memp_malloc cfg MEMP_PBUF s of (p, s) \<Rightarrow>
           if p = 0 then Some (0, s) else
           done (p, upd_pkt p (\<lambda>b. b\<lparr>payload := 0, plen := n, tot_len := n, ptype := type\<rparr>) (set_link p 0 s))))"

section \<open>Shrinking, hiding and revealing headers\<close>

text \<open>The walk to the buffer that will be the last: that buffer and the length it will have.\<close>

partial_function (option) keep_loop :: "DWORD \<Rightarrow> WORD \<Rightarrow> WORD \<Rightarrow> 'a netmem_scheme \<Rightarrow> (DWORD \<times> WORD \<times> 'a netmem_scheme) option" where
  "keep_loop q rem grow s =
     (if rem > plen (pkts s q) then
        let rem = rem - plen (pkts s q); s = upd_pkt q (\<lambda>b. b\<lparr>tot_len := tot_len b + grow\<rparr>) s
        in keep_loop (link s q) rem grow s
      else Some (q, rem, s))"

definition pbuf_realloc :: "DWORD \<Rightarrow> WORD \<Rightarrow> 'a netmem_scheme \<Rightarrow> 'a netmem_scheme option" where
  "pbuf_realloc p new_len s =
     (if new_len \<ge> tot_len (pkts s p) then Some s else
      Option.bind (keep_loop p new_len (new_len - tot_len (pkts s p)) s) (\<lambda>(q, rem, s).
        let (q, s) = (if ptype (pkts s q) = PBUF_RAM \<and> rem \<noteq> plen (pkts s q) then
               case mem_trim q (ucast (ucast (payload (pkts s q) - q) :: WORD) + ucast rem) (mem_heap s) of
                 (q, h) \<Rightarrow> (q, s\<lparr>mem_heap := h\<rparr>)
             else (q, s));
            s = upd_pkt q (\<lambda>b. b\<lparr>plen := rem, tot_len := rem\<rparr>) s
        in Option.bind (if link s q \<noteq> 0 then Option.bind (pbuf_free (link s q) s) (\<lambda>(_, s). Some s) else Some s)
             (\<lambda>s. Some (set_link q 0 s))))"

definition pbuf_header :: "DWORD \<Rightarrow> WORD \<Rightarrow> 'a netmem_scheme \<Rightarrow> BYTE \<times> 'a netmem_scheme" where
  "pbuf_header p increment s =
     (if increment = 0 \<or> p = 0 then (0, s)
      else if sint increment < 0 \<and> \<not> - increment \<le> plen (pkts s p) then (1, s)
      else
        let pay = payload (pkts s p) - scast increment;
            grown = (\<lambda>b. b\<lparr>payload := pay, plen := plen b + increment, tot_len := tot_len b + increment\<rparr>)
        in if ptype (pkts s p) = PBUF_RAM \<or> ptype (pkts s p) = PBUF_POOL then
             if pay < p + SIZEOF_STRUCT_PBUF then (1, s) else (0, upd_pkt p grown s)
           else if sint increment < 0 \<and> - increment \<le> plen (pkts s p) then (0, upd_pkt p grown s)
           else (1, s))"

section \<open>Chains\<close>

partial_function (option) clen_loop :: "DWORD \<Rightarrow> BYTE \<Rightarrow> 'a netmem_scheme \<Rightarrow> BYTE option" where
  "clen_loop p n s = (if p \<noteq> 0 then clen_loop (link s p) (n + 1) s else Some n)"

definition pbuf_clen :: "DWORD \<Rightarrow> 'a netmem_scheme \<Rightarrow> BYTE option" where
  "pbuf_clen p s = clen_loop p 0 s"

definition pbuf_ref :: "DWORD \<Rightarrow> 'a netmem_scheme \<Rightarrow> 'a netmem_scheme" where
  "pbuf_ref p s = (if p \<noteq> 0 then upd_pkt p (\<lambda>b. b\<lparr>pref := pref b + 1\<rparr>) s else s)"

partial_function (option) tail_loop :: "DWORD \<Rightarrow> DWORD \<Rightarrow> 'a netmem_scheme \<Rightarrow> (DWORD \<times> 'a netmem_scheme) option" where
  "tail_loop p t s =
     (if link s p \<noteq> 0 then tail_loop (link s p) t (upd_pkt p (\<lambda>b. b\<lparr>tot_len := tot_len b + tot_len (pkts s t)\<rparr>) s)
      else Some (p, s))"

definition pbuf_cat :: "DWORD \<Rightarrow> DWORD \<Rightarrow> 'a netmem_scheme \<Rightarrow> 'a netmem_scheme option" where
  "pbuf_cat h t s =
     (if \<not> (h \<noteq> 0 \<and> t \<noteq> 0) then Some s else
      Option.bind (tail_loop h t s) (\<lambda>(p, s).
        Some (set_link p t (upd_pkt p (\<lambda>b. b\<lparr>tot_len := tot_len b + tot_len (pkts s t)\<rparr>) s))))"

definition pbuf_chain :: "DWORD \<Rightarrow> DWORD \<Rightarrow> 'a netmem_scheme \<Rightarrow> 'a netmem_scheme option" where
  "pbuf_chain h t s = Option.bind (pbuf_cat h t s) (\<lambda>s. Some (pbuf_ref t s))"

definition pbuf_dechain :: "DWORD \<Rightarrow> 'a netmem_scheme \<Rightarrow> (DWORD \<times> 'a netmem_scheme) option" where
  "pbuf_dechain p s =
     (let q = link s p in
      if q \<noteq> 0 then
        let s = upd_pkt q (\<lambda>b. b\<lparr>tot_len := tot_len (pkts s p) - plen (pkts s p)\<rparr>) s;
            s = upd_pkt p (\<lambda>b. b\<lparr>tot_len := plen b\<rparr>) (set_link p 0 s)
        in Option.bind (pbuf_free q s) (\<lambda>(tail_gone, s). Some (if tail_gone > 0 then 0 else q, s))
      else Some (0, s))"

section \<open>Copying\<close>

definition ERR_OK :: BYTE where "ERR_OK = 0"
definition ERR_VAL :: BYTE where "ERR_VAL = - 6"
definition ERR_ARG :: BYTE where "ERR_ARG = - 14"

partial_function (option) copy_loop ::
    "DWORD \<Rightarrow> DWORD \<Rightarrow> WORD \<Rightarrow> WORD \<Rightarrow> 'a netmem_scheme \<Rightarrow> (BYTE \<times> 'a netmem_scheme) option" where
  "copy_loop p_to p_from offset_to offset_from s =
     (let lt = int (unat (plen (pkts s p_to))) - int (unat offset_to);
          lf = int (unat (plen (pkts s p_from))) - int (unat offset_from);
          n = (of_int (if lt \<ge> lf then lf else lt) :: WORD);
          s = MEMCPY (payload (pkts s p_to) + ucast offset_to) (payload (pkts s p_from) + ucast offset_from) n s;
          offset_to = offset_to + n;
          offset_from = offset_from + n;
          (p_to, offset_to) = (if offset_to = plen (pkts s p_to) then (link s p_to, 0) else (p_to, offset_to));
          (p_from, offset_from) = (if offset_from \<ge> plen (pkts s p_from) then (link s p_from, 0) else (p_from, offset_from))
      in if p_from \<noteq> 0 \<and> plen (pkts s p_from) = tot_len (pkts s p_from) \<and> link s p_from \<noteq> 0 then Some (ERR_VAL, s)
         else if p_to \<noteq> 0 \<and> plen (pkts s p_to) = tot_len (pkts s p_to) \<and> link s p_to \<noteq> 0 then Some (ERR_VAL, s)
         else if p_from \<noteq> 0 then copy_loop p_to p_from offset_to offset_from s
         else Some (ERR_OK, s))"

definition pbuf_copy :: "DWORD \<Rightarrow> DWORD \<Rightarrow> 'a netmem_scheme \<Rightarrow> (BYTE \<times> 'a netmem_scheme) option" where
  "pbuf_copy p_to p_from s =
     (if \<not> (p_to \<noteq> 0 \<and> p_from \<noteq> 0 \<and> tot_len (pkts s p_to) \<ge> tot_len (pkts s p_from)) then Some (ERR_ARG, s)
      else copy_loop p_to p_from 0 0 s)"

text \<open>\<open>left\<close> and \<^verbatim>\<open>copied_total\<close> are always equal.\<close>

partial_function (option) partial_loop ::
    "DWORD \<Rightarrow> DWORD \<Rightarrow> WORD \<Rightarrow> WORD \<Rightarrow> WORD \<Rightarrow> 'a netmem_scheme \<Rightarrow> (WORD \<times> 'a netmem_scheme) option" where
  "partial_loop p dataptr n offset left s =
     (if n \<noteq> 0 \<and> p \<noteq> 0 then
        if offset \<noteq> 0 \<and> offset \<ge> plen (pkts s p) then
          partial_loop (link s p) dataptr n (offset - plen (pkts s p)) left s
        else
          let k = plen (pkts s p) - offset;
              k = (if k > n then n else k);
              s = MEMCPY (dataptr + ucast left) (payload (pkts s p) + ucast offset) k s
          in partial_loop (link s p) dataptr (n - k) 0 (left + k) s
      else Some (left, s))"

definition pbuf_copy_partial :: "DWORD \<Rightarrow> DWORD \<Rightarrow> WORD \<Rightarrow> WORD \<Rightarrow> 'a netmem_scheme \<Rightarrow> (WORD \<times> 'a netmem_scheme) option" where
  "pbuf_copy_partial buf dataptr n offset s =
     (if buf = 0 \<or> dataptr = 0 then Some (0, s) else partial_loop buf dataptr n offset 0 s)"

partial_function (option) take_loop :: "DWORD \<Rightarrow> DWORD \<Rightarrow> WORD \<Rightarrow> WORD \<Rightarrow> 'a netmem_scheme \<Rightarrow> 'a netmem_scheme option" where
  "take_loop p dataptr rest copied s =
     (if rest \<noteq> 0 then
        let k = (if rest > plen (pkts s p) then plen (pkts s p) else rest);
            s = MEMCPY (payload (pkts s p)) (dataptr + ucast copied) k s
        in take_loop (link s p) dataptr (rest - k) (copied + k) s
      else Some s)"

definition pbuf_take :: "DWORD \<Rightarrow> DWORD \<Rightarrow> WORD \<Rightarrow> 'a netmem_scheme \<Rightarrow> (BYTE \<times> 'a netmem_scheme) option" where
  "pbuf_take buf dataptr n s =
     (if buf = 0 \<or> dataptr = 0 then Some (0, s)
      else if tot_len (pkts s buf) < n then Some (ERR_ARG, s)
      else Option.bind (take_loop buf dataptr n 0 s) (\<lambda>s. Some (ERR_OK, s)))"

definition pbuf_coalesce :: "mempool list \<Rightarrow> DWORD \<Rightarrow> pbuf_layer \<Rightarrow> 'a netmem_scheme \<Rightarrow> (DWORD \<times> 'a netmem_scheme) option" where
  "pbuf_coalesce cfg p layer s =
     (if link s p = 0 then Some (p, s) else
      Option.bind (pbuf_alloc cfg layer (tot_len (pkts s p)) PBUF_RAM s) (\<lambda>(q, s).
        if q = 0 then Some (p, s) else
        Option.bind (pbuf_copy q p s) (\<lambda>(err, s).
        Option.bind (pbuf_free p s) (\<lambda>(count, s). Some (q, s)))))"

section \<open>Searching\<close>

text \<open>The walk to the buffer an offset lies in: that buffer and the offset inside of it.\<close>

partial_function (option) at_loop :: "DWORD \<Rightarrow> WORD \<Rightarrow> 'a netmem_scheme \<Rightarrow> (DWORD \<times> WORD) option" where
  "at_loop q offset s =
     (if q \<noteq> 0 \<and> plen (pkts s q) \<le> offset then at_loop (link s q) (offset - plen (pkts s q)) s else Some (q, offset))"

definition pbuf_get_at :: "DWORD \<Rightarrow> WORD \<Rightarrow> 'a netmem_scheme \<Rightarrow> BYTE option" where
  "pbuf_get_at p offset s = Option.bind (at_loop p offset s) (\<lambda>(q, copy_from).
     if q \<noteq> 0 \<and> plen (pkts s q) > copy_from then Some (bytes s (payload (pkts s q) + ucast copy_from)) else Some 0)"

text \<open>The comparison from its \<open>i\<close>-th byte on; \<^verbatim>\<open>i+1\<close> is computed in 16 bits.\<close>

partial_function (option) memcmp_loop :: "DWORD \<Rightarrow> WORD \<Rightarrow> DWORD \<Rightarrow> WORD \<Rightarrow> WORD \<Rightarrow> 'a netmem_scheme \<Rightarrow> WORD option" where
  "memcmp_loop q start s2 n i s =
     (if i < n then
        Option.bind (pbuf_get_at q (start + i) s) (\<lambda>a.
          if a \<noteq> bytes s (s2 + ucast i) then Some (i + 1) else memcmp_loop q start s2 n (i + 1) s)
      else Some 0)"

definition pbuf_memcmp :: "DWORD \<Rightarrow> WORD \<Rightarrow> DWORD \<Rightarrow> WORD \<Rightarrow> 'a netmem_scheme \<Rightarrow> WORD option" where
  "pbuf_memcmp p offset s2 n s = Option.bind (at_loop p offset s) (\<lambda>(q, start).
     if q \<noteq> 0 \<and> plen (pkts s q) > start then memcmp_loop q start s2 n 0 s else Some 0xFFFF)"

partial_function (option) find_loop :: "DWORD \<Rightarrow> DWORD \<Rightarrow> WORD \<Rightarrow> WORD \<Rightarrow> WORD \<Rightarrow> 'a netmem_scheme \<Rightarrow> WORD option" where
  "find_loop p m mem_len mx i s =
     (if i \<le> mx then
        Option.bind (pbuf_memcmp p i m mem_len s) (\<lambda>plus. if plus = 0 then Some i else find_loop p m mem_len mx (i + plus) s)
      else Some 0xFFFF)"

definition pbuf_memfind :: "DWORD \<Rightarrow> DWORD \<Rightarrow> WORD \<Rightarrow> WORD \<Rightarrow> 'a netmem_scheme \<Rightarrow> WORD option" where
  "pbuf_memfind p m mem_len start_offset s =
     (if unat (tot_len (pkts s p)) \<ge> unat mem_len + unat start_offset
      then find_loop p m mem_len (tot_len (pkts s p) - mem_len) start_offset s
      else Some 0xFFFF)"

definition pbuf_strstr :: "DWORD \<Rightarrow> DWORD \<Rightarrow> 'a netmem_scheme \<Rightarrow> WORD option" where
  "pbuf_strstr p substr s =
     (if substr = 0 \<or> bytes s substr = 0 \<or> tot_len (pkts s p) = 0xFFFF then Some 0xFFFF else
      Option.bind (strlen (bytes s) substr) (\<lambda>substr_len.
        if substr_len \<ge> 0xFFFF then Some 0xFFFF else pbuf_memfind p substr (ucast substr_len) 0 s))"

section \<open>The bytes of a chain\<close>

definition content :: "'a netmem_scheme \<Rightarrow> DWORD \<Rightarrow> BYTE list" where
  "content s p = map (\<lambda>i. bytes s (payload (pkts s p) + of_nat i)) [0..<unat (plen (pkts s p))]"

definition contents :: "'a netmem_scheme \<Rightarrow> DWORD list \<Rightarrow> BYTE list" where
  "contents s ps = concat (map (content s) ps)"

definition total_len :: "'a netmem_scheme \<Rightarrow> DWORD list \<Rightarrow> nat" where
  "total_len s ps = sum_list (map (\<lambda>p. unat (plen (pkts s p))) ps)"

text \<open>One packet: the total length of each buffer is that of the chain from it on.\<close>

fun packet :: "'a netmem_scheme \<Rightarrow> DWORD list \<Rightarrow> bool" where
  "packet s [] = True"
| "packet s (p # ps) \<longleftrightarrow> unat (tot_len (pkts s p)) = total_len s (p # ps) \<and> packet s ps"

lemma length_content [simp]: "length (content s p) = unat (plen (pkts s p))"
  by (simp add: content_def)

lemma content_nth: "i < unat (plen (pkts s p)) \<Longrightarrow> content s p ! i = bytes s (payload (pkts s p) + of_nat i)"
  by (simp add: content_def)

lemma total_len_simps [simp]:
  "total_len s [] = 0" "total_len s (p # ps) = unat (plen (pkts s p)) + total_len s ps"
  by (simp_all add: total_len_def)

lemma contents_simps [simp]: "contents s [] = []" "contents s (p # ps) = content s p @ contents s ps"
  by (simp_all add: contents_def)

lemma length_contents: "length (contents s ps) = total_len s ps"
  by (induction ps) simp_all

lemma chained_tail: "chained f x (ps @ p # qs) \<Longrightarrow> chained f (f p) qs"
  by (induction ps arbitrary: x) auto

lemma chained_distinct: "chained f x ps \<Longrightarrow> distinct ps"
proof (induction ps arbitrary: x)
  case (Cons p ps)
  have "p \<notin> set ps"
  proof
    assume "p \<in> set ps"
    then obtain as bs where s: "ps = as @ p # bs" by (meson split_list)
    have "chained f (f p) bs" "chained f (f p) ps" using Cons.prems chained_tail [of f x "p # as"] by (auto simp: s)
    then have "bs = ps" by (rule chained_unique)
    then show False using s by simp
  qed
  then show ?case using Cons by auto
qed simp

section \<open>Reading a byte, comparing and searching\<close>

text \<open>What \<^verbatim>\<open>pbuf_get_at\<close> returns of a list of bytes: zero behind its end.\<close>

definition byte_at :: "BYTE list \<Rightarrow> nat \<Rightarrow> BYTE" where
  "byte_at bs i = (if i < length bs then bs ! i else 0)"

lemma total_len_append [simp]: "total_len s (ps @ qs) = total_len s ps + total_len s qs"
  by (simp add: total_len_def)

lemma contents_append [simp]: "contents s (ps @ qs) = contents s ps @ contents s qs"
  by (simp add: contents_def)

lemma chained_from: "chained f x (as @ p # bs) \<Longrightarrow> chained f p (p # bs)"
  by (induction as arbitrary: x) auto

lemma at_loop_ok:
  assumes "chained (link s) q ps"
  shows "if unat offset < total_len s ps then \<exists>as p bs k. at_loop q offset s = Some (p, k) \<and> ps = as @ p # bs \<and>
      unat offset = total_len s as + unat k \<and> k < plen (pkts s p) \<and> p \<noteq> 0
    else \<exists>k. at_loop q offset s = Some (0, k)"
  using assms
proof (induction ps arbitrary: q offset)
  case Nil
  then show ?case by (simp add: at_loop.simps)
next
  case (Cons p ps)
  have p: "q = p" "p \<noteq> 0" "chained (link s) (link s p) ps" using Cons.prems by auto
  show ?case
  proof (cases "plen (pkts s p) \<le> offset")
    case True
    let ?o = "offset - plen (pkts s p)"
    have le: "unat (plen (pkts s p)) \<le> unat offset" using True by (simp add: word_le_nat_alt)
    have u: "unat offset = unat (plen (pkts s p)) + unat ?o" using True le by (simp add: unat_sub)
    have eq: "at_loop q offset s = at_loop (link s p) ?o s" using True p by (subst at_loop.simps) simp
    show ?thesis
    proof (cases "unat ?o < total_len s ps")
      case True
      then obtain as r bs k where I: "at_loop (link s p) ?o s = Some (r, k)" "ps = as @ r # bs"
        "unat ?o = total_len s as + unat k" "k < plen (pkts s r)" "r \<noteq> 0"
        using Cons.IH [OF p(3), of ?o] by auto
      have "at_loop q offset s = Some (r, k) \<and> p # ps = (p # as) @ r # bs \<and>
          unat offset = total_len s (p # as) + unat k \<and> k < plen (pkts s r) \<and> r \<noteq> 0" using u I eq by simp
      moreover have "unat offset < total_len s (p # ps)" using u True by simp
      ultimately show ?thesis by (simp only: if_True) blast
    next
      case False
      then have "\<not> unat offset < total_len s (p # ps)" using u by simp
      then show ?thesis using eq Cons.IH [OF p(3), of ?o] False by simp
    qed
  next
    case False
    then have "at_loop q offset s = Some (p, offset)" using p by (subst at_loop.simps) simp
    moreover have "unat offset < unat (plen (pkts s p))" "offset < plen (pkts s p)" using False
      by (simp_all add: word_le_nat_alt word_less_nat_alt)
    ultimately have "at_loop q offset s = Some (p, offset) \<and> p # ps = [] @ p # ps \<and>
        unat offset = total_len s [] + unat offset \<and> offset < plen (pkts s p) \<and> p \<noteq> 0" using p by simp
    moreover have "unat offset < total_len s (p # ps)" using False by (simp add: word_le_nat_alt)
    ultimately show ?thesis by (simp only: if_True) blast
  qed
qed

lemma get_at_ok:
  assumes "chained (link s) p ps"
  shows "pbuf_get_at p offset s = Some (byte_at (contents s ps) (unat offset))"
proof (cases "unat offset < total_len s ps")
  case True
  then obtain as q bs k where S: "at_loop p offset s = Some (q, k)" "ps = as @ q # bs"
    "unat offset = total_len s as + unat k" "k < plen (pkts s q)" "q \<noteq> 0"
    using at_loop_ok [OF assms, of offset] by auto
  have k: "unat k < unat (plen (pkts s q))" using S(4) by (simp add: word_less_nat_alt)
  have "contents s ps ! unat offset = bytes s (payload (pkts s q) + ucast k)"
    using k by (simp add: S(2,3) nth_append length_contents content_nth)
  then show ?thesis using True S by (simp add: pbuf_get_at_def byte_at_def length_contents)
next
  case False
  then obtain k where "at_loop p offset s = Some (0, k)" using at_loop_ok [OF assms, of offset] by auto
  then show ?thesis using False by (simp add: pbuf_get_at_def byte_at_def length_contents)
qed

text \<open>The place of the first difference of \<open>n\<close> bytes of two sequences, plus one, or zero.\<close>

fun first_diff :: "(nat \<Rightarrow> BYTE) \<Rightarrow> (nat \<Rightarrow> BYTE) \<Rightarrow> nat \<Rightarrow> nat \<Rightarrow> nat" where
  "first_diff f g 0 i = 0"
| "first_diff f g (Suc n) i = (if f i \<noteq> g i then i + 1 else first_diff f g n (i + 1))"

lemma first_diff_bounds: "first_diff f g n i \<noteq> 0 \<Longrightarrow> i < first_diff f g n i \<and> first_diff f g n i \<le> i + n"
  by (induction f g n i rule: first_diff.induct) auto

lemma first_diff_zero: "first_diff f g n i = 0 \<longleftrightarrow> (\<forall>j. i \<le> j \<and> j < i + n \<longrightarrow> f j = g j)"
proof (induction f g n i rule: first_diff.induct)
  case (2 f g n i)
  have "(\<forall>j. i \<le> j \<and> j < i + Suc n \<longrightarrow> f j = g j) \<longleftrightarrow> f i = g i \<and> (\<forall>j. Suc i \<le> j \<and> j < Suc i + n \<longrightarrow> f j = g j)"
    by (metis Suc_leI Suc_le_lessD add_Suc_right add_Suc le_refl less_add_Suc1 less_imp_le_nat nat_less_le)
  then show ?case using 2 by auto
qed auto

lemma memcmp_loop_ok:
  assumes "chained (link s) q qs" "unat start + unat n \<le> 0xFFFF" "unat i + m = unat n"
  shows "memcmp_loop q start s2 n i s =
    Some (of_nat (first_diff (\<lambda>j. byte_at (contents s qs) (unat start + j)) (\<lambda>j. bytes s (s2 + of_nat j)) m (unat i)))"
  using assms(3)
proof (induction m arbitrary: i)
  case 0
  then show ?case by (simp add: memcmp_loop.simps word_less_nat_alt)
next
  case (Suc m)
  have lt: "i < n" using Suc.prems by (simp add: word_less_nat_alt)
  have i1: "unat (i + 1) = unat i + 1" using Suc.prems assms(2) by (simp add: unat_add_lem [THEN iffD1])
  have si: "unat (start + i) = unat start + unat i" using Suc.prems assms(2) by (simp add: unat_add_lem [THEN iffD1])
  have "memcmp_loop q start s2 n (i + 1) s =
    Some (of_nat (first_diff (\<lambda>j. byte_at (contents s qs) (unat start + j)) (\<lambda>j. bytes s (s2 + of_nat j)) m (unat (i + 1))))"
    by (rule Suc.IH) (use Suc.prems i1 in simp)
  then show ?case using lt i1 si by (subst memcmp_loop.simps) (auto simp: get_at_ok [OF assms(1)] add.commute)
qed

lemma memcmp_ok:
  assumes "chained (link s) p ps" "unat offset + unat n \<le> total_len s ps" "total_len s ps \<le> 0xFFFF" "0 < unat n"
  shows "pbuf_memcmp p offset s2 n s =
    Some (of_nat (first_diff (\<lambda>j. byte_at (contents s ps) (unat offset + j)) (\<lambda>j. bytes s (s2 + of_nat j)) (unat n) 0))"
proof -
  obtain as q bs k where S: "at_loop p offset s = Some (q, k)" "ps = as @ q # bs"
    "unat offset = total_len s as + unat k" "k < plen (pkts s q)" "q \<noteq> 0"
    using at_loop_ok [OF assms(1), of offset] assms(2,4) by auto
  have c: "chained (link s) q (q # bs)" using assms(1) chained_from unfolding S(2) by blast
  have same: "byte_at (contents s (q # bs)) (unat k + j) = byte_at (contents s ps) (unat offset + j)" for j
    by (simp add: byte_at_def S(2,3) length_contents nth_append del: contents_simps)
  have "unat k + unat n \<le> 0xFFFF" using assms(2,3) S(3) by linarith
  then show ?thesis using memcmp_loop_ok [OF c, of k n 0 "unat n" s2] S(1,4,5) same
    by (simp add: pbuf_memcmp_def)
qed

text \<open>What the search does on lists: after a difference it goes on behind the differing byte.\<close>

function skip_find :: "BYTE list \<Rightarrow> BYTE list \<Rightarrow> nat \<Rightarrow> nat option" where
  "skip_find bs pat i =
     (if i + length pat \<le> length bs then
        let d = first_diff (\<lambda>j. byte_at bs (i + j)) (\<lambda>j. pat ! j) (length pat) 0
        in if d = 0 then Some i else skip_find bs pat (i + d)
      else None)"
  by pat_completeness auto

termination
  by (relation "measure (\<lambda>(bs, pat, i). length bs + 1 - i)") auto

declare skip_find.simps [simp del]

definition at_mem :: "'a netmem_scheme \<Rightarrow> DWORD \<Rightarrow> BYTE list \<Rightarrow> bool" where
  "at_mem s m pat \<longleftrightarrow> (\<forall>j < length pat. bytes s (m + of_nat j) = pat ! j)"

lemma first_diff_cong: "(\<And>j. i \<le> j \<Longrightarrow> j < i + n \<Longrightarrow> f j = f' j \<and> g j = g' j) \<Longrightarrow> first_diff f g n i = first_diff f' g' n i"
  by (induction f g n i rule: first_diff.induct) auto

lemma find_loop_ok:
  assumes "chained (link s) p ps" "total_len s ps < 0xFFFF" "at_mem s m pat" "unat mem_len = length pat" "pat \<noteq> []"
    "unat mx + length pat = total_len s ps" "unat i \<le> total_len s ps"
  shows "find_loop p m mem_len mx i s = Some (case skip_find (contents s ps) pat (unat i) of None \<Rightarrow> 0xFFFF | Some k \<Rightarrow> of_nat k)"
  using assms(7)
proof (induction "total_len s ps + 1 - unat i" arbitrary: i rule: less_induct)
  case less
  let ?d = "first_diff (\<lambda>j. byte_at (contents s ps) (unat i + j)) (\<lambda>j. pat ! j) (length pat) 0"
  show ?case
  proof (cases "unat i + length pat \<le> total_len s ps")
    case True
    then have le: "i \<le> mx" using assms(6) by (simp add: word_le_nat_alt)
    have "first_diff (\<lambda>j. byte_at (contents s ps) (unat i + j)) (\<lambda>j. bytes s (m + of_nat j)) (length pat) 0 = ?d"
      using assms(3) by (intro first_diff_cong) (simp add: at_mem_def)
    then have c: "pbuf_memcmp p i m mem_len s = Some (of_nat ?d)"
      using memcmp_ok [OF assms(1), of i mem_len m] True assms(2,4,5) by simp
    have d: "?d \<le> length pat" using first_diff_bounds [of _ _ "length pat" 0] by (metis add_0 le0)
    then have ud: "unat (of_nat ?d :: WORD) = ?d" using assms(2) True by (simp add: unat_of_nat take_bit_nat_eq_self)
    show ?thesis
    proof (cases "?d = 0")
      case z: True
      then show ?thesis using c le True by (subst find_loop.simps) (simp add: skip_find.simps [of _ pat] length_contents)
    next
      case nz: False
      have w: "(of_nat ?d :: WORD) \<noteq> 0" using ud nz by (metis unat_0)
      have ui: "unat (i + of_nat ?d) = unat i + ?d" using d ud True assms(2) by (simp add: unat_add_lem [THEN iffD1])
      have "find_loop p m mem_len mx (i + of_nat ?d) s =
          Some (case skip_find (contents s ps) pat (unat i + ?d) of None \<Rightarrow> 0xFFFF | Some k \<Rightarrow> of_nat k)"
        using less(1) [of "i + of_nat ?d"] True ui d nz assms(5) by simp
      then show ?thesis using c le True nz w by (subst find_loop.simps, subst skip_find.simps) (simp add: length_contents Let_def)
    qed
  next
    case False
    then have "\<not> i \<le> mx" using assms(6) by (simp add: word_le_nat_alt)
    then show ?thesis using False by (subst find_loop.simps) (simp add: skip_find.simps length_contents)
  qed
qed

lemma memfind_ok:
  assumes "chained (link s) p ps" "packet s ps" "ps \<noteq> []" "total_len s ps < 0xFFFF" "at_mem s m pat" "unat mem_len = length pat" "pat \<noteq> []"
  shows "pbuf_memfind p m mem_len start s =
    Some (case skip_find (contents s ps) pat (unat start) of None \<Rightarrow> 0xFFFF | Some k \<Rightarrow> of_nat k)"
proof (cases "unat mem_len + unat start \<le> total_len s ps")
  case True
  have t: "unat (tot_len (pkts s p)) = total_len s ps" using assms(1-3) by (cases ps) auto
  then have "unat (tot_len (pkts s p) - mem_len) + length pat = total_len s ps"
    using True assms(6) by (simp add: unat_sub word_le_nat_alt)
  then show ?thesis using find_loop_ok [OF assms(1,4,5,6,7)] True t by (simp add: pbuf_memfind_def)
next
  case False
  have t: "unat (tot_len (pkts s p)) = total_len s ps" using assms(1-3) by (cases ps) auto
  then show ?thesis using False assms(6) by (simp add: pbuf_memfind_def skip_find.simps length_contents add.commute)
qed

lemma skip_find_sound: "skip_find bs pat i = Some k \<Longrightarrow> i \<le> k \<and> take (length pat) (drop k bs) = pat"
proof (induction bs pat i rule: skip_find.induct)
  case (1 bs pat i)
  let ?d = "first_diff (\<lambda>j. byte_at bs (i + j)) (\<lambda>j. pat ! j) (length pat) 0"
  have le: "i + length pat \<le> length bs" using 1(2) by (subst (asm) skip_find.simps) (simp split: if_splits)
  show ?case
  proof (cases "?d = 0")
    case True
    then have "k = i" using 1(2) le by (subst (asm) skip_find.simps) simp
    moreover have "take (length pat) (drop i bs) = pat"
      using True le by (intro nth_equalityI) (auto simp: first_diff_zero byte_at_def)
    ultimately show ?thesis by simp
  next
    case False
    then have "skip_find bs pat (i + ?d) = Some k" using 1(2) le by (subst (asm) skip_find.simps) (simp add: Let_def)
    then show ?thesis using 1(1) [OF le refl False] by simp
  qed
qed

end
