(* ===== verification/LwCopy.thy ===== *)
theory LwCopy
  imports LwPbuf
begin

unbundle bit_operations_syntax

text \<open>
  Copying between chains of packet buffers and flat memory: \<^verbatim>\<open>pbuf_copy_partial\<close>, \<^verbatim>\<open>pbuf_take\<close>; hiding and revealing
  headers; and what the search in a chain finds.  The bytes of a chain are a list, and each operation is its
  effect on that list.
\<close>

section \<open>Writing a list of bytes\<close>

definition put_bytes :: "DWORD \<Rightarrow> BYTE list \<Rightarrow> (DWORD \<Rightarrow> BYTE) \<Rightarrow> DWORD \<Rightarrow> BYTE" where
  "put_bytes d bs m = (\<lambda>a. if unat (a - d) < length bs then bs ! unat (a - d) else m a)"

definition get_bytes :: "(DWORD \<Rightarrow> BYTE) \<Rightarrow> DWORD \<Rightarrow> nat \<Rightarrow> BYTE list" where
  "get_bytes m p n = map (\<lambda>i. m (p + of_nat i)) [0..<n]"

lemma length_get_bytes [simp]: "length (get_bytes m p n) = n"
  by (simp add: get_bytes_def)

lemma get_bytes_nth: "i < n \<Longrightarrow> get_bytes m p n ! i = m (p + of_nat i)"
  by (simp add: get_bytes_def)

lemma content_get: "content s p = get_bytes (bytes s) (payload (pkts s p)) (unat (plen (pkts s p)))"
  by (simp add: content_def get_bytes_def)

lemma in_block: "n \<le> 2 ^ 32 \<Longrightarrow> a \<in> block d n \<longleftrightarrow> unat (a - d) < n"
proof
  assume n: "n \<le> 2 ^ 32" and "a \<in> block d n"
  then obtain k where k: "a = d + of_nat k" "k < n" by (auto simp: block_def)
  then show "unat (a - d) < n" using n by (simp add: unat_word)
next
  assume "unat (a - d) < n"
  then show "a \<in> block d n" unfolding block_def by (auto intro!: exI [of _ "unat (a - d)"])
qed

lemma put_bytes_out: "a \<notin> block d (length bs) \<Longrightarrow> length bs \<le> 2 ^ 32 \<Longrightarrow> put_bytes d bs m a = m a"
  by (simp add: put_bytes_def in_block)

lemma put_bytes_in: "j < length bs \<Longrightarrow> length bs \<le> 2 ^ 32 \<Longrightarrow> put_bytes d bs m (d + of_nat j) = bs ! j"
  by (simp add: put_bytes_def unat_word)

lemma put_bytes_Nil [simp]: "put_bytes d [] m = m"
  by (simp add: put_bytes_def)

lemma memcpy_put:
  assumes "block d n \<inter> block p n = {}" "n < 2 ^ 32"
  shows "memcpy m d p n = put_bytes d (get_bytes m p n) m"
proof
  fix a
  note C = memcpy_ok [OF assms, of m]
  show "memcpy m d p n a = put_bytes d (get_bytes m p n) m a"
  proof (cases "a \<in> block d n")
    case True
    then obtain k where "a = d + of_nat k" "k < n" by (auto simp: block_def)
    then show ?thesis using C assms(2) by (simp add: put_bytes_in get_bytes_nth)
  next
    case False
    then show ?thesis using C assms(2) by (simp add: put_bytes_out)
  qed
qed

lemma put_bytes_append:
  assumes "length xs + length ys < 2 ^ 32"
  shows "put_bytes (d + of_nat (length xs)) ys (put_bytes d xs m) = put_bytes d (xs @ ys) m"
proof
  fix a
  define k where "k = unat (a - d)"
  have a: "a = d + of_nat k" by (simp add: k_def)
  have u: "unat (a - (d + of_nat (length xs))) = (if length xs \<le> k then k - length xs else 2 ^ 32 + k - length xs)"
  proof (cases "length xs \<le> k")
    case True
    have eq: "a - (d + of_nat (length xs)) = of_nat (k - length xs)" using True by (simp add: a of_nat_diff)
    have "k < 2 ^ 32" using unsigned_less [of "a - d", where 'a = nat] by (simp add: k_def)
    then show ?thesis using True unfolding eq by (simp add: unat_word del: of_nat_diff)
  next
    case False
    have eq: "a - (d + of_nat (length xs)) = of_nat (2 ^ 32 + k - length xs)" using False assms by (simp add: a of_nat_diff)
    show ?thesis using False assms unfolding eq by (simp add: unat_word del: of_nat_diff)
  qed
  show "put_bytes (d + of_nat (length xs)) ys (put_bytes d xs m) a = put_bytes d (xs @ ys) m a"
    using assms unfolding put_bytes_def u k_def [symmetric] by (auto simp: nth_append)
qed

lemma get_put_apart:
  assumes "block p n \<inter> block d (length bs) = {}" "length bs \<le> 2 ^ 32"
  shows "get_bytes (put_bytes d bs m) p n = get_bytes m p n"
proof (rule nth_equalityI)
  fix i assume "i < length (get_bytes (put_bytes d bs m) p n)"
  then have i: "i < n" by simp
  then have "p + of_nat i \<in> block p n" by (auto simp: block_def)
  then have "p + of_nat i \<notin> block d (length bs)" using assms(1) by auto
  then show "get_bytes (put_bytes d bs m) p n ! i = get_bytes m p n ! i" using i assms(2) by (simp add: get_bytes_nth put_bytes_out)
qed simp

lemma get_put_same: "length bs \<le> 2 ^ 32 \<Longrightarrow> get_bytes (put_bytes d bs m) d (length bs) = bs"
  by (rule nth_equalityI) (simp_all add: get_bytes_nth put_bytes_in)

lemma take_get_bytes: "k \<le> n \<Longrightarrow> take k (get_bytes m p n) = get_bytes m p k"
  by (simp add: get_bytes_def take_map)

lemma drop_get_bytes: "drop k (get_bytes m p n) = get_bytes m (p + of_nat k) (n - k)"
  by (rule nth_equalityI) (simp_all add: get_bytes_nth add.assoc)

lemma get_bytes_part: "get_bytes m (p + of_nat k) (min (l - k) n) = take n (drop k (get_bytes m p l))"
  by (rule nth_equalityI) (auto simp: get_bytes_nth add.assoc)

lemma block_sub: "j + k \<le> n \<Longrightarrow> block (p + of_nat j) k \<subseteq> block p n"
  by (fastforce simp: block_def add.assoc simp flip: of_nat_add)

section \<open>From a chain to memory\<close>

lemma MEMCPY_put:
  assumes "block d (unat n) \<inter> block q (unat n) = {}"
  shows "MEMCPY d q n s = s\<lparr>bytes := put_bytes d (get_bytes (bytes s) q (unat n)) (bytes s)\<rparr>"
proof -
  have "unat n < 2 ^ 16" using unsigned_less [of n, where 'a = nat] by simp
  then show ?thesis using memcpy_put [OF assms] by (simp add: MEMCPY_def)
qed

lemma partial_loop_ok:
  assumes "chained (link s) p ps" "length bs + unat n < 2 ^ 16"
    "\<forall>q \<in> set ps. block (payload (pkts s q)) (unat (plen (pkts s q))) \<inter> block d (length bs + unat n) = {}"
  shows "partial_loop p d n offset (of_nat (length bs)) (s\<lparr>bytes := put_bytes d bs (bytes s)\<rparr>) =
    (let cs = take (unat n) (drop (unat offset) (contents s ps))
     in Some (of_nat (length bs + length cs), s\<lparr>bytes := put_bytes d (bs @ cs) (bytes s)\<rparr>))"
  using assms
proof (induction ps arbitrary: p n offset bs)
  case Nil
  then show ?case by (simp add: partial_loop.simps)
next
  case (Cons q qs)
  let ?s = "s\<lparr>bytes := put_bytes d bs (bytes s)\<rparr>"
  have p: "p = q" "q \<noteq> 0" "chained (link s) (link s q) qs" using Cons.prems(1) by auto
  let ?l = "unat (plen (pkts s q))"
  show ?case
  proof (cases "n = 0")
    case True
    then show ?thesis by (simp add: partial_loop.simps)
  next
    case n: False
    show ?thesis
    proof (cases "offset \<noteq> 0 \<and> plen (pkts s q) \<le> offset")
      case True
      have u: "unat (offset - plen (pkts s q)) = unat offset - ?l" using True by (simp add: unat_sub)
      have "?l \<le> unat offset" using True by (simp add: word_le_nat_alt)
      then have dr: "drop (unat offset) (contents s (q # qs)) = drop (unat offset - ?l) (contents s qs)" by simp
      have "partial_loop p d n offset (of_nat (length bs)) ?s =
          partial_loop (link s q) d n (offset - plen (pkts s q)) (of_nat (length bs)) ?s"
        using True p n by (subst partial_loop.simps) simp
      then show ?thesis using Cons.IH [OF p(3) Cons.prems(2), of "offset - plen (pkts s q)"] Cons.prems(3)
        unfolding u dr by simp
    next
      case False
      define k where "k = min (plen (pkts s q) - offset) n"
      have ite: "(if plen (pkts s q) - offset > n then n else plen (pkts s q) - offset) = k" by (auto simp: k_def min_def)
      have ol: "unat offset \<le> ?l" using False by (auto simp: word_le_nat_alt)
      then have uk: "unat k = min (?l - unat offset) (unat n)" by (simp add: k_def min_def unat_sub word_le_nat_alt)
      let ?xs = "get_bytes (bytes s) (payload (pkts s q) + ucast offset) (unat k)"
      have xs: "?xs = take (unat n) (drop (unat offset) (content s q))"
        unfolding uk content_get get_bytes_part [symmetric] by simp
      have bl: "block (payload (pkts s q) + ucast offset) (unat k) \<subseteq> block (payload (pkts s q)) ?l"
        using block_sub [of "unat offset" "unat k" ?l] uk ol by simp
      have bd: "block (d + of_nat (length bs)) (unat k) \<subseteq> block d (length bs + unat n)"
        using block_sub [of "length bs" "unat k"] uk by simp
      have dis: "block (d + of_nat (length bs)) (unat k) \<inter> block (payload (pkts s q) + ucast offset) (unat k) = {}"
        using bl bd Cons.prems(3) by auto
      have same: "get_bytes (put_bytes d bs (bytes s)) (payload (pkts s q) + ucast offset) (unat k) = ?xs"
      proof (rule get_put_apart)
        have "block d (length bs) \<subseteq> block d (length bs + unat n)" using block_sub [of 0 "length bs"] by simp
        then show "block (payload (pkts s q) + ucast offset) (unat k) \<inter> block d (length bs) = {}" using bl Cons.prems(3) by auto
      qed (use Cons.prems(2) in simp)
      have lb: "(ucast (of_nat (length bs) :: WORD) :: DWORD) = of_nat (length bs)"
        using Cons.prems(2) by (simp add: unsigned_of_nat take_bit_nat_eq_self)
      let ?t = "s\<lparr>bytes := put_bytes d (bs @ ?xs) (bytes s)\<rparr>"
      have "MEMCPY (d + of_nat (length bs)) (payload (pkts s q) + ucast offset) k ?s = ?t"
        using MEMCPY_put [OF dis, of ?s] same Cons.prems(2) uk put_bytes_append [of bs ?xs] by simp
      then have step: "partial_loop p d n offset (of_nat (length bs)) ?s =
          partial_loop (link s q) d (n - k) 0 (of_nat (length (bs @ ?xs))) ?t"
        using False p n lb by (subst partial_loop.simps, unfold Let_def) (auto simp: ite cong: if_cong)
      have nk: "unat (n - k) = unat n - unat k" by (simp add: unat_sub k_def)
      have len: "length (bs @ ?xs) + unat (n - k) = length bs + unat n" using nk uk by simp
      have "partial_loop (link s q) d (n - k) 0 (of_nat (length (bs @ ?xs))) ?t =
          (let cs = take (unat (n - k)) (drop (unat (0 :: WORD)) (contents s qs))
           in Some (of_nat (length (bs @ ?xs) + length cs), s\<lparr>bytes := put_bytes d ((bs @ ?xs) @ cs) (bytes s)\<rparr>))"
        by (intro Cons.IH [OF p(3)], unfold len) (use Cons.prems in auto)
      moreover have "take (unat n) (drop (unat offset) (contents s (q # qs))) = ?xs @ take (unat (n - k)) (contents s qs)"
      proof -
        have "unat n - unat k = unat n + unat offset - ?l" using uk ol by (auto simp: min_def)
        then show ?thesis using ol by (simp add: xs nk)
      qed
      ultimately show ?thesis using step by (simp add: Let_def)
    qed
  qed
qed

lemma copy_partial_ok:
  assumes "chained (link s) p ps" "p \<noteq> 0" "d \<noteq> 0"
    "\<forall>q \<in> set ps. block (payload (pkts s q)) (unat (plen (pkts s q))) \<inter> block d (unat n) = {}"
  shows "pbuf_copy_partial p d n offset s =
    (let cs = take (unat n) (drop (unat offset) (contents s ps)) in Some (of_nat (length cs), s\<lparr>bytes := put_bytes d cs (bytes s)\<rparr>))"
proof -
  have "unat n < 2 ^ 16" using unsigned_less [of n, where 'a = nat] by simp
  then show ?thesis using partial_loop_ok [OF assms(1), of "[]" n d offset] assms(2-4) by (simp add: pbuf_copy_partial_def)
qed

section \<open>From memory to a chain\<close>

text \<open>The payloads of a chain lie apart from each other.\<close>

fun payloads_apart :: "'a netmem_scheme \<Rightarrow> DWORD list \<Rightarrow> bool" where
  "payloads_apart s [] = True"
| "payloads_apart s (p # ps) \<longleftrightarrow> payloads_apart s ps \<and>
     (\<forall>q \<in> set ps. block (payload (pkts s p)) (unat (plen (pkts s p))) \<inter> block (payload (pkts s q)) (unat (plen (pkts s q))) = {})"

lemma take_loop_zero: "take_loop p d 0 c s = Some s"
  by (simp add: take_loop.simps)

lemma content_other:
  assumes "block (payload (pkts s q)) (unat (plen (pkts s q))) \<inter> block d (length bs) = {}" "length bs \<le> 2 ^ 32"
  shows "content (s\<lparr>bytes := put_bytes d bs (bytes s)\<rparr>) q = content s q"
  using get_put_apart [OF assms] by (simp add: content_get)

lemma contents_other:
  assumes "\<forall>q \<in> set ps. block (payload (pkts s q)) (unat (plen (pkts s q))) \<inter> block d (length bs) = {}" "length bs \<le> 2 ^ 32"
  shows "contents (s\<lparr>bytes := put_bytes d bs (bytes s)\<rparr>) ps = contents s ps"
  using assms by (induction ps) (simp_all add: content_other)

lemma take_loop_ok:
  assumes "chained (link s) p ps" "payloads_apart s ps" "unat rest \<le> total_len s ps" "unat copied + unat rest < 2 ^ 16"
    "\<forall>q \<in> set ps. block (payload (pkts s q)) (unat (plen (pkts s q))) \<inter> block d (unat copied + unat rest) = {}"
  shows "\<exists>b'. take_loop p d rest copied s = Some (s\<lparr>bytes := b'\<rparr>) \<and>
    contents (s\<lparr>bytes := b'\<rparr>) ps = get_bytes (bytes s) (d + ucast copied) (unat rest) @ drop (unat rest) (contents s ps) \<and>
    (\<forall>a. a \<notin> (\<Union>q \<in> set ps. block (payload (pkts s q)) (unat (plen (pkts s q)))) \<longrightarrow> b' a = bytes s a)"
  using assms
proof (induction ps arbitrary: p rest copied s)
  case Nil
  then have "rest = 0" by (simp add: unat_eq_zero)
  then show ?case by (intro exI [of _ "bytes s"]) (simp add: take_loop_zero get_bytes_def)
next
  case (Cons q qs)
  let ?P = "\<lambda>q. block (payload (pkts s q)) (unat (plen (pkts s q)))"
  have p: "p = q" "q \<noteq> 0" "chained (link s) (link s q) qs" using Cons.prems(1) by auto
  show ?case
  proof (cases "rest = 0")
    case True
    then show ?thesis by (intro exI [of _ "bytes s"]) (simp add: take_loop_zero get_bytes_def)
  next
    case False
    define k where "k = min rest (plen (pkts s q))"
    have ite: "(if rest > plen (pkts s q) then plen (pkts s q) else rest) = k" by (auto simp: k_def min_def)
    have uk: "unat k = min (unat rest) (unat (plen (pkts s q)))" by (simp add: k_def min_def word_le_nat_alt)
    let ?xs = "get_bytes (bytes s) (d + ucast copied) (unat k)"
    let ?pay = "payload (pkts s q)"
    let ?s = "s\<lparr>bytes := put_bytes ?pay ?xs (bytes s)\<rparr>"
    have bq: "block ?pay (unat k) \<subseteq> ?P q" using block_sub [of 0 "unat k"] uk by simp
    have bd: "block (d + of_nat (unat copied)) (unat k) \<subseteq> block d (unat copied + unat rest)"
      using block_sub [of "unat copied" "unat k"] uk by simp
    have dis: "block ?pay (unat k) \<inter> block (d + ucast copied) (unat k) = {}" using bq bd Cons.prems(5) by auto
    have k16: "unat k < 2 ^ 16" using unsigned_less [of k, where 'a = nat] by simp
    have step: "take_loop p d rest copied s = take_loop (link s q) d (rest - k) (copied + k) ?s"
      using False p MEMCPY_put [OF dis, of s] by (subst take_loop.simps, unfold Let_def) (simp add: ite cong: if_cong)
    have u: "unat (rest - k) = unat rest - unat k" "unat (copied + k) = unat copied + unat k"
      using uk Cons.prems(4) by (simp_all add: unat_sub k_def unat_add_lem [THEN iffD1])
    have apart: "?P r \<inter> block ?pay (length ?xs) = {}" if "r \<in> set qs" for r using Cons.prems(2) bq that by auto
    have cs: "contents ?s qs = contents s qs" "content ?s q = ?xs @ drop (unat k) (content s q)"
    proof -
      show "contents ?s qs = contents s qs" using apart k16 by (intro contents_other) auto
      have "take (unat k) (content ?s q) = ?xs"
        using get_put_same [of ?xs ?pay "bytes s"] k16 uk by (simp add: content_get take_get_bytes)
      moreover have "drop (unat k) (content ?s q) = drop (unat k) (content s q)"
      proof -
        have "block (?pay + of_nat (unat k)) (unat (plen (pkts s q)) - unat k) \<inter> block ?pay (length ?xs) = {}"
        proof -
          have pl: "unat (plen (pkts s q)) < 2 ^ 16" using unsigned_less [of "plen (pkts s q)", where 'a = nat] by simp
          have "\<not> unat (of_nat (unat k + j) :: DWORD) < unat k" if "j < unat (plen (pkts s q)) - unat k" for j
            using that pl unat_word [of "unat k + j"] by (simp del: of_nat_add)
          then show ?thesis using k16 by (auto simp: in_block) (auto simp: block_def add.assoc simp flip: of_nat_add)
        qed
        then show ?thesis using k16 by (simp add: content_get drop_get_bytes get_put_apart)
      qed
      ultimately show "content ?s q = ?xs @ drop (unat k) (content s q)" by (metis append_take_drop_id)
    qed
    have "\<exists>b'. take_loop (link s q) d (rest - k) (copied + k) ?s = Some (?s\<lparr>bytes := b'\<rparr>) \<and>
      contents (?s\<lparr>bytes := b'\<rparr>) qs =
        get_bytes (bytes ?s) (d + ucast (copied + k)) (unat (rest - k)) @ drop (unat (rest - k)) (contents ?s qs) \<and>
      (\<forall>a. a \<notin> (\<Union>q \<in> set qs. ?P q) \<longrightarrow> b' a = bytes ?s a)"
    proof -
      have "payloads_apart ?s qs" "total_len ?s qs = total_len s qs"
        using Cons.prems(2) by (induction qs) auto
      moreover have "unat (rest - k) \<le> total_len s qs" using u uk Cons.prems(3) by simp
      moreover have "unat (copied + k) + unat (rest - k) = unat copied + unat rest" using u uk by simp
      ultimately show ?thesis using Cons.IH [of ?s "link s q" "rest - k" "copied + k"] p(3) Cons.prems(4,5) by simp
    qed
    then obtain b' where b: "take_loop (link s q) d (rest - k) (copied + k) ?s = Some (s\<lparr>bytes := b'\<rparr>)"
      "contents (s\<lparr>bytes := b'\<rparr>) qs = get_bytes (bytes ?s) (d + ucast (copied + k)) (unat (rest - k)) @ drop (unat (rest - k)) (contents s qs)"
      "\<forall>a. a \<notin> (\<Union>q \<in> set qs. ?P q) \<longrightarrow> b' a = bytes ?s a" using cs by auto
    have src: "get_bytes (bytes ?s) (d + ucast (copied + k)) (unat (rest - k)) = get_bytes (bytes s) (d + ucast (copied + k)) (unat (rest - k))"
    proof -
      have "(ucast (copied + k) :: DWORD) = of_nat (unat (copied + k))" by simp
      then have "block (d + ucast (copied + k)) (unat (rest - k)) \<subseteq> block d (unat copied + unat rest)"
        using block_sub [of "unat (copied + k)" "unat (rest - k)" "unat copied + unat rest" d] u uk by simp
      then show ?thesis using bq Cons.prems(5) k16 by simp (intro get_put_apart, auto)
    qed
    have q': "content (s\<lparr>bytes := b'\<rparr>) q = content ?s q"
    proof -
      have "b' (?pay + of_nat i) = bytes ?s (?pay + of_nat i)" if "i < unat (plen (pkts s q))" for i
      proof -
        have "?pay + of_nat i \<in> ?P q" using that by (auto simp: block_def)
        then have "?pay + of_nat i \<notin> (\<Union>r \<in> set qs. ?P r)" using Cons.prems(2) by auto
        then show ?thesis using b(3) by blast
      qed
      then show ?thesis by (simp add: content_def)
    qed
    have w: "d + ucast (copied + k) = d + ucast copied + of_nat (unat k)"
    proof -
      have "(ucast (copied + k) :: DWORD) = of_nat (unat (copied + k))" by simp
      also have "\<dots> = of_nat (unat copied) + of_nat (unat k)" by (simp only: u(2) of_nat_add)
      finally show ?thesis by simp
    qed
    have parts: "get_bytes (bytes s) (d + ucast copied) (unat rest) =
        ?xs @ get_bytes (bytes s) (d + ucast (copied + k)) (unat (rest - k))"
    proof -
      have "take (unat k) (get_bytes (bytes s) (d + ucast copied) (unat rest)) = ?xs" using uk by (simp add: take_get_bytes)
      moreover have "drop (unat k) (get_bytes (bytes s) (d + ucast copied) (unat rest)) =
          get_bytes (bytes s) (d + ucast (copied + k)) (unat (rest - k))" unfolding w u(1) by (rule drop_get_bytes)
      ultimately show ?thesis by (metis append_take_drop_id)
    qed
    have "contents (s\<lparr>bytes := b'\<rparr>) (q # qs) =
        get_bytes (bytes s) (d + ucast copied) (unat rest) @ drop (unat rest) (contents s (q # qs))"
    proof (cases "unat rest \<le> unat (plen (pkts s q))")
      case True
      then have k: "unat k = unat rest" using uk by simp
      then have "unat (rest - k) = 0" using u by simp
      then show ?thesis unfolding parts contents_simps q' cs(2) b(2) src using True k by (simp add: get_bytes_def)
    next
      case False
      then have k: "unat k = unat (plen (pkts s q))" using uk by simp
      then have "drop (unat rest) (contents s (q # qs)) = drop (unat (rest - k)) (contents s qs)" using False u by simp
      then show ?thesis unfolding parts contents_simps q' cs(2) b(2) src using k by simp
    qed
    moreover have "\<forall>a. a \<notin> (\<Union>r \<in> set (q # qs). ?P r) \<longrightarrow> b' a = bytes s a"
    proof -
      have "bytes ?s a = bytes s a" if "a \<notin> ?P q" for a
        using that bq k16 put_bytes_out [of a ?pay ?xs "bytes s"] by auto
      then show ?thesis using b(3) by auto
    qed
    ultimately show ?thesis using b(1) step by auto
  qed
qed

lemma pbuf_take_ok:
  assumes "chained (link s) p ps" "packet s ps" "p \<noteq> 0" "d \<noteq> 0" "payloads_apart s ps"
    "\<forall>q \<in> set ps. block (payload (pkts s q)) (unat (plen (pkts s q))) \<inter> block d (unat n) = {}"
  shows "if unat n \<le> total_len s ps then \<exists>b'. pbuf_take p d n s = Some (ERR_OK, s\<lparr>bytes := b'\<rparr>) \<and>
      contents (s\<lparr>bytes := b'\<rparr>) ps = get_bytes (bytes s) d (unat n) @ drop (unat n) (contents s ps) \<and>
      (\<forall>a. a \<notin> (\<Union>q \<in> set ps. block (payload (pkts s q)) (unat (plen (pkts s q)))) \<longrightarrow> b' a = bytes s a)
    else pbuf_take p d n s = Some (ERR_ARG, s)"
proof -
  have "ps \<noteq> []" using assms(1,3) by auto
  then have t: "unat (tot_len (pkts s p)) = total_len s ps" using assms(1,2) by (cases ps) auto
  have "unat n < 2 ^ 16" using unsigned_less [of n, where 'a = nat] by simp
  show ?thesis
  proof (cases "unat n \<le> total_len s ps")
    case True
    then show ?thesis using take_loop_ok [OF assms(1,5), of n 0 d] \<open>unat n < 2 ^ 16\<close> assms(3,4,6) t
      by (auto simp: pbuf_take_def word_less_nat_alt)
  next
    case False
    then show ?thesis using assms(3,4) t by (simp add: pbuf_take_def word_less_nat_alt)
  qed
qed

section \<open>Properties\<close>

text \<open>C19: \<^verbatim>\<open>pbuf_take\<close> stores \<open>n\<close> bytes of a buffer at the front of a chain, in however many packet buffers they fall, and
  changes no other byte; \<^verbatim>\<open>pbuf_copy_partial\<close> reads \<open>n\<close> bytes from any offset of a chain into a buffer.  Reading back
  from offset 0 what was stored gives the same bytes.\<close>
theorem take_then_copy:
  assumes "chained (link s) p ps" "packet s ps" "p \<noteq> 0" "d \<noteq> 0" "e \<noteq> 0" "payloads_apart s ps" "unat n \<le> total_len s ps"
    "\<forall>q \<in> set ps. block (payload (pkts s q)) (unat (plen (pkts s q))) \<inter> (block d (unat n) \<union> block e (unat n)) = {}"
  shows "\<exists>s1 s2. pbuf_take p d n s = Some (ERR_OK, s1) \<and>
    contents s1 ps = get_bytes (bytes s) d (unat n) @ drop (unat n) (contents s ps) \<and>
    pbuf_copy_partial p e n 0 s1 = Some (n, s2) \<and>
    get_bytes (bytes s2) e (unat n) = get_bytes (bytes s) d (unat n) \<and> contents s2 ps = contents s1 ps"
proof -
  have dis: "\<forall>q \<in> set ps. block (payload (pkts s q)) (unat (plen (pkts s q))) \<inter> block d (unat n) = {}"
    "\<forall>q \<in> set ps. block (payload (pkts s q)) (unat (plen (pkts s q))) \<inter> block e (unat n) = {}" using assms(8) by auto
  obtain b where t: "pbuf_take p d n s = Some (ERR_OK, s\<lparr>bytes := b\<rparr>)"
    "contents (s\<lparr>bytes := b\<rparr>) ps = get_bytes (bytes s) d (unat n) @ drop (unat n) (contents s ps)"
    using pbuf_take_ok [OF assms(1,2,3,4,6) dis(1)] assms(7) by auto
  let ?s1 = "s\<lparr>bytes := b\<rparr>"
  let ?cs = "get_bytes (bytes s) d (unat n)"
  let ?s2 = "?s1\<lparr>bytes := put_bytes e ?cs (bytes ?s1)\<rparr>"
  have "take (unat n) (drop (unat (0 :: WORD)) (contents ?s1 ps)) = ?cs" by (simp add: t(2))
  then have c: "pbuf_copy_partial p e n 0 ?s1 = Some (n, ?s2)"
    using copy_partial_ok [of ?s1 p ps e n 0] assms(1,3,5) dis(2) by simp
  have n: "unat n \<le> 2 ^ 32" using unsigned_less [of n, where 'a = nat] by simp
  have "get_bytes (bytes ?s2) e (unat n) = ?cs" using get_put_same [of ?cs e b] n by simp
  moreover have "contents ?s2 ps = contents ?s1 ps" using dis(2) n by (intro contents_other) auto
  ultimately show ?thesis using t c by blast
qed

text \<open>\<^verbatim>\<open>pbuf_header\<close> never moves the payload of a buffer from the heap or the pool in front of its structure, and
  refuses to hide more than the buffer holds.  Hiding \<open>k\<close> bytes drops them from the content and from the
  total length, and revealing \<open>k\<close> bytes again restores the buffer.\<close>
theorem header_roundtrip:
  assumes "p \<noteq> 0" "ptype (pkts s p) \<in> {PBUF_RAM, PBUF_POOL}" "0 < unat k" "unat k < 2 ^ 15"
    "p + 16 \<le> payload (pkts s p)" "unat (payload (pkts s p)) + unat k < 2 ^ 32"
  shows "if k \<le> plen (pkts s p) then
      \<exists>s1. pbuf_header p (- k) s = (0, s1) \<and> content s1 p = drop (unat k) (content s p) \<and>
        tot_len (pkts s1 p) = tot_len (pkts s p) - k \<and> pbuf_header p k s1 = (0, s)
    else pbuf_header p (- k) s = (1, s)"
proof -
  have k0: "k \<noteq> 0" using assms(3) by auto
  have sk: "sint k = int (unat k)" "sint (- k) = - int (unat k)"
  proof -
    have w: "sint (word_of_int i :: WORD) = i" if "- (2 ^ 15) \<le> i" "i < 2 ^ 15" for i
      using that by (simp add: sint_sbintrunc' signed_take_bit_int_eq_self)
    define j where "j = int (unat k)"
    have j: "k = word_of_int j" "- k = word_of_int (- j)" by (simp_all add: j_def)
    have "0 \<le> j" "j < 2 ^ 15" using assms(4) by (simp_all add: j_def del: of_nat_unat)
    then have "sint (word_of_int j :: WORD) = j" "sint (word_of_int (- j) :: WORD) = - j" by (intro w; linarith)+
    then have "sint k = j" "sint (- k) = - j" unfolding j(1) [symmetric] j(2) [symmetric] .
    then show "sint k = int (unat k)" "sint (- k) = - int (unat k)" by (simp_all only: j_def)
  qed
  then have neg: "sint (- k) < 0" "\<not> sint k < 0" using assms(3) by (simp_all del: of_nat_unat)
  show ?thesis
  proof (cases "k \<le> plen (pkts s p)")
    case True
    let ?pay = "payload (pkts s p) + ucast k"
    let ?s1 = "upd_pkt p (\<lambda>b. b\<lparr>payload := ?pay, plen := plen b - k, tot_len := tot_len b - k\<rparr>) s"
    have sc: "(scast (- k) :: DWORD) = - ucast k" "(scast k :: DWORD) = ucast k"
      using arg_cong [OF sk(1), of "word_of_int :: int \<Rightarrow> DWORD"] arg_cong [OF sk(2), of "word_of_int :: int \<Rightarrow> DWORD"] by simp_all
    have up: "unat ?pay = unat (payload (pkts s p)) + unat k" using assms(6) by (subst unat_add_lem [THEN iffD1]) (simp_all add: unat_widen)
    then have "\<not> ?pay < p + 16" using assms(5) by (simp add: word_less_nat_alt word_le_nat_alt)
    then have h: "pbuf_header p (- k) s = (0, ?s1)"
      using assms(1,2) k0 neg sc True by (auto simp: pbuf_header_def upd_pkt_def fun_upd_def)
    have "pbuf_header p k ?s1 = (0, s)"
      using assms(1,2,5) k0 neg sc by (auto simp: pbuf_header_def upd_pkt_def Let_def not_less)
    moreover have "content ?s1 p = drop (unat k) (content s p)"
      using True by (simp add: content_get upd_pkt_def drop_get_bytes unat_sub)
    ultimately show ?thesis using h True by (auto simp: upd_pkt_def)
  next
    case False
    then show ?thesis using assms(1) k0 neg by (simp add: pbuf_header_def)
  qed
qed

text \<open>C35: \<^verbatim>\<open>pbuf_memfind\<close> returns, and an index it returns is one at which the bytes searched for stand.  It does not
  find every occurrence: after a difference it goes on behind the byte that differed, so that it answers
  \<^verbatim>\<open>0xFFFF\<close>, not found, when asked for the bytes \<open>a b\<close> in the packet \<open>a a b\<close>.\<close>
theorem memfind_sound_not_complete:
  assumes "chained (link s) p ps" "packet s ps" "ps \<noteq> []" "total_len s ps < 0xFFFF" "at_mem s m pat"
    "unat mem_len = length pat" "pat \<noteq> []"
  shows "\<exists>r. pbuf_memfind p m mem_len start s = Some r \<and>
    (r \<noteq> 0xFFFF \<longrightarrow> start \<le> r \<and> take (length pat) (drop (unat r) (contents s ps)) = pat) \<and>
    (contents s ps = [a, a, b] \<and> pat = [a, b] \<and> a \<noteq> b \<and> start = 0 \<longrightarrow> r = 0xFFFF)"
proof -
  note F = memfind_ok [OF assms, of start]
  show ?thesis
  proof (cases "skip_find (contents s ps) pat (unat start)")
    case None
    then show ?thesis using F by simp
  next
    case (Some k)
    note K = skip_find_sound [OF Some]
    have "length (take (length pat) (drop k (contents s ps))) = length pat" using K by simp
    then have "k + length pat \<le> total_len s ps" using assms(7) by (cases pat) (auto simp: length_contents min_def split: if_splits)
    then have u: "unat (of_nat k :: WORD) = k" using assms(4) by (simp add: unat_of_nat take_bit_nat_eq_self)
    have "skip_find [a, a, b] [a, b] 0 = None" if "a \<noteq> b" for a b :: BYTE
      using that by (simp add: skip_find.simps byte_at_def numeral_2_eq_2)
    then show ?thesis using F Some K u by (auto simp: word_le_nat_alt)
  qed
qed

text \<open>Two packet buffers with three bytes, and strings in the memory.\<close>

definition sample_mem :: "DWORD \<Rightarrow> BYTE" where
  "sample_mem a = (if a = 0x101E \<or> a = 0x101F \<or> a = 0x5000 then 0x61 else if a = 0x2010 \<or> a = 0x5001 then 0x62 else 0)"

definition sample_chain :: netmem where
  "sample_chain = \<lparr>link = (\<lambda>a. if a = 0x1000 then 0x2000 else 0), memp_tab = \<lambda>t. 0,
     pkts = (\<lambda>a. if a = 0x1000 then \<lparr>payload = 0x101E, tot_len = 3, plen = 2, ptype = PBUF_POOL, pflags = 0, pref = 1\<rparr>
       else \<lparr>payload = 0x2010, tot_len = 1, plen = 1, ptype = PBUF_POOL, pflags = 0, pref = 1\<rparr>),
     bytes = sample_mem, mem_heap = blank_heap\<rparr>"

lemma upt_2: "[0..<2] = [0, 1 :: nat]"
  by code_simp

lemma sample_chain_ok:
  "chained (link sample_chain) 0x1000 [0x1000, 0x2000]" "packet sample_chain [0x1000, 0x2000]"
  "contents sample_chain [0x1000, 0x2000] = [0x61, 0x61, 0x62]" "total_len sample_chain [0x1000, 0x2000] = 3"
  by (simp_all add: sample_chain_def content_def sample_mem_def upt_2)

lemma small_blocks: "block p (Suc 0) = {p}" "block p 1 = {p}" "block p 2 = {p, p + 1}"
proof -
  show one: "block p (Suc 0) = {p}" "block p 1 = {p}" for p using block_Suc [of p 0] by simp_all
  show "block p 2 = {p, p + 1}" using block_Suc [of p 1] one(2) [of "p + 1"] by (simp add: numeral_2_eq_2)
qed

lemma take_then_copy_witness:
  "\<exists>s1 s2. pbuf_take 0x1000 0x5000 2 sample_chain = Some (ERR_OK, s1) \<and> contents s1 [0x1000, 0x2000] = [0x61, 0x62, 0x62] \<and>
    pbuf_copy_partial 0x1000 0x6000 2 0 s1 = Some (2, s2) \<and> get_bytes (bytes s2) 0x6000 2 = [0x61, 0x62]"
proof -
  have f: "payload (pkts sample_chain 0x1000) = 0x101E" "plen (pkts sample_chain 0x1000) = 2"
    "payload (pkts sample_chain 0x2000) = 0x2010" "plen (pkts sample_chain 0x2000) = 1" by (simp_all add: sample_chain_def)
  have a: "payloads_apart sample_chain [0x1000, 0x2000]"
    "\<forall>q \<in> set [0x1000, 0x2000]. block (payload (pkts sample_chain q)) (unat (plen (pkts sample_chain q))) \<inter>
       (block 0x5000 (unat (2 :: WORD)) \<union> block 0x6000 (unat (2 :: WORD))) = {}"
    by (simp_all add: f small_blocks)
  have d: "get_bytes (bytes sample_chain) 0x5000 2 = [0x61, 0x62]"
    by (simp add: get_bytes_def sample_chain_def sample_mem_def upt_2)
  show ?thesis
    using take_then_copy [OF sample_chain_ok(1,2) _ _ _ a(1) _ a(2), unfolded sample_chain_ok(3,4)] d
    by (simp del: contents_simps) blast
qed

lemma header_roundtrip_witness:
  "\<exists>s1. pbuf_header 0x1000 (- 1) sample_chain = (0, s1) \<and> content s1 0x1000 = [0x61] \<and> pbuf_header 0x1000 1 s1 = (0, sample_chain)"
  using header_roundtrip [where p = "0x1000" and s = sample_chain and k = 1] by (auto simp: sample_chain_def content_def sample_mem_def upt_2)

lemma memfind_sound_not_complete_witness: "pbuf_memfind 0x1000 0x5000 2 0 sample_chain = Some 0xFFFF"
proof -
  have "at_mem sample_chain 0x5000 [0x61, 0x62]" by (simp add: at_mem_def sample_chain_def sample_mem_def less_Suc_eq)
  then show ?thesis
    using memfind_sound_not_complete [OF sample_chain_ok(1,2), where m = "0x5000" and pat = "[0x61, 0x62]" and mem_len = 2 and start = 0
        and a = "0x61" and b = "0x62", unfolded sample_chain_ok(3,4)]
    by (simp del: contents_simps)
qed

end
