(* ===== verification/LwAlloc.thy ===== *)
theory LwAlloc
  imports LwCopy
begin

unbundle bit_operations_syntax

text \<open>
  Where packet buffers come from and go to: \<^verbatim>\<open>pbuf_free\<close> gives the buffers at the head of a chain that nobody
  else refers to back to the heap and the pools, and \<^verbatim>\<open>pbuf_alloc\<close> builds chains of pool buffers, or gives
  everything back.  The heap and the two pools are used by their contract \<open>allocator\<close> only.
\<close>

section \<open>What is held\<close>

datatype store = Heap | Refs | Pool

fun store_of :: "pbuf_type \<Rightarrow> store" where
  "store_of PBUF_RAM = Heap"
| "store_of PBUF_ROM = Refs"
| "store_of PBUF_REF = Refs"
| "store_of PBUF_POOL = Pool"

fun held :: "mempool list \<Rightarrow> 'a netmem_scheme \<Rightarrow> store \<Rightarrow> DWORD set" where
  "held cfg s Heap = fst ` in_use (mem_heap s)"
| "held cfg s Refs = fst ` taken cfg MEMP_PBUF s"
| "held cfg s Pool = fst ` taken cfg MEMP_PBUF_POOL s"

definition stock_ok :: "mempool list \<Rightarrow> 'a netmem_scheme \<Rightarrow> bool" where
  "stock_ok cfg s \<longleftrightarrow> pools_ok cfg s \<and> length cfg = 7 \<and> (\<exists>bs. heap_ok (mem_heap s) bs)"

lemma taken_cong: "link s = link s' \<Longrightarrow> memp_tab s = memp_tab s' \<Longrightarrow> taken cfg t s = taken cfg t s'"
  by (simp add: taken_def free_list_def)

lemma pools_ok_cong: "link s = link s' \<Longrightarrow> memp_tab s = memp_tab s' \<Longrightarrow> pools_ok cfg s = pools_ok cfg s'"
  by (simp add: pools_ok_def free_list_def)

lemma upd_pkt_simps [simp]:
  "link (upd_pkt p f s) = link s" "memp_tab (upd_pkt p f s) = memp_tab s" "mem_heap (upd_pkt p f s) = mem_heap s"
  "bytes (upd_pkt p f s) = bytes s" "pkts (upd_pkt p f s) = (pkts s)(p := f (pkts s p))"
  "pkts (set_link p x s) = pkts s" "mem_heap (set_link p x s) = mem_heap s" "bytes (set_link p x s) = bytes s"
  "pkts (set_tab t x s) = pkts s" "mem_heap (set_tab t x s) = mem_heap s" "bytes (set_tab t x s) = bytes s"
  by (simp_all add: upd_pkt_def set_link_def set_tab_def)

lemma memp_free_simps [simp]:
  "pkts (memp_free t p s) = pkts s" "mem_heap (memp_free t p s) = mem_heap s" "bytes (memp_free t p s) = bytes s"
  "q \<noteq> p \<Longrightarrow> link (memp_free t p s) q = link s q"
  by (simp_all add: memp_free_def)

text \<open>Giving an element back to one store leaves the others alone.\<close>

definition put_back :: "DWORD \<Rightarrow> 'a netmem_scheme \<Rightarrow> 'a netmem_scheme" where
  "put_back p s = (case ptype (pkts s p) of
     PBUF_POOL \<Rightarrow> memp_free MEMP_PBUF_POOL p s
   | PBUF_ROM \<Rightarrow> memp_free MEMP_PBUF p s
   | PBUF_REF \<Rightarrow> memp_free MEMP_PBUF p s
   | PBUF_RAM \<Rightarrow> s\<lparr>mem_heap := mem_free p (mem_heap s)\<rparr>)"

lemma taken_other_pool:
  assumes "pools_ok cfg s" "t < length cfg" "u < length cfg" "t \<noteq> u" "p \<in> fst ` taken cfg t s"
  shows "taken cfg u (memp_free t p s) = taken cfg u s"
proof -
  obtain qs where qs: "free_list cfg u s qs" using assms(1,3) by (auto simp: pools_ok_def)
  have "p \<in> elems (cfg ! t)" using assms(5) by (auto simp: taken_def)
  then have "p \<notin> set qs" using qs apart_pools [of cfg t u p] assms(1-4) by (auto simp: free_list_def pools_ok_def)
  then have "free_list cfg u (memp_free t p s) qs" using qs assms(4) by (simp add: free_list_def memp_free_def chained_other)
  then show ?thesis by (simp add: taken_free [OF qs] taken_free)
qed

lemma put_back_ok:
  assumes "stock_ok cfg s" "p \<in> held cfg s (store_of (ptype (pkts s p)))"
  shows "stock_ok cfg (put_back p s) \<and>
    held cfg (put_back p s) st = (if st = store_of (ptype (pkts s p)) then held cfg s st - {p} else held cfg s st)"
proof -
  have ok: "pools_ok cfg s" "5 < length cfg" "6 < length cfg" "\<exists>bs. heap_ok (mem_heap s) bs" "length cfg = 7"
    using assms(1) by (simp_all add: stock_ok_def)
  have one: "fst ` (T - {(p, l)}) = fst ` T - {p}" if "\<forall>q m. (q, m) \<in> T \<longrightarrow> m = l" for T :: "(DWORD \<times> nat) set" and l
    using that by force
  have pool: "pools_ok cfg (memp_free t p s) \<and> fst ` taken cfg t (memp_free t p s) = fst ` taken cfg t s - {p}"
    if t: "t < length cfg" "p \<in> fst ` taken cfg t s" for t
  proof -
    obtain l where l: "(p, l) \<in> taken cfg t s" using t(2) by auto
    have "\<forall>q m. (q, m) \<in> taken cfg t s \<longrightarrow> m = l" using l by (auto simp: taken_def)
    from one [OF this] have "fst ` (taken cfg t s - {(p, l)}) = fst ` taken cfg t s - {p}" .
    then show ?thesis using mpool.release_law [of cfg s t p l, OF _ l] ok(1) t(1) by simp
  qed
  show ?thesis
  proof (cases "store_of (ptype (pkts s p))")
    case Heap
    then have t: "ptype (pkts s p) = PBUF_RAM" by (cases "ptype (pkts s p)") auto
    obtain l where l: "(p, l) \<in> in_use (mem_heap s)" using assms(2) t by auto
    let ?h = "mem_free p (mem_heap s)"
    have R: "\<exists>bs. heap_ok ?h bs" "in_use ?h = in_use (mem_heap s) - {(p, l)}" using lwmem.release_law [OF ok(4) l] by auto
    have "m = l" if m: "(p, m) \<in> in_use (mem_heap s)" for m
      using lwmem.release_law [OF ok(4) m] R(2) l m by blast
    then have "fst ` in_use ?h = fst ` in_use (mem_heap s) - {p}" unfolding R(2) by force
    then show ?thesis using R(1) ok t
      by (cases st) (auto simp: put_back_def stock_ok_def cong: taken_cong pools_ok_cong)
  next
    case Refs
    then have "put_back p s = memp_free 5 p s" by (cases "ptype (pkts s p)") (auto simp: put_back_def)
    moreover have "p \<in> fst ` taken cfg 5 s" using assms(2) Refs by simp
    ultimately show ?thesis using pool [of 5] taken_other_pool [of cfg s 5 6 p] ok Refs
      by (cases st) (auto simp: stock_ok_def)
  next
    case Pool
    then have "put_back p s = memp_free 6 p s" by (cases "ptype (pkts s p)") (auto simp: put_back_def)
    moreover have "p \<in> fst ` taken cfg 6 s" using assms(2) Pool by simp
    ultimately show ?thesis using pool [of 6] taken_other_pool [of cfg s 6 5 p] ok Pool
      by (cases st) (auto simp: stock_ok_def)
  qed
qed

section \<open>Releasing a chain\<close>

text \<open>The buffers at the head of a chain that only the chain refers to.\<close>

definition sole :: "'a netmem_scheme \<Rightarrow> DWORD list \<Rightarrow> DWORD list" where
  "sole s ps = takeWhile (\<lambda>p. pref (pkts s p) = 1) ps"

lemma put_back_simps [simp]:
  "pkts (put_back p s) = pkts s" "bytes (put_back p s) = bytes s" "q \<noteq> p \<Longrightarrow> link (put_back p s) q = link s q"
  by (simp_all add: put_back_def split: pbuf_type.split)

lemma chained_cong: "(\<And>r. r \<in> set rs \<Longrightarrow> f r = g r) \<Longrightarrow> chained f x rs = chained g x rs"
  by (induction rs arbitrary: x) simp_all

lemma free_loop_step:
  "p \<noteq> 0 \<Longrightarrow> free_loop p count s =
     (let s1 = upd_pkt p (\<lambda>b. b\<lparr>pref := pref b - 1\<rparr>) s
      in if pref (pkts s p) = 1 then free_loop (link s p) (count + 1) (put_back p s1) else Some (count, s1))"
  by (subst free_loop.simps) (simp add: put_back_def Let_def split: pbuf_type.split)

lemma free_loop_ok:
  assumes "stock_ok cfg s" "chained (link s) p ps" "\<forall>q \<in> set ps. q \<in> held cfg s (store_of (ptype (pkts s q)))"
  shows "\<exists>s'. free_loop p count s = Some (count + of_nat (length (sole s ps)), s') \<and> stock_ok cfg s' \<and>
    (\<forall>st. held cfg s' st = held cfg s st - {q \<in> set (sole s ps). store_of (ptype (pkts s q)) = st}) \<and>
    (\<forall>q. q \<notin> set (sole s ps) \<longrightarrow> link s' q = link s q) \<and> bytes s' = bytes s \<and>
    (\<forall>q. q \<notin> set (sole s ps) \<longrightarrow> pkts s' q =
      (case drop (length (sole s ps)) ps of r # _ \<Rightarrow> if q = r then (pkts s q)\<lparr>pref := pref (pkts s q) - 1\<rparr> else pkts s q | [] \<Rightarrow> pkts s q))"
  using assms
proof (induction ps arbitrary: p count s)
  case Nil
  then show ?case by (simp add: free_loop.simps sole_def)
next
  case (Cons q qs)
  have p: "p = q" "q \<noteq> 0" "chained (link s) (link s q) qs" using Cons.prems(2) by auto
  have d: "q \<notin> set qs" using chained_distinct [OF Cons.prems(2)] by simp
  let ?s1 = "upd_pkt q (\<lambda>b. b\<lparr>pref := pref b - 1\<rparr>) s"
  have st1: "stock_ok cfg ?s1" using Cons.prems(1) by (simp add: stock_ok_def cong: pools_ok_cong)
  have h1: "held cfg ?s1 st = held cfg s st" for st by (cases st) (simp_all cong: taken_cong)
  show ?case
  proof (cases "pref (pkts s q) = 1")
    case False
    then have "free_loop p count s = Some (count, ?s1)" using p by (simp add: free_loop_step)
    then show ?thesis using False st1 h1 by (simp add: sole_def)
  next
    case True
    let ?s2 = "put_back q ?s1"
    have "q \<in> held cfg ?s1 (store_of (ptype (pkts ?s1 q)))" using Cons.prems(3) by (simp add: h1)
    note P = put_back_ok [OF st1 this]
    have B: "stock_ok cfg ?s2" "\<And>st. held cfg ?s2 st = (if st = store_of (ptype (pkts s q)) then held cfg s st - {q} else held cfg s st)"
      using P by (simp_all add: h1)
    have c: "chained (link ?s2) (link s q) qs"
    proof -
      have "link ?s2 r = link s r" if "r \<in> set qs" for r using that d by (cases "r = q") simp_all
      then show ?thesis using p(3) chained_cong [of qs "link ?s2" "link s"] by blast
    qed
    have k: "\<forall>r \<in> set qs. r \<in> held cfg ?s2 (store_of (ptype (pkts ?s2 r)))" using Cons.prems(3) d B(2) by auto
    have same: "sole ?s2 qs = sole s qs" unfolding sole_def using d by (intro takeWhile_cong) auto
    have so: "sole s (q # qs) = q # sole s qs" using True by (simp add: sole_def)
    have sub: "set (sole s qs) \<subseteq> set qs" unfolding sole_def by (rule set_takeWhileD [THEN conjunct1, THEN subsetI])
    obtain s' where I: "free_loop (link s q) (count + 1) ?s2 = Some (count + 1 + of_nat (length (sole s qs)), s')" "stock_ok cfg s'"
      "\<forall>st. held cfg s' st = held cfg ?s2 st - {r \<in> set (sole s qs). store_of (ptype (pkts ?s2 r)) = st}"
      "\<forall>r. r \<notin> set (sole s qs) \<longrightarrow> link s' r = link ?s2 r" "bytes s' = bytes s"
      "\<forall>r. r \<notin> set (sole s qs) \<longrightarrow> pkts s' r =
        (case drop (length (sole s qs)) qs of t # _ \<Rightarrow> if r = t then (pkts ?s2 r)\<lparr>pref := pref (pkts ?s2 r) - 1\<rparr> else pkts ?s2 r | [] \<Rightarrow> pkts ?s2 r)"
      using Cons.IH [OF B(1) c k, of "count + 1"] unfolding same by auto
    have hd: "held cfg s' st = held cfg s st - {r \<in> set (sole s (q # qs)). store_of (ptype (pkts s r)) = st}" for st
    proof -
      have "ptype (pkts ?s2 r) = ptype (pkts s r)" for r by simp
      then show ?thesis using I(3) B(2) [of st] so by auto
    qed
    have "free_loop p count s = Some (count + of_nat (length (sole s (q # qs))), s')"
      using True p I(1) so by (simp add: free_loop_step ac_simps)
    moreover have "\<forall>r. r \<notin> set (sole s (q # qs)) \<longrightarrow> link s' r = link s r" using I(4) so by simp
    moreover have "\<forall>r. r \<notin> set (sole s (q # qs)) \<longrightarrow> pkts s' r =
        (case drop (length (sole s (q # qs))) (q # qs) of t # _ \<Rightarrow> if r = t then (pkts s r)\<lparr>pref := pref (pkts s r) - 1\<rparr> else pkts s r | [] \<Rightarrow> pkts s r)"
      using I(6) so by (auto split: list.split)
    ultimately show ?thesis using I(2,5) hd by blast
  qed
qed

section \<open>Building a chain\<close>

text \<open>A buffer of the pool with one reference whose payload lies inside of its element.\<close>

definition pool_buf :: "'a netmem_scheme \<Rightarrow> DWORD \<Rightarrow> bool" where
  "pool_buf s q \<longleftrightarrow> ptype (pkts s q) = PBUF_POOL \<and> pref (pkts s q) = 1 \<and>
     unat q + 16 \<le> unat (payload (pkts s q)) \<and> unat (payload (pkts s q)) + unat (plen (pkts s q)) \<le> unat q + 1536"

text \<open>The total lengths of a chain to which \<open>rest\<close> more bytes will be added.\<close>

fun short_packet :: "'a netmem_scheme \<Rightarrow> nat \<Rightarrow> DWORD list \<Rightarrow> bool" where
  "short_packet s rest [] = True"
| "short_packet s rest (p # ps) \<longleftrightarrow> unat (tot_len (pkts s p)) = total_len s (p # ps) + rest \<and> short_packet s rest ps"

lemma short_packet_0: "short_packet s 0 ps = packet s ps"
  by (induction ps) simp_all

lemma total_len_cong: "(\<And>q. q \<in> set ps \<Longrightarrow> pkts s q = pkts s' q) \<Longrightarrow> total_len s ps = total_len s' ps"
  by (induction ps) simp_all

lemma short_packet_snoc:
  assumes "short_packet s rest ps" "\<And>p. p \<in> set ps \<Longrightarrow> pkts s' p = pkts s p"
    "unat (tot_len (pkts s' q)) = rest" "unat (plen (pkts s' q)) + rest' = rest"
  shows "short_packet s' rest' (ps @ [q])"
  using assms(1,2)
proof (induction ps)
  case Nil
  then show ?case using assms(3,4) by simp
next
  case (Cons p ps)
  have "total_len s' ps = total_len s ps" using Cons.prems(2) by (intro total_len_cong) auto
  then show ?case using Cons assms(4) by simp
qed

lemma chained_snoc:
  assumes "chained f p ps" "ps \<noteq> []" "q \<notin> set ps" "q \<noteq> 0"
  shows "chained (f(q := 0, last ps := q)) p (ps @ [q])"
  using assms
proof (induction ps arbitrary: p)
  case (Cons r ps)
  show ?case
  proof (cases "ps = []")
    case True
    then show ?thesis using Cons.prems by simp
  next
    case False
    have "r \<notin> set ps" using chained_distinct [OF Cons.prems(1)] by simp
    then have "r \<noteq> last ps" using False last_in_set [of ps] by auto
    then show ?thesis using Cons False by auto
  qed
qed simp

lemma link_held:
  assumes "stock_ok cfg s" "p \<in> held cfg s Pool"
  shows "stock_ok cfg (set_link p x s) \<and> held cfg (set_link p x s) st = held cfg s st"
proof -
  have ok: "pools_ok cfg s" "length cfg = 7" "\<exists>bs. heap_ok (mem_heap s) bs" using assms(1) by (simp_all add: stock_ok_def)
  have fits: "pools_fit cfg" using ok(1) by (simp add: pools_ok_def)
  have p: "p \<in> elems (cfg ! 6)" "\<forall>qs. free_list cfg 6 s qs \<longrightarrow> p \<notin> set qs" using assms(2) by (auto simp: taken_def)
  have f: "free_list cfg u (set_link p x s) qs" if u: "u < 7" "free_list cfg u s qs" for u qs
  proof -
    have "p \<notin> set qs" using u p apart_pools [OF fits, of 6 u p] ok(2) by (cases "u = 6") (auto simp: free_list_def)
    then show ?thesis using u(2) by (simp add: free_list_def chained_other)
  qed
  have "pools_ok cfg (set_link p x s)" using ok f by (auto simp: pools_ok_def) blast
  moreover have "taken cfg u (set_link p x s) = taken cfg u s" if u: "u < 7" for u
  proof -
    obtain qs where "free_list cfg u s qs" using ok u by (auto simp: pools_ok_def)
    then show ?thesis using f [OF u] by (simp add: taken_free)
  qed
  ultimately show ?thesis using ok(2,3) by (cases st) (simp_all add: stock_ok_def)
qed

lemma upd_held: "stock_ok cfg (upd_pkt p f s) = stock_ok cfg s" "held cfg (upd_pkt p f s) st = held cfg s st"
proof -
  show "stock_ok cfg (upd_pkt p f s) = stock_ok cfg s" using pools_ok_cong [of "upd_pkt p f s" s cfg] by (simp add: stock_ok_def)
  have "taken cfg t (upd_pkt p f s) = taken cfg t s" for t by (rule taken_cong) simp_all
  then show "held cfg (upd_pkt p f s) st = held cfg s st" by (cases st) simp_all
qed

lemma relink_held:
  assumes "stock_ok cfg s" "q \<in> held cfg s Pool" "r \<in> held cfg s Pool"
  shows "stock_ok cfg (upd_pkt q f (set_link r x (set_link q y (upd_pkt q g s)))) \<and>
    held cfg (upd_pkt q f (set_link r x (set_link q y (upd_pkt q g s)))) st = held cfg s st"
proof -
  let ?s1 = "upd_pkt q g s" let ?s2 = "set_link q y ?s1"
  have s1: "stock_ok cfg ?s1" "\<And>st. held cfg ?s1 st = held cfg s st" using assms(1) by (simp_all only: upd_held)
  have "q \<in> held cfg ?s1 Pool" using assms(2) by (simp only: s1(2))
  note L1 = link_held [OF s1(1) this, of y]
  then have s2: "stock_ok cfg ?s2" "\<And>st. held cfg ?s2 st = held cfg s st" by (simp_all only: s1(2))
  have "r \<in> held cfg ?s2 Pool" using assms(3) by (simp only: s2(2))
  note L2 = link_held [OF s2(1) this, of x]
  show ?thesis unfolding upd_held using L2 s2(2) by (simp del: held.simps)
qed

text \<open>One more element of the pool.\<close>

lemma pool_malloc:
  assumes "stock_ok cfg s" "memp_malloc cfg MEMP_PBUF_POOL s = (q, s')"
  shows "pkts s' = pkts s \<and> bytes s' = bytes s \<and> link s' = link s \<and> stock_ok cfg s' \<and>
    (if q = 0 then s' = s else q \<notin> held cfg s Pool \<and> q \<in> elems (cfg ! 6) \<and> held cfg s' Pool = insert q (held cfg s Pool) \<and>
      (\<forall>st. st \<noteq> Pool \<longrightarrow> held cfg s' st = held cfg s st))"
proof -
  have ok: "pools_ok cfg s" "6 < length cfg" "length cfg = 7" "\<exists>bs. heap_ok (mem_heap s) bs"
    using assms(1) by (simp_all add: stock_ok_def)
  have fr: "pkts s' = pkts s" "bytes s' = bytes s" "link s' = link s" "mem_heap s' = mem_heap s" "memp_tab s' 5 = memp_tab s 5"
    using assms(2) by (auto simp: memp_malloc_def Let_def split: if_splits)
  then have t5: "taken cfg 5 s' = taken cfg 5 s" by (simp add: taken_def free_list_def)
  have A: "pools_ok cfg s'" "if q = 0 then s' = s else \<exists>l. q \<notin> fst ` taken cfg 6 s \<and> taken cfg 6 s' = insert (q, l) (taken cfg 6 s)"
    using mpool.alloc_law [of cfg s 6 0] ok(1,2) assms(2) by (auto split: if_splits)
  have "q \<in> elems (cfg ! 6)" if "q \<noteq> 0"
  proof -
    have "q \<in> fst ` taken cfg 6 s'" using A(2) that by auto
    then show ?thesis by (auto simp: taken_def)
  qed
  moreover have "held cfg s' st = held cfg s st" if "st \<noteq> Pool" for st using that fr(4) t5 by (cases st) simp_all
  ultimately show ?thesis using A fr(1-3) fr(4) ok by (auto simp: stock_ok_def split: if_splits)
qed

definition growing :: "mempool list \<Rightarrow> 'a netmem_scheme \<Rightarrow> 'a netmem_scheme \<Rightarrow> DWORD \<Rightarrow> DWORD list \<Rightarrow> nat \<Rightarrow> bool" where
  "growing cfg s0 s p ps rest \<longleftrightarrow> stock_ok cfg s \<and> chained (link s) p ps \<and> ps \<noteq> [] \<and> short_packet s rest ps \<and>
     (\<forall>q \<in> set ps. pool_buf s q) \<and> set ps \<subseteq> elems (cfg ! 6) \<and>
     held cfg s Pool = held cfg s0 Pool \<union> set ps \<and> set ps \<inter> held cfg s0 Pool = {} \<and>
     (\<forall>st. st \<noteq> Pool \<longrightarrow> held cfg s st = held cfg s0 st) \<and> bytes s = bytes s0"

text \<open>When the pool is empty, the part of the chain there is goes back.\<close>

lemma growing_free:
  assumes "growing cfg s0 s p ps rest"
  shows "\<exists>n s'. pbuf_free p s = Some (n, s') \<and> stock_ok cfg s' \<and> bytes s' = bytes s0 \<and> (\<forall>st. held cfg s' st = held cfg s0 st)"
proof -
  have g: "stock_ok cfg s" "chained (link s) p ps" "ps \<noteq> []" "\<forall>q \<in> set ps. pool_buf s q"
    "held cfg s Pool = held cfg s0 Pool \<union> set ps" "set ps \<inter> held cfg s0 Pool = {}"
    "\<forall>st. st \<noteq> Pool \<longrightarrow> held cfg s st = held cfg s0 st" "bytes s = bytes s0"
    using assms by (auto simp: growing_def)
  have so: "sole s ps = ps" unfolding sole_def using g(4) by (simp add: pool_buf_def takeWhile_eq_all_conv)
  have h: "\<forall>q \<in> set ps. q \<in> held cfg s (store_of (ptype (pkts s q)))" using g(4,5) by (auto simp: pool_buf_def)
  have nz: "p \<noteq> 0" using g(2,3) by (cases ps) auto
  obtain s' where F: "free_loop p 0 s = Some (0 + of_nat (length (sole s ps)), s')" "stock_ok cfg s'" "bytes s' = bytes s"
    "\<forall>st. held cfg s' st = held cfg s st - {q \<in> set (sole s ps). store_of (ptype (pkts s q)) = st}"
    using free_loop_ok [OF g(1,2) h, of 0] by blast
  have st: "{q \<in> set ps. store_of (ptype (pkts s q)) = st} = (if st = Pool then set ps else {})" for st
    using g(4) by (auto simp: pool_buf_def)
  have "held cfg s' st = held cfg s0 st" for st
    using F(4) [unfolded so st] g(5-7) by (cases "st = Pool") (auto simp del: held.simps)
  then show ?thesis using F nz g(8) by (auto simp: pbuf_free_def)
qed

lemma elem_end:
  assumes "pool_fits c" "q \<in> elems c"
  shows "unat q + unat (memp_size c) < 2 ^ 32"
proof -
  obtain j where j: "q = elem c j" "j < unat (memp_num c)" using assms(2) by (auto simp: elems_def)
  have "(j + 1) * unat (memp_size c) \<le> unat (memp_num c) * unat (memp_size c)" using j(2) by (intro mult_right_mono) auto
  then show ?thesis using elem_pos [OF assms(1) j(2)] j(1) assms(1) by (simp add: pool_fits_def)
qed

lemma alloc_tail_ok:
  assumes "growing cfg s0 s p ps rest" "rest < 2 ^ 16" "memp_size (cfg ! 6) = 1536"
  shows "\<exists>r s'. alloc_tail cfg p (last ps) (int rest) s = Some (r, s') \<and>
    (if r = 0 then stock_ok cfg s' \<and> bytes s' = bytes s0 \<and> (\<forall>st. held cfg s' st = held cfg s0 st)
     else r = p \<and> (\<exists>ps'. growing cfg s0 s' p (ps @ ps') 0 \<and> total_len s' (ps @ ps') = total_len s ps + rest))"
  using assms(1,2)
proof (induction rest arbitrary: s ps rule: less_induct)
  case (less rest)
  have g: "stock_ok cfg s" "chained (link s) p ps" "ps \<noteq> []" "short_packet s rest ps" "\<forall>q \<in> set ps. pool_buf s q"
    "held cfg s Pool = held cfg s0 Pool \<union> set ps" "set ps \<inter> held cfg s0 Pool = {}" "set ps \<subseteq> elems (cfg ! 6)"
    "\<forall>st. st \<noteq> Pool \<longrightarrow> held cfg s st = held cfg s0 st" "bytes s = bytes s0"
    using less.prems(1) by (auto simp: growing_def)
  have nz: "p \<noteq> 0" using g(2,3) by (cases ps) auto
  show ?case
  proof (cases "rest = 0")
    case True
    then have "alloc_tail cfg p (last ps) (int rest) s = Some (p, s)" by (simp add: alloc_tail.simps)
    then show ?thesis using nz less.prems(1) True by (intro exI [of _ p] exI [of _ s]) (auto intro!: exI [of _ "[]"])
  next
    case False
    obtain q s1 where m: "memp_malloc cfg 6 s = (q, s1)" by fastforce
    note M = pool_malloc [OF g(1) m]
    show ?thesis
    proof (cases "q = 0")
      case True
      obtain n s' where F: "pbuf_free p s = Some (n, s')" "stock_ok cfg s'" "bytes s' = bytes s0" "\<forall>st. held cfg s' st = held cfg s0 st"
        using growing_free [OF less.prems(1)] by blast
      have "alloc_tail cfg p (last ps) (int rest) s = Some (0, s')"
        using False m M True F(1) by (subst alloc_tail.simps) simp
      then show ?thesis using F by auto
    next
      case q: False
      define n where "n = min (of_nat rest) PBUF_POOL_BUFSIZE"
      have w: "unat (of_nat rest :: WORD) = rest" using less.prems(2) by (simp add: unat_of_nat take_bit_nat_eq_self)
      have un: "unat n = min rest 1520" using w by (simp add: n_def min_def word_le_nat_alt)
      let ?r = "last ps"
      let ?f = "\<lambda>b. b\<lparr>tot_len := of_nat rest, plen := n, payload := q + SIZEOF_STRUCT_PBUF, pref := 1\<rparr>"
      let ?s2 = "set_link ?r q (set_link q 0 (upd_pkt q (\<lambda>b. b\<lparr>ptype := PBUF_POOL, pflags := 0\<rparr>) s1))"
      let ?s3 = "upd_pkt q ?f ?s2"
      have qn: "q \<notin> set ps" "q \<in> elems (cfg ! 6)" using M q g(6) by auto
      have rin: "?r \<in> set ps" using g(3) by simp
      have "q \<in> held cfg s1 Pool" "?r \<in> held cfg s1 Pool" using M q g(6) rin by (auto simp del: held.simps)
      then have K3: "stock_ok cfg ?s3" "\<And>st. held cfg ?s3 st = held cfg s1 st"
        using relink_held [of cfg s1 q ?r] M by blast+
      have fits: "pool_fits (cfg ! 6)" using g(1) by (auto simp: stock_ok_def pools_ok_def pools_fit_def)
      have uq: "unat (q + 16) = unat q + 16" using elem_end [OF fits qn(2)] assms(3) by (simp add: unat_add_lem [THEN iffD1])
      have G: "growing cfg s0 ?s3 p (ps @ [q]) (rest - unat n)"
      proof -
        have "chained (link ?s3) p (ps @ [q])" using chained_snoc [OF g(2,3) qn(1) q] M by simp
        moreover have "short_packet ?s3 (rest - unat n) (ps @ [q])"
          by (rule short_packet_snoc [OF g(4)]) (use qn M w un in auto)
        moreover have "\<forall>r \<in> set (ps @ [q]). pool_buf ?s3 r"
          using g(5) qn(1) M uq un by (auto simp: pool_buf_def)
        moreover have "held cfg ?s3 Pool = held cfg s0 Pool \<union> set (ps @ [q])" using K3(2) M q g(6) by (auto simp del: held.simps)
        moreover have "set (ps @ [q]) \<inter> held cfg s0 Pool = {}" using M q g(6,7) by (auto simp del: held.simps)
        moreover have "\<forall>st. st \<noteq> Pool \<longrightarrow> held cfg ?s3 st = held cfg s0 st" using K3(2) M q g(9) by (auto simp del: held.simps)
        ultimately show ?thesis using K3(1) g(8,10) qn(2) M by (simp add: growing_def)
      qed
      have lt: "rest - unat n < rest" using False un by auto
      have tl: "total_len ?s3 (ps @ [q]) = total_len s ps + unat n"
      proof -
        have "pkts ?s3 r = pkts s r" if "r \<in> set ps" for r using that qn M by auto
        then have "total_len ?s3 ps = total_len s ps" by (rule total_len_cong)
        then show ?thesis by simp
      qed
      have step: "alloc_tail cfg p ?r (int rest) s = alloc_tail cfg p q (int (rest - unat n)) ?s3"
      proof -
        have "int rest - int (unat n) = int (rest - unat n)" using un by (simp add: of_nat_diff)
        moreover have "min (of_nat rest) PBUF_POOL_BUFSIZE = n" by (simp add: n_def)
        ultimately show ?thesis using False m q by (subst alloc_tail.simps) (simp add: Let_def)
      qed
      obtain r s' where I: "alloc_tail cfg p q (int (rest - unat n)) ?s3 = Some (r, s')"
        "if r = 0 then stock_ok cfg s' \<and> bytes s' = bytes s0 \<and> (\<forall>st. held cfg s' st = held cfg s0 st)
         else r = p \<and> (\<exists>ps'. growing cfg s0 s' p ((ps @ [q]) @ ps') 0 \<and>
           total_len s' ((ps @ [q]) @ ps') = total_len ?s3 (ps @ [q]) + (rest - unat n))"
      proof -
        have "rest - unat n < 2 ^ 16" using less.prems(2) by simp
        from less.IH [OF lt G this] show ?thesis using that by auto
      qed
      have e: "total_len ?s3 (ps @ [q]) + (rest - unat n) = total_len s ps + rest" unfolding tl using un by simp
      show ?thesis unfolding step I(1)
        using I(2) unfolding e by (auto simp only: append_assoc split: if_splits)
    qed
  qed
qed

text \<open>The element size and base of the pool of packet buffers in this configuration, the heap and the pools apart.\<close>

definition buf_pool :: "mempool list \<Rightarrow> bool" where
  "buf_pool cfg \<longleftrightarrow> memp_size (cfg ! 6) = 1536 \<and> 4 dvd unat (memp_base (cfg ! 6))"

lemma elem_words: "pool_fits c \<Longrightarrow> 4 dvd unat (memp_base c) \<Longrightarrow> memp_size c = 1536 \<Longrightarrow> q \<in> elems c \<Longrightarrow> 4 dvd unat q"
  using elem_pos [of c] by (auto simp: elems_def)

lemma header_offset_word:
  "unat (LWIP_MEM_ALIGN_SIZE (ucast (header_offset l))) = unat (header_offset l) + unat (header_offset l) mod 4"
  "unat (header_offset l) \<le> 54" "unat (header_offset l) mod 4 \<in> {0, 2}"
  by (cases l; simp add: align_size)+

lemma pool_alloc_first:
  assumes "stock_ok cfg s" "buf_pool cfg" "memp_malloc cfg MEMP_PBUF_POOL s = (p, s1)" "p \<noteq> 0"
    "k = min n (PBUF_POOL_BUFSIZE - ucast (LWIP_MEM_ALIGN_SIZE (ucast (header_offset l))))"
    "s2 = upd_pkt p (\<lambda>b. b\<lparr>ptype := PBUF_POOL, payload := LWIP_MEM_ALIGN_SIZE (p + (SIZEOF_STRUCT_PBUF + ucast (header_offset l))),
       tot_len := n, plen := k, pref := 1\<rparr>) (set_link p 0 s1)"
  shows "growing cfg s s2 p [p] (unat n - unat k)" "unat k \<le> unat n" "0 < unat n \<Longrightarrow> 0 < unat k"
proof -
  note M = pool_malloc [OF assms(1,3)]
  let ?o = "unat (header_offset l)"
  have fits: "pool_fits (cfg ! 6)" using assms(1) by (auto simp: stock_ok_def pools_ok_def pools_fit_def)
  have p: "p \<in> elems (cfg ! 6)" using M assms(4) by simp
  have up: "unat p + 1536 < 2 ^ 32" "4 dvd unat p"
    using elem_end [OF fits p] elem_words [OF fits _ _ p] assms(2) by (simp_all add: buf_pool_def)
  note O = header_offset_word [of l]
  have sz: "unat (PBUF_POOL_BUFSIZE - ucast (LWIP_MEM_ALIGN_SIZE (ucast (header_offset l)))) = 1520 - (?o + ?o mod 4)"
  proof -
    have "unat (ucast (LWIP_MEM_ALIGN_SIZE (ucast (header_offset l))) :: WORD) = ?o + ?o mod 4"
      using O by (simp add: unat_narrow)
    then show ?thesis using O(2,3) by (subst unat_sub) (auto simp: word_le_nat_alt)
  qed
  have uk: "unat k = min (unat n) (1520 - (?o + ?o mod 4))" by (simp add: assms(5) min_def word_le_nat_alt sz)
  have pay: "unat (LWIP_MEM_ALIGN_SIZE (p + (SIZEOF_STRUCT_PBUF + ucast (header_offset l)))) = unat p + 16 + ?o + ?o mod 4"
  proof -
    have "unat (p + (SIZEOF_STRUCT_PBUF + ucast (header_offset l))) = unat p + 16 + ?o"
      using up(1) O(2) by (cases l) (simp_all add: unat_word_ariths)
    moreover obtain j where "unat p = 4 * j" using up(2) by auto
    ultimately show ?thesis using up(1) O(2) by (cases l) (simp_all add: align_size)
  qed
  have "p \<in> held cfg s1 Pool" using M assms(4) by (simp del: held.simps)
  then have K: "stock_ok cfg s2" "\<And>st. held cfg s2 st = held cfg s1 st"
    using link_held [of cfg s1 p 0] M unfolding assms(6) upd_held by (auto simp del: held.simps)
  show "unat k \<le> unat n" using uk by simp
  show "growing cfg s s2 p [p] (unat n - unat k)"
    unfolding growing_def using K M p pay uk O assms(4) by (auto simp: assms(6) pool_buf_def simp del: held.simps)
  show "0 < unat k" if "0 < unat n" using that uk O by auto
qed

section \<open>Properties\<close>

text \<open>C23: \<^verbatim>\<open>pbuf_free\<close> gives back the buffers from the head of a chain on that only the chain refers to, each to the
  heap or the pool it came from, counts them, and lowers the count of the first buffer that stays; it
  gives back nothing else, and the rest of the chain is as it was.\<close>
theorem pbuf_free_releases:
  assumes "stock_ok cfg s" "chained (link s) p ps" "\<forall>q \<in> set ps. q \<in> held cfg s (store_of (ptype (pkts s q)))"
  shows "\<exists>s'. pbuf_free p s = Some (of_nat (length (sole s ps)), s') \<and> stock_ok cfg s' \<and>
    (\<forall>st. held cfg s' st = held cfg s st - {q \<in> set (sole s ps). store_of (ptype (pkts s q)) = st}) \<and>
    (\<forall>r qs. ps = sole s ps @ r # qs \<longrightarrow> pref (pkts s' r) = pref (pkts s r) - 1 \<and> chained (link s') r (r # qs) \<and>
      contents s' (r # qs) = contents s (r # qs))"
proof (cases "p = 0")
  case True
  then show ?thesis using assms by (cases ps) (auto simp: pbuf_free_def sole_def)
next
  case False
  obtain s' where F: "free_loop p 0 s = Some (0 + of_nat (length (sole s ps)), s')" "stock_ok cfg s'"
    "\<forall>st. held cfg s' st = held cfg s st - {q \<in> set (sole s ps). store_of (ptype (pkts s q)) = st}"
    "\<forall>q. q \<notin> set (sole s ps) \<longrightarrow> link s' q = link s q" "bytes s' = bytes s"
    "\<forall>q. q \<notin> set (sole s ps) \<longrightarrow> pkts s' q =
      (case drop (length (sole s ps)) ps of r # _ \<Rightarrow> if q = r then (pkts s q)\<lparr>pref := pref (pkts s q) - 1\<rparr> else pkts s q | [] \<Rightarrow> pkts s q)"
    using free_loop_ok [OF assms, of 0] by blast
  have "pref (pkts s' r) = pref (pkts s r) - 1 \<and> chained (link s') r (r # qs) \<and> contents s' (r # qs) = contents s (r # qs)"
    if e: "ps = sole s ps @ r # qs" for r qs
  proof -
    have d: "distinct (sole s ps @ r # qs)" using chained_distinct [OF assms(2)] e by metis
    have dr: "drop (length (sole s ps)) ps = r # qs" using e by (metis append_eq_conv_conj)
    have k: "pkts s' q = (if q = r then (pkts s q)\<lparr>pref := pref (pkts s q) - 1\<rparr> else pkts s q)" "link s' q = link s q"
      if "q \<in> set (r # qs)" for q
      using F(4,6) that d dr by auto
    have "chained (link s) r (r # qs)" using assms(2) e chained_from by metis
    then have "chained (link s') r (r # qs)" using chained_cong [of "r # qs" "link s'" "link s"] k(2) by blast
    moreover have "content s' q = content s q" if "q \<in> set (r # qs)" for q
      using k(1) [OF that] F(5) by (simp add: content_def)
    then have "map (content s') (r # qs) = map (content s) (r # qs)" by (intro map_cong) auto
    then have "contents s' (r # qs) = contents s (r # qs)" unfolding contents_def by (rule arg_cong)
    ultimately show ?thesis using k(1) [of r] by simp
  qed
  then show ?thesis using F(1-3) False by (simp add: pbuf_free_def)
qed

text \<open>C22: \<^verbatim>\<open>pbuf_alloc\<close> of a packet from the pool returns.  If the pool runs dry on the way, it returns the null
  pointer and everything it took is back in the pool.  Otherwise it returns a chain of new buffers whose lengths
  add up to the length asked for, with consistent total lengths, each with one reference and with its
  payload inside of its element, and the pool has lost exactly these buffers.\<close>
theorem pbuf_alloc_pool:
  assumes "stock_ok cfg s" "buf_pool cfg"
  shows "\<exists>p s'. pbuf_alloc cfg l n PBUF_POOL s = Some (p, s') \<and> stock_ok cfg s' \<and>
    (\<forall>st. st \<noteq> Pool \<longrightarrow> held cfg s' st = held cfg s st) \<and>
    (if p = 0 then held cfg s' Pool = held cfg s Pool
     else \<exists>ps. chained (link s') p ps \<and> ps \<noteq> [] \<and> packet s' ps \<and> total_len s' ps = unat n \<and> (\<forall>q \<in> set ps. pool_buf s' q) \<and>
       set ps \<inter> held cfg s Pool = {} \<and> held cfg s' Pool = held cfg s Pool \<union> set ps)"
proof -
  obtain p s1 where m: "memp_malloc cfg MEMP_PBUF_POOL s = (p, s1)" by fastforce
  note M = pool_malloc [OF assms(1) m]
  show ?thesis
  proof (cases "p = 0")
    case True
    then show ?thesis using m M assms(1) by (intro exI [of _ 0] exI [of _ s1]) (auto simp: pbuf_alloc_def simp del: held.simps)
  next
    case False
    define k where "k = min n (PBUF_POOL_BUFSIZE - ucast (LWIP_MEM_ALIGN_SIZE (ucast (header_offset l))))"
    define s2 where "s2 = upd_pkt p (\<lambda>b. b\<lparr>ptype := PBUF_POOL, payload := LWIP_MEM_ALIGN_SIZE (p + (SIZEOF_STRUCT_PBUF + ucast (header_offset l))),
       tot_len := n, plen := k, pref := 1\<rparr>) (set_link p 0 s1)"
    note G = pool_alloc_first [OF assms m False k_def s2_def]
    have lt: "unat n - unat k < 2 ^ 16" using unsigned_less [of n, where 'a = nat] by simp
    obtain r s3 where T: "alloc_tail cfg p p (int (unat n - unat k)) s2 = Some (r, s3)"
      "if r = 0 then stock_ok cfg s3 \<and> bytes s3 = bytes s \<and> (\<forall>st. held cfg s3 st = held cfg s st)
       else r = p \<and> (\<exists>ps'. growing cfg s s3 p ([p] @ ps') 0 \<and> total_len s3 ([p] @ ps') = total_len s2 [p] + (unat n - unat k))"
      using alloc_tail_ok [OF G(1) lt] assms(2) by (auto simp: buf_pool_def)
    have i: "int (unat n) - int (unat k) = int (unat n - unat k)" using G(2) by (simp add: of_nat_diff)
    have a: "pbuf_alloc cfg l n PBUF_POOL s = Some (r, if r = 0 then s3 else upd_pkt r (\<lambda>b. b\<lparr>pref := 1, pflags := 0\<rparr>) s3)"
      using T(1) m False unfolding pbuf_alloc_def Let_def by (simp add: k_def [symmetric] s2_def [symmetric] i del: of_nat_unat)
    show ?thesis
    proof (cases "r = 0")
      case True
      then show ?thesis using a T(2) by (auto simp del: held.simps)
    next
      case r: False
      then obtain ps' where ps': "growing cfg s s3 p ([p] @ ps') 0" "r = p"
        "total_len s3 ([p] @ ps') = total_len s2 [p] + (unat n - unat k)" using T(2) [unfolded if_not_P [OF r]] by blast
      define ps where "ps = [p] @ ps'"
      have "total_len s2 [p] = unat k" by (simp add: s2_def)
      then have ps: "growing cfg s s3 p ps 0" "total_len s3 ps = unat n" "r = p"
        using ps' G(2) unfolding ps_def by simp_all
      let ?s4 = "upd_pkt p (\<lambda>b. b\<lparr>pref := 1, pflags := 0\<rparr>) s3"
      have same: "total_len ?s4 qs = total_len s3 qs" for qs by (induction qs) simp_all
      have "packet ?s4 qs = packet s3 qs" for qs by (induction qs) (simp_all add: same)
      then show ?thesis using a r ps same upd_held [of cfg p _ s3]
        by (auto simp: growing_def short_packet_0 pool_buf_def simp del: held.simps)
    qed
  qed
qed

text \<open>Seven small pools and a heap.\<close>

definition small_pools :: "mempool list" where
  "small_pools = [\<lparr>memp_num = 1, memp_size = 28, memp_base = 0x80001000\<rparr>, \<lparr>memp_num = 1, memp_size = 36, memp_base = 0x80002000\<rparr>,
     \<lparr>memp_num = 1, memp_size = 160, memp_base = 0x80003000\<rparr>, \<lparr>memp_num = 1, memp_size = 32, memp_base = 0x80004000\<rparr>,
     \<lparr>memp_num = 1, memp_size = 20, memp_base = 0x80005000\<rparr>, \<lparr>memp_num = 2, memp_size = 16, memp_base = 0x80006000\<rparr>,
     \<lparr>memp_num = 2, memp_size = 1536, memp_base = 0x80007000\<rparr>]"

definition net_start :: netmem where
  "net_start = memp_init small_pools (sample_chain\<lparr>mem_heap := mem_init 0x81000000 blank_heap\<rparr>)"

lemma small_pools_fit: "pools_fit small_pools"
proof -
  have "\<forall>c \<in> set small_pools. pool_fits c" by (simp add: small_pools_def pool_fits_def)
  moreover have "\<forall>i < 7. \<forall>j < 7. i \<noteq> j \<longrightarrow> elems (small_pools ! i) \<inter> elems (small_pools ! j) = {}" by code_simp
  moreover have "length small_pools = 7" by (simp add: small_pools_def)
  ultimately show ?thesis by (simp add: pools_fit_def)
qed

lemma init_frame: "mem_heap (memp_init cfg s) = mem_heap s"
proof -
  have "mem_heap (carve n i z p t) = mem_heap t" for n i z p and t :: "'a netmem_scheme" by (induction n arbitrary: p t) simp_all
  then have "mem_heap (init_pools cs i t) = mem_heap t" for cs i and t :: "'a netmem_scheme" by (induction cs arbitrary: i t) simp_all
  then show ?thesis by (simp add: memp_init_def)
qed

lemma net_start_ok: "stock_ok small_pools net_start" "buf_pool small_pools"
proof -
  have "\<exists>bs. heap_ok (mem_init 0x81000000 blank_heap) bs"
    using mem_init_ok [where ram_heap = "0x81000000"] by auto
  then show "stock_ok small_pools net_start"
    using memp_init_ok(1) [OF small_pools_fit] by (simp add: stock_ok_def net_start_def init_frame) (simp add: small_pools_def)
  show "buf_pool small_pools" by (simp add: buf_pool_def small_pools_def)
qed

lemma net_start_malloc: "fst (memp_malloc small_pools MEMP_PBUF_POOL net_start) = 0x80007600"
proof -
  have "fst (memp_malloc small_pools MEMP_PBUF_POOL (memp_init small_pools (sample_chain\<lparr>mem_heap := h\<rparr>))) = 0x80007600" for h
    by code_simp
  then show ?thesis by (simp add: net_start_def)
qed

lemma pbuf_alloc_pool_witness:
  "\<exists>p s'. pbuf_alloc small_pools PBUF_TRANSPORT 2000 PBUF_POOL net_start = Some (p, s') \<and> stock_ok small_pools s'"
  using pbuf_alloc_pool [OF net_start_ok, where l = PBUF_TRANSPORT and n = 2000] by blast

lemma pbuf_free_releases_witness:
  "\<exists>(s :: netmem) s'. held small_pools s Pool = {0x80007600} \<and> pbuf_free 0x80007600 s = Some (1, s') \<and> held small_pools s' Pool = {}"
proof -
  obtain s1 where m: "memp_malloc small_pools MEMP_PBUF_POOL net_start = (0x80007600, s1)"
    using net_start_malloc by (cases "memp_malloc small_pools MEMP_PBUF_POOL net_start") auto
  obtain s2 n where G: "growing small_pools net_start s2 0x80007600 [0x80007600] n"
    using pool_alloc_first(1) [OF net_start_ok m _ refl refl, where n = 100 and l = PBUF_RAW] by auto
  have "taken small_pools 6 net_start = {}"
    using memp_init_ok(2) [OF small_pools_fit, where t = 6] by (simp add: net_start_def small_pools_def)
  then have h: "held small_pools s2 Pool = {0x80007600}" using G by (simp add: growing_def)
  have "pool_buf s2 0x80007600" using G by (simp add: growing_def)
  then have b: "sole s2 [0x80007600] = [0x80007600]" "store_of (ptype (pkts s2 0x80007600)) = Pool" by (simp_all add: sole_def pool_buf_def)
  have "stock_ok small_pools s2" "chained (link s2) 0x80007600 [0x80007600]" using G by (simp_all add: growing_def)
  from pbuf_free_releases [OF this] obtain s' where "pbuf_free 0x80007600 s2 = Some (1, s')" "held small_pools s' Pool = {}"
    using h b by (auto simp del: held.simps)
  then show ?thesis using h by blast
qed

end
