(* ===== verification/LwChksum.thy ===== *)
theory LwChksum
  imports LwCopy
begin

unbundle bit_operations_syntax

text \<open>
  The Internet checksum, \<^verbatim>\<open>lwip/src/core/ipv4/inet_chksum.c\<close> with \<^verbatim>\<open>LWIP_CHKSUM_ALGORITHM\<close> 2: two bytes at a time in
  the byte order of the machine, from any address, over a block, a chain of packet buffers, and a chain with the
  pseudo header of UDP and TCP.  The reference is RFC 1071: the sum in one's complement of the 16-bit words in
  network byte order.
\<close>

section \<open>The routines\<close>

definition FOLD_U32T :: "DWORD \<Rightarrow> DWORD" where
  "FOLD_U32T u = drop_bit 16 u + (u AND 0xFFFF)"

definition SWAP_BYTES_IN_WORD :: "DWORD \<Rightarrow> DWORD" where
  "SWAP_BYTES_IN_WORD w = push_bit 8 (w AND 0xFF) OR drop_bit 8 (w AND 0xFF00)"

definition htons :: "WORD \<Rightarrow> WORD" where
  "htons n = push_bit 8 (n AND 0xFF) OR drop_bit 8 (n AND 0xFF00)"

text \<open>A 16-bit word of the memory.\<close>

definition u16_at :: "(DWORD \<Rightarrow> BYTE) \<Rightarrow> DWORD \<Rightarrow> WORD" where
  "u16_at m a = ucast (m a) OR push_bit 8 (ucast (m (a + 1)))"

fun add_words :: "(DWORD \<Rightarrow> BYTE) \<Rightarrow> DWORD \<Rightarrow> nat \<Rightarrow> DWORD \<Rightarrow> DWORD \<times> DWORD \<times> nat" where
  "add_words m ps n acc = (if n > 1 then add_words m (ps + 2) (n - 2) (acc + ucast (u16_at m ps)) else (ps, acc, n))"

declare add_words.simps [simp del]

definition lwip_standard_chksum :: "(DWORD \<Rightarrow> BYTE) \<Rightarrow> DWORD \<Rightarrow> nat \<Rightarrow> WORD" where
  "lwip_standard_chksum m dataptr n =
     (let at_odd = dataptr AND 1 = 1;
          (t, pb, n) = (if at_odd \<and> n > 0 then (push_bit 8 (ucast (m dataptr)), dataptr + 1, n - 1) else (0 :: WORD, dataptr, n)) in
      case add_words m pb n 0 of (ps, acc, n) \<Rightarrow>
        let t = (if n > 0 then (t AND 0xFF00) OR ucast (m ps) else t);
            acc = FOLD_U32T (FOLD_U32T (acc + ucast t));
            acc = (if at_odd then SWAP_BYTES_IN_WORD acc else acc)
        in ucast acc)"

definition inet_chksum :: "(DWORD \<Rightarrow> BYTE) \<Rightarrow> DWORD \<Rightarrow> WORD \<Rightarrow> WORD" where
  "inet_chksum m dataptr n = NOT (lwip_standard_chksum m dataptr (unat n))"

partial_function (option) chain_loop :: "DWORD \<Rightarrow> DWORD \<Rightarrow> bool \<Rightarrow> 'a netmem_scheme \<Rightarrow> (DWORD \<times> bool) option" where
  "chain_loop q acc swapped s =
     (if q \<noteq> 0 then
        let acc = FOLD_U32T (acc + ucast (lwip_standard_chksum (bytes s) (payload (pkts s q)) (unat (plen (pkts s q)))));
            (swapped, acc) = (if plen (pkts s q) mod 2 \<noteq> 0 then (\<not> swapped, SWAP_BYTES_IN_WORD acc) else (swapped, acc))
        in chain_loop (link s q) acc swapped s
      else Some (acc, swapped))"

definition inet_chksum_pbuf :: "DWORD \<Rightarrow> 'a netmem_scheme \<Rightarrow> WORD option" where
  "inet_chksum_pbuf p s = Option.bind (chain_loop p 0 False s) (\<lambda>(acc, swapped).
     let acc = (if swapped then SWAP_BYTES_IN_WORD acc else acc) in Some (ucast (NOT (acc AND 0xFFFF))))"

text \<open>The pseudo header: the two addresses, the protocol and the length.\<close>

definition pseudo_sum :: "DWORD \<Rightarrow> DWORD \<Rightarrow> DWORD \<Rightarrow> BYTE \<Rightarrow> WORD \<Rightarrow> WORD" where
  "pseudo_sum acc src dest proto proto_len =
     (let acc = acc + (src AND 0xFFFF);
          acc = acc + (drop_bit 16 src AND 0xFFFF);
          acc = acc + (dest AND 0xFFFF);
          acc = acc + (drop_bit 16 dest AND 0xFFFF);
          acc = acc + ucast (htons (ucast proto));
          acc = acc + ucast (htons proto_len);
          acc = FOLD_U32T (FOLD_U32T acc)
      in ucast (NOT (acc AND 0xFFFF)))"

definition inet_chksum_pseudo :: "DWORD \<Rightarrow> DWORD \<Rightarrow> DWORD \<Rightarrow> BYTE \<Rightarrow> WORD \<Rightarrow> 'a netmem_scheme \<Rightarrow> WORD option" where
  "inet_chksum_pseudo p src dest proto proto_len s = Option.bind (chain_loop p 0 False s) (\<lambda>(acc, swapped).
     Some (pseudo_sum (if swapped then SWAP_BYTES_IN_WORD acc else acc) src dest proto proto_len))"

text \<open>
  The loop of the partial checksum asserts that fewer than \<^verbatim>\<open>0x7fff\<close> bytes are left after each buffer.  In
  this port a failed \<^verbatim>\<open>LWIP_ASSERT\<close> has no effect: \<^verbatim>\<open>LWIP_PLATFORM_ASSERT\<close> of \<^verbatim>\<open>arch/cc.h\<close> is empty, or with
  \<^verbatim>\<open>DEBUG\<close> tests the message, which is no null pointer, once more.  The loop therefore goes on, and the
  model carries whether every assertion held (\<open>asserted\<close>) to the result.
\<close>

partial_function (option) part_loop ::
    "DWORD \<Rightarrow> WORD \<Rightarrow> DWORD \<Rightarrow> bool \<Rightarrow> bool \<Rightarrow> 'a netmem_scheme \<Rightarrow> (DWORD \<times> bool \<times> bool) option" where
  "part_loop q chksum_len acc swapped asserted s =
     (if q \<noteq> 0 \<and> chksum_len > 0 then
        let chklen = (if plen (pkts s q) > chksum_len then chksum_len else plen (pkts s q));
            acc = acc + ucast (lwip_standard_chksum (bytes s) (payload (pkts s q)) (unat chklen));
            chksum_len = chksum_len - chklen;
            asserted = (asserted \<and> chksum_len < 0x7FFF);
            acc = FOLD_U32T acc;
            (swapped, acc) = (if plen (pkts s q) mod 2 \<noteq> 0 then (\<not> swapped, SWAP_BYTES_IN_WORD acc) else (swapped, acc))
        in part_loop (link s q) chksum_len acc swapped asserted s
      else Some (acc, swapped, asserted))"

definition inet_chksum_pseudo_partial :: "DWORD \<Rightarrow> DWORD \<Rightarrow> DWORD \<Rightarrow> BYTE \<Rightarrow> WORD \<Rightarrow> WORD \<Rightarrow> 'a netmem_scheme \<Rightarrow> (WORD \<times> bool) option" where
  "inet_chksum_pseudo_partial p src dest proto proto_len chksum_len s =
     Option.bind (part_loop p chksum_len 0 False True s) (\<lambda>(acc, swapped, asserted).
       Some (pseudo_sum (if swapped then SWAP_BYTES_IN_WORD acc else acc) src dest proto proto_len, asserted))"

section \<open>One's complement sums\<close>

text \<open>RFC 1071: addition with the carry added back at the end, over the words in network byte order; a last
  byte on its own is padded with zero.\<close>

definition ones_add :: "nat \<Rightarrow> nat \<Rightarrow> nat" where
  "ones_add a b = (if a + b > 0xFFFF then a + b - 0xFFFF else a + b)"

fun net_words :: "BYTE list \<Rightarrow> nat list" where
  "net_words [] = []"
| "net_words [a] = [256 * unat a]"
| "net_words (a # b # bs) = (256 * unat a + unat b) # net_words bs"

definition rfc1071 :: "BYTE list \<Rightarrow> nat" where
  "rfc1071 bs = foldl ones_add 0 (net_words bs)"

text \<open>The sum of the bytes, every other one times 256; the class of a sum modulo \<open>2 ^ 16 - 1\<close> that one's
  complement addition computes, in which zero stands for itself only.\<close>

fun weigh :: "bool \<Rightarrow> BYTE list \<Rightarrow> nat" where
  "weigh hi [] = 0"
| "weigh hi (b # bs) = (if hi then 256 * unat b else unat b) + weigh (\<not> hi) bs"

definition norm :: "nat \<Rightarrow> nat" where
  "norm n = (if n = 0 then 0 else (n - 1) mod 0xFFFF + 1)"

lemma byte_lt: "unat (b :: BYTE) < 256"
  using unsigned_less [of b, where 'a = nat] by simp

lemma norm_le: "norm n \<le> 0xFFFF"
proof -
  have "(n - 1) mod 0xFFFF < 0xFFFF" by (rule mod_less_divisor) simp
  then show ?thesis unfolding norm_def by (cases "n = 0") simp_all
qed

lemma norm_0 [simp]: "norm n = 0 \<longleftrightarrow> n = 0"
  by (simp add: norm_def)

lemma norm_mod: "norm n mod 0xFFFF = n mod 0xFFFF"
  by (cases n) (simp_all add: norm_def mod_Suc_eq)

lemma norm_unique:
  assumes "x \<le> 0xFFFF" "x mod 0xFFFF = n mod 0xFFFF" "x = 0 \<longleftrightarrow> n = 0"
  shows "x = norm n"
proof (cases "n = 0")
  case False
  have "norm n \<le> 0xFFFF" "norm n mod 0xFFFF = x mod 0xFFFF" "norm n \<noteq> 0" using norm_le norm_mod assms(2) False by simp_all
  then show ?thesis using assms(1,3) False by (cases "x = 0xFFFF"; cases "norm n = 0xFFFF") (auto simp: le_less)
qed (use assms in simp)

lemma norm_cong: "a mod 0xFFFF = b mod 0xFFFF \<Longrightarrow> a = 0 \<longleftrightarrow> b = 0 \<Longrightarrow> norm a = norm b"
  by (rule norm_unique) (simp_all add: norm_le norm_mod)

lemma norm_add: "norm (norm a + b) = norm (a + b)"
proof (rule norm_cong)
  show "(norm a + b) mod 0xFFFF = (a + b) mod 0xFFFF" using norm_mod [of a] by (metis mod_add_left_eq)
qed simp

lemma ones_add_norm: "a \<le> 0xFFFF \<Longrightarrow> b \<le> 0xFFFF \<Longrightarrow> ones_add a b = norm (a + b)"
  by (rule norm_unique) (auto simp: ones_add_def le_mod_geq)

lemma net_words_le: "w \<in> set (net_words bs) \<Longrightarrow> w \<le> 0xFFFF"
proof (induction bs rule: net_words.induct)
  case (2 a)
  then show ?case using byte_lt [of a] by simp
next
  case (3 a b bs)
  then show ?case using byte_lt [of a] byte_lt [of b] by auto
qed simp

lemma foldl_ones: "\<forall>w \<in> set ws. w \<le> 0xFFFF \<Longrightarrow> foldl ones_add (norm a) ws = norm (a + sum_list ws)"
proof (induction ws arbitrary: a)
  case (Cons w ws)
  have "ones_add (norm a) w = norm (a + w)" using Cons.prems by (simp add: ones_add_norm norm_le norm_add)
  then show ?case using Cons by (simp add: add.assoc)
qed simp

lemma sum_net_words: "sum_list (net_words bs) = weigh True bs"
  by (induction bs rule: net_words.induct) simp_all

lemma rfc1071_norm: "rfc1071 bs = norm (weigh True bs)"
  using foldl_ones [of "net_words bs" 0] net_words_le [of _ bs] by (simp add: rfc1071_def sum_net_words norm_def)

lemma weigh_swap: "256 * weigh hi bs mod 0xFFFF = weigh (\<not> hi) bs mod 0xFFFF"
proof (induction bs arbitrary: hi)
  case (Cons b bs)
  have sum_mod: "(x + u) mod 0xFFFF = (y + v) mod 0xFFFF" if "x mod 0xFFFF = y mod 0xFFFF" "u mod 0xFFFF = v mod 0xFFFF"
    for x y u v :: nat using that by (rule mod_add_cong)
  have "256 * (256 * unat b) = unat b + unat b * 0xFFFF" by simp
  then have "256 * (256 * unat b) mod 0xFFFF = unat b mod 0xFFFF" by (simp only: mod_mult_self1)
  then have "(256 * (256 * unat b) + 256 * weigh False bs) mod 0xFFFF = (unat b + weigh True bs) mod 0xFFFF"
    using Cons [of False] by (intro sum_mod) (simp_all only: not_False_eq_True)
  moreover have "(256 * unat b + 256 * weigh True bs) mod 0xFFFF = (256 * unat b + weigh False bs) mod 0xFFFF"
    using Cons [of True] by (intro sum_mod) (simp_all only: not_True_eq_False)
  ultimately show ?case by (cases hi) (simp_all only: distrib_left weigh.simps if_True if_False not_True_eq_False not_False_eq_True)
qed simp

lemma weigh_0: "weigh hi bs = 0 \<longleftrightarrow> (\<forall>b \<in> set bs. b = 0)"
  by (induction bs arbitrary: hi) (auto simp: unat_eq_zero)

lemma norm_swap: "norm (256 * weigh hi bs) = norm (weigh (\<not> hi) bs)"
  by (rule norm_cong) (simp_all add: weigh_swap weigh_0)

lemma weigh_append: "weigh hi (xs @ ys) = weigh hi xs + weigh (hi \<noteq> odd (length xs)) ys"
proof (induction xs arbitrary: hi)
  case (Cons b xs)
  have "((\<not> hi) \<noteq> odd (length xs)) = (hi \<noteq> odd (length (b # xs)))" by auto
  then show ?case by (simp only: Cons append_Cons weigh.simps add.assoc)
qed simp

lemma weigh_le: "weigh hi bs \<le> 65535 * ((length bs + 1) div 2)"
proof (induction bs arbitrary: hi rule: induct_list012)
  case (2 b)
  then show ?case using byte_lt [of b] by auto
next
  case (3 a b bs)
  have "weigh hi (a # b # bs) \<le> 256 * 255 + 255 + weigh hi bs"
    using byte_lt [of a] byte_lt [of b] by (cases hi) auto
  then show ?case using 3(1) [of hi] by simp
qed simp

section \<open>The routines on sums\<close>

lemma unat_FOLD: "unat (FOLD_U32T u) = unat u div 2 ^ 16 + unat u mod 2 ^ 16"
proof -
  have d: "unat (drop_bit 16 u) = unat u div 2 ^ 16" by (simp only: unat_drop_bit_eq drop_bit_eq_div [of 16 "unat u"])
  have "u AND 0xFFFF = u AND mask 16" by (simp add: mask_eq_exp_minus_1)
  then have t: "unat (u AND 0xFFFF) = unat u mod 2 ^ 16" by (simp only: unat_and_mask)
  have "unat u div 2 ^ 16 + unat u mod 2 ^ 16 < 2 ^ 32" using unsigned_less [of u, where 'a = nat] by simp
  then show ?thesis unfolding FOLD_U32T_def by (simp add: unat_add_lem [THEN iffD1] d t)
qed

lemma FOLD_mod: "unat (FOLD_U32T u) mod 0xFFFF = unat u mod 0xFFFF"
proof -
  define q where "q = unat u div 2 ^ 16"
  define r where "r = unat u mod 2 ^ 16"
  have "unat u = (q + r) + q * 0xFFFF" using div_mult_mod_eq [of "unat u" "2 ^ 16"] unfolding q_def r_def by simp
  then show ?thesis unfolding unat_FOLD q_def [symmetric] r_def [symmetric] by (simp only: mod_mult_self1)
qed

lemma FOLD_0: "FOLD_U32T u = 0 \<longleftrightarrow> u = 0"
proof -
  have "unat (FOLD_U32T u) = 0 \<longleftrightarrow> unat u = 0"
    unfolding unat_FOLD using div_mult_mod_eq [of "unat u" "2 ^ 16"] by auto
  then show ?thesis by (simp add: unat_eq_zero)
qed

lemma FOLD_le: "unat (FOLD_U32T u) \<le> 0x1FFFE"
proof -
  have "unat u div 2 ^ 16 < 2 ^ 16" using unsigned_less [of u, where 'a = nat] by (simp add: less_mult_imp_div_less)
  moreover have "unat u mod 2 ^ 16 < 2 ^ 16" by simp
  ultimately show ?thesis unfolding unat_FOLD by simp
qed

text \<open>One fold brings two 16-bit values together, two folds any sum.\<close>

lemma FOLD_once: "unat u \<le> 0x1FFFE \<Longrightarrow> unat (FOLD_U32T u) = norm (unat u)"
proof (rule norm_unique)
  assume "unat u \<le> 0x1FFFE"
  then show "unat (FOLD_U32T u) \<le> 0xFFFF" unfolding unat_FOLD by (cases "unat u < 2 ^ 16") (auto simp: le_div_geq le_mod_geq)
qed (simp_all add: FOLD_mod FOLD_0 unat_eq_zero)

lemma FOLD_twice: "unat (FOLD_U32T (FOLD_U32T u)) = norm (unat u)"
  unfolding FOLD_once [OF FOLD_le] by (rule norm_cong) (simp_all add: FOLD_mod FOLD_0 unat_eq_zero)

lemma unat_pair:
  fixes x y :: "'a::len word"
  assumes "unat x < 256" "unat y < 256" "16 \<le> LENGTH('a)"
  shows "unat (push_bit 8 x OR y) = 256 * unat x + unat y"
proof -
  have y: "take_bit 8 y = y" using assms(2) by (simp add: word_unat_eq_iff unsigned_take_bit_eq take_bit_nat_eq_self)
  have "push_bit 8 x + take_bit 8 y = push_bit 8 x OR take_bit 8 y" by (rule disjunctive_add) (auto simp: bit_simps)
  then have "push_bit 8 x OR y = push_bit 8 x + y" by (simp only: y)
  also have "\<dots> = of_nat (256 * unat x + unat y)" by (simp add: push_bit_eq_mult)
  finally have e: "push_bit 8 x OR y = of_nat (256 * unat x + unat y)" .
  have "(2 :: nat) ^ 16 \<le> 2 ^ LENGTH('a)" using assms(3) by (rule power_increasing) simp
  moreover have "256 * unat x + unat y < 2 ^ 16" using assms(1,2) by simp
  ultimately have "256 * unat x + unat y < 2 ^ LENGTH('a)" by linarith
  then show ?thesis unfolding e by (simp only: unat_of_nat mod_less)
qed

lemma byte_of_pair:
  fixes w :: "'a::len word"
  assumes "16 \<le> LENGTH('a)"
  shows "drop_bit 8 (w AND push_bit 8 (mask 8)) = drop_bit 8 w AND mask 8"
  by (rule bit_word_eqI) (auto simp: bit_simps dest: bit_imp_le_length)

lemma unat_SWAP: "unat (SWAP_BYTES_IN_WORD w) = 256 * (unat w mod 256) + unat w div 256 mod 256"
proof -
  have c: "0xFF00 = push_bit 8 (mask 8 :: DWORD)" "0xFF = (mask 8 :: DWORD)" by (simp_all add: mask_eq_exp_minus_1 push_bit_eq_mult)
  have d: "unat (drop_bit 8 w) = unat w div 256" by (simp only: unat_drop_bit_eq drop_bit_eq_div [of 8 "unat w"]) simp
  have e: "drop_bit 8 (w AND 0xFF00) = drop_bit 8 w AND mask 8" unfolding c by (rule byte_of_pair) simp
  show ?thesis unfolding SWAP_BYTES_IN_WORD_def e c(2)
    by (subst unat_pair) (simp_all add: unat_and_mask d)
qed

lemma unat_htons: "unat (htons w) = 256 * (unat w mod 256) + unat w div 256 mod 256"
proof -
  have c: "0xFF00 = push_bit 8 (mask 8 :: WORD)" "0xFF = (mask 8 :: WORD)" by (simp_all add: mask_eq_exp_minus_1 push_bit_eq_mult)
  have d: "unat (drop_bit 8 w) = unat w div 256" by (simp only: unat_drop_bit_eq drop_bit_eq_div [of 8 "unat w"]) simp
  have e: "drop_bit 8 (w AND 0xFF00) = drop_bit 8 w AND mask 8" unfolding c by (rule byte_of_pair) simp
  show ?thesis unfolding htons_def e c(2)
    by (subst unat_pair) (simp_all add: unat_and_mask d)
qed

text \<open>Exchanging the two bytes multiplies by 256.\<close>

lemma swap_norm:
  assumes "x \<le> 0xFFFF"
  shows "256 * (x mod 256) + x div 256 mod 256 = norm (256 * x)"
proof (rule norm_unique)
  define q where "q = x div 256"
  define r where "r = x mod 256"
  have x: "x = 256 * q + r" using div_mult_mod_eq [of x 256] unfolding q_def r_def by simp
  have q: "q < 256" using assms unfolding q_def by (simp add: less_mult_imp_div_less)
  have r: "r < 256" unfolding r_def by simp
  have m: "x div 256 mod 256 = q" "x mod 256 = r" using q unfolding q_def r_def by simp_all
  show "256 * (x mod 256) + x div 256 mod 256 \<le> 0xFFFF" using q r unfolding m by simp
  have "256 * x = (256 * r + q) + q * 0xFFFF" unfolding x by simp
  then show "(256 * (x mod 256) + x div 256 mod 256) mod 0xFFFF = (256 * x) mod 0xFFFF" unfolding m by (simp only: mod_mult_self1)
  show "256 * (x mod 256) + x div 256 mod 256 = 0 \<longleftrightarrow> 256 * x = 0" unfolding m using x by auto
qed

lemma SWAP_norm: "unat u \<le> 0xFFFF \<Longrightarrow> unat (SWAP_BYTES_IN_WORD u) = norm (256 * unat u)"
  unfolding unat_SWAP by (rule swap_norm)

lemma norm_times: "norm (256 * norm n) = norm (256 * n)"
  by (rule norm_cong) (use norm_mod [of n] in \<open>metis mod_mult_right_eq, simp\<close>)

lemma SWAP_weigh:
  "unat u = norm (weigh hi bs) \<Longrightarrow> unat (SWAP_BYTES_IN_WORD u) = norm (weigh (\<not> hi) bs)"
  by (simp add: SWAP_norm norm_le norm_times norm_swap)

section \<open>A block\<close>

lemma unat_u16: "unat (u16_at m a) = unat (m a) + 256 * unat (m (a + 1))"
proof -
  have "u16_at m a = push_bit 8 (ucast (m (a + 1))) OR ucast (m a)" by (simp add: u16_at_def or.commute)
  then show ?thesis using byte_lt [of "m a"] byte_lt [of "m (a + 1)"] by (simp add: unat_pair unat_widen)
qed

lemma get_bytes_Suc: "get_bytes m p (Suc n) = m p # get_bytes m (p + 1) n"
proof -
  have "get_bytes m p (Suc n) = take 1 (get_bytes m p (Suc n)) @ drop 1 (get_bytes m p (Suc n))" by simp
  also have "drop 1 (get_bytes m p (Suc n)) = get_bytes m (p + 1) n" using drop_get_bytes [of 1 m p "Suc n"] by simp
  also have "take 1 (get_bytes m p (Suc n)) = [m p]" by (simp add: take_get_bytes) (simp add: get_bytes_def)
  finally show ?thesis by simp
qed

lemma get_bytes_0 [simp]: "get_bytes m p 0 = []"
  by (simp add: get_bytes_def)

lemma add_words_ok:
  "add_words m ps n acc = (ps + of_nat (2 * (n div 2)), acc + of_nat (weigh False (get_bytes m ps (2 * (n div 2)))), n mod 2)"
proof (induction n arbitrary: ps acc rule: induct_nat_012)
  case (ge2 n)
  have d: "2 * (Suc (Suc n) div 2) = Suc (Suc (2 * (n div 2)))" by simp
  have w: "(ucast (u16_at m ps) :: DWORD) = of_nat (unat (m ps) + 256 * unat (m (ps + 1)))"
    by (metis of_nat_unat unat_u16)
  show ?case unfolding d get_bytes_Suc
    by (subst add_words.simps) (simp add: ge2(1) w algebra_simps)
qed (simp_all add: add_words.simps)

lemma high_byte: "push_bit 8 (ucast b) AND 0xFF00 = (push_bit 8 (ucast b) :: WORD)" for b :: BYTE
proof -
  have c: "0xFF00 = push_bit 8 (mask 8 :: WORD)" by (simp add: mask_eq_exp_minus_1 push_bit_eq_mult)
  show ?thesis unfolding c by (rule bit_word_eqI) (auto simp: bit_simps dest: bit_imp_le_length)
qed

lemma end_bytes:
  fixes b c :: BYTE
  shows "(ucast (push_bit 8 (ucast b) OR ucast c :: WORD) :: DWORD) = of_nat (256 * unat b + unat c)"
proof -
  have "unat (push_bit 8 (ucast b) OR ucast c :: WORD) = 256 * unat b + unat c"
    using byte_lt [of b] byte_lt [of c] by (simp add: unat_pair unat_widen)
  then show ?thesis by (metis of_nat_unat)
qed

lemma tail_sum:
  fixes b :: BYTE
  shows "(case add_words m pb n 0 of (ps, acc, k) \<Rightarrow>
      acc + ucast (if k > 0 then (push_bit 8 (ucast b) AND 0xFF00) OR ucast (m ps) else push_bit 8 (ucast b) :: WORD)) =
    (of_nat (256 * unat b + weigh False (get_bytes m pb n)) :: DWORD)"
proof -
  let ?k = "2 * (n div 2)"
  have "get_bytes m pb n = take ?k (get_bytes m pb n) @ drop ?k (get_bytes m pb n)" by simp
  also have "\<dots> = get_bytes m pb ?k @ get_bytes m (pb + of_nat ?k) (n mod 2)"
    by (simp only: take_get_bytes drop_get_bytes) (simp add: take_get_bytes minus_mult_div_eq_mod)
  finally have g: "get_bytes m pb n = get_bytes m pb ?k @ get_bytes m (pb + of_nat ?k) (n mod 2)" .
  have w: "weigh False (get_bytes m pb n) = weigh False (get_bytes m pb ?k) + weigh False (get_bytes m (pb + of_nat ?k) (n mod 2))"
    unfolding g weigh_append by simp
  show ?thesis
  proof (cases "n mod 2 = 0")
    case True
    have "(ucast (push_bit 8 (ucast b) :: WORD) :: DWORD) = of_nat (256 * unat b)" using end_bytes [of b 0] by simp
    then show ?thesis using True w by (simp add: add_words_ok add.commute)
  next
    case False
    then have one: "n mod 2 = Suc 0" by linarith
    then have "get_bytes m (pb + of_nat ?k) (n mod 2) = [m (pb + of_nat ?k)]" unfolding one by (simp add: get_bytes_Suc)
    then show ?thesis using one w by (simp add: add_words_ok high_byte end_bytes del: of_nat_mult)
  qed
qed

lemma chksum_ok:
  assumes "n \<le> 0x20000"
  shows "unat (lwip_standard_chksum m d n) = norm (weigh False (get_bytes m d n))"
proof -
  define b where "b = (if d AND 1 = 1 \<and> n > 0 then m d else 0)"
  define pb where "pb = (if d AND 1 = 1 \<and> n > 0 then d + 1 else d)"
  define k where "k = (if d AND 1 = 1 \<and> n > 0 then n - 1 else n)"
  define hi where "hi \<longleftrightarrow> d AND 1 = 1"
  have "get_bytes m d n = (if d AND 1 = 1 \<and> n > 0 then m d # get_bytes m (d + 1) (n - 1) else get_bytes m d n)"
    by (cases n) (simp_all add: get_bytes_Suc)
  then have w: "256 * unat b + weigh False (get_bytes m pb k) = weigh hi (get_bytes m d n)"
    by (cases "n = 0") (auto simp: b_def pb_def k_def hi_def)
  have "weigh hi (get_bytes m d n) \<le> 65535 * ((n + 1) div 2)" using weigh_le [of hi "get_bytes m d n"] by simp
  moreover have "65535 * ((n + 1) div 2) \<le> 65535 * 65536" using assms by (intro mult_le_mono2) linarith
  ultimately have lt: "weigh hi (get_bytes m d n) < 2 ^ 32" by simp
  define acc where "acc = FOLD_U32T (FOLD_U32T (of_nat (weigh hi (get_bytes m d n))))"
  have acc: "unat acc = norm (weigh hi (get_bytes m d n))" unfolding acc_def FOLD_twice using lt by (simp add: unat_word)
  have "lwip_standard_chksum m d n = ucast (if hi then SWAP_BYTES_IN_WORD acc else acc)"
    unfolding acc_def w [symmetric] tail_sum [where m = m and pb = pb and n = k and b = b, symmetric]
    by (simp add: lwip_standard_chksum_def b_def pb_def k_def hi_def Let_def split_def if_distrib [where f = FOLD_U32T])
  then show ?thesis using acc SWAP_weigh [OF acc] norm_le [of "weigh False (get_bytes m d n)"]
    by (cases hi) (simp_all add: unat_narrow)
qed

section \<open>A chain\<close>

text \<open>Between two buffers the sum stands with its bytes exchanged when an odd number of bytes has been added.\<close>

lemma chk_step:
  assumes "unat acc = norm (weigh sw bs)" "sw = odd (length bs)" "n \<le> 0x20000"
  shows "unat (FOLD_U32T (acc + ucast (lwip_standard_chksum m d n))) = norm (weigh sw (bs @ get_bytes m d n))"
proof -
  let ?c = "get_bytes m d n"
  have u: "unat (acc + ucast (lwip_standard_chksum m d n)) = norm (weigh sw bs) + norm (weigh False ?c)"
    using assms(1) chksum_ok [OF assms(3), of m d] norm_le [of "weigh sw bs"] norm_le [of "weigh False ?c"]
    by (simp add: unat_add_lem [THEN iffD1] unat_widen)
  have "unat (FOLD_U32T (acc + ucast (lwip_standard_chksum m d n))) = norm (norm (weigh sw bs) + norm (weigh False ?c))"
    using FOLD_once [of "acc + ucast (lwip_standard_chksum m d n)"] norm_le [of "weigh sw bs"] norm_le [of "weigh False ?c"] unfolding u by simp
  also have "\<dots> = norm (weigh sw bs + weigh False ?c)" using norm_add by (metis add.commute)
  also have "weigh sw bs + weigh False ?c = weigh sw (bs @ ?c)" using assms(2) by (simp add: weigh_append)
  finally show ?thesis .
qed

lemma odd_plen: "plen b mod 2 \<noteq> 0 \<longleftrightarrow> odd (unat (plen b))"
proof -
  have "unat (plen b mod 2) = unat (plen b) mod 2" by (simp add: unat_mod)
  then show ?thesis by (metis odd_iff_mod_2_eq_one parity_cases unat_eq_zero zero_neq_one)
qed

lemma chain_loop_ok:
  assumes "chained (link s) p ps" "unat acc = norm (weigh sw bs)" "sw = odd (length bs)"
  shows "\<exists>acc'. chain_loop p acc sw s = Some (acc', odd (length (bs @ contents s ps))) \<and>
    unat acc' = norm (weigh (odd (length (bs @ contents s ps))) (bs @ contents s ps))"
  using assms
proof (induction ps arbitrary: p acc sw bs)
  case Nil
  then show ?case by (simp add: chain_loop.simps)
next
  case (Cons q qs)
  let ?c = "content s q" and ?n = "unat (plen (pkts s q))"
  have c: "chained (link s) (link s q) qs" "p = q" "q \<noteq> 0" using Cons.prems(1) by auto
  define sw' where "sw' \<longleftrightarrow> sw \<noteq> odd ?n"
  define a1 where "a1 = FOLD_U32T (acc + ucast (lwip_standard_chksum (bytes s) (payload (pkts s q)) ?n))"
  have "?n < 2 ^ 16" using unsigned_less [of "plen (pkts s q)", where 'a = nat] by simp
  then have a1: "unat a1 = norm (weigh sw (bs @ ?c))" using chk_step [OF Cons.prems(2,3)] by (simp add: a1_def content_get)
  have a2: "unat (if odd ?n then SWAP_BYTES_IN_WORD a1 else a1) = norm (weigh sw' (bs @ ?c))"
    using a1 SWAP_weigh [OF a1] by (simp add: sw'_def)
  have "sw' = odd (length (bs @ ?c))" using Cons.prems(3) by (simp add: sw'_def content_get)
  note IH = Cons.IH [OF c(1) a2 this]
  have "chain_loop p acc sw s = chain_loop (link s q) (if odd ?n then SWAP_BYTES_IN_WORD a1 else a1) sw' s"
    using c(2,3) by (subst chain_loop.simps) (simp only: odd_plen Let_def a1_def sw'_def split: if_split, simp)
  then show ?case using IH by simp
qed

lemma narrow_not: "ucast (NOT (acc AND 0xFFFF)) = NOT (of_nat (unat acc) :: WORD)" for acc :: DWORD
proof -
  have "ucast (NOT (acc AND mask 16)) = NOT (ucast acc :: WORD)" by (rule bit_word_eqI) (simp add: bit_simps)
  then show ?thesis by (simp add: mask_eq_exp_minus_1 of_nat_unat)
qed

lemma chain_sum:
  assumes "chained (link s) p ps"
  shows "inet_chksum_pbuf p s = Some (NOT (of_nat (norm (weigh False (contents s ps)))))"
proof -
  obtain acc sw where C: "chain_loop p 0 False s = Some (acc, sw)" "unat acc = norm (weigh sw (contents s ps))"
    using chain_loop_ok [OF assms, of 0 False "[]"] by auto
  have "unat (if sw then SWAP_BYTES_IN_WORD acc else acc) = norm (weigh False (contents s ps))"
    using C(2) SWAP_weigh [OF C(2)] by simp
  then show ?thesis by (simp only: inet_chksum_pbuf_def C(1) bind.bind_lunit prod.case Let_def narrow_not)
qed

lemma block_sum: "inet_chksum m d n = NOT (of_nat (norm (weigh False (get_bytes m d (unat n)))))"
proof -
  have "unat n < 2 ^ 16" using unsigned_less [of n, where 'a = nat] by simp
  then have "unat (lwip_standard_chksum m d (unat n)) = norm (weigh False (get_bytes m d (unat n)))" by (intro chksum_ok) simp
  then have "of_nat (norm (weigh False (get_bytes m d (unat n)))) = lwip_standard_chksum m d (unat n)" by (metis of_nat_unat ucast_id)
  then show ?thesis by (simp add: inet_chksum_def)
qed

text \<open>In network byte order the sum is the one of RFC 1071.\<close>

lemma htons_not: "htons (NOT w) = NOT (htons w)"
proof -
  have c: "0xFF00 = push_bit 8 (mask 8 :: WORD)" "0xFF = (mask 8 :: WORD)" by (simp_all add: mask_eq_exp_minus_1 push_bit_eq_mult)
  show ?thesis unfolding htons_def c by (rule bit_word_eqI) (auto simp: bit_simps)
qed

lemma htons_norm: "htons (of_nat (norm (weigh hi bs))) = of_nat (norm (weigh (\<not> hi) bs))"
proof -
  have u: "unat (of_nat (norm n) :: WORD) = norm n" for n using norm_le [of n] by (simp add: unat_of_nat)
  have "unat (htons (of_nat (norm (weigh hi bs)))) = norm (256 * norm (weigh hi bs))"
    unfolding unat_htons u by (rule swap_norm) (rule norm_le)
  also have "\<dots> = norm (weigh (\<not> hi) bs)" by (simp add: norm_times norm_swap)
  finally show ?thesis by (simp add: word_unat_eq_iff u)
qed

lemma network_order: "htons (NOT (of_nat (norm (weigh False bs)))) = NOT (of_nat (rfc1071 bs))"
  by (simp add: htons_not htons_norm rfc1071_norm)

text \<open>C18: the routines that work from any address in the byte order of the machine, over a chain whose buffers may
  have odd lengths, compute the checksum that RFC 1071 defines over the bytes of the chain, and so does the one over a block.\<close>

theorem checksum_is_rfc1071:
  assumes "chained (link s) p ps"
  shows "(\<exists>c. inet_chksum_pbuf p s = Some c \<and> htons c = NOT (of_nat (rfc1071 (contents s ps)))) \<and>
    htons (inet_chksum m d n) = NOT (of_nat (rfc1071 (get_bytes m d (unat n))))"
  by (simp_all add: chain_sum [OF assms] block_sum network_order)

section \<open>The pseudo header\<close>

definition addr_bytes :: "DWORD \<Rightarrow> BYTE list" where
  "addr_bytes a = [ucast a, ucast (drop_bit 8 a), ucast (drop_bit 16 a), ucast (drop_bit 24 a)]"

definition pseudo_header :: "DWORD \<Rightarrow> DWORD \<Rightarrow> BYTE \<Rightarrow> WORD \<Rightarrow> BYTE list" where
  "pseudo_header src dest proto n = addr_bytes src @ addr_bytes dest @ [0, proto, ucast (drop_bit 8 n), ucast n]"

lemma unat_low: "unat (a AND 0xFFFF) = unat a mod 0x10000" for a :: DWORD
proof -
  have "a AND 0xFFFF = a AND mask 16" by (simp add: mask_eq_exp_minus_1)
  then show ?thesis by (simp only: unat_and_mask) simp
qed

lemma unat_drop: "unat (drop_bit k a) = unat a div 2 ^ k" for a :: "'a::len word"
  by (simp only: unat_drop_bit_eq drop_bit_eq_div [of k "unat a"])

lemma weigh_addr: "weigh False (addr_bytes a) = unat (a AND 0xFFFF) + unat (drop_bit 16 a AND 0xFFFF)"
proof -
  have "x mod 0x10000 = x mod 256 + 256 * (x div 256 mod 256)" for x :: nat
    using mod_mult2_eq [of x 256 256] by simp
  from this [of "unat a"] this [of "unat a div 2 ^ 16"] show ?thesis
    by (simp add: addr_bytes_def unat_low unat_drop unat_narrow div_mult2_eq [symmetric])
qed

lemma length_addr: "length (addr_bytes a) = 4"
  by (simp add: addr_bytes_def)

lemma weigh_tail: "weigh False [0, proto, ucast (drop_bit 8 n), ucast n] = unat (htons (ucast proto)) + unat (htons n)" for n :: WORD
proof -
  have "unat n div 256 < 256" using unsigned_less [of n, where 'a = nat] by (simp add: less_mult_imp_div_less)
  then show ?thesis using byte_lt [of proto] by (simp add: unat_htons unat_narrow unat_widen unat_drop)
qed

lemma pseudo_sum_ok:
  assumes "unat acc = norm (weigh False bs)"
  shows "pseudo_sum acc src dest proto n = NOT (of_nat (norm (weigh False (pseudo_header src dest proto n @ bs))))"
proof -
  let ?w = "\<lambda>x :: DWORD. unat (x AND 0xFFFF)"
  define k where "k = norm (weigh False bs) + (?w src + ?w (drop_bit 16 src) + (?w dest + ?w (drop_bit 16 dest)) +
    (unat (htons (ucast proto)) + unat (htons n)))"
  define t where "t = acc + (src AND 0xFFFF) + (drop_bit 16 src AND 0xFFFF) + (dest AND 0xFFFF) + (drop_bit 16 dest AND 0xFFFF) +
    ucast (htons (ucast proto)) + ucast (htons n)"
  have w: "?w x < 0x10000" for x by (simp add: unat_low)
  have h: "unat (x :: WORD) < 0x10000" for x using unsigned_less [of x, where 'a = nat] by simp
  have "t = of_nat k" unfolding t_def k_def by (simp add: assms [symmetric] of_nat_unat)
  moreover have "k < 0x80000"
    using w [of src] w [of "drop_bit 16 src"] w [of dest] w [of "drop_bit 16 dest"] h [of "htons (ucast proto)"] h [of "htons n"]
      norm_le [of "weigh False bs"] unfolding k_def by linarith
  ultimately have t: "unat t = k" by (simp add: unat_word del: of_nat_mult)
  have "weigh False (pseudo_header src dest proto n @ bs) = k - norm (weigh False bs) + weigh False bs"
    unfolding pseudo_header_def weigh_append length_addr length_append length_Cons list.size(3)
    by (simp only: weigh_addr weigh_tail k_def) (simp add: weigh_addr weigh_tail del: weigh.simps)
  moreover have "k = norm (weigh False bs) + (k - norm (weigh False bs))" unfolding k_def by simp
  ultimately have "norm (weigh False (pseudo_header src dest proto n @ bs)) = norm k" by (metis norm_add add.commute)
  moreover have "pseudo_sum acc src dest proto n = ucast (NOT (FOLD_U32T (FOLD_U32T t) AND 0xFFFF))"
    by (simp only: pseudo_sum_def Let_def t_def)
  ultimately show ?thesis by (simp only: narrow_not FOLD_twice t)
qed

lemma part_loop_ok:
  assumes "chained (link s) p ps" "unat acc = norm (weigh sw bs)" "sw = odd (length bs)"
  shows "\<exists>acc' sw'. part_loop p k acc sw ok s =
      Some (acc', sw', ok \<and> (p = 0 \<or> unat k - unat (plen (pkts s p)) < 0x7FFF)) \<and>
    unat acc' = norm (weigh sw' (bs @ take (unat k) (contents s ps)))"
  using assms
proof (induction ps arbitrary: p acc sw bs k ok)
  case Nil
  then show ?case by (simp add: part_loop.simps)
next
  case (Cons q qs)
  show ?case
  proof (cases "k = 0")
    case True
    then show ?thesis using Cons.prems(2) by (simp add: part_loop.simps)
  next
    case False
    let ?c = "content s q" and ?n = "unat (plen (pkts s q))"
    have c: "chained (link s) (link s q) qs" "p = q" "q \<noteq> 0" using Cons.prems(1) by auto
    define j where "j = (if plen (pkts s q) > k then k else plen (pkts s q))"
    have j: "unat j = min (unat k) ?n" by (simp add: j_def min_def word_less_nat_alt)
    define sw' where "sw' \<longleftrightarrow> sw \<noteq> odd ?n"
    define a1 where "a1 = FOLD_U32T (acc + ucast (lwip_standard_chksum (bytes s) (payload (pkts s q)) (unat j)))"
    have "unat j < 2 ^ 16" using unsigned_less [of j, where 'a = nat] by simp
    moreover have "get_bytes (bytes s) (payload (pkts s q)) (unat j) = take (unat k) ?c"
      by (simp add: content_get j min_def take_get_bytes)
    ultimately have a1: "unat a1 = norm (weigh sw (bs @ take (unat k) ?c))"
      using chk_step [OF Cons.prems(2,3), of "unat j"] by (simp add: a1_def)
    have a2: "unat (if odd ?n then SWAP_BYTES_IN_WORD a1 else a1) = norm (weigh sw' (bs @ take (unat k) ?c))"
      using a1 SWAP_weigh [OF a1] by (simp add: sw'_def)
    let ?ok = "ok \<and> k - j < 0x7FFF"
    have left: "unat (k - j) = unat k - ?n" using j by (simp add: unat_sub word_le_nat_alt min_def)
    then have ok: "?ok = (ok \<and> (p = 0 \<or> unat k - unat (plen (pkts s p)) < 0x7FFF))"
      using c(2,3) by (simp add: word_less_nat_alt)
    have ok2: "(?ok \<and> (r = 0 \<or> unat (k - j) - m < 0x7FFF)) = ?ok" for r :: DWORD and m
      by (auto simp: word_less_nat_alt)
    have step: "part_loop p k acc sw ok s = part_loop (link s q) (k - j) (if odd ?n then SWAP_BYTES_IN_WORD a1 else a1) sw' ?ok s"
      using c(2,3) False by (subst part_loop.simps)
        (simp only: odd_plen Let_def a1_def sw'_def j_def word_gt_0 split: if_split, simp)
    show ?thesis
    proof (cases "?n \<le> unat k")
      case True
      then have full: "take (unat k) ?c = ?c" "unat (k - j) = unat k - ?n" "take (unat k) (contents s (q # qs)) = ?c @ take (unat (k - j)) (contents s qs)"
        using j by (simp_all add: content_get unat_sub word_le_nat_alt)
      have "sw' = odd (length (bs @ ?c))" using Cons.prems(3) by (simp add: sw'_def content_get)
      from Cons.IH [OF c(1) a2 [unfolded full(1)] this, of "k - j" ?ok, unfolded ok2] show ?thesis
        unfolding step full(3) ok by simp
    next
      case False
      then have "k - j = 0" using j by (simp add: word_unat_eq_iff unat_sub word_le_nat_alt)
      moreover have "take (unat k) (contents s (q # qs)) = take (unat k) ?c" using False by (simp add: content_get)
      ultimately show ?thesis using a2 ok unfolding step by (simp add: part_loop.simps del: contents_simps)
    qed
  qed
qed

text \<open>C36: the checksum of UDP and TCP is the one of RFC 1071 over the pseudo header and the bytes of the chain; the partial
  one covers the first \<open>k\<close> bytes of the chain, also when the last of them lies inside of a buffer.  That is so for
  every \<open>k\<close>, but where \<^verbatim>\<open>0x7fff\<close> or more of the bytes asked for lie behind the first buffer, and only there,
  the assertion \<^verbatim>\<open>"delete me"\<close> in the loop fails, although the checksum is right.\<close>

theorem pseudo_checksum_is_rfc1071:
  assumes "chained (link s) p ps"
  shows "(\<exists>c. inet_chksum_pseudo p src dest proto n s = Some c \<and>
      htons c = NOT (of_nat (rfc1071 (pseudo_header src dest proto n @ contents s ps)))) \<and>
    (\<exists>c asserted. inet_chksum_pseudo_partial p src dest proto n k s = Some (c, asserted) \<and>
      htons c = NOT (of_nat (rfc1071 (pseudo_header src dest proto n @ take (unat k) (contents s ps)))) \<and>
      (asserted \<longleftrightarrow> ps = [] \<or> unat k - unat (plen (pkts s (hd ps))) < 0x7FFF))"
proof
  have even: "unat (if sw then SWAP_BYTES_IN_WORD acc else acc) = norm (weigh False bs)" if "unat acc = norm (weigh sw bs)" for acc sw bs
    using that SWAP_weigh [OF that] by simp
  obtain acc sw where C: "chain_loop p 0 False s = Some (acc, sw)" "unat acc = norm (weigh sw (contents s ps))"
    using chain_loop_ok [OF assms, of 0 False "[]"] by auto
  show "\<exists>c. inet_chksum_pseudo p src dest proto n s = Some c \<and>
      htons c = NOT (of_nat (rfc1071 (pseudo_header src dest proto n @ contents s ps)))"
    by (simp only: inet_chksum_pseudo_def C(1) bind.bind_lunit prod.case pseudo_sum_ok [OF even [OF C(2)]] option.inject) (simp add: network_order)
  have hd: "p = 0 \<longleftrightarrow> ps = []" "ps \<noteq> [] \<Longrightarrow> hd ps = p" using assms by (cases ps; auto)+
  obtain acc sw where P: "part_loop p k 0 False True s = Some (acc, sw, p = 0 \<or> unat k - unat (plen (pkts s p)) < 0x7FFF)" "unat acc = norm (weigh sw (take (unat k) (contents s ps)))"
    using part_loop_ok [OF assms, of 0 False "[]" k True] by auto
  show "\<exists>c asserted. inet_chksum_pseudo_partial p src dest proto n k s = Some (c, asserted) \<and>
      htons c = NOT (of_nat (rfc1071 (pseudo_header src dest proto n @ take (unat k) (contents s ps)))) \<and>
      (asserted \<longleftrightarrow> ps = [] \<or> unat k - unat (plen (pkts s (hd ps))) < 0x7FFF)"
    by (simp only: inet_chksum_pseudo_partial_def P(1) bind.bind_lunit prod.case pseudo_sum_ok [OF even [OF P(2)]] option.inject)
      (use hd in \<open>auto simp: network_order\<close>)
qed

section \<open>Verification\<close>

lemma weigh_update:
  "i < length bs \<Longrightarrow> weigh hi (bs[i := b]) + weigh (hi \<noteq> odd i) [bs ! i] = weigh hi bs + weigh (hi \<noteq> odd i) [b]"
proof (induction bs arbitrary: hi i)
  case (Cons c bs)
  then show ?case
  proof (cases i)
    case (Suc j)
    have "((\<not> hi) \<noteq> odd j) = (hi \<noteq> odd i)" using Suc by auto
    then show ?thesis using Cons.IH [of j "\<not> hi"] Cons.prems Suc by (simp del: even_Suc)
  qed simp
qed simp

lemma get_bytes_upd: "j < n \<Longrightarrow> n \<le> 2 ^ 32 \<Longrightarrow> get_bytes (m(d + of_nat j := b)) d n = (get_bytes m d n)[j := b]"
proof (rule nth_equalityI)
  fix i assume j: "j < n" "n \<le> 2 ^ 32" and "i < length (get_bytes (m(d + of_nat j := b)) d n)"
  then have i: "i < n" by simp
  have "(of_nat i :: DWORD) = of_nat j \<longleftrightarrow> i = j" using i j by (metis unat_word less_le_trans)
  then show "get_bytes (m(d + of_nat j := b)) d n ! i = (get_bytes m d n)[j := b] ! i"
    using i j by (auto simp: get_bytes_nth nth_list_update)
qed simp

lemma unat_NOT: "unat (NOT x) = 0xFFFF - unat x" for x :: WORD
proof -
  have "NOT x = 0xFFFF - x" by (simp add: not_eq_complement)
  moreover have "x \<le> 0xFFFF" using unsigned_less [of x, where 'a = nat] by (simp add: word_le_nat_alt)
  ultimately show ?thesis by (simp only: unat_sub) simp
qed

lemma sum_is_zero:
  "inet_chksum m d n = 0 \<longleftrightarrow> weigh False (get_bytes m d (unat n)) \<noteq> 0 \<and> weigh False (get_bytes m d (unat n)) mod 0xFFFF = 0"
    (is "_ \<longleftrightarrow> ?w \<noteq> 0 \<and> ?w mod 0xFFFF = 0")
proof -
  have "inet_chksum m d n = 0 \<longleftrightarrow> 0xFFFF - unat (of_nat (norm ?w) :: WORD) = 0"
    unfolding block_sum unat_NOT [symmetric] by (rule unat_eq_zero [symmetric])
  also have "\<dots> \<longleftrightarrow> norm ?w = 0xFFFF" using norm_le [of ?w] by (simp add: unat_of_nat)
  also have "\<dots> \<longleftrightarrow> ?w \<noteq> 0 \<and> ?w mod 0xFFFF = 0"
  proof
    assume n: "norm ?w = 0xFFFF"
    then have "?w mod 0xFFFF = 0" using norm_mod [of ?w] by (metis mod_self)
    moreover have "?w \<noteq> 0" using n by (metis norm_0 zero_neq_numeral)
    ultimately show "?w \<noteq> 0 \<and> ?w mod 0xFFFF = 0" by simp
  next
    assume "?w \<noteq> 0 \<and> ?w mod 0xFFFF = 0"
    then show "norm ?w = 0xFFFF" by (intro norm_unique [symmetric]) simp_all
  qed
  finally show ?thesis .
qed

lemma complement_sum:
  assumes "w \<noteq> 0"
  shows "\<exists>q. w + (0xFFFF - norm w) = (q + 1) * 0xFFFF"
proof -
  obtain v where v: "w = Suc v" using assms by (cases w) auto
  have "v = v div 0xFFFF * 0xFFFF + v mod 0xFFFF" by simp
  then have "w = v div 0xFFFF * 0xFFFF + norm w" unfolding norm_def v by simp
  then obtain q where "w = q * 0xFFFF + norm w" by blast
  then show ?thesis using norm_le [of w] by (intro exI [of _ q]) simp
qed

lemma single_byte:
  assumes "v + weigh hi [a] = w + weigh hi [b]" "w mod 0xFFFF = 0" "a \<noteq> b"
  shows "v mod 0xFFFF \<noteq> 0"
proof
  assume "v mod 0xFFFF = 0"
  then have "(v + weigh hi [a]) mod 0xFFFF = weigh hi [a] mod 0xFFFF" "(w + weigh hi [b]) mod 0xFFFF = weigh hi [b] mod 0xFFFF"
    using assms(2) by (metis add_0 mod_add_left_eq)+
  moreover have "weigh hi [x] < 0xFFFF" for x using byte_lt [of x] by (cases hi) auto
  ultimately have "weigh hi [a] = weigh hi [b]" using assms(1) by (metis mod_less)
  then show False using assms(3) by (cases hi) (auto simp: word_unat_eq_iff)
qed

text \<open>C24: a block whose checksum field, at an even offset, was zero when the checksum was computed and then stored in it, has
  the checksum zero that the receiver looks for, and no longer has it when any one byte is changed.\<close>

theorem checksum_verifies:
  assumes "even k" "k + 2 \<le> unat n" "m (d + of_nat k) = 0" "m (d + of_nat (k + 1)) = 0"
    and m': "m' = (let c = inet_chksum m d n in m(d + of_nat k := ucast c, d + of_nat (k + 1) := ucast (drop_bit 8 c)))"
  shows "inet_chksum m' d n = 0 \<and> (\<forall>j < unat n. \<forall>b. b \<noteq> m' (d + of_nat j) \<longrightarrow> inet_chksum (m'(d + of_nat j := b)) d n \<noteq> 0)"
proof -
  define c where "c = inet_chksum m d n"
  let ?b = "get_bytes m d (unat n)" and ?b' = "get_bytes m' d (unat n)"
  let ?w = "weigh False ?b" and ?w' = "weigh False ?b'"
  have n: "unat n \<le> 2 ^ 32" using unsigned_less [of n, where 'a = nat] by simp
  have b': "?b' = ?b[k := ucast c, k + 1 := ucast (drop_bit 8 c)]"
    using assms(2) n by (simp add: m' c_def [symmetric] Let_def get_bytes_upd del: of_nat_Suc of_nat_add)
  have "weigh False (?b[k := ucast c]) = ?w + unat (ucast c :: BYTE)"
    using weigh_update [of k ?b False "ucast c"] assms by (simp add: get_bytes_nth)
  moreover have "?w' = weigh False (?b[k := ucast c]) + 256 * unat (ucast (drop_bit 8 c) :: BYTE)"
    using weigh_update [of "k + 1" "?b[k := ucast c]" False "ucast (drop_bit 8 c)"] assms unfolding b'
    by (simp add: get_bytes_nth del: of_nat_Suc of_nat_add)
  moreover have "unat (ucast c :: BYTE) + 256 * unat (ucast (drop_bit 8 c) :: BYTE) = unat c"
    using unsigned_less [of c, where 'a = nat] by (simp add: unat_narrow unat_drop less_mult_imp_div_less)
  moreover have "unat c = 0xFFFF - norm ?w"
    using norm_le [of ?w] by (simp add: c_def block_sum unat_NOT unat_of_nat)
  ultimately have w': "?w' = ?w + (0xFFFF - norm ?w)" by linarith
  have z: "?w' \<noteq> 0 \<and> ?w' mod 0xFFFF = 0"
  proof (cases "?w = 0")
    case False
    then obtain q where "?w' = (q + 1) * 0xFFFF" using complement_sum unfolding w' by blast
    then show ?thesis by (metis mod_mult_self2_is_0 mult_is_0 add_is_0 zero_neq_numeral zero_neq_one)
  qed (simp add: w' norm_def)
  have "inet_chksum (m'(d + of_nat j := b)) d n \<noteq> 0" if j: "j < unat n" and b: "b \<noteq> m' (d + of_nat j)" for j b
  proof -
    have "weigh False (?b'[j := b]) + weigh (False \<noteq> odd j) [m' (d + of_nat j)] = ?w' + weigh (False \<noteq> odd j) [b]"
      using weigh_update [of j ?b' False b] j by (simp add: get_bytes_nth)
    then have "weigh False (?b'[j := b]) mod 0xFFFF \<noteq> 0" using z b by (intro single_byte [where w = ?w' and b = b]) auto
    then show ?thesis unfolding sum_is_zero get_bytes_upd [OF j n] by simp
  qed
  then show ?thesis using z by (simp add: sum_is_zero)
qed

section \<open>Samples\<close>

lemma rfc1071_samples: "rfc1071 [0x61, 0x61, 0x62] = 0xC361"
  "rfc1071 (pseudo_header 0x100007F 0x200007F 17 3 @ [0x61, 0x61]) = 0x5F79"
  by (simp_all add: rfc1071_def ones_add_def pseudo_header_def addr_bytes_def)

lemma checksum_is_rfc1071_witness:
  "\<exists>c. inet_chksum_pbuf 0x1000 sample_chain = Some c \<and> htons c = NOT 0xC361"
  using checksum_is_rfc1071 [OF sample_chain_ok(1), unfolded sample_chain_ok(3), where m = "\<lambda>_. 0" and d = 0 and n = 0]
  by (simp add: rfc1071_samples)

lemma pseudo_checksum_is_rfc1071_witness:
  "\<exists>c. inet_chksum_pseudo_partial 0x1000 0x100007F 0x200007F 17 3 2 sample_chain = Some (c, True) \<and> htons c = NOT 0x5F79"
  using pseudo_checksum_is_rfc1071 [OF sample_chain_ok(1), where src = "0x100007F" and dest = "0x200007F" and proto = 17 and n = 3 and k = 2,
      unfolded sample_chain_ok(3)] by (auto simp: rfc1071_samples)

lemma checksum_verifies_witness:
  "let m = (\<lambda>a. if a = 0x10 then 0x45 else 0); c = inet_chksum m 0x10 4 in inet_chksum (m(0x12 := ucast c, 0x13 := ucast (drop_bit 8 c))) 0x10 4 = 0"
  using checksum_verifies [where k = 2 and n = 4 and d = "0x10" and m = "\<lambda>a. if a = 0x10 then 0x45 else 0", OF _ _ _ _ refl] by (simp add: Let_def)

end
