(* ===== verification/Chip.thy ===== *)
theory Chip
  imports Bus
begin

unbundle bit_operations_syntax

text \<open>
  The assembly drivers over the registers of the chip: UART, GPIO, timer and clock, interrupt controller, the clocks
  and pins of the Ethernet switch (\<^verbatim>\<open>drivers/uart.s\<close>, \<^verbatim>\<open>gpio.s\<close>, \<^verbatim>\<open>tim.s\<close>, \<^verbatim>\<open>irq.s\<close>, \<^verbatim>\<open>mclk.s\<close>, \<^verbatim>\<open>eth.s\<close>).
  A routine is a function on the bus; the variables it shares with C are a record.  Loops that wait for the hardware
  are partial.  Loops that only count down to kill time have no effect and are left out.
\<close>

section \<open>The variables\<close>

record chip_vars =
  uart0_irq_count :: DWORD
  uart0_rbuf :: DWORD
  uart0_tbuf :: DWORD
  gpio_irq_count :: DWORD
  rtc_irq_count :: DWORD
  rtc_time :: "DWORD list"  \<comment> \<open>\<^verbatim>\<open>sec\<close>, \<^verbatim>\<open>min\<close>, \<^verbatim>\<open>hour\<close>, \<^verbatim>\<open>day\<close>, \<^verbatim>\<open>month\<close>, \<^verbatim>\<open>year\<close>\<close>

section \<open>UART\<close>

abbreviation SOC_UART_0_REGS :: DWORD where "SOC_UART_0_REGS \<equiv> 0x44E09000"
abbreviation (input) UART_RHR :: DWORD where "UART_RHR \<equiv> 0"
abbreviation (input) UART_THR :: DWORD where "UART_THR \<equiv> 0"
abbreviation UART_IER :: DWORD where "UART_IER \<equiv> 4"
abbreviation UART_IIR :: DWORD where "UART_IIR \<equiv> 8"
abbreviation UART_LCR :: DWORD where "UART_LCR \<equiv> 0xC"
abbreviation UART_LSR :: DWORD where "UART_LSR \<equiv> 0x14"

definition uart0_init :: "'s bus \<Rightarrow> 's \<Rightarrow> (DWORD \<times> 's) option" where
  "uart0_init B s =
     (let r = SOC_UART_0_REGS in
      Option.bind (wait_set B (r + 0x58) 1 (wr B (r + 0x54) 2 s)) (\<lambda>s.
        let s = wr_list B [(r + 0x54, 8), (r + UART_LCR, 0x83), (r, 0x1A), (r + 8, 0x10), (r + 8, 0x57), (r + 8, 0), (r + 0x20, 0)] s;
            s = reg_and B (r + UART_LCR) (NOT 0x80) s
        in Some (0, wr_list B [(r + 0x40, 0xC8), (r + UART_IER, 1)] s)))"

definition uart0_isr :: "'s bus \<Rightarrow> chip_vars \<times> 's \<Rightarrow> chip_vars \<times> 's" where
  "uart0_isr B vs =
     (case vs of (v, s) \<Rightarrow>
      case rd B (SOC_UART_0_REGS + UART_IIR) s of (iir, s) \<Rightarrow>
      let s = wr B (SOC_UART_0_REGS + UART_IER) 0 s;
          it = iir AND 0x3E;
          (v, s) = (if it = 4 then case rd B (SOC_UART_0_REGS + UART_RHR) s of (c, s) \<Rightarrow> (v\<lparr>uart0_rbuf := c\<rparr>, s)
                    else if it = 2 then (v, wr B (SOC_UART_0_REGS + UART_THR) (uart0_tbuf v) s)
                    else (v, s));
          v = v\<lparr>uart0_irq_count := uart0_irq_count v + 1\<rparr>
      in (v, wr B (SOC_UART_0_REGS + UART_IER) 1 s))"

definition uart_txi :: "'s bus \<Rightarrow> DWORD \<Rightarrow> 's \<Rightarrow> 's" where
  "uart_txi B r s = wr B (r + UART_IER) 3 s"

definition uart_rx :: "'s bus \<Rightarrow> DWORD \<Rightarrow> 's \<Rightarrow> (DWORD \<times> 's) option" where
  "uart_rx B r s = Option.bind (wait_set B (r + UART_LSR) 1 s) (\<lambda>s. Some (rd B r s))"

definition uart_tx :: "'s bus \<Rightarrow> DWORD \<Rightarrow> DWORD \<Rightarrow> 's \<Rightarrow> 's option" where
  "uart_tx B r c s = Option.bind (wait_set B (r + UART_LSR) 0x20 s) (\<lambda>s. Some (wr B r c s))"

text \<open>The character of a half-byte: \<^verbatim>\<open>addlt\<close> 0x30, \<^verbatim>\<open>addge\<close> 0x37.\<close>

definition hex_char :: "DWORD \<Rightarrow> DWORD" where
  "hex_char d = (if d <s 0xA then d + 0x30 else d + 0x37)"

fun hex_loop :: "'s bus \<Rightarrow> nat \<Rightarrow> DWORD \<Rightarrow> 's \<Rightarrow> 's option" where
  "hex_loop B 0 d s = Some s"
| "hex_loop B (Suc n) d s =
     (let d = word_rotr 28 d in
      Option.bind (uart_tx B SOC_UART_0_REGS (hex_char (d AND 0xF)) s) (\<lambda>s. hex_loop B n d s))"

definition hexprint :: "'s bus \<Rightarrow> DWORD \<Rightarrow> 's \<Rightarrow> 's option" where
  "hexprint B d s = Option.bind (hex_loop B 8 d s) (\<lambda>s. uart_tx B SOC_UART_0_REGS 0x0A s)"

definition hexprintbyte :: "'s bus \<Rightarrow> DWORD \<Rightarrow> 's \<Rightarrow> 's option" where
  "hexprintbyte B d s =
     Option.bind (uart_tx B SOC_UART_0_REGS (hex_char (word_rotr 4 d AND 0xF)) s) (\<lambda>s.
       uart_tx B SOC_UART_0_REGS (hex_char (d AND 0xF)) s)"

section \<open>GPIO\<close>

abbreviation SOC_GPIO_1_REGS :: DWORD where "SOC_GPIO_1_REGS \<equiv> 0x4804C000"
abbreviation SOC_GPIO_2_REGS :: DWORD where "SOC_GPIO_2_REGS \<equiv> 0x481AC000"
abbreviation GPIO_OE :: DWORD where "GPIO_OE \<equiv> 0x134"
abbreviation GPIO_DATAIN :: DWORD where "GPIO_DATAIN \<equiv> 0x138"
abbreviation GPIO_CLEARDATAOUT :: DWORD where "GPIO_CLEARDATAOUT \<equiv> 0x190"
abbreviation GPIO_SETDATAOUT :: DWORD where "GPIO_SETDATAOUT \<equiv> 0x194"

definition gpio_init :: "'s bus \<Rightarrow> DWORD \<Rightarrow> DWORD \<Rightarrow> 's \<Rightarrow> (DWORD \<times> 's) option" where
  "gpio_init B r pins s =
     (let s = wr_list B [(0x44E000AC, 0x40002), (0x44E000B0, 0x40002), (r + GPIO_OE, NOT pins)] s;
          g = SOC_GPIO_2_REGS; s = wr B (g + 0x10) 2 s
      in Option.bind (wait_set B (g + 0x114) 1 s) (\<lambda>s.
        Some (0, wr_list B [(g + 0x10, 0x10), (g + 0x130, 0), (g + GPIO_OE, 0x100), (g + 0x34, 0x100), (g + 0x150, 0x100),
          (g + 0x148, 0x100), (g + 0x14C, 0x100), (g + 0x154, 0x10)] s)))"

definition gpio_on :: "'s bus \<Rightarrow> DWORD \<Rightarrow> DWORD \<Rightarrow> 's \<Rightarrow> 's" where
  "gpio_on B r pins s = wr B (r + GPIO_SETDATAOUT) pins s"

definition gpio_off :: "'s bus \<Rightarrow> DWORD \<Rightarrow> DWORD \<Rightarrow> 's \<Rightarrow> 's" where
  "gpio_off B r pins s = wr B (r + GPIO_CLEARDATAOUT) pins s"

definition gpio_read :: "'s bus \<Rightarrow> DWORD \<Rightarrow> 's \<Rightarrow> DWORD \<times> 's" where
  "gpio_read B r s = rd B (r + GPIO_DATAIN) s"

definition gpio_isr :: "'s bus \<Rightarrow> chip_vars \<times> 's \<Rightarrow> chip_vars \<times> 's" where
  "gpio_isr B vs =
     (case vs of (v, s) \<Rightarrow>
      let s = wr B (SOC_GPIO_2_REGS + 0x2C) 0x100 s in
      case rd B (SOC_GPIO_2_REGS + GPIO_DATAIN) s of (x, s) \<Rightarrow>
      let s = (if x AND 0x100 \<noteq> 0 then wr B (SOC_GPIO_1_REGS + GPIO_CLEARDATAOUT) 0x400000 s
               else wr B (SOC_GPIO_1_REGS + GPIO_SETDATAOUT) 0x400000 s)
      in (v\<lparr>gpio_irq_count := gpio_irq_count v + 1\<rparr>, s))"

text \<open>\<^verbatim>\<open>blink32\<close> shows a word on the four LEDs, the lowest half-byte first, each behind a strobe.\<close>

fun blink_loop :: "'s bus \<Rightarrow> nat \<Rightarrow> DWORD \<Rightarrow> 's \<Rightarrow> 's" where
  "blink_loop B 0 d s = s"
| "blink_loop B (Suc n) d s =
     (let g = SOC_GPIO_1_REGS in
      blink_loop B n (drop_bit 4 d)
        (wr_list B [(g + GPIO_CLEARDATAOUT, 0x1E00000), (g + GPIO_SETDATAOUT, 0x1E00000), (g + GPIO_CLEARDATAOUT, 0x1E00000),
           (g + GPIO_SETDATAOUT, push_bit 21 (d AND 0xF))] s))"

definition blink32 :: "'s bus \<Rightarrow> DWORD \<Rightarrow> 's \<Rightarrow> 's" where
  "blink32 B d s = blink_loop B 8 d s"

section \<open>Clock and timer\<close>

abbreviation CM_PER_BASE :: DWORD where "CM_PER_BASE \<equiv> 0x44E00000"
abbreviation SOC_RTC_0_REGS :: DWORD where "SOC_RTC_0_REGS \<equiv> 0x44E3E000"
abbreviation DMTIMER7 :: DWORD where "DMTIMER7 \<equiv> 0x4804A000"
abbreviation TCLR :: DWORD where "TCLR \<equiv> 0x38"
abbreviation TCRR :: DWORD where "TCRR \<equiv> 0x3C"
abbreviation TWPS :: DWORD where "TWPS \<equiv> 0x48"
abbreviation TSICR :: DWORD where "TSICR \<equiv> 0x54"
abbreviation TIMER_1MS_COUNT :: DWORD where "TIMER_1MS_COUNT \<equiv> 0x5DC0"

definition rtc_init :: "'s bus \<Rightarrow> 's \<Rightarrow> (DWORD \<times> 's) option" where
  "rtc_init B s =
     (let s = wr_list B [(CM_PER_BASE + 0, 2), (CM_PER_BASE + 4, 2), (SOC_RTC_0_REGS + 0x6C, 0x83E70B13),
            (SOC_RTC_0_REGS + 0x70, 0x95A4F1E0), (SOC_RTC_0_REGS + 0x54, 0x48), (SOC_RTC_0_REGS + 0x40, 1)] s
      in Option.bind (wait_clear B (SOC_RTC_0_REGS + 0x44) 1 s) (\<lambda>s. Some (0, wr B (SOC_RTC_0_REGS + 0x48) 4 s)))"

definition rtc_isr :: "'s bus \<Rightarrow> chip_vars \<times> 's \<Rightarrow> chip_vars \<times> 's" where
  "rtc_isr B vs =
     (case vs of (v, s) \<Rightarrow>
      case rd_list B (map ((+) SOC_RTC_0_REGS) [0, 4, 8, 0xC, 0x10, 0x14]) s of (ts, s) \<Rightarrow>
        (v\<lparr>rtc_time := ts, rtc_irq_count := rtc_irq_count v + 1\<rparr>, s))"

definition tim_init :: "'s bus \<Rightarrow> 's \<Rightarrow> (DWORD \<times> 's) option" where
  "tim_init B s =
     Option.bind (wait_set B (CM_PER_BASE + 0x7C) 2 (wr B (CM_PER_BASE + 0x7C) 2 s)) (\<lambda>s.
       Some (0, reg_or B (DMTIMER7 + TSICR) 4 (wr B (DMTIMER7 + TCLR) 3 s)))"

text \<open>The loop that reads the counter: \<^verbatim>\<open>blt\<close> compares signed numbers.\<close>

partial_function (option) count_loop :: "'s bus \<Rightarrow> DWORD \<Rightarrow> 's \<Rightarrow> 's option" where
  "count_loop B ticks s = (case rd B (DMTIMER7 + TCRR) s of (t, s) \<Rightarrow> if t <s ticks then count_loop B ticks s else Some s)"

definition tim_delay :: "'s bus \<Rightarrow> DWORD \<Rightarrow> 's \<Rightarrow> 's option" where
  "tim_delay B msec s =
     (let ticks = msec * TIMER_1MS_COUNT in
      Option.bind (wait_clear B (DMTIMER7 + TWPS) 2 s) (\<lambda>s.
      let s = wr B (DMTIMER7 + TCRR) 0 s in
      Option.bind (wait_clear B (DMTIMER7 + TWPS) 1 s) (\<lambda>s.
      let s = reg_or B (DMTIMER7 + TCLR) 1 s in
      Option.bind (count_loop B ticks s) (\<lambda>s.
      Option.bind (wait_clear B (DMTIMER7 + TWPS) 1 s) (\<lambda>s.
      Some (reg_and B (DMTIMER7 + TCLR) (NOT 1) s))))))"

section \<open>Master clock, Ethernet\<close>

definition mclk_1GHz :: "'s bus \<Rightarrow> 's \<Rightarrow> 's option" where
  "mclk_1GHz B s =
     (case rd B (CM_PER_BASE + 0x490) s of (x, s) \<Rightarrow>
      let s = wr B (CM_PER_BASE + 0x490) ((x AND NOT 7) OR 4) s in
      Option.bind (wait_set B (CM_PER_BASE + 0x45C) 0x100 s) (\<lambda>s.
      let s = wr_list B [(CM_PER_BASE + 0x468, push_bit 8 1000 + 23), (CM_PER_BASE + 0x480, 10), (CM_PER_BASE + 0x484, 8),
                (CM_PER_BASE + 0x4D8, 4)] s in
      case rd B (CM_PER_BASE + 0x490) s of (x, s) \<Rightarrow>
      wait_set B (CM_PER_BASE + 0x45C) 1 (wr B (CM_PER_BASE + 0x490) ((x AND NOT 7) OR 7) s)))"

definition eth_init :: "'s bus \<Rightarrow> 's \<Rightarrow> (DWORD \<times> 's) option" where
  "eth_init B s =
     (let c = 0x44E10000; p = CM_PER_BASE;
          s = wr_list B [(c + 0x910, 0x20), (c + 0x914, 0), (c + 0x918, 0x20), (c + 0x91C, 0), (c + 0x920, 0), (c + 0x924, 0),
                (c + 0x928, 0), (c + 0x92C, 0x20), (c + 0x930, 0x20), (c + 0x934, 0x20), (c + 0x938, 0x20), (c + 0x93C, 0x20),
                (c + 0x940, 0x20), (c + 0x908, 0x20), (c + 0x90C, 0x20), (c + 0x948, 0x30), (c + 0x94C, 0x10), (p + 0x14, 2)] s
      in Option.bind (wait_clear B (p + 0x14) 0x30000 s) (\<lambda>s.
         Option.bind (wait_set B (p + 0x144) 0x10 (wr B (p + 0x144) 2 s)) (\<lambda>s.
         Some (0, wr B (c + 0x650) 0 s))))"

definition read_reg :: "'s bus \<Rightarrow> DWORD \<Rightarrow> 's \<Rightarrow> DWORD \<times> 's" where
  "read_reg B a s = rd B a s"

section \<open>Interrupts\<close>

datatype handler = no_handler | h_dma | h_dma_error | h_gpio | h_eth_rx | h_eth_tx | h_mmc | h_uart | h_rtc

definition irq_vector :: "handler list" where
  "irq_vector = (replicate 128 no_handler)[12 := h_dma, 13 := h_dma_error, 32 := h_gpio, 41 := h_eth_rx, 42 := h_eth_tx,
     64 := h_mmc, 72 := h_uart, 75 := h_rtc]"

definition irq_init :: "'s bus \<Rightarrow> DWORD \<Rightarrow> DWORD \<Rightarrow> DWORD \<times> 's \<Rightarrow> (DWORD \<times> 's) option" where
  "irq_init B und_isr irq_isr ps =
     (case ps of (cpsr, s) \<Rightarrow>
      let r = 0x48200000 in
      Option.bind (wait_set B (r + 0x14) 1 (wr B (r + 0x10) 2 s)) (\<lambda>s.
        Some (cpsr AND NOT 0x80, wr_list B [(r + 0x88, 0x1000), (r + 0x88, 0x2000), (r + 0xA8, 1), (r + 0xA8, 0x200),
          (r + 0xA8, 0x400), (r + 0xC8, 1), (r + 0xC8, 0x100), (r + 0xC8, 0x800), (0x4030CE24, und_isr), (0x4030CE38, irq_isr)] s)))"

text \<open>The service routine jumps through the word at \<open>vector\<close> plus four times the number it reads, if the signed
  comparison with 128 lets it; \<open>jump\<close> is what the code at an address does.  Then it acknowledges.\<close>

definition irq_isr :: "'s bus \<Rightarrow> (DWORD \<Rightarrow> 'v \<times> 's \<Rightarrow> 'v \<times> 's) \<Rightarrow> DWORD \<Rightarrow> 'v \<times> 's \<Rightarrow> 'v \<times> 's" where
  "irq_isr B jump vector vs =
     (case vs of (v, s) \<Rightarrow>
      case rd B (0x48200000 + 0x40) s of (n, s) \<Rightarrow>
      let (v, s) = (if \<not> n <s 0x80 then (v, s)
                    else case rd B (vector + push_bit 2 n) s of (f, s) \<Rightarrow> jump f (v, s))
      in (v, wr B (0x48200000 + 0x48) 1 s))"

definition und_isr :: "'s bus \<Rightarrow> 's \<Rightarrow> 's option" where
  "und_isr B s =
     Option.bind (uart_tx B SOC_UART_0_REGS 0x55 s) (\<lambda>s.
     Option.bind (uart_tx B SOC_UART_0_REGS 0x4E s) (\<lambda>s.
     Option.bind (uart_tx B SOC_UART_0_REGS 0x44 s) (\<lambda>s. uart_tx B SOC_UART_0_REGS 0x0A s)))"

text \<open>The status word of the processor: bit 7 disables interrupts.\<close>

definition IntMasterIRQEnable :: "DWORD \<Rightarrow> DWORD" where "IntMasterIRQEnable cpsr = cpsr AND NOT 0x80"
definition IntMasterIRQDisable :: "DWORD \<Rightarrow> DWORD" where "IntMasterIRQDisable cpsr = cpsr OR 0x80"
definition IntMasterStatusGet :: "DWORD \<Rightarrow> DWORD" where "IntMasterStatusGet cpsr = cpsr AND 0xC0"

text \<open>\<^verbatim>\<open>lwip/ports/cpsw/sys_arch.c\<close>: the status before, and the status after.\<close>

definition sys_arch_protect :: "DWORD \<Rightarrow> BYTE \<times> DWORD" where
  "sys_arch_protect cpsr = (ucast (IntMasterStatusGet cpsr AND 0xFF), IntMasterIRQDisable cpsr)"

definition sys_arch_unprotect :: "BYTE \<Rightarrow> DWORD \<Rightarrow> DWORD" where
  "sys_arch_unprotect lev cpsr = (if lev AND 0x80 = 0 then IntMasterIRQEnable cpsr else cpsr)"

end
