(* ===== verification/ChipRun.thy ===== *)
theory ChipRun
  imports Chip
begin

unbundle bit_operations_syntax

text \<open>
  What the assembly routines do on a chip that behaves: printing a word over a UART whose transmitter becomes
  ready again, waiting on a timer that counts, and the choice of an interrupt handler.
\<close>

section \<open>Printing\<close>

text \<open>A transmitter that becomes ready and sends what is written.\<close>

locale transmitter =
  fixes B :: "'s bus" and sent :: "'s \<Rightarrow> DWORD list"
  assumes ready: "\<exists>s'. wait_set B (SOC_UART_0_REGS + UART_LSR) 0x20 s = Some s' \<and> sent s' = sent s"
    and sends: "sent (wr B SOC_UART_0_REGS c s) = sent s @ [c]"
begin

lemma tx: "\<exists>s'. uart_tx B SOC_UART_0_REGS c s = Some s' \<and> sent s' = sent s @ [c]"
proof -
  obtain s' where "wait_set B (SOC_UART_0_REGS + UART_LSR) 0x20 s = Some s'" "sent s' = sent s" using ready by blast
  then show ?thesis using sends [of c s'] by (simp only: uart_tx_def bind.bind_lunit) simp
qed

end

text \<open>The digits of a number, the highest first.\<close>

definition hex_text :: "nat \<Rightarrow> nat \<Rightarrow> DWORD list" where
  "hex_text k n = map (\<lambda>i. of_char (''0123456789ABCDEF'' ! (n div 16 ^ i mod 16))) (rev [0..<k])"

lemma nat_upto_16: "n < 16 \<Longrightarrow> n \<in> {0, 1, 2, 3, 4, 5, 6, 7, 8, 9, 10, 11, 12, 13, 14, 15 :: nat}"
  by (simp only: insert_iff empty_iff) presburger

lemma hex_char_digit:
  assumes "n < 16"
  shows "hex_char (of_nat n) = of_char (''0123456789ABCDEF'' ! n)"
  using nat_upto_16 [OF assms] by (auto simp: hex_char_def word_sless_alt)

lemma nibble_nat: "d AND 0xF = of_nat (unat d mod 16)" for d :: DWORD
proof -
  have "d AND 0xF = d AND mask 4" by (simp add: mask_eq_exp_minus_1)
  then have "unat (d AND 0xF) = unat d mod 16" by (simp only: unat_and_mask) simp
  then show ?thesis by (metis of_nat_unat ucast_id)
qed

text \<open>Turning right by 28 brings the next nibble down.\<close>

lemma turned:
  fixes d :: DWORD
  assumes "0 < k" "k \<le> 8"
  shows "unat (word_rotr (28 * k) d) mod 16 = unat d div 16 ^ (8 - k) mod 16"
proof -
  have m: "(n + 28 * k) mod 32 = n + 4 * (8 - k)" if "n < 4" for n
  proof -
    have "n + 28 * k = (n + 4 * (8 - k)) + 32 * (k - 1)" using assms by linarith
    then show ?thesis using that assms by (simp only: mod_mult_self2) simp
  qed
  have "take_bit 4 (word_rotr (28 * k) d) = take_bit 4 (drop_bit (4 * (8 - k)) d)"
    by (rule bit_word_eqI) (use m in \<open>auto simp: bit_simps bit_word_rotr_iff add.commute\<close>)
  then have "take_bit 4 (unat (word_rotr (28 * k) d)) = take_bit 4 (unat (drop_bit (4 * (8 - k)) d))"
    by (metis unsigned_take_bit_eq)
  moreover have "unat (drop_bit (4 * (8 - k)) d) = unat d div 16 ^ (8 - k)"
    by (simp only: unat_drop_bit_eq drop_bit_eq_div [of _ "unat d"] power_mult) simp
  ultimately show ?thesis by (simp add: take_bit_eq_mod)
qed

lemma turn_once: "word_rotr 28 (word_rotr (28 * k) d) = word_rotr (28 * Suc k) d" for d :: DWORD
proof (rule bit_word_eqI)
  fix n assume "n < LENGTH(32)"
  moreover have "(28 * k + (n + 28) mod 32) mod 32 = (28 * Suc k + n) mod 32"
    unfolding mod_add_right_eq by (simp add: ac_simps)
  ultimately show "bit (word_rotr 28 (word_rotr (28 * k) d)) n = bit (word_rotr (28 * Suc k) d) n"
    by (simp add: bit_word_rotr_iff ac_simps del: mult_Suc_right)
qed

lemma turn_none: "word_rotr 0 d = d" for d :: DWORD
  by (rule bit_word_eqI) (simp add: bit_word_rotr_iff)

context transmitter
begin

lemma hex_loop_ok:
  "k + n = 8 \<Longrightarrow> \<exists>s'. hex_loop B n (word_rotr (28 * k) d) s = Some s' \<and>
     sent s' = sent s @ map (\<lambda>i. of_char (''0123456789ABCDEF'' ! (unat d div 16 ^ i mod 16))) (rev [0..<n])"
proof (induction n arbitrary: k s)
  case (Suc n)
  let ?d = "word_rotr (28 * Suc k) d"
  have "unat ?d mod 16 = unat d div 16 ^ n mod 16" using turned [of "Suc k" d] Suc.prems by (simp flip: Suc.prems)
  then have h: "hex_char (?d AND 0xF) = of_char (''0123456789ABCDEF'' ! (unat d div 16 ^ n mod 16))"
    by (simp only: nibble_nat) (rule hex_char_digit, simp)
  obtain s1 where s1: "uart_tx B SOC_UART_0_REGS (hex_char (?d AND 0xF)) s = Some s1" "sent s1 = sent s @ [hex_char (?d AND 0xF)]"
    using tx by blast
  show ?case using Suc.IH [of "Suc k" s1] Suc.prems s1
    by (simp add: turn_once h Let_def del: mult_Suc_right)
qed simp

lemma hexprint_ok: "\<exists>s'. hexprint B d s = Some s' \<and> sent s' = sent s @ hex_text 8 (unat d) @ [0x0A]"
proof -
  obtain s1 where "hex_loop B 8 d s = Some s1" "sent s1 = sent s @ hex_text 8 (unat d)"
    using hex_loop_ok [of 0 8 d s] by (auto simp: hex_text_def turn_none)
  moreover obtain s2 where "uart_tx B SOC_UART_0_REGS 0x0A s1 = Some s2" "sent s2 = sent s1 @ [0x0A]" using tx by blast
  ultimately show ?thesis by (simp add: hexprint_def)
qed

end

text \<open>A UART that is busy for some readings of its status after each character.\<close>

record uart =
  busy :: nat
  lag :: "nat \<Rightarrow> nat"
  sent_chars :: "DWORD list"

definition uart_bus :: "uart bus" where
  "uart_bus = \<lparr>rd = \<lambda>a s. if a = SOC_UART_0_REGS + UART_LSR then (if busy s = 0 then 0x60 else 0, s\<lparr>busy := busy s - 1\<rparr>) else (0, s),
     wr = \<lambda>a x s. if a = SOC_UART_0_REGS then s\<lparr>sent_chars := sent_chars s @ [x], busy := lag s (length (sent_chars s))\<rparr> else s\<rparr>"

lemma uart_ready: "\<exists>s'. wait_set uart_bus (SOC_UART_0_REGS + UART_LSR) 0x20 s = Some s' \<and> sent_chars s' = sent_chars s"
proof (induction "busy s" arbitrary: s)
  case 0
  then show ?case by (subst wait_set.simps) (simp add: uart_bus_def)
next
  case (Suc n)
  have "wait_set uart_bus (SOC_UART_0_REGS + UART_LSR) 0x20 s = wait_set uart_bus (SOC_UART_0_REGS + UART_LSR) 0x20 (s\<lparr>busy := n\<rparr>)"
    using Suc.hyps(2) [symmetric] by (subst wait_set.simps) (simp add: uart_bus_def)
  then show ?case using Suc.hyps(1) [of "s\<lparr>busy := n\<rparr>"] by simp
qed

interpretation uart0: transmitter uart_bus sent_chars
  by unfold_locales (rule uart_ready, simp add: uart_bus_def)

text \<open>C39: \<^verbatim>\<open>hexprint\<close> returns, however long the UART makes it wait, and has sent the eight hexadecimal digits of the word, the
  highest first, and a line feed.\<close>

theorem hexprint_digits: "\<exists>s'. hexprint uart_bus d s = Some s' \<and> sent_chars s' = sent_chars s @ hex_text 8 (unat d) @ [0x0A]"
  by (rule uart0.hexprint_ok)

section \<open>Waiting\<close>

text \<open>A timer that counts while it is started; between two accesses of the bus some ticks pass.\<close>

record clock =
  ticks :: nat
  tclr :: DWORD
  pace :: "nat \<Rightarrow> nat"
  uses :: nat

definition pass :: "clock \<Rightarrow> clock" where
  "pass s = s\<lparr>ticks := if tclr s AND 1 = 1 then ticks s + pace s (uses s) else ticks s, uses := uses s + 1\<rparr>"

definition timer_bus :: "clock bus" where
  "timer_bus = \<lparr>rd = \<lambda>a s. (if a = DMTIMER7 + TCRR then of_nat (ticks (pass s)) else if a = DMTIMER7 + TCLR then tclr (pass s) else 0, pass s),
     wr = \<lambda>a x s. if a = DMTIMER7 + TCRR then s\<lparr>ticks := unat x\<rparr> else if a = DMTIMER7 + TCLR then s\<lparr>tclr := x\<rparr> else s\<rparr>"

definition steady :: "nat \<Rightarrow> clock \<Rightarrow> bool" where
  "steady P s \<longleftrightarrow> (\<forall>k. 0 < pace s k \<and> pace s k \<le> P)"

lemma pass_simps:
  "tclr (pass s) = tclr s" "pace (pass s) = pace s" "steady P (pass s) = steady P s"
  "ticks s \<le> ticks (pass s)" "steady P s \<Longrightarrow> ticks (pass s) \<le> ticks s + P"
  "steady P s \<Longrightarrow> tclr s AND 1 = 1 \<Longrightarrow> ticks s < ticks (pass s)"
  by (auto simp: pass_def steady_def)

lemma timer_rd:
  "rd timer_bus (DMTIMER7 + TCRR) s = (of_nat (ticks (pass s)), pass s)"
  "rd timer_bus (DMTIMER7 + TWPS) s = (0, pass s)" "rd timer_bus (DMTIMER7 + TCLR) s = (tclr s, pass s)"
  "wr timer_bus (DMTIMER7 + TCRR) x s = s\<lparr>ticks := unat x\<rparr>" "wr timer_bus (DMTIMER7 + TCLR) x s = s\<lparr>tclr := x\<rparr>"
  by (simp_all add: timer_bus_def pass_def)

lemma twps_clear: "wait_clear timer_bus (DMTIMER7 + TWPS) x s = Some (pass s)"
  by (subst wait_clear.simps) (simp only: timer_rd prod.case and_zero_eq zero_and_eq if_True refl)

lemma uint_count: "n < 2 ^ 32 \<Longrightarrow> uint (of_nat n :: DWORD) = int n"
  by (simp add: unsigned_of_nat take_bit_nat_eq_self flip: of_nat_take_bit)

lemma sint_count: "n < 2 ^ 31 \<Longrightarrow> sint (of_nat n :: DWORD) = int n"
proof -
  assume n: "n < 2 ^ 31"
  then have "uint (of_nat n :: DWORD) = int n" by (intro uint_count) simp
  then show ?thesis using sint_small [of "of_nat n"] n by simp
qed

lemma sint_negative: "2 ^ 31 \<le> n \<Longrightarrow> n < 2 ^ 32 \<Longrightarrow> sint (of_nat n :: DWORD) < 0"
  using uint_count [of n] sint_nonneg [of "of_nat n"] by (simp add: not_less) force

lemma count_loop_ok:
  assumes "steady P s" "tclr s AND 1 = 1" "t + P < 2 ^ 31" "ticks s + P < 2 ^ 31"
  shows "\<exists>s'. count_loop timer_bus (of_nat t) s = Some s' \<and> steady P s' \<and> tclr s' = tclr s \<and>
    t \<le> ticks s' \<and> ticks s' \<le> max (ticks s) t + P"
  using assms
proof (induction "t - ticks s" arbitrary: s rule: less_induct)
  case less
  have p: "ticks (pass s) \<le> ticks s + P" "ticks s < ticks (pass s)" using less.prems by (simp_all add: pass_simps)
  have cmp: "(of_nat (ticks (pass s)) :: DWORD) <s of_nat t \<longleftrightarrow> ticks (pass s) < t"
    using p(1) less.prems(3,4) by (simp add: word_sless_alt sint_count)
  have unfold: "count_loop timer_bus (of_nat t) s = (if ticks (pass s) < t then count_loop timer_bus (of_nat t) (pass s) else Some (pass s))"
    by (subst count_loop.simps) (simp only: timer_rd prod.case cmp)
  show ?case
  proof (cases "ticks (pass s) < t")
    case True
    then have "t - ticks (pass s) < t - ticks s" using p(2) by linarith
    from less.hyps [OF this] True less.prems obtain s' where s': "count_loop timer_bus (of_nat t) (pass s) = Some s'"
      "steady P s'" "tclr s' = tclr s" "t \<le> ticks s'" "ticks s' \<le> max (ticks (pass s)) t + P" by (auto simp: pass_simps)
    then show ?thesis unfolding unfold using True by auto
  next
    case False
    then show ?thesis unfolding unfold using p(1) less.prems(1) by (auto simp: pass_simps(1,3) max_def)
  qed
qed

text \<open>The parts of \<^verbatim>\<open>tim_delay\<close> before and behind the loop.\<close>

lemma delay_parts:
  assumes "steady P s"
  obtains s4 where "steady P s4" "tclr s4 AND 1 = 1" "ticks s4 \<le> 2 * P"
    "tim_delay timer_bus msec s = Option.bind (count_loop timer_bus (msec * TIMER_1MS_COUNT) s4) (\<lambda>s5.
       Some ((pass (pass s5))\<lparr>tclr := tclr (pass s5) AND NOT 1\<rparr>))"
proof -
  define s3 where "s3 = pass ((pass s)\<lparr>ticks := 0\<rparr>)"
  define s4 where "s4 = (pass s3)\<lparr>tclr := tclr s3 OR 1\<rparr>"
  have st: "steady P (v\<lparr>ticks := n\<rparr>) = steady P v" "steady P (v\<lparr>tclr := x\<rparr>) = steady P v" for v n x by (simp_all add: steady_def)
  have P: "steady P s3" "steady P s4" using assms by (simp_all add: s3_def s4_def st pass_simps(3))
  have "ticks s3 \<le> P" using pass_simps(5) [of P "(pass s)\<lparr>ticks := 0\<rparr>"] assms by (simp add: s3_def st pass_simps(3))
  then have "ticks s4 \<le> 2 * P" using pass_simps(5) [OF P(1)] by (simp add: s4_def)
  moreover have "tclr s4 AND 1 = 1" by (simp add: s4_def bit_eq_iff bit_simps)
  moreover have "tim_delay timer_bus msec s = Option.bind (count_loop timer_bus (msec * TIMER_1MS_COUNT) s4) (\<lambda>s5.
       Some ((pass (pass s5))\<lparr>tclr := tclr (pass s5) AND NOT 1\<rparr>))"
    by (simp only: tim_delay_def Let_def twps_clear bind.bind_lunit timer_rd reg_or_def reg_and_def prod.case unat_0 s3_def [symmetric]
        s4_def [symmetric])
  ultimately show ?thesis using P(2) that by blast
qed

text \<open>C40: as long as the number of ticks stays below \<open>2 ^ 31\<close> the delay returns, not before the ticks have passed and at
  most five accesses of the bus later, and leaves the timer stopped; from \<open>2 ^ 31\<close> ticks on, where the comment
  allows twice as many, it returns at once.\<close>

theorem tim_delay_waits:
  assumes "steady P s"
  shows "(unat msec * 24000 + 5 * P < 2 ^ 31 \<longrightarrow> (\<exists>s'. tim_delay timer_bus msec s = Some s' \<and>
       unat msec * 24000 \<le> ticks s' \<and> ticks s' \<le> unat msec * 24000 + 5 * P \<and> tclr s' AND 1 = 0)) \<and>
    (2 ^ 31 \<le> unat msec * 24000 \<and> unat msec * 24000 < 2 ^ 32 \<and> 5 * P < 2 ^ 31 \<longrightarrow>
       (\<exists>s'. tim_delay timer_bus msec s = Some s' \<and> ticks s' \<le> 5 * P))"
proof -
  let ?t = "unat msec * 24000"
  obtain s4 where s4: "steady P s4" "tclr s4 AND 1 = 1" "ticks s4 \<le> 2 * P"
    "tim_delay timer_bus msec s = Option.bind (count_loop timer_bus (msec * TIMER_1MS_COUNT) s4) (\<lambda>s5.
       Some ((pass (pass s5))\<lparr>tclr := tclr (pass s5) AND NOT 1\<rparr>))" using delay_parts [OF assms] by blast
  have w: "msec * TIMER_1MS_COUNT = of_nat ?t" by simp
  have later: "ticks (pass (pass v)) \<le> ticks v + 2 * P" "ticks v \<le> ticks (pass (pass v))" if "steady P v" for v
    using pass_simps(4) [of v] pass_simps(4) [of "pass v"] pass_simps(5) [of P v] pass_simps(5) [of P "pass v"] that
    by (simp_all add: pass_simps(3))
  have off: "(x AND NOT 1) AND 1 = (0 :: DWORD)" for x by (simp only: and.assoc) simp
  have waits: "\<exists>s'. tim_delay timer_bus msec s = Some s' \<and> ?t \<le> ticks s' \<and> ticks s' \<le> ?t + 5 * P \<and> tclr s' AND 1 = 0"
    if t: "?t + 5 * P < 2 ^ 31"
  proof -
    have b: "?t + P < 2 ^ 31" "ticks s4 + P < 2 ^ 31" using t s4(3) by linarith+
    obtain s5 where s5: "count_loop timer_bus (of_nat ?t) s4 = Some s5" "steady P s5" "?t \<le> ticks s5" "ticks s5 \<le> max (ticks s4) ?t + P"
      using count_loop_ok [OF s4(1,2) b] by blast
    have "ticks (pass (pass s5)) \<le> ?t + 5 * P" using later(1) [OF s5(2)] s5(4) s4(3) by linarith
    moreover have "?t \<le> ticks (pass (pass s5))" using later(2) [OF s5(2)] s5(3) by linarith
    ultimately show ?thesis unfolding s4(4) w s5(1) using off [of "tclr (pass s5)"] by simp
  qed
  have returns: "\<exists>s'. tim_delay timer_bus msec s = Some s' \<and> ticks s' \<le> 5 * P" if t: "2 ^ 31 \<le> ?t" "?t < 2 ^ 32" "5 * P < 2 ^ 31"
  proof -
    have p: "ticks (pass s4) \<le> 3 * P" using pass_simps(5) [OF s4(1)] s4(3) by linarith
    have "sint (of_nat ?t :: DWORD) < 0" using t(1,2) by (rule sint_negative)
    then have "\<not> (of_nat (ticks (pass s4)) :: DWORD) <s of_nat ?t"
      using p t(3) by (simp only: word_sless_alt) (simp add: sint_count)
    then have "count_loop timer_bus (of_nat ?t) s4 = Some (pass s4)" by (subst count_loop.simps) (simp only: timer_rd prod.case if_False)
    moreover have "ticks (pass (pass (pass s4))) \<le> 5 * P" using later(1) [of "pass s4"] s4(1) p by (simp add: pass_simps(3))
    ultimately show ?thesis unfolding s4(4) w by simp
  qed
  show ?thesis using waits returns by blast
qed

section \<open>Choosing a handler\<close>

text \<open>Below 128 the number selects its word of the vector.  A spurious interrupt is reported with the bits 7 to 31
  set, which is a negative number: the check lets it pass, and the jump goes through a word before the vector.\<close>

lemma below_128: "n <s 0x80 \<longleftrightarrow> unat n < 128 \<or> 2 ^ 31 \<le> unat n" for n :: DWORD
proof -
  have u: "uint n = int (unat n)" by (rule uint_nat)
  have s: "n <s 0x80 \<longleftrightarrow> sint n < 128" by (simp add: word_sless_alt)
  show ?thesis
  proof (cases "unat n < 2 ^ 31")
    case True
    then have "unat n < 0x80000000" by simp
    then have "int (unat n) < 0x80000000" by linarith
    then have "uint n < 2 ^ 31" by simp
    then have "sint n = int (unat n)" using sint_small u by metis
    then show ?thesis using True unfolding s by linarith
  next
    case False
    then have "0x80000000 \<le> unat n" by simp
    then have "0x80000000 \<le> int (unat n)" by linarith
    then have "\<not> uint n < 2 ^ 31" by simp
    then have "sint n < 0" using sint_nonneg [of n] by linarith
    then show ?thesis using False unfolding s by linarith
  qed
qed

lemma irq_dispatch:
  assumes "rd B 0x48200040 s = (n, s1)"
  shows "irq_isr B jump vector (v, s) =
    (if unat n < 128 \<or> 2 ^ 31 \<le> unat n
     then case rd B (vector + 4 * n) s1 of (f, s2) \<Rightarrow> case jump f (v, s2) of (v, s3) \<Rightarrow> (v, wr B 0x48200048 1 s3)
     else (v, wr B 0x48200048 1 s1))"
  using assms by (simp add: irq_isr_def below_128 push_bit_eq_mult mult.commute case_prod_beta)

section \<open>Samples\<close>

lemma tim_delay_waits_witness:
  "\<exists>s'. tim_delay timer_bus 10 \<lparr>ticks = 0, tclr = 3, pace = \<lambda>_. 24, uses = 0\<rparr> = Some s' \<and> 240000 \<le> ticks s' \<and> ticks s' \<le> 240120"
  using tim_delay_waits [of 24 "\<lparr>ticks = 0, tclr = 3, pace = \<lambda>_. 24, uses = 0\<rparr>" 10] by (auto simp: steady_def)

end
