(* ===== verification/MainLoop.thy ===== *)
theory MainLoop
  imports Chip ConsoleLine "HOL-Library.Sublist"
begin

unbundle bit_operations_syntax

text \<open>
  The endless loop of \<^verbatim>\<open>main.c\<close>: the timed transmission of a slave, the processing of received datagrams, the
  console and the running light.  The interrupts of the UART and of the network come between any two of its steps;
  a step is one access to a variable that an interrupt handler changes, or a stretch of code without one.  \<open>received\<close> and
  \<open>collected\<close> are no part of the program: the keys the interrupt handler stored, and those \<^verbatim>\<open>char_collect\<close> got.
\<close>

section \<open>State\<close>

datatype pc = Top | RxTest | RxLoad | RxStore | RxCopy | RxProc
  | KeyTest | KeyLoad | KeyStore | KeyCopy | KeyBuf | KeyArg | KeyCollect | KeyClear | Blink

record light =
  iblink :: DWORD
  iled :: DWORD
  irev :: DWORD

record ('n, 's) world =
  at_pc :: pc
  con :: "'n console"
  chip :: chip_vars
  hw :: 's
  lights :: light
  loop_k :: DWORD
  loop_j :: DWORD
  master :: DWORD
  uart0_irq_old :: DWORD
  udp_rx_old :: DWORD
  reg :: DWORD              \<comment> \<open>the processor register of a load and the store behind it\<close>
  received :: "BYTE list"
  collected :: "BYTE list"

section \<open>The running light\<close>

definition step_light :: "light \<Rightarrow> light" where
  "step_light l =
     (let l = (if irev l = 0 then l\<lparr>iled := push_bit 1 (iled l)\<rparr> else l\<lparr>iled := drop_bit 1 (iled l)\<rparr>);
          l = (if iled l = 1 then l\<lparr>irev := 0\<rparr> else l)
      in if iled l = 8 then l\<lparr>irev := 1\<rparr> else l)"

definition blink :: "'s bus \<Rightarrow> light \<times> 's \<Rightarrow> light \<times> 's" where
  "blink B ls =
     (case ls of (l, s) \<Rightarrow>
      let s = (if iblink l = 0 then gpio_on B SOC_GPIO_1_REGS (push_bit 21 (iled l)) s else s);
          (l, s) = (if iblink l = 0xFFFF then (step_light l, gpio_off B SOC_GPIO_1_REGS (push_bit 21 (iled l)) s) else (l, s))
      in (l\<lparr>iblink := (iblink l + 1) AND 0x3FFFFF\<rparr>, s))"

section \<open>The steps\<close>

text \<open>The counter of a slave: a datagram of forty equal digits every \<^verbatim>\<open>0xFFFFFFF\<close> passes.\<close>

definition slave_tx :: "'n net_ops \<Rightarrow> ('n, 's) world \<Rightarrow> ('n, 's) world option" where
  "slave_tx N w =
     (let w = w\<lparr>loop_k := loop_k w + 1\<rparr> in
      if loop_k w = 0xFFFFFFF \<and> master w = 0 then
        let j = loop_j w; w = w\<lparr>loop_k := 0\<rparr> in
        Option.bind (send_text N 2 (replicate 40 (ucast j)) (con w)) (\<lambda>(_, st).
          Some (w\<lparr>con := st, loop_j := (if j + 1 > 0x39 then 0x30 else j + 1)\<rparr>))
      else Some w)"

fun main_stmt :: "'n net_ops \<Rightarrow> 's bus \<Rightarrow> pc \<Rightarrow> ('n, 's) world \<Rightarrow> ('n, 's) world option" where
  "main_stmt N B Top w = Option.bind (slave_tx N w) (\<lambda>w. Some (w\<lparr>at_pc := RxTest\<rparr>))"
| "main_stmt N B RxTest w = Some (w\<lparr>at_pc := if udp_rx_old w \<noteq> udp_rx_count (con w) then RxLoad else KeyTest\<rparr>)"
| "main_stmt N B RxLoad w = Some (w\<lparr>reg := udp_rx_count (con w) AND 0x7FFFFFFF, at_pc := RxStore\<rparr>)"
| "main_stmt N B RxStore w = Some (w\<lparr>con := (con w)\<lparr>udp_rx_count := reg w\<rparr>, at_pc := RxCopy\<rparr>)"
| "main_stmt N B RxCopy w = Some (w\<lparr>udp_rx_old := udp_rx_count (con w), at_pc := RxProc\<rparr>)"
| "main_stmt N B RxProc w = Option.bind (udp_rx_process (con w)) (\<lambda>st. Some (w\<lparr>con := st, at_pc := KeyTest\<rparr>))"
| "main_stmt N B KeyTest w =
     Some (w\<lparr>at_pc := if uart0_irq_old w \<noteq> uart0_irq_count (chip w) then KeyLoad else Blink\<rparr>)"
| "main_stmt N B KeyLoad w = Some (w\<lparr>reg := uart0_irq_count (chip w) AND 0x7FFFFFFF, at_pc := KeyStore\<rparr>)"
| "main_stmt N B KeyStore w = Some (w\<lparr>chip := (chip w)\<lparr>uart0_irq_count := reg w\<rparr>, at_pc := KeyCopy\<rparr>)"
| "main_stmt N B KeyCopy w = Some (w\<lparr>uart0_irq_old := uart0_irq_count (chip w), at_pc := KeyBuf\<rparr>)"
| "main_stmt N B KeyBuf w = Some (w\<lparr>at_pc := if uart0_rbuf (chip w) > 0 then KeyArg else Blink\<rparr>)"
| "main_stmt N B KeyArg w = Some (w\<lparr>reg := uart0_rbuf (chip w), at_pc := KeyCollect\<rparr>)"
| "main_stmt N B KeyCollect w = Option.bind (char_collect N (ucast (reg w)) (con w)) (\<lambda>st.
     Some (w\<lparr>con := st, collected := collected w @ [ucast (reg w)], at_pc := KeyClear\<rparr>))"
| "main_stmt N B KeyClear w = Some (w\<lparr>chip := (chip w)\<lparr>uart0_rbuf := 0\<rparr>, at_pc := Blink\<rparr>)"
| "main_stmt N B Blink w = (case blink B (lights w, hw w) of (l, s) \<Rightarrow> Some (w\<lparr>lights := l, hw := s, at_pc := Top\<rparr>))"

definition main_step :: "'n net_ops \<Rightarrow> 's bus \<Rightarrow> ('n, 's) world \<Rightarrow> ('n, 's) world option" where
  "main_step N B w = main_stmt N B (at_pc w) w"

text \<open>The receive interrupt of the UART with a character: what \<^verbatim>\<open>uart0_isr\<close> does to the variables.\<close>

definition key_irq :: "BYTE \<Rightarrow> ('n, 's) world \<Rightarrow> ('n, 's) world" where
  "key_irq c w = w\<lparr>chip := (chip w)\<lparr>uart0_rbuf := ucast c, uart0_irq_count := uart0_irq_count (chip w) + 1\<rparr>,
     received := received w @ [c]\<rparr>"

definition net_irq :: "(nat \<Rightarrow> BYTE) \<Rightarrow> WORD \<Rightarrow> ('n, 's) world \<Rightarrow> ('n, 's) world" where
  "net_irq payload n w = w\<lparr>con := udp_incoming payload n (con w)\<rparr>"

inductive runs :: "'n net_ops \<Rightarrow> 's bus \<Rightarrow> ('n, 's) world \<Rightarrow> ('n, 's) world \<Rightarrow> bool" for N B where
  start: "runs N B w w"
| stmt: "runs N B w0 w \<Longrightarrow> main_step N B w = Some w' \<Longrightarrow> runs N B w0 w'"
| key: "runs N B w0 w \<Longrightarrow> runs N B w0 (key_irq c w)"
| packet: "runs N B w0 w \<Longrightarrow> runs N B w0 (net_irq payload n w)"

text \<open>A number of steps without an interrupt is a run.\<close>

lemma runs_steps:
  "((\<lambda>v. Option.bind v (main_step N B)) ^^ n) (Some w) = Some w' \<Longrightarrow> runs N B w0 w \<Longrightarrow> runs N B w0 w'"
proof (induction n arbitrary: w')
  case (Suc n)
  then show ?case by (auto split: Option.bind_splits intro: runs.stmt)
qed simp

section \<open>Keys\<close>

text \<open>What the interrupt handler does when the UART reports a character.\<close>

lemma key_irq_is_isr:
  assumes "rd B (SOC_UART_0_REGS + UART_IIR) s = (iir, s1)" "iir AND 0x3E = 4"
    "rd B (SOC_UART_0_REGS + UART_RHR) (wr B (SOC_UART_0_REGS + UART_IER) 0 s1) = (ucast c, s2)"
  shows "fst (uart0_isr B (chip w, s)) = chip (key_irq c w)"
  using assms by (simp add: uart0_isr_def key_irq_def)

text \<open>A character in the buffer is the last one received and has not been collected, but while it is being collected.
  Where the loop has seen one and not yet fetched it, it may since have been replaced, by a zero too.\<close>

definition keys_ok :: "('n, 's) world \<Rightarrow> bool" where
  "keys_ok w \<longleftrightarrow> subseq (collected w) (received w) \<and>
     (at_pc w \<notin> {KeyCollect, KeyClear} \<longrightarrow> uart0_rbuf (chip w) \<noteq> 0 \<or> at_pc w = KeyArg \<longrightarrow>
        (\<exists>rs c. received w = rs @ [c] \<and> uart0_rbuf (chip w) = ucast c \<and> subseq (collected w) rs)) \<and>
     (at_pc w = KeyCollect \<longrightarrow> subseq (collected w @ [ucast (reg w)]) (received w))"

lemma byte_bound: "unat c < 256" for c :: BYTE
  using unsigned_less [of c, where 'a = nat] by simp

lemma byte_back: "ucast (ucast c :: DWORD) = c" for c :: BYTE
  using byte_bound [of c] by (simp add: word_unat_eq_iff unat_narrow unat_widen)

lemma slave_tx_keys:
  "slave_tx N w = Some w' \<Longrightarrow> chip w' = chip w \<and> received w' = received w \<and> collected w' = collected w"
  by (auto simp: slave_tx_def Let_def split: if_splits Option.bind_splits)

lemma step_keys:
  assumes "main_step N B w = Some w'" "keys_ok w"
  shows "keys_ok w'"
proof (cases "at_pc w")
  case Top
  then show ?thesis using assms slave_tx_keys [of N w] by (auto simp: main_step_def keys_ok_def split: Option.bind_splits)
next
  case KeyArg
  then obtain rs c where k: "received w = rs @ [c]" "uart0_rbuf (chip w) = ucast c" "subseq (collected w) rs"
    using assms(2) by (auto simp: keys_ok_def)
  then have "subseq (collected w @ [c]) (received w)" by simp
  moreover have "ucast (ucast c :: DWORD) = c" by (rule byte_back)
  ultimately show ?thesis using assms KeyArg k by (auto simp: main_step_def keys_ok_def)
qed (use assms in \<open>auto simp: main_step_def keys_ok_def split: Option.bind_splits prod.splits if_splits\<close>)

lemma key_irq_keys: "keys_ok w \<Longrightarrow> keys_ok (key_irq c w)"
  by (auto simp: keys_ok_def key_irq_def intro: subseq_rev_drop_many)

lemma net_irq_keys: "keys_ok w \<Longrightarrow> keys_ok (net_irq payload n w)"
  by (simp add: keys_ok_def net_irq_def)


lemma runs_keys: "runs N B w0 w \<Longrightarrow> keys_ok w0 \<Longrightarrow> keys_ok w"
  by (induction rule: runs.induct) (simp_all add: step_keys key_irq_keys net_irq_keys)









section \<open>Lost keys\<close>

text \<open>
  The keys received and collected so far are a record only: a run from a world with another record goes the
  same way and adds the same keys to it.
\<close>

lemma slave_tx_record:
  "slave_tx N (w\<lparr>received := ks, collected := cs\<rparr>) = map_option (\<lambda>v. v\<lparr>received := ks, collected := cs\<rparr>) (slave_tx N w)"
  by (cases "send_text N 2 (replicate 40 (ucast (loop_j w))) (con w)") (auto simp: slave_tx_def Let_def)

lemma step_record:
  assumes "main_step N B w = Some w'"
  shows "\<exists>new. collected w' = collected w @ new \<and> received w' = received w \<and>
    main_step N B (w\<lparr>received := ks, collected := cs\<rparr>) = Some (w'\<lparr>received := ks, collected := cs @ new\<rparr>)"
proof (cases "at_pc w")
  case Top
  then obtain v where v: "slave_tx N w = Some v" "w' = v\<lparr>at_pc := RxTest\<rparr>" using assms by (auto simp: main_step_def split: Option.bind_splits)
  then show ?thesis using Top slave_tx_keys [OF v(1)] by (simp add: main_step_def slave_tx_record)
next
  case Blink
  obtain l s where "blink B (lights w, hw w) = (l, s)" by fastforce
  then show ?thesis using assms Blink by (auto simp: main_step_def)
next
  case RxProc
  then obtain st where "udp_rx_process (con w) = Some st" "w' = w\<lparr>con := st, at_pc := KeyTest\<rparr>"
    using assms by (auto simp: main_step_def split: Option.bind_splits)
  then show ?thesis using RxProc by (simp add: main_step_def)
next
  case KeyCollect
  then obtain st where "char_collect N (ucast (reg w)) (con w) = Some st"
    "w' = w\<lparr>con := st, collected := collected w @ [ucast (reg w)], at_pc := KeyClear\<rparr>"
    using assms by (auto simp: main_step_def split: Option.bind_splits)
  then show ?thesis using KeyCollect by (simp add: main_step_def)
qed (use assms in \<open>simp_all add: main_step_def\<close>, use assms in \<open>auto simp: main_step_def\<close>)

lemma steps_received: "((\<lambda>v. Option.bind v (main_step N B)) ^^ n) (Some w) = Some w' \<Longrightarrow> received w' = received w"
proof (induction n arbitrary: w')
  case (Suc n)
  then obtain v where "((\<lambda>v. Option.bind v (main_step N B)) ^^ n) (Some w) = Some v" "main_step N B v = Some w'"
    by (auto split: Option.bind_splits)
  then show ?case using Suc.IH step_record [of N B v w'] by auto
qed simp

lemma runs_record:
  assumes "runs N B w0 w"
  shows "\<exists>ks cs. received w = received w0 @ ks \<and> collected w = collected w0 @ cs \<and>
    runs N B (w0\<lparr>received := r, collected := []\<rparr>) (w\<lparr>received := r @ ks, collected := cs\<rparr>)"
  using assms
proof (induction rule: runs.induct)
  case (start w)
  show ?case by (intro exI [of _ "[]"]) (simp add: runs.start)
next
  case (stmt w0 w w')
  then obtain ks cs where I: "received w = received w0 @ ks" "collected w = collected w0 @ cs"
    "runs N B (w0\<lparr>received := r, collected := []\<rparr>) (w\<lparr>received := r @ ks, collected := cs\<rparr>)" by blast
  obtain new where n: "collected w' = collected w @ new" "received w' = received w"
    "main_step N B (w\<lparr>received := r @ ks, collected := cs\<rparr>) = Some (w'\<lparr>received := r @ ks, collected := cs @ new\<rparr>)"
    using step_record [OF stmt.hyps(2), where ks = "r @ ks" and cs = cs] by blast
  from runs.stmt [OF I(3) n(3)] show ?case using I(1,2) n(1,2) by - (rule exI [of _ ks], rule exI [of _ "cs @ new"], simp)
next
  case (key w0 w c)
  then obtain ks cs where I: "received w = received w0 @ ks" "collected w = collected w0 @ cs"
    "runs N B (w0\<lparr>received := r, collected := []\<rparr>) (w\<lparr>received := r @ ks, collected := cs\<rparr>)" by blast
  have "key_irq c (w\<lparr>received := r @ ks, collected := cs\<rparr>) = (key_irq c w)\<lparr>received := r @ ks @ [c], collected := cs\<rparr>"
    by (rule world.equality) (simp_all add: key_irq_def)
  with runs.key [OF I(3), of c] have "runs N B (w0\<lparr>received := r, collected := []\<rparr>)
      ((key_irq c w)\<lparr>received := r @ ks @ [c], collected := cs\<rparr>)" by (simp only:)
  moreover have "received (key_irq c w) = received w0 @ ks @ [c]" "collected (key_irq c w) = collected w0 @ cs"
    using I(1,2) by (simp_all add: key_irq_def)
  ultimately show ?case by blast
next
  case (packet w0 w payload n)
  then obtain ks cs where I: "received w = received w0 @ ks" "collected w = collected w0 @ cs"
    "runs N B (w0\<lparr>received := r, collected := []\<rparr>) (w\<lparr>received := r @ ks, collected := cs\<rparr>)" by blast
  have "net_irq payload n (w\<lparr>received := r @ ks, collected := cs\<rparr>) = (net_irq payload n w)\<lparr>received := r @ ks, collected := cs\<rparr>"
    by (rule world.equality) (simp_all add: net_irq_def)
  with runs.packet [OF I(3), of payload n] have "runs N B (w0\<lparr>received := r, collected := []\<rparr>)
      ((net_irq payload n w)\<lparr>received := r @ ks, collected := cs\<rparr>)" by (simp only:)
  moreover have "received (net_irq payload n w) = received w0 @ ks" "collected (net_irq payload n w) = collected w0 @ cs"
    using I(1,2) by (simp_all add: net_irq_def)
  ultimately show ?case by blast
qed

text \<open>C37: a key pressed after the loop fetched the key before and before it cleared the buffer, so in particular while
  a command runs, never reaches the line editor: in every run from there, whatever keys and packets come, all that the
  line editor gets is the key just fetched, if it does not have it yet, and keys pressed after the lost one.\<close>

theorem key_during_command_lost:
  assumes "at_pc w = KeyCollect \<or> at_pc w = KeyClear" "runs N B (key_irq d w) w2"
  shows "\<exists>later got. received w2 = received w @ d # later \<and> collected w2 = collected w @ got \<and>
    subseq got ((if at_pc w = KeyCollect then [ucast (reg w)] else []) @ later)"
proof -
  let ?r = "if at_pc w = KeyCollect then [ucast (reg w)] else []"
  from runs_record [OF assms(2), of ?r] obtain ks cs where
    R: "received w2 = received (key_irq d w) @ ks" "collected w2 = collected (key_irq d w) @ cs"
    "runs N B ((key_irq d w)\<lparr>received := ?r, collected := []\<rparr>) (w2\<lparr>received := ?r @ ks, collected := cs\<rparr>)" by blast
  have "keys_ok ((key_irq d w)\<lparr>received := ?r, collected := []\<rparr>)"
    using assms(1) by (auto simp: keys_ok_def key_irq_def)
  from runs_keys [OF R(3) this] have "subseq cs (?r @ ks)" by (simp add: keys_ok_def)
  then show ?thesis using R(1,2) by - (rule exI [of _ ks], rule exI [of _ cs], (simp add: key_irq_def))
qed

text \<open>a key that is in the buffer when the loop looks, and no other comes, is collected in the same pass, once.\<close>

theorem key_is_collected:
  assumes "at_pc w = KeyTest" "uart0_irq_old w \<noteq> uart0_irq_count (chip w)" "uart0_rbuf (chip w) = ucast c" "c \<noteq> 0"
    "char_collect N c (con w) = Some st"
  shows "\<exists>w'. ((\<lambda>v. Option.bind v (main_step N B)) ^^ 8) (Some w) = Some w' \<and> at_pc w' = Blink \<and> con w' = st \<and>
    collected w' = collected w @ [c] \<and> uart0_rbuf (chip w') = 0 \<and> uart0_irq_old w' = uart0_irq_count (chip w')"
proof -
  have c: "ucast (ucast c :: DWORD) = c" "(0 :: DWORD) < ucast c"
    using assms(4) by (simp_all add: byte_back word_gt_0 word_unat_eq_iff unat_widen)
  show ?thesis using assms c by (simp add: numeral_eq_Suc main_step_def)
qed

section \<open>The light runs\<close>

text \<open>An output port with registers that set and clear its bits.\<close>

locale output_port =
  fixes B :: "'s bus" and pins :: "'s \<Rightarrow> DWORD"
  assumes set_pins: "pins (wr B (SOC_GPIO_1_REGS + GPIO_SETDATAOUT) x s) = pins s OR x"
    and clear_pins: "pins (wr B (SOC_GPIO_1_REGS + GPIO_CLEARDATAOUT) x s) = pins s AND NOT x"

definition led_at :: "nat \<Rightarrow> DWORD" where
  "led_at n = [1, 2, 4, 8, 4, 2] ! (n mod 6)"

definition rev_at :: "nat \<Rightarrow> DWORD" where
  "rev_at n = [0, 0, 0, 1, 1, 1] ! (n mod 6)"

lemma upto_6: "k < 6 \<Longrightarrow> k = 0 \<or> k = 1 \<or> k = 2 \<or> k = 3 \<or> k = 4 \<or> k = (5 :: nat)"
  by linarith

lemma step_light_at: "step_light \<lparr>iblink = i, iled = led_at n, irev = rev_at n\<rparr> = \<lparr>iblink = i, iled = led_at (Suc n), irev = rev_at (Suc n)\<rparr>"
  using upto_6 [of "n mod 6"] by (auto simp: step_light_def led_at_def rev_at_def mod_Suc)

text \<open>After \<open>m\<close> passes: the counter, the number of steps of the light, and the port.\<close>

definition steps_done :: "nat \<Rightarrow> nat" where
  "steps_done m = m div 0x400000 + (if m mod 0x400000 > 0xFFFF then 1 else 0)"

definition light_after :: "nat \<Rightarrow> light" where
  "light_after m = \<lparr>iblink = of_nat (m mod 0x400000), iled = led_at (steps_done m), irev = rev_at (steps_done m)\<rparr>"

definition lit_after :: "nat \<Rightarrow> DWORD" where
  "lit_after m = (if 1 \<le> m mod 0x400000 \<and> m mod 0x400000 \<le> 0xFFFF then push_bit 21 (led_at (steps_done m)) else 0)"

lemma next_count: "i < 0x400000 \<Longrightarrow> (of_nat i + 1 :: DWORD) AND 0x3FFFFF = of_nat (Suc i mod 0x400000)"
proof -
  assume i: "i < 0x400000"
  have m: "(of_nat i + 1 :: DWORD) AND 0x3FFFFF = (of_nat i + 1) AND mask 22" by (simp add: mask_eq_exp_minus_1)
  have "unat (of_nat (Suc i) :: DWORD) = Suc i" using i by (simp add: unat_of_nat del: of_nat_Suc)
  then have "unat ((of_nat i + 1 :: DWORD) AND 0x3FFFFF) = Suc i mod 0x400000" unfolding m unat_and_mask by (simp add: add.commute)
  moreover have "unat (of_nat (Suc i mod 0x400000) :: DWORD) = Suc i mod 0x400000" using i by (simp add: unat_of_nat mod_Suc)
  ultimately show ?thesis by (simp only: word_unat_eq_iff)
qed

lemma pass_count:
  "steps_done (Suc m) = (if m mod 0x400000 = 0xFFFF then Suc (steps_done m) else steps_done m)"
  by (auto simp: steps_done_def mod_Suc div_Suc)

lemma lit_next:
  "lit_after (Suc m) = (if m mod 0x400000 = 0 then push_bit 21 (led_at (steps_done m))
     else if m mod 0x400000 = 0xFFFF then 0 else lit_after m)"
  unfolding lit_after_def pass_count by (auto simp: mod_Suc)

lemma led_bits: "push_bit 21 (led_at n) AND NOT 0x1E00000 = 0"
  using upto_6 [of "n mod 6"] by (auto simp: led_at_def)

lemma off_again: "o1 AND m = 0 \<Longrightarrow> x AND NOT m = 0 \<Longrightarrow> (o1 OR x) AND NOT x = o1" for o1 x m :: DWORD
proof -
  assume o: "o1 AND m = 0" and x: "x AND NOT m = 0"
  have "\<not> (bit o1 n \<and> bit x n)" for n
  proof -
    have "\<not> bit (o1 AND m) n" "\<not> bit (x AND NOT m) n" unfolding o x by simp_all
    then show ?thesis by (auto simp: bit_and_iff bit_not_iff dest: bit_imp_le_length)
  qed
  then show ?thesis by (intro bit_word_eqI) (auto simp: bit_simps)
qed

text \<open>
  Passes of the loop over the light.  The four pins are also written by others: \<^verbatim>\<open>diskio.c\<close> and the handlers of
  the network light an LED while they work, and \<^verbatim>\<open>gpio_isr\<close> flashes one for the boot button.  What they do to
  the port before pass \<open>m\<close> is the argument \<open>others m\<close>, of which nothing is assumed; a pass writes the port at most
  once, so that a handler that interrupts it comes before or after that.
\<close>

fun passes :: "'s bus \<Rightarrow> (nat \<Rightarrow> 's \<Rightarrow> 's) \<Rightarrow> nat \<Rightarrow> light \<times> 's \<Rightarrow> light \<times> 's" where
  "passes B others 0 ls = ls"
| "passes B others (Suc m) ls = (case passes B others m ls of (l, s) \<Rightarrow> blink B (l, others m s))"

context output_port
begin

lemma port_ops:
  "pins (gpio_on B SOC_GPIO_1_REGS x s) = pins s OR x" "pins (gpio_off B SOC_GPIO_1_REGS x s) = pins s AND NOT x"
  by (simp_all only: gpio_on_def gpio_off_def set_pins clear_pins)

text \<open>One pass, whatever the pins are: the light goes on, and at most one of its pins is written.\<close>

lemma blink_once:
  "\<exists>s'. blink B (light_after m, s) = (light_after (Suc m), s') \<and> pins s' =
     (if m mod 0x400000 = 0 then pins s OR push_bit 21 (led_at (steps_done m))
      else if m mod 0x400000 = 0xFFFF then pins s AND NOT (push_bit 21 (led_at (steps_done m))) else pins s)"
proof -
  define i where "i = m mod 0x400000"
  have i: "i < 0x400000" by (simp add: i_def)
  have ib: "iblink (light_after m) = of_nat i" by (simp add: light_after_def i_def)
  have u: "unat (of_nat i :: DWORD) = i" using i by (simp add: unat_of_nat)
  have z: "(of_nat i :: DWORD) = 0 \<longleftrightarrow> i = 0" "(of_nat i :: DWORD) = 0xFFFF \<longleftrightarrow> i = 0xFFFF"
    using u by (auto simp: word_unat_eq_iff)
  have n: "(of_nat i + 1 :: DWORD) AND 0x3FFFFF = of_nat (Suc m mod 0x400000)"
    using next_count [OF i] by (simp only: i_def mod_Suc_eq)
  consider "i = 0" | "i = 0xFFFF" | "i \<noteq> 0" "i \<noteq> 0xFFFF" by blast
  then show ?thesis
  proof cases
    case 1
    then show ?thesis using ib n by (simp add: blink_def port_ops pass_count light_after_def i_def)
  next
    case 2
    then show ?thesis using ib n step_light_at [of "of_nat i" "steps_done m"]
      by (simp add: blink_def port_ops pass_count light_after_def i_def)
  next
    case 3
    then show ?thesis using ib n z by (auto simp: blink_def pass_count light_after_def i_def)
  qed
qed

lemma passes_light:
  "fst (passes B others m (light_after 0, s)) = light_after m"
  "pins (snd (passes B others (Suc m) (light_after 0, s))) =
     (if m mod 0x400000 = 0
      then pins (others m (snd (passes B others m (light_after 0, s)))) OR push_bit 21 (led_at (steps_done m))
      else if m mod 0x400000 = 0xFFFF
      then pins (others m (snd (passes B others m (light_after 0, s)))) AND NOT (push_bit 21 (led_at (steps_done m)))
      else pins (others m (snd (passes B others m (light_after 0, s)))))"
proof -
  have l: "fst (passes B others m (light_after 0, s)) = light_after m" for m
  proof (induction m)
    case (Suc m)
    obtain t where "passes B others m (light_after 0, s) = (light_after m, t)" using Suc by (metis prod.collapse)
    then show ?case using blink_once [of m "others m t"] by auto
  qed simp
  then show "fst (passes B others m (light_after 0, s)) = light_after m" .
  obtain t where "passes B others m (light_after 0, s) = (light_after m, t)" using l [of m] by (metis prod.collapse)
  then show "pins (snd (passes B others (Suc m) (light_after 0, s))) =
     (if m mod 0x400000 = 0
      then pins (others m (snd (passes B others m (light_after 0, s)))) OR push_bit 21 (led_at (steps_done m))
      else if m mod 0x400000 = 0xFFFF
      then pins (others m (snd (passes B others m (light_after 0, s)))) AND NOT (push_bit 21 (led_at (steps_done m)))
      else pins (others m (snd (passes B others m (light_after 0, s)))))"
    using blink_once [of m "others m t"] by auto
qed

lemma untouched_pin:
  assumes "pins s AND 0x1E00000 = 0"
    and "\<forall>j<m. bit (pins (others j (snd (passes B others j (light_after 0, s))))) b =
      bit (pins (snd (passes B others j (light_after 0, s)))) b"
  shows "bit (pins (snd (passes B others m (light_after 0, s)))) b = bit (pins s OR lit_after m) b"
  using assms(2)
proof (induction m)
  case 0
  then show ?case by (simp add: lit_after_def)
next
  case (Suc m)
  let ?led = "push_bit 21 (led_at (steps_done m))" and ?t = "snd (passes B others m (light_after 0, s))"
  have o: "bit (pins (others m ?t)) b = bit (pins s OR lit_after m) b" using Suc by simp
  consider "m mod 0x400000 = 0" | "m mod 0x400000 = 0xFFFF" | "m mod 0x400000 \<noteq> 0" "m mod 0x400000 \<noteq> 0xFFFF" by blast
  then show ?case
  proof cases
    case 1
    then have "lit_after (Suc m) = ?led" by (simp add: lit_next)
    moreover have "lit_after m = 0" using 1 by (simp add: lit_after_def)
    ultimately show ?thesis using 1 o passes_light(2) [of others m s] by (simp add: bit_or_iff)
  next
    case 2
    then have l: "lit_after (Suc m) = 0" "lit_after m = ?led" by (simp add: lit_next, simp add: lit_after_def)
    have "bit (pins (others m ?t) AND NOT ?led) b = bit ((pins s OR ?led) AND NOT ?led) b"
      using o l(2) by (simp add: bit_and_iff)
    also have "\<dots> = bit (pins s) b" by (simp only: off_again [OF assms(1) led_bits])
    finally show ?thesis using 2 l(1) passes_light(2) [of others m s] by simp
  next
    case 3
    then show ?thesis using o passes_light(2) [of others m s] by (simp add: lit_next)
  qed
qed

end

text \<open>The port of the board: a word, with the two registers.\<close>

definition led_port :: "DWORD bus" where
  "led_port = \<lparr>rd = \<lambda>a s. (s, s),
     wr = \<lambda>a x s. if a = SOC_GPIO_1_REGS + GPIO_SETDATAOUT then s OR x
                 else if a = SOC_GPIO_1_REGS + GPIO_CLEARDATAOUT then s AND NOT x else s\<rparr>"

interpretation port: output_port led_port id
  by unfold_locales (simp_all add: led_port_def)

text \<open>C38: the light runs to and fro over the four LEDs, beside whatever disk access, network and boot button do to
  the same pins.  After any number of passes the counter, the position and the direction are what the number
  says, whatever the others did.  A pass sets the pin of the LED at the position at the start of each period of
  4194304 passes, clears that pin 65535 passes later, and writes no other; so every pin that the others have left
  alone is lit exactly if it is the LED at the position and the period is in its first 65535 passes, and one that
  is no LED is as it was.\<close>

theorem light_runs:
  fixes B :: "'s bus" and others :: "nat \<Rightarrow> 's \<Rightarrow> 's"
  assumes "output_port B pins" and "pins s AND 0x1E00000 = 0"
  defines "port \<equiv> (\<lambda>m. snd (passes B others m (\<lparr>iblink = 0, iled = 1, irev = 0\<rparr>, s)))"
  shows "fst (passes B others m (\<lparr>iblink = 0, iled = 1, irev = 0\<rparr>, s)) = light_after m \<and>
    pins (port (Suc m)) =
      (if m mod 0x400000 = 0 then pins (others m (port m)) OR push_bit 21 (led_at (steps_done m))
       else if m mod 0x400000 = 0xFFFF then pins (others m (port m)) AND NOT (push_bit 21 (led_at (steps_done m)))
       else pins (others m (port m))) \<and>
    (\<forall>b. (\<forall>j<m. bit (pins (others j (port j))) b = bit (pins (port j)) b) \<longrightarrow>
       bit (pins (port m)) b = bit (pins s OR lit_after m) b)"
proof -
  have z: "light_after 0 = \<lparr>iblink = 0, iled = 1, irev = 0\<rparr>" by (simp add: light_after_def steps_done_def led_at_def rev_at_def)
  note P = output_port.passes_light [OF assms(1), of others m s, unfolded z] output_port.untouched_pin [OF assms(1,2), of m others, unfolded z]
  show ?thesis unfolding port_def using P by (simp only: simp_thms) blast
qed

section \<open>Samples\<close>

text \<open>A disk access that lights LED 24 before the fifth pass and a packet that darkens it before pass 100.\<close>

definition activity :: "nat \<Rightarrow> DWORD \<Rightarrow> DWORD" where
  "activity j s = (if j = 5 then s OR 0x1000000 else if j = 100 then s AND NOT 0x1000000 else s)"

lemma light_runs_witness:
  "fst (passes led_port activity 4259840 (\<lparr>iblink = 0, iled = 1, irev = 0\<rparr>, 1)) = \<lparr>iblink = 0x10000, iled = 4, irev = 0\<rparr> \<and>
   bit (snd (passes led_port activity 4259000 (\<lparr>iblink = 0, iled = 1, irev = 0\<rparr>, 1))) 22 \<and>
   \<not> bit (snd (passes led_port activity 4259840 (\<lparr>iblink = 0, iled = 1, irev = 0\<rparr>, 1))) 22"
proof -
  have p: "output_port led_port id" by (rule port.output_port_axioms)
  have a: "bit (activity j x) 22 = bit x 22" for j x
    by (simp add: activity_def bit_or_iff bit_and_iff bit_not_iff)
  have v: "light_after 4259840 = \<lparr>iblink = 0x10000, iled = 4, irev = 0\<rparr>" "lit_after 4259840 = 0" "lit_after 4259000 = 0x400000"
    by (simp_all add: light_after_def lit_after_def steps_done_def led_at_def rev_at_def)
  show ?thesis
    using light_runs [OF p, of 1 activity 4259840] light_runs [OF p, of 1 activity 4259000] a v
    by (simp add: bit_or_iff del: passes.simps)
qed

definition sample_world :: "pc \<Rightarrow> DWORD \<Rightarrow> DWORD \<Rightarrow> (unit, DWORD) world" where
  "sample_world c count buf =
     \<lparr>at_pc = c, con = sample_console (ascii ''pwd'') [] no_args,
      chip = \<lparr>uart0_irq_count = count, uart0_rbuf = buf, uart0_tbuf = 0, gpio_irq_count = 0, rtc_irq_count = 0, rtc_time = []\<rparr>,
      hw = 0, lights = light_after 0, loop_k = 0, loop_j = 0x30, master = 1, uart0_irq_old = 0, udp_rx_old = 0, reg = 0,
      received = [], collected = []\<rparr>"

lemma key_is_collected_witness:
  "\<exists>w'. ((\<lambda>v. Option.bind v (main_step sample_net led_port)) ^^ 8) (Some (sample_world KeyTest 1 0x21)) = Some w' \<and> collected w' = [0x21]"
proof -
  obtain st where "char_collect sample_net 0x21 (sample_console (ascii ''pwd'') [] no_args) = Some st"
    using key_step [OF sample_pwd(1), of "0x21" sample_net] by auto
  then show ?thesis
    using key_is_collected [where w = "sample_world KeyTest 1 0x21" and c = "0x21" and N = sample_net and B = led_port and st = st]
    by (fastforce simp: sample_world_def)
qed

text \<open>A key pressed before the buffer is cleared, and another after: the line editor gets the other only.\<close>

lemma quiet_pass:
  assumes "at_pc w = KeyClear" "loop_k w = 0" "udp_rx_old w = udp_rx_count (con w)"
  shows "\<exists>w'. ((\<lambda>v. Option.bind v (main_step N B)) ^^ Suc (Suc (Suc (Suc 0)))) (Some w) = Some w' \<and> at_pc w' = KeyTest \<and>
    con w' = con w \<and> uart0_irq_old w' = uart0_irq_old w \<and> uart0_irq_count (chip w') = uart0_irq_count (chip w) \<and>
    received w' = received w \<and> collected w' = collected w"
proof -
  obtain l s where "blink B (lights w, hw w) = (l, s)" by fastforce
  then show ?thesis using assms by (simp add: main_step_def slave_tx_def Let_def)
qed

lemma key_during_command_lost_witness:
  "\<exists>w2. runs sample_net led_port (key_irq 0x22 (sample_world KeyClear 1 0x21)) w2 \<and> received w2 = [0x22, 0x23] \<and>
     collected w2 = [0x23] \<and> subseq (collected w2) [0x23]"
proof -
  let ?w0 = "key_irq 0x22 (sample_world KeyClear 1 0x21)"
  have w0: "at_pc ?w0 = KeyClear" "loop_k ?w0 = 0" "udp_rx_old ?w0 = udp_rx_count (con ?w0)" "uart0_irq_old ?w0 = 0"
    "uart0_irq_count (chip ?w0) = 2" "received ?w0 = [0x22]" "collected ?w0 = []"
    "con ?w0 = sample_console (ascii ''pwd'') [] no_args"
    by (simp_all add: key_irq_def sample_world_def) (simp add: sample_console_def)
  from quiet_pass [OF w0(1-3), of sample_net led_port] obtain w1 where
    w1: "((\<lambda>v. Option.bind v (main_step sample_net led_port)) ^^ Suc (Suc (Suc (Suc 0)))) (Some ?w0) = Some w1"
    "at_pc w1 = KeyTest" "con w1 = con ?w0" "uart0_irq_old w1 = 0" "uart0_irq_count (chip w1) = 2" "received w1 = [0x22]" "collected w1 = []"
    unfolding w0(4-7) by blast
  let ?v = "key_irq 0x23 w1"
  have v: "at_pc ?v = KeyTest" "uart0_irq_old ?v \<noteq> uart0_irq_count (chip ?v)" "uart0_rbuf (chip ?v) = ucast (0x23 :: BYTE)"
    "(0x23 :: BYTE) \<noteq> 0" "received ?v = [0x22, 0x23]" "collected ?v = []" "con ?v = sample_console (ascii ''pwd'') [] no_args"
    using w1 w0(8) by (simp_all add: key_irq_def)
  obtain st where "char_collect sample_net 0x23 (con ?v) = Some st"
    unfolding v(7) using key_step [OF sample_pwd(1), of "0x23" sample_net] by auto
  from key_is_collected [OF v(1-4) this] obtain w2 where
    w2: "((\<lambda>v. Option.bind v (main_step sample_net led_port)) ^^ 8) (Some ?v) = Some w2" "collected w2 = [0x23]"
    unfolding v(6) by auto
  have "runs sample_net led_port ?w0 ?v" by (rule runs.key [OF runs_steps [OF w1(1) runs.start]])
  from runs_steps [OF w2(1) this] have r: "runs sample_net led_port ?w0 w2" .
  have rv: "received w2 = [0x22, 0x23]" using steps_received [OF w2(1)] v(5) by simp
  from key_during_command_lost [OF _ r] have "subseq (collected w2) [0x23]"
    using rv w2(2) by (auto simp: sample_world_def)
  then show ?thesis using r rv w2(2) by blast
qed


end
