(* ===== verification/Spec2Isabelle.thy ===== *)
theory Spec2Isabelle
  imports FfRead FfWrite FfEdit Libc CpswIf MmcCard Mmu ConsoleLine LwAlloc LwChksum ChipRun MainLoop
begin

text \<open>
  A model of the BBB_ETH firmware: a bare metal program for the BeagleBone Black that runs a FAT
  file system on an MMC card and the lwIP stack on the Ethernet switch of the chip.  All paths
  below are relative to \<^verbatim>\<open>src/\<close>.

  The program has two halves that do not call each other but for the commands of the console, and this
  development has the same two; the MMC driver and the console join them to the chip and to the user.

  \<^bold>\<open>The file system.\<close>  \<^verbatim>\<open>mmc_lib/fatfs/src/ff.c\<close> (FatFs, as the repository keeps and modifies it)
  works on sectors it gets from \<^verbatim>\<open>mmc_lib/fatfs/port/diskio.c\<close>, which hands them to the MMC driver.
  \<^verbatim>\<open>drivers_C/libc.c\<close> replaces the C library of the compiler for all of it.

    \<^item> \<^verbatim>\<open>Prelude\<close>: the C integer types of the target, byte buffers as lists of bytes, the access
      macros \<^verbatim>\<open>LD_WORD\<close> to \<^verbatim>\<open>ST_DWORD\<close>, and the lemmas about them every theory uses.
    \<^item> \<^verbatim>\<open>Diskio\<close>: the block device.  The card is a record of its sectors and of a schedule that says
      which transfers fail; the locale \<^verbatim>\<open>sector_device\<close> states what a file system may rely on.
    \<^item> \<^verbatim>\<open>FfWindow\<close>: the record \<^verbatim>\<open>FATFS\<close> and the one-sector window: \<^verbatim>\<open>move_window\<close>, \<^verbatim>\<open>sync\<close>,
      \<^verbatim>\<open>get_cluster\<close>, \<^verbatim>\<open>put_cluster\<close>, \<^verbatim>\<open>clust2sect\<close>.  The abstraction \<^verbatim>\<open>vsec\<close> is the disk as the file
      system sees it through the window, and \<^verbatim>\<open>move_window\<close> is the identity on it.
    \<^item> \<^verbatim>\<open>FfFat\<close>: the allocation table as a function from clusters to entries, and that reading and
      writing an entry is applying and updating that function, for 12, 16 and 32 bits.
    \<^item> \<^verbatim>\<open>FfChain\<close>: \<^verbatim>\<open>remove_chain\<close> and \<^verbatim>\<open>create_chain\<close>.  The locale \<^verbatim>\<open>fat_ops\<close> states what they need of
      the table, \<^verbatim>\<open>FfFat\<close> provides it.
    \<^item> \<^verbatim>\<open>FfName\<close>: names of eight and three bytes: \<^verbatim>\<open>make_dirfile\<close> and \<^verbatim>\<open>get_fileinfo\<close>.
    \<^item> \<^verbatim>\<open>FfDir\<close>: \<^verbatim>\<open>next_dir_entry\<close>, \<^verbatim>\<open>trace_path\<close>, \<^verbatim>\<open>reserve_direntry\<close>.  The locale \<^verbatim>\<open>entry_walk\<close> is a
      walk over entries; a path is resolved in an abstract directory tree and \<^verbatim>\<open>trace_path\<close> refines
      that resolution.
    \<^item> \<^verbatim>\<open>Libc\<close>: the memory and string routines over a byte memory, the division routines the
      compiler calls, and \<^verbatim>\<open>ConsolePrintf\<close>.
    \<^item> \<^verbatim>\<open>FfMount\<close>: \<^verbatim>\<open>check_fs\<close>, \<^verbatim>\<open>auto_mount\<close>, \<^verbatim>\<open>validate\<close>, \<^verbatim>\<open>f_mount\<close>, and \<^verbatim>\<open>fsys\<close>, the state of the
      module: the table \<^verbatim>\<open>FatFs[]\<close>, the objects it points to and the next identifier.
    \<^item> \<^verbatim>\<open>FfFile\<close>: the record \<^verbatim>\<open>FIL\<close> and the operations on an open file; \<^verbatim>\<open>FfRead\<close> proves that reading
      delivers the bytes of the clusters of the file, \<^verbatim>\<open>FfWrite\<close> what writing does on a full disk.
    \<^item> \<^verbatim>\<open>FfTree\<close>: the operations on paths (\<^verbatim>\<open>f_open\<close> to \<^verbatim>\<open>f_rename\<close>); \<^verbatim>\<open>FfFree\<close> proves the count of
      \<^verbatim>\<open>f_getfree\<close>, \<^verbatim>\<open>FfEdit\<close> the effect of \<^verbatim>\<open>f_chmod\<close>, \<^verbatim>\<open>f_unlink\<close> and \<^verbatim>\<open>f_mkdir\<close> on the disk.

  \<^bold>\<open>The Ethernet driver.\<close>  \<^verbatim>\<open>lwip/ports/cpsw/netif/cpswif.c\<close> is the network interface that lwIP
  calls.  It drives the switch through \<^verbatim>\<open>drivers_C/eth_hwif.c\<close> and the PHYs through
  \<^verbatim>\<open>drivers_C/phy.c\<close> over \<^verbatim>\<open>drivers_C/mdio.c\<close>, and exchanges packets with lwIP as chains of
  \<^verbatim>\<open>pbuf\<close>s.

    \<^item> \<^verbatim>\<open>Bus\<close>: memory-mapped registers.  A device is a record of a read and a write function on a state
      of any type; the code is written over an arbitrary device, so nothing is assumed of the
      hardware where nothing has to be.  The locale \<^verbatim>\<open>plain_regs\<close> is a device some of whose registers
      behave as memory.  Loops that poll a register are \<^verbatim>\<open>partial_function (option)\<close>, so that a
      register that never changes makes them \<^verbatim>\<open>None\<close>.
    \<^item> \<^verbatim>\<open>EthHw\<close>: every function of \<^verbatim>\<open>eth_hwif.c\<close>.  The locale \<^verbatim>\<open>lookup_engine\<close> adds the documented
      behaviour of the table window of the lookup engine (an entry is read and written through three
      words and a control register); \<^verbatim>\<open>cpsw_bus\<close> is a device that behaves so.  The locale \<^verbatim>\<open>switch_context\<close>
      states of each saved register what a write does to it (hold, set bits, add to a count, a command);
      \<^verbatim>\<open>switch_bus\<close> is the switch at its addresses on the chip.
    \<^item> \<^verbatim>\<open>CpswAle\<close>: the searches in the address table and the functions of \<^verbatim>\<open>cpswif.c\<close> that add and delete
      unicast, multicast and VLAN entries, each in the three configurations the source is compiled
      for, with the index as the signed byte \<^verbatim>\<open>err_t\<close> the code keeps it in.
    \<^item> \<^verbatim>\<open>Phy\<close>: \<^verbatim>\<open>mdio.c\<close>, \<^verbatim>\<open>phy.c\<close> and the set-up of a link in \<^verbatim>\<open>cpswif.c\<close>; the locale \<^verbatim>\<open>mdio_bus\<close> is a
      management bus that completes its transfers, with PHYs whose control bits clear themselves and whose
      negotiation, once restarted, takes a number of delays; \<^verbatim>\<open>best_mode\<close> is the best common mode.
    \<^item> \<^verbatim>\<open>Cpdma\<close>: the descriptor rings: initialisation, \<^verbatim>\<open>cpswif_output\<close>, \<^verbatim>\<open>cpswif_transmit\<close>, the
      allocation of receive buffers and the two interrupt service routines.  Descriptors are words of
      the memory, as in the code; \<^verbatim>\<open>tx_ring\<close> is the invariant that relates them to the list of packets
      in flight.  lwIP (buffers, input function) is the argument \<^verbatim>\<open>stack\<close>.
    \<^item> \<^verbatim>\<open>CpswIf\<close>: the set-up of an instance and its ports as an lwIP interface, and the commands of
      \<^verbatim>\<open>cpsw_switch_configuration\<close> with the checks of their parameters.

  \<^bold>\<open>The card.\<close>  \<^verbatim>\<open>diskio.c\<close> reads and writes blocks through \<^verbatim>\<open>mmc_lib/mmc_api.c\<close>, which talks to the host
  controller (\<^verbatim>\<open>mmc_hwif.c\<close>, \<^verbatim>\<open>drivers/mmc.s\<close>) and moves data with the DMA controller
  (\<^verbatim>\<open>drivers_C/dma.c\<close>); both report by interrupts.

    \<^item> \<^verbatim>\<open>Dma\<close>: every function of \<^verbatim>\<open>dma.c\<close>: channels, events, queues, parameter sets, saved context.
    \<^item> \<^verbatim>\<open>MmcHw\<close>: \<^verbatim>\<open>mmc_hwif.c\<close> and the register routines of \<^verbatim>\<open>mmc.s\<close>: resets, clock divisor, bus, status.
    \<^item> \<^verbatim>\<open>MmcApi\<close>: commands, the waits on the flags that the interrupt handlers set, the handlers, the
      parameter sets of a transfer, the identification of a card.  The record \<^verbatim>\<open>board\<close> is the hardware:
      its registers and a function that gives the next interrupt, which a wait takes until its flag is
      set; a wait without end is \<^verbatim>\<open>None\<close>.
    \<^item> \<^verbatim>\<open>MmcDisk\<close>: the locale \<^verbatim>\<open>sd_host\<close> states what the driver relies on in the hardware (registers that
      hold what is written, a card that answers or not, a DMA transfer that moves what the parameter set
      says and is then reported); in it, reading and writing blocks refine the card of \<^verbatim>\<open>Diskio\<close>.
    \<^item> \<^verbatim>\<open>MmcCard\<close>: a machine that satisfies \<^verbatim>\<open>sd_host\<close>, and the refinement for the driver as written:
      \<^verbatim>\<open>MMCReadCmdSend\<close> and \<^verbatim>\<open>MMCWriteCmdSend\<close> do what \<^verbatim>\<open>Diskio\<close> assumes of the card.

  \<^bold>\<open>The console and the memory map.\<close>

    \<^item> \<^verbatim>\<open>Console\<close>: \<^verbatim>\<open>drivers_C/con_uif.c\<close>, the commands of \<^verbatim>\<open>lwip/apps/udp_raw/udp_apps.c\<close> and
      \<^verbatim>\<open>FATFsMount\<close>: keys, the line buffer, its splitting in place into arguments, the commands over the
      file system.  What they print is a list of bytes.
    \<^item> \<^verbatim>\<open>ConsoleLine\<close>: the line buffer as a list of characters and the arguments as the words of it; the
      invariant \<^verbatim>\<open>console_ok\<close>; which command a line runs; what happens without an argument; the paths.
    \<^item> \<^verbatim>\<open>Mmu\<close>: \<^verbatim>\<open>drivers_C/mmu.c\<close> over the coprocessor registers; \<^verbatim>\<open>translate\<close> is the translation of
      section descriptors as the ARM architecture defines it.

  \<^bold>\<open>The memory of lwIP.\<close>  The stack, the driver and the console take their buffers from \<^verbatim>\<open>lwip/src/core\<close>.

    \<^item> \<^verbatim>\<open>LwHeap\<close>: \<^verbatim>\<open>mem.c\<close>.  The headers of the blocks are a map from offsets in the heap; the abstraction
      is the list of the blocks with their lengths, on which \<^verbatim>\<open>mem_malloc\<close> is first fit and \<^verbatim>\<open>mem_free\<close> melts
      neighbours.  The locale \<^verbatim>\<open>allocator\<close> states what a client relies on (a new block is apart from all
      in use, a release gives back exactly one), and \<^verbatim>\<open>LwHeap\<close> provides it.
    \<^item> \<^verbatim>\<open>LwPool\<close>: \<^verbatim>\<open>memp.c\<close>, the pools: arrays whose free elements are chained through their first words.  Each
      pool provides \<^verbatim>\<open>allocator\<close> too, and fails only when it is empty.
    \<^item> \<^verbatim>\<open>LwPbuf\<close>: \<^verbatim>\<open>pbuf.c\<close>, the packet buffers over heap and pools.  A chain is the list of its buffers
      (\<^verbatim>\<open>chained\<close>) and holds the list of its bytes (\<^verbatim>\<open>contents\<close>).
    \<^item> \<^verbatim>\<open>LwCopy\<close>: copying between chains and memory, headers, and the search in a chain, each as its effect on
      the bytes; \<^verbatim>\<open>LwAlloc\<close>: allocation and release of chains with the counts of references, as their
      effect on the elements that are handed out.
    \<^item> \<^verbatim>\<open>LwChksum\<close>: \<^verbatim>\<open>inet_chksum.c\<close>, which adds in the byte order of the machine from any address and over
      buffers of odd length, against the sum that RFC 1071 defines.

  \<^bold>\<open>The chip and the main loop.\<close>

    \<^item> \<^verbatim>\<open>Chip\<close>: the assembly drivers (\<^verbatim>\<open>drivers/uart.s\<close>, \<^verbatim>\<open>gpio.s\<close>, \<^verbatim>\<open>tim.s\<close>, \<^verbatim>\<open>irq.s\<close>, \<^verbatim>\<open>mclk.s\<close>, \<^verbatim>\<open>eth.s\<close>) over an
      arbitrary bus, and the critical sections of \<^verbatim>\<open>lwip/ports/cpsw/sys_arch.c\<close>.  \<^verbatim>\<open>ChipRun\<close>: printing over a
      UART that lets one wait (locale \<^verbatim>\<open>transmitter\<close>), delays on a timer that counts, the choice of a handler.
    \<^item> \<^verbatim>\<open>MainLoop\<close>: the endless loop of \<^verbatim>\<open>main.c\<close> as steps, one for each access to a variable that an
      interrupt handler changes, with the interrupts of the UART and of the network between any two steps
      (\<^verbatim>\<open>runs\<close>); the invariant \<^verbatim>\<open>keys_ok\<close> of the exchange of keys; the running light (locale \<^verbatim>\<open>output_port\<close>) beside
      whatever else writes its pins (\<^verbatim>\<open>passes\<close>).

  \<^bold>\<open>Conventions.\<close>  An \<^verbatim>\<open>unsigned char\<close> is a \<^verbatim>\<open>8 word\<close>, an \<^verbatim>\<open>unsigned int\<close> a \<^verbatim>\<open>32 word\<close>, and so on, so
  all arithmetic wraps as on the target; \<^verbatim>\<open>err_t\<close> is a byte read with \<^verbatim>\<open>scast\<close>.  A structure is a
  record, an enumeration of result codes a datatype.  A function that changes a structure through a
  pointer returns the changed structure.  A function with an uninitialised variable takes its value as
  an argument, so that a theorem about it shows what depends on it.

  \<^bold>\<open>Loops.\<close>  Loops over the allocation table that may be cyclic, the loops over directories and the
  polling loops are partial and return \<^verbatim>\<open>None\<close> where the code does not return; that they return is
  then part of the theorem (for \<^verbatim>\<open>remove_chain\<close> on every table: it frees what it passes).  Counted
  loops of the code (204 descriptors of a ring, 1024 entries of the address table, the retries of the
  PHY) recurse on the counter the code has, so no fuel is added anywhere.

  \<^bold>\<open>What the theorems show.\<close>  For each component: that its initialisation establishes an invariant
  (\<^verbatim>\<open>mount_wellformed\<close>, \<^verbatim>\<open>cpdma_init_ring\<close>), that its operations keep it and do what they are for on the
  abstract state (\<^verbatim>\<open>f_read_delivers\<close>, \<^verbatim>\<open>trace_path_resolves\<close>, \<^verbatim>\<open>transmit_queues_packet\<close>,
  \<^verbatim>\<open>unlink_frees_file\<close> and others), what happens on errors of the medium or a full resource, round trips
  (names, blocks, table entries, the saved context of the switch), and, where the code does not do
  what it is meant to, exactly what it does instead.

  \<^bold>\<open>Not modelled.\<close>
    \<^item> The start-up of \<^verbatim>\<open>main.c\<close> before its loop and \<^verbatim>\<open>startup.s\<close>; the saving of registers around an interrupt and the
      cache operations of \<^verbatim>\<open>cp15.s\<close>, but for those \<^verbatim>\<open>mmu.c\<close> calls.
    \<^item> Interrupts inside of a command or of a transfer: the MMC driver takes them where it waits for them, the
      main loop between its steps.
    \<^item> The protocols of lwIP and the servers over them (\<^verbatim>\<open>lwip/src\<close>, \<^verbatim>\<open>lwip/apps\<close>), which are vendored or
      generated: the driver sees them as the argument \<^verbatim>\<open>stack\<close>.
    \<^item> \<^verbatim>\<open>f_mkfs\<close> and the FSInfo sector, which \<^verbatim>\<open>ff.h\<close> switches off, and the output of debug messages.
    \<^item> Alignment, caches and the timing of the hardware.
\<close>

end
